(* ===== verification/Ngnfs_Prelude.thy ===== *)
theory Ngnfs_Prelude
  imports Main "HOL-Library.Word"
begin

text \<open>
  Shared vocabulary of the development: the C integer types and their
  truncating conversions, the errno values the sources return, and the result
  type of code that can stop the process.  \<open>BUG_ON\<close> and \<open>assert\<close>
  (\<open>shared/lk/bug.h\<close>) end the process, so every function that can reach one
  returns a \<open>run\<close>: the value, \<open>Bug\<close> when an assertion failed,
  \<open>Spin\<close> when a loop that is modelled with fuel had not finished, or
  \<open>Undef\<close> when the code's behaviour is not defined (a \<open>NULL\<close> or freed
  pointer is used, or a list node is linked twice).
\<close>

named_theorems run_simps \<open>equations of the run result type\<close>
named_theorems trunc_simps \<open>removing C conversions whose argument is in range\<close>

subsection \<open>C integer types\<close>

type_synonym u8 = "8 word"
type_synonym u16 = "16 word"
type_synonym u32 = "32 word"
type_synonym u64 = "64 word"

text \<open>
  The offset arithmetic of the sources computes in \<open>int\<close> or \<open>size_t\<close> and
  stores into 16-bit variables.  \<open>to_u16\<close> and \<open>to_s16\<close> are the
  conversions at those stores; values of type u16 are kept as \<open>nat\<close> below
  \<open>2 ^ 16\<close> and values of type s16 as \<open>int\<close>.
\<close>

definition to_u16 :: "int \<Rightarrow> nat" where
  "to_u16 x = nat (x mod 65536)"

definition to_s16 :: "int \<Rightarrow> int" where
  "to_s16 x = (x + 32768) mod 65536 - 32768"

lemma to_u16_bound [simp]: "to_u16 x < 65536"
  by (simp add: to_u16_def nat_less_iff)

lemma to_u16_id [trunc_simps]: "0 \<le> x \<Longrightarrow> x < 65536 \<Longrightarrow> to_u16 x = nat x"
  by (simp add: to_u16_def)

lemma to_u16_of_nat [trunc_simps]: "n < 65536 \<Longrightarrow> to_u16 (int n) = n"
  by (simp add: to_u16_def)

lemma to_u16_eqI: "x = int n \<Longrightarrow> n < 65536 \<Longrightarrow> to_u16 x = n"
  by (simp add: to_u16_of_nat)

lemma to_s16_id [trunc_simps]: "-32768 \<le> x \<Longrightarrow> x < 32768 \<Longrightarrow> to_s16 x = x"
  by (simp add: to_s16_def)

lemma to_s16_zero_iff: "-32768 \<le> x \<Longrightarrow> x < 32768 \<Longrightarrow> to_s16 x = 0 \<longleftrightarrow> x = 0"
  by (simp add: to_s16_id)

subsection \<open>errno values\<close>

abbreviation (input) ENOENT :: int where "ENOENT \<equiv> 2"
abbreviation (input) EIO :: int where "EIO \<equiv> 5"
abbreviation (input) ENOMEM :: int where "ENOMEM \<equiv> 12"
abbreviation (input) EEXIST :: int where "EEXIST \<equiv> 17"
abbreviation (input) EINVAL :: int where "EINVAL \<equiv> 22"
abbreviation (input) EPROTO :: int where "EPROTO \<equiv> 71"
abbreviation (input) EOPNOTSUPP :: int where "EOPNOTSUPP \<equiv> 95"
abbreviation (input) ESHUTDOWN :: int where "ESHUTDOWN \<equiv> 108"

subsection \<open>Runs that an assertion can stop\<close>

datatype 'a run = Ret 'a | Bug | Spin | Undef

primrec bind_run :: "'a run \<Rightarrow> ('a \<Rightarrow> 'b run) \<Rightarrow> 'b run" where
  "bind_run (Ret x) f = f x"
| "bind_run Bug f = Bug"
| "bind_run Spin f = Spin"
| "bind_run Undef f = Undef"

definition BUG_ON :: "bool \<Rightarrow> 'a run \<Rightarrow> 'a run" where
  "BUG_ON c r = (if c then Bug else r)"

lemma bind_run_Ret_iff [run_simps]:
  "bind_run r f = Ret y \<longleftrightarrow> (\<exists>x. r = Ret x \<and> f x = Ret y)"
  by (cases r) auto

lemma bind_run_Bug_iff [run_simps]:
  "bind_run r f = Bug \<longleftrightarrow> r = Bug \<or> (\<exists>x. r = Ret x \<and> f x = Bug)"
  by (cases r) auto

lemma BUG_ON_Ret_iff [run_simps]: "BUG_ON c r = Ret x \<longleftrightarrow> \<not> c \<and> r = Ret x"
  by (simp add: BUG_ON_def)

lemma BUG_ON_Bug_iff [run_simps]: "BUG_ON c r = Bug \<longleftrightarrow> c \<or> r = Bug"
  by (simp add: BUG_ON_def)

lemma BUG_ON_False [simp]: "BUG_ON False r = r"
  and BUG_ON_True [simp]: "BUG_ON True r = Bug"
  by (simp_all add: BUG_ON_def)

lemma bind_run_assoc: "bind_run (bind_run r f) g = bind_run r (\<lambda>x. bind_run (f x) g)"
  by (cases r) simp_all

subsection \<open>Lists\<close>

lemma sum_list_map_take_nth_drop:
  fixes f :: "'a \<Rightarrow> nat"
  assumes "i < length xs"
  shows "sum_list (map f xs) = f (xs ! i) + sum_list (map f (take i xs @ drop (Suc i) xs))"
proof -
  have "xs = take i xs @ xs ! i # drop (Suc i) xs"
    using assms by (rule id_take_nth_drop)
  then have "sum_list (map f xs) = sum_list (map f (take i xs @ xs ! i # drop (Suc i) xs))"
    by simp
  then show ?thesis by simp
qed

lemma nth_take_insert:
  assumes "p \<le> length xs"
  shows "(take p xs @ x # drop p xs) ! i =
    (if i < p then xs ! i else if i = p then x else xs ! (i - 1))"
proof -
  have "drop p xs ! (i - Suc p) = xs ! (i - 1)" if "p < i"
    using that assms by (cases i) auto
  then show ?thesis
    using assms by (auto simp: nth_append nth_Cons' min_def)
qed

lemma nth_take_delete:
  assumes "p < length xs" "i < length xs - 1"
  shows "(take p xs @ drop (Suc p) xs) ! i = (if i < p then xs ! i else xs ! Suc i)"
  using assms by (auto simp: nth_append min_def)

subsection \<open>Transition systems\<close>

text \<open>
  States reachable by a step relation, and the two contracts the components with
  several threads use: an invariant the steps keep, and a start state that has it.
\<close>

inductive reach :: "('s \<Rightarrow> 's \<Rightarrow> bool) \<Rightarrow> 's \<Rightarrow> 's \<Rightarrow> bool" for step init where
  start: "reach step init init"
| step: "reach step init y \<Longrightarrow> step y y' \<Longrightarrow> reach step init y'"

lemma reach_trans: "reach step y' y'' \<Longrightarrow> reach step y y' \<Longrightarrow> reach step y y''"
  by (induction rule: reach.induct) (auto intro: reach.step)

locale kept_system =
  fixes step :: "'s \<Rightarrow> 's \<Rightarrow> bool" and inv :: "'s \<Rightarrow> bool"
  assumes step_inv: "inv y \<Longrightarrow> step y y' \<Longrightarrow> inv y'"
begin

lemma reach_keeps: "reach step y y' \<Longrightarrow> inv y \<Longrightarrow> inv y'"
  by (induction rule: reach.induct) (auto intro: step_inv)

end

locale invariant_system = kept_system +
  fixes init :: 'a
  assumes init_inv: "inv init"
begin

lemma reach_inv: "reach step init y \<Longrightarrow> inv y"
  by (erule reach_keeps) (rule init_inv)

end

end
