(* ===== verification/Lk_Mem.thy ===== *)
theory Lk_Mem
  imports Ngnfs_Prelude
begin

text \<open>
  Byte-addressed memory and the unaligned little- and big-endian accessors of
  \<open>shared/lk/unaligned.h\<close>.  A memory maps an offset from some base pointer
  to the byte stored there; \<open>memcpy\<close> and \<open>memmove\<close> copy byte strings.
\<close>

named_theorems mem_simps \<open>reads after writes at the same or at disjoint addresses\<close>

type_synonym mem = "nat \<Rightarrow> u8"

definition bytes :: "mem \<Rightarrow> nat \<Rightarrow> nat \<Rightarrow> u8 list" where
  "bytes m a n = map (\<lambda>i. m (a + i)) [0..<n]"

definition write_bytes :: "mem \<Rightarrow> nat \<Rightarrow> u8 list \<Rightarrow> mem" where
  "write_bytes m a bs = (\<lambda>i. if a \<le> i \<and> i < a + length bs then bs ! (i - a) else m i)"

text \<open>\<open>memcpy(dst + d, src + s, n)\<close> between two memories, \<open>memmove\<close> within one.\<close>

definition memcpy :: "mem \<Rightarrow> nat \<Rightarrow> mem \<Rightarrow> nat \<Rightarrow> nat \<Rightarrow> mem" where
  "memcpy dst d src s n = write_bytes dst d (bytes src s n)"

definition memmove :: "mem \<Rightarrow> nat \<Rightarrow> nat \<Rightarrow> nat \<Rightarrow> mem" where
  "memmove m d s n = write_bytes m d (bytes m s n)"

subsection \<open>Numbers as byte strings\<close>

text \<open>\<open>le_num\<close> and \<open>num_le\<close> are the reference: a little-endian byte string of a given width.\<close>

primrec le_num :: "u8 list \<Rightarrow> nat" where
  "le_num [] = 0"
| "le_num (b # bs) = unat b + 256 * le_num bs"

primrec num_le :: "nat \<Rightarrow> nat \<Rightarrow> u8 list" where
  "num_le 0 v = []"
| "num_le (Suc n) v = of_nat v # num_le n (v div 256)"

lemma length_num_le [simp]: "length (num_le n v) = n"
  by (induction n arbitrary: v) auto

lemma unat_of_nat_u8: "unat (of_nat v :: u8) = v mod 256"
  by (simp add: unat_of_nat)

lemma unat_u8_bound: "unat (b :: u8) < 256"
  using unsigned_less [of b, where ?'a = nat] by simp

lemma le_num_num_le: "le_num (num_le n v) = v mod 256 ^ n"
proof (induction n arbitrary: v)
  case 0
  then show ?case by simp
next
  case (Suc n)
  have "v mod 256 ^ Suc n = v mod (256 * 256 ^ n)" by simp
  also have "\<dots> = 256 * (v div 256 mod 256 ^ n) + v mod 256"
    by (rule mod_mult2_eq)
  finally show ?case using Suc by (simp add: unat_of_nat_u8)
qed

lemma le_num_bound: "le_num bs < 256 ^ length bs"
proof (induction bs)
  case Nil
  then show ?case by simp
next
  case (Cons b bs)
  have "unat b < 256" by (rule unat_u8_bound)
  with Cons show ?case by simp
qed

lemma num_le_le_num: "num_le (length bs) (le_num bs) = bs"
proof (induction bs)
  case Nil
  then show ?case by simp
next
  case (Cons b bs)
  have b: "unat b < 256" by (rule unat_u8_bound)
  then have "(unat b + 256 * le_num bs) div 256 = le_num bs" by simp
  moreover have "(of_nat (unat b + 256 * le_num bs) :: u8) = b"
  proof -
    have "(256 :: u8) = 0" by simp
    then show ?thesis by (simp only: of_nat_add of_nat_mult of_nat_numeral) simp
  qed
  ultimately show ?case using Cons by simp
qed

lemma le_num_inject: "length bs = length cs \<Longrightarrow> le_num bs = le_num cs \<Longrightarrow> bs = cs"
  by (metis num_le_le_num)

subsection \<open>Reading back what was written\<close>

lemma length_bytes [simp]: "length (bytes m a n) = n"
  by (simp add: bytes_def)

lemma nth_bytes [simp]: "i < n \<Longrightarrow> bytes m a n ! i = m (a + i)"
  by (simp add: bytes_def)

lemma bytes_0 [simp]: "bytes m a 0 = []"
  by (simp add: bytes_def)

lemma write_bytes_Nil [simp]: "write_bytes m a [] = m"
  by (auto simp: write_bytes_def fun_eq_iff)

lemma bytes_cong: "(\<And>i. a \<le> i \<Longrightarrow> i < a + n \<Longrightarrow> m i = m' i) \<Longrightarrow> bytes m a n = bytes m' a n"
  by (auto simp: bytes_def)

lemma bytes_append: "bytes m a (n + k) = bytes m a n @ bytes m (a + n) k"
  by (rule nth_equalityI) (auto simp: nth_append add.assoc)

lemma bytes_write_same [mem_simps]:
  "n = length bs \<Longrightarrow> bytes (write_bytes m a bs) a n = bs"
  by (rule nth_equalityI) (auto simp: write_bytes_def)

lemma bytes_write_other [mem_simps]:
  "a + n \<le> b \<or> b + length bs \<le> a \<Longrightarrow> bytes (write_bytes m b bs) a n = bytes m a n"
  by (rule bytes_cong) (auto simp: write_bytes_def)

lemma write_bytes_outside [mem_simps]:
  "i < a \<or> a + length bs \<le> i \<Longrightarrow> write_bytes m a bs i = m i"
  by (auto simp: write_bytes_def)

lemma write_bytes_inside [mem_simps]:
  "a \<le> i \<Longrightarrow> i < a + length bs \<Longrightarrow> write_bytes m a bs i = bs ! (i - a)"
  by (auto simp: write_bytes_def)

lemma bytes_memcpy_same: "bytes (memcpy dst d src s n) d n = bytes src s n"
  by (simp add: memcpy_def mem_simps)

subsection \<open>get_unaligned and put_unaligned\<close>

definition get_unaligned_le16 :: "mem \<Rightarrow> nat \<Rightarrow> nat" where
  "get_unaligned_le16 m p = le_num (bytes m p 2)"

definition get_unaligned_le32 :: "mem \<Rightarrow> nat \<Rightarrow> nat" where
  "get_unaligned_le32 m p = le_num (bytes m p 4)"

definition get_unaligned_le64 :: "mem \<Rightarrow> nat \<Rightarrow> nat" where
  "get_unaligned_le64 m p = le_num (bytes m p 8)"

definition put_unaligned_le16 :: "nat \<Rightarrow> mem \<Rightarrow> nat \<Rightarrow> mem" where
  "put_unaligned_le16 val m p = write_bytes m p (num_le 2 val)"

definition put_unaligned_le32 :: "nat \<Rightarrow> mem \<Rightarrow> nat \<Rightarrow> mem" where
  "put_unaligned_le32 val m p = write_bytes m p (num_le 4 val)"

definition put_unaligned_le64 :: "nat \<Rightarrow> mem \<Rightarrow> nat \<Rightarrow> mem" where
  "put_unaligned_le64 val m p = write_bytes m p (num_le 8 val)"

lemma get_unaligned_le16_bound [simp]: "get_unaligned_le16 m p < 65536"
  using le_num_bound [of "bytes m p 2"] by (simp add: get_unaligned_le16_def)

lemma get_put_le16_same [mem_simps]:
  "v < 65536 \<Longrightarrow> get_unaligned_le16 (put_unaligned_le16 v m p) p = v"
  by (simp add: get_unaligned_le16_def put_unaligned_le16_def mem_simps le_num_num_le)

lemma get_le16_write_other [mem_simps]:
  "p + 2 \<le> a \<or> a + length bs \<le> p \<Longrightarrow>
    get_unaligned_le16 (write_bytes m a bs) p = get_unaligned_le16 m p"
  by (simp add: get_unaligned_le16_def bytes_write_other)

lemma get_put_le16_other [mem_simps]:
  "p + 2 \<le> q \<or> q + 2 \<le> p \<Longrightarrow>
    get_unaligned_le16 (put_unaligned_le16 v m q) p = get_unaligned_le16 m p"
  by (simp add: put_unaligned_le16_def get_le16_write_other)

lemma bytes_put_le16_other [mem_simps]:
  "p + n \<le> q \<or> q + 2 \<le> p \<Longrightarrow> bytes (put_unaligned_le16 v m q) p n = bytes m p n"
  by (simp add: put_unaligned_le16_def bytes_write_other)

lemma put_le16_outside [mem_simps]:
  "i < q \<or> q + 2 \<le> i \<Longrightarrow> put_unaligned_le16 v m q i = m i"
  by (simp add: put_unaligned_le16_def write_bytes_outside)

lemma get_put_le32_same [mem_simps]:
  "v < 2 ^ 32 \<Longrightarrow> get_unaligned_le32 (put_unaligned_le32 v m p) p = v"
  by (simp add: get_unaligned_le32_def put_unaligned_le32_def mem_simps le_num_num_le)

lemma get_put_le64_same [mem_simps]:
  "v < 2 ^ 64 \<Longrightarrow> get_unaligned_le64 (put_unaligned_le64 v m p) p = v"
  by (simp add: get_unaligned_le64_def put_unaligned_le64_def mem_simps le_num_num_le)

end
