(* ===== verification/Btree_Block.thy ===== *)
theory Btree_Block
  imports Lk_Mem
begin

text \<open>
  The btree block layer of \<open>shared/btree.c\<close> over the on-disk format of
  \<open>shared/format-block.h\<close>, at byte level.  A block is the memory behind a
  \<open>struct ngnfs_btree_block\<close> pointer: the 16 byte header (\<open>bnr\<close> at 0,
  \<open>nr_items\<close> at 8, \<open>total_free\<close> at 10, \<open>avail_free\<close> at 12,
  \<open>level\<close> at 14), the \<open>item_off\<close> array from 16 on, and the packed item
  payloads at the end of the 4096 byte block.  An item is its offset; its payload
  is \<open>val_size\<close> (2 bytes), \<open>key_size\<close> (1 byte), the key and the value.
  This theory holds the operations; the invariant and the correctness lemmas are
  in the theories that import it.
\<close>

subsection \<open>Format constants\<close>

definition NGNFS_BLOCK_SIZE :: nat where [simp]: "NGNFS_BLOCK_SIZE = 4096"
definition BTREE_HDR_SIZE :: nat where [simp]: "BTREE_HDR_SIZE = 16"
definition BTREE_ITEM_SIZE :: nat where [simp]: "BTREE_ITEM_SIZE = 3"
definition ITEM_OFF_SIZE :: nat where [simp]: "ITEM_OFF_SIZE = 2"
definition NGNFS_BTREE_KEY_SIZE_MAX :: nat where [simp]: "NGNFS_BTREE_KEY_SIZE_MAX = 255"
definition NGNFS_BTREE_VAL_SIZE_MAX :: nat where [simp]: "NGNFS_BTREE_VAL_SIZE_MAX = 512"
definition NGNFS_BTREE_MIN_USED_PCT :: nat where [simp]: "NGNFS_BTREE_MIN_USED_PCT = 35"

definition NGNFS_BTREE_MAX_FREE :: nat where
  [simp]: "NGNFS_BTREE_MAX_FREE = NGNFS_BLOCK_SIZE - BTREE_HDR_SIZE"

definition NGNFS_BTREE_MAX_ITEMS :: nat where
  [simp]: "NGNFS_BTREE_MAX_ITEMS = NGNFS_BTREE_MAX_FREE div (ITEM_OFF_SIZE + BTREE_ITEM_SIZE + 1 + 0)"

subsection \<open>Header fields\<close>

definition nr_items :: "mem \<Rightarrow> nat" where "nr_items bt = get_unaligned_le16 bt 8"
definition total_free :: "mem \<Rightarrow> nat" where "total_free bt = get_unaligned_le16 bt 10"
definition avail_free :: "mem \<Rightarrow> nat" where "avail_free bt = get_unaligned_le16 bt 12"

text \<open>\<open>le16_add_cpu(&bt->field, val)\<close>, the field given by its offset.\<close>

definition le16_add_cpu :: "mem \<Rightarrow> nat \<Rightarrow> int \<Rightarrow> mem" where
  "le16_add_cpu m p val = put_unaligned_le16 (to_u16 (int (get_unaligned_le16 m p) + val)) m p"

subsection \<open>Items\<close>

definition key_size :: "mem \<Rightarrow> nat \<Rightarrow> nat" where "key_size bt item = unat (bt (item + 2))"
definition val_size :: "mem \<Rightarrow> nat \<Rightarrow> nat" where "val_size bt item = get_unaligned_le16 bt item"

definition key_ptr :: "nat \<Rightarrow> nat" where
  "key_ptr item = item + BTREE_ITEM_SIZE"

definition val_ptr :: "mem \<Rightarrow> nat \<Rightarrow> nat" where
  "val_ptr bt item = key_ptr item + key_size bt item"

text \<open>The bytes behind \<open>key_ptr\<close> and \<open>val_ptr\<close>.\<close>

definition item_key :: "mem \<Rightarrow> nat \<Rightarrow> u8 list" where
  "item_key bt item = bytes bt (key_ptr item) (key_size bt item)"

definition item_val :: "mem \<Rightarrow> nat \<Rightarrow> u8 list" where
  "item_val bt item = bytes bt (val_ptr bt item) (val_size bt item)"

text \<open>The address of \<open>bt->item_off[pos]\<close>.\<close>

definition item_off_addr :: "nat \<Rightarrow> nat" where
  "item_off_addr pos = BTREE_HDR_SIZE + ITEM_OFF_SIZE * pos"

definition get_item_off :: "mem \<Rightarrow> nat \<Rightarrow> nat run" where
  "get_item_off bt pos =
     BUG_ON (pos > nr_items bt) (Ret (get_unaligned_le16 bt (item_off_addr pos)))"

definition set_item_off :: "mem \<Rightarrow> nat \<Rightarrow> nat \<Rightarrow> mem run" where
  "set_item_off bt pos off =
     BUG_ON (pos > nr_items bt) (Ret (put_unaligned_le16 off bt (item_off_addr pos)))"

definition item_ptr :: "mem \<Rightarrow> nat \<Rightarrow> nat run" where
  "item_ptr bt pos = get_item_off bt pos"

definition last_item_ptr :: "mem \<Rightarrow> nat run" where
  "last_item_ptr bt = item_ptr bt (to_u16 (int (nr_items bt) - 1))"

definition key_val_size :: "nat \<Rightarrow> nat \<Rightarrow> nat" where
  "key_val_size ks vs = to_u16 (int (BTREE_ITEM_SIZE + ks + vs))"

definition item_size :: "mem \<Rightarrow> nat \<Rightarrow> nat" where
  "item_size bt item = key_val_size (key_size bt item) (val_size bt item)"

definition total_item_size :: "mem \<Rightarrow> nat \<Rightarrow> nat" where
  "total_item_size bt item = to_u16 (int (ITEM_OFF_SIZE + item_size bt item))"

definition avail_free_end :: "mem \<Rightarrow> nat" where
  "avail_free_end bt = to_u16 (int (item_off_addr (nr_items bt) + avail_free bt))"

definition set_avail_free_end :: "mem \<Rightarrow> nat \<Rightarrow> mem" where
  "set_avail_free_end bt off =
     put_unaligned_le16 (to_u16 (int off - int (item_off_addr (nr_items bt)))) bt 12"

definition used_size :: "mem \<Rightarrow> nat" where
  "used_size bt = to_u16 (int NGNFS_BLOCK_SIZE - int (BTREE_HDR_SIZE + total_free bt))"

definition used_pct :: "mem \<Rightarrow> nat" where
  "used_pct bt = to_u16 (int (used_size bt * 100 div NGNFS_BTREE_MAX_FREE))"

definition memmove_tail_offs :: "mem \<Rightarrow> nat \<Rightarrow> int \<Rightarrow> mem" where
  "memmove_tail_offs bt pos distance =
     (let nr = to_s16 (int (nr_items bt) - int pos)
      in if nr > 0 \<and> distance \<noteq> 0
         then memmove bt (item_off_addr (nat (int pos + distance))) (item_off_addr pos)
                (nat nr * ITEM_OFF_SIZE)
         else bt)"

subsection \<open>Comparing keys and searching\<close>

text \<open>\<open>memcmp\<close> of equally long strings: the difference of the first bytes that differ.\<close>

fun memcmp :: "u8 list \<Rightarrow> u8 list \<Rightarrow> int" where
  "memcmp (a # as) (b # bs) = (if a = b then memcmp as bs else int (unat a) - int (unat b))"
| "memcmp _ _ = 0"

definition cmp_keys :: "u8 list \<Rightarrow> u8 list \<Rightarrow> int" where
  "cmp_keys key_a key_b =
     (let n = min (length key_a) (length key_b);
          c = memcmp (take n key_a) (take n key_b)
      in if c \<noteq> 0 then c else int (length key_b) - int (length key_a))"

text \<open>
  The loop of \<open>btree_search\<close>.  \<open>first\<close>, \<open>last\<close> and \<open>cmp\<close> are s16,
  \<open>pos\<close> is u16; each iteration spends one unit of fuel.
\<close>

primrec search_loop :: "nat \<Rightarrow> mem \<Rightarrow> u8 list \<Rightarrow> int \<Rightarrow> int \<Rightarrow> nat \<Rightarrow> int \<Rightarrow> (nat \<times> int) run" where
  "search_loop 0 bt key first lst pos cmp =
     (if first \<le> lst then Spin else Ret (pos, cmp))"
| "search_loop (Suc fuel) bt key first lst pos cmp =
     (if first \<le> lst then
        (let pos = to_u16 ((first + lst) div 2)
         in bind_run (item_ptr bt pos) (\<lambda>item.
              let cmp = to_s16 (cmp_keys key (item_key bt item))
              in if cmp = 0 then Ret (pos, cmp)
                 else if cmp < 0
                 then search_loop fuel bt key first (to_s16 (int pos - 1)) pos cmp
                 else (let pos = to_u16 (int pos + 1)
                       in search_loop fuel bt key (to_s16 (int pos)) lst pos cmp)))
      else Ret (pos, cmp))"

definition btree_search :: "mem \<Rightarrow> u8 list \<Rightarrow> (nat \<times> int) run" where
  "btree_search bt key =
     search_loop (Suc (nr_items bt)) bt (take (to_u16 (int (length key))) key)
       0 (to_s16 (int (nr_items bt) - 1)) 0 1"

subsection \<open>Inserting and removing items\<close>

definition insert_item :: "mem \<Rightarrow> nat \<Rightarrow> u8 list \<Rightarrow> u8 list \<Rightarrow> mem run" where
  "insert_item bt pos key val =
     BUG_ON (pos > nr_items bt) (
     let size = key_val_size (to_u16 (int (length key))) (to_u16 (int (length val))) in
     BUG_ON (avail_free bt < ITEM_OFF_SIZE + size) (
     let off = to_u16 (int (avail_free_end bt) - int size);
         bt = memmove_tail_offs bt pos 1 in
     bind_run (set_item_off bt pos off) (\<lambda>bt.
     let bt = le16_add_cpu bt 8 1;
         bt = le16_add_cpu bt 10 (- int (ITEM_OFF_SIZE + size));
         bt = le16_add_cpu bt 12 (- int (ITEM_OFF_SIZE + size)) in
     bind_run (item_ptr bt pos) (\<lambda>item.
     let bt = bt(item + 2 := of_nat (length key));
         bt = put_unaligned_le16 (to_u16 (int (length val))) bt item;
         bt = write_bytes bt (key_ptr item) key;
         bt = write_bytes bt (val_ptr bt item) val
     in Ret bt))))"

definition remove_item :: "mem \<Rightarrow> nat \<Rightarrow> mem run" where
  "remove_item bt pos =
     BUG_ON (pos > nr_items bt) (
     bind_run (item_ptr bt pos) (\<lambda>item.
     let tot = total_item_size bt item;
         bt = le16_add_cpu bt 10 (int tot) in
     bind_run (get_item_off bt pos) (\<lambda>off.
     let bt = (if off = avail_free_end bt then le16_add_cpu bt 12 (int tot)
               else le16_add_cpu bt 12 (int ITEM_OFF_SIZE));
         bt = memmove_tail_offs bt (to_u16 (int pos + 1)) (-1) in
     bind_run (set_item_off bt (to_u16 (int (nr_items bt) - 1)) 0) (\<lambda>bt.
     Ret (le16_add_cpu bt 8 (-1))))))"

subsection \<open>The exported single block operations\<close>

definition ngnfs_btree_init_block :: "mem \<Rightarrow> u8 \<Rightarrow> mem" where
  "ngnfs_btree_init_block bt level =
     (let bt = put_unaligned_le64 0 bt 0;
          bt = put_unaligned_le16 0 bt 8;
          bt = put_unaligned_le16 NGNFS_BTREE_MAX_FREE bt 10;
          bt = put_unaligned_le16 (total_free bt) bt 12
      in bt(14 := level))"

text \<open>Returns \<open>ret\<close> and the bytes copied to the front of the caller's buffer.\<close>

definition ngnfs_btree_lookup :: "mem \<Rightarrow> u8 list \<Rightarrow> nat \<Rightarrow> (int \<times> u8 list) run" where
  "ngnfs_btree_lookup bt key buf_size =
     bind_run (btree_search bt key) (\<lambda>(pos, cmp).
       if cmp = 0 then
         bind_run (item_ptr bt pos) (\<lambda>item.
           let ret = min buf_size (val_size bt item)
           in Ret (int ret, bytes bt (val_ptr bt item) ret))
       else Ret (- ENOENT, []))"

definition ngnfs_btree_insert :: "mem \<Rightarrow> u8 list \<Rightarrow> u8 list \<Rightarrow> (int \<times> mem) run" where
  "ngnfs_btree_insert bt key val =
     (if length key = 0 \<or> length key > NGNFS_BTREE_KEY_SIZE_MAX \<or>
         length val > NGNFS_BTREE_VAL_SIZE_MAX
      then Ret (- EINVAL, bt)
      else bind_run (btree_search bt key) (\<lambda>(pos, cmp).
        if cmp = 0 then Ret (- EEXIST, bt)
        else bind_run (insert_item bt pos key val) (\<lambda>bt. Ret (0, bt))))"

definition ngnfs_btree_delete :: "mem \<Rightarrow> u8 list \<Rightarrow> (int \<times> mem) run" where
  "ngnfs_btree_delete bt key =
     bind_run (btree_search bt key) (\<lambda>(pos, cmp).
       if cmp = 0 then bind_run (remove_item bt pos) (\<lambda>bt. Ret (0, bt))
       else Ret (- ENOENT, bt))"

end
