(* ===== verification/Btree_Keys.thy ===== *)
theory Btree_Keys
  imports Btree_Block
begin

text \<open>
  The order \<open>cmp_keys\<close> puts on keys.  It is a strict total order: byte-wise
  lexicographic, where the end of a key sorts after every byte, so a key sorts
  \<^emph>\<open>before\<close> its own proper prefixes.
\<close>

definition key_less :: "u8 list \<Rightarrow> u8 list \<Rightarrow> bool" where
  "key_less a b \<longleftrightarrow> cmp_keys a b < 0"

text \<open>The comparison, one byte at a time.\<close>

lemma cmp_keys_Nil_Nil [simp]: "cmp_keys [] [] = 0"
  and cmp_keys_Nil_Cons [simp]: "cmp_keys [] (b # bs) = 1 + int (length bs)"
  and cmp_keys_Cons_Nil [simp]: "cmp_keys (a # as) [] = - 1 - int (length as)"
  by (simp_all add: cmp_keys_def)

lemma unat_u8_eq_iff: "int (unat (a :: u8)) - int (unat b) = 0 \<longleftrightarrow> a = b"
  by (auto simp: word_uint_eq_iff)

lemma cmp_keys_Cons_Cons [simp]:
  "cmp_keys (a # as) (b # bs) =
     (if a = b then cmp_keys as bs else int (unat a) - int (unat b))"
  using unat_u8_eq_iff [of a b] by (simp add: cmp_keys_def Let_def)

lemma cmp_keys_eq_0_iff [simp]: "cmp_keys a b = 0 \<longleftrightarrow> a = b"
proof (induction a arbitrary: b)
  case Nil
  then show ?case by (cases b) auto
next
  case (Cons x xs)
  show ?case
  proof (cases b)
    case Nil
    then show ?thesis by simp
  next
    case (Cons y ys)
    then show ?thesis using Cons.IH unat_u8_eq_iff [of x y] by auto
  qed
qed

lemma cmp_keys_refl [simp]: "cmp_keys a a = 0"
  by (simp only: cmp_keys_eq_0_iff)

lemma cmp_keys_antisym: "cmp_keys b a = - cmp_keys a b"
proof (induction a arbitrary: b)
  case Nil
  then show ?case by (cases b) auto
next
  case (Cons x xs)
  then show ?case by (cases b) auto
qed

lemma cmp_keys_trans: "cmp_keys a b < 0 \<Longrightarrow> cmp_keys b c < 0 \<Longrightarrow> cmp_keys a c < 0"
proof (induction a arbitrary: b c)
  case Nil
  then show ?case by (cases b) auto
next
  case (Cons x xs)
  then show ?case
    by (cases b; cases c) (auto split: if_splits)
qed

lemma cmp_keys_bounds:
  "- int (max 255 (length a)) \<le> cmp_keys a b \<and> cmp_keys a b \<le> int (max 255 (length b))"
proof (induction a arbitrary: b)
  case Nil
  then show ?case by (cases b) auto
next
  case (Cons x xs)
  show ?case
  proof (cases b)
    case Nil
    then show ?thesis by auto
  next
    case (Cons y ys)
    have "- 255 \<le> int (unat x) - int (unat y) \<and> int (unat x) - int (unat y) \<le> 255"
      using unat_u8_bound [of x] unat_u8_bound [of y] by linarith
    then show ?thesis using Cons.IH [of ys] Cons
      by (cases "x = y") (auto simp: max_def split: if_splits)
  qed
qed

text \<open>Consequences for the derived order.\<close>

lemma key_less_irrefl [simp]: "\<not> key_less a a"
  by (simp add: key_less_def)

lemma key_less_trans [trans]: "key_less a b \<Longrightarrow> key_less b c \<Longrightarrow> key_less a c"
  unfolding key_less_def by (rule cmp_keys_trans)

lemma key_less_asym: "key_less a b \<Longrightarrow> \<not> key_less b a"
  by (simp add: key_less_def cmp_keys_antisym [of b a])

lemma key_less_linear: "key_less a b \<or> a = b \<or> key_less b a"
proof -
  have "cmp_keys b a = - cmp_keys a b" by (rule cmp_keys_antisym)
  then show ?thesis
    unfolding key_less_def using cmp_keys_eq_0_iff [of a b] by linarith
qed

lemma cmp_keys_pos_iff: "0 < cmp_keys a b \<longleftrightarrow> key_less b a"
  by (simp add: key_less_def cmp_keys_antisym [of b a])

lemma key_less_prefix: "key_less (a @ b # bs) a"
  unfolding key_less_def by (induction a) auto

text \<open>The 16 bit \<open>cmp\<close> field of the search result keeps the sign of every comparison of keys below 32 KiB.\<close>

lemma to_s16_cmp_keys:
  "length a \<le> 32767 \<Longrightarrow> length b \<le> 32767 \<Longrightarrow> to_s16 (cmp_keys a b) = cmp_keys a b"
  using cmp_keys_bounds [of a b] by (intro to_s16_id) auto

subsection \<open>Strictly increasing lists of keys\<close>

abbreviation keys_sorted :: "u8 list list \<Rightarrow> bool" where
  "keys_sorted ks \<equiv> sorted_wrt key_less ks"

lemma keys_sorted_distinct: "keys_sorted ks \<Longrightarrow> distinct ks"
  by (induction ks) auto

lemma keys_sorted_nth_less:
  "keys_sorted ks \<Longrightarrow> i < j \<Longrightarrow> j < length ks \<Longrightarrow> key_less (ks ! i) (ks ! j)"
  by (rule sorted_wrt_nth_less)

lemma keys_sorted_insert:
  assumes "keys_sorted ks" "p \<le> length ks"
    and "\<And>i. i < p \<Longrightarrow> key_less (ks ! i) k"
    and "\<And>i. p \<le> i \<Longrightarrow> i < length ks \<Longrightarrow> key_less k (ks ! i)"
  shows "keys_sorted (take p ks @ k # drop p ks)"
proof -
  have "keys_sorted (take p ks @ drop p ks)" using assms(1) by (simp only: append_take_drop_id)
  moreover have "\<forall>x\<in>set (take p ks). key_less x k"
    using assms(2,3) by (auto simp: in_set_conv_nth)
  moreover have "\<forall>x\<in>set (drop p ks). key_less k x"
    using assms(2,4) by (auto simp: in_set_conv_nth)
  ultimately show ?thesis by (simp add: sorted_wrt_append del: append_take_drop_id)
qed

lemma keys_sorted_delete:
  assumes "keys_sorted ks"
  shows "keys_sorted (take p ks @ drop (Suc p) ks)"
proof (cases "p < length ks")
  case True
  with assms have "keys_sorted (take p ks @ ks ! p # drop (Suc p) ks)"
    by (simp add: id_take_nth_drop [symmetric])
  then show ?thesis by (auto simp: sorted_wrt_append)
next
  case False
  with assms show ?thesis by simp
qed

end
