(* ===== verification/Btree_Search.thy ===== *)
theory Btree_Search
  imports Btree_Keys
begin

text \<open>
  The invariant of a btree block and the correctness of the binary search.
  \<open>item_offs\<close> is the offset array and \<open>items\<close> the key and value pairs it
  leads to, which is the abstract content of a block.
\<close>

named_theorems block_simps \<open>constants and field accessors of btree blocks\<close>

subsection \<open>Content and invariant\<close>

definition item_offs :: "mem \<Rightarrow> nat list" where
  "item_offs bt = map (\<lambda>i. get_unaligned_le16 bt (item_off_addr i)) [0..<nr_items bt]"

text \<open>The bytes of a payload, without the 16 bit truncation of \<open>item_size\<close>.\<close>

definition payload :: "mem \<Rightarrow> nat \<Rightarrow> nat" where
  "payload bt item = BTREE_ITEM_SIZE + key_size bt item + val_size bt item"

definition items :: "mem \<Rightarrow> (u8 list \<times> u8 list) list" where
  "items bt = map (\<lambda>item. (item_key bt item, item_val bt item)) (item_offs bt)"

definition free_end :: "mem \<Rightarrow> nat" where
  "free_end bt = item_off_addr (nr_items bt) + avail_free bt"

definition payloads_disjoint :: "mem \<Rightarrow> nat \<Rightarrow> nat \<Rightarrow> bool" where
  "payloads_disjoint bt a b \<longleftrightarrow> a + payload bt a \<le> b \<or> b + payload bt b \<le> a"

text \<open>
  A well-formed block: the payloads lie between the free region and the end of
  the block and do not overlap, \<open>total_free\<close> accounts for every byte they do
  not use, keys are not empty and strictly increase along the offset array.
\<close>

definition wf_block :: "mem \<Rightarrow> bool" where
  "wf_block bt \<longleftrightarrow>
     free_end bt \<le> NGNFS_BLOCK_SIZE \<and> avail_free bt \<le> total_free bt \<and>
     list_all (\<lambda>item. free_end bt \<le> item \<and> item + payload bt item \<le> NGNFS_BLOCK_SIZE
                 \<and> 0 < key_size bt item) (item_offs bt) \<and>
     sorted_wrt (payloads_disjoint bt) (item_offs bt) \<and>
     total_free bt + sum_list (map (\<lambda>item. ITEM_OFF_SIZE + payload bt item) (item_offs bt))
       = NGNFS_BTREE_MAX_FREE \<and>
     keys_sorted (map (item_key bt) (item_offs bt))"

lemma length_item_offs [simp]: "length (item_offs bt) = nr_items bt"
  by (simp add: item_offs_def)

lemma nth_item_offs:
  "i < nr_items bt \<Longrightarrow> item_offs bt ! i = get_unaligned_le16 bt (item_off_addr i)"
  by (simp add: item_offs_def)

lemma map_fst_items: "map fst (items bt) = map (item_key bt) (item_offs bt)"
  by (simp add: items_def)

lemma length_items [simp]: "length (items bt) = nr_items bt"
  by (simp add: items_def)

lemma length_item_key [simp]: "length (item_key bt item) = key_size bt item"
  by (simp add: item_key_def)

lemma length_item_val [simp]: "length (item_val bt item) = val_size bt item"
  by (simp add: item_val_def)

lemma key_size_bound: "key_size bt item < 256"
  by (simp add: key_size_def unat_u8_bound)

lemma wf_block_nr_items: "wf_block bt \<Longrightarrow> 2 * nr_items bt + avail_free bt \<le> 4080"
  by (simp add: wf_block_def free_end_def item_off_addr_def)

lemma wf_block_item:
  assumes "wf_block bt" "i < nr_items bt"
  shows "free_end bt \<le> item_offs bt ! i"
    and "item_offs bt ! i + payload bt (item_offs bt ! i) \<le> 4096"
    and "0 < key_size bt (item_offs bt ! i)"
  using assms by (auto simp: wf_block_def list_all_length)

lemma wf_block_sorted: "wf_block bt \<Longrightarrow> keys_sorted (map fst (items bt))"
  by (simp add: wf_block_def map_fst_items)

lemma wf_block_distinct_keys: "wf_block bt \<Longrightarrow> distinct (map fst (items bt))"
  by (rule keys_sorted_distinct) (rule wf_block_sorted)

lemma item_ptr_in_range:
  "i < nr_items bt \<Longrightarrow> item_ptr bt i = Ret (item_offs bt ! i)"
  by (simp add: item_ptr_def get_item_off_def nth_item_offs)

lemma nth_items_fst:
  "i < nr_items bt \<Longrightarrow> fst (items bt ! i) = item_key bt (item_offs bt ! i)"
  by (simp add: items_def)

lemma nth_items:
  "i < nr_items bt \<Longrightarrow>
    items bt ! i = (item_key bt (item_offs bt ! i), item_val bt (item_offs bt ! i))"
  by (simp add: items_def)

subsection \<open>Binary search\<close>

text \<open>What a search result says: the position of the key, or the position to insert it at.\<close>

definition search_result :: "u8 list list \<Rightarrow> u8 list \<Rightarrow> nat \<Rightarrow> int \<Rightarrow> bool" where
  "search_result ks key pos cmp \<longleftrightarrow>
     (if cmp = 0 then pos < length ks \<and> ks ! pos = key
      else pos \<le> length ks \<and> (\<forall>i<pos. key_less (ks ! i) key) \<and>
           (\<forall>i. pos \<le> i \<and> i < length ks \<longrightarrow> key_less key (ks ! i)))"

lemma search_loop_correct:
  assumes "nr_items bt \<le> 32767" and "length key \<le> 32767"
    and "keys_sorted (map fst (items bt))"
    and "0 \<le> first" and "lst < int (nr_items bt)" and "first \<le> lst + 1"
    and "int pos = first \<or> int pos = lst + 1" and "cmp \<noteq> 0"
    and "\<forall>i. int i < first \<longrightarrow> key_less (map fst (items bt) ! i) key"
    and "\<forall>i. lst < int i \<and> i < nr_items bt \<longrightarrow> key_less key (map fst (items bt) ! i)"
    and "lst - first < int fuel"
  shows "\<exists>pos' cmp'. search_loop fuel bt key first lst pos cmp = Ret (pos', cmp')
           \<and> search_result (map fst (items bt)) key pos' cmp'"
  using assms
proof (induction fuel arbitrary: first lst pos cmp)
  case 0
  then have "int pos = first" by auto
  with 0 show ?case by (auto simp: search_result_def)
next
  case (Suc fuel)
  let ?ks = "map fst (items bt)"
  show ?case
  proof (cases "first \<le> lst")
    case False
    with Suc.prems have "int pos = first" "first = lst + 1" by auto
    with Suc.prems False show ?thesis by (auto simp: search_result_def)
  next
    case True
    define mid where "mid = nat ((first + lst) div 2)"
    have mid: "first \<le> int mid" "int mid \<le> lst" "mid < nr_items bt"
      using True Suc.prems(4,5) by (auto simp: mid_def)
    have pos: "to_u16 ((first + lst) div 2) = mid"
      using mid Suc.prems(1,4) by (intro to_u16_eqI) (auto simp: mid_def)
    let ?k = "?ks ! mid"
    have k: "?k = item_key bt (item_offs bt ! mid)"
      using mid by (simp add: nth_items_fst)
    have c: "to_s16 (cmp_keys key ?k) = cmp_keys key ?k"
      using Suc.prems(2) key_size_bound [of bt "item_offs bt ! mid"]
      by (intro to_s16_cmp_keys) (auto simp: k)
    have lows: "to_s16 (int mid - 1) = int mid - 1"
      and u: "to_u16 (int mid + 1) = mid + 1"
      using mid Suc.prems(1) by (auto intro!: to_s16_id to_u16_eqI)
    have highs: "to_s16 (int (mid + 1)) = int mid + 1"
      using mid Suc.prems(1) to_s16_id [of "int mid + 1"] by (simp add: add.commute)
    show ?thesis
    proof (cases "cmp_keys key ?k" "0 :: int" rule: linorder_cases)
      case equal
      then have "search_result ?ks key mid 0"
        using mid by (simp add: search_result_def)
      with equal show ?thesis
        using True mid c k by (simp add: pos item_ptr_in_range Let_def)
    next
      case less
      have hi: "\<forall>i. int mid - 1 < int i \<and> i < nr_items bt \<longrightarrow> key_less key (?ks ! i)"
      proof (intro allI impI)
        fix i assume i: "int mid - 1 < int i \<and> i < nr_items bt"
        show "key_less key (?ks ! i)"
        proof (cases "i = mid")
          case True
          then show ?thesis using less by (simp add: key_less_def)
        next
          case False
          with i have "key_less ?k (?ks ! i)"
            using Suc.prems(3) by (intro keys_sorted_nth_less) auto
          then show ?thesis using less key_less_trans by (auto simp: key_less_def)
        qed
      qed
      have "\<exists>pos' cmp'. search_loop fuel bt key first (int mid - 1) mid (cmp_keys key ?k)
              = Ret (pos', cmp') \<and> search_result ?ks key pos' cmp'"
        using Suc.prems mid less hi by (intro Suc.IH) auto
      then show ?thesis
        using True mid less c k lows by (auto simp: pos item_ptr_in_range Let_def)
    next
      case greater
      have lo: "\<forall>i. int i < int mid + 1 \<longrightarrow> key_less (?ks ! i) key"
      proof (intro allI impI)
        fix i assume i: "int i < int mid + 1"
        show "key_less (?ks ! i) key"
        proof (cases "i = mid")
          case True
          then show ?thesis using greater by (simp add: cmp_keys_pos_iff)
        next
          case False
          with i mid have "key_less (?ks ! i) ?k"
            using Suc.prems(3) by (intro keys_sorted_nth_less) auto
          then show ?thesis using greater key_less_trans by (auto simp: cmp_keys_pos_iff)
        qed
      qed
      have "\<exists>pos' cmp'. search_loop fuel bt key (int mid + 1) lst (mid + 1) (cmp_keys key ?k)
              = Ret (pos', cmp') \<and> search_result ?ks key pos' cmp'"
        using Suc.prems mid greater lo by (intro Suc.IH) auto
      then show ?thesis
        using True mid greater c k u highs by (auto simp: pos item_ptr_in_range Let_def)
    qed
  qed
qed

lemma btree_search_correct:
  assumes "wf_block bt" and "length key \<le> 32767"
  obtains pos cmp where "btree_search bt key = Ret (pos, cmp)"
    and "search_result (map fst (items bt)) key pos cmp"
proof -
  have n: "nr_items bt \<le> 2040" using wf_block_nr_items [OF assms(1)] by simp
  have "to_u16 (int (length key)) = length key" using assms(2) by (simp add: to_u16_of_nat)
  moreover have "to_s16 (int (nr_items bt) - 1) = int (nr_items bt) - 1"
    using n by (intro to_s16_id) auto
  moreover have "\<exists>pos cmp. search_loop (Suc (nr_items bt)) bt key 0 (int (nr_items bt) - 1) 0 1
      = Ret (pos, cmp) \<and> search_result (map fst (items bt)) key pos cmp"
    using n assms(2) wf_block_sorted [OF assms(1)] by (intro search_loop_correct) auto
  ultimately show thesis using that by (auto simp: btree_search_def)
qed

end
