(* ===== verification/Btree_Insert.thy ===== *)
theory Btree_Insert
  imports Btree_Search
begin

text \<open>
  Inserting an item into a well-formed block: \<open>insert_item\<close> writes only the
  header, the offset array and the free region, so the other items keep their
  bytes and the result is well formed again.
\<close>

subsection \<open>Reads after block moves\<close>

lemma get_le16_cong:
  "m p = m' q \<Longrightarrow> m (p + 1) = m' (q + 1) \<Longrightarrow> get_unaligned_le16 m p = get_unaligned_le16 m' q"
  by (simp add: get_unaligned_le16_def bytes_def numeral_2_eq_2)

lemma get_le16_memmove_inside [mem_simps]:
  "d \<le> p \<Longrightarrow> p + 2 \<le> d + n \<Longrightarrow>
    get_unaligned_le16 (memmove m d s n) p = get_unaligned_le16 m (s + (p - d))"
  by (rule get_le16_cong) (auto simp: memmove_def write_bytes_def Suc_diff_le)

lemma get_le16_memmove_other [mem_simps]:
  "p + 2 \<le> d \<or> d + n \<le> p \<Longrightarrow> get_unaligned_le16 (memmove m d s n) p = get_unaligned_le16 m p"
  by (simp add: memmove_def get_le16_write_other)

lemma memmove_outside [mem_simps]: "i < d \<or> d + n \<le> i \<Longrightarrow> memmove m d s n i = m i"
  by (simp add: memmove_def write_bytes_outside)

lemma memmove_0 [simp]: "memmove m d s 0 = m"
  by (simp add: memmove_def)

lemma fun_upd_write_bytes: "m(a := x) = write_bytes m a [x]"
  by (auto simp: write_bytes_def fun_eq_iff)

lemma put_le16_write_bytes: "put_unaligned_le16 v m p = write_bytes m p (num_le 2 v)"
  by (simp add: put_unaligned_le16_def)

subsection \<open>Items depend on their payload bytes only\<close>

lemma item_cong:
  assumes "\<And>i. item \<le> i \<Longrightarrow> i < item + payload bt item \<Longrightarrow> bt' i = bt i"
  shows "key_size bt' item = key_size bt item" and "val_size bt' item = val_size bt item"
    and "payload bt' item = payload bt item"
    and "item_key bt' item = item_key bt item" and "item_val bt' item = item_val bt item"
proof -
  have p: "3 \<le> payload bt item" by (simp add: payload_def)
  show k: "key_size bt' item = key_size bt item"
    using assms [of "item + 2"] p by (simp add: key_size_def)
  show v: "val_size bt' item = val_size bt item"
    unfolding val_size_def using p by (intro get_le16_cong assms) auto
  show "payload bt' item = payload bt item" by (simp add: payload_def k v)
  show "item_key bt' item = item_key bt item"
    unfolding item_key_def k by (rule bytes_cong) (rule assms, auto simp: key_ptr_def payload_def)
  show "item_val bt' item = item_val bt item"
    unfolding item_val_def k v val_ptr_def
    by (rule bytes_cong) (rule assms, auto simp: key_ptr_def payload_def)
qed

subsection \<open>The memory after an insertion\<close>

definition ins_mem :: "mem \<Rightarrow> nat \<Rightarrow> nat \<Rightarrow> nat \<Rightarrow> nat \<Rightarrow> nat \<Rightarrow> u8 list \<Rightarrow> u8 list \<Rightarrow> mem" where
  "ins_mem bt n pos off tf af key val =
     (let bt = memmove bt (item_off_addr (pos + 1)) (item_off_addr pos) (2 * (n - pos));
          bt = put_unaligned_le16 off bt (item_off_addr pos);
          bt = put_unaligned_le16 (n + 1) bt 8;
          bt = put_unaligned_le16 tf bt 10;
          bt = put_unaligned_le16 af bt 12;
          bt = write_bytes bt (off + 2) [of_nat (length key)];
          bt = put_unaligned_le16 (length val) bt off;
          bt = write_bytes bt (off + 3) key
      in write_bytes bt (off + 3 + length key) val)"

lemma ins_mem_header:
  assumes "pos \<le> n" "18 + 2 * n \<le> off" "n < 65535" "tf < 65536" "af < 65536"
  shows "nr_items (ins_mem bt n pos off tf af key val) = n + 1"
    and "total_free (ins_mem bt n pos off tf af key val) = tf"
    and "avail_free (ins_mem bt n pos off tf af key val) = af"
  using assms
  by (simp_all add: ins_mem_def Let_def nr_items_def total_free_def avail_free_def item_off_addr_def
        mem_simps)

lemma ins_mem_offs:
  assumes "pos \<le> n" "18 + 2 * n \<le> off" "off < 65536" "i \<le> n"
  shows "get_unaligned_le16 (ins_mem bt n pos off tf af key val) (item_off_addr i) =
    (if i < pos then get_unaligned_le16 bt (item_off_addr i)
     else if i = pos then off else get_unaligned_le16 bt (item_off_addr (i - 1)))"
proof (cases "i < pos \<or> i = pos")
  case True
  then show ?thesis using assms
    by (auto simp: ins_mem_def Let_def item_off_addr_def mem_simps)
next
  case False
  then have "16 + 2 * pos + (2 * i - (2 + 2 * pos)) = 16 + 2 * (i - 1)" by auto
  with False show ?thesis using assms
    by (auto simp: ins_mem_def Let_def item_off_addr_def mem_simps)
qed

lemma ins_mem_frame:
  assumes "pos \<le> n" "18 + 2 * n \<le> off"
    and "i < 8 \<or> i = 14 \<or> i = 15 \<or> off + 3 + length key + length val \<le> i"
  shows "ins_mem bt n pos off tf af key val i = bt i"
  using assms by (auto simp: ins_mem_def Let_def item_off_addr_def mem_simps)

lemma ins_mem_item:
  assumes "length key < 256" "length val < 65536"
  shows "key_size (ins_mem bt n pos off tf af key val) off = length key"
    and "val_size (ins_mem bt n pos off tf af key val) off = length val"
    and "item_key (ins_mem bt n pos off tf af key val) off = key"
    and "item_val (ins_mem bt n pos off tf af key val) off = val"
proof -
  let ?m = "ins_mem bt n pos off tf af key val"
  show k: "key_size ?m off = length key"
    using assms
    by (simp add: ins_mem_def Let_def key_size_def mem_simps unat_of_nat_u8)
  show v: "val_size ?m off = length val"
    using assms by (simp add: ins_mem_def Let_def val_size_def mem_simps)
  show "item_key ?m off = key"
    unfolding item_key_def k using assms
    by (simp add: ins_mem_def Let_def key_ptr_def mem_simps)
  show "item_val ?m off = val"
    unfolding item_val_def val_ptr_def k v using assms
    by (simp add: ins_mem_def Let_def key_ptr_def mem_simps)
qed

lemma memmove_tail_offs_eq:
  assumes "pos \<le> nr_items bt" "nr_items bt \<le> 32767"
  shows "memmove_tail_offs bt pos distance =
    (if pos < nr_items bt \<and> distance \<noteq> 0
     then memmove bt (item_off_addr (nat (int pos + distance))) (item_off_addr pos)
            (2 * (nr_items bt - pos))
     else bt)"
proof -
  have "nat (int (nr_items bt) - int pos) = nr_items bt - pos" by simp
  with assms show ?thesis
    by (auto simp: memmove_tail_offs_def Let_def to_s16_id mult.commute)
qed

lemma le16_add_cpu_eq:
  "int (get_unaligned_le16 m p) + v = int w \<Longrightarrow> w < 65536 \<Longrightarrow>
    le16_add_cpu m p v = put_unaligned_le16 w m p"
  by (simp add: le16_add_cpu_def to_u16_of_nat)

lemma wf_block_bounds:
  assumes "wf_block bt"
  shows "free_end bt = 16 + 2 * nr_items bt + avail_free bt" and "free_end bt \<le> 4096"
    and "avail_free bt \<le> total_free bt" and "nr_items bt \<le> 2040" and "total_free bt \<le> 4080"
    and "avail_free_end bt = free_end bt"
  using assms by (auto simp: wf_block_def free_end_def item_off_addr_def avail_free_end_def to_u16_def)

lemma insert_item_run:
  assumes wf: "wf_block bt" and pos: "pos \<le> nr_items bt"
    and key: "length key \<le> 255" and val: "length val \<le> 512"
    and size: "sz = 3 + length key + length val" and room: "2 + sz \<le> avail_free bt"
    and off: "off = free_end bt - sz"
  shows "insert_item bt pos key val =
    Ret (ins_mem bt (nr_items bt) pos off (total_free bt - (2 + sz)) (avail_free bt - (2 + sz)) key val)"
proof -
  let ?n = "nr_items bt"
  note b = wf_block_bounds [OF wf]
  have kvs: "key_val_size (length key) (length val) = sz"
    using key val size by (simp add: key_val_size_def to_u16_def)
  define b1 where "b1 = memmove bt (item_off_addr (pos + 1)) (item_off_addr pos) (2 * (?n - pos))"
  have mv: "memmove_tail_offs bt pos 1 = b1"
    using pos b by (auto simp: b1_def memmove_tail_offs_eq nat_add_distrib)
  have h1: "nr_items b1 = ?n" "get_unaligned_le16 b1 8 = ?n"
      "get_unaligned_le16 b1 10 = total_free bt" "get_unaligned_le16 b1 12 = avail_free bt"
    by (simp_all add: b1_def nr_items_def total_free_def avail_free_def item_off_addr_def mem_simps)
  have offs: "18 + 2 * ?n \<le> off" "off < 65536" "to_u16 (int (free_end bt) - int sz) = off"
    using b room off by (auto intro: to_u16_eqI)
  define b2 where "b2 = put_unaligned_le16 off b1 (item_off_addr pos)"
  define b3 where "b3 = put_unaligned_le16 (?n + 1) b2 8"
  define b4 where "b4 = put_unaligned_le16 (total_free bt - (2 + sz)) b3 10"
  define b5 where "b5 = put_unaligned_le16 (avail_free bt - (2 + sz)) b4 12"
  define b8 where "b8 = write_bytes (put_unaligned_le16 (length val)
      (write_bytes b5 (off + 2) [of_nat (length key)]) off) (off + 3) key"
  have s2: "set_item_off b1 pos off = Ret b2"
    using pos by (simp add: set_item_off_def b2_def h1)
  have a3: "le16_add_cpu b2 8 1 = b3"
    unfolding b3_def using b by (intro le16_add_cpu_eq)
      (auto simp: b2_def h1 item_off_addr_def mem_simps)
  have a4: "le16_add_cpu b3 10 (- 2 - int sz) = b4"
    unfolding b4_def using b room by (intro le16_add_cpu_eq)
      (auto simp: b2_def b3_def h1 item_off_addr_def mem_simps)
  have a5: "le16_add_cpu b4 12 (- 2 - int sz) = b5"
    unfolding b5_def using b room by (intro le16_add_cpu_eq)
      (auto simp: b2_def b3_def b4_def h1 item_off_addr_def mem_simps)
  have ip: "item_ptr b5 pos = Ret off"
    using pos b offs by (simp add: item_ptr_def get_item_off_def nr_items_def item_off_addr_def
        b2_def b3_def b4_def b5_def mem_simps)
  have vp: "val_ptr b8 off = off + 3 + length key"
    using key by (simp add: val_ptr_def key_ptr_def key_size_def b8_def mem_simps unat_of_nat_u8)
  have u: "to_u16 (int (length key)) = length key" "to_u16 (int (length val)) = length val"
    using key val by (auto simp: to_u16_of_nat)
  have "insert_item bt pos key val = Ret (write_bytes b8 (off + 3 + length key) val)"
    unfolding insert_item_def Let_def using pos room
    by (simp add: u kvs b(6) offs mv s2 a3 a4 a5 ip key_ptr_def fun_upd_write_bytes
        vp [unfolded b8_def, simplified] b8_def)
  then show ?thesis
    by (simp add: ins_mem_def Let_def b1_def b2_def b3_def b4_def b5_def b8_def)
qed


subsection \<open>Insertion keeps blocks well formed\<close>

lemma sorted_wrt_insert:
  assumes "sorted_wrt R xs" "\<And>y. y \<in> set xs \<Longrightarrow> R y x" "\<And>y. y \<in> set xs \<Longrightarrow> R x y"
  shows "sorted_wrt R (take p xs @ x # drop p xs)"
proof -
  have "sorted_wrt R (take p xs @ drop p xs)" using assms(1) by (simp only: append_take_drop_id)
  then show ?thesis
    using assms(2,3) by (auto simp: sorted_wrt_append simp del: append_take_drop_id
        dest: in_set_takeD in_set_dropD)
qed

lemma sum_list_insert:
  "sum_list (map (f :: 'a \<Rightarrow> nat) (take p xs @ x # drop p xs)) = f x + sum_list (map f xs)"
proof -
  have "sum_list (map f xs) = sum_list (map f (take p xs @ drop p xs))"
    by (simp only: append_take_drop_id)
  then show ?thesis by (simp del: append_take_drop_id)
qed

lemma items_unchanged:
  assumes "\<And>i. free_end bt \<le> i \<Longrightarrow> i < 4096 \<Longrightarrow> bt' i = bt i" "wf_block bt" "item \<in> set (item_offs bt)"
  shows "key_size bt' item = key_size bt item" and "val_size bt' item = val_size bt item"
    and "payload bt' item = payload bt item"
    and "item_key bt' item = item_key bt item" and "item_val bt' item = item_val bt item"
proof -
  have "free_end bt \<le> item" "item + payload bt item \<le> 4096"
    using assms(2,3) by (auto simp: wf_block_def list_all_iff)
  then have eq: "\<And>i. item \<le> i \<Longrightarrow> i < item + payload bt item \<Longrightarrow> bt' i = bt i"
    using assms(1) by auto
  show "key_size bt' item = key_size bt item" "val_size bt' item = val_size bt item"
    "payload bt' item = payload bt item"
    "item_key bt' item = item_key bt item" "item_val bt' item = item_val bt item"
    using item_cong [OF eq] by auto
qed

lemma ins_mem_item_offs:
  assumes "n = nr_items bt" "pos \<le> n" "18 + 2 * n \<le> off" "off < 65536" "n < 65535" "tf < 65536" "af < 65536"
  shows "item_offs (ins_mem bt n pos off tf af key val) =
    take pos (item_offs bt) @ off # drop pos (item_offs bt)"
proof (rule nth_equalityI)
  let ?m = "ins_mem bt n pos off tf af key val"
  have nr: "nr_items ?m = n + 1" using assms by (simp add: ins_mem_header)
  then show len: "length (item_offs ?m) = length (take pos (item_offs bt) @ off # drop pos (item_offs bt))"
    using assms by simp
  fix i assume "i < length (item_offs ?m)"
  then have i: "i \<le> n" using nr by simp
  have "item_offs ?m ! i = get_unaligned_le16 ?m (item_off_addr i)"
    using i nr by (simp add: nth_item_offs)
  also have "\<dots> = (if i < pos then item_offs bt ! i else if i = pos then off else item_offs bt ! (i - 1))"
    using i assms by (simp add: ins_mem_offs nth_item_offs)
  also have "\<dots> = (take pos (item_offs bt) @ off # drop pos (item_offs bt)) ! i"
    using assms by (subst nth_take_insert) auto
  finally show "item_offs ?m ! i = (take pos (item_offs bt) @ off # drop pos (item_offs bt)) ! i" .
qed

lemma insert_item_correct:
  assumes wf: "wf_block bt" and sr: "search_result (map fst (items bt)) key pos cmp" "cmp \<noteq> 0"
    and key: "0 < length key" "length key \<le> 255" and val: "length val \<le> 512"
    and room: "5 + length key + length val \<le> avail_free bt"
  obtains bt' where "insert_item bt pos key val = Ret bt'" and "wf_block bt'"
    and "items bt' = take pos (items bt) @ (key, val) # drop pos (items bt)"
    and "avail_free bt' = avail_free bt - (5 + length key + length val)"
    and "\<And>i. i < 8 \<or> i = 14 \<or> i = 15 \<or> free_end bt \<le> i \<Longrightarrow> bt' i = bt i"
proof -
  define sz where "sz = 3 + length key + length val"
  define off where "off = free_end bt - sz"
  define bt' where "bt' = ins_mem bt (nr_items bt) pos off (total_free bt - (2 + sz))
      (avail_free bt - (2 + sz)) key val"
  note b = wf_block_bounds [OF wf]
  have pos: "pos \<le> nr_items bt" using sr by (simp add: search_result_def)
  have off: "18 + 2 * nr_items bt \<le> off" "off < 65536" "off + sz = free_end bt"
    using b room by (auto simp: off_def sz_def)
  have run: "insert_item bt pos key val = Ret bt'"
    unfolding bt'_def using wf pos key val room sz_def off_def by (intro insert_item_run) auto
  have hdr: "nr_items bt' = nr_items bt + 1" "total_free bt' = total_free bt - (2 + sz)"
      "avail_free bt' = avail_free bt - (2 + sz)"
    unfolding bt'_def using b off pos by (auto simp: ins_mem_header)
  have frame: "bt' i = bt i" if "i < 8 \<or> i = 14 \<or> i = 15 \<or> free_end bt \<le> i" for i
    unfolding bt'_def using that off pos by (intro ins_mem_frame) (auto simp: sz_def)
  have offs: "item_offs bt' = take pos (item_offs bt) @ off # drop pos (item_offs bt)"
    unfolding bt'_def using b off pos by (intro ins_mem_item_offs) auto
  have new: "key_size bt' off = length key" "item_key bt' off = key" "item_val bt' off = val"
      "payload bt' off = sz"
    unfolding bt'_def payload_def using key val by (auto simp: ins_mem_item sz_def)
  note same = items_unchanged [OF frame wf]
  have its: "items bt' = take pos (items bt) @ (key, val) # drop pos (items bt)"
    unfolding items_def offs using same
    by (auto simp: new take_map drop_map dest: in_set_takeD in_set_dropD)
  have fe: "free_end bt' = off"
    using room b(1) by (simp add: free_end_def hdr item_off_addr_def off_def sz_def)
  have room': "list_all (\<lambda>item. free_end bt' \<le> item \<and> item + payload bt' item \<le> NGNFS_BLOCK_SIZE
                 \<and> 0 < key_size bt' item) (item_offs bt')"
    using wf key b(2) off(3) same unfolding offs fe
    by (auto simp: list_all_iff wf_block_def new dest!: in_set_takeD in_set_dropD)
  have disj: "sorted_wrt (payloads_disjoint bt') (item_offs bt')"
    unfolding offs
  proof (rule sorted_wrt_insert)
    have "sorted_wrt (payloads_disjoint bt) (item_offs bt)" using wf by (simp add: wf_block_def)
    then show "sorted_wrt (payloads_disjoint bt') (item_offs bt)"
      by (rule sorted_wrt_mono_rel [rotated]) (simp add: payloads_disjoint_def same)
  next
    fix y assume "y \<in> set (item_offs bt)"
    then have "free_end bt \<le> y" using wf by (auto simp: wf_block_def list_all_iff)
    then show "payloads_disjoint bt' y off" "payloads_disjoint bt' off y"
      using off(3) by (auto simp: payloads_disjoint_def new)
  qed
  have sum: "total_free bt' + sum_list (map (\<lambda>item. ITEM_OFF_SIZE + payload bt' item) (item_offs bt'))
      = NGNFS_BTREE_MAX_FREE"
  proof -
    have eq: "map (\<lambda>item. ITEM_OFF_SIZE + payload bt' item) (item_offs bt) =
        map (\<lambda>item. ITEM_OFF_SIZE + payload bt item) (item_offs bt)"
      using same by (intro map_cong) auto
    show ?thesis
      using wf room b(3) unfolding offs sum_list_insert eq by (simp add: new hdr wf_block_def sz_def)
  qed
  have srt: "keys_sorted (map (item_key bt') (item_offs bt'))"
  proof -
    have "map (item_key bt') (item_offs bt') =
        take pos (map fst (items bt)) @ key # drop pos (map fst (items bt))"
      using map_fst_items [of bt'] by (simp add: its take_map drop_map)
    moreover have "keys_sorted (take pos (map fst (items bt)) @ key # drop pos (map fst (items bt)))"
      using sr wf_block_sorted [OF wf] by (intro keys_sorted_insert) (auto simp: search_result_def)
    ultimately show ?thesis by simp
  qed
  have "wf_block bt'"
    unfolding wf_block_def using room' disj sum srt fe off(3) b(2,3) by (simp add: hdr)
  then show thesis using that run its frame hdr(3) by (auto simp: sz_def)
qed

end
