(* ===== verification/Btree_Delete.thy ===== *)
theory Btree_Delete
  imports Btree_Insert
begin

text \<open>
  Removing an item from a well-formed block: the offset array closes over the
  removed position, its payload is returned to \<open>total_free\<close>, and it joins the
  contiguous free region when it bordered it.
\<close>

subsection \<open>The memory after a removal\<close>

definition del_mem :: "mem \<Rightarrow> nat \<Rightarrow> nat \<Rightarrow> nat \<Rightarrow> nat \<Rightarrow> mem" where
  "del_mem bt n pos tf af =
     (let bt = put_unaligned_le16 tf bt 10;
          bt = put_unaligned_le16 af bt 12;
          bt = memmove bt (item_off_addr pos) (item_off_addr (pos + 1)) (2 * (n - (pos + 1)));
          bt = put_unaligned_le16 0 bt (item_off_addr (n - 1))
      in put_unaligned_le16 (n - 1) bt 8)"

lemma del_mem_header:
  assumes "pos < n" "n \<le> 65535" "tf < 65536" "af < 65536"
  shows "nr_items (del_mem bt n pos tf af) = n - 1"
    and "total_free (del_mem bt n pos tf af) = tf" and "avail_free (del_mem bt n pos tf af) = af"
  using assms
  by (simp_all add: del_mem_def Let_def nr_items_def total_free_def avail_free_def item_off_addr_def
        mem_simps)

lemma del_mem_offs:
  assumes "pos < n" "i < n - 1"
  shows "get_unaligned_le16 (del_mem bt n pos tf af) (item_off_addr i) =
    (if i < pos then get_unaligned_le16 bt (item_off_addr i)
     else get_unaligned_le16 bt (item_off_addr (Suc i)))"
  using assms by (auto simp: del_mem_def Let_def item_off_addr_def mem_simps)

lemma del_mem_frame:
  assumes "pos < n" "i < 8 \<or> i = 14 \<or> i = 15 \<or> 16 + 2 * n \<le> i"
  shows "del_mem bt n pos tf af i = bt i"
  using assms by (cases n) (auto simp: del_mem_def Let_def item_off_addr_def mem_simps)

lemma del_mem_item_offs:
  assumes "n = nr_items bt" "pos < n" "tf < 65536" "af < 65536" "n \<le> 2040"
  shows "item_offs (del_mem bt n pos tf af) = take pos (item_offs bt) @ drop (Suc pos) (item_offs bt)"
proof (rule nth_equalityI)
  let ?m = "del_mem bt n pos tf af"
  have nr: "nr_items ?m = n - 1" using assms by (simp add: del_mem_header)
  then show "length (item_offs ?m) = length (take pos (item_offs bt) @ drop (Suc pos) (item_offs bt))"
    using assms by simp
  fix i assume "i < length (item_offs ?m)"
  then have i: "i < n - 1" using nr by simp
  have "item_offs ?m ! i = get_unaligned_le16 ?m (item_off_addr i)"
    using i nr by (simp add: nth_item_offs)
  also have "\<dots> = (if i < pos then item_offs bt ! i else item_offs bt ! Suc i)"
    using i assms by (simp add: del_mem_offs nth_item_offs)
  also have "\<dots> = (take pos (item_offs bt) @ drop (Suc pos) (item_offs bt)) ! i"
    using i assms by (subst nth_take_delete) auto
  finally show "item_offs ?m ! i = (take pos (item_offs bt) @ drop (Suc pos) (item_offs bt)) ! i" .
qed

lemma remove_item_run:
  assumes wf: "wf_block bt" and pos: "pos < nr_items bt"
    and item: "item = item_offs bt ! pos" and tot: "tot = 2 + payload bt item"
    and tf: "tf = total_free bt + tot"
    and af: "af = avail_free bt + (if item = free_end bt then tot else 2)"
  shows "remove_item bt pos = Ret (del_mem bt (nr_items bt) pos tf af)"
proof -
  let ?n = "nr_items bt"
  note b = wf_block_bounds [OF wf]
  have it: "item + payload bt item \<le> 4096" using wf_block_item(2) [OF wf pos] item by simp
  have ts: "total_item_size bt item = tot"
    using it tot unfolding payload_def
    by (simp add: total_item_size_def item_size_def key_val_size_def to_u16_def)
  define b1 where "b1 = put_unaligned_le16 tf bt 10"
  define b2 where "b2 = put_unaligned_le16 af b1 12"
  define b3 where "b3 = memmove b2 (item_off_addr pos) (item_off_addr (pos + 1)) (2 * (?n - (pos + 1)))"
  define b4 where "b4 = put_unaligned_le16 0 b3 (item_off_addr (?n - 1))"
  have a1: "le16_add_cpu bt 10 (int tot) = b1"
    unfolding b1_def using b it tot tf by (intro le16_add_cpu_eq) (auto simp: total_free_def)
  have h1: "nr_items b1 = ?n" "avail_free b1 = avail_free bt" "get_unaligned_le16 b1 12 = avail_free bt"
      "get_unaligned_le16 b1 (item_off_addr pos) = item" "avail_free_end b1 = free_end bt"
    using b pos by (simp_all add: b1_def nr_items_def avail_free_def avail_free_end_def free_end_def
        item_off_addr_def mem_simps item nth_item_offs to_u16_def)
  have g1: "get_item_off b1 pos = Ret item"
    using pos by (simp add: get_item_off_def h1)
  let ?add = "le16_add_cpu (le16_add_cpu bt 10 (int (total_item_size bt item))) 12"
  have a2: "(if item = free_end bt then ?add (int (total_item_size bt item))
             else ?add (int ITEM_OFF_SIZE)) = b2"
    unfolding b2_def ts a1 using b it tot af by (auto intro!: le16_add_cpu_eq simp: h1)
  have h2: "nr_items b2 = ?n"
    using h1(1) by (simp add: b2_def nr_items_def mem_simps)
  have a3: "memmove_tail_offs b2 (pos + 1) (- 1) = b3"
    using pos b h2 by (auto simp: memmove_tail_offs_eq b3_def)
  have h3: "nr_items b3 = ?n"
    using h2 by (simp add: b3_def nr_items_def item_off_addr_def mem_simps)
  have u: "to_u16 (int pos + 1) = pos + 1" "to_u16 (int ?n - 1) = ?n - 1"
    using pos b by (auto intro!: to_u16_eqI)
  have s4: "set_item_off b3 (?n - 1) 0 = Ret b4"
    by (simp add: set_item_off_def h3 b4_def BUG_ON_def)
  have a5: "le16_add_cpu b4 8 (- 1) = put_unaligned_le16 (?n - 1) b4 8"
    using pos b h3 by (intro le16_add_cpu_eq)
      (auto simp: b4_def nr_items_def item_off_addr_def mem_simps)
  have "remove_item bt pos = Ret (put_unaligned_le16 (?n - 1) b4 8)"
    unfolding remove_item_def Let_def using pos
    by (simp add: item_ptr_in_range item [symmetric] a2 ts a1 g1 h1 a3 [simplified] h3 u s4 [simplified]
        a5 [simplified] split del: if_split)
  then show ?thesis
    by (simp add: del_mem_def Let_def b1_def b2_def b3_def b4_def)
qed

subsection \<open>Removal keeps blocks well formed\<close>

lemma sorted_wrt_delete: "sorted_wrt R xs \<Longrightarrow> sorted_wrt R (take p xs @ drop (Suc p) xs)"
proof (cases "p < length xs")
  case True
  assume "sorted_wrt R xs"
  with True have "sorted_wrt R (take p xs @ xs ! p # drop (Suc p) xs)"
    by (simp add: id_take_nth_drop [symmetric])
  then show ?thesis by (auto simp: sorted_wrt_append)
qed simp

lemma wf_block_disjoint:
  assumes "wf_block bt" "i < nr_items bt" "j < nr_items bt" "i \<noteq> j"
  shows "payloads_disjoint bt (item_offs bt ! i) (item_offs bt ! j)"
proof -
  have s: "sorted_wrt (payloads_disjoint bt) (item_offs bt)" using assms(1) by (simp add: wf_block_def)
  show ?thesis
    using assms(2-4) sorted_wrt_nth_less [OF s, of i j] sorted_wrt_nth_less [OF s, of j i]
    by (cases "i < j") (auto simp: payloads_disjoint_def)
qed

lemma in_set_take_drop_nth:
  assumes "x \<in> set (take p xs @ drop (Suc p) xs)"
  shows "\<exists>i. i < length xs \<and> i \<noteq> p \<and> x = xs ! i"
proof (cases "x \<in> set (take p xs)")
  case True
  then obtain i where "i < length xs" "i < p" "x = xs ! i" by (auto simp: in_set_conv_nth)
  then show ?thesis by auto
next
  case False
  with assms obtain j where "j < length xs - Suc p" "x = xs ! (Suc p + j)"
    by (auto simp: in_set_conv_nth)
  then show ?thesis by (intro exI [of _ "Suc p + j"]) auto
qed

lemma remove_item_correct:
  assumes wf: "wf_block bt" and pos: "pos < nr_items bt"
  obtains bt' where "remove_item bt pos = Ret bt'" and "wf_block bt'"
    and "items bt' = take pos (items bt) @ drop (Suc pos) (items bt)"
    and "avail_free bt + 2 \<le> avail_free bt'"
    and "\<And>i. i < 8 \<or> i = 14 \<or> i = 15 \<or> 16 + 2 * nr_items bt \<le> i \<Longrightarrow> bt' i = bt i"
proof -
  define item where "item = item_offs bt ! pos"
  define tot where "tot = 2 + payload bt item"
  define tf where "tf = total_free bt + tot"
  define af where "af = avail_free bt + (if item = free_end bt then tot else 2)"
  define bt' where "bt' = del_mem bt (nr_items bt) pos tf af"
  let ?rest = "take pos (item_offs bt) @ drop (Suc pos) (item_offs bt)"
  note b = wf_block_bounds [OF wf]
  note it = wf_block_item [OF wf pos, folded item_def]
  have run: "remove_item bt pos = Ret bt'"
    unfolding bt'_def using wf pos item_def tot_def tf_def af_def by (rule remove_item_run)
  have total: "total_free bt + (tot + sum_list (map (\<lambda>i. ITEM_OFF_SIZE + payload bt i) ?rest)) = 4080"
    using wf sum_list_map_take_nth_drop [of pos "item_offs bt" "\<lambda>i. ITEM_OFF_SIZE + payload bt i"] pos
    by (simp add: wf_block_def tot_def item_def)
  have lim: "tf \<le> 4080" "af \<le> tf" "tf < 65536" "af < 65536"
    using total b(3) by (auto simp: tf_def af_def tot_def)
  have hdr: "nr_items bt' = nr_items bt - 1" "total_free bt' = tf" "avail_free bt' = af"
    unfolding bt'_def using pos lim b(4) by (auto simp: del_mem_header)
  have frame: "bt' i = bt i" if "i < 8 \<or> i = 14 \<or> i = 15 \<or> 16 + 2 * nr_items bt \<le> i" for i
    unfolding bt'_def using that pos by (intro del_mem_frame) auto
  have offs: "item_offs bt' = ?rest"
    unfolding bt'_def using pos lim b(4) by (intro del_mem_item_offs) auto
  have "\<And>i. free_end bt \<le> i \<Longrightarrow> i < 4096 \<Longrightarrow> bt' i = bt i" using frame b(1) by auto
  note same = items_unchanged [OF this wf]
  have sub: "set ?rest \<subseteq> set (item_offs bt)" by (auto dest: in_set_takeD in_set_dropD)
  have its: "items bt' = take pos (items bt) @ drop (Suc pos) (items bt)"
    unfolding items_def offs using same
    by (auto simp: take_map drop_map dest: in_set_takeD in_set_dropD)
  have fe: "free_end bt' = (if item = free_end bt then free_end bt + payload bt item else free_end bt)"
    using b(1) pos by (auto simp: free_end_def hdr item_off_addr_def af_def tot_def)
  have above: "free_end bt' \<le> i" if "i \<in> set ?rest" for i
  proof -
    from in_set_take_drop_nth [OF that] obtain j
      where j: "j < nr_items bt" "j \<noteq> pos" "i = item_offs bt ! j" by auto
    have "payloads_disjoint bt item i"
      unfolding item_def j(3) using wf pos j by (intro wf_block_disjoint) auto
    moreover have "free_end bt \<le> i" "3 \<le> payload bt i"
      using wf_block_item(1) [OF wf j(1)] j(3) by (auto simp: payload_def)
    ultimately show ?thesis by (auto simp: fe payloads_disjoint_def)
  qed
  have room: "list_all (\<lambda>item. free_end bt' \<le> item \<and> item + payload bt' item \<le> NGNFS_BLOCK_SIZE
                 \<and> 0 < key_size bt' item) (item_offs bt')"
    using wf above same sub unfolding offs list_all_iff wf_block_def by (metis subsetD)
  have disj: "sorted_wrt (payloads_disjoint bt') (item_offs bt')"
  proof -
    have "sorted_wrt (payloads_disjoint bt) ?rest"
      using wf by (intro sorted_wrt_delete) (simp add: wf_block_def)
    then show ?thesis unfolding offs
      by (rule sorted_wrt_mono_rel [rotated]) (use sub same in \<open>auto simp: payloads_disjoint_def\<close>)
  qed
  have sum: "total_free bt' + sum_list (map (\<lambda>item. ITEM_OFF_SIZE + payload bt' item) (item_offs bt'))
      = NGNFS_BTREE_MAX_FREE"
  proof -
    have eq: "map (\<lambda>item. ITEM_OFF_SIZE + payload bt' item) ?rest =
        map (\<lambda>item. ITEM_OFF_SIZE + payload bt item) ?rest"
      using same sub by (intro map_cong) auto
    show ?thesis using total unfolding offs eq hdr tf_def by simp
  qed
  have srt: "keys_sorted (map (item_key bt') (item_offs bt'))"
    using keys_sorted_delete [OF wf_block_sorted [OF wf], of pos] map_fst_items [of bt']
    by (simp add: its take_map drop_map)
  have "free_end bt' \<le> 4096" using fe it(2) b(2) by auto
  then have "wf_block bt'"
    unfolding wf_block_def using room disj sum srt lim by (simp add: hdr)
  then show thesis using that run its frame hdr(3) by (auto simp: af_def tot_def)
qed

end
