(* ===== verification/Btree_Map.thy ===== *)
theory Btree_Map
  imports Btree_Delete
begin

text \<open>
  The contract of a btree block towards its users: it is a bounded finite map
  from keys to values.  The locale \<open>kv_block\<close> states the contract once, with
  the lemmas a client needs; the interpretation \<open>bt\<close> at the end discharges it
  for the operations of \<open>shared/btree.c\<close>.
\<close>

type_synonym kv_map = "u8 list \<rightharpoonup> u8 list"

definition valid_kv :: "u8 list \<Rightarrow> u8 list \<Rightarrow> bool" where
  "valid_kv key val \<longleftrightarrow> 0 < length key \<and> length key \<le> NGNFS_BTREE_KEY_SIZE_MAX \<and>
     length val \<le> NGNFS_BTREE_VAL_SIZE_MAX"

definition kv_cost :: "u8 list \<Rightarrow> u8 list \<Rightarrow> nat" where
  "kv_cost key val = ITEM_OFF_SIZE + BTREE_ITEM_SIZE + length key + length val"

primrec insert_all :: "('b \<Rightarrow> u8 list \<Rightarrow> u8 list \<Rightarrow> (int \<times> 'b) run) \<Rightarrow> 'b \<Rightarrow> (u8 list \<times> u8 list) list \<Rightarrow> (int \<times> 'b) run" where
  "insert_all ins b [] = Ret (0, b)"
| "insert_all ins b (kv # kvs) =
     bind_run (ins b (fst kv) (snd kv)) (\<lambda>(ret, b).
       if ret < 0 then Ret (ret, b) else insert_all ins b kvs)"

text \<open>Operations on a block in sequence, with their results, and what they mean for a map.\<close>

datatype kv_op = Kv_lookup "u8 list" nat | Kv_insert "u8 list" "u8 list" | Kv_delete "u8 list"

type_synonym kv_result = "int \<times> u8 list"

primrec spec_op :: "kv_op \<Rightarrow> kv_map \<Rightarrow> kv_result \<times> kv_map" where
  "spec_op (Kv_lookup k n) m =
     ((case m k of Some v \<Rightarrow> (int (min n (length v)), take n v) | None \<Rightarrow> (- ENOENT, [])), m)"
| "spec_op (Kv_insert k v) m =
     (if \<not> valid_kv k v then ((- EINVAL, []), m)
      else if k \<in> dom m then ((- EEXIST, []), m) else ((0, []), m(k \<mapsto> v)))"
| "spec_op (Kv_delete k) m = (if k \<in> dom m then ((0, []), m(k := None)) else ((- ENOENT, []), m))"

primrec spec_ops :: "kv_op list \<Rightarrow> kv_map \<Rightarrow> kv_result list \<times> kv_map" where
  "spec_ops [] m = ([], m)"
| "spec_ops (p # ps) m = (let (r, m) = spec_op p m; (rs, m) = spec_ops ps m in (r # rs, m))"

primrec run_op ::
    "('b \<Rightarrow> u8 list \<Rightarrow> nat \<Rightarrow> (int \<times> u8 list) run) \<Rightarrow> ('b \<Rightarrow> u8 list \<Rightarrow> u8 list \<Rightarrow> (int \<times> 'b) run) \<Rightarrow>
     ('b \<Rightarrow> u8 list \<Rightarrow> (int \<times> 'b) run) \<Rightarrow> kv_op \<Rightarrow> 'b \<Rightarrow> (kv_result \<times> 'b) run" where
  "run_op lk ins del (Kv_lookup k n) b = bind_run (lk b k n) (\<lambda>r. Ret (r, b))"
| "run_op lk ins del (Kv_insert k v) b = bind_run (ins b k v) (\<lambda>(ret, b). Ret ((ret, []), b))"
| "run_op lk ins del (Kv_delete k) b = bind_run (del b k) (\<lambda>(ret, b). Ret ((ret, []), b))"

primrec run_ops ::
    "('b \<Rightarrow> u8 list \<Rightarrow> nat \<Rightarrow> (int \<times> u8 list) run) \<Rightarrow> ('b \<Rightarrow> u8 list \<Rightarrow> u8 list \<Rightarrow> (int \<times> 'b) run) \<Rightarrow>
     ('b \<Rightarrow> u8 list \<Rightarrow> (int \<times> 'b) run) \<Rightarrow> kv_op list \<Rightarrow> 'b \<Rightarrow> (kv_result list \<times> 'b) run" where
  "run_ops lk ins del [] b = Ret ([], b)"
| "run_ops lk ins del (p # ps) b =
     bind_run (run_op lk ins del p b) (\<lambda>(r, b).
     bind_run (run_ops lk ins del ps b) (\<lambda>(rs, b). Ret (r # rs, b)))"

text \<open>The keys of lookups and deletes fit the size of a key; inserts check theirs.\<close>

primrec op_key_ok :: "kv_op \<Rightarrow> bool" where
  "op_key_ok (Kv_lookup k n) \<longleftrightarrow> length k \<le> 255"
| "op_key_ok (Kv_insert k v) \<longleftrightarrow> True"
| "op_key_ok (Kv_delete k) \<longleftrightarrow> length k \<le> 255"

primrec op_cost :: "kv_op \<Rightarrow> nat" where
  "op_cost (Kv_lookup k n) = 0"
| "op_cost (Kv_insert k v) = (if valid_kv k v then kv_cost k v else 0)"
| "op_cost (Kv_delete k) = 0"

locale kv_block =
  fixes wf :: "'b \<Rightarrow> bool" and view :: "'b \<Rightarrow> kv_map" and room :: "'b \<Rightarrow> nat"
    and init :: "'b \<Rightarrow> 'b"
    and lookup :: "'b \<Rightarrow> u8 list \<Rightarrow> nat \<Rightarrow> (int \<times> u8 list) run"
    and insert :: "'b \<Rightarrow> u8 list \<Rightarrow> u8 list \<Rightarrow> (int \<times> 'b) run"
    and delete :: "'b \<Rightarrow> u8 list \<Rightarrow> (int \<times> 'b) run"
  assumes init: "wf (init b)" "view (init b) = Map.empty" "room (init b) = NGNFS_BTREE_MAX_FREE"
    and lookup_some: "wf b \<Longrightarrow> length k \<le> 255 \<Longrightarrow> view b k = Some v \<Longrightarrow>
           lookup b k n = Ret (int (min n (length v)), take n v)"
    and lookup_none: "wf b \<Longrightarrow> length k \<le> 255 \<Longrightarrow> view b k = None \<Longrightarrow>
           lookup b k n = Ret (- ENOENT, [])"
    and insert_new: "wf b \<Longrightarrow> valid_kv k v \<Longrightarrow> view b k = None \<Longrightarrow> kv_cost k v \<le> room b \<Longrightarrow>
           \<exists>b'. insert b k v = Ret (0, b') \<and> wf b' \<and> view b' = (view b)(k \<mapsto> v)
                \<and> room b' = room b - kv_cost k v"
    and insert_old: "wf b \<Longrightarrow> valid_kv k v \<Longrightarrow> view b k = Some w \<Longrightarrow> insert b k v = Ret (- EEXIST, b)"
    and insert_bad: "wf b \<Longrightarrow> \<not> valid_kv k v \<Longrightarrow> insert b k v = Ret (- EINVAL, b)"
    and insert_nospace: "wf b \<Longrightarrow> valid_kv k v \<Longrightarrow> view b k = None \<Longrightarrow> room b < kv_cost k v \<Longrightarrow> insert b k v = Bug"
    and delete_some: "wf b \<Longrightarrow> length k \<le> 255 \<Longrightarrow> view b k = Some v \<Longrightarrow>
           \<exists>b'. delete b k = Ret (0, b') \<and> wf b' \<and> view b' = (view b)(k := None)
                \<and> room b + ITEM_OFF_SIZE \<le> room b'"
    and delete_none: "wf b \<Longrightarrow> length k \<le> 255 \<Longrightarrow> view b k = None \<Longrightarrow> delete b k = Ret (- ENOENT, b)"
begin

lemma insert_lookup:
  assumes "wf b" "valid_kv k v" "insert b k v = Ret (0, b')" "view b k = None" "kv_cost k v \<le> room b"
  shows "wf b'" and "lookup b' k (length v) = Ret (int (length v), v)"
    and "length k' \<le> 255 \<Longrightarrow> k' \<noteq> k \<Longrightarrow> lookup b' k' n = lookup b k' n"
proof -
  obtain b'' where b'': "insert b k v = Ret (0, b'')" "wf b''" "view b'' = (view b)(k \<mapsto> v)"
    using insert_new assms by blast
  with assms(3) have b': "wf b'" "view b' = (view b)(k \<mapsto> v)" by auto
  show "wf b'" by (fact b')
  show "lookup b' k (length v) = Ret (int (length v), v)"
    using lookup_some [of b' k v "length v"] b' assms(2) by (simp add: valid_kv_def)
  show "lookup b' k' n = lookup b k' n" if "length k' \<le> 255" "k' \<noteq> k"
    using that b' assms(1) lookup_some lookup_none by (cases "view b k'") auto
qed

lemma insert_delete:
  assumes "wf b" "valid_kv k v" "view b k = None" "kv_cost k v \<le> room b"
  shows "\<exists>b' b''. insert b k v = Ret (0, b') \<and> delete b' k = Ret (0, b'') \<and> wf b'' \<and> view b'' = view b"
proof -
  obtain b' where b': "insert b k v = Ret (0, b')" "wf b'" "view b' = (view b)(k \<mapsto> v)"
    using insert_new assms by blast
  then obtain b'' where "delete b' k = Ret (0, b'')" "wf b''" "view b'' = (view b')(k := None)"
    using delete_some [of b' k v] assms(2) by (auto simp: valid_kv_def)
  moreover have "(view b')(k := None) = view b"
    using b'(3) assms(3) by (auto simp: fun_eq_iff)
  ultimately show ?thesis using b'(1) by auto
qed

lemma insert_all_ok:
  assumes "wf b" "distinct (map fst kvs)" "list_all (\<lambda>(k, v). valid_kv k v) kvs"
    and "\<forall>k\<in>set (map fst kvs). view b k = None"
    and "sum_list (map (\<lambda>(k, v). kv_cost k v) kvs) \<le> room b"
  shows "\<exists>b'. insert_all insert b kvs = Ret (0, b') \<and> wf b' \<and> view b' = view b ++ map_of kvs"
  using assms
proof (induction kvs arbitrary: b)
  case Nil
  then show ?case by simp
next
  case (Cons kv kvs)
  obtain k v where kv: "kv = (k, v)" by (cases kv)
  with Cons.prems have pre: "valid_kv k v" "view b k = None" "kv_cost k v \<le> room b" by auto
  then obtain b1 where b1: "insert b k v = Ret (0, b1)" "wf b1" "view b1 = (view b)(k \<mapsto> v)"
      "room b1 = room b - kv_cost k v"
    using insert_new Cons.prems(1) by blast
  have "\<exists>b'. insert_all insert b1 kvs = Ret (0, b') \<and> wf b' \<and> view b' = view b1 ++ map_of kvs"
    using Cons.prems b1 kv by (intro Cons.IH) auto
  moreover have "insert_all insert b (kv # kvs) = insert_all insert b1 kvs"
    using b1(1) kv by simp
  moreover have "view b1 ++ map_of kvs = view b ++ map_of (kv # kvs)"
  proof -
    have "map_of kvs k = None" using Cons.prems(2) kv by (simp add: map_of_eq_None_iff)
    then show ?thesis unfolding b1(3) kv by (auto simp: fun_eq_iff map_add_def split: option.splits)
  qed
  ultimately show ?case by metis
qed

text \<open>One operation gives the result of the map, or an insert stops for want of room.\<close>

lemma run_op_refines:
  assumes "wf b" "op_key_ok p"
  shows "(\<exists>b'. run_op lookup insert delete p b = Ret (fst (spec_op p (view b)), b') \<and> wf b' \<and>
      view b' = snd (spec_op p (view b)) \<and> room b \<le> room b' + op_cost p) \<or>
    run_op lookup insert delete p b = Bug \<and> room b < op_cost p"
proof (cases p)
  case (Kv_lookup k n)
  then show ?thesis using assms lookup_some [of b k _ n] lookup_none [of b k n] by (cases "view b k") auto
next
  case (Kv_insert k v)
  consider "\<not> valid_kv k v" | "valid_kv k v" "k \<in> dom (view b)"
    | "valid_kv k v" "view b k = None" "kv_cost k v \<le> room b" | "valid_kv k v" "view b k = None" "room b < kv_cost k v"
    by fastforce
  then show ?thesis
  proof cases
    case 3
    then obtain b' where "insert b k v = Ret (0, b')" "wf b'" "view b' = (view b)(k \<mapsto> v)" "room b' = room b - kv_cost k v"
      using insert_new assms(1) by blast
    then show ?thesis using 3 Kv_insert by auto
  qed (use Kv_insert assms(1) insert_bad insert_old insert_nospace in auto)
next
  case (Kv_delete k)
  show ?thesis
  proof (cases "view b k")
    case (Some v)
    then obtain b' where "delete b k = Ret (0, b')" "wf b'" "view b' = (view b)(k := None)" "room b + ITEM_OFF_SIZE \<le> room b'"
      using delete_some [OF assms(1) _ Some] assms(2) Kv_delete by auto
    then show ?thesis using Some Kv_delete by auto
  qed (use Kv_delete assms delete_none in auto)
qed

lemma run_ops_refines:
  assumes "wf b" "list_all op_key_ok ps"
  shows "(\<exists>b'. run_ops lookup insert delete ps b = Ret (fst (spec_ops ps (view b)), b') \<and> wf b' \<and>
      view b' = snd (spec_ops ps (view b))) \<or>
    run_ops lookup insert delete ps b = Bug \<and> room b < sum_list (map op_cost ps)"
  using assms
proof (induction ps arbitrary: b)
  case (Cons p ps)
  have k: "op_key_ok p" "list_all op_key_ok ps" using Cons.prems by auto
  obtain r m where s: "spec_op p (view b) = (r, m)" by fastforce
  from run_op_refines [OF Cons.prems(1) k(1)] show ?case
  proof (elim disjE exE conjE)
    fix b1 assume b1: "run_op lookup insert delete p b = Ret (fst (spec_op p (view b)), b1)" "wf b1"
      "view b1 = snd (spec_op p (view b))" "room b \<le> room b1 + op_cost p"
    then have m: "view b1 = m" using s by simp
    from Cons.IH [OF b1(2) k(2)] show ?thesis
      using b1(1,4) s m by (auto simp: case_prod_beta Let_def)
  qed auto
qed simp

end

subsection \<open>The abstract content of a block\<close>

definition block_map :: "mem \<Rightarrow> kv_map" where
  "block_map bt = map_of (items bt)"

lemma search_found:
  assumes "wf_block bt" "search_result (map fst (items bt)) key pos 0"
  shows "pos < nr_items bt" and "fst (items bt ! pos) = key" and "block_map bt key = Some (snd (items bt ! pos))"
proof -
  show p: "pos < nr_items bt" and k: "fst (items bt ! pos) = key"
    using assms(2) by (auto simp: search_result_def)
  have "(key, snd (items bt ! pos)) \<in> set (items bt)"
    using p k by (metis length_items nth_mem prod.collapse)
  then show "block_map bt key = Some (snd (items bt ! pos))"
    using wf_block_distinct_keys [OF assms(1)] by (simp add: block_map_def)
qed

lemma search_missing:
  assumes "search_result (map fst (items bt)) key pos cmp" "cmp \<noteq> 0"
  shows "block_map bt key = None" and "pos \<le> nr_items bt"
proof -
  have "key \<notin> set (map fst (items bt))"
  proof
    assume "key \<in> set (map fst (items bt))"
    then obtain i where "i < length (map fst (items bt))" "map fst (items bt) ! i = key"
      by (auto simp only: in_set_conv_nth)
    with assms show False
      unfolding search_result_def by (metis key_less_irrefl not_less)
  qed
  then show "block_map bt key = None" by (simp add: block_map_def map_of_eq_None_iff)
  show "pos \<le> nr_items bt" using assms by (simp add: search_result_def)
qed

lemma map_of_insert_nth:
  assumes "k \<notin> set (map fst xs)"
  shows "map_of (take p xs @ (k, v) # drop p xs) = (map_of xs)(k \<mapsto> v)"
proof -
  have "map_of xs = map_of (take p xs @ drop p xs)" by (simp only: append_take_drop_id)
  moreover have "map_of (take p xs) k = None"
    using assms by (auto simp: map_of_eq_None_iff dest: in_set_takeD)
  ultimately show ?thesis
    by (auto simp: fun_eq_iff map_add_def simp del: append_take_drop_id split: option.splits)
qed

lemma map_of_delete_nth:
  assumes "distinct (map fst xs)" "p < length xs"
  shows "map_of (take p xs @ drop (Suc p) xs) = (map_of xs)(fst (xs ! p) := None)"
proof -
  let ?k = "fst (xs ! p)"
  have xs: "xs = take p xs @ xs ! p # drop (Suc p) xs" using assms(2) by (rule id_take_nth_drop)
  have "distinct (map fst (take p xs @ xs ! p # drop (Suc p) xs))" using assms(1) xs by simp
  then have "?k \<notin> set (map fst (take p xs))" "?k \<notin> set (map fst (drop (Suc p) xs))" by auto
  then have "map_of (take p xs) ?k = None" "map_of (drop (Suc p) xs) ?k = None"
    by (auto simp: map_of_eq_None_iff)
  moreover have "map_of xs = map_of (take p xs @ (?k, snd (xs ! p)) # drop (Suc p) xs)"
    using xs by simp
  ultimately show ?thesis
    by (auto simp: fun_eq_iff map_add_def split: option.splits)
qed

subsection \<open>The exported operations\<close>

lemma init_block_correct:
  "wf_block (ngnfs_btree_init_block m level)" "items (ngnfs_btree_init_block m level) = []"
  "avail_free (ngnfs_btree_init_block m level) = 4080"
proof -
  let ?b = "ngnfs_btree_init_block m level"
  have h: "nr_items ?b = 0" "total_free ?b = 4080" "avail_free ?b = 4080"
    by (simp_all add: ngnfs_btree_init_block_def Let_def nr_items_def total_free_def avail_free_def
        fun_upd_write_bytes mem_simps)
  then have "item_offs ?b = []" by (simp add: item_offs_def)
  with h show "wf_block ?b" "items ?b = []" "avail_free ?b = 4080"
    by (simp_all add: wf_block_def items_def free_end_def item_off_addr_def)
qed

lemma lookup_correct:
  assumes "wf_block bt" "length key \<le> 32767"
  shows "ngnfs_btree_lookup bt key n =
    (case block_map bt key of None \<Rightarrow> Ret (- ENOENT, [])
     | Some v \<Rightarrow> Ret (int (min n (length v)), take n v))"
proof -
  obtain pos cmp where s: "btree_search bt key = Ret (pos, cmp)"
      "search_result (map fst (items bt)) key pos cmp"
    using btree_search_correct [OF assms] .
  show ?thesis
  proof (cases "cmp = 0")
    case True
    note f = search_found [OF assms(1) s(2) [unfolded True]]
    let ?i = "item_offs bt ! pos"
    have "snd (items bt ! pos) = item_val bt ?i" using f(1) by (simp add: nth_items)
    moreover have "bytes bt (val_ptr bt ?i) (min n (val_size bt ?i)) = take n (item_val bt ?i)"
      by (rule nth_equalityI) (auto simp: item_val_def)
    ultimately show ?thesis
      using s(1) True f by (simp add: ngnfs_btree_lookup_def item_ptr_in_range Let_def)
  next
    case False
    then show ?thesis
      using s(1) search_missing(1) [OF s(2) False] by (simp add: ngnfs_btree_lookup_def)
  qed
qed

lemma insert_correct:
  assumes "wf_block bt" "valid_kv key val" "block_map bt key = None" "kv_cost key val \<le> avail_free bt"
  obtains bt' where "ngnfs_btree_insert bt key val = Ret (0, bt')" and "wf_block bt'"
    and "block_map bt' = (block_map bt)(key \<mapsto> val)"
    and "avail_free bt' = avail_free bt - kv_cost key val"
    and "\<And>i. i < 8 \<or> i = 14 \<or> i = 15 \<or> free_end bt \<le> i \<Longrightarrow> bt' i = bt i"
proof -
  have k: "length key \<le> 32767" using assms(2) by (simp add: valid_kv_def)
  obtain pos cmp where s: "btree_search bt key = Ret (pos, cmp)"
      "search_result (map fst (items bt)) key pos cmp"
    using btree_search_correct [OF assms(1) k] .
  have c: "cmp \<noteq> 0"
  proof
    assume "cmp = 0"
    then show False using search_found(3) [OF assms(1)] s(2) assms(3) by fastforce
  qed
  obtain bt' where bt': "insert_item bt pos key val = Ret bt'" "wf_block bt'"
      "items bt' = take pos (items bt) @ (key, val) # drop pos (items bt)"
      "avail_free bt' = avail_free bt - (5 + length key + length val)"
      "\<And>i. i < 8 \<or> i = 14 \<or> i = 15 \<or> free_end bt \<le> i \<Longrightarrow> bt' i = bt i"
    using assms(2,4) by (auto simp: valid_kv_def kv_cost_def intro: insert_item_correct [OF assms(1) s(2) c])
  have "key \<notin> set (map fst (items bt))"
    using assms(3) by (simp add: block_map_def map_of_eq_None_iff)
  then have "block_map bt' = (block_map bt)(key \<mapsto> val)"
    unfolding block_map_def bt'(3) by (rule map_of_insert_nth)
  moreover have "ngnfs_btree_insert bt key val = Ret (0, bt')"
    using assms(2) s(1) c bt'(1) by (auto simp: ngnfs_btree_insert_def valid_kv_def)
  ultimately show thesis using that bt' by (simp add: kv_cost_def)
qed

lemma insert_exists:
  assumes "wf_block bt" "valid_kv key val" "block_map bt key = Some v"
  shows "ngnfs_btree_insert bt key val = Ret (- EEXIST, bt)"
proof -
  have k: "length key \<le> 32767" using assms(2) by (simp add: valid_kv_def)
  obtain pos cmp where s: "btree_search bt key = Ret (pos, cmp)"
      "search_result (map fst (items bt)) key pos cmp"
    using btree_search_correct [OF assms(1) k] .
  have "cmp = 0" using search_missing(1) [OF s(2)] assms(3) by fastforce
  then show ?thesis using assms(2) s(1) by (auto simp: ngnfs_btree_insert_def valid_kv_def)
qed

lemma insert_full:
  assumes "wf_block bt" "valid_kv key val" "block_map bt key = None" "avail_free bt < kv_cost key val"
  shows "ngnfs_btree_insert bt key val = Bug"
proof -
  have k: "length key \<le> 32767" using assms(2) by (simp add: valid_kv_def)
  obtain pos cmp where s: "btree_search bt key = Ret (pos, cmp)"
      "search_result (map fst (items bt)) key pos cmp"
    using btree_search_correct [OF assms(1) k] .
  have c: "cmp \<noteq> 0"
  proof
    assume "cmp = 0"
    then show False using search_found(3) [OF assms(1)] s(2) assms(3) by fastforce
  qed
  have "insert_item bt pos key val = Bug"
    using assms(2,4) search_missing(2) [OF s(2) c]
    by (auto simp: insert_item_def Let_def valid_kv_def kv_cost_def key_val_size_def to_u16_def BUG_ON_def)
  then show ?thesis using assms(2) s(1) c by (auto simp: ngnfs_btree_insert_def valid_kv_def)
qed

lemma delete_correct:
  assumes "wf_block bt" "length key \<le> 32767" "block_map bt key = Some v"
  obtains bt' where "ngnfs_btree_delete bt key = Ret (0, bt')" and "wf_block bt'"
    and "block_map bt' = (block_map bt)(key := None)" and "avail_free bt + 2 \<le> avail_free bt'"
    and "\<And>i. i < 8 \<or> i = 14 \<or> i = 15 \<or> 16 + 2 * nr_items bt \<le> i \<Longrightarrow> bt' i = bt i"
proof -
  obtain pos cmp where s: "btree_search bt key = Ret (pos, cmp)"
      "search_result (map fst (items bt)) key pos cmp"
    using btree_search_correct [OF assms(1,2)] .
  have c: "cmp = 0" using search_missing(1) [OF s(2)] assms(3) by fastforce
  note f = search_found [OF assms(1) s(2) [unfolded c]]
  obtain bt' where bt': "remove_item bt pos = Ret bt'" "wf_block bt'"
      "items bt' = take pos (items bt) @ drop (Suc pos) (items bt)"
      "avail_free bt + 2 \<le> avail_free bt'"
      "\<And>i. i < 8 \<or> i = 14 \<or> i = 15 \<or> 16 + 2 * nr_items bt \<le> i \<Longrightarrow> bt' i = bt i"
    using remove_item_correct [OF assms(1) f(1)] by blast
  have "block_map bt' = (block_map bt)(key := None)"
    unfolding block_map_def bt'(3)
    using map_of_delete_nth [OF wf_block_distinct_keys [OF assms(1)], of pos] f by simp
  moreover have "ngnfs_btree_delete bt key = Ret (0, bt')"
    using s(1) c bt'(1) by (simp add: ngnfs_btree_delete_def)
  ultimately show thesis using that bt' by blast
qed

lemma delete_missing:
  assumes "wf_block bt" "length key \<le> 32767" "block_map bt key = None"
  shows "ngnfs_btree_delete bt key = Ret (- ENOENT, bt)"
proof -
  obtain pos cmp where s: "btree_search bt key = Ret (pos, cmp)"
      "search_result (map fst (items bt)) key pos cmp"
    using btree_search_correct [OF assms(1,2)] .
  have "cmp \<noteq> 0"
  proof
    assume "cmp = 0"
    then show False using search_found(3) [OF assms(1)] s(2) assms(3) by fastforce
  qed
  then show ?thesis using s(1) by (simp add: ngnfs_btree_delete_def)
qed

subsection \<open>The block layer provides the contract\<close>

interpretation bt: kv_block wf_block block_map avail_free "\<lambda>m. ngnfs_btree_init_block m level"
  ngnfs_btree_lookup ngnfs_btree_insert ngnfs_btree_delete
  for level
proof (unfold_locales, goal_cases)
  case (1 b)
  show ?case by (rule init_block_correct)
next
  case (2 b)
  show ?case by (simp add: block_map_def init_block_correct)
next
  case (3 b)
  show ?case by (simp add: init_block_correct)
next
  case (4 b k v n)
  then show ?case using lookup_correct [of b k n] by simp
next
  case (5 b k n)
  then show ?case using lookup_correct [of b k n] by simp
next
  case (6 b k v)
  then show ?case using insert_correct [of b k v] by blast
next
  case (7 b k v w)
  then show ?case by (rule insert_exists)
next
  case (8 b k v)
  then show ?case by (auto simp: ngnfs_btree_insert_def valid_kv_def)
next
  case (9 b k v)
  then show ?case by (rule insert_full)
next
  case (10 b k v)
  then have "length k \<le> 32767" by simp
  with 10 show ?case using delete_correct [of b k v] by (metis ITEM_OFF_SIZE_def)
next
  case (11 b k)
  then show ?case using delete_missing [of b k] by simp
qed

end
