(* ===== verification/Btree_Multi.thy ===== *)
theory Btree_Multi
  imports Btree_Map
begin

text \<open>
  The operations of \<open>shared/btree.c\<close> that work on whole blocks or on several
  blocks: moving items between siblings, updating the parent, splitting,
  refilling, compacting and verifying.  \<open>fuel\<close> bounds the iterations of the
  compaction loop, the only loop of these operations whose exit is not a bound
  on its counter.
\<close>

subsection \<open>sort_r\<close>

text \<open>
  \<open>shared/lk/sort.c\<close> hands the array to \<open>qsort_r\<close>: a permutation that
  is sorted by the comparison.  The model is a stable insertion sort.
\<close>

primrec insort_r :: "('a \<Rightarrow> 'a \<Rightarrow> int) \<Rightarrow> 'a \<Rightarrow> 'a list \<Rightarrow> 'a list" where
  "insort_r cmp x [] = [x]"
| "insort_r cmp x (y # ys) = (if cmp x y \<le> 0 then x # y # ys else y # insort_r cmp x ys)"

definition sort_r :: "('a \<Rightarrow> 'a \<Rightarrow> int) \<Rightarrow> 'a list \<Rightarrow> 'a list" where
  "sort_r cmp xs = foldr (insort_r cmp) xs []"

definition cmp_item_off :: "nat \<Rightarrow> nat \<Rightarrow> int" where
  "cmp_item_off off_a off_b = int off_b - int off_a"

definition cmp_item_key :: "mem \<Rightarrow> nat \<Rightarrow> nat \<Rightarrow> int" where
  "cmp_item_key bt off_a off_b = cmp_keys (item_key bt off_a) (item_key bt off_b)"

text \<open>Sorting the offset array in place.\<close>

definition store_item_offs :: "mem \<Rightarrow> nat list \<Rightarrow> mem" where
  "store_item_offs bt offs = write_bytes bt (item_off_addr 0) (concat (map (num_le 2) offs))"

definition sort_item_offs :: "mem \<Rightarrow> (nat \<Rightarrow> nat \<Rightarrow> int) \<Rightarrow> mem" where
  "sort_item_offs bt cmp = store_item_offs bt (sort_r cmp (item_offs bt))"

subsection \<open>Compaction\<close>

text \<open>
  \<open>for (i = nr - 1; i >= 0; i--)\<close> with \<open>u16 i\<close>: the condition holds for
  every value of \<open>i\<close>, so the loop only leaves through an assertion.
\<close>

primrec compact_loop :: "nat \<Rightarrow> mem \<Rightarrow> nat \<Rightarrow> nat \<Rightarrow> mem run" where
  "compact_loop 0 bt i off = Spin"
| "compact_loop (Suc fuel) bt i off =
     bind_run (item_ptr bt i) (\<lambda>item.
     let size = item_size bt item;
         off = to_u16 (int off - int size) in
     bind_run (get_item_off bt i) (\<lambda>ioff.
     if ioff \<noteq> off
     then bind_run (set_item_off bt i off) (\<lambda>bt.
          bind_run (item_ptr bt i) (\<lambda>to.
          compact_loop fuel (memmove bt to item size) (to_u16 (int i - 1)) off))
     else compact_loop fuel bt (to_u16 (int i - 1)) off))"

definition ngnfs_btree_compact :: "nat \<Rightarrow> mem \<Rightarrow> mem run" where
  "ngnfs_btree_compact fuel bt =
     (if avail_free bt = total_free bt then Ret bt
      else
        (let nr = nr_items bt;
             bt = sort_item_offs bt cmp_item_off in
         bind_run (compact_loop fuel bt (to_u16 (int nr - 1)) NGNFS_BLOCK_SIZE) (\<lambda>bt.
         let bt = put_unaligned_le16 (total_free bt) bt 12
         in Ret (sort_item_offs bt (cmp_item_key bt)))))"

subsection \<open>Moving items between blocks\<close>

text \<open>
  The loop that counts the items to move from the front of the source, over the
  remaining positions.  \<open>moving\<close> is s16.
\<close>

primrec count_first :: "mem \<Rightarrow> int \<Rightarrow> nat list \<Rightarrow> int \<Rightarrow> nat \<Rightarrow> (int \<times> nat) run" where
  "count_first src target [] moving nr = Ret (moving, nr)"
| "count_first src target (i # is) moving nr =
     (if moving \<le> target
      then bind_run (item_ptr src i) (\<lambda>item.
           count_first src target is (to_s16 (moving + int (total_item_size src item)))
             (to_u16 (int nr + 1)))
      else Ret (moving, nr))"

text \<open>The loop from the last item down, which has no bound on \<open>moving\<close>.\<close>

primrec count_last :: "mem \<Rightarrow> nat list \<Rightarrow> int \<Rightarrow> nat \<Rightarrow> (int \<times> nat) run" where
  "count_last src [] moving nr = Ret (moving, nr)"
| "count_last src (i # is) moving nr =
     bind_run (item_ptr src i) (\<lambda>item.
     count_last src is (to_s16 (moving + int (total_item_size src item))) (to_u16 (int nr + 1)))"

primrec copy_items :: "mem \<Rightarrow> nat \<Rightarrow> nat \<Rightarrow> nat list \<Rightarrow> nat \<Rightarrow> mem \<Rightarrow> mem run" where
  "copy_items src s d [] off dst = Ret dst"
| "copy_items src s d (i # is) off dst =
     bind_run (item_ptr src (to_u16 (int s + int i))) (\<lambda>src_item.
     let size = item_size src src_item;
         off = to_u16 (int off - int size) in
     bind_run (set_item_off dst (to_u16 (int d + int i)) off) (\<lambda>dst.
     bind_run (item_ptr dst (to_u16 (int d + int i))) (\<lambda>dst_item.
     copy_items src s d is off (memcpy dst dst_item src src_item size))))"

definition move_items :: "nat \<Rightarrow> mem \<Rightarrow> mem \<Rightarrow> bool \<Rightarrow> bool \<Rightarrow> (mem \<times> mem) run" where
  "move_items fuel dst src src_first drain_src =
     BUG_ON (nr_items src = 0) (
     bind_run
       (if drain_src then Ret (to_s16 (int (used_size src)), nr_items src)
        else (let target = to_s16 ((int (used_size src) - int (used_size dst)) div 2)
              in if src_first then count_first src target [0..<nr_items src] 0 0
                 else count_last src (rev [0..<nat (to_s16 (int (nr_items src) - 1) + 1)]) 0 0))
       (\<lambda>(moving, nr).
     let s = (if src_first then 0 else to_u16 (int (nr_items src) - int nr));
         d = (if src_first then to_u16 (int (nr_items dst) - int nr) else 0) in
     bind_run (ngnfs_btree_compact fuel dst) (\<lambda>dst.
     let dst = (if \<not> src_first then memmove_tail_offs dst 0 (to_s16 (int nr)) else dst) in
     bind_run (copy_items src s d [0..<nr] (avail_free_end dst) dst) (\<lambda>dst.
     let src = (if src_first then memmove_tail_offs src nr (to_s16 (- int nr)) else src);
         src = le16_add_cpu src 8 (- int nr);
         src = le16_add_cpu src 10 moving;
         dst = le16_add_cpu dst 8 (int nr);
         dst = le16_add_cpu dst 10 (- moving)
     in Ret (put_unaligned_le16 (total_free dst) dst 12, src)))))"

subsection \<open>Parent items\<close>

definition init_btree_ref :: "mem \<Rightarrow> u8 list" where
  "init_btree_ref child = bytes child 0 8"

definition insert_parent_item :: "mem \<Rightarrow> nat \<Rightarrow> mem \<Rightarrow> mem run" where
  "insert_parent_item bt pos child =
     bind_run (last_item_ptr child) (\<lambda>lst.
     insert_item bt pos (item_key child lst) (init_btree_ref child))"

definition update_parent_key :: "mem \<Rightarrow> nat \<Rightarrow> mem \<Rightarrow> mem run" where
  "update_parent_key bt pos child =
     bind_run (item_ptr bt pos) (\<lambda>item.
     bind_run (last_item_ptr child) (\<lambda>lst.
     BUG_ON (key_size bt item \<noteq> key_size child lst)
       (Ret (memcpy bt (key_ptr item) child (key_ptr lst) (key_size child lst)))))"

definition update_parent_ref :: "mem \<Rightarrow> nat \<Rightarrow> mem \<Rightarrow> mem run" where
  "update_parent_ref bt pos child =
     bind_run (item_ptr bt pos) (\<lambda>item.
     bind_run (last_item_ptr child) (\<lambda>lst.
     BUG_ON (val_size bt item \<noteq> val_size child lst)
       (Ret (memcpy bt (val_ptr bt item) child (val_ptr child lst) (val_size child lst)))))"

subsection \<open>Splitting and refilling\<close>

text \<open>Both return the blocks they changed: parent, block and sibling.\<close>

definition ngnfs_btree_split :: "nat \<Rightarrow> mem \<Rightarrow> nat \<Rightarrow> mem \<Rightarrow> mem \<Rightarrow> (mem \<times> mem \<times> mem) run" where
  "ngnfs_btree_split fuel parent bt_pos bt sib =
     bind_run (move_items fuel sib bt True False) (\<lambda>(sib, bt).
     bind_run (insert_parent_item parent bt_pos sib) (\<lambda>parent.
     Ret (parent, bt, sib)))"

definition ngnfs_btree_refill ::
  "nat \<Rightarrow> mem \<Rightarrow> nat \<Rightarrow> nat \<Rightarrow> mem \<Rightarrow> mem \<Rightarrow> (mem \<times> mem \<times> mem) run" where
  "ngnfs_btree_refill fuel parent bt_pos sib_pos bt sib =
     (let src_first = sib_pos > bt_pos;
          drain_src = used_pct bt + used_pct sib \<le> NGNFS_BTREE_MIN_USED_PCT * 2 in
      bind_run (move_items fuel bt sib src_first drain_src) (\<lambda>(bt, sib).
      bind_run
        (if nr_items sib \<noteq> 0
         then (if bt_pos < sib_pos then update_parent_key parent bt_pos bt
               else update_parent_key parent sib_pos sib)
         else (if bt_pos < sib_pos
               then bind_run (update_parent_ref parent sib_pos bt) (\<lambda>parent.
                    remove_item parent bt_pos)
               else remove_item parent sib_pos))
        (\<lambda>parent. Ret (parent, bt, sib))))"

subsection \<open>Swapping\<close>

text \<open>
  \<open>swap_words_16\<close>, on a memory of 16-bit words at byte addresses.  The userspace \<open>sort_r\<close> does not
  call the swap function it is given.
\<close>

primrec swap_words_16 :: "nat \<Rightarrow> (int \<Rightarrow> u16) \<Rightarrow> int \<Rightarrow> int \<Rightarrow> int \<Rightarrow> (int \<Rightarrow> u16) run" where
  "swap_words_16 0 m a b n = Spin"
| "swap_words_16 (Suc fuel) m a b n =
     (let n = n - 4;
          t = m (a + n);
          m = m(a + n := m (b + n));
          m = m(b + n := t)
      in if n = 0 then Ret m else swap_words_16 fuel m a b n)"

text \<open>It steps by four bytes, so for the two bytes of an offset it passes zero and does not end.\<close>

lemma swap_words_16_spins: "n mod 4 = 2 \<Longrightarrow> swap_words_16 fuel m a b n = Spin"
proof (induction fuel arbitrary: m n)
  case (Suc fuel)
  have "(n - 4) mod 4 = 2" "n \<noteq> 4" using Suc.prems by presburger+
  then show ?case using Suc.IH by (simp add: Let_def)
qed simp

subsection \<open>Verification of blocks read from disk\<close>

text \<open>The walk over the sorted offsets; \<open>off\<close> and \<open>free\<close> are carried along, None is \<open>return false\<close>.\<close>

primrec verify_offs :: "mem \<Rightarrow> nat list \<Rightarrow> nat \<Rightarrow> nat \<Rightarrow> (nat \<times> nat) option run" where
  "verify_offs bt [] off free = Ret (Some (off, free))"
| "verify_offs bt (i # is) off free =
     bind_run (get_item_off bt i) (\<lambda>start.
     if start < off \<or> start + BTREE_ITEM_SIZE > NGNFS_BLOCK_SIZE then Ret None
     else bind_run (item_ptr bt i) (\<lambda>item.
       let size = item_size bt item
       in if size > NGNFS_BLOCK_SIZE \<or> start + size > NGNFS_BLOCK_SIZE then Ret None
          else verify_offs bt is (start + size)
                 (if start > off then to_u16 (int free + (int start - int off)) else free)))"

primrec verify_keys :: "mem \<Rightarrow> nat list \<Rightarrow> nat \<Rightarrow> bool run" where
  "verify_keys bt [] prev = Ret True"
| "verify_keys bt (i # is) prev =
     bind_run (item_ptr bt i) (\<lambda>item.
     if cmp_keys (item_key bt item) (item_key bt prev) \<le> 0 then Ret False
     else verify_keys bt is item)"

text \<open>Returns the verdict and the block, whose offset array it sorts.\<close>

definition ngnfs_btree_verify :: "mem \<Rightarrow> (bool \<times> mem) run" where
  "ngnfs_btree_verify bt =
     (let nr = nr_items bt in
      if nr > NGNFS_BTREE_MAX_ITEMS then Ret (False, bt)
      else
        (let bt = sort_item_offs bt cmp_item_off in
         bind_run (verify_offs bt [0..<nr] (item_off_addr nr) 0) (\<lambda>r.
         case r of None \<Rightarrow> Ret (False, bt)
         | Some (off, free) \<Rightarrow>
           (let free = to_u16 (int free + (int NGNFS_BLOCK_SIZE - int off)) in
            bind_run (get_item_off bt 0) (\<lambda>first.
            if avail_free_end bt > first then Ret (False, bt)
            else if total_free bt \<noteq> free then Ret (False, bt)
            else
              (let bt = sort_item_offs bt (cmp_item_key bt) in
               bind_run (item_ptr bt 0) (\<lambda>prev.
               bind_run (verify_keys bt [1..<nr] prev) (\<lambda>ok.
               Ret (ok, bt)))))))))"

end
