(* ===== verification/Btree_Multi_Props.thy ===== *)
theory Btree_Multi_Props
  imports Btree_Multi "HOL-Library.Multiset"
begin

text \<open>
  What the multi-block operations of \<open>shared/btree.c\<close> do: sorting the offset
  array, the cases in which compaction, verification and splitting cannot
  succeed, and the merge of a left sibling into a block.
\<close>

subsection \<open>sort_r sorts\<close>

lemma mset_insort_r [simp]: "mset (insort_r cmp x xs) = add_mset x (mset xs)"
  by (induction xs) auto

lemma mset_sort_r [simp]: "mset (sort_r cmp xs) = mset xs"
  unfolding sort_r_def by (induction xs) auto

lemma length_sort_r [simp]: "length (sort_r cmp xs) = length xs"
  using mset_sort_r [of cmp xs] by (metis size_mset)

lemma set_sort_r [simp]: "set (sort_r cmp xs) = set xs"
  using mset_sort_r [of cmp xs] by (metis set_mset_mset)

lemma sorted_sort_r:
  assumes "\<And>x y. cmp x y \<le> 0 \<or> cmp y x \<le> 0"
    and "\<And>x y z. cmp x y \<le> 0 \<Longrightarrow> cmp y z \<le> 0 \<Longrightarrow> cmp x z \<le> 0"
  shows "sorted_wrt (\<lambda>x y. cmp x y \<le> 0) (sort_r cmp xs)"
proof -
  let ?R = "\<lambda>x y. cmp x y \<le> 0"
  have s: "set (insort_r cmp x ys) = insert x (set ys)" for x ys
    using mset_insort_r [of cmp x ys] by (metis set_mset_add_mset_insert set_mset_mset)
  have "sorted_wrt ?R (insort_r cmp x ys)" if "sorted_wrt ?R ys" for x ys
    using that
  proof (induction ys)
    case (Cons y ys)
    then show ?case using assms(1) [of x y] assms(2) [of x y] by (auto simp: s)
  qed simp
  then show ?thesis unfolding sort_r_def by (induction xs) auto
qed

lemma sort_r_item_off_desc: "sorted_wrt (\<lambda>x y. y \<le> x) (sort_r cmp_item_off xs)"
proof -
  have "sorted_wrt (\<lambda>x y. cmp_item_off x y \<le> 0) (sort_r cmp_item_off xs)"
    by (rule sorted_sort_r) (auto simp: cmp_item_off_def)
  then show ?thesis by (simp add: cmp_item_off_def)
qed

subsection \<open>Storing the offset array\<close>

lemma length_concat_num_le: "length (concat (map (num_le 2) offs)) = 2 * length offs"
  by (induction offs) auto

lemma bytes_concat_num_le:
  "i < length offs \<Longrightarrow> take 2 (drop (2 * i) (concat (map (num_le 2) offs))) = num_le 2 (offs ! i)"
proof (induction offs arbitrary: i)
  case (Cons x offs)
  then show ?case by (cases i) auto
qed simp

lemma get_le16_store:
  assumes "i < length offs" "offs ! i < 65536"
  shows "get_unaligned_le16 (store_item_offs bt offs) (item_off_addr i) = offs ! i"
proof -
  let ?bs = "concat (map (num_le 2) offs)"
  have "bytes (store_item_offs bt offs) (item_off_addr i) 2 = take 2 (drop (2 * i) ?bs)"
  proof (rule nth_equalityI)
    fix j assume "j < length (bytes (store_item_offs bt offs) (item_off_addr i) 2)"
    then have "2 * i + j < length ?bs" "j < 2" using assms(1) unfolding length_concat_num_le by auto
    then show "bytes (store_item_offs bt offs) (item_off_addr i) 2 ! j = take 2 (drop (2 * i) ?bs) ! j"
      by (simp add: store_item_offs_def item_off_addr_def write_bytes_def)
  qed (use assms(1) in \<open>simp add: length_concat_num_le\<close>)
  then show ?thesis
    using assms by (simp add: get_unaligned_le16_def bytes_concat_num_le le_num_num_le)
qed

lemma header_store [simp]:
  "nr_items (store_item_offs bt offs) = nr_items bt"
  "total_free (store_item_offs bt offs) = total_free bt"
  "avail_free (store_item_offs bt offs) = avail_free bt"
  by (simp_all add: store_item_offs_def item_off_addr_def nr_items_def total_free_def avail_free_def
      mem_simps)

lemma item_offs_bound: "x \<in> set (item_offs bt) \<Longrightarrow> x < 65536"
  by (auto simp: item_offs_def)

lemma item_offs_sort:
  "item_offs (sort_item_offs bt cmp) = sort_r cmp (item_offs bt)"
proof (rule nth_equalityI)
  fix i assume "i < length (item_offs (sort_item_offs bt cmp))"
  then have i: "i < nr_items bt" by (simp add: sort_item_offs_def)
  then have "sort_r cmp (item_offs bt) ! i \<in> set (item_offs bt)"
    using nth_mem [of i "sort_r cmp (item_offs bt)"] by simp
  then have "sort_r cmp (item_offs bt) ! i < 65536" by (rule item_offs_bound)
  with i show "item_offs (sort_item_offs bt cmp) ! i = sort_r cmp (item_offs bt) ! i"
    by (simp add: sort_item_offs_def nth_item_offs get_le16_store)
qed (simp add: sort_item_offs_def)

lemma header_sort [simp]:
  "nr_items (sort_item_offs bt cmp) = nr_items bt"
  "total_free (sort_item_offs bt cmp) = total_free bt"
  "avail_free (sort_item_offs bt cmp) = avail_free bt"
  by (simp_all add: sort_item_offs_def)

subsection \<open>Compaction never completes\<close>

lemma compact_loop_never_returns: "compact_loop fuel bt i off \<noteq> Ret bt'"
proof (induction fuel arbitrary: bt i off)
  case (Suc fuel)
  then show ?case by (auto simp: run_simps Let_def split: if_splits)
qed simp

lemma compact_cases:
  "ngnfs_btree_compact fuel bt = Ret bt' \<longleftrightarrow> avail_free bt = total_free bt \<and> bt' = bt"
  using compact_loop_never_returns by (auto simp: ngnfs_btree_compact_def Let_def run_simps)

subsection \<open>Verification\<close>

lemma verify_offs_two:
  assumes "verify_offs bt (i # j # is) off free = Ret (Some r)" "get_item_off bt i = Ret a" "get_item_off bt j = Ret b"
  shows "a + item_size bt a \<le> b"
  using assms by (auto simp: run_simps Let_def item_ptr_def split: if_splits)

lemma verify_keys_adjacent:
  assumes "verify_keys bt [Suc i..<n] (item_offs bt ! i) = Ret True" "n = nr_items bt" "i < n"
    and "i \<le> j" "Suc j < n"
  shows "key_less (item_key bt (item_offs bt ! j)) (item_key bt (item_offs bt ! Suc j))"
  using assms
proof (induction "n - i" arbitrary: i)
  case (Suc k)
  have lt: "Suc i < n" using Suc.prems by simp
  then have l: "[Suc i..<n] = Suc i # [Suc (Suc i)..<n]" by (simp add: upt_conv_Cons)
  have ip: "item_ptr bt (Suc i) = Ret (item_offs bt ! Suc i)"
    using lt Suc.prems(2) by (simp add: item_ptr_in_range)
  have here: "key_less (item_key bt (item_offs bt ! i)) (item_key bt (item_offs bt ! Suc i))"
    and rest: "verify_keys bt [Suc (Suc i)..<n] (item_offs bt ! Suc i) = Ret True"
    using Suc.prems(1) unfolding l verify_keys.simps ip
    by (auto simp: cmp_keys_pos_iff [symmetric] split: if_splits)
  show ?case
  proof (cases "j = i")
    case True
    then show ?thesis using here by simp
  next
    case False
    show ?thesis
      by (rule Suc.hyps(1) [of "Suc i"]) (use Suc.hyps(2) Suc.prems rest lt False in auto)
  qed
qed simp

lemma verify_keys_distinct:
  assumes "verify_keys bt [Suc 0..<nr_items bt] (item_offs bt ! 0) = Ret True"
  shows "distinct (item_offs bt)"
proof (cases "nr_items bt = 0")
  case True
  then show ?thesis by (simp add: item_offs_def)
next
  case False
  let ?ks = "map (item_key bt) (item_offs bt)"
  have "transp key_less" using key_less_trans by (auto intro: transpI)
  moreover have "key_less (?ks ! j) (?ks ! Suc j)" if "Suc j < length ?ks" for j
    using verify_keys_adjacent [OF assms refl _ _ , of j] that False by simp
  ultimately have "keys_sorted ?ks" by (simp add: sorted_wrt_iff_nth_Suc_transp)
  then have "distinct ?ks" by (rule keys_sorted_distinct)
  then show ?thesis by (simp add: distinct_map)
qed

lemma verify_rejects_two_items:
  assumes "2 \<le> nr_items bt"
  shows "ngnfs_btree_verify bt \<noteq> Ret (True, bt')"
proof
  assume v: "ngnfs_btree_verify bt = Ret (True, bt')"
  let ?n = "nr_items bt" and ?b = "sort_item_offs bt cmp_item_off"
  let ?c = "sort_item_offs ?b (cmp_item_key ?b)"
  have n: "[0..<?n] = 0 # 1 # [2..<?n]" using assms by (simp add: upt_conv_Cons numeral_2_eq_2)
  have g: "get_item_off ?b i = Ret (item_offs ?b ! i)" "item_ptr ?c i = Ret (item_offs ?c ! i)"
    if "i < ?n" for i
    using that by (simp_all add: item_ptr_in_range item_ptr_def [symmetric])
  from v obtain r0 where r0: "verify_offs ?b [0..<?n] (item_off_addr ?n) 0 = Ret r0"
    by (auto simp: ngnfs_btree_verify_def Let_def run_simps split: if_splits)
  with v obtain off free where r: "r0 = Some (off, free)"
    by (cases r0) (auto simp: ngnfs_btree_verify_def Let_def split: if_splits)
  have k: "verify_keys ?c [Suc 0..<?n] (item_offs ?c ! 0) = Ret True"
    using v g [of 0] assms unfolding ngnfs_btree_verify_def Let_def r0 r
    by (auto simp: run_simps split: if_splits)
  have "item_offs ?b ! 0 + item_size ?b (item_offs ?b ! 0) \<le> item_offs ?b ! 1"
    using r0 [unfolded r] g [of 0] g [of 1] assms unfolding n by (intro verify_offs_two) auto
  moreover have "item_offs ?b ! 1 \<le> item_offs ?b ! 0"
    using sorted_wrt_nth_less [OF sort_r_item_off_desc, of 0 1 "item_offs bt"] assms
    by (simp add: item_offs_sort)
  ultimately have "item_offs ?b ! 0 = item_offs ?b ! 1" by simp
  moreover have "distinct (item_offs ?b)"
  proof -
    have "distinct (item_offs ?c)" using k by (intro verify_keys_distinct) simp
    then show ?thesis
      using mset_sort_r [of "cmp_item_key ?b" "item_offs ?b"] unfolding item_offs_sort
      by (metis mset_eq_imp_distinct_iff)
  qed
  ultimately show False using assms by (simp add: nth_eq_iff_index_eq)
qed

subsection \<open>Splitting\<close>

lemma count_first_range:
  assumes "\<forall>i\<in>set is. i < nr_items src" "nr + length is < 65536"
  shows "\<exists>m k. count_first src target is moving nr = Ret (m, nr + k) \<and> k \<le> length is
           \<and> (is \<noteq> [] \<and> moving \<le> target \<longrightarrow> 0 < k)"
  using assms
proof (induction "is" arbitrary: moving nr)
  case Nil
  then show ?case by simp
next
  case (Cons i "is")
  have u: "to_u16 (int nr + 1) = Suc nr" using Cons.prems by (intro to_u16_eqI) auto
  show ?case
  proof (cases "moving \<le> target")
    case True
    let ?moving = "to_s16 (moving + int (total_item_size src (item_offs src ! i)))"
    have "\<exists>m k. count_first src target is ?moving (Suc nr) = Ret (m, Suc nr + k) \<and> k \<le> length is
           \<and> (is \<noteq> [] \<and> ?moving \<le> target \<longrightarrow> 0 < k)"
      using Cons.prems by (intro Cons.IH) auto
    then obtain m k where "count_first src target is ?moving (Suc nr) = Ret (m, Suc nr + k)"
      "k \<le> length is" by blast
    then show ?thesis
      using True Cons.prems u
      by (intro exI [of _ m] exI [of _ "Suc k"]) (simp add: item_ptr_in_range)
  next
    case False
    then show ?thesis by auto
  qed
qed

lemma split_into_empty_sibling_aborts:
  assumes "wf_block bt" "0 < nr_items bt" "nr_items sib = 0"
    and "total_free sib = 4080" "avail_free sib = 4080"
  shows "ngnfs_btree_split fuel parent bt_pos bt sib = Bug"
proof -
  note b = wf_block_bounds [OF assms(1)]
  have u: "used_size sib = 0" "used_size bt = 4080 - total_free bt"
    using assms(4) b(5) by (auto simp: used_size_def to_u16_def nat_diff_distrib)
  define target where "target = to_s16 ((int (used_size bt) - int (used_size sib)) div 2)"
  have t: "0 \<le> target" using u by (auto simp: target_def to_s16_def)
  obtain m nr where c: "count_first bt target [0..<nr_items bt] 0 0 = Ret (m, nr)"
      "nr \<le> nr_items bt" "0 < nr"
    using count_first_range [of "[0..<nr_items bt]" bt 0 target 0] t b(4) assms(2) by auto
  have d: "to_u16 (- int nr) = 65536 - nr"
  proof -
    have "(- int nr) mod 65536 = 65536 - int nr"
      using c b(4) by (subst zmod_zminus1_eq_if) (auto simp: mod_pos_pos_trivial)
    then show ?thesis using c b(4) by (simp add: to_u16_def nat_diff_distrib)
  qed
  have up: "[0..<nr] = 0 # [1..<nr]" using c(3) by (simp add: upt_conv_Cons)
  have "copy_items bt 0 (65536 - nr) [0..<nr] (avail_free_end sib) sib = Bug"
  proof -
    have z: "to_u16 (int 0 + int 0) = 0" "to_u16 (int (65536 - nr) + int 0) = 65536 - nr"
      using c(3) by (auto intro!: to_u16_eqI)
    have "set_item_off sib (65536 - nr) x = Bug" for x
      using c(2) b(4) assms(3) by (simp add: set_item_off_def BUG_ON_def)
    then show ?thesis
      unfolding up copy_items.simps z item_ptr_in_range [OF assms(2)] Let_def by simp
  qed
  moreover have "ngnfs_btree_compact fuel sib = Ret sib"
    using assms(4,5) by (simp add: ngnfs_btree_compact_def)
  ultimately have "move_items fuel sib bt True False = Bug"
    using assms(2,3) c(1) d by (simp add: move_items_def Let_def target_def [symmetric])
  then show ?thesis by (simp add: ngnfs_btree_split_def)
qed

end
