(* ===== verification/Btree_Merge.thy ===== *)
theory Btree_Merge
  imports Btree_Multi_Props
begin

text \<open>
  Merging a left sibling: \<open>move_items\<close> with \<open>src_first\<close> false appends the
  source's items in front of the destination's.  The destination must be
  compact, have room, and hold at least all but one as many items as the source,
  because \<open>set_item_off\<close> asserts against the old item count.
\<close>

lemma item_copy:
  assumes "\<And>b. b < payload src a \<Longrightarrow> dst (o' + b) = src (a + b)"
  shows "key_size dst o' = key_size src a" and "val_size dst o' = val_size src a"
    and "payload dst o' = payload src a"
    and "item_key dst o' = item_key src a" and "item_val dst o' = item_val src a"
proof -
  have p: "3 \<le> payload src a" by (simp add: payload_def)
  show k: "key_size dst o' = key_size src a"
    using assms [of 2] p by (simp add: key_size_def)
  show v: "val_size dst o' = val_size src a"
    unfolding val_size_def using p assms [of 0] assms [of 1] by (intro get_le16_cong) auto
  show "payload dst o' = payload src a" by (simp add: payload_def k v)
  show "item_key dst o' = item_key src a"
    unfolding item_key_def k
    using assms [of "3 + _"] by (intro nth_equalityI) (auto simp: key_ptr_def payload_def add.assoc)
  show "item_val dst o' = item_val src a"
    unfolding item_val_def k v val_ptr_def
    using assms [of "3 + key_size src a + _"]
    by (intro nth_equalityI) (auto simp: key_ptr_def payload_def k add.assoc)
qed

text \<open>The bytes the first \<open>j\<close> items of a block take.\<close>

definition used_upto :: "mem \<Rightarrow> nat \<Rightarrow> nat" where
  "used_upto bt j = (\<Sum>i<j. payload bt (item_offs bt ! i))"

lemma used_upto_Suc: "used_upto bt (Suc j) = used_upto bt j + payload bt (item_offs bt ! j)"
  by (simp add: used_upto_def)

lemma used_upto_mono: "i \<le> j \<Longrightarrow> used_upto bt i \<le> used_upto bt j"
  by (auto simp: used_upto_def intro: sum_mono2)

lemma sum_list_payloads:
  "sum_list (map (\<lambda>item. ITEM_OFF_SIZE + payload bt item) (item_offs bt)) =
    2 * nr_items bt + used_upto bt (nr_items bt)"
proof -
  have "sum_list (map f (item_offs bt)) = (\<Sum>i<nr_items bt. f (item_offs bt ! i))" for f :: "nat \<Rightarrow> nat"
    by (simp add: sum_list_sum_nth atLeast0LessThan)
  then show ?thesis by (simp only: used_upto_def ITEM_OFF_SIZE_def sum.distrib) simp
qed

lemma wf_block_used:
  "wf_block bt \<Longrightarrow> total_free bt + 2 * nr_items bt + used_upto bt (nr_items bt) = 4080"
  using sum_list_payloads [of bt] by (simp add: wf_block_def)

lemma item_size_payload: "wf_block bt \<Longrightarrow> i < nr_items bt \<Longrightarrow>
    item_size bt (item_offs bt ! i) = payload bt (item_offs bt ! i)"
  using wf_block_item(2) [of bt i]
  by (simp add: item_size_def key_val_size_def payload_def to_u16_def)

subsection \<open>The copying loop\<close>

lemma copy_items_run:
  assumes wf: "wf_block src" and n: "n = nr_items src" "k \<le> n" "n \<le> nr_items dst + 1"
    and off: "off + used_upto src k = fe" "fe \<le> 4096 + used_upto src k"
      "16 + 2 * n + used_upto src n \<le> fe"
  shows "\<exists>dst'. copy_items src 0 0 [k..<n] off dst = Ret dst' \<and>
    (\<forall>i. i < 16 + 2 * k \<or> 16 + 2 * n \<le> i \<and> i < fe - used_upto src n \<or> off \<le> i \<longrightarrow> dst' i = dst i) \<and>
    (\<forall>j. k \<le> j \<and> j < n \<longrightarrow>
       get_unaligned_le16 dst' (item_off_addr j) = fe - used_upto src (Suc j) \<and>
       (\<forall>b < payload src (item_offs src ! j).
          dst' (fe - used_upto src (Suc j) + b) = src (item_offs src ! j + b)))"
  using n off
proof (induction "n - k" arbitrary: k off dst)
  case 0
  then show ?case by auto
next
  case (Suc m)
  let ?item = "item_offs src ! k" and ?p = "payload src (item_offs src ! k)"
  have k: "k < n" using Suc by simp
  have up: "[k..<n] = k # [Suc k..<n]" using k by (simp add: upt_conv_Cons)
  have mono: "used_upto src (Suc k) \<le> used_upto src n" using k by (intro used_upto_mono) simp
  note us = used_upto_Suc [of src k]
  have nb: "n \<le> 2040" using wf_block_bounds(4) [OF wf] n by simp
  define off' where "off' = off - ?p"
  have off': "off' + used_upto src (Suc k) = fe" "off' + ?p = off" "off' < 65536" "16 + 2 * n \<le> off'"
    using Suc.prems mono us by (auto simp: off'_def)
  have t: "to_u16 (int 0 + int k) = k" "to_u16 (int off - int ?p) = off'"
    using nb k off' by (auto intro!: to_u16_eqI)
  define d1 where "d1 = put_unaligned_le16 off' dst (item_off_addr k)"
  have s1: "set_item_off dst k off' = Ret d1"
    using k Suc.prems(3) by (simp add: set_item_off_def d1_def BUG_ON_def)
  have i1: "item_ptr d1 k = Ret off'"
    using k Suc.prems(3) off' by (simp add: item_ptr_def get_item_off_def d1_def nr_items_def
        item_off_addr_def mem_simps BUG_ON_def)
  define d2 where "d2 = memcpy d1 off' src ?item ?p"
  have step: "copy_items src 0 0 [k..<n] off dst = copy_items src 0 0 [Suc k..<n] off' d2"
    unfolding up copy_items.simps t(1) Let_def
    using k n(1) wf by (simp add: item_ptr_in_range item_size_payload t(2) s1 i1 d2_def)
  have f2: "d2 i = dst i" if "i < 16 + 2 * k \<or> 16 + 2 * n \<le> i \<and> i < off' \<or> off \<le> i" for i
    using that off' k by (auto simp: d2_def d1_def memcpy_def item_off_addr_def mem_simps)
  have nr2: "nr_items d2 = nr_items dst"
    unfolding nr_items_def by (rule get_le16_cong) (auto intro: f2)
  have "\<exists>dst'. copy_items src 0 0 [Suc k..<n] off' d2 = Ret dst' \<and>
    (\<forall>i. i < 16 + 2 * Suc k \<or> 16 + 2 * n \<le> i \<and> i < fe - used_upto src n \<or> off' \<le> i \<longrightarrow> dst' i = d2 i) \<and>
    (\<forall>j. Suc k \<le> j \<and> j < n \<longrightarrow>
       get_unaligned_le16 dst' (item_off_addr j) = fe - used_upto src (Suc j) \<and>
       (\<forall>b < payload src (item_offs src ! j).
          dst' (fe - used_upto src (Suc j) + b) = src (item_offs src ! j + b)))"
    by (rule Suc.hyps(1)) (use Suc.hyps(2) Suc.prems k off' us nr2 in auto)
  then obtain dst' where dst': "copy_items src 0 0 [Suc k..<n] off' d2 = Ret dst'"
      "\<And>i. i < 16 + 2 * Suc k \<or> 16 + 2 * n \<le> i \<and> i < fe - used_upto src n \<or> off' \<le> i \<Longrightarrow> dst' i = d2 i"
      "\<And>j. Suc k \<le> j \<Longrightarrow> j < n \<Longrightarrow>
         get_unaligned_le16 dst' (item_off_addr j) = fe - used_upto src (Suc j) \<and>
         (\<forall>b < payload src (item_offs src ! j).
            dst' (fe - used_upto src (Suc j) + b) = src (item_offs src ! j + b))"
    by blast
  have frame: "dst' i = dst i"
    if "i < 16 + 2 * k \<or> 16 + 2 * n \<le> i \<and> i < fe - used_upto src n \<or> off \<le> i" for i
  proof -
    have "i < 16 + 2 * k \<or> 16 + 2 * n \<le> i \<and> i < off' \<or> off \<le> i"
      using that off'(1) mono by linarith
    moreover have "dst' i = d2 i" using that off'(2) by (intro dst'(2)) auto
    ultimately show ?thesis using f2 by simp
  qed
  have "get_unaligned_le16 dst' (item_off_addr k) = get_unaligned_le16 d2 (item_off_addr k)"
    by (rule get_le16_cong) (auto simp: item_off_addr_def dst'(2))
  also have "\<dots> = off'"
    using off' k by (simp add: d2_def d1_def memcpy_def item_off_addr_def mem_simps)
  finally have here: "get_unaligned_le16 dst' (item_off_addr k) = fe - used_upto src (Suc k)"
    using off' by simp
  have "dst' (off' + b) = src (?item + b)" if "b < ?p" for b
    using dst'(2) [of "off' + b"] that by (simp add: d2_def memcpy_def write_bytes_def)
  then have pay: "\<forall>b < ?p. dst' (fe - used_upto src (Suc k) + b) = src (?item + b)"
    using off' by (metis add_diff_cancel_right')
  have "get_unaligned_le16 dst' (item_off_addr j) = fe - used_upto src (Suc j) \<and>
       (\<forall>b < payload src (item_offs src ! j).
          dst' (fe - used_upto src (Suc j) + b) = src (item_offs src ! j + b))"
    if "k \<le> j" "j < n" for j
    using that dst'(3) [of j] here pay by (cases "j = k") auto
  then show ?case using step dst'(1) frame by auto
qed


subsection \<open>Counting all the items\<close>

lemma count_last_all:
  assumes "wf_block src" "\<forall>i\<in>set is. i < nr_items src" "nr + length is < 65536"
    and "moving + int (\<Sum>i\<leftarrow>is. 2 + payload src (item_offs src ! i)) < 32768" "0 \<le> moving"
  shows "count_last src is moving nr =
    Ret (moving + int (\<Sum>i\<leftarrow>is. 2 + payload src (item_offs src ! i)), nr + length is)"
  using assms
proof (induction "is" arbitrary: moving nr)
  case (Cons i "is")
  let ?t = "2 + payload src (item_offs src ! i)"
  have ts: "total_item_size src (item_offs src ! i) = ?t"
    using Cons.prems(1,2) wf_block_item(2) [of src i]
    by (simp add: total_item_size_def item_size_payload to_u16_def)
  have "to_s16 (moving + int ?t) = moving + int ?t" "to_u16 (int nr + 1) = Suc nr"
    using Cons.prems(3-5) by (auto intro!: to_s16_id to_u16_eqI)
  moreover have "count_last src is (moving + int ?t) (Suc nr) =
      Ret (moving + int ?t + int (\<Sum>i\<leftarrow>is. 2 + payload src (item_offs src ! i)), Suc nr + length is)"
    using Cons.prems by (intro Cons.IH) auto
  ultimately show ?case using Cons.prems(2) ts by (simp add: item_ptr_in_range)
qed simp

lemma moving_all:
  assumes "wf_block src" "0 < nr_items src"
  shows "(if drain_src then Ret (to_s16 (int (used_size src)), nr_items src)
          else count_last src (rev [0..<nat (to_s16 (int (nr_items src) - 1) + 1)]) 0 0)
    = Ret (int (2 * nr_items src + used_upto src (nr_items src)), nr_items src)"
proof -
  let ?n = "nr_items src" and ?u = "2 * nr_items src + used_upto src (nr_items src)"
  note b = wf_block_bounds [OF assms(1)] and u = wf_block_used [OF assms(1)]
  have us: "used_size src = ?u" using u by (auto simp: used_size_def intro!: to_u16_eqI)
  have d: "to_s16 (int (used_size src)) = int ?u" unfolding us using u by (intro to_s16_id) auto
  have "to_s16 (int ?n - 1) = int ?n - 1" using b(4) by (intro to_s16_id) auto
  then have l: "rev [0..<nat (to_s16 (int ?n - 1) + 1)] = rev [0..<?n]" by simp
  have s: "(\<Sum>i\<leftarrow>rev [0..<?n]. 2 + payload src (item_offs src ! i)) = ?u"
  proof -
    have "(\<Sum>i\<leftarrow>rev [0..<?n]. 2 + payload src (item_offs src ! i)) = (\<Sum>i<?n. 2 + payload src (item_offs src ! i))"
      by (simp add: rev_map [symmetric] sum_list_rev interv_sum_list_conv_sum_set_nat atLeast0LessThan)
    also have "\<dots> = ?u" by (simp only: used_upto_def sum.distrib) simp
    finally show ?thesis .
  qed
  have "count_last src (rev [0..<?n]) 0 0 = Ret (int ?u, ?n)"
    using count_last_all [OF assms(1), of "rev [0..<?n]" 0 0] b(4) u unfolding s by simp
  then show ?thesis using d l by simp
qed


subsection \<open>The merged block\<close>

text \<open>What the copying loop and the counter updates leave in the destination.\<close>

definition merged :: "mem \<Rightarrow> mem \<Rightarrow> mem \<Rightarrow> bool" where
  "merged src dst bt \<longleftrightarrow>
     nr_items bt = nr_items src + nr_items dst \<and>
     item_offs bt = map (\<lambda>j. free_end dst - used_upto src (Suc j)) [0..<nr_items src] @ item_offs dst \<and>
     (\<forall>i \<ge> free_end dst. bt i = dst i) \<and>
     (\<forall>j < nr_items src. \<forall>b < payload src (item_offs src ! j).
        bt (free_end dst - used_upto src (Suc j) + b) = src (item_offs src ! j + b)) \<and>
     avail_free bt = total_free bt \<and>
     total_free bt + 2 * nr_items src + used_upto src (nr_items src) = total_free dst"

lemma merged_new_item:
  assumes "merged src dst bt" "j < nr_items src"
  defines "o' \<equiv> free_end dst - used_upto src (Suc j)"
  shows "key_size bt o' = key_size src (item_offs src ! j)"
    and "payload bt o' = payload src (item_offs src ! j)"
    and "item_key bt o' = item_key src (item_offs src ! j)"
    and "item_val bt o' = item_val src (item_offs src ! j)"
proof -
  have "bt (o' + b) = src (item_offs src ! j + b)" if "b < payload src (item_offs src ! j)" for b
    using assms that by (auto simp: merged_def)
  note c = item_copy [where src = src and dst = bt and o' = o' and a = "item_offs src ! j", OF this]
  show "key_size bt o' = key_size src (item_offs src ! j)" "payload bt o' = payload src (item_offs src ! j)"
    "item_key bt o' = item_key src (item_offs src ! j)" "item_val bt o' = item_val src (item_offs src ! j)"
    using c by auto
qed

lemma merged_old_item:
  assumes "merged src dst bt" "wf_block dst" "item \<in> set (item_offs dst)"
  shows "key_size bt item = key_size dst item" and "payload bt item = payload dst item"
    and "item_key bt item = item_key dst item" and "item_val bt item = item_val dst item"
  using items_unchanged [of dst bt item] assms by (auto simp: merged_def)

lemma item_offs_map: "item_offs src = map (\<lambda>j. item_offs src ! j) [0..<nr_items src]"
  by (metis length_item_offs map_nth)

lemma merged_items:
  assumes "merged src dst bt" "wf_block dst"
  shows "items bt = items src @ items dst"
proof -
  have "items bt = map (\<lambda>item. (item_key bt item, item_val bt item))
      (map (\<lambda>j. free_end dst - used_upto src (Suc j)) [0..<nr_items src]) @
      map (\<lambda>item. (item_key bt item, item_val bt item)) (item_offs dst)"
    using assms(1) by (simp add: items_def merged_def)
  also have "\<dots> = map (\<lambda>j. (item_key src (item_offs src ! j), item_val src (item_offs src ! j))) [0..<nr_items src]
      @ items dst"
    using merged_new_item [OF assms(1)] merged_old_item [OF assms] by (simp add: items_def)
  also have "\<dots> = items src @ items dst"
    unfolding items_def [of src] by (subst (3) item_offs_map) simp
  finally show ?thesis .
qed

lemma merged_wf_block:
  assumes m: "merged src dst bt" and ws: "wf_block src" and wd: "wf_block dst"
    and c: "avail_free dst = total_free dst"
    and keys: "keys_sorted (map fst (items src @ items dst))"
  shows "wf_block bt"
proof -
  let ?ns = "nr_items src" and ?U = "used_upto src (nr_items src)"
  let ?o = "\<lambda>j. free_end dst - used_upto src (Suc j)"
  note bd = wf_block_bounds [OF wd]
  have nr: "nr_items bt = ?ns + nr_items dst"
    and offs: "item_offs bt = map ?o [0..<?ns] @ item_offs dst"
    and av: "avail_free bt = total_free bt" "total_free bt + 2 * ?ns + ?U = total_free dst"
    using m by (auto simp: merged_def)
  have fe: "free_end bt + ?U = free_end dst"
    using av bd(1) c nr by (simp add: free_end_def item_off_addr_def)
  note new = merged_new_item [OF m] and old = merged_old_item [OF m wd]
  have le: "used_upto src (Suc j) \<le> ?U" if "j < ?ns" for j
    using that by (intro used_upto_mono) simp
  have olditem: "free_end dst \<le> item \<and> item + payload dst item \<le> 4096 \<and> 0 < key_size dst item"
    if "item \<in> set (item_offs dst)" for item
    using wd that by (auto simp: wf_block_def list_all_iff)
  have newitem: "free_end bt \<le> ?o j \<and> ?o j + payload bt (?o j) \<le> free_end dst \<and> 0 < key_size bt (?o j)"
    if "j < ?ns" for j
    using le [OF that] fe new [OF that] wf_block_item(3) [OF ws that] used_upto_Suc [of src j]
    by simp
  have disj_new: "payloads_disjoint bt (?o i) (?o j)" if "i < j" "j < ?ns" for i j
  proof -
    have "?o j + payload bt (?o j) \<le> ?o i"
      using used_upto_mono [of "Suc i" j src] used_upto_Suc [of src j] le [of j] fe that new(2) [of j]
      by simp
    then show ?thesis by (simp add: payloads_disjoint_def)
  qed
  have disj_old: "sorted_wrt (payloads_disjoint bt) (item_offs dst)"
    using wd old(2) by (auto simp: wf_block_def payloads_disjoint_def elim!: sorted_wrt_mono_rel [rotated])
  have "sorted_wrt (payloads_disjoint bt) (map ?o [0..<?ns])"
    using disj_new by (auto simp: sorted_wrt_iff_nth_less)
  then have disj: "sorted_wrt (payloads_disjoint bt) (item_offs bt)"
    using newitem olditem unfolding offs
    by (fastforce simp: sorted_wrt_append disj_old payloads_disjoint_def)
  have "sum_list (map (\<lambda>item. ITEM_OFF_SIZE + payload bt item) (item_offs bt)) =
      (\<Sum>j\<leftarrow>[0..<?ns]. ITEM_OFF_SIZE + payload src (item_offs src ! j)) +
      (\<Sum>item\<leftarrow>item_offs dst. ITEM_OFF_SIZE + payload dst item)"
  proof -
    have "(\<Sum>j\<leftarrow>[0..<?ns]. ITEM_OFF_SIZE + payload bt (?o j)) =
        (\<Sum>j\<leftarrow>[0..<?ns]. ITEM_OFF_SIZE + payload src (item_offs src ! j))"
      using new(2) by (intro arg_cong [of _ _ sum_list] map_cong) auto
    moreover have "(\<Sum>item\<leftarrow>item_offs dst. ITEM_OFF_SIZE + payload bt item) =
        (\<Sum>item\<leftarrow>item_offs dst. ITEM_OFF_SIZE + payload dst item)"
      using old(2) by (intro arg_cong [of _ _ sum_list] map_cong) auto
    ultimately show ?thesis unfolding offs map_append sum_list_append map_map comp_def by simp
  qed
  also have "(\<Sum>j\<leftarrow>[0..<?ns]. ITEM_OFF_SIZE + payload src (item_offs src ! j)) = 2 * ?ns + ?U"
    using sum_list_payloads [of src] by (subst (asm) item_offs_map) (simp add: comp_def)
  finally have sum: "total_free bt + sum_list (map (\<lambda>item. ITEM_OFF_SIZE + payload bt item) (item_offs bt)) = 4080"
    using av wd by (simp add: wf_block_def)
  have "list_all (\<lambda>item. free_end bt \<le> item \<and> item + payload bt item \<le> 4096 \<and> 0 < key_size bt item) (item_offs bt)"
    unfolding offs using newitem olditem old fe bd(2)
    by (fastforce simp: list_all_iff)
  moreover have "keys_sorted (map (item_key bt) (item_offs bt))"
    using keys merged_items [OF m wd] by (simp add: map_fst_items [symmetric])
  ultimately show ?thesis
    using disj sum av fe bd(2) by (simp add: wf_block_def)
qed

subsection \<open>move_items from the left sibling\<close>

text \<open>The counters stored after the copy do not touch the items.\<close>

lemma merged_counters:
  assumes "d2' = put_unaligned_le16 tf (put_unaligned_le16 tf (put_unaligned_le16 (nr_items src + nr_items dst) d2 8) 10) 12"
    and "nr_items src + nr_items dst < 65536" "tf < 65536"
    and "tf + 2 * nr_items src + used_upto src (nr_items src) = total_free dst"
    and fe: "16 + 2 * (nr_items src + nr_items dst) + used_upto src (nr_items src) \<le> free_end dst"
    and new: "\<And>j. j < nr_items src \<Longrightarrow> get_unaligned_le16 d2 (item_off_addr j) = free_end dst - used_upto src (Suc j)"
    and old: "\<And>j. j < nr_items dst \<Longrightarrow>
        get_unaligned_le16 d2 (item_off_addr (nr_items src + j)) = get_unaligned_le16 dst (item_off_addr j)"
    and copied: "\<And>j b. j < nr_items src \<Longrightarrow> b < payload src (item_offs src ! j) \<Longrightarrow>
        d2 (free_end dst - used_upto src (Suc j) + b) = src (item_offs src ! j + b)"
    and kept: "\<And>i. free_end dst \<le> i \<Longrightarrow> d2 i = dst i"
  shows "merged src dst d2'"
proof -
  let ?ns = "nr_items src" and ?nd = "nr_items dst"
  have out: "d2' i = d2 i" if "16 \<le> i" for i using that by (simp add: assms(1) mem_simps)
  have offs: "get_unaligned_le16 d2' (item_off_addr j) = get_unaligned_le16 d2 (item_off_addr j)" for j
    by (rule get_le16_cong) (auto simp: item_off_addr_def intro: out)
  have nr: "nr_items d2' = ?ns + ?nd" using assms(1-3) by (simp add: nr_items_def mem_simps)
  have "item_offs d2' = map (\<lambda>j. free_end dst - used_upto src (Suc j)) [0..<?ns] @ item_offs dst"
  proof (rule nth_equalityI)
    fix i assume "i < length (item_offs d2')"
    then have i: "i < ?ns + ?nd" by (simp add: nr)
    show "item_offs d2' ! i = (map (\<lambda>j. free_end dst - used_upto src (Suc j)) [0..<?ns] @ item_offs dst) ! i"
      using i old [of "i - ?ns"] by (auto simp: nth_append nth_item_offs nr offs new)
  qed (simp add: nr)
  moreover have "d2' (free_end dst - used_upto src (Suc j) + b) = src (item_offs src ! j + b)"
    if "j < ?ns" "b < payload src (item_offs src ! j)" for j b
  proof -
    have "used_upto src (Suc j) \<le> used_upto src ?ns" using that by (intro used_upto_mono) simp
    then have "16 \<le> free_end dst - used_upto src (Suc j) + b" using fe by simp
    then show ?thesis using copied [OF that] out by simp
  qed
  moreover have "avail_free d2' = tf" "total_free d2' = tf"
    using assms(1-3) by (simp_all add: avail_free_def total_free_def mem_simps)
  ultimately show ?thesis
    using nr assms(4) fe out kept by (auto simp: merged_def)
qed

lemma merge_left_run:
  assumes ws: "wf_block src" and wd: "wf_block dst" and c: "avail_free dst = total_free dst"
    and ns: "0 < nr_items src" "nr_items src \<le> nr_items dst + 1"
    and room: "2 * nr_items src + used_upto src (nr_items src) \<le> total_free dst"
  obtains dst' src' where "move_items fuel dst src False drain_src = Ret (dst', src')"
    and "merged src dst dst'" and "nr_items src' = 0" and "total_free src' = 4080"
    and "\<And>i. i < 8 \<or> i = 14 \<or> i = 15 \<Longrightarrow> dst' i = dst i"
proof -
  let ?ns = "nr_items src" and ?nd = "nr_items dst" and ?U = "used_upto src (nr_items src)"
  note bs = wf_block_bounds [OF ws] and bd = wf_block_bounds [OF wd] and us = wf_block_used [OF ws]
  have fe: "16 + 2 * (?ns + ?nd) + ?U \<le> free_end dst" using bd(1) c room by simp
  define d1 where "d1 = memmove dst (16 + 2 * ?ns) 16 (2 * ?nd)"
  have tail: "memmove_tail_offs dst 0 (to_s16 (int ?ns)) = d1"
    using bs(4) bd(4) ns(1)
    by (auto simp: memmove_tail_offs_eq to_s16_id d1_def item_off_addr_def)
  have d1: "d1 i = dst i" if "i < 16 + 2 * ?ns \<or> 16 + 2 * (?ns + ?nd) \<le> i" for i
    using that by (auto simp: d1_def mem_simps)
  have nr1: "nr_items d1 = ?nd" "avail_free_end d1 = free_end dst"
  proof -
    show "nr_items d1 = ?nd" unfolding nr_items_def by (rule get_le16_cong) (auto intro: d1)
    moreover have "avail_free d1 = avail_free dst" unfolding avail_free_def by (rule get_le16_cong) (auto intro: d1)
    ultimately show "avail_free_end d1 = free_end dst"
      using bd(6) by (simp add: avail_free_end_def)
  qed
  have "\<exists>d2. copy_items src 0 0 [0..<?ns] (free_end dst) d1 = Ret d2 \<and>
    (\<forall>i. i < 16 + 2 * 0 \<or> 16 + 2 * ?ns \<le> i \<and> i < free_end dst - ?U \<or> free_end dst \<le> i \<longrightarrow> d2 i = d1 i) \<and>
    (\<forall>j. 0 \<le> j \<and> j < ?ns \<longrightarrow>
       get_unaligned_le16 d2 (item_off_addr j) = free_end dst - used_upto src (Suc j) \<and>
       (\<forall>b < payload src (item_offs src ! j).
          d2 (free_end dst - used_upto src (Suc j) + b) = src (item_offs src ! j + b)))"
    using fe bd(2) ns nr1 by (intro copy_items_run [OF ws refl]) (auto simp: used_upto_def)
  then obtain d2 where d2: "copy_items src 0 0 [0..<?ns] (free_end dst) d1 = Ret d2"
      "\<And>i. i < 16 \<or> 16 + 2 * ?ns \<le> i \<and> i < free_end dst - ?U \<or> free_end dst \<le> i \<Longrightarrow> d2 i = d1 i"
      "\<And>j. j < ?ns \<Longrightarrow> get_unaligned_le16 d2 (item_off_addr j) = free_end dst - used_upto src (Suc j)"
      "\<And>j b. j < ?ns \<Longrightarrow> b < payload src (item_offs src ! j) \<Longrightarrow>
          d2 (free_end dst - used_upto src (Suc j) + b) = src (item_offs src ! j + b)"
    by auto
  have nr2: "get_unaligned_le16 d2 8 = ?nd" "get_unaligned_le16 d2 10 = total_free dst"
    using d2(2) d1 unfolding nr_items_def total_free_def by (auto intro!: get_le16_cong)
  define tf where "tf = total_free dst - (2 * ?ns + ?U)"
  define d3 where "d3 = put_unaligned_le16 tf (put_unaligned_le16 tf (put_unaligned_le16 (?ns + ?nd) d2 8) 10) 12"
  define s3 where "s3 = put_unaligned_le16 4080 (put_unaligned_le16 0 src 8) 10"
  have small: "?ns + ?nd < 65536" "tf < 65536" using bs(4) bd(4,5) by (auto simp: tf_def)
  have counters: "le16_add_cpu d2 8 (int ?ns) = put_unaligned_le16 (?ns + ?nd) d2 8"
    "le16_add_cpu (put_unaligned_le16 (?ns + ?nd) d2 8) 10 (- int (2 * ?ns + ?U)) =
       put_unaligned_le16 tf (put_unaligned_le16 (?ns + ?nd) d2 8) 10"
    "le16_add_cpu src 8 (- int ?ns) = put_unaligned_le16 0 src 8"
    "le16_add_cpu (put_unaligned_le16 0 src 8) 10 (int (2 * ?ns + ?U)) = s3"
    using small room nr2 us
    by (auto intro!: le16_add_cpu_eq simp: mem_simps tf_def s3_def nr_items_def total_free_def)
  have "total_free (put_unaligned_le16 tf (put_unaligned_le16 (?ns + ?nd) d2 8) 10) = tf"
    using small by (simp add: total_free_def mem_simps)
  moreover have "to_u16 (int ?ns - int ?ns) = 0" by (simp add: to_u16_def)
  moreover have "ngnfs_btree_compact fuel dst = Ret dst" using c by (simp add: ngnfs_btree_compact_def)
  ultimately have run: "move_items fuel dst src False drain_src = Ret (d3, s3)"
    using ns(1)
    unfolding move_items_def Let_def if_False moving_all [OF ws ns(1)] bind_run.simps prod.case
    by (simp only: counters d3_def tail nr1 d2(1) bind_run.simps not_False_eq_True if_True BUG_ON_False)
      (simp add: d3_def)
  have "get_unaligned_le16 d2 (item_off_addr (?ns + j)) = get_unaligned_le16 dst (item_off_addr j)"
    if "j < ?nd" for j
  proof -
    have "get_unaligned_le16 d2 (item_off_addr (?ns + j)) = get_unaligned_le16 d1 (item_off_addr (?ns + j))"
      using that fe by (intro get_le16_cong d2(2)) (auto simp: item_off_addr_def)
    then show ?thesis using that by (simp add: d1_def item_off_addr_def mem_simps)
  qed
  then have "merged src dst d3"
    using d2 d1 fe small room
    by (intro merged_counters [OF d3_def]) (auto simp: tf_def)
  moreover have "nr_items s3 = 0" "total_free s3 = 4080"
    by (simp_all add: s3_def nr_items_def total_free_def mem_simps)
  moreover have "d3 i = dst i" if "i < 8 \<or> i = 14 \<or> i = 15" for i
    using that d2(2) d1 by (auto simp: d3_def mem_simps)
  ultimately show ?thesis using run that by blast
qed

lemma merge_left_correct:
  assumes "wf_block src" "wf_block dst" "avail_free dst = total_free dst"
    and "0 < nr_items src" "nr_items src \<le> nr_items dst + 1"
    and "used_size src \<le> total_free dst"
    and "\<And>k k'. k \<in> fst ` set (items src) \<Longrightarrow> k' \<in> fst ` set (items dst) \<Longrightarrow> key_less k k'"
  obtains dst' src' where "move_items fuel dst src False drain_src = Ret (dst', src')"
    and "wf_block dst'" and "items dst' = items src @ items dst"
    and "nr_items src' = 0" and "total_free src' = 4080"
proof -
  have "used_size src = 2 * nr_items src + used_upto src (nr_items src)"
    using wf_block_used [OF assms(1)] by (auto simp: used_size_def intro!: to_u16_eqI)
  then obtain dst' src' where r: "move_items fuel dst src False drain_src = Ret (dst', src')"
      "merged src dst dst'" "nr_items src' = 0" "total_free src' = 4080"
    using assms(1-6) merge_left_run [of src dst fuel drain_src] by metis
  moreover have "keys_sorted (map fst (items src @ items dst))"
    using assms(7) wf_block_sorted [OF assms(1)] wf_block_sorted [OF assms(2)]
    by (auto simp: sorted_wrt_append)
  ultimately show ?thesis
    using that [OF r(1)] merged_wf_block [OF r(2) assms(1-3)] merged_items [OF r(2) assms(2)] by auto
qed

end
