(* ===== verification/Btree_Props.thy ===== *)
theory Btree_Props
  imports Btree_Merge
begin

text \<open>
  The properties of \<open>shared/btree.c\<close> that users of a btree block rely on,
  stated over the operations themselves, with an application of each to a
  concrete block.
\<close>

subsection \<open>Blocks to apply the properties to\<close>

lemma ex_loaded_block:
  assumes "distinct (map fst kvs)" "list_all (\<lambda>(k, v). valid_kv k v) kvs"
    and "sum_list (map (\<lambda>(k, v). kv_cost k v) kvs) \<le> 4080"
  shows "\<exists>bt. insert_all ngnfs_btree_insert (ngnfs_btree_init_block m level) kvs = Ret (0, bt)
    \<and> wf_block bt \<and> block_map bt = map_of kvs"
  using bt.insert_all_ok [OF bt.init(1) assms(1,2)] assms(3) bt.init(2,3) by simp

lemma ex_single_item_block:
  "\<exists>bt. wf_block bt \<and> items bt = [([k], [v])] \<and> avail_free bt = 4073 \<and> total_free bt = 4073"
proof -
  let ?b = "ngnfs_btree_init_block (\<lambda>_. 0) 0"
  note i = init_block_correct [of "\<lambda>_. 0" 0]
  have "search_result (map fst (items ?b)) [k] 0 1" using i by (simp add: search_result_def)
  then obtain bt where bt: "wf_block bt" "items bt = [([k], [v])]" "avail_free bt = 4073"
    using i by (elim insert_item_correct [where key = "[k]" and val = "[v]", OF i(1)]) auto
  have n: "nr_items bt = 1" using bt(2) length_items [of bt] by simp
  then have "item_key bt (item_offs bt ! 0) = [k]" "item_val bt (item_offs bt ! 0) = [v]"
    using nth_items [of 0 bt] bt(2) by auto
  then have "payload bt (item_offs bt ! 0) = 5"
    using length_item_key [of bt "item_offs bt ! 0"] length_item_val [of bt "item_offs bt ! 0"]
    by (simp add: payload_def)
  then have "total_free bt = 4073"
    using wf_block_used [OF bt(1)] n by (simp add: used_upto_def)
  with bt show ?thesis by blast
qed

subsection \<open>The operations on one block\<close>

text \<open>C1: a lookup in a well-formed block returns what the block's map holds for
  the key: the value's length cut to the buffer and that many bytes, or ENOENT.\<close>

theorem btree_lookup_reads_map:
  assumes "wf_block bt" "length key \<le> 32767"
  shows "ngnfs_btree_lookup bt key n =
    (case block_map bt key of None \<Rightarrow> Ret (- ENOENT, [])
     | Some v \<Rightarrow> Ret (int (min n (length v)), take n v))"
  using assms by (rule lookup_correct)

theorem btree_lookup_reads_map_witness:
  "\<exists>bt. wf_block bt \<and> ngnfs_btree_lookup bt [1] 8 = Ret (1, [7])
     \<and> ngnfs_btree_lookup bt [2] 8 = Ret (- ENOENT, [])"
proof -
  obtain bt where "wf_block bt" "items bt = [([1], [7])]"
    using ex_single_item_block [of 1 7] by blast
  then show ?thesis
    using btree_lookup_reads_map [of bt "[1]" 8] btree_lookup_reads_map [of bt "[2]" 8]
    by (auto simp: block_map_def)
qed

text \<open>C2: an insert of a new key that fits succeeds, keeps the block well formed,
  adds exactly that binding, and changes neither the block number, the level nor a
  payload byte that was in use.\<close>

theorem btree_insert_adds_binding:
  assumes "wf_block bt" "valid_kv key val" "block_map bt key = None"
    and "kv_cost key val \<le> avail_free bt"
  shows "\<exists>bt'. ngnfs_btree_insert bt key val = Ret (0, bt') \<and> wf_block bt'
    \<and> block_map bt' = (block_map bt)(key \<mapsto> val)
    \<and> avail_free bt' = avail_free bt - kv_cost key val
    \<and> (\<forall>i. i < 8 \<or> i = 14 \<or> i = 15 \<or> free_end bt \<le> i \<longrightarrow> bt' i = bt i)"
  using insert_correct [OF assms] by metis

theorem btree_insert_adds_binding_witness:
  "\<exists>bt'. ngnfs_btree_insert (ngnfs_btree_init_block (\<lambda>_. 0) 0) [1] [7] = Ret (0, bt')
    \<and> wf_block bt' \<and> block_map bt' = [[1] \<mapsto> [7]]"
  using btree_insert_adds_binding [of "ngnfs_btree_init_block (\<lambda>_. 0) 0" "[1]" "[7]"]
    init_block_correct [of "\<lambda>_. 0" 0]
  by (auto simp: valid_kv_def kv_cost_def block_map_def)

text \<open>C3: the other outcomes of an insert: EINVAL for an empty or oversized key or an
  oversized value and EEXIST for a present key, both leaving the block as it was,
  and an assertion failure when a new item does not fit.\<close>

theorem btree_insert_refusals:
  assumes "wf_block bt"
  shows "(\<not> valid_kv key val \<longrightarrow> ngnfs_btree_insert bt key val = Ret (- EINVAL, bt)) \<and>
    (valid_kv key val \<and> key \<in> dom (block_map bt) \<longrightarrow>
       ngnfs_btree_insert bt key val = Ret (- EEXIST, bt)) \<and>
    (valid_kv key val \<and> key \<notin> dom (block_map bt) \<and> avail_free bt < kv_cost key val \<longrightarrow>
       ngnfs_btree_insert bt key val = Bug)"
proof (intro conjI impI)
  assume "\<not> valid_kv key val"
  then show "ngnfs_btree_insert bt key val = Ret (- EINVAL, bt)"
    by (auto simp: ngnfs_btree_insert_def valid_kv_def)
next
  assume "valid_kv key val \<and> key \<in> dom (block_map bt)"
  then show "ngnfs_btree_insert bt key val = Ret (- EEXIST, bt)"
    using insert_exists [OF assms, of key val] by blast
next
  assume "valid_kv key val \<and> key \<notin> dom (block_map bt) \<and> avail_free bt < kv_cost key val"
  then show "ngnfs_btree_insert bt key val = Bug"
    using insert_full [OF assms, of key val] by auto
qed

theorem btree_insert_refusals_witness:
  "\<exists>bt. wf_block bt \<and> ngnfs_btree_insert bt [] [7] = Ret (- EINVAL, bt)
     \<and> ngnfs_btree_insert bt [1] [8] = Ret (- EEXIST, bt)"
proof -
  obtain bt where "wf_block bt" "items bt = [([1], [7])]"
    using ex_single_item_block [of 1 7] by blast
  then show ?thesis
    using btree_insert_refusals [of bt "[]" "[7]"] btree_insert_refusals [of bt "[1]" "[8]"]
    by (auto simp: block_map_def valid_kv_def)
qed

text \<open>C4: a delete of a present key succeeds, removes exactly that binding, keeps the
  block well formed, returns at least the offset's two bytes to the free region and
  touches no payload; a delete of a missing key returns ENOENT and changes nothing.\<close>

theorem btree_delete_removes_binding:
  assumes "wf_block bt" "length key \<le> 32767"
  shows "if key \<in> dom (block_map bt)
    then \<exists>bt'. ngnfs_btree_delete bt key = Ret (0, bt') \<and> wf_block bt'
      \<and> block_map bt' = (block_map bt)(key := None) \<and> avail_free bt + 2 \<le> avail_free bt'
      \<and> (\<forall>i. i < 8 \<or> i = 14 \<or> i = 15 \<or> 16 + 2 * nr_items bt \<le> i \<longrightarrow> bt' i = bt i)
    else ngnfs_btree_delete bt key = Ret (- ENOENT, bt)"
proof (cases "block_map bt key")
  case None
  then show ?thesis using delete_missing [OF assms] by auto
next
  case (Some v)
  then show ?thesis using delete_correct [OF assms Some] by (auto, metis)
qed

theorem btree_delete_removes_binding_witness:
  "\<exists>bt bt'. wf_block bt \<and> block_map bt = [[1] \<mapsto> [7]]
     \<and> ngnfs_btree_delete bt [1] = Ret (0, bt') \<and> block_map bt' = Map.empty
     \<and> ngnfs_btree_delete bt [2] = Ret (- ENOENT, bt)"
proof -
  obtain bt where "wf_block bt" "items bt = [([1], [7])]"
    using ex_single_item_block [of 1 7] by blast
  then show ?thesis
    using btree_delete_removes_binding [of bt "[1]"] btree_delete_removes_binding [of bt "[2]"]
    by (auto simp: block_map_def)
qed

text \<open>C5: every sequence of lookups, inserts and deletes on a fresh block returns the results that a
  map from keys to values gives for it, and leaves a well-formed block that holds that map; the
  one other outcome is a failed assertion, and only when the items of the sequence's inserts
  together take more than the free space of a fresh block.\<close>

theorem btree_ops_refine_map:
  assumes "list_all op_key_ok ops"
  shows "(\<exists>bt. run_ops ngnfs_btree_lookup ngnfs_btree_insert ngnfs_btree_delete ops (ngnfs_btree_init_block m level) =
        Ret (fst (spec_ops ops Map.empty), bt) \<and> wf_block bt \<and> block_map bt = snd (spec_ops ops Map.empty)) \<or>
    run_ops ngnfs_btree_lookup ngnfs_btree_insert ngnfs_btree_delete ops (ngnfs_btree_init_block m level) = Bug \<and>
      NGNFS_BTREE_MAX_FREE < sum_list (map op_cost ops)"
  using bt.run_ops_refines [OF bt.init(1) assms] unfolding bt.init(2,3) .

theorem btree_ops_refine_map_witness:
  "\<exists>bt. run_ops ngnfs_btree_lookup ngnfs_btree_insert ngnfs_btree_delete
      [Kv_insert [1] [7], Kv_insert [1] [8], Kv_lookup [1] 9, Kv_delete [1], Kv_lookup [1] 9]
      (ngnfs_btree_init_block (\<lambda>_. 0) 0) =
    Ret ([(0, []), (- EEXIST, []), (1, [7]), (0, []), (- ENOENT, [])], bt) \<and> wf_block bt"
  using btree_ops_refine_map [of "[Kv_insert [1] [7], Kv_insert [1] [8], Kv_lookup [1] 9, Kv_delete [1], Kv_lookup [1] 9]"
      "\<lambda>_. 0" 0]
  by (auto simp: valid_kv_def kv_cost_def dom_def)

text \<open>Loading distinct keys whose items fit in the 4080 bytes of a fresh block
  succeeds, and afterwards a lookup returns every loaded value and ENOENT for every
  other key.\<close>

theorem btree_bulk_load:
  assumes "distinct (map fst kvs)" "list_all (\<lambda>(k, v). valid_kv k v) kvs"
    and "sum_list (map (\<lambda>(k, v). kv_cost k v) kvs) \<le> NGNFS_BTREE_MAX_FREE"
  shows "\<exists>bt. insert_all ngnfs_btree_insert (ngnfs_btree_init_block m level) kvs = Ret (0, bt) \<and>
    wf_block bt \<and>
    (\<forall>k. length k \<le> 255 \<longrightarrow> ngnfs_btree_lookup bt k 512 =
      (case map_of kvs k of None \<Rightarrow> Ret (- ENOENT, []) | Some v \<Rightarrow> Ret (int (length v), v)))"
proof -
  obtain bt where bt: "insert_all ngnfs_btree_insert (ngnfs_btree_init_block m level) kvs = Ret (0, bt)"
      "wf_block bt" "block_map bt = map_of kvs"
    using ex_loaded_block [OF assms(1,2)] assms(3) by (auto simp: NGNFS_BTREE_MAX_FREE_def)
  have "length v \<le> 512" if "map_of kvs k = Some v" for k v
    using map_of_SomeD [OF that] assms(2) by (auto simp: list_all_iff valid_kv_def)
  then have "ngnfs_btree_lookup bt k 512 =
      (case map_of kvs k of None \<Rightarrow> Ret (- ENOENT, []) | Some v \<Rightarrow> Ret (int (length v), v))"
    if "length k \<le> 255" for k
    using that lookup_correct [OF bt(2), of k 512] bt(3)
    by (cases "map_of kvs k") (auto simp: min_absorb2)
  with bt show ?thesis by blast
qed

theorem btree_bulk_load_witness:
  "\<exists>bt. insert_all ngnfs_btree_insert (ngnfs_btree_init_block (\<lambda>_. 0) 0)
      [([3], [30]), ([1], [10]), ([2, 2], [])] = Ret (0, bt) \<and> wf_block bt
    \<and> ngnfs_btree_lookup bt [1] 512 = Ret (1, [10])"
proof -
  obtain bt where "insert_all ngnfs_btree_insert (ngnfs_btree_init_block (\<lambda>_. 0) 0)
      [([3], [30]), ([1], [10]), ([2, 2], [])] = Ret (0, bt)" "wf_block bt"
    "\<forall>k. length k \<le> 255 \<longrightarrow> ngnfs_btree_lookup bt k 512 =
      (case map_of [([3], [30]), ([1], [10]), ([2, 2], [])] k of None \<Rightarrow> Ret (- ENOENT, [])
       | Some v \<Rightarrow> Ret (int (length v), v))"
    using btree_bulk_load [of "[([3], [30]), ([1], [10]), ([2, 2], [])]" "\<lambda>_. 0" 0]
    by (auto simp: valid_kv_def kv_cost_def)
  then show ?thesis by (intro exI [of _ bt]) auto
qed

subsection \<open>Searching and ordering\<close>

text \<open>C6: the binary search of a well-formed block ends within its iterations, without
  an assertion failure, and returns the position of the key, or with \<open>cmp\<close> not
  0 the position at which inserting it keeps the keys in order.\<close>

theorem btree_search_terminates_and_finds:
  assumes "wf_block bt" "length key \<le> 32767"
  shows "\<exists>pos cmp. btree_search bt key = Ret (pos, cmp) \<and>
    (if cmp = 0 then pos < nr_items bt \<and> fst (items bt ! pos) = key
     else pos \<le> nr_items bt \<and> (\<forall>i<pos. key_less (fst (items bt ! i)) key) \<and>
       (\<forall>i. pos \<le> i \<and> i < nr_items bt \<longrightarrow> key_less key (fst (items bt ! i))))"
proof -
  obtain pos cmp where s: "btree_search bt key = Ret (pos, cmp)"
      "search_result (map fst (items bt)) key pos cmp"
    using btree_search_correct [OF assms] .
  then show ?thesis by (intro exI [of _ pos] exI [of _ cmp]) (auto simp: search_result_def)
qed

theorem btree_search_terminates_and_finds_witness:
  "\<exists>bt pos cmp. items bt = [([1], [7])] \<and> btree_search bt [1] = Ret (pos, cmp) \<and> (cmp = 0 \<longrightarrow> pos = 0)"
proof -
  obtain bt where bt: "wf_block bt" "items bt = [([1], [7])]"
    using ex_single_item_block [of 1 7] by blast
  then have "nr_items bt = 1" using length_items [of bt] by simp
  then show ?thesis
    using bt btree_search_terminates_and_finds [of bt "[1]"] by (auto split: if_splits)
qed

text \<open>C7: \<open>cmp_keys\<close> is a strict total order on keys, in which a key sorts before
  each of its proper prefixes.\<close>

theorem cmp_keys_strict_order:
  "(cmp_keys a b = 0 \<longleftrightarrow> a = b) \<and> cmp_keys b a = - cmp_keys a b \<and>
   \<not> (cmp_keys a b < 0 \<and> cmp_keys b c < 0 \<and> \<not> cmp_keys a c < 0) \<and> cmp_keys (a @ x # xs) a < 0"
  using cmp_keys_eq_0_iff [of a b] cmp_keys_antisym [of b a] cmp_keys_trans [of a b c]
    key_less_prefix [of a x xs]
  unfolding key_less_def by blast

subsection \<open>Operations on several blocks\<close>



text \<open>C9: compaction returns only for a block that is compact already; every other
  call loops for ever or fails an assertion, whatever the number of iterations.\<close>

theorem btree_compact_completes_iff:
  "ngnfs_btree_compact fuel bt = Ret bt' \<longleftrightarrow> avail_free bt = total_free bt \<and> bt' = bt"
  by (rule compact_cases)

text \<open>the verification of a block read from disk rejects, or fails an assertion
  on, every block with two or more items.\<close>

theorem btree_verify_rejects_two_items:
  assumes "2 \<le> nr_items bt"
  shows "ngnfs_btree_verify bt \<noteq> Ret (True, bt')"
  using assms by (rule verify_rejects_two_items)

theorem btree_verify_rejects_two_items_witness:
  "nr_items (put_unaligned_le16 2 (\<lambda>_. 0) 8) = 2 \<and>
   ngnfs_btree_verify (put_unaligned_le16 2 (\<lambda>_. 0) 8) \<noteq> Ret (True, \<lambda>_. 0)"
  using btree_verify_rejects_two_items [of "put_unaligned_le16 2 (\<lambda>_. 0) 8" "\<lambda>_. 0"]
  by (simp add: nr_items_def mem_simps)

text \<open>C10: splitting a block into a freshly initialised sibling always fails the
  assertion on the sibling's offset array.\<close>

theorem btree_split_into_fresh_sibling_aborts:
  assumes "wf_block bt" "0 < nr_items bt"
  shows "ngnfs_btree_split fuel parent bt_pos bt (ngnfs_btree_init_block m level) = Bug"
proof (rule split_into_empty_sibling_aborts [OF assms])
  note i = init_block_correct [of m level]
  show "nr_items (ngnfs_btree_init_block m level) = 0" using i(2) length_items by (metis list.size(3))
  then show "total_free (ngnfs_btree_init_block m level) = 4080"
    using wf_block_used [OF i(1)] by (simp add: used_upto_def)
  show "avail_free (ngnfs_btree_init_block m level) = 4080" by (rule i)
qed

theorem btree_split_into_fresh_sibling_aborts_witness:
  "\<exists>bt. items bt = [([1], [7])] \<and>
     ngnfs_btree_split 0 bt 0 bt (ngnfs_btree_init_block (\<lambda>_. 0) 0) = Bug"
proof -
  obtain bt where bt: "wf_block bt" "items bt = [([1], [7])]"
    using ex_single_item_block [of 1 7] by blast
  then show ?thesis
    using btree_split_into_fresh_sibling_aborts [of bt] length_items [of bt] by auto
qed

end
