(* ===== verification/Block_Cache.thy ===== *)
theory Block_Cache
  imports Lk_Mem
begin

text \<open>
  The block cache of \<open>shared/block.c\<close>.  Block and set pointers are numbers;
  \<open>blocks\<close> and \<open>sets\<close> are the memory behind them, \<open>freed\<close> marks what
  \<open>call_rcu\<close> and \<open>kfree_rcu\<close> were given.  The lists threaded through
  \<open>set_head\<close>, \<open>submit_head\<close> and \<open>writeback_head\<close>, and the lockless
  lists, are HOL lists, a lockless list with its newest entry first.  Every
  function runs up to its next \<open>wait_event\<close>: a function with a wait returns
  what it waits for, and what it does after waking up is a definition of its own.
  Between two waits a function runs without interference, so the
  compare-and-exchange loops succeed in their first round.
\<close>

unbundle bit_operations_syntax

type_synonym bid = nat
type_synonym sid = nat

definition DIRTY_LIMIT :: int where [simp]: "DIRTY_LIMIT = 1024"
definition WRITEBACK_THRESH :: int where [simp]: "WRITEBACK_THRESH = 256"
definition SET_LIMIT :: nat where [simp]: "SET_LIMIT = 64"

text \<open>The \<open>BL_\<close> and \<open>SET_\<close> bits are one boolean field each.\<close>

record block =
  bl_set :: "sid option"
  bl_refcount :: int
  BL_READING :: bool
  BL_UPTODATE :: bool
  BL_ERROR :: bool
  BL_DIRTY :: bool
  bl_error :: int
  bl_page :: mem
  bl_bnr :: u64
  bl_freed :: bool

record block_set =
  set_refcount :: int
  submitted_blocks :: int
  block_list :: "bid list"
  set_dirty_seq :: nat
  SET_DIRTYING :: bool
  SET_DIRTY :: bool
  SET_WRITEBACK :: bool
  set_size :: nat
  set_freed :: bool

datatype btx_op = NGNFS_BTX_OP_GET_READ | NGNFS_BTX_OP_GET_WRITE | NGNFS_BTX_OP_WRITE

text \<open>
  \<open>in_transport\<close> are the requests given to \<open>submit_block\<close> for which
  \<open>ngnfs_block_end_io\<close> has not been called yet; \<open>submit_queued\<close> and
  \<open>writeback_queued\<close> say that the work is queued on \<open>wq\<close>.
\<close>

record block_info =
  ht :: "(u64 \<times> bid) list"
  queue_depth :: int
  nr_dirty :: int
  nr_writeback :: int
  nr_submitted :: int
  sync_waiters :: int
  dirty_seq :: nat
  writeback_seq :: nat
  sync_seq :: nat
  submit_llist :: "bid list"
  submit_list :: "bid list"
  writeback_llist :: "sid list"
  writeback_list :: "sid list"
  submit_queued :: bool
  writeback_queued :: bool
  in_transport :: "(btx_op \<times> u64 \<times> mem) list"
  blocks :: "bid \<Rightarrow> block"
  next_block :: bid
  sets :: "sid \<Rightarrow> block_set"
  next_set :: sid

definition upd_block :: "block_info \<Rightarrow> bid \<Rightarrow> (block \<Rightarrow> block) \<Rightarrow> block_info" where
  "upd_block st b f = st\<lparr>blocks := (blocks st)(b := f (blocks st b))\<rparr>"

definition upd_set :: "block_info \<Rightarrow> sid \<Rightarrow> (block_set \<Rightarrow> block_set) \<Rightarrow> block_info" where
  "upd_set st s f = st\<lparr>sets := (sets st)(s := f (sets st s))\<rparr>"

subsection \<open>References\<close>

text \<open>A freed block must not be in a set; \<open>set_head\<close> is linked exactly while \<open>set\<close> is not NULL.\<close>

definition free_block :: "block_info \<Rightarrow> bid \<Rightarrow> block_info run" where
  "free_block st b = BUG_ON (bl_set (blocks st b) \<noteq> None) (Ret (upd_block st b (\<lambda>bl. bl\<lparr>bl_freed := True\<rparr>)))"

text \<open>The bytes of a new page are not read before the first read IO or \<open>memset\<close>; here they are 0.\<close>

definition new_block :: "u64 \<Rightarrow> block" where
  "new_block bnr = \<lparr>bl_set = None, bl_refcount = 1, BL_READING = False, BL_UPTODATE = False,
     BL_ERROR = False, BL_DIRTY = False, bl_error = 0, bl_page = (\<lambda>_. 0), bl_bnr = bnr, bl_freed = False\<rparr>"

text \<open>\<open>alloc_ok\<close> says whether the allocations of the call succeed.\<close>

definition alloc_block :: "bool \<Rightarrow> block_info \<Rightarrow> u64 \<Rightarrow> (int + bid) \<times> block_info" where
  "alloc_block alloc_ok st bnr =
     (if alloc_ok
      then (Inr (next_block st), st\<lparr>blocks := (blocks st)(next_block st := new_block bnr),
                                    next_block := Suc (next_block st)\<rparr>)
      else (Inl (- ENOMEM), st))"

definition get_block :: "block_info \<Rightarrow> bid \<Rightarrow> block_info" where
  "get_block st b = upd_block st b (\<lambda>bl. bl\<lparr>bl_refcount := bl_refcount bl + 1\<rparr>)"

definition put_block :: "block_info \<Rightarrow> bid \<Rightarrow> block_info run" where
  "put_block st b =
     (let st = upd_block st b (\<lambda>bl. bl\<lparr>bl_refcount := bl_refcount bl - 1\<rparr>)
      in if bl_refcount (blocks st b) = 0 then free_block st b else Ret st)"

definition get_set :: "block_info \<Rightarrow> sid \<Rightarrow> block_info" where
  "get_set st s = upd_set st s (\<lambda>x. x\<lparr>set_refcount := set_refcount x + 1\<rparr>)"

text \<open>\<open>put_set\<close> ignores NULL.\<close>

definition put_set :: "block_info \<Rightarrow> sid option \<Rightarrow> block_info run" where
  "put_set st so =
     (case so of None \<Rightarrow> Ret st
      | Some s \<Rightarrow>
        (let st = upd_set st s (\<lambda>x. x\<lparr>set_refcount := set_refcount x - 1\<rparr>)
         in if set_refcount (sets st s) = 0
            then BUG_ON (block_list (sets st s) \<noteq> []) (
                 BUG_ON (set_size (sets st s) \<noteq> 0) (
                 Ret (upd_set st s (\<lambda>x. x\<lparr>set_freed := True\<rparr>))))
            else Ret st))"

subsection \<open>Waiters for a sync\<close>

definition SYNC_WAITERS_ERR :: int where [simp]: "SYNC_WAITERS_ERR = 1"
definition SYNC_WAITERS_INC :: int where [simp]: "SYNC_WAITERS_INC = 2"

definition sync_waiters_inc :: "block_info \<Rightarrow> block_info" where
  "sync_waiters_inc st = st\<lparr>sync_waiters := sync_waiters st + SYNC_WAITERS_INC\<rparr>"

definition sync_waiters_set_error :: "block_info \<Rightarrow> block_info" where
  "sync_waiters_set_error st =
     (let old = sync_waiters st
      in if old \<ge> SYNC_WAITERS_INC then st\<lparr>sync_waiters := old OR SYNC_WAITERS_ERR\<rparr> else st)"

definition sync_waiters_has_error :: "block_info \<Rightarrow> bool" where
  "sync_waiters_has_error st \<longleftrightarrow> sync_waiters st AND SYNC_WAITERS_ERR \<noteq> 0"

definition sync_waiters_dec_error :: "block_info \<Rightarrow> int \<times> block_info" where
  "sync_waiters_dec_error st =
     (let old = sync_waiters st;
          ret = (if old AND SYNC_WAITERS_ERR \<noteq> 0 then - EIO else 0);
          new = old - SYNC_WAITERS_INC;
          new = (if new = SYNC_WAITERS_ERR then 0 else new)
      in (ret, st\<lparr>sync_waiters := new\<rparr>))"

subsection \<open>Queueing work\<close>

definition try_queue_submit_work :: "block_info \<Rightarrow> block_info" where
  "try_queue_submit_work st =
     (if (submit_list st \<noteq> [] \<or> submit_llist st \<noteq> []) \<and> nr_submitted st < queue_depth st
      then st\<lparr>submit_queued := True\<rparr> else st)"

definition should_writeback :: "block_info \<Rightarrow> bool" where
  "should_writeback st \<longleftrightarrow>
     (sync_seq st > writeback_seq st \<or> nr_dirty st - nr_writeback st \<ge> WRITEBACK_THRESH) \<and>
     nr_writeback st < queue_depth st"

definition try_queue_writeback_work :: "block_info \<Rightarrow> block_info" where
  "try_queue_writeback_work st =
     (if should_writeback st then st\<lparr>writeback_queued := True\<rparr> else st)"

subsection \<open>Sync\<close>

text \<open>\<open>sync_up_to_seq\<close> up to its wait, the condition it waits for, and the rest.\<close>

definition sync_up_to_seq :: "block_info \<Rightarrow> nat \<Rightarrow> block_info" where
  "sync_up_to_seq st seq =
     (let st = sync_waiters_inc st
      in if seq > sync_seq st then try_queue_writeback_work (st\<lparr>sync_seq := seq\<rparr>) else st)"

definition sync_woken :: "block_info \<Rightarrow> nat \<Rightarrow> bool" where
  "sync_woken st seq \<longleftrightarrow> sync_waiters_has_error st \<or> writeback_seq st \<ge> seq \<and> nr_writeback st = 0"

definition sync_finish :: "block_info \<Rightarrow> int \<times> block_info" where
  "sync_finish st = sync_waiters_dec_error st"

definition ngnfs_block_sync :: "block_info \<Rightarrow> nat \<times> block_info" where
  "ngnfs_block_sync st = (dirty_seq st, sync_up_to_seq st (dirty_seq st))"

subsection \<open>Finding and allocating blocks\<close>

definition lookup_block :: "block_info \<Rightarrow> u64 \<Rightarrow> bid option \<times> block_info" where
  "lookup_block st bnr =
     (case map_of (ht st) bnr of None \<Rightarrow> (None, st) | Some b \<Rightarrow> (Some b, get_block st b))"

definition lookup_or_alloc_block :: "bool \<Rightarrow> block_info \<Rightarrow> u64 \<Rightarrow> ((int + bid) \<times> block_info) run" where
  "lookup_or_alloc_block alloc_ok st bnr =
     (case lookup_block st bnr of
        (Some b, st) \<Rightarrow> Ret (Inr b, st)
      | (None, st) \<Rightarrow>
        (case alloc_block alloc_ok st bnr of
           (Inl err, st) \<Rightarrow> Ret (Inl err, st)
         | (Inr b, st) \<Rightarrow>
           (case map_of (ht st) bnr of
              Some found \<Rightarrow> bind_run (put_block st b) (\<lambda>st. Ret (Inr found, get_block st found))
            | None \<Rightarrow> Ret (Inr b, get_block (st\<lparr>ht := (bnr, b) # ht st\<rparr>) b))))"

text \<open>
  \<open>llist_add(&bl->submit_llnode, &blinf->submit_llist)\<close>.  Adding a block that is
  on one of the two submission lists corrupts them.
\<close>

definition llist_add_submit :: "block_info \<Rightarrow> bid \<Rightarrow> block_info run" where
  "llist_add_submit st b =
     (if b \<in> set (submit_llist st) \<or> b \<in> set (submit_list st) then Undef
      else Ret (st\<lparr>submit_llist := b # submit_llist st\<rparr>))"

subsection \<open>IO completion\<close>

definition end_read_io :: "block_info \<Rightarrow> bid \<Rightarrow> mem option \<Rightarrow> block_info" where
  "end_read_io st b data_page =
     (let st = (case data_page of None \<Rightarrow> st | Some page \<Rightarrow> upd_block st b (\<lambda>bl. bl\<lparr>bl_page := page\<rparr>));
          st = (if BL_ERROR (blocks st b) then st else upd_block st b (\<lambda>bl. bl\<lparr>BL_UPTODATE := True\<rparr>))
      in upd_block st b (\<lambda>bl. bl\<lparr>BL_READING := False\<rparr>))"

text \<open>The walk over a finished set's blocks.\<close>

primrec release_blocks :: "block_info \<Rightarrow> sid \<Rightarrow> bid list \<Rightarrow> block_info" where
  "release_blocks st s [] = st"
| "release_blocks st s (b # bs) =
     release_blocks
       (upd_block (upd_set st s (\<lambda>x. x\<lparr>block_list := remove1 b (block_list x)\<rparr>)) b
          (\<lambda>bl. bl\<lparr>bl_set := None\<rparr>)) s bs"

definition end_write_io :: "block_info \<Rightarrow> bid \<Rightarrow> block_info run" where
  "end_write_io st b =
     (case bl_set (blocks st b) of
        None \<Rightarrow> Bug
      | Some s \<Rightarrow>
        BUG_ON (BL_ERROR (blocks st b)) (
        let st = try_queue_writeback_work (st\<lparr>nr_writeback := nr_writeback st - 1\<rparr>);
            st = upd_set st s (\<lambda>x. x\<lparr>submitted_blocks := submitted_blocks x - 1\<rparr>)
        in if submitted_blocks (sets st s) > 0 then Ret st
           else
             (let st = st\<lparr>nr_dirty := nr_dirty st - int (set_size (sets st s))\<rparr>;
                  st = upd_set st s (\<lambda>x. x\<lparr>set_size := 0\<rparr>);
                  st = release_blocks st s (block_list (sets st s));
                  st = upd_set st s (\<lambda>x. x\<lparr>SET_WRITEBACK := False\<rparr>)
              in put_set st (Some s))))"

text \<open>The transport completes the request for \<open>bnr\<close>.\<close>

definition transport_done :: "block_info \<Rightarrow> u64 \<Rightarrow> block_info" where
  "transport_done st bnr =
     st\<lparr>in_transport := takeWhile (\<lambda>r. fst (snd r) \<noteq> bnr) (in_transport st) @
          tl (dropWhile (\<lambda>r. fst (snd r) \<noteq> bnr) (in_transport st))\<rparr>"

definition ngnfs_block_end_io :: "block_info \<Rightarrow> u64 \<Rightarrow> mem option \<Rightarrow> int \<Rightarrow> block_info run" where
  "ngnfs_block_end_io st bnr data_page err =
     (case lookup_block (transport_done st bnr) bnr of
        (None, st) \<Rightarrow> Bug
      | (Some b, st) \<Rightarrow>
        (let st = (if err < 0
                   then sync_waiters_set_error
                          (upd_block st b (\<lambda>bl. bl\<lparr>BL_ERROR := True, bl_error := err\<rparr>))
                   else st)
         in bind_run
              (if BL_READING (blocks st b) then Ret (end_read_io st b data_page)
               else end_write_io st b)
              (\<lambda>st. put_block st b)))"

subsection \<open>Submission and writeback work\<close>

text \<open>\<open>del_all_reverse_add_tail\<close>: list and lockless list after the call.\<close>

definition del_all_reverse_add_tail :: "'a list \<Rightarrow> 'a list \<Rightarrow> 'a list \<times> 'a list" where
  "del_all_reverse_add_tail lst llist = (lst @ fold (\<lambda>x reverse. x # reverse) llist [], [])"

text \<open>\<open>submit_ret\<close> is what the transport's \<open>submit_block\<close> returns.\<close>

primrec submit_loop :: "(btx_op \<Rightarrow> u64 \<Rightarrow> int) \<Rightarrow> bid list \<Rightarrow> int \<Rightarrow> block_info \<Rightarrow> block_info run" where
  "submit_loop submit_ret [] space st = Ret st"
| "submit_loop submit_ret (b # bs) space st =
     (if space < 0 then Ret st
      else
        (let bl = blocks st b;
             op = (if BL_READING bl then NGNFS_BTX_OP_GET_READ else NGNFS_BTX_OP_WRITE);
             st = st\<lparr>submit_list := remove1 b (submit_list st)\<rparr>;
             st = st\<lparr>nr_submitted := nr_submitted st + 1\<rparr>;
             st = st\<lparr>in_transport := in_transport st @ [(op, bl_bnr bl, bl_page bl)]\<rparr>
         in BUG_ON (submit_ret op (bl_bnr bl) \<noteq> 0) (
            bind_run (put_block st b) (submit_loop submit_ret bs (space - 1)))))"

definition ngnfs_block_submit_work :: "(btx_op \<Rightarrow> u64 \<Rightarrow> int) \<Rightarrow> block_info \<Rightarrow> block_info run" where
  "ngnfs_block_submit_work submit_ret st =
     (let (l, ll) = del_all_reverse_add_tail (submit_list st) (submit_llist st);
          st = st\<lparr>submit_list := l, submit_llist := ll, submit_queued := False\<rparr>
      in submit_loop submit_ret (submit_list st) (queue_depth st - nr_submitted st) st)"

primrec queue_set_blocks :: "bid list \<Rightarrow> block_info \<Rightarrow> block_info run" where
  "queue_set_blocks [] st = Ret st"
| "queue_set_blocks (b # bs) st =
     bind_run (llist_add_submit (get_block st b) b) (queue_set_blocks bs)"

text \<open>One set enters writeback.\<close>

definition writeback_set :: "sid \<Rightarrow> block_info \<Rightarrow> block_info run" where
  "writeback_set s st =
     (let st = st\<lparr>writeback_list := remove1 s (writeback_list st)\<rparr> in
      bind_run
        (if set_size (sets st s) > 0 then
           (let st = st\<lparr>nr_writeback := nr_writeback st + int (set_size (sets st s))\<rparr>;
                st = upd_set st s (\<lambda>x. x\<lparr>submitted_blocks := submitted_blocks x + int (set_size x)\<rparr>);
                st = get_set st s
            in bind_run (queue_set_blocks (block_list (sets st s)) st)
                 (\<lambda>st. Ret (try_queue_submit_work st)))
         else Ret st)
        (\<lambda>st. put_set (st\<lparr>writeback_seq := writeback_seq st + 1\<rparr>) (Some s)))"

text \<open>
  The walk over the gathered sets.  It returns the set whose dirtying the work
  waits for before it ends, if any.
\<close>

primrec writeback_loop :: "sid list \<Rightarrow> block_info \<Rightarrow> (sid option \<times> block_info) run" where
  "writeback_loop [] st = Ret (None, st)"
| "writeback_loop (s # ss) st =
     (if \<not> should_writeback st then Ret (None, st)
      else BUG_ON (SET_WRITEBACK (sets st s)) (
        let st = upd_set st s (\<lambda>x. x\<lparr>SET_WRITEBACK := True\<rparr>)
        in if SET_DIRTYING (sets st s)
           then Ret (Some s, upd_set st s (\<lambda>x. x\<lparr>SET_WRITEBACK := False\<rparr>))
           else bind_run (writeback_set s st) (writeback_loop ss)))"

definition ngnfs_block_writeback_work :: "block_info \<Rightarrow> (sid option \<times> block_info) run" where
  "ngnfs_block_writeback_work st =
     (let (l, ll) = del_all_reverse_add_tail (writeback_list st) (writeback_llist st);
          st = st\<lparr>writeback_list := l, writeback_llist := ll, writeback_queued := False\<rparr>
      in writeback_loop (writeback_list st) st)"

subsection \<open>Getting and putting blocks\<close>

definition NBF_NEW :: u32 where [simp]: "NBF_NEW = 1"
definition NBF_READ :: u32 where [simp]: "NBF_READ = 2"
definition NBF_WRITE :: u32 where [simp]: "NBF_WRITE = 4"
definition NBF_RW_EXCL :: u32 where [simp]: "NBF_RW_EXCL = NBF_READ OR NBF_WRITE"

definition hweight_long :: "'a :: len word \<Rightarrow> nat" where
  "hweight_long w = length (filter (bit w) [0..<LENGTH('a)])"

definition bad_nbf :: "u32 \<Rightarrow> bool" where
  "bad_nbf nbf \<longleftrightarrow> hweight_long (nbf AND NBF_RW_EXCL) > 1"

text \<open>What \<open>ngnfs_block_get\<close> does after its wait, and whether it has to wait.\<close>

definition block_get_finish :: "block_info \<Rightarrow> bid \<Rightarrow> ((int + bid) \<times> block_info) run" where
  "block_get_finish st b =
     (if BL_ERROR (blocks st b)
      then bind_run (put_block st b) (\<lambda>st'. Ret (Inl (bl_error (blocks st b)), st'))
      else Ret (Inr b, st))"

datatype get_result = Get_done "int + bid" | Get_wait bid

definition ngnfs_block_get :: "bool \<Rightarrow> block_info \<Rightarrow> u64 \<Rightarrow> u32 \<Rightarrow> (get_result \<times> block_info) run" where
  "ngnfs_block_get alloc_ok st bnr nbf =
     (if bad_nbf nbf then Ret (Get_done (Inl (- EINVAL)), st)
      else bind_run (lookup_or_alloc_block alloc_ok st bnr) (\<lambda>(r, st).
        case r of
          Inl err \<Rightarrow> Ret (Get_done (Inl err), st)
        | Inr b \<Rightarrow>
          (let st = (if nbf AND NBF_NEW \<noteq> 0
                     then upd_block st b (\<lambda>bl. bl\<lparr>bl_page := \<lambda>i. if i < 4096 then 0 else bl_page bl i, BL_UPTODATE := True\<rparr>)
                     else st)
           in if \<not> BL_UPTODATE (blocks st b)
              then bind_run
                (if BL_READING (blocks st b) then Ret st
                 else bind_run
                   (llist_add_submit (get_block (upd_block st b (\<lambda>bl. bl\<lparr>BL_READING := True\<rparr>)) b) b)
                   (\<lambda>st. Ret (try_queue_submit_work st)))
                (\<lambda>st. Ret (Get_wait b, st))
              else bind_run (block_get_finish st b) (\<lambda>(r, st). Ret (Get_done r, st)))))"

definition ngnfs_block_put :: "block_info \<Rightarrow> bid \<Rightarrow> block_info run" where
  "ngnfs_block_put st b = put_block st b"

definition ngnfs_block_buf :: "block_info \<Rightarrow> bid \<Rightarrow> mem" where
  "ngnfs_block_buf st b = bl_page (blocks st b)"

subsection \<open>Dirtying\<close>

text \<open>
  A set comes from \<open>kmalloc\<close>, whose memory is not cleared, and \<open>dirty_seq\<close> is
  not initialised: \<open>junk\<close> is what it holds.  The argument \<open>kmalloc\<close> of the
  operations is the junk, or None when the allocation fails.
\<close>

definition new_set :: "nat \<Rightarrow> bid \<Rightarrow> block_set" where
  "new_set junk b = \<lparr>set_refcount = 2, submitted_blocks = 0, block_list = [b], set_dirty_seq = junk,
     SET_DIRTYING = False, SET_DIRTY = False, SET_WRITEBACK = False, set_size = 1, set_freed = False\<rparr>"

definition get_other_set :: "nat option \<Rightarrow> block_info \<Rightarrow> bid \<Rightarrow> sid option \<Rightarrow> (int + sid option) \<times> block_info" where
  "get_other_set kmalloc st b existing =
     (case bl_set (blocks st b) of
        Some s \<Rightarrow> if existing = Some s then (Inr None, st) else (Inr (Some s), get_set st s)
      | None \<Rightarrow>
        (case existing of
           Some e \<Rightarrow>
             (Inr None,
              upd_set (upd_block st b (\<lambda>bl. bl\<lparr>bl_set := Some e\<rparr>)) e
                (\<lambda>x. x\<lparr>block_list := block_list x @ [b], set_size := set_size x + 1\<rparr>))
         | None \<Rightarrow>
             (case kmalloc of
                None \<Rightarrow> (Inl (- ENOMEM), st)
              | Some junk \<Rightarrow>
                (let s = next_set st;
                     st = st\<lparr>sets := (sets st)(s := new_set junk b), next_set := Suc s\<rparr>
                 in (Inr (Some s), upd_block st b (\<lambda>bl. bl\<lparr>bl_set := Some s\<rparr>))))))"

text \<open>The blocks at the end of a set that were not dirty leave it; the list is in reverse order.\<close>

primrec drop_clean :: "block_info \<Rightarrow> sid \<Rightarrow> bid list \<Rightarrow> block_info" where
  "drop_clean st s [] = st"
| "drop_clean st s (b # bs) =
     (if BL_DIRTY (blocks st b) then st
      else drop_clean
        (upd_block
          (upd_set st s (\<lambda>x. x\<lparr>block_list := remove1 b (block_list x), set_size := set_size x - 1\<rparr>)) b
          (\<lambda>bl. bl\<lparr>bl_set := None\<rparr>)) s bs)"

definition clear_set_dirtying :: "block_info \<Rightarrow> sid \<Rightarrow> block_info" where
  "clear_set_dirtying st s =
     (let st = drop_clean st s (rev (block_list (sets st s)));
          st = upd_set st s (\<lambda>x. x\<lparr>SET_DIRTYING := False\<rparr>)
      in try_queue_writeback_work st)"

definition clear_set_dirtying_opt :: "block_info \<Rightarrow> sid option \<Rightarrow> block_info" where
  "clear_set_dirtying_opt st so = (case so of None \<Rightarrow> st | Some s \<Rightarrow> clear_set_dirtying st s)"

primrec move_to_set :: "block_info \<Rightarrow> sid \<Rightarrow> bid list \<Rightarrow> block_info" where
  "move_to_set st large [] = st"
| "move_to_set st large (b # bs) =
     move_to_set (upd_block st b (\<lambda>bl. bl\<lparr>bl_set := Some large\<rparr>)) large bs"

definition merge_sets :: "block_info \<Rightarrow> sid \<Rightarrow> sid \<Rightarrow> block_info" where
  "merge_sets st small large =
     (let st = move_to_set st large (block_list (sets st small));
          moved = block_list (sets st small);
          st = upd_set st large (\<lambda>x. x\<lparr>block_list := moved @ block_list x\<rparr>);
          st = upd_set st small (\<lambda>x. x\<lparr>block_list := []\<rparr>);
          small_size = set_size (sets st small);
          st = upd_set st large (\<lambda>x. x\<lparr>set_size := set_size x + small_size\<rparr>)
      in upd_set st small (\<lambda>x. x\<lparr>set_size := 0, SET_DIRTY := False, SET_DIRTYING := False\<rparr>))"

text \<open>
  Where one pass over the caller's blocks ends: at the end of the list, with an
  error, or in one of the three waits, after which it starts again.  The sets the
  pass holds references to, small and large, are returned with it.
\<close>

datatype walk_result =
    Walk_done
  | Walk_error int
  | Walk_wait_dirtying sid
  | Walk_wait_writeback sid
  | Walk_wait_sync nat

primrec dirty_walk ::
  "nat option \<Rightarrow> bid list \<Rightarrow> sid option \<Rightarrow> sid option \<Rightarrow> block_info
    \<Rightarrow> (walk_result \<times> sid option \<times> sid option \<times> block_info) run" where
  "dirty_walk kmalloc [] small large st = Ret (Walk_done, small, large, st)"
| "dirty_walk kmalloc (b # bs) small large st =
     bind_run (put_set st small) (\<lambda>st.
     case get_other_set kmalloc st b large of
       (Inl err, st) \<Rightarrow> Ret (Walk_error err, None, large, st)
     | (Inr None, st) \<Rightarrow> dirty_walk kmalloc bs None large st
     | (Inr (Some s), st) \<Rightarrow>
         if SET_DIRTYING (sets st s)
         then Ret (Walk_wait_dirtying s, Some s, large, clear_set_dirtying_opt st large)
         else
           (let st = upd_set st s (\<lambda>x. x\<lparr>SET_DIRTYING := True\<rparr>)
            in if SET_WRITEBACK (sets st s)
               then Ret (Walk_wait_writeback s, Some s, large,
                         clear_set_dirtying_opt (clear_set_dirtying st s) large)
               else
                 (case large of
                    None \<Rightarrow> dirty_walk kmalloc bs None (Some s) st
                  | Some l \<Rightarrow>
                    (let (small, large) =
                           (if set_size (sets st s) > set_size (sets st l) then (l, s) else (s, l))
                     in if set_size (sets st large) + set_size (sets st small) > SET_LIMIT
                        then (let seq = set_dirty_seq (sets st large);
                                  st = clear_set_dirtying (clear_set_dirtying st small) large
                              in Ret (Walk_wait_sync seq, Some small, Some large, sync_up_to_seq st seq))
                        else dirty_walk kmalloc bs (Some small) (Some large)
                               (merge_sets st small large)))))"

primrec mark_dirty :: "block_info \<Rightarrow> bid list \<Rightarrow> block_info" where
  "mark_dirty st [] = st"
| "mark_dirty st (b # bs) =
     (if BL_DIRTY (blocks st b) then st
      else mark_dirty
        ((upd_block st b (\<lambda>bl. bl\<lparr>BL_DIRTY := True\<rparr>))\<lparr>nr_dirty := nr_dirty st + 1\<rparr>) bs)"

text \<open>The blocks of the walk become dirty and their set gets its place in the writeback order.\<close>

definition dirty_large :: "block_info \<Rightarrow> sid \<Rightarrow> block_info" where
  "dirty_large st large =
     (let st = mark_dirty st (rev (block_list (sets st large)))
      in if SET_DIRTY (sets st large) then st
         else
           (let st = upd_set st large (\<lambda>x. x\<lparr>SET_DIRTY := True\<rparr>);
                st = get_set st large;
                st = st\<lparr>dirty_seq := dirty_seq st + 1\<rparr>;
                st = upd_set st large (\<lambda>x. x\<lparr>set_dirty_seq := dirty_seq st\<rparr>);
                st = st\<lparr>writeback_llist := large # writeback_llist st\<rparr>
            in try_queue_writeback_work st))"

datatype dirty_result = Dirty_done int | Dirty_throttle | Dirty_wait walk_result "sid option" "sid option"

text \<open>From \<open>restart:\<close> to the end or to the next wait.\<close>

definition dirty_restart ::
  "nat option \<Rightarrow> bid list \<Rightarrow> sid option \<Rightarrow> sid option \<Rightarrow> block_info \<Rightarrow> (dirty_result \<times> block_info) run" where
  "dirty_restart kmalloc bs small large st =
     bind_run (put_set st small) (\<lambda>st.
     bind_run (put_set st large) (\<lambda>st.
     bind_run (dirty_walk kmalloc bs None None st) (\<lambda>(r, small, large, st).
     case r of
       Walk_done \<Rightarrow>
         (case large of None \<Rightarrow> Undef
          | Some l \<Rightarrow> bind_run (put_set (dirty_large st l) small) (\<lambda>st. Ret (Dirty_done 0, st)))
     | Walk_error err \<Rightarrow>
         bind_run (put_set st small) (\<lambda>st.
         bind_run (put_set st large) (\<lambda>st. Ret (Dirty_done err, st)))
     | _ \<Rightarrow> Ret (Dirty_wait r small large, st))))"

text \<open>
  \<open>ngnfs_block_dirty_begin\<close> up to its first wait, which is for fewer dirty blocks
  (\<open>Dirty_throttle\<close>) or one of the waits of the walk.
\<close>

definition dirty_throttled :: "block_info \<Rightarrow> bool" where
  "dirty_throttled st \<longleftrightarrow> \<not> nr_dirty st < DIRTY_LIMIT"

definition ngnfs_block_dirty_begin :: "nat option \<Rightarrow> bid list \<Rightarrow> block_info \<Rightarrow> (dirty_result \<times> block_info) run" where
  "ngnfs_block_dirty_begin kmalloc bs st =
     (if bs = [] then Ret (Dirty_done 0, st)
      else if dirty_throttled st then Ret (Dirty_throttle, st)
      else dirty_restart kmalloc bs None None st)"

text \<open>What a woken walk does: an error of the sync ends it, otherwise it starts again.\<close>

definition walk_woken :: "block_info \<Rightarrow> walk_result \<Rightarrow> bool" where
  "walk_woken st r \<longleftrightarrow>
     (case r of
        Walk_wait_dirtying s \<Rightarrow> \<not> SET_DIRTYING (sets st s)
      | Walk_wait_writeback s \<Rightarrow> \<not> SET_WRITEBACK (sets st s)
      | Walk_wait_sync seq \<Rightarrow> sync_woken st seq
      | _ \<Rightarrow> True)"

definition dirty_resume ::
  "nat option \<Rightarrow> bid list \<Rightarrow> walk_result \<Rightarrow> sid option \<Rightarrow> sid option \<Rightarrow> block_info \<Rightarrow> (dirty_result \<times> block_info) run" where
  "dirty_resume kmalloc bs r small large st =
     (case r of
        Walk_wait_sync seq \<Rightarrow>
          (case sync_finish st of (ret, st) \<Rightarrow>
             if ret < 0
             then bind_run (put_set st small) (\<lambda>st.
                  bind_run (put_set st large) (\<lambda>st. Ret (Dirty_done ret, st)))
             else dirty_restart kmalloc bs small large st)
      | _ \<Rightarrow> dirty_restart kmalloc bs small large st)"

definition ngnfs_block_dirty_end :: "bid list \<Rightarrow> block_info \<Rightarrow> block_info run" where
  "ngnfs_block_dirty_end bs st =
     bind_run
       (case bs of [] \<Rightarrow> Ret st
        | b # _ \<Rightarrow>
          (case bl_set (blocks st b) of None \<Rightarrow> Undef
           | Some s \<Rightarrow> put_set (upd_set st s (\<lambda>x. x\<lparr>SET_DIRTYING := False\<rparr>)) (Some s)))
       (\<lambda>st. Ret (try_queue_writeback_work st))"

subsection \<open>Setup and teardown\<close>

definition init_block_info :: "int \<Rightarrow> block_info" where
  "init_block_info depth =
     \<lparr>ht = [], queue_depth = depth, nr_dirty = 0, nr_writeback = 0, nr_submitted = 0,
      sync_waiters = 0, dirty_seq = 0, writeback_seq = 0, sync_seq = 0,
      submit_llist = [], submit_list = [], writeback_llist = [], writeback_list = [],
      submit_queued = False, writeback_queued = False, in_transport = [],
      blocks = (\<lambda>_. new_block 0), next_block = 0,
      sets = (\<lambda>_. (new_set 0 0)\<lparr>block_list := [], set_size := 0\<rparr>), next_set = 0\<rparr>"

text \<open>
  The results of the calls of \<open>ngnfs_block_setup\<close> are arguments: \<open>kzalloc_ok\<close>,
  the error of the transport's \<open>setup\<close> if any, its queue depth, what
  \<open>rhashtable_init\<close> returned and whether there is a work queue.
\<close>

definition ngnfs_block_setup ::
  "bool \<Rightarrow> int option \<Rightarrow> int \<Rightarrow> int \<Rightarrow> bool \<Rightarrow> int \<times> block_info option" where
  "ngnfs_block_setup kzalloc_ok setup_err depth ht_ret wq_ok =
     (if \<not> kzalloc_ok then (- ENOMEM, None)
      else case setup_err of
        Some err \<Rightarrow> (err, None)
      | None \<Rightarrow>
        if ht_ret < 0 then (ht_ret, None)
        else if \<not> wq_ok then (- ENOMEM, None)
        else (0, Some (init_block_info depth)))"

primrec put_ht_blocks :: "(u64 \<times> bid) list \<Rightarrow> block_info \<Rightarrow> block_info run" where
  "put_ht_blocks [] st = Ret st"
| "put_ht_blocks (e # es) st = bind_run (put_block st (snd e)) (put_ht_blocks es)"

definition ngnfs_block_destroy :: "block_info \<Rightarrow> block_info run" where
  "ngnfs_block_destroy st = put_ht_blocks (ht st) st"

end
