(* ===== verification/Block_Inv.thy ===== *)
theory Block_Inv
  imports Block_Cache
begin

text \<open>
  The invariant of the block cache and that every stretch of code between two
  waits keeps it: blocks and sets point at each other, sets are queued for
  writeback in the order of their sequence numbers, a set is not dirtied and
  written at once, and the writeback counters count the writes that have not
  completed.
\<close>

named_theorems cache_simps \<open>what the helpers of the block cache leave alone\<close>

subsection \<open>The invariant\<close>

definition members_ok :: "block_info \<Rightarrow> bool" where
  "members_ok st \<longleftrightarrow>
     (\<forall>b s. bl_set (blocks st b) = Some s \<longleftrightarrow> b \<in> set (block_list (sets st s))) \<and>
     (\<forall>s. distinct (block_list (sets st s))) \<and>
     (\<forall>s. set_size (sets st s) = length (block_list (sets st s))) \<and>
     (\<forall>s. next_set st \<le> s \<longrightarrow> block_list (sets st s) = [] \<and> submitted_blocks (sets st s) = 0 \<and>
        \<not> SET_DIRTYING (sets st s) \<and> \<not> SET_DIRTY (sets st s) \<and> \<not> SET_WRITEBACK (sets st s))"

text \<open>The sets waiting for writeback, oldest first.\<close>

definition wb_queue :: "block_info \<Rightarrow> sid list" where
  "wb_queue st = writeback_list st @ rev (writeback_llist st)"

definition queue_ok :: "block_info \<Rightarrow> bool" where
  "queue_ok st \<longleftrightarrow>
     map (\<lambda>s. set_dirty_seq (sets st s)) (wb_queue st) = [Suc (writeback_seq st)..<Suc (dirty_seq st)] \<and>
     (\<forall>s\<in>set (wb_queue st). s < next_set st \<and> \<not> SET_WRITEBACK (sets st s)) \<and>
     (\<forall>s. SET_DIRTY (sets st s) \<and> block_list (sets st s) \<noteq> [] \<longrightarrow>
        s \<in> set (wb_queue st) \<or> SET_WRITEBACK (sets st s)) \<and>
     (\<forall>s. \<not> (SET_DIRTYING (sets st s) \<and> SET_WRITEBACK (sets st s))) \<and>
     (\<forall>s\<in>set (wb_queue st). block_list (sets st s) \<noteq> [] \<longrightarrow> SET_DIRTY (sets st s)) \<and>
     writeback_seq st \<le> dirty_seq st"

text \<open>A set that nobody is dirtying ends in a dirty block.\<close>

definition tail_ok :: "block_info \<Rightarrow> bool" where
  "tail_ok st \<longleftrightarrow> (\<forall>s. \<not> SET_DIRTYING (sets st s) \<and> block_list (sets st s) \<noteq> [] \<longrightarrow>
     BL_DIRTY (blocks st (last (block_list (sets st s)))))"

definition ht_ok :: "block_info \<Rightarrow> bool" where
  "ht_ok st \<longleftrightarrow>
     (\<forall>bnr b. map_of (ht st) bnr = Some b \<longleftrightarrow> b < next_block st \<and> bl_bnr (blocks st b) = bnr) \<and>
     (\<forall>b s. bl_set (blocks st b) = Some s \<longrightarrow> b < next_block st) \<and>
     (\<forall>b\<in>set (submit_llist st) \<union> set (submit_list st). b < next_block st) \<and>
     distinct (submit_llist st @ submit_list st) \<and>
     (\<forall>op bnr page. (op, bnr, page) \<in> set (in_transport st) \<longrightarrow> bnr \<in> dom (map_of (ht st)))"

text \<open>
  The IOs of a block that are queued or with the transport; all but the one of a
  read are writes.
\<close>

definition pending :: "block_info \<Rightarrow> bid \<Rightarrow> nat" where
  "pending st b = count_list (submit_llist st) b + count_list (submit_list st) b +
     length (filter (\<lambda>r. fst (snd r) = bl_bnr (blocks st b)) (in_transport st))"

definition writes :: "block_info \<Rightarrow> bid \<Rightarrow> int" where
  "writes st b = int (pending st b) - of_bool (BL_READING (blocks st b))"

definition io_ok :: "block_info \<Rightarrow> bool" where
  "io_ok st \<longleftrightarrow>
     (\<forall>b < next_block st. writes st b = 0 \<or>
        writes st b = 1 \<and> (\<exists>s. bl_set (blocks st b) = Some s \<and> SET_WRITEBACK (sets st s))) \<and>
     (\<forall>s. submitted_blocks (sets st s) = (\<Sum>b\<leftarrow>block_list (sets st s). writes st b)) \<and>
     (\<forall>s. SET_WRITEBACK (sets st s) \<and> block_list (sets st s) \<noteq> [] \<longrightarrow> 0 < submitted_blocks (sets st s)) \<and>
     nr_writeback st = (\<Sum>s<next_set st. submitted_blocks (sets st s))"

definition cache_inv :: "block_info \<Rightarrow> bool" where
  "cache_inv st \<longleftrightarrow> members_ok st \<and> queue_ok st \<and> ht_ok st \<and> io_ok st \<and> tail_ok st"

lemma cache_invD:
  assumes "cache_inv st" shows "members_ok st" "queue_ok st" "ht_ok st" "io_ok st" "tail_ok st"
  using assms by (simp_all add: cache_inv_def)

lemma ht_okD:
  assumes "ht_ok st"
  shows "map_of (ht st) bnr = Some b \<longleftrightarrow> b < next_block st \<and> bl_bnr (blocks st b) = bnr"
    and "bl_set (blocks st b) = Some s \<Longrightarrow> b < next_block st"
    and "b \<in> set (submit_llist st) \<Longrightarrow> b < next_block st" "b \<in> set (submit_list st) \<Longrightarrow> b < next_block st"
    and "distinct (submit_llist st @ submit_list st)"
    and "(op, bnr, page) \<in> set (in_transport st) \<Longrightarrow> bnr \<in> dom (map_of (ht st))"
  using assms unfolding ht_ok_def by blast+

lemma ht_okI:
  assumes "\<And>bnr b. map_of (ht st) bnr = Some b \<longleftrightarrow> b < next_block st \<and> bl_bnr (blocks st b) = bnr"
    and "\<And>b s. bl_set (blocks st b) = Some s \<Longrightarrow> b < next_block st"
    and "\<And>b. b \<in> set (submit_llist st) \<Longrightarrow> b < next_block st"
    and "\<And>b. b \<in> set (submit_list st) \<Longrightarrow> b < next_block st"
    and "distinct (submit_llist st @ submit_list st)"
    and "\<And>op bnr page. (op, bnr, page) \<in> set (in_transport st) \<Longrightarrow> bnr \<in> dom (map_of (ht st))"
  shows "ht_ok st"
  unfolding ht_ok_def using assms by blast

lemma io_okI:
  assumes "\<And>b. b < next_block st \<Longrightarrow> writes st b = 0 \<or>
      writes st b = 1 \<and> (\<exists>s. bl_set (blocks st b) = Some s \<and> SET_WRITEBACK (sets st s))"
    and "\<And>s. submitted_blocks (sets st s) = (\<Sum>b\<leftarrow>block_list (sets st s). writes st b)"
    and "\<And>s. SET_WRITEBACK (sets st s) \<Longrightarrow> block_list (sets st s) \<noteq> [] \<Longrightarrow> 0 < submitted_blocks (sets st s)"
    and "nr_writeback st = (\<Sum>s<next_set st. submitted_blocks (sets st s))"
  shows "io_ok st"
  unfolding io_ok_def using assms by blast

lemma io_okD:
  assumes "io_ok st"
  shows "b < next_block st \<Longrightarrow> writes st b = 0 \<or>
      writes st b = 1 \<and> (\<exists>s. bl_set (blocks st b) = Some s \<and> SET_WRITEBACK (sets st s))"
    and "submitted_blocks (sets st s) = (\<Sum>b\<leftarrow>block_list (sets st s). writes st b)"
    and "SET_WRITEBACK (sets st s) \<Longrightarrow> block_list (sets st s) \<noteq> [] \<Longrightarrow> 0 < submitted_blocks (sets st s)"
    and "nr_writeback st = (\<Sum>s<next_set st. submitted_blocks (sets st s))"
  using assms unfolding io_ok_def by blast+

lemma members_okI:
  assumes "\<And>b s. bl_set (blocks st b) = Some s \<longleftrightarrow> b \<in> set (block_list (sets st s))"
    and "\<And>s. distinct (block_list (sets st s))"
    and "\<And>s. set_size (sets st s) = length (block_list (sets st s))"
    and "\<And>s. next_set st \<le> s \<Longrightarrow> block_list (sets st s) = [] \<and> submitted_blocks (sets st s) = 0 \<and>
        \<not> SET_DIRTYING (sets st s) \<and> \<not> SET_DIRTY (sets st s) \<and> \<not> SET_WRITEBACK (sets st s)"
  shows "members_ok st"
  unfolding members_ok_def using assms by blast

lemma members_okD:
  assumes "members_ok st"
  shows "bl_set (blocks st b) = Some s \<longleftrightarrow> b \<in> set (block_list (sets st s))"
    and "distinct (block_list (sets st s))"
    and "set_size (sets st s) = length (block_list (sets st s))"
    and "next_set st \<le> s \<Longrightarrow> block_list (sets st s) = [] \<and> submitted_blocks (sets st s) = 0 \<and>
        \<not> SET_DIRTYING (sets st s) \<and> \<not> SET_DIRTY (sets st s) \<and> \<not> SET_WRITEBACK (sets st s)"
  using assms unfolding members_ok_def by blast+

lemma queue_okI:
  assumes "map (\<lambda>s. set_dirty_seq (sets st s)) (wb_queue st) = [Suc (writeback_seq st)..<Suc (dirty_seq st)]"
    and "\<And>s. s \<in> set (wb_queue st) \<Longrightarrow> s < next_set st \<and> \<not> SET_WRITEBACK (sets st s)"
    and "\<And>s. SET_DIRTY (sets st s) \<Longrightarrow> block_list (sets st s) \<noteq> [] \<Longrightarrow>
        s \<in> set (wb_queue st) \<or> SET_WRITEBACK (sets st s)"
    and "\<And>s. \<not> (SET_DIRTYING (sets st s) \<and> SET_WRITEBACK (sets st s))"
    and "\<And>s. s \<in> set (wb_queue st) \<Longrightarrow> block_list (sets st s) \<noteq> [] \<Longrightarrow> SET_DIRTY (sets st s)"
    and "writeback_seq st \<le> dirty_seq st"
  shows "queue_ok st"
  unfolding queue_ok_def using assms by blast

lemma queue_okD:
  assumes "queue_ok st"
  shows "map (\<lambda>s. set_dirty_seq (sets st s)) (wb_queue st) = [Suc (writeback_seq st)..<Suc (dirty_seq st)]"
    and "s \<in> set (wb_queue st) \<Longrightarrow> s < next_set st" "s \<in> set (wb_queue st) \<Longrightarrow> \<not> SET_WRITEBACK (sets st s)"
    and "SET_DIRTY (sets st s) \<Longrightarrow> block_list (sets st s) \<noteq> [] \<Longrightarrow>
        s \<in> set (wb_queue st) \<or> SET_WRITEBACK (sets st s)"
    and "\<not> (SET_DIRTYING (sets st s) \<and> SET_WRITEBACK (sets st s))"
    and "s \<in> set (wb_queue st) \<Longrightarrow> block_list (sets st s) \<noteq> [] \<Longrightarrow> SET_DIRTY (sets st s)"
    and "writeback_seq st \<le> dirty_seq st"
  using assms unfolding queue_ok_def by blast+

lemma ht_ok_transport: "ht_ok st \<Longrightarrow> r \<in> set (in_transport st) \<Longrightarrow> fst (snd r) \<in> dom (map_of (ht st))"
  by (rule ht_okD(6) [of st "fst r" "fst (snd r)" "snd (snd r)"]) simp_all

lemma ht_ok_bnr_inj:
  assumes "ht_ok st" "b < next_block st" "b' < next_block st" "bl_bnr (blocks st b) = bl_bnr (blocks st b')"
  shows "b = b'"
proof -
  have "map_of (ht st) (bl_bnr (blocks st b)) = Some b" "map_of (ht st) (bl_bnr (blocks st b)) = Some b'"
    using assms by (auto simp: ht_okD(1))
  then show ?thesis by simp
qed

lemma inv_member_bound:
  assumes "cache_inv st" "b \<in> set (block_list (sets st s))"
  shows "b < next_block st"
proof -
  have "bl_set (blocks st b) = Some s" using assms by (auto simp: cache_inv_def members_ok_def)
  then show ?thesis using assms(1) by (auto simp: cache_inv_def ht_ok_def)
qed

subsection \<open>What the invariant does not depend on\<close>

definition core :: "block_info \<Rightarrow> block_info" where
  "core st = st\<lparr>queue_depth := 0, nr_dirty := 0, nr_submitted := 0, sync_waiters := 0, sync_seq := 0,
     submit_queued := False, writeback_queued := False,
     blocks := (\<lambda>b. (blocks st b)\<lparr>bl_refcount := 0, BL_UPTODATE := False, BL_ERROR := False,
       bl_error := 0, bl_page := (\<lambda>_. 0), bl_freed := False\<rparr>),
     sets := (\<lambda>s. (sets st s)\<lparr>set_refcount := 0, set_freed := False\<rparr>)\<rparr>"

lemma cache_inv_core: "cache_inv (core st) = cache_inv st"
  by (simp add: cache_inv_def members_ok_def queue_ok_def ht_ok_def io_ok_def tail_ok_def core_def
      wb_queue_def writes_def pending_def)

lemma cache_inv_cong: "core st' = core st \<Longrightarrow> cache_inv st' = cache_inv st"
  by (metis cache_inv_core)

lemma core_get_block [cache_simps]: "core (get_block st b) = core st"
  by (simp add: core_def get_block_def upd_block_def fun_eq_iff)

lemma core_get_set [cache_simps]: "core (get_set st s) = core st"
  by (simp add: core_def get_set_def upd_set_def fun_eq_iff)

lemma core_put_block: "put_block st b = Ret st' \<Longrightarrow> core st' = core st"
  by (auto simp: core_def put_block_def upd_block_def fun_eq_iff free_block_def Let_def run_simps split: if_splits)

lemma core_put_set: "put_set st so = Ret st' \<Longrightarrow> core st' = core st"
  by (auto simp: core_def put_set_def upd_set_def fun_eq_iff Let_def run_simps split: if_splits option.splits)

lemma core_try_queue [cache_simps]:
  "core (try_queue_submit_work st) = core st" "core (try_queue_writeback_work st) = core st"
  by (simp_all add: core_def try_queue_submit_work_def try_queue_writeback_work_def)

lemma core_sync [cache_simps]:
  "core (sync_waiters_inc st) = core st" "core (sync_waiters_set_error st) = core st"
  "core (snd (sync_waiters_dec_error st)) = core st" "core (sync_up_to_seq st seq) = core st"
  by (simp_all add: core_def sync_waiters_inc_def sync_waiters_set_error_def sync_waiters_dec_error_def
      sync_up_to_seq_def try_queue_writeback_work_def Let_def)

text \<open>The fields of \<open>core\<close> a proof reads off an equality of cores.\<close>

lemma core_eqD:
  assumes "core st' = core st"
  shows "ht st' = ht st" "nr_writeback st' = nr_writeback st" "dirty_seq st' = dirty_seq st"
    "writeback_seq st' = writeback_seq st" "submit_llist st' = submit_llist st"
    "submit_list st' = submit_list st" "writeback_llist st' = writeback_llist st"
    "writeback_list st' = writeback_list st" "in_transport st' = in_transport st"
    "next_block st' = next_block st" "next_set st' = next_set st"
    "bl_set (blocks st' b) = bl_set (blocks st b)" "BL_READING (blocks st' b) = BL_READING (blocks st b)"
    "bl_bnr (blocks st' b) = bl_bnr (blocks st b)"
    "submitted_blocks (sets st' s) = submitted_blocks (sets st s)"
    "block_list (sets st' s) = block_list (sets st s)" "set_dirty_seq (sets st' s) = set_dirty_seq (sets st s)"
    "SET_DIRTYING (sets st' s) = SET_DIRTYING (sets st s)" "SET_DIRTY (sets st' s) = SET_DIRTY (sets st s)"
    "SET_WRITEBACK (sets st' s) = SET_WRITEBACK (sets st s)" "set_size (sets st' s) = set_size (sets st s)"
    "BL_DIRTY (blocks st' b) = BL_DIRTY (blocks st b)"
proof -
  have b: "blocks (core st') b = blocks (core st) b" and s: "sets (core st') s = sets (core st) s"
    using assms by simp_all
  have "bl_set (blocks (core st') b) = bl_set (blocks (core st) b)"
    "BL_READING (blocks (core st') b) = BL_READING (blocks (core st) b)"
    "bl_bnr (blocks (core st') b) = bl_bnr (blocks (core st) b)"
    "BL_DIRTY (blocks (core st') b) = BL_DIRTY (blocks (core st) b)" using b by simp_all
  then show "bl_set (blocks st' b) = bl_set (blocks st b)" "BL_READING (blocks st' b) = BL_READING (blocks st b)"
    "bl_bnr (blocks st' b) = bl_bnr (blocks st b)" "BL_DIRTY (blocks st' b) = BL_DIRTY (blocks st b)" by (simp_all add: core_def)
  have "submitted_blocks (sets (core st') s) = submitted_blocks (sets (core st) s)"
    "block_list (sets (core st') s) = block_list (sets (core st) s)"
    "set_dirty_seq (sets (core st') s) = set_dirty_seq (sets (core st) s)"
    "SET_DIRTYING (sets (core st') s) = SET_DIRTYING (sets (core st) s)"
    "SET_DIRTY (sets (core st') s) = SET_DIRTY (sets (core st) s)"
    "SET_WRITEBACK (sets (core st') s) = SET_WRITEBACK (sets (core st) s)"
    "set_size (sets (core st') s) = set_size (sets (core st) s)" using s by simp_all
  then show "submitted_blocks (sets st' s) = submitted_blocks (sets st s)"
    "block_list (sets st' s) = block_list (sets st s)" "set_dirty_seq (sets st' s) = set_dirty_seq (sets st s)"
    "SET_DIRTYING (sets st' s) = SET_DIRTYING (sets st s)" "SET_DIRTY (sets st' s) = SET_DIRTY (sets st s)"
    "SET_WRITEBACK (sets st' s) = SET_WRITEBACK (sets st s)" "set_size (sets st' s) = set_size (sets st s)"
    by (simp_all add: core_def)
  have "ht (core st') = ht (core st)" "nr_writeback (core st') = nr_writeback (core st)"
    "dirty_seq (core st') = dirty_seq (core st)" "writeback_seq (core st') = writeback_seq (core st)"
    "submit_llist (core st') = submit_llist (core st)" "submit_list (core st') = submit_list (core st)"
    "writeback_llist (core st') = writeback_llist (core st)" "writeback_list (core st') = writeback_list (core st)"
    "in_transport (core st') = in_transport (core st)" "next_block (core st') = next_block (core st)"
    "next_set (core st') = next_set (core st)" using assms by simp_all
  then show "ht st' = ht st" "nr_writeback st' = nr_writeback st" "dirty_seq st' = dirty_seq st"
    "writeback_seq st' = writeback_seq st" "submit_llist st' = submit_llist st"
    "submit_list st' = submit_list st" "writeback_llist st' = writeback_llist st"
    "writeback_list st' = writeback_list st" "in_transport st' = in_transport st"
    "next_block st' = next_block st" "next_set st' = next_set st" by (simp_all add: core_def)
qed

lemma init_cache_inv: "cache_inv (init_block_info depth)"
  by (simp add: cache_inv_def members_ok_def queue_ok_def ht_ok_def io_ok_def tail_ok_def init_block_info_def
      new_block_def new_set_def wb_queue_def writes_def pending_def)

subsection \<open>Sets that are being dirtied are left alone\<close>

definition dirtying :: "block_info \<Rightarrow> sid set" where
  "dirtying st = {s. SET_DIRTYING (sets st s)}"

definition keeps :: "sid set \<Rightarrow> block_info \<Rightarrow> block_info \<Rightarrow> bool" where
  "keeps D st st' \<longleftrightarrow> next_block st \<le> next_block st' \<and>
     (\<forall>b < next_block st. BL_DIRTY (blocks st b) \<longrightarrow> BL_DIRTY (blocks st' b)) \<and>
     (\<forall>s\<in>D. SET_DIRTYING (sets st' s) = SET_DIRTYING (sets st s) \<and>
        block_list (sets st' s) = block_list (sets st s))"

lemma keeps_refl [simp]: "keeps D st st"
  by (simp add: keeps_def)

lemma keeps_trans: "keeps D st st' \<Longrightarrow> keeps D st' st'' \<Longrightarrow> keeps D st st''"
  by (auto simp: keeps_def)

lemma keeps_core: "core st' = core st \<Longrightarrow> keeps D st st'"
  using core_eqD(10,16,18,22) [of st' st] by (simp add: keeps_def)

lemma dirtying_core: "core st' = core st \<Longrightarrow> dirtying st' = dirtying st"
  using core_eqD(18) [of st' st] by (simp add: dirtying_def)

text \<open>What every operation outside dirtying guarantees.\<close>

definition safe_step :: "block_info \<Rightarrow> block_info \<Rightarrow> bool" where
  "safe_step st st' \<longleftrightarrow> cache_inv st' \<and> keeps (dirtying st) st st' \<and> dirtying st' = dirtying st"

lemma safe_step_refl: "cache_inv st \<Longrightarrow> safe_step st st"
  by (simp add: safe_step_def)

lemma safe_step_trans: "safe_step st st' \<Longrightarrow> safe_step st' st'' \<Longrightarrow> safe_step st st''"
  by (auto simp: safe_step_def intro: keeps_trans)

lemma safe_step_core: "cache_inv st \<Longrightarrow> core st' = core st \<Longrightarrow> safe_step st st'"
  using cache_inv_cong [of st' st] keeps_core [of st' st] dirtying_core [of st' st] by (simp add: safe_step_def)

lemma safe_step_core_right: "safe_step st st' \<Longrightarrow> core st'' = core st' \<Longrightarrow> safe_step st st''"
  by (meson safe_step_core safe_step_def safe_step_trans)

text \<open>An update that keeps what the IO part of the invariant reads.\<close>

lemma io_ok_cong:
  assumes "io_ok st" "sets st' = sets st" "next_set st' = next_set st" "next_block st \<le> next_block st'"
    "nr_writeback st' = nr_writeback st"
    "\<And>b. b < next_block st \<Longrightarrow> bl_set (blocks st' b) = bl_set (blocks st b)"
    "\<And>b. b < next_block st \<Longrightarrow> writes st' b = writes st b"
    "\<And>b. next_block st \<le> b \<Longrightarrow> b < next_block st' \<Longrightarrow> writes st' b = 0"
    "\<And>s b. b \<in> set (block_list (sets st s)) \<Longrightarrow> b < next_block st"
  shows "io_ok st'"
proof -
  have s: "(\<Sum>b\<leftarrow>block_list (sets st s). writes st' b) = (\<Sum>b\<leftarrow>block_list (sets st s). writes st b)" for s
    using assms(7,9) by (intro arg_cong [of _ _ sum_list] map_cong) auto
  note io = assms(1) [unfolded io_ok_def]
  have "writes st' b = 0 \<or> writes st' b = 1 \<and> (\<exists>s. bl_set (blocks st' b) = Some s \<and> SET_WRITEBACK (sets st s))"
    if "b < next_block st'" for b
    using that io assms(6,7,8) by (cases "b < next_block st") auto
  then show ?thesis unfolding io_ok_def assms(2,3,5) s using io by blast
qed

subsection \<open>Getting a block\<close>

lemma insert_block_inv:
  assumes inv: "cache_inv st" and new: "map_of (ht st) bnr = None"
  defines "st' \<equiv> st\<lparr>blocks := (blocks st)(next_block st := new_block bnr), next_block := Suc (next_block st),
      ht := (bnr, next_block st) # ht st\<rparr>"
  shows "safe_step st st'"
proof -
  let ?n = "next_block st"
  have ht: "ht_ok st" and io: "io_ok st" and m: "members_ok st" and q: "queue_ok st"
    using inv by (auto simp: cache_inv_def)
  have none: "bl_set (blocks st ?n) = None"
    using ht by (cases "bl_set (blocks st ?n)") (auto simp: ht_ok_def)
  then have nb: "?n \<notin> set (block_list (sets st s))" for s using m by (metis members_ok_def option.distinct(1))
  have ns: "?n \<notin> set (submit_llist st)" "?n \<notin> set (submit_list st)" using ht by (auto simp: ht_ok_def)
  have bn: "bl_bnr (blocks st b) \<noteq> bnr" if "b < ?n" for b
    using ht new that by (metis ht_ok_def option.distinct(1))
  have nt: "fst (snd r) \<noteq> bnr" if "r \<in> set (in_transport st)" for r
    using ht_ok_transport [OF ht that] new by auto
  have w: "writes st' b = (if b = ?n then 0 else writes st b)" for b
  proof -
    have "filter (\<lambda>r. fst (snd r) = bnr) (in_transport st) = []" using nt by (auto simp: filter_empty_conv)
    then show ?thesis using ns by (simp add: writes_def pending_def st'_def new_block_def)
  qed
  have "tail_ok st'"
    using cache_invD(5) [OF inv] nb unfolding tail_ok_def by (auto simp: st'_def) (metis last_in_set)
  moreover have "members_ok st'" using m none nb by (auto simp: members_ok_def st'_def new_block_def)
  moreover have "queue_ok st'" using q by (simp add: queue_ok_def st'_def wb_queue_def)
  moreover have "ht_ok st'"
    using ht new none bn nt by (auto simp: ht_ok_def st'_def new_block_def less_Suc_eq)
  moreover have "io_ok st'"
    using inv_member_bound [OF inv] none
    by (intro io_ok_cong [OF io]) (auto simp: w, auto simp: st'_def)
  ultimately show ?thesis
    by (auto simp: safe_step_def cache_inv_def keeps_def dirtying_def st'_def)
qed

lemma start_read_inv:
  assumes inv: "cache_inv st" and b: "b < next_block st" "\<not> BL_READING (blocks st b)"
    and r: "llist_add_submit (get_block (upd_block st b (\<lambda>bl. bl\<lparr>BL_READING := True\<rparr>)) b) b = Ret st'"
  shows "safe_step st st'"
proof -
  have ht: "ht_ok st" and io: "io_ok st" and m: "members_ok st" and q: "queue_ok st"
    using inv by (auto simp: cache_inv_def)
  define st1 where "st1 = st\<lparr>blocks := (blocks st)(b := (blocks st b)\<lparr>BL_READING := True\<rparr>),
     submit_llist := b # submit_llist st\<rparr>"
  have c: "core st' = core st1"
    using r by (auto simp: llist_add_submit_def get_block_def upd_block_def core_def st1_def fun_eq_iff
        split: if_splits)
  have w: "writes st1 = writes st"
    using b(2) by (auto simp: writes_def pending_def st1_def fun_eq_iff)
  have "members_ok st1" using m by (auto simp: members_ok_def st1_def)
  moreover have "tail_ok st1" using cache_invD(5) [OF inv] by (auto simp: tail_ok_def st1_def)
  moreover have "queue_ok st1" using q by (simp add: queue_ok_def st1_def wb_queue_def)
  moreover have "ht_ok st1"
  proof -
    have "b \<notin> set (submit_llist st)" "b \<notin> set (submit_list st)"
      using r by (auto simp: llist_add_submit_def get_block_def upd_block_def split: if_splits)
    then show ?thesis using ht b by (auto simp: ht_ok_def st1_def)
  qed
  moreover have "io_ok st1" using io unfolding io_ok_def w by (auto simp: st1_def)
  ultimately have "safe_step st st1"
    by (auto simp: safe_step_def cache_inv_def keeps_def dirtying_def st1_def)
  then show ?thesis using c by (rule safe_step_core_right)
qed

lemma lookup_or_alloc_inv:
  assumes "cache_inv st" "lookup_or_alloc_block alloc_ok st bnr = Ret (r, st')"
  shows "safe_step st st'" and "r = Inr b \<Longrightarrow> b < next_block st' \<and> bl_bnr (blocks st' b) = bnr"
proof -
  have ht: "ht_ok st" using assms(1) by (simp add: cache_inv_def)
  have *: "safe_step st st' \<and> (r = Inr b \<longrightarrow> b < next_block st' \<and> bl_bnr (blocks st' b) = bnr)"
  proof (cases "map_of (ht st) bnr")
    case (Some x)
    then have r: "r = Inr x" and st': "st' = get_block st x"
      using assms(2) by (simp_all add: lookup_or_alloc_block_def lookup_block_def)
    have "core st' = core st" unfolding st' by (rule core_get_block)
    then show ?thesis
      using r Some ht safe_step_core [OF assms(1), of st'] core_eqD(10,14) [of st' st]
      by (auto simp: ht_ok_def)
  next
    case None
    show ?thesis
    proof (cases alloc_ok)
      case False
      then show ?thesis
        using None assms by (auto simp: lookup_or_alloc_block_def lookup_block_def alloc_block_def intro: safe_step_refl)
    next
      case True
      let ?st1 = "st\<lparr>blocks := (blocks st)(next_block st := new_block bnr),
          next_block := Suc (next_block st), ht := (bnr, next_block st) # ht st\<rparr>"
      have r: "r = Inr (next_block st)" and st': "st' = get_block ?st1 (next_block st)"
        using None True assms(2)
        by (simp_all add: lookup_or_alloc_block_def lookup_block_def alloc_block_def)
      have c: "core st' = core ?st1" unfolding st' by (rule core_get_block)
      have "safe_step st st'"
        using insert_block_inv [OF assms(1) None] c by (rule safe_step_core_right)
      moreover have "next_block st < next_block st' \<and> bl_bnr (blocks st' (next_block st)) = bnr"
        using core_eqD(10,14) [OF c] by (simp add: new_block_def)
      ultimately show ?thesis using r by auto
    qed
  qed
  then show "safe_step st st'" by blast
  show "b < next_block st' \<and> bl_bnr (blocks st' b) = bnr" if "r = Inr b" using * that by blast
qed

lemma core_block_get_finish: "block_get_finish st b = Ret (r, st') \<Longrightarrow> core st' = core st"
  by (auto simp: block_get_finish_def run_simps core_put_block split: if_splits)

lemma block_get_inv:
  assumes inv: "cache_inv st" and g: "ngnfs_block_get alloc_ok st bnr nbf = Ret (r, st')"
  shows "safe_step st st'" and "r = Get_done (Inr b) \<or> r = Get_wait b \<Longrightarrow> b < next_block st' \<and> bl_bnr (blocks st' b) = bnr"
proof -
  have *: "safe_step st st' \<and> (r = Get_done (Inr b) \<or> r = Get_wait b \<longrightarrow> b < next_block st' \<and> bl_bnr (blocks st' b) = bnr)"
  proof (cases "bad_nbf nbf")
    case True
    then show ?thesis using g inv by (auto simp: ngnfs_block_get_def intro: safe_step_refl)
  next
    case False
    then obtain q st1 where l: "lookup_or_alloc_block alloc_ok st bnr = Ret (q, st1)"
      using g by (auto simp: ngnfs_block_get_def run_simps)
    have s1: "safe_step st st1" by (rule lookup_or_alloc_inv [OF inv l])
    show ?thesis
    proof (cases q)
      case (Inl e)
      then show ?thesis using g False l s1 by (auto simp: ngnfs_block_get_def)
    next
      case (Inr x)
      have x: "x < next_block st1" "bl_bnr (blocks st1 x) = bnr" using lookup_or_alloc_inv(2) [OF inv l Inr] by auto
      define st2 where "st2 = (if nbf AND NBF_NEW \<noteq> 0
          then upd_block st1 x (\<lambda>bl. bl\<lparr>bl_page := \<lambda>i. if i < 4096 then 0 else bl_page bl i, BL_UPTODATE := True\<rparr>)
          else st1)"
      have c2: "core st2 = core st1" by (auto simp: st2_def core_def upd_block_def fun_eq_iff)
      have s2: "safe_step st st2" using s1 c2 by (rule safe_step_core_right)
      have x2: "x < next_block st2" "bl_bnr (blocks st2 x) = bnr" using x core_eqD [OF c2] by auto
      have g2: "(if \<not> BL_UPTODATE (blocks st2 x)
              then bind_run
                (if BL_READING (blocks st2 x) then Ret st2
                 else bind_run
                   (llist_add_submit (get_block (upd_block st2 x (\<lambda>bl. bl\<lparr>BL_READING := True\<rparr>)) x) x)
                   (\<lambda>st. Ret (try_queue_submit_work st)))
                (\<lambda>st. Ret (Get_wait x, st))
              else bind_run (block_get_finish st2 x) (\<lambda>(r, st). Ret (Get_done r, st))) = Ret (r, st')"
        using g False l Inr unfolding ngnfs_block_get_def Let_def st2_def
        by (simp only: if_False bind_run.simps prod.case sum.case)
      show ?thesis
      proof (cases "BL_UPTODATE (blocks st2 x)")
        case True
        then obtain q2 where "block_get_finish st2 x = Ret (q2, st')" "r = Get_done q2"
          using g2 by (auto simp: run_simps)
        moreover from this have "q2 = Inr b \<Longrightarrow> b = x" by (auto simp: block_get_finish_def run_simps split: if_splits)
        ultimately show ?thesis
          using s2 x2 core_eqD [OF core_block_get_finish] by (metis core_block_get_finish get_result.distinct(1) get_result.inject(1) safe_step_core_right)
      next
        case False
        show ?thesis
        proof (cases "BL_READING (blocks st2 x)")
          case True
          then show ?thesis using g2 False s2 x2 by auto
        next
          case nr: False
          then obtain st3 where st3: "llist_add_submit (get_block (upd_block st2 x (\<lambda>bl. bl\<lparr>BL_READING := True\<rparr>)) x) x = Ret st3"
              "st' = try_queue_submit_work st3" "r = Get_wait x"
            using g2 False by (auto simp: run_simps)
          have "cache_inv st2" using s2 by (simp add: safe_step_def)
          then have s3: "safe_step st2 st3" using start_read_inv x2(1) nr st3(1) by blast
          have c: "core st' = core st3" unfolding st3 by (rule core_try_queue)
          have "next_block st3 = next_block st2" "bl_bnr (blocks st3 x) = bl_bnr (blocks st2 x)"
            using st3(1) by (auto simp: llist_add_submit_def get_block_def upd_block_def split: if_splits)
          then show ?thesis
            using s2 s3 c x2 st3(3) core_eqD [OF c] by (auto intro: safe_step_trans safe_step_core_right)
        qed
      qed
    qed
  qed
  then show "safe_step st st'" by blast
  show "b < next_block st' \<and> bl_bnr (blocks st' b) = bnr" if "r = Get_done (Inr b) \<or> r = Get_wait b" using * that by blast
qed

subsection \<open>Submission\<close>

lemma transport_count:
  "writes st b = int (count_list (submit_llist st) b) + int (count_list (submit_list st) b) +
     int (length (filter (\<lambda>r. fst (snd r) = bl_bnr (blocks st b)) (in_transport st))) -
     of_bool (BL_READING (blocks st b))"
  by (simp add: writes_def pending_def)

lemma count_list_remove1:
  "x \<in> set xs \<Longrightarrow> count_list (remove1 x xs) y = count_list xs y - (if x = y then 1 else 0)"
proof (induction xs)
  case (Cons a xs)
  then have "x \<in> set xs \<Longrightarrow> 0 < count_list xs x" by (metis count_list_0_iff gr0I)
  with Cons show ?case by auto
qed simp

lemma count_list_rev [simp]: "count_list (rev xs) y = count_list xs y"
  by (induction xs) auto

text \<open>An update that keeps what the parts of the invariant read.\<close>



lemma submit_gather_inv:
  assumes "cache_inv st"
  shows "safe_step st (st\<lparr>submit_list := submit_list st @ rev (submit_llist st), submit_llist := [],
    submit_queued := x\<rparr>)"
    (is "safe_step st ?st'")
proof -
  have w: "writes ?st' b = writes st b" for b by (simp add: transport_count)
  have "io_ok ?st'"
    using inv_member_bound [OF assms] by (intro io_ok_cong [OF cache_invD(4) [OF assms]]) (auto simp: w)
  moreover have "ht_ok ?st'"
  proof -
    have h: "ht_ok st" using assms by (simp add: cache_inv_def)
    then show ?thesis unfolding ht_ok_def by (simp add: Un_commute Int_commute)
  qed
  moreover have "members_ok ?st'" "queue_ok ?st'" "tail_ok ?st'"
    using assms by (simp_all add: cache_inv_def members_ok_def queue_ok_def wb_queue_def tail_ok_def)
  ultimately show ?thesis by (simp add: safe_step_def cache_inv_def keeps_def dirtying_def)
qed

lemma submit_one_inv:
  assumes inv: "cache_inv st" and b: "b \<in> set (submit_list st)"
  shows "safe_step st (st\<lparr>submit_list := remove1 b (submit_list st), nr_submitted := n,
    in_transport := in_transport st @ [(op, bl_bnr (blocks st b), page)]\<rparr>)"
    (is "safe_step st ?st'")
proof -
  have ht: "ht_ok st" using inv by (simp add: cache_inv_def)
  have nb: "b < next_block st" using ht_okD(4) [OF ht b] .
  have pos: "0 < count_list (submit_list st) b" using b by (metis count_list_0_iff gr0I)
  have w: "writes ?st' b' = writes st b'" if "b' < next_block st" for b'
    using ht_ok_bnr_inj [OF ht nb that] pos b
    by (auto simp: transport_count count_list_remove1 of_nat_diff Suc_leI)
  have "io_ok ?st'"
    using inv_member_bound [OF inv] by (intro io_ok_cong [OF cache_invD(4) [OF inv]]) (auto simp: w)
  moreover have "ht_ok ?st'"
  proof -
    have m: "map_of (ht st) (bl_bnr (blocks st b)) = Some b" using nb by (simp add: ht_okD(1) [OF ht])
    have sub: "b' \<in> set (submit_list st)" if "b' \<in> set (remove1 b (submit_list st))" for b'
      using that by (meson notin_set_remove1)
    show ?thesis
    proof (rule ht_okI, goal_cases)
      case (1 bnr b)
      show ?case using ht_okD(1) [OF ht] by simp
    next
      case (2 b s)
      then show ?case using ht_okD(2) [OF ht, of b s] by simp
    next
      case (3 b)
      then show ?case using ht_okD(3) [OF ht, of b] by simp
    next
      case (4 b)
      then show ?case using ht_okD(4) [OF ht, of b] sub [of b] by simp
    next
      case 5
      show ?case using ht_okD(5) [OF ht] by (auto dest: notin_set_remove1)
    next
      case (6 op' bnr page')
      then show ?case using ht_okD(6) [OF ht, of op' bnr page'] m by auto
    qed
  qed
  moreover have "members_ok ?st'" "queue_ok ?st'" "tail_ok ?st'"
    using inv by (simp_all add: cache_inv_def members_ok_def queue_ok_def wb_queue_def tail_ok_def)
  ultimately show ?thesis by (simp add: safe_step_def cache_inv_def keeps_def dirtying_def)
qed

lemma submit_loop_inv:
  assumes "cache_inv st" "submit_loop submit_ret bs space st = Ret st'" "distinct bs"
    "set bs \<subseteq> set (submit_list st)"
  shows "safe_step st st'"
  using assms
proof (induction bs arbitrary: st space)
  case Nil
  then show ?case by (simp add: safe_step_refl)
next
  case (Cons b bs)
  show ?case
  proof (cases "space < 0")
    case True
    then show ?thesis using Cons.prems by (simp add: safe_step_refl)
  next
    case False
    let ?op = "if BL_READING (blocks st b) then NGNFS_BTX_OP_GET_READ else NGNFS_BTX_OP_WRITE"
    let ?st1 = "st\<lparr>submit_list := remove1 b (submit_list st), nr_submitted := nr_submitted st + 1,
      in_transport := in_transport st @ [(?op, bl_bnr (blocks st b), bl_page (blocks st b))]\<rparr>"
    obtain st2 where st2: "put_block ?st1 b = Ret st2" "submit_loop submit_ret bs (space - 1) st2 = Ret st'"
      using Cons.prems(2) False by (simp add: Let_def run_simps split del: if_split) blast
    have s1: "safe_step st ?st1" using Cons.prems by (intro submit_one_inv) auto
    have c: "core st2 = core ?st1" by (rule core_put_block [OF st2(1)])
    have s2: "safe_step st st2" using s1 c by (rule safe_step_core_right)
    have "submit_list st2 = remove1 b (submit_list st)" using core_eqD(6) [OF c] by simp
    then have "set bs \<subseteq> set (submit_list st2)" using Cons.prems(3,4) by (metis distinct.simps(2) in_set_remove1 list.set_intros(2) subset_iff)
    then have "safe_step st2 st'"
      using s2 st2(2) Cons.prems(3) by (intro Cons.IH) (auto simp: safe_step_def)
    with s2 show ?thesis by (rule safe_step_trans)
  qed
qed

lemma fold_Cons_rev: "fold (\<lambda>x ys. x # ys) xs ys = rev xs @ ys"
  by (induction xs arbitrary: ys) auto

lemma submit_work_inv:
  assumes "cache_inv st" "ngnfs_block_submit_work submit_ret st = Ret st'"
  shows "safe_step st st'"
proof -
  let ?st1 = "st\<lparr>submit_list := submit_list st @ rev (submit_llist st), submit_llist := [], submit_queued := False\<rparr>"
  have s1: "safe_step st ?st1" by (rule submit_gather_inv [OF assms(1)])
  have "distinct (submit_llist st @ submit_list st)" using assms(1) by (intro ht_okD(5)) (simp add: cache_inv_def)
  then have d: "distinct (submit_list ?st1)" by auto
  have "submit_loop submit_ret (submit_list ?st1) (queue_depth st - nr_submitted st) ?st1 = Ret st'"
    using assms(2) by (simp add: ngnfs_block_submit_work_def del_all_reverse_add_tail_def fold_Cons_rev Let_def)
  then have "safe_step ?st1 st'"
    using s1 d by (intro submit_loop_inv) (auto simp: safe_step_def)
  with s1 show ?thesis by (rule safe_step_trans)
qed

subsection \<open>IO completion\<close>

lemma filter_remove_first:
  assumes "x \<in> f ` set xs"
  shows "length (filter (\<lambda>r. f r = y) (takeWhile (\<lambda>r. f r \<noteq> x) xs @ tl (dropWhile (\<lambda>r. f r \<noteq> x) xs))) =
    length (filter (\<lambda>r. f r = y) xs) - (if x = y then 1 else 0)"
  using assms by (induction xs) auto

lemma transport_done_subset: "set (in_transport (transport_done st bnr)) \<subseteq> set (in_transport st)"
proof -
  have "set (tl (dropWhile (\<lambda>r. fst (snd r) \<noteq> bnr) (in_transport st))) \<subseteq> set (in_transport st)"
    by (metis list.set_sel(2) set_dropWhileD subsetI tl_Nil)
  then show ?thesis by (auto simp: transport_done_def dest: set_takeWhileD)
qed

lemma writes_transport_done:
  assumes "bnr \<in> (\<lambda>r. fst (snd r)) ` set (in_transport st)"
  shows "writes (transport_done st bnr) b = writes st b - of_bool (bl_bnr (blocks st b) = bnr)"
proof -
  have "0 < length (filter (\<lambda>r. fst (snd r) = bnr) (in_transport st))"
    using assms by (auto simp: filter_empty_conv)
  then show ?thesis
    using filter_remove_first [OF assms, of "bl_bnr (blocks st b)"]
    by (auto simp: transport_count transport_done_def of_nat_diff Suc_leI simp del: filter_append)
qed

lemma ht_ok_update:
  assumes "ht_ok st" "ht st' = ht st" "next_block st' = next_block st"
    "\<And>b. bl_bnr (blocks st' b) = bl_bnr (blocks st b)"
    "\<And>b s. bl_set (blocks st' b) = Some s \<Longrightarrow> b < next_block st"
    "submit_llist st' = submit_llist st" "submit_list st' = submit_list st"
    "set (in_transport st') \<subseteq> set (in_transport st)"
  shows "ht_ok st'"
proof (rule ht_okI, goal_cases)
  case (6 op bnr page)
  then show ?case using ht_okD(6) [OF assms(1), of op bnr page] assms(2,8) by auto
qed (use ht_okD(1-5) [OF assms(1)] assms in simp_all)

lemma end_read_inv:
  assumes inv: "cache_inv st" and t: "bnr \<in> (\<lambda>r. fst (snd r)) ` set (in_transport st)"
    and b: "b < next_block st" "bl_bnr (blocks st b) = bnr" "BL_READING (blocks st b)"
    and c: "core st' = core (upd_block (transport_done st bnr) b (\<lambda>bl. bl\<lparr>BL_READING := False\<rparr>))"
  shows "safe_step st st'"
proof -
  let ?st1 = "upd_block (transport_done st bnr) b (\<lambda>bl. bl\<lparr>BL_READING := False\<rparr>)"
  note ht = cache_invD(3) [OF inv]
  have f: "blocks ?st1 = (blocks st)(b := (blocks st b)\<lparr>BL_READING := False\<rparr>)" "sets ?st1 = sets st"
      "next_set ?st1 = next_set st" "next_block ?st1 = next_block st" "nr_writeback ?st1 = nr_writeback st"
      "ht ?st1 = ht st" "submit_llist ?st1 = submit_llist st" "submit_list ?st1 = submit_list st"
      "in_transport ?st1 = in_transport (transport_done st bnr)"
      "writeback_list ?st1 = writeback_list st" "writeback_llist ?st1 = writeback_llist st"
      "dirty_seq ?st1 = dirty_seq st" "writeback_seq ?st1 = writeback_seq st"
    by (simp_all add: upd_block_def transport_done_def)
  have w: "writes ?st1 b' = writes st b'" if "b' < next_block st" for b'
  proof -
    have "writes ?st1 b' = writes (transport_done st bnr) b' + of_bool (b' = b)"
      using b(3) by (simp add: transport_count upd_block_def transport_done_def)
    moreover have "bl_bnr (blocks st b') = bnr \<longleftrightarrow> b' = b" using ht_ok_bnr_inj [OF ht that b(1)] b(2) by auto
    ultimately show ?thesis using writes_transport_done [OF t, of b'] by simp
  qed
  have "io_ok ?st1"
    using inv_member_bound [OF inv] by (intro io_ok_cong [OF cache_invD(4) [OF inv]]) (auto simp: w f(1-5))
  moreover have "ht_ok ?st1"
    using transport_done_subset ht_okD(2) [OF ht]
    by (intro ht_ok_update [OF ht]) (auto simp: f split: if_splits)
  moreover have "members_ok ?st1" "queue_ok ?st1"
    using cache_invD(1,2) [OF inv] by (simp_all add: members_ok_def queue_ok_def wb_queue_def f)
  moreover have "tail_ok ?st1" using cache_invD(5) [OF inv] by (auto simp: tail_ok_def f)
  ultimately have "safe_step st ?st1" by (simp add: safe_step_def cache_inv_def keeps_def dirtying_def f)
  then show ?thesis using c by (rule safe_step_core_right)
qed

lemma fold_remove1_self: "fold remove1 xs (xs @ ys) = ys"
  by (induction xs) auto

lemma release_blocks_eq:
  "release_blocks st s bs = st\<lparr>
     blocks := (\<lambda>b. if b \<in> set bs then (blocks st b)\<lparr>bl_set := None\<rparr> else blocks st b),
     sets := (sets st)(s := (sets st s)\<lparr>block_list := fold remove1 bs (block_list (sets st s))\<rparr>)\<rparr>"
proof (induction bs arbitrary: st)
  case (Cons b bs)
  then show ?case by (simp add: upd_block_def upd_set_def fun_eq_iff)
qed simp

lemma core_updates:
  "core (st\<lparr>nr_writeback := n\<rparr>) = (core st)\<lparr>nr_writeback := n\<rparr>"
  "core (st\<lparr>nr_dirty := d\<rparr>) = core st"
  "core (upd_set st s (\<lambda>x. x\<lparr>submitted_blocks := submitted_blocks x - 1\<rparr>)) =
     upd_set (core st) s (\<lambda>x. x\<lparr>submitted_blocks := submitted_blocks x - 1\<rparr>)"
  "core (upd_set st s (\<lambda>x. x\<lparr>set_size := k\<rparr>)) = upd_set (core st) s (\<lambda>x. x\<lparr>set_size := k\<rparr>)"
  "core (upd_set st s (\<lambda>x. x\<lparr>SET_WRITEBACK := w\<rparr>)) = upd_set (core st) s (\<lambda>x. x\<lparr>SET_WRITEBACK := w\<rparr>)"
  "core (upd_set st s (\<lambda>x. x\<lparr>SET_DIRTYING := w\<rparr>)) = upd_set (core st) s (\<lambda>x. x\<lparr>SET_DIRTYING := w\<rparr>)"
  by (simp_all add: core_def upd_set_def fun_eq_iff)

lemma core_release_blocks: "core (release_blocks st s bs) = release_blocks (core st) s bs"
  by (auto simp: release_blocks_eq core_def fun_eq_iff)

text \<open>The state in which a block's write has completed, before its set is looked at.\<close>

definition write_done :: "block_info \<Rightarrow> bid \<Rightarrow> sid \<Rightarrow> block_info" where
  "write_done st b s = upd_set ((transport_done st (bl_bnr (blocks st b)))\<lparr>nr_writeback := nr_writeback st - 1\<rparr>)
     s (\<lambda>x. x\<lparr>submitted_blocks := submitted_blocks x - 1\<rparr>)"

lemma write_done_fields [simp]:
  "blocks (write_done st b s) = blocks st" "next_block (write_done st b s) = next_block st"
  "next_set (write_done st b s) = next_set st" "nr_writeback (write_done st b s) = nr_writeback st - 1"
  "ht (write_done st b s) = ht st" "submit_llist (write_done st b s) = submit_llist st"
  "submit_list (write_done st b s) = submit_list st" "writeback_list (write_done st b s) = writeback_list st"
  "writeback_llist (write_done st b s) = writeback_llist st" "dirty_seq (write_done st b s) = dirty_seq st"
  "writeback_seq (write_done st b s) = writeback_seq st"
  "block_list (sets (write_done st b s) s') = block_list (sets st s')"
  "set_size (sets (write_done st b s) s') = set_size (sets st s')"
  "SET_DIRTYING (sets (write_done st b s) s') = SET_DIRTYING (sets st s')"
  "SET_DIRTY (sets (write_done st b s) s') = SET_DIRTY (sets st s')"
  "SET_WRITEBACK (sets (write_done st b s) s') = SET_WRITEBACK (sets st s')"
  "set_dirty_seq (sets (write_done st b s) s') = set_dirty_seq (sets st s')"
  "submitted_blocks (sets (write_done st b s) s') = submitted_blocks (sets st s') - of_bool (s' = s)"
  "in_transport (write_done st b s) = in_transport (transport_done st (bl_bnr (blocks st b)))"
  by (simp_all add: write_done_def upd_set_def transport_done_def)

lemma sum_list_dec:
  assumes "distinct xs"
  shows "(\<Sum>y\<leftarrow>xs. f y - of_bool (y = x)) = (\<Sum>y\<leftarrow>xs. f y) - (of_bool (x \<in> set xs) :: int)"
  using assms by (induction xs) auto

lemma sum_dec:
  fixes n :: nat
  assumes "s < n"
  shows "(\<Sum>t<n. f t - of_bool (t = s)) = (\<Sum>t<n. f t) - (1 :: int)"
proof -
  have "(\<Sum>t<n. of_bool (t = s)) = (\<Sum>t\<in>{s}. 1 :: int)"
    using assms by (intro sum.mono_neutral_cong_right) auto
  then show ?thesis by (simp add: sum_subtractf)
qed

lemma write_done_io:
  assumes inv: "cache_inv st" and t: "bl_bnr (blocks st b) \<in> (\<lambda>r. fst (snd r)) ` set (in_transport st)"
    and b: "b < next_block st" "\<not> BL_READING (blocks st b)" and s: "bl_set (blocks st b) = Some s"
  defines "st1 \<equiv> write_done st b s"
  shows "SET_WRITEBACK (sets st s)" and "s < next_set st" and "b \<in> set (block_list (sets st s))"
    and "\<And>b'. b' < next_block st \<Longrightarrow> writes st1 b' = writes st b' - of_bool (b' = b)"
    and "\<And>s'. submitted_blocks (sets st1 s') = (\<Sum>b\<leftarrow>block_list (sets st s'). writes st1 b)"
    and "nr_writeback st1 = (\<Sum>s<next_set st. submitted_blocks (sets st1 s))"
    and "\<And>b'. b' < next_block st \<Longrightarrow> writes st1 b' = 0 \<or>
        writes st1 b' = 1 \<and> (\<exists>s. bl_set (blocks st b') = Some s \<and> SET_WRITEBACK (sets st s))"
proof -
  note ht = cache_invD(3) [OF inv] and io = cache_invD(4) [OF inv, unfolded io_ok_def]
    and m = cache_invD(1) [OF inv, unfolded members_ok_def]
  have wr: "writes st1 b' = writes (transport_done st (bl_bnr (blocks st b))) b'" for b'
    by (simp add: transport_count st1_def) (simp add: transport_done_def)
  show w: "writes st1 b' = writes st b' - of_bool (b' = b)" if "b' < next_block st" for b'
  proof -
    have "bl_bnr (blocks st b') = bl_bnr (blocks st b) \<longleftrightarrow> b' = b" using ht_ok_bnr_inj [OF ht that b(1)] by auto
    then show ?thesis using writes_transport_done [OF t, of b'] wr by simp
  qed
  have "0 < length (filter (\<lambda>r. fst (snd r) = bl_bnr (blocks st b)) (in_transport st))"
    using t by (force simp: filter_empty_conv)
  moreover have "of_bool (BL_READING (blocks st b)) = (0 :: int)" using b(2) by simp
  ultimately have "0 < writes st b" unfolding transport_count by linarith
  then show wb: "SET_WRITEBACK (sets st s)" using io b(1) s by force
  show sl: "s < next_set st" using wb m by (meson not_le)
  show bm: "b \<in> set (block_list (sets st s))" using m s by blast
  have other: "b \<notin> set (block_list (sets st s'))" if "s' \<noteq> s" for s' using m s that by (metis option.inject)
  show "submitted_blocks (sets st1 s') = (\<Sum>b\<leftarrow>block_list (sets st s'). writes st1 b)" for s'
  proof -
    have "(\<Sum>b\<leftarrow>block_list (sets st s'). writes st1 b) =
        (\<Sum>b'\<leftarrow>block_list (sets st s'). writes st b' - of_bool (b' = b))"
      using inv_member_bound [OF inv] w by (intro arg_cong [of _ _ sum_list] map_cong) auto
    also have "\<dots> = (\<Sum>b'\<leftarrow>block_list (sets st s'). writes st b') - of_bool (s' = s)"
      using m bm other [of s'] by (subst sum_list_dec) auto
    finally show ?thesis using io by (simp add: st1_def)
  qed
  show "nr_writeback st1 = (\<Sum>s<next_set st. submitted_blocks (sets st1 s))"
    using io sum_dec [OF sl, of "\<lambda>s. submitted_blocks (sets st s)"] by (simp add: st1_def)
  show "writes st1 b' = 0 \<or> writes st1 b' = 1 \<and>
      (\<exists>s. bl_set (blocks st b') = Some s \<and> SET_WRITEBACK (sets st s))" if "b' < next_block st" for b'
    using w [OF that] io that \<open>0 < writes st b\<close> by (cases "b' = b") auto
qed

lemma end_write_inv:
  assumes inv: "cache_inv st" and t: "bl_bnr (blocks st b) \<in> (\<lambda>r. fst (snd r)) ` set (in_transport st)"
    and b: "b < next_block st" "\<not> BL_READING (blocks st b)"
    and c: "core st1 = core (transport_done st (bl_bnr (blocks st b)))"
    and e: "end_write_io st1 b = Ret st'"
  shows "safe_step st st'"
proof -
  from core_eqD(12) [OF c] obtain s where s1: "bl_set (blocks st1 b) = Some s" and s: "bl_set (blocks st b) = Some s"
    using e by (cases "bl_set (blocks st1 b)") (auto simp: end_write_io_def transport_done_def)
  define st2 where "st2 = write_done st b s"
  define st3 where "st3 = upd_set (try_queue_writeback_work (st1\<lparr>nr_writeback := nr_writeback st1 - 1\<rparr>)) s
      (\<lambda>x. x\<lparr>submitted_blocks := submitted_blocks x - 1\<rparr>)"
  have c3: "core st3 = core st2"
    unfolding st3_def st2_def write_done_def core_updates core_try_queue c
    using core_eqD(2) [OF c] by (simp add: core_def transport_done_def)
  note f = write_done_io [OF inv t b s, folded st2_def]
  note ht = cache_invD(3) [OF inv] and io = cache_invD(4) [OF inv]
    and m = cache_invD(1) [OF inv] and q = cache_invD(2) [OF inv]
  have h2: "ht_ok st2"
    using transport_done_subset [of st] ht_okD(2) [OF ht] by (intro ht_ok_update [OF ht]) (auto simp: st2_def)
  show ?thesis
  proof (cases "0 < submitted_blocks (sets st2 s)")
    case True
    then have "st' = st3"
      using e s1 core_eqD(15) [OF c3, of s] by (auto simp: end_write_io_def Let_def st3_def run_simps split: if_splits)
    have "io_ok st2"
    proof (rule io_okI)
      show "0 < submitted_blocks (sets st2 s')" if "SET_WRITEBACK (sets st2 s')" "block_list (sets st2 s') \<noteq> []" for s'
        using True io_okD(3) [OF io, of s'] that by (cases "s' = s") (auto simp: st2_def)
    qed (use f(5-7) in \<open>simp_all add: st2_def\<close>)
    moreover have "members_ok st2"
      using m f(2) unfolding members_ok_def by (simp add: st2_def)
    moreover have "queue_ok st2" "tail_ok st2"
      using q cache_invD(5) [OF inv] by (simp_all add: queue_ok_def wb_queue_def tail_ok_def st2_def)
    ultimately have "safe_step st st2" using h2 by (simp add: safe_step_def cache_inv_def keeps_def dirtying_def st2_def)
    then show ?thesis using c3 \<open>st' = st3\<close> safe_step_core_right by blast
  next
    case False
    define st4 where "st4 = st2\<lparr>blocks := (\<lambda>b. if bl_set (blocks st b) = Some s then (blocks st b)\<lparr>bl_set := None\<rparr> else blocks st b),
        sets := (sets st2)(s := (sets st2 s)\<lparr>set_size := 0, block_list := [], SET_WRITEBACK := False\<rparr>)\<rparr>"
    define st5 where "st5 = upd_set (release_blocks (upd_set (st2\<lparr>nr_dirty := 0\<rparr>) s (\<lambda>x. x\<lparr>set_size := 0\<rparr>)) s
        (block_list (sets st s))) s (\<lambda>x. x\<lparr>SET_WRITEBACK := False\<rparr>)"
    have ls: "block_list (sets st3 s) = block_list (sets st s)"
      using core_eqD(16) [OF c3, of s] by (simp add: st2_def)
    have "core st' = core st5"
    proof -
      let ?st = "upd_set (st3\<lparr>nr_dirty := nr_dirty st3 - int (set_size (sets st3 s))\<rparr>) s (\<lambda>x. x\<lparr>set_size := 0\<rparr>)"
      have "put_set (upd_set (release_blocks ?st s (block_list (sets ?st s))) s (\<lambda>x. x\<lparr>SET_WRITEBACK := False\<rparr>)) (Some s) = Ret st'"
        using e s1 False core_eqD(15) [OF c3, of s]
        by (auto simp: end_write_io_def Let_def st3_def run_simps split: if_splits)
      moreover have "block_list (sets ?st s) = block_list (sets st s)" using ls by (simp add: upd_set_def)
      ultimately show ?thesis
        using core_put_set [of _ "Some s" st'] by (simp add: core_updates core_release_blocks c3 st5_def)
    qed
    moreover have "core st5 = core st4"
    proof -
      have "fold remove1 (block_list (sets st s)) (block_list (sets st s)) = []"
        using fold_remove1_self [of "block_list (sets st s)" "[]"] by simp
      then show ?thesis
        using members_okD(1) [OF m, of _ s]
        by (simp add: st5_def st4_def release_blocks_eq upd_set_def core_def st2_def cong: if_cong)
    qed
    ultimately have c4: "core st' = core st4" by simp
    have f4: "next_block st4 = next_block st" "next_set st4 = next_set st" "wb_queue st4 = wb_queue st"
        "bl_bnr (blocks st4 b) = bl_bnr (blocks st b)" "BL_READING (blocks st4 b) = BL_READING (blocks st b)"
        "bl_set (blocks st4 b) = (if bl_set (blocks st b) = Some s then None else bl_set (blocks st b))"
        "block_list (sets st4 t) = (if t = s then [] else block_list (sets st t))"
        "set_size (sets st4 t) = (if t = s then 0 else set_size (sets st t))"
        "SET_WRITEBACK (sets st4 t) = (t \<noteq> s \<and> SET_WRITEBACK (sets st t))"
        "SET_DIRTYING (sets st4 t) = SET_DIRTYING (sets st t)" "SET_DIRTY (sets st4 t) = SET_DIRTY (sets st t)"
        "submitted_blocks (sets st4 t) = submitted_blocks (sets st2 t)"
        "set_dirty_seq (sets st4 t) = set_dirty_seq (sets st t)" for b t
      by (simp_all add: st4_def st2_def wb_queue_def)
    have w4: "writes st4 = writes st2" by (simp add: fun_eq_iff transport_count st4_def st2_def)
    have pos: "0 \<le> writes st2 b'" if "b' \<in> set (block_list (sets st t))" for b' t
      using f(7) [OF inv_member_bound [OF inv that]] by auto
    then have "0 \<le> (\<Sum>b\<leftarrow>block_list (sets st s). writes st2 b)"
      by (intro sum_list_nonneg) auto
    then have z: "submitted_blocks (sets st2 s) = 0" using False f(5) [of s] by simp
    have "\<forall>x\<in>set (map (writes st2) (block_list (sets st s))). x = 0"
      using z f(5) [of s] pos by (subst sum_list_nonneg_eq_0_iff [symmetric]) auto
    then have zero: "writes st2 b' = 0" if "bl_set (blocks st b') = Some s" for b'
      using that members_okD(1) [OF m] by auto
    have "io_ok st4"
    proof (rule io_okI, goal_cases)
      case (1 b')
      then show ?case using f(7) [of b'] zero [of b'] unfolding w4 f4 by (auto split: if_splits)
    next
      case (2 t)
      then show ?case using f(5) [of t] z unfolding w4 f4 by (cases "t = s") auto
    next
      case (3 t)
      then show ?case using io_okD(3) [OF io, of t] unfolding f4 by (auto simp: st2_def)
    next
      case 4
      then show ?case using f(6) unfolding f4 by (simp add: st4_def)
    qed
    moreover have "members_ok st4"
    proof (rule members_okI, goal_cases)
      case (1 b t)
      show ?case using members_okD(1) [OF m, of b t] members_okD(1) [OF m, of b s] unfolding f4 by auto
    next
      case (4 t)
      then show ?case using members_okD(4) [OF m, of t] f(2) unfolding f4 by (simp add: st2_def)
    qed (use members_okD(2,3) [OF m] in \<open>simp_all add: f4\<close>)
    moreover have "queue_ok st4"
    proof (rule queue_okI, goal_cases)
      case 1
      show ?case using queue_okD(1) [OF q] unfolding f4 by (simp add: st4_def st2_def)
    next
      case (2 t)
      then show ?case using queue_okD(2,3) [OF q, of t] unfolding f4 by simp
    next
      case (3 t)
      then show ?case using queue_okD(4) [OF q, of t] unfolding f4 by (auto split: if_splits)
    next
      case (4 t)
      then show ?case using queue_okD(5) [OF q, of t] unfolding f4 by simp
    next
      case (5 t)
      then show ?case using queue_okD(6) [OF q, of t] unfolding f4 by (simp split: if_splits)
    next
      case 6
      show ?case using queue_okD(7) [OF q] by (simp add: st4_def st2_def)
    qed
    moreover have "BL_DIRTY (blocks st4 b) = BL_DIRTY (blocks st b)" for b by (simp add: st4_def)
    moreover from this have "tail_ok st4" using cache_invD(5) [OF inv] by (simp add: tail_ok_def f4)
    moreover have "ht_ok st4"
      using ht_okD(2) [OF h2] by (intro ht_ok_update [OF h2]) (auto simp: st4_def st2_def split: if_splits)
    moreover have "\<not> SET_DIRTYING (sets st s)" using queue_okD(5) [OF q, of s] f(1) by simp
    ultimately have "safe_step st st4"
      by (auto simp: safe_step_def cache_inv_def keeps_def dirtying_def f4)
    then show ?thesis using c4 by (rule safe_step_core_right)
  qed
qed

text \<open>The pieces of a completion: finding the block, recording an error, ending the read or the write.\<close>

definition end_io_found :: "block_info \<Rightarrow> u64 \<Rightarrow> int \<Rightarrow> bid \<Rightarrow> block_info" where
  "end_io_found st bnr err b =
     (let st = get_block (transport_done st bnr) b
      in if err < 0 then sync_waiters_set_error (upd_block st b (\<lambda>bl. bl\<lparr>BL_ERROR := True, bl_error := err\<rparr>)) else st)"

lemma end_io_eq:
  assumes "map_of (ht st) bnr = Some b"
  shows "ngnfs_block_end_io st bnr data_page err =
    bind_run (if BL_READING (blocks (end_io_found st bnr err b) b) then Ret (end_read_io (end_io_found st bnr err b) b data_page)
              else end_write_io (end_io_found st bnr err b) b) (\<lambda>st. put_block st b)"
proof -
  have "map_of (ht (transport_done st bnr)) bnr = Some b" using assms by (simp add: transport_done_def)
  then show ?thesis
    unfolding ngnfs_block_end_io_def lookup_block_def end_io_found_def Let_def by (simp only: option.case prod.case)
qed

lemma end_io_split:
  assumes "ngnfs_block_end_io st bnr data_page err = Ret st'"
  obtains b st1 where "map_of (ht st) bnr = Some b"
    "(if BL_READING (blocks (end_io_found st bnr err b) b) then Ret (end_read_io (end_io_found st bnr err b) b data_page)
      else end_write_io (end_io_found st bnr err b) b) = Ret st1"
    "put_block st1 b = Ret st'"
proof -
  obtain b where b: "map_of (ht st) bnr = Some b"
    using assms by (cases "map_of (ht st) bnr") (auto simp: ngnfs_block_end_io_def lookup_block_def transport_done_def)
  show thesis
    using assms that [OF b] unfolding end_io_eq [OF b] bind_run_Ret_iff by blast
qed

lemma core_end_io_found: "core (end_io_found st bnr err b) = core (transport_done st bnr)"
proof -
  have "core (upd_block st b (\<lambda>bl. bl\<lparr>BL_ERROR := True, bl_error := err\<rparr>)) = core st" for st
    by (simp add: core_def upd_block_def fun_eq_iff)
  then show ?thesis by (simp add: end_io_found_def Let_def core_sync core_get_block)
qed

lemma end_io_inv:
  assumes inv: "cache_inv st" and t: "bnr \<in> (\<lambda>r. fst (snd r)) ` set (in_transport st)"
    and e: "ngnfs_block_end_io st bnr data_page err = Ret st'"
  shows "safe_step st st'"
proof -
  obtain b st3 where b: "map_of (ht st) bnr = Some b"
      and st3: "(if BL_READING (blocks (end_io_found st bnr err b) b) then Ret (end_read_io (end_io_found st bnr err b) b data_page)
        else end_write_io (end_io_found st bnr err b) b) = Ret st3" "put_block st3 b = Ret st'"
    using e by (rule end_io_split)
  define st2 where "st2 = end_io_found st bnr err b"
  have b': "b < next_block st" "bl_bnr (blocks st b) = bnr" using b ht_okD(1) [OF cache_invD(3) [OF inv]] by auto
  have c2: "core st2 = core (transport_done st bnr)" unfolding st2_def by (rule core_end_io_found)
  have rd: "BL_READING (blocks st2 b) = BL_READING (blocks st b)"
    using core_eqD(13) [OF c2, of b] by (simp add: transport_done_def)
  have "safe_step st st3"
  proof (cases "BL_READING (blocks st b)")
    case True
    then have "st3 = end_read_io st2 b data_page" using st3(1) rd by (simp add: st2_def)
    then have "core st3 = (core st2)\<lparr>blocks := (blocks (core st2))(b := (blocks (core st2) b)\<lparr>BL_READING := False\<rparr>)\<rparr>"
      by (auto simp: end_read_io_def Let_def core_def upd_block_def fun_eq_iff split: option.splits)
    also have "\<dots> = core (upd_block (transport_done st bnr) b (\<lambda>bl. bl\<lparr>BL_READING := False\<rparr>))"
      unfolding c2 by (auto simp: core_def upd_block_def fun_eq_iff)
    finally show ?thesis using end_read_inv [OF inv t b'] True by blast
  next
    case False
    then have "end_write_io st2 b = Ret st3" using st3(1) rd by (simp add: st2_def)
    with False show ?thesis using end_write_inv [OF inv _ b'(1), of st2 st3] t c2 b'(2) by simp
  qed
  then show ?thesis using core_put_block [OF st3(2)] by (rule safe_step_core_right)
qed

subsection \<open>Writeback\<close>

lemma queue_set_blocks_core:
  assumes "queue_set_blocks bs st = Ret st'" "distinct bs"
  shows "core st' = (core st)\<lparr>submit_llist := rev bs @ submit_llist st\<rparr> \<and>
    set bs \<inter> (set (submit_llist st) \<union> set (submit_list st)) = {}"
  using assms
proof (induction bs arbitrary: st)
  case Nil
  then show ?case by (simp add: core_def)
next
  case (Cons b bs)
  obtain st1 where st1: "llist_add_submit (get_block st b) b = Ret st1" "queue_set_blocks bs st1 = Ret st'"
    using Cons.prems by (auto simp: run_simps)
  have l: "submit_llist st1 = b # submit_llist st" "submit_list st1 = submit_list st"
      "b \<notin> set (submit_llist st)" "b \<notin> set (submit_list st)"
      "core st1 = (core st)\<lparr>submit_llist := b # submit_llist st\<rparr>"
    using st1(1) by (auto simp: llist_add_submit_def get_block_def upd_block_def core_def fun_eq_iff split: if_splits)
  show ?case using Cons.IH [OF st1(2)] Cons.prems(2) l by auto
qed

text \<open>A set enters writeback: what changes in the parts the invariant reads.\<close>

definition wb_started :: "block_info \<Rightarrow> sid \<Rightarrow> block_info" where
  "wb_started st s = st\<lparr>writeback_list := remove1 s (writeback_list st),
     nr_writeback := nr_writeback st + int (set_size (sets st s)),
     sets := (sets st)(s := (sets st s)\<lparr>SET_WRITEBACK := True,
       submitted_blocks := submitted_blocks (sets st s) + int (set_size (sets st s))\<rparr>),
     submit_llist := rev (block_list (sets st s)) @ submit_llist st,
     writeback_seq := writeback_seq st + 1\<rparr>"

lemma writeback_set_core:
  assumes m: "members_ok st" and r: "writeback_set s (upd_set st s (\<lambda>x. x\<lparr>SET_WRITEBACK := True\<rparr>)) = Ret st'"
  shows "core st' = core (wb_started st s)"
    and "set (block_list (sets st s)) \<inter> (set (submit_llist st) \<union> set (submit_list st)) = {}"
proof -
  note sz = members_okD(3) [OF m, of s] and d = members_okD(2) [OF m, of s]
  let ?st0 = "(upd_set st s (\<lambda>x. x\<lparr>SET_WRITEBACK := True\<rparr>))\<lparr>writeback_list := remove1 s (writeback_list st)\<rparr>"
  let ?st1 = "get_set (upd_set (?st0\<lparr>nr_writeback := nr_writeback st + int (set_size (sets st s))\<rparr>) s
      (\<lambda>x. x\<lparr>submitted_blocks := submitted_blocks x + int (set_size x)\<rparr>)) s"
  have *: "core st' = core (wb_started st s) \<and>
      set (block_list (sets st s)) \<inter> (set (submit_llist st) \<union> set (submit_list st)) = {}"
  proof (cases "set_size (sets st s) = 0")
    case True
    then have e: "block_list (sets st s) = []" using sz by simp
    have "put_set (?st0\<lparr>writeback_seq := writeback_seq st + 1\<rparr>) (Some s) = Ret st'"
      using r True by (simp add: writeback_set_def Let_def upd_set_def)
    from core_put_set [OF this] show ?thesis
      using True e by (simp add: wb_started_def core_def upd_set_def fun_eq_iff)
  next
    case False
    have bl: "block_list (sets ?st1 s) = block_list (sets st s)" by (simp add: get_set_def upd_set_def)
    obtain st2 where st2: "queue_set_blocks (block_list (sets st s)) ?st1 = Ret st2"
        "put_set ((try_queue_submit_work st2)\<lparr>writeback_seq := writeback_seq (try_queue_submit_work st2) + 1\<rparr>) (Some s) = Ret st'"
      using r False bl by (auto simp: writeback_set_def Let_def run_simps upd_set_def)
    note q = queue_set_blocks_core [OF st2(1) d, THEN conjunct1] queue_set_blocks_core [OF st2(1) d, THEN conjunct2]
    have c: "core (try_queue_submit_work st2) = core st2" by (rule core_try_queue)
    have ws: "writeback_seq (try_queue_submit_work st2) = writeback_seq st"
      using core_eqD(4) [OF c] arg_cong [OF q(1), of writeback_seq]
      by (simp add: core_def get_set_def upd_set_def)
    have "core st' = (core (try_queue_submit_work st2))\<lparr>writeback_seq := writeback_seq st + 1\<rparr>"
      using core_put_set [OF st2(2)] ws by (simp add: core_def)
    also have "\<dots> = core (wb_started st s)"
      unfolding c q(1)
      by (simp add: core_def wb_started_def get_set_def upd_set_def fun_eq_iff)
    finally show ?thesis using q(2) by (simp add: get_set_def upd_set_def)
  qed
  then show "core st' = core (wb_started st s)"
    and "set (block_list (sets st s)) \<inter> (set (submit_llist st) \<union> set (submit_list st)) = {}" by blast+
qed

end
