(* ===== verification/Block_Writeback.thy ===== *)
theory Block_Writeback
  imports Block_Inv
begin

text \<open>
  The writeback work keeps the invariant of the block cache: sets leave the queue
  in the order of their sequence numbers and their blocks are queued for writing.
\<close>

lemma wb_started_fields [simp]:
  "blocks (wb_started st s) = blocks st" "next_block (wb_started st s) = next_block st"
  "next_set (wb_started st s) = next_set st" "ht (wb_started st s) = ht st"
  "in_transport (wb_started st s) = in_transport st" "submit_list (wb_started st s) = submit_list st"
  "submit_llist (wb_started st s) = rev (block_list (sets st s)) @ submit_llist st"
  "dirty_seq (wb_started st s) = dirty_seq st" "writeback_seq (wb_started st s) = Suc (writeback_seq st)"
  "writeback_llist (wb_started st s) = writeback_llist st"
  "writeback_list (wb_started st s) = remove1 s (writeback_list st)"
  "nr_writeback (wb_started st s) = nr_writeback st + int (set_size (sets st s))"
  "block_list (sets (wb_started st s) t) = block_list (sets st t)"
  "set_size (sets (wb_started st s) t) = set_size (sets st t)"
  "SET_DIRTYING (sets (wb_started st s) t) = SET_DIRTYING (sets st t)"
  "SET_DIRTY (sets (wb_started st s) t) = SET_DIRTY (sets st t)"
  "set_dirty_seq (sets (wb_started st s) t) = set_dirty_seq (sets st t)"
  "SET_WRITEBACK (sets (wb_started st s) t) = (t = s \<or> SET_WRITEBACK (sets st t))"
  "submitted_blocks (sets (wb_started st s) t) =
     submitted_blocks (sets st t) + (if t = s then int (set_size (sets st s)) else 0)"
  by (simp_all add: wb_started_def)

lemma count_list_distinct: "distinct xs \<Longrightarrow> count_list xs x = of_bool (x \<in> set xs)"
  by (induction xs) auto

lemma writes_wb_started:
  assumes "members_ok st"
  shows "writes (wb_started st s) b = writes st b + of_bool (bl_set (blocks st b) = Some s)"
  using count_list_distinct [OF members_okD(2) [OF assms, of s], of b] members_okD(1) [OF assms, of b s]
  by (simp add: transport_count count_list_append)

lemma wb_started_inv:
  assumes inv: "cache_inv st" and l: "writeback_list st = s # ss"
    and s: "\<not> SET_DIRTYING (sets st s)"
    and d: "set (block_list (sets st s)) \<inter> (set (submit_llist st) \<union> set (submit_list st)) = {}"
  shows "safe_step st (wb_started st s)"
proof -
  note m = cache_invD(1) [OF inv] and q = cache_invD(2) [OF inv] and ht = cache_invD(3) [OF inv]
    and io = cache_invD(4) [OF inv] and w = writes_wb_started [OF cache_invD(1) [OF inv], of s]
  have sq: "wb_queue st = s # wb_queue (wb_started st s)" using l by (simp add: wb_queue_def)
  have ns: "s < next_set st" "\<not> SET_WRITEBACK (sets st s)" using queue_okD(2,3) [OF q, of s] sq by auto
  have seqs: "set_dirty_seq (sets st s) # map (\<lambda>t. set_dirty_seq (sets st t)) (wb_queue (wb_started st s)) =
      [Suc (writeback_seq st)..<Suc (dirty_seq st)]"
    using queue_okD(1) [OF q] sq by simp
  then have seqs': "map (\<lambda>t. set_dirty_seq (sets st t)) (wb_queue (wb_started st s)) =
      [Suc (Suc (writeback_seq st))..<Suc (dirty_seq st)]"
    by (metis list.inject list.discI upt_conv_Cons upt_conv_Nil not_less)
  have dist: "distinct (wb_queue st)"
    using queue_okD(1) [OF q] by (metis distinct_map distinct_upt)
  have w0: "writes st b = 0" if "bl_set (blocks st b) = Some s" for b
    using io_okD(1) [OF io ht_okD(2) [OF ht that]] that ns(2) by auto
  have members: "b \<in> set (block_list (sets st t)) \<longleftrightarrow> bl_set (blocks st b) = Some t" for b t
    using members_okD(1) [OF m] by simp
  have "io_ok (wb_started st s)"
  proof (rule io_okI, goal_cases)
    case (1 b)
    then show ?case using io_okD(1) [OF io, of b] w0 [of b] ns(2) by (auto simp: w)
  next
    case (2 t)
    have "(\<Sum>b\<leftarrow>block_list (sets st t). writes (wb_started st s) b) =
        (\<Sum>b\<leftarrow>block_list (sets st t). writes st b + of_bool (t = s))"
      by (intro arg_cong [of _ _ sum_list] map_cong) (auto simp: w members)
    also have "\<dots> = (\<Sum>b\<leftarrow>block_list (sets st t). writes st b) + (if t = s then int (length (block_list (sets st t))) else 0)"
      by (simp add: sum_list_addf sum_list_triv)
    finally show ?case using io_okD(2) [OF io, of t] members_okD(3) [OF m, of t] by auto
  next
    case (3 t)
    have "map (writes st) (block_list (sets st s)) = map (\<lambda>_. 0) (block_list (sets st s))"
      using w0 members by (intro map_cong) auto
    then have "submitted_blocks (sets st s) = 0" using io_okD(2) [OF io, of s] by (simp only: sum_list_0)
    then show ?case using 3 io_okD(3) [OF io, of t] members_okD(3) [OF m, of s] by (auto split: if_splits)
  next
    case 4
    show ?case using io_okD(4) [OF io] ns(1) by (simp add: sum.distrib)
  qed
  moreover have "members_ok (wb_started st s)"
    using m ns(1) unfolding members_ok_def by auto
  moreover have "queue_ok (wb_started st s)"
  proof (rule queue_okI, goal_cases)
    case 1
    show ?case using seqs' by simp
  next
    case (2 t)
    then show ?case using queue_okD(2,3) [OF q, of t] dist sq by auto
  next
    case (3 t)
    then show ?case using queue_okD(4) [OF q, of t] sq by auto
  next
    case (4 t)
    then show ?case using queue_okD(5) [OF q, of t] s by auto
  next
    case (5 t)
    then show ?case using queue_okD(6) [OF q, of t] sq by auto
  next
    case 6
    have "[Suc (writeback_seq st)..<Suc (dirty_seq st)] \<noteq> []" using seqs by (metis list.discI)
    then show ?case by (simp split: if_splits)
  qed
  moreover have "tail_ok (wb_started st s)" using cache_invD(5) [OF inv] by (simp add: tail_ok_def)
  moreover have "ht_ok (wb_started st s)"
  proof (rule ht_okI, goal_cases)
    case 5
    show ?case using ht_okD(5) [OF ht] members_okD(2) [OF m, of s] d by auto
  next
    case (3 b)
    then show ?case using ht_okD(3) [OF ht, of b] inv_member_bound [OF inv, of b s] by auto
  qed (use ht_okD(1,2,4,6) [OF ht] in simp_all)
  ultimately show ?thesis by (simp add: safe_step_def cache_inv_def keeps_def dirtying_def)
qed

lemma writeback_loop_inv:
  assumes "cache_inv st" "writeback_loop ss st = Ret (r, st')" "writeback_list st = ss"
  shows "safe_step st st'"
  using assms
proof (induction ss arbitrary: st)
  case Nil
  then show ?case by (simp add: safe_step_refl)
next
  case (Cons s ss)
  let ?st1 = "upd_set st s (\<lambda>x. x\<lparr>SET_WRITEBACK := True\<rparr>)"
  show ?case
  proof (cases "should_writeback st")
    case False
    then show ?thesis using Cons.prems by (simp add: safe_step_refl)
  next
    case True
    then have nw: "\<not> SET_WRITEBACK (sets st s)" using Cons.prems(2) by (simp add: run_simps)
    have d: "SET_DIRTYING (sets ?st1 s) = SET_DIRTYING (sets st s)" by (simp add: upd_set_def)
    show ?thesis
    proof (cases "SET_DIRTYING (sets st s)")
      case True
      then have "st' = upd_set ?st1 s (\<lambda>x. x\<lparr>SET_WRITEBACK := False\<rparr>)"
        using Cons.prems(2) \<open>should_writeback st\<close> d by (simp add: run_simps Let_def)
      moreover have "(sets st s)\<lparr>SET_WRITEBACK := False\<rparr> = sets st s" using nw by (cases "sets st s") simp
      ultimately have "st' = st" by (simp add: upd_set_def)
      then show ?thesis using Cons.prems(1) by (simp add: safe_step_refl)
    next
      case False
      then obtain st2 where st2: "writeback_set s ?st1 = Ret st2" "writeback_loop ss st2 = Ret (r, st')"
        using Cons.prems(2) \<open>should_writeback st\<close> d by (auto simp: run_simps Let_def)
      note c = writeback_set_core [OF cache_invD(1) [OF Cons.prems(1)] st2(1)]
      have s1: "safe_step st st2"
        using wb_started_inv [OF Cons.prems(1,3) False c(2)] c(1) by (rule safe_step_core_right)
      have "writeback_list st2 = ss" using core_eqD(8) [OF c(1)] Cons.prems(3) by simp
      then have "safe_step st2 st'" using s1 st2(2) by (intro Cons.IH) (auto simp: safe_step_def)
      with s1 show ?thesis by (rule safe_step_trans)
    qed
  qed
qed

lemma writeback_gather_step:
  assumes "cache_inv st"
  shows "safe_step st (st\<lparr>writeback_list := writeback_list st @ rev (writeback_llist st), writeback_llist := [],
    writeback_queued := q\<rparr>)" (is "safe_step st ?st1")
proof -
  have f: "blocks ?st1 = blocks st" "sets ?st1 = sets st" "wb_queue ?st1 = wb_queue st"
    by (simp_all add: wb_queue_def)
  have w: "writes ?st1 = writes st" by (simp add: fun_eq_iff transport_count)
  have "io_ok ?st1"
    using inv_member_bound [OF assms] by (intro io_ok_cong [OF cache_invD(4) [OF assms]]) (auto simp: w)
  moreover have "members_ok ?st1" "queue_ok ?st1" "ht_ok ?st1" "tail_ok ?st1"
    using assms by (simp_all add: cache_inv_def members_ok_def queue_ok_def ht_ok_def tail_ok_def f)
  ultimately show ?thesis by (simp add: safe_step_def cache_inv_def keeps_def dirtying_def)
qed

lemma writeback_work_inv:
  assumes "cache_inv st" "ngnfs_block_writeback_work st = Ret (r, st')"
  shows "safe_step st st'"
proof -
  let ?st1 = "st\<lparr>writeback_list := writeback_list st @ rev (writeback_llist st), writeback_llist := [], writeback_queued := False\<rparr>"
  have s1: "safe_step st ?st1" by (rule writeback_gather_step [OF assms(1)])
  have "writeback_loop (writeback_list ?st1) ?st1 = Ret (r, st')"
    using assms(2) by (simp add: ngnfs_block_writeback_work_def del_all_reverse_add_tail_def fold_Cons_rev Let_def)
  then have "safe_step ?st1 st'" using s1 by (intro writeback_loop_inv) (auto simp: safe_step_def)
  with s1 show ?thesis by (rule safe_step_trans)
qed

lemmas writeback_gather_inv = writeback_gather_step [unfolded safe_step_def, THEN conjunct1]

text \<open>The assertion of the writeback work that a queued set is not being written cannot fail.\<close>

lemma writeback_front_not_writing:
  "cache_inv st \<Longrightarrow> s \<in> set (wb_queue st) \<Longrightarrow> \<not> SET_WRITEBACK (sets st s)"
  using queue_okD(3) cache_invD(2) by blast

end
