(* ===== verification/Block_Walk.thy ===== *)
theory Block_Walk
  imports Block_Cache
begin

text \<open>
  What the walk over the blocks to dirty (\<open>dirty_walk\<close>) keeps.  A property of the cache that every piece
  of the walk keeps, for the blocks the caller may dirty, is kept by the walk and by the operations
  around it; only a walk that succeeds goes on to mark the set dirty, which is the second contract.
\<close>

locale walk_kept =
  fixes ok :: "block_info \<Rightarrow> bool" and may :: "bid \<Rightarrow> bool"
  assumes put: "ok c \<Longrightarrow> put_set c so = Ret c' \<Longrightarrow> ok c'"
    and other: "ok c \<Longrightarrow> may b \<Longrightarrow> get_other_set km c b so = (g, c') \<Longrightarrow> ok c'"
    and taken: "ok c \<Longrightarrow> ok (upd_set c s (\<lambda>x. x\<lparr>SET_DIRTYING := True\<rparr>))"
    and clear: "ok c \<Longrightarrow> ok (clear_set_dirtying c s)"
    and merge: "ok c \<Longrightarrow> ok (merge_sets c small large)"
    and wait: "ok c \<Longrightarrow> ok (sync_up_to_seq c seq)"
    and woken: "ok c \<Longrightarrow> ok (snd (sync_finish c))"
begin

lemma clear_opt: "ok c \<Longrightarrow> ok (clear_set_dirtying_opt c so)"
  by (cases so) (simp_all add: clear_set_dirtying_opt_def clear)

lemma walk_keeps:
  "ok c \<Longrightarrow> \<forall>b\<in>set bs. may b \<Longrightarrow> dirty_walk km bs small large c = Ret (r, small', large', c') \<Longrightarrow> ok c'"
proof (induction bs arbitrary: small large c)
  case (Cons b bs)
  obtain c1 where c1: "put_set c small = Ret c1" using Cons.prems(3) by (auto simp: run_simps)
  obtain g c2 where g: "get_other_set km c1 b large = (g, c2)" by fastforce
  have "ok c1" using Cons.prems(1) c1 by (rule put)
  then have "ok c2" using other [OF _ _ g] Cons.prems(2) by simp
  have IH: "dirty_walk km bs sm lg c = Ret (r, small', large', c') \<Longrightarrow> ok c \<Longrightarrow> ok c'" for sm lg c
    using Cons.IH Cons.prems(2) by simp
  show ?case
    using Cons.prems(3) c1 g \<open>ok c2\<close>
    by (auto simp: Let_def clear clear_opt merge wait taken split: sum.splits option.splits if_splits elim!: IH)
qed simp

text \<open>A restarted walk: its end, and the cache when the walk itself was through.\<close>

lemma restart_walk:
  assumes "ok c" "\<forall>b\<in>set bs. may b" "dirty_restart km bs small large c = Ret (r, c')"
  obtains c1 l sm where "ok c1" "put_set (dirty_large c1 l) sm = Ret c'" "r = Dirty_done 0" | "ok c'"
proof -
  obtain c1 c2 where p: "put_set c small = Ret c1" "put_set c1 large = Ret c2"
    using assms(3) by (auto simp: dirty_restart_def run_simps)
  obtain w sm lg c3 where w: "dirty_walk km bs None None c2 = Ret (w, sm, lg, c3)"
    using assms(3) p by (auto simp: dirty_restart_def run_simps)
  have ok3: "ok c3" using walk_keeps [OF put [OF put [OF assms(1) p(1)] p(2)] assms(2) w] .
  show thesis
  proof (cases "w = Walk_done")
    case True
    then obtain l where "put_set (dirty_large c3 l) sm = Ret c'" "r = Dirty_done 0"
      using assms(3) p w by (auto simp: dirty_restart_def run_simps split: option.splits)
    then show thesis using ok3 that(1) by blast
  next
    case False
    then have "ok c'"
      using assms(3) p w ok3 by (auto simp: dirty_restart_def run_simps intro: put split: walk_result.splits)
    then show thesis by (rule that(2))
  qed
qed

lemma restart_fails_keeps:
  "ok c \<Longrightarrow> \<forall>b\<in>set bs. may b \<Longrightarrow> dirty_restart km bs small large c = Ret (r, c') \<Longrightarrow> r \<noteq> Dirty_done 0 \<Longrightarrow> ok c'"
  by (erule (2) restart_walk) auto

lemma begin_fails_keeps:
  "ok c \<Longrightarrow> \<forall>b\<in>set bs. may b \<Longrightarrow> ngnfs_block_dirty_begin km bs c = Ret (r, c') \<Longrightarrow> r \<noteq> Dirty_done 0 \<Longrightarrow> ok c'"
  by (auto simp: ngnfs_block_dirty_begin_def split: if_splits intro: restart_fails_keeps)

text \<open>Resuming a walk is a restart after the end of the sync it waited for, or fails with the sync.\<close>

lemma resume_restart:
  assumes "ok c" "dirty_resume km bs w small large c = Ret (r, c')"
  obtains c1 where "ok c1" "dirty_restart km bs small large c1 = Ret (r, c')" | "ok c'"
proof -
  obtain ret c1 where f: "sync_finish c = (ret, c1)" by fastforce
  have "ok c1" using woken [OF assms(1)] f by simp
  then show thesis
    using assms f that
    by (auto simp: dirty_resume_def run_simps intro: put split: walk_result.splits if_splits)
qed

lemma resume_fails_keeps:
  "ok c \<Longrightarrow> \<forall>b\<in>set bs. may b \<Longrightarrow> dirty_resume km bs w small large c = Ret (r, c') \<Longrightarrow> r \<noteq> Dirty_done 0 \<Longrightarrow> ok c'"
  by (erule (1) resume_restart) (auto intro: restart_fails_keeps)

end

text \<open>The second contract: marking the set dirty keeps the property too.\<close>

locale walk_large_kept = walk_kept +
  assumes large: "ok c \<Longrightarrow> ok (dirty_large c s)"
begin

lemma restart_keeps:
  "ok c \<Longrightarrow> \<forall>b\<in>set bs. may b \<Longrightarrow> dirty_restart km bs small large c = Ret (r, c') \<Longrightarrow> ok c'"
  by (erule (2) restart_walk) (auto intro: put large)

lemma begin_keeps:
  "ok c \<Longrightarrow> \<forall>b\<in>set bs. may b \<Longrightarrow> ngnfs_block_dirty_begin km bs c = Ret (r, c') \<Longrightarrow> ok c'"
  by (auto simp: ngnfs_block_dirty_begin_def split: if_splits intro: restart_keeps)

lemma resume_keeps:
  "ok c \<Longrightarrow> \<forall>b\<in>set bs. may b \<Longrightarrow> dirty_resume km bs w small large c = Ret (r, c') \<Longrightarrow> ok c'"
  by (erule (1) resume_restart) (auto intro: restart_keeps)

end

end
