(* ===== verification/Block_Dirty.thy ===== *)
theory Block_Dirty
  imports Block_Writeback Block_Walk
begin

text \<open>
  The dirtying of blocks keeps the invariant of the block cache and puts all
  blocks of a caller into one set that nobody else is dirtying or writing.
\<close>

subsection \<open>The updates a walk is made of\<close>

text \<open>What an update of a walk guarantees, \<open>D\<close> being the sets others are dirtying.\<close>

definition walk_step :: "sid set \<Rightarrow> block_info \<Rightarrow> block_info \<Rightarrow> bool" where
  "walk_step D st st' \<longleftrightarrow> cache_inv st' \<and> keeps D st st'"

lemma walk_step_refl: "cache_inv st \<Longrightarrow> walk_step D st st"
  by (simp add: walk_step_def)

lemma walk_step_trans: "walk_step D st st' \<Longrightarrow> walk_step D st' st'' \<Longrightarrow> walk_step D st st''"
  by (auto simp: walk_step_def intro: keeps_trans)

lemma walk_step_core: "cache_inv st \<Longrightarrow> core st' = core st \<Longrightarrow> walk_step D st st'"
  using cache_inv_cong [of st' st] keeps_core [of st' st] by (simp add: walk_step_def)

lemma walk_step_core_right: "walk_step D st st' \<Longrightarrow> core st'' = core st' \<Longrightarrow> walk_step D st st''"
  by (meson walk_step_core walk_step_def walk_step_trans)

lemma not_writing_writes:
  assumes "cache_inv st" "b < next_block st" "\<And>s. bl_set (blocks st b) = Some s \<Longrightarrow> \<not> SET_WRITEBACK (sets st s)"
  shows "writes st b = 0"
  using io_okD(1) [OF cache_invD(4) [OF assms(1)] assms(2)] assms(3) by auto

lemma dirtying_not_writing: "cache_inv st \<Longrightarrow> SET_DIRTYING (sets st s) \<Longrightarrow> \<not> SET_WRITEBACK (sets st s)"
  using queue_okD(5) [OF cache_invD(2)] by blast

lemma dirtying_bound: "cache_inv st \<Longrightarrow> SET_DIRTYING (sets st s) \<Longrightarrow> s < next_set st"
  using members_okD(4) [OF cache_invD(1), of st s] by (meson not_le)

lemma not_writing_submitted:
  assumes "cache_inv st" "\<not> SET_WRITEBACK (sets st s)"
  shows "submitted_blocks (sets st s) = 0"
proof -
  have "map (writes st) (block_list (sets st s)) = map (\<lambda>_. 0) (block_list (sets st s))"
  proof (intro map_cong refl)
    fix b assume b: "b \<in> set (block_list (sets st s))"
    then have "bl_set (blocks st b) = Some s" using members_okD(1) [OF cache_invD(1) [OF assms(1)]] by simp
    then show "writes st b = 0"
      using assms inv_member_bound [OF assms(1) b] by (intro not_writing_writes) auto
  qed
  then show ?thesis using io_okD(2) [OF cache_invD(4) [OF assms(1)], of s] by (simp only: sum_list_0)
qed

text \<open>
  Moving blocks between sets that are not being written, and from no set into
  one, does not touch the counters.
\<close>

lemma io_ok_move:
  assumes inv: "cache_inv st"
    and f: "next_block st' = next_block st" "next_set st \<le> next_set st'" "nr_writeback st' = nr_writeback st"
      "\<And>b. writes st' b = writes st b"
    and sub: "\<And>s. submitted_blocks (sets st' s) = submitted_blocks (sets st s)"
    and wb: "\<And>s. SET_WRITEBACK (sets st' s) = SET_WRITEBACK (sets st s)"
    and lists: "\<And>s. SET_WRITEBACK (sets st s) \<Longrightarrow> block_list (sets st' s) = block_list (sets st s)"
    and bound: "\<And>s b. b \<in> set (block_list (sets st' s)) \<Longrightarrow> b < next_block st"
    and sets: "\<And>b s. bl_set (blocks st' b) = Some s \<longleftrightarrow> b \<in> set (block_list (sets st' s))"
  shows "io_ok st'"
proof -
  note io = cache_invD(4) [OF inv] and m = cache_invD(1) [OF inv]
  have w0: "writes st b = 0" if "b \<in> set (block_list (sets st' s))" "\<not> SET_WRITEBACK (sets st s)" for b s
  proof (rule not_writing_writes [OF inv bound [OF that(1)]])
    fix t assume t: "bl_set (blocks st b) = Some t"
    show "\<not> SET_WRITEBACK (sets st t)"
    proof
      assume w: "SET_WRITEBACK (sets st t)"
      then have "b \<in> set (block_list (sets st' t))" using lists t members_okD(1) [OF m] by simp
      then have "t = s" using that(1) sets by (metis option.inject)
      then show False using w that(2) by simp
    qed
  qed
  show ?thesis
  proof (rule io_okI, goal_cases)
    case (1 b)
    then have "writes st b = 0 \<or> writes st b = 1 \<and> (\<exists>s. bl_set (blocks st b) = Some s \<and> SET_WRITEBACK (sets st s))"
      using io_okD(1) [OF io, of b] f(1) by simp
    then show ?case
      using members_okD(1) [OF m, of b] lists sets [of b] wb f(4) by metis
  next
    case (2 s)
    show ?case
    proof (cases "SET_WRITEBACK (sets st s)")
      case True
      then show ?thesis using io_okD(2) [OF io, of s] sub lists f(4) by simp
    next
      case False
      then have "map (writes st') (block_list (sets st' s)) = map (\<lambda>_. 0) (block_list (sets st' s))"
        using w0 f(4) by (intro map_cong) auto
      then show ?thesis using not_writing_submitted [OF inv False] sub by (simp only: sum_list_0)
    qed
  next
    case (3 s)
    then show ?case using io_okD(3) [OF io, of s] sub lists [of s] wb by auto
  next
    case 4
    have "(\<Sum>s<next_set st'. submitted_blocks (sets st s)) = (\<Sum>s<next_set st. submitted_blocks (sets st s))"
      using f(2) members_okD(4) [OF m] by (intro sum.mono_neutral_right) auto
    then show ?case using io_okD(4) [OF io] f(3) sub by simp
  qed
qed

lemma set_dirtying_step:
  assumes inv: "cache_inv st" and s: "s < next_set st" "\<not> SET_WRITEBACK (sets st s)" "s \<notin> D"
  defines "st' \<equiv> upd_set st s (\<lambda>x. x\<lparr>SET_DIRTYING := True\<rparr>)"
  shows "walk_step D st st'"
proof -
  have f: "blocks st' = blocks st" "block_list (sets st' t) = block_list (sets st t)"
      "set_size (sets st' t) = set_size (sets st t)"
      "submitted_blocks (sets st' t) = submitted_blocks (sets st t)"
      "SET_WRITEBACK (sets st' t) = SET_WRITEBACK (sets st t)" "SET_DIRTY (sets st' t) = SET_DIRTY (sets st t)"
      "SET_DIRTYING (sets st' t) = (t = s \<or> SET_DIRTYING (sets st t))"
      "set_dirty_seq (sets st' t) = set_dirty_seq (sets st t)"
      "next_block st' = next_block st" "next_set st' = next_set st" "wb_queue st' = wb_queue st"
      "nr_writeback st' = nr_writeback st" "writes st' b = writes st b"
      "writeback_seq st' = writeback_seq st" "dirty_seq st' = dirty_seq st" for t b
    by (simp_all add: st'_def upd_set_def transport_count wb_queue_def)
  have "io_ok st'"
    using inv_member_bound [OF inv] members_okD(1) [OF cache_invD(1) [OF inv]]
    by (intro io_ok_move [OF inv]) (auto simp: f)
  moreover have "members_ok st'"
    using cache_invD(1) [OF inv] s(1) unfolding members_ok_def f by auto
  moreover have "queue_ok st'"
    using queue_okD [OF cache_invD(2) [OF inv]] s(2) by (intro queue_okI) (auto simp: f)
  moreover have "ht_ok st'" using cache_invD(3) [OF inv] by (simp add: ht_ok_def st'_def upd_set_def)
  moreover have "tail_ok st'" using cache_invD(5) [OF inv] by (simp add: tail_ok_def f)
  ultimately show ?thesis using s(3) by (auto simp: walk_step_def cache_inv_def keeps_def f)
qed

lemma add_to_set_step:
  assumes inv: "cache_inv st" and b: "b < next_block st" "bl_set (blocks st b) = None"
    and e: "SET_DIRTYING (sets st e)" "block_list (sets st e) \<noteq> []" "e \<notin> D"
  defines "st' \<equiv> upd_set (upd_block st b (\<lambda>bl. bl\<lparr>bl_set := Some e\<rparr>)) e
      (\<lambda>x. x\<lparr>block_list := block_list x @ [b], set_size := set_size x + 1\<rparr>)"
  shows "walk_step D st st'"
proof -
  note m = cache_invD(1) [OF inv] and q = cache_invD(2) [OF inv]
  have f: "bl_set (blocks st' b') = (if b' = b then Some e else bl_set (blocks st b'))"
      "BL_DIRTY (blocks st' b') = BL_DIRTY (blocks st b')" "bl_bnr (blocks st' b') = bl_bnr (blocks st b')"
      "block_list (sets st' s) = (if s = e then block_list (sets st e) @ [b] else block_list (sets st s))"
      "set_size (sets st' s) = (if s = e then set_size (sets st e) + 1 else set_size (sets st s))"
      "submitted_blocks (sets st' s) = submitted_blocks (sets st s)"
      "SET_WRITEBACK (sets st' s) = SET_WRITEBACK (sets st s)" "SET_DIRTY (sets st' s) = SET_DIRTY (sets st s)"
      "SET_DIRTYING (sets st' s) = SET_DIRTYING (sets st s)" "set_dirty_seq (sets st' s) = set_dirty_seq (sets st s)"
      "next_block st' = next_block st" "next_set st' = next_set st" "wb_queue st' = wb_queue st"
      "nr_writeback st' = nr_writeback st" "writes st' b' = writes st b'"
      "writeback_seq st' = writeback_seq st" "dirty_seq st' = dirty_seq st" for b' s
    by (simp_all add: st'_def upd_set_def upd_block_def transport_count wb_queue_def)
  have nb: "b \<notin> set (block_list (sets st s))" for s using members_okD(1) [OF m, of b s] b(2) by simp
  note bd = dirtying_bound [OF inv e(1)] and nw = dirtying_not_writing [OF inv e(1)]
  have "members_ok st'"
  proof (rule members_okI, goal_cases)
    case (1 b' s)
    show ?case using members_okD(1) [OF m, of b' s] nb [of s] unfolding f by auto
  next
    case (4 s)
    then show ?case using members_okD(4) [OF m, of s] bd unfolding f by auto
  qed (use members_okD(2,3) [OF m] nb in \<open>simp_all add: f\<close>)
  moreover from members_okD(1) [OF this] have "io_ok st'"
    using inv_member_bound [OF inv] b(1) nw
    by (intro io_ok_move [OF inv]) (auto simp: f split: if_splits)
  moreover have "queue_ok st'"
    using queue_okD [OF q] e(2) by (intro queue_okI) (auto simp: f split: if_splits)
  moreover have "ht_ok st'"
    using cache_invD(3) [OF inv] b(1) unfolding ht_ok_def by (simp add: st'_def upd_set_def upd_block_def)
  moreover have "tail_ok st'" using cache_invD(5) [OF inv] e(1) by (auto simp: tail_ok_def f)
  ultimately show ?thesis using e(3) by (auto simp: walk_step_def cache_inv_def keeps_def f)
qed

lemma new_set_step:
  fixes junk :: nat
  assumes inv: "cache_inv st" and b: "b < next_block st" "bl_set (blocks st b) = None"
    and e: "D \<subseteq> dirtying st"
  defines "st' \<equiv> upd_set (upd_block (st\<lparr>sets := (sets st)(next_set st := new_set junk b), next_set := Suc (next_set st)\<rparr>)
      b (\<lambda>bl. bl\<lparr>bl_set := Some (next_set st)\<rparr>)) (next_set st) (\<lambda>x. x\<lparr>SET_DIRTYING := True\<rparr>)"
  shows "walk_step D st st'"
proof -
  let ?n = "next_set st"
  note m = cache_invD(1) [OF inv] and q = cache_invD(2) [OF inv]
  note fresh = members_okD(4) [OF m, of ?n, simplified]
  have f: "bl_set (blocks st' b') = (if b' = b then Some ?n else bl_set (blocks st b'))"
      "BL_DIRTY (blocks st' b') = BL_DIRTY (blocks st b')" "bl_bnr (blocks st' b') = bl_bnr (blocks st b')"
      "block_list (sets st' s) = (if s = ?n then [b] else block_list (sets st s))"
      "set_size (sets st' s) = (if s = ?n then 1 else set_size (sets st s))"
      "submitted_blocks (sets st' s) = (if s = ?n then 0 else submitted_blocks (sets st s))"
      "SET_WRITEBACK (sets st' s) = (s \<noteq> ?n \<and> SET_WRITEBACK (sets st s))"
      "SET_DIRTY (sets st' s) = (s \<noteq> ?n \<and> SET_DIRTY (sets st s))"
      "SET_DIRTYING (sets st' s) = (s = ?n \<or> SET_DIRTYING (sets st s))"
      "set_dirty_seq (sets st' s) = (if s = ?n then junk else set_dirty_seq (sets st s))"
      "next_block st' = next_block st" "next_set st' = Suc ?n" "wb_queue st' = wb_queue st"
      "nr_writeback st' = nr_writeback st" "writes st' b' = writes st b'"
      "writeback_seq st' = writeback_seq st" "dirty_seq st' = dirty_seq st" for b' s
    by (simp_all add: st'_def upd_set_def upd_block_def transport_count wb_queue_def new_set_def)
  have nb: "b \<notin> set (block_list (sets st s))" for s using members_okD(1) [OF m, of b s] b(2) by simp
  have nq: "?n \<notin> set (wb_queue st)" using queue_okD(2) [OF q] by blast
  have "members_ok st'"
  proof (rule members_okI, goal_cases)
    case (1 b' s)
    show ?case using members_okD(1) [OF m, of b' s] nb [of s] fresh unfolding f by auto
  next
    case (4 s)
    then show ?case using members_okD(4) [OF m, of s] unfolding f by auto
  qed (use members_okD(2,3) [OF m] in \<open>simp_all add: f\<close>)
  moreover from members_okD(1) [OF this] have "io_ok st'"
    using inv_member_bound [OF inv] b(1) fresh
    by (intro io_ok_move [OF inv]) (auto simp: f split: if_splits)
  moreover have "queue_ok st'"
  proof (rule queue_okI, goal_cases)
    case 1
    have "map (\<lambda>s. set_dirty_seq (sets st' s)) (wb_queue st) = map (\<lambda>s. set_dirty_seq (sets st s)) (wb_queue st)"
      using nq by (intro map_cong) (auto simp: f)
    then show ?case using queue_okD(1) [OF q] by (simp only: f)
  next
    case (2 s)
    then show ?case using queue_okD(2,3) [OF q, of s] unfolding f by auto
  next
    case (3 s)
    then show ?case using queue_okD(4) [OF q, of s] unfolding f by auto
  next
    case (4 s)
    then show ?case using queue_okD(5) [OF q, of s] unfolding f by auto
  next
    case (5 s)
    then show ?case using queue_okD(6) [OF q, of s] nq unfolding f by (auto split: if_splits)
  next
    case 6
    show ?case using queue_okD(7) [OF q] by (simp add: f)
  qed
  moreover have "ht_ok st'"
    using cache_invD(3) [OF inv] b(1) unfolding ht_ok_def by (simp add: st'_def upd_set_def upd_block_def)
  moreover have "tail_ok st'" using cache_invD(5) [OF inv] by (auto simp: tail_ok_def f)
  moreover have "?n \<notin> D" using e fresh by (auto simp: dirtying_def)
  ultimately show ?thesis by (auto simp: walk_step_def cache_inv_def keeps_def f)
qed

subsection \<open>Giving up a set\<close>

text \<open>The blocks that stay: up to the last dirty one.\<close>

definition kept_blocks :: "block_info \<Rightarrow> bid list \<Rightarrow> bid list" where
  "kept_blocks st bs = rev (dropWhile (\<lambda>b. \<not> BL_DIRTY (blocks st b)) (rev bs))"

lemma kept_blocks_prefix: "\<exists>gone. bs = kept_blocks st bs @ gone"
proof -
  have "rev bs = takeWhile (\<lambda>b. \<not> BL_DIRTY (blocks st b)) (rev bs) @ rev (kept_blocks st bs)"
    by (simp add: kept_blocks_def)
  then show ?thesis by (metis rev_append rev_rev_ident)
qed

lemma kept_blocks_last: "kept_blocks st bs \<noteq> [] \<Longrightarrow> BL_DIRTY (blocks st (last (kept_blocks st bs)))"
  using hd_dropWhile [of "\<lambda>b. \<not> BL_DIRTY (blocks st b)" "rev bs"] by (simp add: kept_blocks_def last_rev)

lemma kept_blocks_all: "bs \<noteq> [] \<Longrightarrow> BL_DIRTY (blocks st (last bs)) \<Longrightarrow> kept_blocks st bs = bs"
proof -
  assume a: "bs \<noteq> []" "BL_DIRTY (blocks st (last bs))"
  then obtain ys y where "bs = ys @ [y]" by (metis append_butlast_last_id)
  then show ?thesis using a(2) by (simp add: kept_blocks_def)
qed

lemma drop_clean_eq:
  assumes "block_list (sets st s) = rev bs" "distinct bs" "set_size (sets st s) = length bs"
  shows "drop_clean st s bs = st\<lparr>
     blocks := (\<lambda>b. if b \<in> set bs - set (kept_blocks st (rev bs)) then (blocks st b)\<lparr>bl_set := None\<rparr> else blocks st b),
     sets := (sets st)(s := (sets st s)\<lparr>block_list := kept_blocks st (rev bs), set_size := length (kept_blocks st (rev bs))\<rparr>)\<rparr>"
  using assms
proof (induction bs arbitrary: st)
  case Nil
  then have "(sets st s)\<lparr>block_list := [], set_size := 0\<rparr> = sets st s" by (cases "sets st s") simp
  then show ?case by (simp add: kept_blocks_def)
next
  case (Cons b bs)
  show ?case
  proof (cases "BL_DIRTY (blocks st b)")
    case True
    have "(sets st s)\<lparr>block_list := rev bs @ [b], set_size := Suc (length bs)\<rparr> = sets st s"
      using Cons.prems by (cases "sets st s") simp
    then show ?thesis using True by (simp add: kept_blocks_def)
  next
    case False
    define st1 where "st1 = upd_block
          (upd_set st s (\<lambda>x. x\<lparr>block_list := remove1 b (block_list x), set_size := set_size x - 1\<rparr>)) b
          (\<lambda>bl. bl\<lparr>bl_set := None\<rparr>)"
    have f: "block_list (sets st1 s) = rev bs" "set_size (sets st1 s) = length bs"
      using Cons.prems by (simp_all add: st1_def upd_block_def upd_set_def remove1_append)
    have k: "kept_blocks st1 (rev bs) = kept_blocks st (rev (b # bs))"
    proof -
      have "BL_DIRTY (blocks st1 x) = BL_DIRTY (blocks st x)" for x by (simp add: st1_def upd_block_def upd_set_def)
      then show ?thesis using False by (simp add: kept_blocks_def)
    qed
    have "b \<notin> set (kept_blocks st (rev (b # bs)))"
      unfolding k [symmetric] using Cons.prems(2) by (auto simp: kept_blocks_def dest: set_dropWhileD)
    moreover have "drop_clean st s (b # bs) = drop_clean st1 s bs" using False by (simp add: st1_def)
    ultimately show ?thesis
      using Cons.IH [OF f(1) _ f(2)] Cons.prems(2) k
      by (auto simp: st1_def upd_block_def upd_set_def fun_eq_iff)
  qed
qed

text \<open>The set after \<open>clear_set_dirtying\<close>, in the parts the invariant reads.\<close>

definition given_up :: "block_info \<Rightarrow> sid \<Rightarrow> block_info" where
  "given_up st s = st\<lparr>
     blocks := (\<lambda>b. if b \<in> set (block_list (sets st s)) - set (kept_blocks st (block_list (sets st s)))
        then (blocks st b)\<lparr>bl_set := None\<rparr> else blocks st b),
     sets := (sets st)(s := (sets st s)\<lparr>block_list := kept_blocks st (block_list (sets st s)),
        set_size := length (kept_blocks st (block_list (sets st s))), SET_DIRTYING := False\<rparr>)\<rparr>"

lemma clear_set_dirtying_core:
  assumes "distinct (block_list (sets st s))" "set_size (sets st s) = length (block_list (sets st s))"
  shows "core (clear_set_dirtying st s) = core (given_up st s)"
  using drop_clean_eq [of st s "rev (block_list (sets st s))"] assms
  by (simp add: clear_set_dirtying_def Let_def core_try_queue given_up_def upd_set_def)

lemma given_up_step:
  assumes inv: "cache_inv st" and s: "SET_DIRTYING (sets st s)" "s \<notin> D"
  shows "walk_step D st (given_up st s)"
proof -
  let ?k = "kept_blocks st (block_list (sets st s))"
  define st' where "st' = given_up st s"
  note m = cache_invD(1) [OF inv] and q = cache_invD(2) [OF inv] and ht = cache_invD(3) [OF inv]
  note bd = dirtying_bound [OF inv s(1)] and nw = dirtying_not_writing [OF inv s(1)]
  have f: "bl_set (blocks st' b') = (if b' \<in> set (block_list (sets st s)) - set ?k then None else bl_set (blocks st b'))"
      "BL_DIRTY (blocks st' b') = BL_DIRTY (blocks st b')" "bl_bnr (blocks st' b') = bl_bnr (blocks st b')"
      "block_list (sets st' t) = (if t = s then ?k else block_list (sets st t))"
      "set_size (sets st' t) = (if t = s then length ?k else set_size (sets st t))"
      "submitted_blocks (sets st' t) = submitted_blocks (sets st t)"
      "SET_WRITEBACK (sets st' t) = SET_WRITEBACK (sets st t)" "SET_DIRTY (sets st' t) = SET_DIRTY (sets st t)"
      "SET_DIRTYING (sets st' t) = (t \<noteq> s \<and> SET_DIRTYING (sets st t))"
      "set_dirty_seq (sets st' t) = set_dirty_seq (sets st t)"
      "next_block st' = next_block st" "next_set st' = next_set st" "wb_queue st' = wb_queue st"
      "nr_writeback st' = nr_writeback st" "writes st' b' = writes st b'"
      "writeback_seq st' = writeback_seq st" "dirty_seq st' = dirty_seq st" for b' t
    by (simp_all add: st'_def given_up_def transport_count wb_queue_def)
  obtain gone where g: "block_list (sets st s) = ?k @ gone" using kept_blocks_prefix by blast
  have d: "distinct (?k @ gone)" using members_okD(2) [OF m, of s] g by simp
  have sub: "set ?k \<subseteq> set (block_list (sets st s))" using g by (metis Un_upper1 set_append)
  have ne: "?k \<noteq> [] \<Longrightarrow> block_list (sets st s) \<noteq> []" using sub by auto
  have mem: "b \<in> set (block_list (sets st t)) \<longleftrightarrow> bl_set (blocks st b) = Some t" for b t
    using members_okD(1) [OF m] by simp
  have "members_ok st'"
  proof (rule members_okI, goal_cases)
    case (1 b t)
    show ?case using mem [of b t] mem [of b s] sub unfolding f by auto
  next
    case (2 t)
    show ?case using members_okD(2) [OF m, of t] d unfolding f by simp
  next
    case (3 t)
    show ?case using members_okD(3) [OF m, of t] unfolding f by simp
  next
    case (4 t)
    then show ?case using members_okD(4) [OF m, of t] bd unfolding f by auto
  qed
  moreover from members_okD(1) [OF this] have "io_ok st'"
    using inv_member_bound [OF inv] nw sub
    by (intro io_ok_move [OF inv]) (auto simp: f split: if_splits)
  moreover have "queue_ok st'"
  proof (rule queue_okI, goal_cases)
    case 1
    show ?case using queue_okD(1) [OF q] by (simp only: f)
  next
    case (2 t)
    then show ?case using queue_okD(2,3) [OF q, of t] by (simp add: f)
  next
    case (3 t)
    then show ?case using queue_okD(4) [OF q, of t] ne by (auto simp: f split: if_splits)
  next
    case (4 t)
    then show ?case using queue_okD(5) [OF q, of t] by (auto simp: f)
  next
    case (5 t)
    then show ?case using queue_okD(6) [OF q, of t] ne by (auto simp: f split: if_splits)
  next
    case 6
    show ?case using queue_okD(7) [OF q] by (simp add: f)
  qed
  moreover have "ht_ok st'"
    using ht_okD(2) [OF ht] by (intro ht_ok_update [OF ht]) (auto simp: f, auto simp: st'_def given_up_def split: if_splits)
  moreover have "tail_ok st'"
    using cache_invD(5) [OF inv] kept_blocks_last [of st] by (auto simp: tail_ok_def f)
  ultimately show ?thesis using s(2) unfolding st'_def [symmetric]
    by (auto simp: walk_step_def cache_inv_def keeps_def f)
qed

lemma clear_set_dirtying_step:
  assumes "cache_inv st" "SET_DIRTYING (sets st s)" "s \<notin> D"
  shows "walk_step D st (clear_set_dirtying st s)"
    and "dirtying (clear_set_dirtying st s) = dirtying st - {s}"
proof -
  note m = cache_invD(1) [OF assms(1)]
  have c: "core (clear_set_dirtying st s) = core (given_up st s)"
    using members_okD(2,3) [OF m, of s] by (rule clear_set_dirtying_core)
  show "walk_step D st (clear_set_dirtying st s)"
    using given_up_step [OF assms] c by (rule walk_step_core_right)
  show "dirtying (clear_set_dirtying st s) = dirtying st - {s}"
    unfolding dirtying_core [OF c] by (auto simp: dirtying_def given_up_def)
qed

text \<open>Backing off from a set that is being written leaves it as it was.\<close>

lemma clear_written_set:
  assumes inv: "cache_inv st" and s: "\<not> SET_DIRTYING (sets st s)"
  shows "core (clear_set_dirtying (upd_set st s (\<lambda>x. x\<lparr>SET_DIRTYING := True\<rparr>)) s) = core st"
proof -
  let ?st1 = "upd_set st s (\<lambda>x. x\<lparr>SET_DIRTYING := True\<rparr>)"
  note m = cache_invD(1) [OF inv]
  have k: "kept_blocks ?st1 (block_list (sets st s)) = block_list (sets st s)"
  proof (cases "block_list (sets st s) = []")
    case False
    then show ?thesis
      using kept_blocks_all [OF False, of ?st1] cache_invD(5) [OF inv] s by (simp add: tail_ok_def upd_set_def)
  qed (simp add: kept_blocks_def)
  have "core (clear_set_dirtying ?st1 s) = core (given_up ?st1 s)"
    using members_okD(2,3) [OF m, of s] by (intro clear_set_dirtying_core) (simp_all add: upd_set_def)
  also have "\<dots> = core st"
  proof -
    have "(sets st s)\<lparr>set_size := length (block_list (sets st s)), SET_DIRTYING := False\<rparr> = sets st s"
      using s members_okD(3) [OF m, of s] by (cases "sets st s") simp
    then have "given_up ?st1 s = st"
      unfolding given_up_def using k by (simp add: upd_set_def)
    then show ?thesis by simp
  qed
  finally show ?thesis .
qed

subsection \<open>Merging two sets\<close>

lemma move_to_set_eq:
  "move_to_set st large bs =
     st\<lparr>blocks := (\<lambda>b. if b \<in> set bs then (blocks st b)\<lparr>bl_set := Some large\<rparr> else blocks st b)\<rparr>"
  by (induction bs arbitrary: st) (auto simp: upd_block_def fun_eq_iff)

lemma merge_sets_step:
  assumes inv: "cache_inv st" and s: "SET_DIRTYING (sets st small)" "SET_DIRTYING (sets st large)" "small \<noteq> large"
    and n: "block_list (sets st large) \<noteq> []" and D: "small \<notin> D" "large \<notin> D"
  shows "walk_step D st (merge_sets st small large)"
    and "dirtying (merge_sets st small large) = dirtying st - {small}"
    and "block_list (sets (merge_sets st small large) large) \<noteq> []"
    and "bl_set (blocks st b) \<in> {Some small, Some large} \<Longrightarrow> bl_set (blocks (merge_sets st small large) b) = Some large"
proof -
  let ?L = "block_list (sets st small) @ block_list (sets st large)"
  define st' where "st' = merge_sets st small large"
  note m = cache_invD(1) [OF inv] and q = cache_invD(2) [OF inv] and ht = cache_invD(3) [OF inv]
  have f: "bl_set (blocks st' b') = (if b' \<in> set (block_list (sets st small)) then Some large else bl_set (blocks st b'))"
      "BL_DIRTY (blocks st' b') = BL_DIRTY (blocks st b')" "bl_bnr (blocks st' b') = bl_bnr (blocks st b')"
      "block_list (sets st' t) = (if t = small then [] else if t = large then ?L else block_list (sets st t))"
      "set_size (sets st' t) = (if t = small then 0 else if t = large
         then set_size (sets st large) + set_size (sets st small) else set_size (sets st t))"
      "submitted_blocks (sets st' t) = submitted_blocks (sets st t)"
      "SET_WRITEBACK (sets st' t) = SET_WRITEBACK (sets st t)"
      "SET_DIRTY (sets st' t) = (t \<noteq> small \<and> SET_DIRTY (sets st t))"
      "SET_DIRTYING (sets st' t) = (t \<noteq> small \<and> SET_DIRTYING (sets st t))"
      "set_dirty_seq (sets st' t) = set_dirty_seq (sets st t)"
      "next_block st' = next_block st" "next_set st' = next_set st" "wb_queue st' = wb_queue st"
      "nr_writeback st' = nr_writeback st" "writes st' b' = writes st b'"
      "writeback_seq st' = writeback_seq st" "dirty_seq st' = dirty_seq st" for b' t
    using s(3) by (simp_all add: st'_def merge_sets_def Let_def upd_set_def move_to_set_eq transport_count wb_queue_def)
  have mem: "b \<in> set (block_list (sets st t)) \<longleftrightarrow> bl_set (blocks st b) = Some t" for b t
    using members_okD(1) [OF m] by simp
  note bd = dirtying_bound [OF inv s(1)] dirtying_bound [OF inv s(2)]
    and nw = dirtying_not_writing [OF inv s(1)] dirtying_not_writing [OF inv s(2)]
  have "members_ok st'"
  proof (rule members_okI, goal_cases)
    case (1 b t)
    show ?case using mem [of b t] mem [of b small] s(3) unfolding f by auto
  next
    case (2 t)
    have "set (block_list (sets st small)) \<inter> set (block_list (sets st large)) = {}"
      using mem s(3) by auto
    then show ?case using members_okD(2) [OF m] unfolding f by simp
  next
    case (3 t)
    show ?case using members_okD(3) [OF m] unfolding f by simp
  next
    case (4 t)
    then show ?case using members_okD(4) [OF m, of t] bd unfolding f by auto
  qed
  moreover from members_okD(1) [OF this] have "io_ok st'"
    using inv_member_bound [OF inv] nw
    by (intro io_ok_move [OF inv]) (auto simp: f split: if_splits)
  moreover have "queue_ok st'"
  proof (rule queue_okI, goal_cases)
    case 1
    show ?case using queue_okD(1) [OF q] by (simp only: f)
  next
    case (2 t)
    then show ?case using queue_okD(2,3) [OF q, of t] by (simp add: f)
  next
    case (3 t)
    then show ?case using queue_okD(4) [OF q, of t] n by (auto simp: f split: if_splits)
  next
    case (4 t)
    then show ?case using queue_okD(5) [OF q, of t] by (auto simp: f)
  next
    case (5 t)
    then show ?case using queue_okD(6) [OF q, of t] n by (auto simp: f split: if_splits)
  next
    case 6
    show ?case using queue_okD(7) [OF q] by (simp add: f)
  qed
  moreover have "ht_ok st'"
  proof (rule ht_ok_update [OF ht])
    show "b < next_block st" if "bl_set (blocks st' b) = Some t" for b t
      using that ht_okD(2) [OF ht, of b] inv_member_bound [OF inv, of b small] by (auto simp: f split: if_splits)
  qed (simp_all add: f, simp_all add: st'_def merge_sets_def Let_def upd_set_def move_to_set_eq)
  moreover have "tail_ok st'"
    using cache_invD(5) [OF inv] s n by (auto simp: tail_ok_def f)
  ultimately show "walk_step D st (merge_sets st small large)" using D unfolding st'_def [symmetric]
    by (auto simp: walk_step_def cache_inv_def keeps_def f)
  show "dirtying (merge_sets st small large) = dirtying st - {small}"
    unfolding st'_def [symmetric] by (auto simp: dirtying_def f)
  show "block_list (sets (merge_sets st small large) large) \<noteq> []"
    unfolding st'_def [symmetric] using n s(3) by (simp add: f)
  show "bl_set (blocks (merge_sets st small large) b) = Some large" if "bl_set (blocks st b) \<in> {Some small, Some large}"
    unfolding st'_def [symmetric] using that mem [of b small] by (auto simp: f)
qed

subsection \<open>Marking a set dirty\<close>

lemma mark_dirty_eq:
  "distinct bs \<Longrightarrow> mark_dirty st bs =
     st\<lparr>blocks := (\<lambda>b. if b \<in> set (takeWhile (\<lambda>b. \<not> BL_DIRTY (blocks st b)) bs)
          then (blocks st b)\<lparr>BL_DIRTY := True\<rparr> else blocks st b),
        nr_dirty := nr_dirty st + int (length (takeWhile (\<lambda>b. \<not> BL_DIRTY (blocks st b)) bs))\<rparr>"
proof (induction bs arbitrary: st)
  case (Cons b bs)
  show ?case
  proof (cases "BL_DIRTY (blocks st b)")
    case False
    let ?st1 = "(upd_block st b (\<lambda>bl. bl\<lparr>BL_DIRTY := True\<rparr>))\<lparr>nr_dirty := nr_dirty st + 1\<rparr>"
    have "takeWhile (\<lambda>x. \<not> BL_DIRTY (blocks ?st1 x)) bs = takeWhile (\<lambda>x. \<not> BL_DIRTY (blocks st x)) bs"
      using Cons.prems by (intro takeWhile_cong refl) (auto simp: upd_block_def)
    moreover have "mark_dirty st (b # bs) = mark_dirty ?st1 bs" using False by simp
    moreover have "b \<notin> set (takeWhile P bs)" for P using Cons.prems by (auto dest: set_takeWhileD)
    ultimately show ?thesis
      using Cons.IH [of ?st1] Cons.prems False by (auto simp: upd_block_def fun_eq_iff)
  qed simp
qed simp

lemma dirty_large_step:
  assumes inv: "cache_inv st" and l: "SET_DIRTYING (sets st l)" "l \<notin> D" and n: "block_list (sets st l) \<noteq> []"
  shows "walk_step D st (dirty_large st l)" and "dirtying (dirty_large st l) = dirtying st"
    and "bl_set (blocks (dirty_large st l) b) = bl_set (blocks st b)"
    and "block_list (sets (dirty_large st l) s) = block_list (sets st s)"
    and "BL_DIRTY (blocks (dirty_large st l) (last (block_list (sets st l))))"
    and "SET_DIRTY (sets (dirty_large st l) l)" and "l \<in> set (wb_queue (dirty_large st l))"
proof -
  let ?P = "\<lambda>b. \<not> BL_DIRTY (blocks st b)"
  let ?new = "takeWhile ?P (rev (block_list (sets st l)))"
  define st' where "st' = dirty_large st l"
  note m = cache_invD(1) [OF inv] and q = cache_invD(2) [OF inv] and ht = cache_invD(3) [OF inv]
  define nd where "nd \<longleftrightarrow> \<not> SET_DIRTY (sets st l)"
  have mk: "mark_dirty st (rev (block_list (sets st l))) = st\<lparr>blocks := (\<lambda>b. if b \<in> set ?new
      then (blocks st b)\<lparr>BL_DIRTY := True\<rparr> else blocks st b), nr_dirty := nr_dirty st + int (length ?new)\<rparr>"
    using members_okD(2) [OF m, of l] by (intro mark_dirty_eq) simp
  have f: "bl_set (blocks st' b') = bl_set (blocks st b')" "BL_READING (blocks st' b') = BL_READING (blocks st b')"
      "BL_DIRTY (blocks st' b') = (b' \<in> set ?new \<or> BL_DIRTY (blocks st b'))" "bl_bnr (blocks st' b') = bl_bnr (blocks st b')"
      "block_list (sets st' t) = block_list (sets st t)" "set_size (sets st' t) = set_size (sets st t)"
      "submitted_blocks (sets st' t) = submitted_blocks (sets st t)"
      "SET_WRITEBACK (sets st' t) = SET_WRITEBACK (sets st t)"
      "SET_DIRTY (sets st' t) = (t = l \<or> SET_DIRTY (sets st t))"
      "SET_DIRTYING (sets st' t) = SET_DIRTYING (sets st t)"
      "set_dirty_seq (sets st' t) = (if t = l \<and> nd then dirty_seq st' else set_dirty_seq (sets st t))"
      "next_block st' = next_block st" "next_set st' = next_set st"
      "wb_queue st' = wb_queue st @ (if nd then [l] else [])"
      "nr_writeback st' = nr_writeback st" "writeback_seq st' = writeback_seq st"
      "dirty_seq st' = dirty_seq st + of_bool nd" "ht st' = ht st" "submit_llist st' = submit_llist st"
      "submit_list st' = submit_list st" "in_transport st' = in_transport st" for b' t
    by (auto simp: st'_def dirty_large_def Let_def mk upd_set_def get_set_def try_queue_writeback_work_def
        wb_queue_def nd_def)
  have w: "writes st' b' = writes st b'" for b' by (simp add: transport_count f)
  note bd = dirtying_bound [OF inv l(1)] and nw = dirtying_not_writing [OF inv l(1)]
  have nq: "l \<notin> set (wb_queue st)" if nd using queue_okD(6) [OF q, of l] n that by (auto simp: nd_def)
  have lq: "l \<in> set (wb_queue st)" if "\<not> nd" using queue_okD(4) [OF q, of l] n nw that by (auto simp: nd_def)
  have last: "BL_DIRTY (blocks st' (last (block_list (sets st l))))"
  proof -
    have "rev (block_list (sets st l)) = last (block_list (sets st l)) # tl (rev (block_list (sets st l)))"
      using n by (metis hd_rev list.collapse rev_is_Nil_conv)
    then have "last (block_list (sets st l)) \<in> set ?new" if "?P (last (block_list (sets st l)))"
      using that by (metis list.set_intros(1) takeWhile.simps(2))
    then show ?thesis by (auto simp: f)
  qed
  have "members_ok st'" using m bd unfolding members_ok_def f by auto
  moreover from members_okD(1) [OF this] have "io_ok st'"
    using inv_member_bound [OF inv] by (intro io_ok_move [OF inv]) (auto simp: f w)
  moreover have "queue_ok st'"
  proof (rule queue_okI, goal_cases)
    case 1
    have "map (\<lambda>s. set_dirty_seq (sets st' s)) (wb_queue st) = map (\<lambda>s. set_dirty_seq (sets st s)) (wb_queue st)"
      using nq by (intro map_cong) (auto simp: f)
    then show ?case using queue_okD(1,7) [OF q] by (auto simp: f)
  next
    case (2 t)
    then show ?case using queue_okD(2,3) [OF q, of t] bd nw by (auto simp: f split: if_splits)
  next
    case (3 t)
    then show ?case using queue_okD(4) [OF q, of t] lq by (auto simp: f)
  next
    case (4 t)
    then show ?case using queue_okD(5) [OF q, of t] by (simp add: f)
  next
    case (5 t)
    then show ?case using queue_okD(6) [OF q, of t] by (auto simp: f split: if_splits)
  next
    case 6
    show ?case using queue_okD(7) [OF q] by (simp add: f)
  qed
  moreover have "ht_ok st'"
    using ht_okD(2) [OF ht] by (intro ht_ok_update [OF ht]) (auto simp: f)
  moreover have "tail_ok st'" using cache_invD(5) [OF inv] by (auto simp: tail_ok_def f)
  ultimately show "walk_step D st (dirty_large st l)" unfolding st'_def [symmetric]
    by (auto simp: walk_step_def cache_inv_def keeps_def f)
  show "dirtying (dirty_large st l) = dirtying st" "bl_set (blocks (dirty_large st l) b) = bl_set (blocks st b)"
    "block_list (sets (dirty_large st l) s) = block_list (sets st s)" "SET_DIRTY (sets (dirty_large st l) l)"
    "l \<in> set (wb_queue (dirty_large st l))" "BL_DIRTY (blocks (dirty_large st l) (last (block_list (sets st l))))"
    unfolding st'_def [symmetric] using last lq by (auto simp: dirtying_def f)
qed

subsection \<open>The walk over the caller's blocks\<close>

text \<open>
  After the blocks \<open>seen\<close>, all of them are in the set \<open>large\<close>, and of the sets
  that are being dirtied only that one is the walk's own.
\<close>

definition walk_inv :: "sid set \<Rightarrow> bid list \<Rightarrow> sid option \<Rightarrow> block_info \<Rightarrow> bool" where
  "walk_inv D seen large st \<longleftrightarrow> cache_inv st \<and> dirtying st = D \<union> set_option large \<and>
     (case large of None \<Rightarrow> seen = []
      | Some l \<Rightarrow> l \<notin> D \<and> block_list (sets st l) \<noteq> [] \<and> (\<forall>b\<in>set seen. bl_set (blocks st b) = Some l))"

lemma walk_invD:
  assumes "walk_inv D seen large st"
  shows "cache_inv st" "dirtying st = D \<union> set_option large" "large = None \<Longrightarrow> seen = []"
    "large = Some l \<Longrightarrow> l \<notin> D" "large = Some l \<Longrightarrow> block_list (sets st l) \<noteq> []"
    "large = Some l \<Longrightarrow> b \<in> set seen \<Longrightarrow> bl_set (blocks st b) = Some l"
    "large = Some l \<Longrightarrow> SET_DIRTYING (sets st l)"
  using assms unfolding walk_inv_def dirtying_def by (auto split: option.splits)

lemma walk_inv_core:
  assumes "walk_inv D seen large st" "core st' = core st"
  shows "walk_inv D seen large st'"
  using assms cache_inv_cong [OF assms(2)] dirtying_core [OF assms(2)] core_eqD(12,16) [OF assms(2)]
  unfolding walk_inv_def by (simp split: option.splits)

text \<open>Leaving the walk without success.\<close>

lemma walk_back_off:
  assumes "walk_inv D seen large st"
  shows "walk_step D st (clear_set_dirtying_opt st large)" and "dirtying (clear_set_dirtying_opt st large) = D"
proof -
  have "walk_step D st (clear_set_dirtying_opt st large) \<and> dirtying (clear_set_dirtying_opt st large) = D"
  proof (cases large)
    case None
    then show ?thesis using walk_invD(1,2) [OF assms] by (simp add: clear_set_dirtying_opt_def walk_step_refl)
  next
    case (Some l)
    note w = walk_invD [OF assms]
    show ?thesis
      using clear_set_dirtying_step [OF w(1) w(7) [OF Some] w(4) [OF Some]] w(2) w(4) [OF Some] Some
      by (auto simp: clear_set_dirtying_opt_def)
  qed
  then show "walk_step D st (clear_set_dirtying_opt st large)" "dirtying (clear_set_dirtying_opt st large) = D"
    by blast+
qed

text \<open>The next block is in a set nobody is dirtying or writing.\<close>

lemma walk_take_set:
  assumes w: "walk_inv D seen large st" and b: "bl_set (blocks st b) = Some s"
    and s: "\<not> SET_DIRTYING (sets st s)" "\<not> SET_WRITEBACK (sets st s)"
  defines "st' \<equiv> upd_set st s (\<lambda>x. x\<lparr>SET_DIRTYING := True\<rparr>)"
  shows "walk_step D st st'" and "s \<notin> D" and "dirtying st' = insert s (dirtying st)"
    and "block_list (sets st' s) \<noteq> []" and "large = None \<Longrightarrow> walk_inv D (seen @ [b]) (Some s) st'"
proof -
  note W = walk_invD [OF w]
  have mem: "b \<in> set (block_list (sets st s))" using members_okD(1) [OF cache_invD(1) [OF W(1)], of b s] b by simp
  then have n: "s < next_set st" using members_okD(4) [OF cache_invD(1) [OF W(1)], of s] by (cases "s < next_set st") auto
  show nD: "s \<notin> D" using W(2) s(1) by (auto simp: dirtying_def)
  show step: "walk_step D st st'" unfolding st'_def by (rule set_dirtying_step [OF W(1) n s(2) nD])
  show d: "dirtying st' = insert s (dirtying st)" by (auto simp: dirtying_def st'_def upd_set_def)
  show l: "block_list (sets st' s) \<noteq> []" using mem by (auto simp: st'_def upd_set_def)
  show "walk_inv D (seen @ [b]) (Some s) st'" if "large = None"
    using that W(2,3) step d l nD b by (simp add: walk_inv_def walk_step_def st'_def upd_set_def)
qed

lemma walk_merge:
  assumes w: "walk_inv D seen (Some l) st" and b: "bl_set (blocks st b) = Some s"
    and s: "\<not> SET_DIRTYING (sets st s)" "\<not> SET_WRITEBACK (sets st s)"
    and sl: "(small, large) = (l, s) \<or> (small, large) = (s, l)"
  defines "st' \<equiv> upd_set st s (\<lambda>x. x\<lparr>SET_DIRTYING := True\<rparr>)"
  shows "walk_step D st (merge_sets st' small large)" and "walk_inv D (seen @ [b]) (Some large) (merge_sets st' small large)"
    and "walk_step D st (sync_up_to_seq (clear_set_dirtying (clear_set_dirtying st' small) large) seq)"
    and "dirtying (sync_up_to_seq (clear_set_dirtying (clear_set_dirtying st' small) large) seq) = D"
proof -
  note W = walk_invD [OF w] and T = walk_take_set [OF w b s, folded st'_def]
  have inv: "cache_inv st'" using T(1) by (simp add: walk_step_def)
  have ls: "l \<noteq> s" using W(7) [of l] s(1) by auto
  have f: "SET_DIRTYING (sets st' small)" "SET_DIRTYING (sets st' large)" "small \<noteq> large"
      "block_list (sets st' large) \<noteq> []" "small \<notin> D" "large \<notin> D"
    using sl ls T(2,4) W(4,5,7) [of l] by (auto simp: st'_def upd_set_def)
  note M = merge_sets_step [OF inv f]
  have d: "dirtying st' = D \<union> {small, large}" using T(3) W(2) sl by auto
  show "walk_step D st (merge_sets st' small large)" using T(1) M(1) by (rule walk_step_trans)
  have "bl_set (blocks (merge_sets st' small large) b') = Some large" if "b' \<in> set (seen @ [b])" for b'
    using that W(6) [of l b'] b sl by (intro M(4)) (auto simp: st'_def upd_set_def)
  then show "walk_inv D (seen @ [b]) (Some large) (merge_sets st' small large)"
    using M d f by (auto simp: walk_inv_def walk_step_def)
  note C1 = clear_set_dirtying_step [OF inv f(1,5)]
  have inv1: "cache_inv (clear_set_dirtying st' small)" using C1(1) by (simp add: walk_step_def)
  have "large \<in> dirtying (clear_set_dirtying st' small)" using C1(2) d f(3) by auto
  then have "SET_DIRTYING (sets (clear_set_dirtying st' small) large)" by (simp add: dirtying_def)
  note C2 = clear_set_dirtying_step [OF inv1 this f(6)]
  have c: "core (sync_up_to_seq (clear_set_dirtying (clear_set_dirtying st' small) large) seq) =
      core (clear_set_dirtying (clear_set_dirtying st' small) large)" by (rule core_sync)
  show "walk_step D st (sync_up_to_seq (clear_set_dirtying (clear_set_dirtying st' small) large) seq)"
    using walk_step_trans [OF T(1) walk_step_trans [OF C1(1) C2(1)]] c by (rule walk_step_core_right)
  show "dirtying (sync_up_to_seq (clear_set_dirtying (clear_set_dirtying st' small) large) seq) = D"
    using C1(2) C2(2) d f unfolding dirtying_core [OF c] by auto
qed

text \<open>What a pass over the blocks \<open>bs\<close> ends with.\<close>

definition walk_post :: "sid set \<Rightarrow> bid list \<Rightarrow> walk_result \<Rightarrow> sid option \<Rightarrow> block_info \<Rightarrow> block_info \<Rightarrow> bool" where
  "walk_post D bs r large st st' \<longleftrightarrow> walk_step D st st' \<and>
     (if r = Walk_done then walk_inv D bs large st' else dirtying st' = D \<and> r \<noteq> Walk_error 0)"

lemma walk_post_step: "walk_step D st st1 \<Longrightarrow> walk_post D bs r large st1 st' \<Longrightarrow> walk_post D bs r large st st'"
  by (auto simp: walk_post_def intro: walk_step_trans)

lemma get_other_set_other:
  "bl_set (blocks st b) = Some s \<Longrightarrow> large \<noteq> Some s \<Longrightarrow> get_other_set km st b large = (Inr (Some s), get_set st s)"
  by (simp add: get_other_set_def)

lemma dirty_walk_inv:
  assumes "walk_inv D seen large st" "\<forall>b\<in>set bs. b < next_block st"
    and "dirty_walk km bs small large st = Ret (r, small', large', st')"
  shows "walk_post D (seen @ bs) r large' st st'"
  using assms
proof (induction bs arbitrary: seen small large st)
  case Nil
  then show ?case using walk_invD(1) [OF Nil.prems(1)] by (simp add: walk_post_def walk_step_refl)
next
  case (Cons b bs)
  obtain st1 where p: "put_set st small = Ret st1" using Cons.prems(3) by (auto simp: run_simps)
  note c1 = core_put_set [OF p]
  have w1: "walk_inv D seen large st1" using Cons.prems(1) c1 by (rule walk_inv_core)
  have s1: "walk_step D st st1" using walk_invD(1) [OF Cons.prems(1)] c1 by (rule walk_step_core)
  note W = walk_invD [OF w1]
  have bd: "b < next_block st1" "\<forall>b\<in>set bs. b < next_block st1"
    using Cons.prems(2) core_eqD(10) [OF c1] by auto
  have next': "walk_post D (seen @ b # bs) r large' st st'"
    if "walk_inv D (seen @ [b]) lg st2" "walk_step D st1 st2" "dirty_walk km bs sm lg st2 = Ret (r, small', large', st')"
    for sm lg st2
  proof -
    have "\<forall>b\<in>set bs. b < next_block st2" using that(2) bd(2) by (auto simp: walk_step_def keeps_def)
    from Cons.IH [OF that(1) this that(3)] show ?thesis
      using walk_post_step [OF walk_step_trans [OF s1 that(2)]] by simp
  qed
  have stop: "walk_post D (seen @ b # bs) r large' st st'"
    if "r \<noteq> Walk_done" "r \<noteq> Walk_error 0" "walk_step D st1 st'" "dirtying st' = D"
    using that s1 by (auto simp: walk_post_def intro: walk_step_trans)
  show ?case
  proof (cases "bl_set (blocks st1 b)")
    case (Some s)
    show ?thesis
    proof (cases "large = Some s")
      case True
      then have "walk_inv D (seen @ [b]) large st1" using w1 Some by (simp add: walk_inv_def)
      moreover have "dirty_walk km bs None large st1 = Ret (r, small', large', st')"
        using Cons.prems(3) p Some True by (simp add: get_other_set_def)
      ultimately show ?thesis using W(1) walk_step_refl by (intro next') auto
    next
      case False
      define st2 where "st2 = get_set st1 s"
      have c2: "core st2 = core st1" unfolding st2_def by (rule core_get_set)
      have w2: "walk_inv D seen large st2" using w1 c2 by (rule walk_inv_core)
      have s2: "walk_step D st1 st2" using W(1) c2 by (rule walk_step_core)
      have b2: "bl_set (blocks st2 b) = Some s" using Some core_eqD(12) [OF c2] by simp
      define st3 where "st3 = upd_set st2 s (\<lambda>x. x\<lparr>SET_DIRTYING := True\<rparr>)"
      have st3: "SET_WRITEBACK (sets st3 s) = SET_WRITEBACK (sets st2 s)" by (simp add: st3_def upd_set_def)
      note run = Cons.prems(3) [unfolded dirty_walk.simps p bind_run.simps get_other_set_other [OF Some False],
          folded st2_def, simplified, folded st3_def]
      consider (d) "SET_DIRTYING (sets st2 s)" | (w) "\<not> SET_DIRTYING (sets st2 s)" "SET_WRITEBACK (sets st2 s)"
        | (ok) "\<not> SET_DIRTYING (sets st2 s)" "\<not> SET_WRITEBACK (sets st2 s)" by blast
      then show ?thesis
      proof cases
        case d
        then have "r = Walk_wait_dirtying s" "st' = clear_set_dirtying_opt st2 large" using run by auto
        then show ?thesis using walk_back_off [OF w2] walk_step_trans [OF s2] by (intro stop) auto
      next
        case w
        define st4 where "st4 = clear_set_dirtying st3 s"
        have c4: "core st4 = core st2" unfolding st4_def st3_def by (rule clear_written_set [OF walk_invD(1) [OF w2] w(1)])
        have "r = Walk_wait_writeback s" "st' = clear_set_dirtying_opt st4 large"
          using run w st3 by (auto simp: Let_def st4_def)
        then show ?thesis
          using walk_back_off [OF walk_inv_core [OF w2 c4]] walk_step_trans [OF walk_step_core_right [OF s2 c4]]
          by (intro stop) auto
      next
        case ok
        show ?thesis
        proof (cases large)
          case None
          then have "dirty_walk km bs None (Some s) st3 = Ret (r, small', large', st')"
            using run ok st3 by (simp add: Let_def)
          moreover note walk_take_set(1,5) [OF w2 b2 ok, folded st3_def]
          ultimately show ?thesis using None walk_step_trans [OF s2] by (intro next') auto
        next
          case l: (Some l)
          define sm lg where "sm = (if set_size (sets st3 s) > set_size (sets st3 l) then l else s)"
            and "lg = (if set_size (sets st3 s) > set_size (sets st3 l) then s else l)"
          have sl: "(sm, lg) = (l, s) \<or> (sm, lg) = (s, l)" by (auto simp: sm_def lg_def)
          note M = walk_merge [OF w2 [unfolded l] b2 ok sl, folded st3_def]
          have e: "(if set_size (sets st3 s) > set_size (sets st3 l) then (l, s) else (s, l)) = (sm, lg)"
            by (simp add: sm_def lg_def)
          have run': "(if set_size (sets st3 lg) + set_size (sets st3 sm) > 64
              then Ret (Walk_wait_sync (set_dirty_seq (sets st3 lg)), Some sm, Some lg,
                 sync_up_to_seq (clear_set_dirtying (clear_set_dirtying st3 sm) lg) (set_dirty_seq (sets st3 lg)))
              else dirty_walk km bs (Some sm) (Some lg) (merge_sets st3 sm lg)) = Ret (r, small', large', st')"
            using run ok st3 l unfolding Let_def by (simp add: e split: if_splits)
          show ?thesis
          proof (cases "set_size (sets st3 lg) + set_size (sets st3 sm) > 64")
            case True
            then show ?thesis using run' M(3,4) walk_step_trans [OF s2] by (intro stop) auto
          next
            case False
            then show ?thesis using run' M(1,2) walk_step_trans [OF s2] by (intro next') auto
          qed
        qed
      qed
    qed
  next
    case None
    show ?thesis
    proof (cases large)
      case (Some e)
      let ?st2 = "upd_set (upd_block st1 b (\<lambda>bl. bl\<lparr>bl_set := Some e\<rparr>)) e
          (\<lambda>x. x\<lparr>block_list := block_list x @ [b], set_size := set_size x + 1\<rparr>)"
      have "walk_step D st1 ?st2" using add_to_set_step [OF W(1) bd(1) None W(7) [OF Some] W(5) [OF Some] W(4) [OF Some]] .
      moreover from this have "walk_inv D (seen @ [b]) large ?st2"
        using w1 Some by (auto simp: walk_inv_def walk_step_def dirtying_def upd_set_def upd_block_def)
      moreover have "dirty_walk km bs None large ?st2 = Ret (r, small', large', st')"
        using Cons.prems(3) p None Some by (simp add: get_other_set_def)
      ultimately show ?thesis by (intro next') auto
    next
      case ln: None
      show ?thesis
      proof (cases km)
        case None
        then have "r = Walk_error (- ENOMEM)" "st' = st1"
          using Cons.prems(3) p \<open>bl_set (blocks st1 b) = None\<close> ln by (auto simp: get_other_set_def)
        then show ?thesis using W(1,2) ln walk_step_refl by (intro stop) auto
      next
        case (Some junk)
        let ?n = "next_set st1"
        let ?st2 = "upd_set (upd_block (st1\<lparr>sets := (sets st1)(?n := new_set junk b), next_set := Suc ?n\<rparr>)
            b (\<lambda>bl. bl\<lparr>bl_set := Some ?n\<rparr>)) ?n (\<lambda>x. x\<lparr>SET_DIRTYING := True\<rparr>)"
        have D: "dirtying st1 = D" using W(2) ln by simp
        have "walk_step D st1 ?st2" using D by (intro new_set_step [OF W(1) bd(1) None]) simp
        moreover have "?n \<notin> D" using members_okD(4) [OF cache_invD(1) [OF W(1)], of ?n] D by (auto simp: dirtying_def)
        ultimately have "walk_step D st1 ?st2" "walk_inv D (seen @ [b]) (Some ?n) ?st2"
          using D W(3) ln by (auto simp: walk_inv_def walk_step_def dirtying_def upd_set_def upd_block_def new_set_def)
        moreover have "dirty_walk km bs None (Some ?n) ?st2 = Ret (r, small', large', st')"
          using Cons.prems(3) p None ln Some
          by (simp add: get_other_set_def Let_def upd_set_def upd_block_def new_set_def)
        ultimately show ?thesis by (intro next') auto
      qed
    qed
  qed
qed

subsection \<open>Beginning and ending a modification\<close>

text \<open>
  The caller's blocks are held in one set that only this caller is dirtying, that is
  marked dirty and queued for writeback, and that ends in a dirty block.
\<close>

definition holds_dirty :: "block_info \<Rightarrow> bid list \<Rightarrow> sid \<Rightarrow> bool" where
  "holds_dirty st bs s \<longleftrightarrow> SET_DIRTYING (sets st s) \<and> block_list (sets st s) \<noteq> [] \<and>
     (\<forall>b\<in>set bs. bl_set (blocks st b) = Some s) \<and> BL_DIRTY (blocks st (last (block_list (sets st s))))"

definition dirty_post :: "bid list \<Rightarrow> dirty_result \<Rightarrow> block_info \<Rightarrow> block_info \<Rightarrow> bool" where
  "dirty_post bs r st st' \<longleftrightarrow> walk_step (dirtying st) st st' \<and>
     (if r = Dirty_done 0
      then \<exists>s. s \<notin> dirtying st \<and> dirtying st' = insert s (dirtying st) \<and> holds_dirty st' bs s \<and>
             SET_DIRTY (sets st' s) \<and> s \<in> set (wb_queue st')
      else dirtying st' = dirtying st)"

lemma dirty_post_core:
  assumes "dirty_post bs r st1 st'" "core st1 = core st" "cache_inv st"
  shows "dirty_post bs r st st'"
proof -
  have d: "dirtying st1 = dirtying st" using assms(2) by (rule dirtying_core)
  have "walk_step (dirtying st) st st1" using assms(3,2) by (rule walk_step_core)
  then show ?thesis using assms(1) by (auto simp: dirty_post_def d intro: walk_step_trans)
qed

lemma dirty_restart_inv:
  assumes inv: "cache_inv st" and bs: "\<forall>b\<in>set bs. b < next_block st" "bs \<noteq> []"
    and r: "dirty_restart km bs small large st = Ret (res, st')"
  shows "dirty_post bs res st st'"
proof -
  obtain st1 st2 where p: "put_set st small = Ret st1" "put_set st1 large = Ret st2"
    using r by (auto simp: dirty_restart_def run_simps)
  have c: "core st2 = core st" using core_put_set [OF p(1)] core_put_set [OF p(2)] by simp
  obtain wr sm lg st3 where w: "dirty_walk km bs None None st2 = Ret (wr, sm, lg, st3)"
    using r p by (auto simp: dirty_restart_def run_simps)
  let ?D = "dirtying st2"
  have inv2: "cache_inv st2" using cache_inv_cong [OF c] inv by simp
  have "walk_inv ?D [] None st2" using inv2 by (simp add: walk_inv_def)
  moreover have "\<forall>b\<in>set bs. b < next_block st2" using bs core_eqD(10) [OF c] by simp
  ultimately have post: "walk_post ?D bs wr lg st2 st3" using dirty_walk_inv [OF _ _ w] by force
  have stop: "dirty_post bs res st2 st'" if "res \<noteq> Dirty_done 0" "core st' = core st3" "wr \<noteq> Walk_done"
    using post that dirtying_core [OF that(2)] by (auto simp: dirty_post_def walk_post_def intro: walk_step_core_right)
  have "dirty_post bs res st2 st'"
  proof (cases wr)
    case Walk_done
    then have wi: "walk_inv ?D bs lg st3" and ws: "walk_step ?D st2 st3" using post by (simp_all add: walk_post_def)
    note W = walk_invD [OF wi]
    obtain l where l: "lg = Some l" using W(3) bs(2) by (cases lg) auto
    obtain st4 where st4: "put_set (dirty_large st3 l) sm = Ret st4" "res = Dirty_done 0" "st' = st4"
      using r p w Walk_done l by (auto simp: dirty_restart_def run_simps)
    note c4 = core_put_set [OF st4(1)]
    note L = dirty_large_step [OF W(1) W(7) [OF l] W(4) [OF l] W(5) [OF l]]
    have "walk_step ?D st2 st'"
      unfolding st4(3) by (rule walk_step_core_right [OF walk_step_trans [OF ws L(1)] c4])
    moreover have "dirtying st' = insert l ?D" unfolding st4(3) dirtying_core [OF c4] L(2) W(2) l by simp
    moreover have "holds_dirty st' bs l"
      using W(6) [OF l] W(5,7) [OF l] L(2,3,4,5) core_eqD(12,16,18,22) [OF c4] unfolding st4(3) holds_dirty_def
      by (simp add: dirtying_def set_eq_iff)
    moreover have "SET_DIRTY (sets st' l)" "l \<in> set (wb_queue st')"
      using L(6,7) core_eqD(7,8,19) [OF c4] unfolding st4(3) by (simp_all add: wb_queue_def)
    ultimately show ?thesis using st4(2) W(4) [OF l] by (auto simp: dirty_post_def)
  next
    case (Walk_error e)
    obtain st4 st5 where st5: "put_set st3 sm = Ret st4" "put_set st4 lg = Ret st5" "res = Dirty_done e" "st' = st5"
      using r p w Walk_error by (auto simp: dirty_restart_def run_simps)
    moreover have "e \<noteq> 0" using post Walk_error by (auto simp: walk_post_def)
    ultimately show ?thesis
      using core_put_set [OF st5(1)] core_put_set [OF st5(2)] Walk_error by (intro stop) auto
  qed (use r p w stop in \<open>auto simp: dirty_restart_def run_simps\<close>)
  then show ?thesis using c inv by (rule dirty_post_core)
qed

lemma dirty_begin_inv:
  assumes "cache_inv st" "\<forall>b\<in>set bs. b < next_block st" "bs \<noteq> []"
    and "ngnfs_block_dirty_begin km bs st = Ret (res, st')"
  shows "dirty_post bs res st st'"
proof (cases "dirty_throttled st")
  case True
  then show ?thesis using assms by (simp add: ngnfs_block_dirty_begin_def dirty_post_def walk_step_refl)
next
  case False
  then show ?thesis using assms by (intro dirty_restart_inv) (auto simp: ngnfs_block_dirty_begin_def)
qed

lemma dirty_resume_inv:
  assumes inv: "cache_inv st" and bs: "\<forall>b\<in>set bs. b < next_block st" "bs \<noteq> []"
    and r: "dirty_resume km bs wr small large st = Ret (res, st')"
  shows "dirty_post bs res st st'"
proof (cases "\<exists>seq. wr = Walk_wait_sync seq")
  case False
  then have "dirty_restart km bs small large st = Ret (res, st')" using r by (cases wr) (auto simp: dirty_resume_def)
  then show ?thesis using inv bs by (intro dirty_restart_inv)
next
  case True
  obtain ret st1 where f: "sync_finish st = (ret, st1)" by fastforce
  have c: "core st1 = core st" using core_sync(3) [of st] f by (simp add: sync_finish_def)
  have inv1: "cache_inv st1" using cache_inv_cong [OF c] inv by simp
  have "dirty_post bs res st1 st'"
  proof (cases "ret < 0")
    case neg: True
    obtain st2 st3 where p: "put_set st1 small = Ret st2" "put_set st2 large = Ret st3" "res = Dirty_done ret" "st' = st3"
      using r True f neg by (auto simp: dirty_resume_def run_simps)
    then have c1: "core st' = core st1" using core_put_set [OF p(1)] core_put_set [OF p(2)] by simp
    show ?thesis
      using p(3) neg walk_step_core [OF inv1 c1] dirtying_core [OF c1] by (simp add: dirty_post_def)
  next
    case False
    then have "dirty_restart km bs small large st1 = Ret (res, st')" using r True f by (auto simp: dirty_resume_def)
    then show ?thesis using inv1 bs core_eqD(10) [OF c] by (intro dirty_restart_inv) auto
  qed
  then show ?thesis using c inv by (rule dirty_post_core)
qed

lemma dirty_end_inv:
  assumes inv: "cache_inv st" and h: "holds_dirty st bs s" "bs \<noteq> []" "s \<notin> D"
    and r: "ngnfs_block_dirty_end bs st = Ret st'"
  shows "walk_step D st st'" and "dirtying st' = dirtying st - {s}"
proof -
  let ?st1 = "upd_set st s (\<lambda>x. x\<lparr>SET_DIRTYING := False\<rparr>)"
  have s: "bl_set (blocks st (hd bs)) = Some s" "SET_DIRTYING (sets st s)"
    using h by (auto simp: holds_dirty_def)
  then obtain st2 where "put_set ?st1 (Some s) = Ret st2" "st' = try_queue_writeback_work st2"
    using r h(2) by (cases bs) (auto simp: ngnfs_block_dirty_end_def run_simps)
  then have c: "core st' = core ?st1" using core_put_set core_try_queue(2) by metis
  have "core ?st1 = core (given_up st s)"
  proof -
    have "kept_blocks st (block_list (sets st s)) = block_list (sets st s)"
      using h(1) by (intro kept_blocks_all) (auto simp: holds_dirty_def)
    moreover have "(sets st s)\<lparr>set_size := length (block_list (sets st s)), SET_DIRTYING := False\<rparr> =
        (sets st s)\<lparr>SET_DIRTYING := False\<rparr>"
      using members_okD(3) [OF cache_invD(1) [OF inv], of s] by (cases "sets st s") simp
    ultimately show ?thesis by (simp add: given_up_def upd_set_def)
  qed
  with c have c': "core st' = core (given_up st s)" by simp
  show "walk_step D st st'" using given_up_step [OF inv s(2) h(3)] c' by (rule walk_step_core_right)
  show "dirtying st' = dirtying st - {s}"
    unfolding dirtying_core [OF c] by (auto simp: dirtying_def upd_set_def)
qed

end
