(* ===== verification/Block_Sys.thy ===== *)
theory Block_Sys
  imports Block_Dirty
begin

text \<open>
  The block cache with its callers: threads that get, put, dirty and sync blocks,
  the two works of the work queue and a transport that completes requests in any
  order.  A step is what one of them does between two waits.  The invariant of the
  cache holds in every reachable state, and no two threads ever dirty the same
  set.
\<close>

subsection \<open>Threads\<close>

text \<open>
  What a thread waits for or does: the waits of the operations, and modifying blocks.  \<open>held\<close> counts
  the references the callers of \<open>ngnfs_block_get\<close> were given and have not put.
\<close>

datatype pc =
    Idle
  | Getting bid
  | Throttled "bid list"
  | Dirty_waiting "bid list" walk_result "sid option" "sid option"
  | Dirtying "bid list"
  | Syncing nat

record sys =
  cache :: block_info
  pcs :: "nat \<Rightarrow> pc"
  held :: "bid \<Rightarrow> nat"

definition after_get :: "get_result \<Rightarrow> pc" where
  "after_get r = (case r of Get_wait b \<Rightarrow> Getting b | Get_done _ \<Rightarrow> Idle)"

definition held_get :: "get_result \<Rightarrow> (bid \<Rightarrow> nat) \<Rightarrow> bid \<Rightarrow> nat" where
  "held_get r h = (case r of Get_done (Inr b) \<Rightarrow> h(b := h b + 1) | _ \<Rightarrow> h)"

definition after_dirty :: "bid list \<Rightarrow> dirty_result \<Rightarrow> pc" where
  "after_dirty bs r = (case r of
     Dirty_done ret \<Rightarrow> if ret = 0 then Dirtying bs else Idle
   | Dirty_throttle \<Rightarrow> Throttled bs
   | Dirty_wait w small large \<Rightarrow> Dirty_waiting bs w small large)"

inductive block_step :: "sys \<Rightarrow> sys \<Rightarrow> bool" where
  get: "pcs y t = Idle \<Longrightarrow> ngnfs_block_get alloc_ok (cache y) bnr nbf = Ret (r, c) \<Longrightarrow>
    block_step y (y\<lparr>cache := c, pcs := (pcs y)(t := after_get r), held := held_get r (held y)\<rparr>)"
| get_woken: "pcs y t = Getting b \<Longrightarrow> \<not> BL_READING (blocks (cache y) b) \<Longrightarrow>
    block_get_finish (cache y) b = Ret (r, c) \<Longrightarrow>
    block_step y (y\<lparr>cache := c, pcs := (pcs y)(t := Idle),
      held := held_get (Get_done r) (held y)\<rparr>)"
| put: "pcs y t = Idle \<Longrightarrow> 0 < held y b \<Longrightarrow> ngnfs_block_put (cache y) b = Ret c \<Longrightarrow>
    block_step y (y\<lparr>cache := c, held := (held y)(b := held y b - 1)\<rparr>)"
| dirty_begin: "pcs y t = Idle \<Longrightarrow> bs \<noteq> [] \<Longrightarrow> \<forall>b\<in>set bs. b < next_block (cache y) \<and> 0 < held y b \<Longrightarrow>
    ngnfs_block_dirty_begin km bs (cache y) = Ret (r, c) \<Longrightarrow>
    block_step y (y\<lparr>cache := c, pcs := (pcs y)(t := after_dirty bs r)\<rparr>)"
| throttle_woken: "pcs y t = Throttled bs \<Longrightarrow> \<not> dirty_throttled (cache y) \<Longrightarrow>
    dirty_restart km bs None None (cache y) = Ret (r, c) \<Longrightarrow>
    block_step y (y\<lparr>cache := c, pcs := (pcs y)(t := after_dirty bs r)\<rparr>)"
| dirty_woken: "pcs y t = Dirty_waiting bs w small large \<Longrightarrow> walk_woken (cache y) w \<Longrightarrow>
    dirty_resume km bs w small large (cache y) = Ret (r, c) \<Longrightarrow>
    block_step y (y\<lparr>cache := c, pcs := (pcs y)(t := after_dirty bs r)\<rparr>)"
| modify: "pcs y t = Dirtying bs \<Longrightarrow> b \<in> set bs \<Longrightarrow>
    block_step y (y\<lparr>cache := upd_block (cache y) b (\<lambda>bl. bl\<lparr>bl_page := page\<rparr>)\<rparr>)"
| dirty_end: "pcs y t = Dirtying bs \<Longrightarrow> ngnfs_block_dirty_end bs (cache y) = Ret c \<Longrightarrow>
    block_step y (y\<lparr>cache := c, pcs := (pcs y)(t := Idle)\<rparr>)"
| sync: "pcs y t = Idle \<Longrightarrow> ngnfs_block_sync (cache y) = (seq, c) \<Longrightarrow>
    block_step y (y\<lparr>cache := c, pcs := (pcs y)(t := Syncing seq)\<rparr>)"
| sync_woken: "pcs y t = Syncing seq \<Longrightarrow> sync_woken (cache y) seq \<Longrightarrow> sync_finish (cache y) = (ret, c) \<Longrightarrow>
    block_step y (y\<lparr>cache := c, pcs := (pcs y)(t := Idle)\<rparr>)"
| submit_work: "submit_queued (cache y) \<Longrightarrow> ngnfs_block_submit_work submit_ret (cache y) = Ret c \<Longrightarrow>
    block_step y (y\<lparr>cache := c\<rparr>)"
| writeback_work: "writeback_queued (cache y) \<Longrightarrow> ngnfs_block_writeback_work (cache y) = Ret (w, c) \<Longrightarrow>
    block_step y (y\<lparr>cache := c\<rparr>)"
| end_io: "bnr \<in> (\<lambda>r. fst (snd r)) ` set (in_transport (cache y)) \<Longrightarrow>
    ngnfs_block_end_io (cache y) bnr data_page err = Ret c \<Longrightarrow>
    block_step y (y\<lparr>cache := c\<rparr>)"

definition init_sys :: "int \<Rightarrow> sys" where
  "init_sys depth = \<lparr>cache = init_block_info depth, pcs = (\<lambda>_. Idle), held = (\<lambda>_. 0)\<rparr>"

subsection \<open>The invariant of the system\<close>

definition pc_blocks :: "pc \<Rightarrow> bid list" where
  "pc_blocks p = (case p of Throttled bs \<Rightarrow> bs | Dirty_waiting bs _ _ _ \<Rightarrow> bs | Dirtying bs \<Rightarrow> bs | _ \<Rightarrow> [])"

definition pc_ok :: "block_info \<Rightarrow> pc \<Rightarrow> bool" where
  "pc_ok c p \<longleftrightarrow> (\<forall>b\<in>set (pc_blocks p). b < next_block c) \<and>
     (case p of Throttled bs \<Rightarrow> bs \<noteq> [] | Dirty_waiting bs _ _ _ \<Rightarrow> bs \<noteq> [] | Dirtying bs \<Rightarrow> bs \<noteq> [] | _ \<Rightarrow> True)"

text \<open>\<open>own\<close> gives each dirtying thread its set.\<close>

definition owners_ok :: "sys \<Rightarrow> (nat \<Rightarrow> sid) \<Rightarrow> bool" where
  "owners_ok y own \<longleftrightarrow>
     (\<forall>t bs. pcs y t = Dirtying bs \<longrightarrow> holds_dirty (cache y) bs (own t)) \<and>
     inj_on own {t. \<exists>bs. pcs y t = Dirtying bs} \<and>
     dirtying (cache y) = own ` {t. \<exists>bs. pcs y t = Dirtying bs}"

definition sys_inv :: "sys \<Rightarrow> bool" where
  "sys_inv y \<longleftrightarrow> cache_inv (cache y) \<and> (\<forall>t. pc_ok (cache y) (pcs y t)) \<and> (\<exists>own. owners_ok y own)"

lemma holds_dirty_keeps:
  assumes "holds_dirty c bs s" "keeps D c c'" "s \<in> D" "cache_inv c" "cache_inv c'"
  shows "holds_dirty c' bs s"
proof -
  have l: "block_list (sets c' s) = block_list (sets c s)" "SET_DIRTYING (sets c' s)"
    using assms(1-3) by (auto simp: keeps_def holds_dirty_def)
  have "b \<in> set (block_list (sets c s))" if "b \<in> set bs" for b
    using that assms(1) members_okD(1) [OF cache_invD(1) [OF assms(4)], of b s] by (simp add: holds_dirty_def)
  then have "bl_set (blocks c' b) = Some s" if "b \<in> set bs" for b
    using that l(1) members_okD(1) [OF cache_invD(1) [OF assms(5)], of b s] by simp
  moreover have "last (block_list (sets c s)) < next_block c"
    using assms(1) by (intro inv_member_bound [OF assms(4), of _ s]) (simp add: holds_dirty_def)
  then have "BL_DIRTY (blocks c' (last (block_list (sets c s))))"
    using assms(1,2) by (auto simp: keeps_def holds_dirty_def)
  ultimately show ?thesis using l assms(1) by (simp add: holds_dirty_def)
qed

lemma pc_ok_keeps: "pc_ok c p \<Longrightarrow> keeps D c c' \<Longrightarrow> pc_ok c' p"
  by (auto simp: pc_ok_def keeps_def)

text \<open>A step that does not begin or end a modification.\<close>

lemma sys_inv_safe:
  assumes inv: "sys_inv y" and s: "safe_step (cache y) c"
    and p: "\<And>t'. pcs y' t' = pcs y t' \<or> pcs y' t' \<noteq> pcs y t' \<and> pc_ok c (pcs y' t') \<and>
          (\<forall>bs. pcs y t' \<noteq> Dirtying bs) \<and> (\<forall>bs. pcs y' t' \<noteq> Dirtying bs)"
    and c: "cache y' = c"
  shows "sys_inv y'"
proof -
  obtain own where o: "owners_ok y own" and ci: "cache_inv (cache y)" and po: "\<And>t. pc_ok (cache y) (pcs y t)"
    using inv by (auto simp: sys_inv_def)
  have k: "cache_inv c" "keeps (dirtying (cache y)) (cache y) c" "dirtying c = dirtying (cache y)"
    using s by (auto simp: safe_step_def)
  have same: "pcs y' t' = Dirtying bs \<longleftrightarrow> pcs y t' = Dirtying bs" for t' bs using p [of t'] by auto
  have "holds_dirty c bs (own t')" if "pcs y t' = Dirtying bs" for t' bs
  proof (rule holds_dirty_keeps [OF _ k(2) _ ci k(1)])
    show "holds_dirty (cache y) bs (own t')" using o that by (simp add: owners_ok_def)
    then show "own t' \<in> dirtying (cache y)" by (simp add: holds_dirty_def dirtying_def)
  qed
  then have "owners_ok y' own" using o c k(3) by (simp add: owners_ok_def same)
  moreover have "pc_ok c (pcs y' t')" for t' using p [of t'] pc_ok_keeps [OF po k(2), of t'] by auto
  ultimately show ?thesis using k(1) c by (auto simp: sys_inv_def)
qed

text \<open>A thread's dirtying of blocks, from its call to its success, error or next wait.\<close>

lemma sys_inv_dirty:
  assumes inv: "sys_inv y" and nd: "\<And>bs'. pcs y t \<noteq> Dirtying bs'"
    and bs: "bs \<noteq> []" "\<forall>b\<in>set bs. b < next_block (cache y)" and d: "dirty_post bs r (cache y) c"
  shows "sys_inv (y\<lparr>cache := c, pcs := (pcs y)(t := after_dirty bs r)\<rparr>)" (is "sys_inv ?y'")
proof -
  let ?D = "dirtying (cache y)" and ?T = "{t. \<exists>bs. pcs y t = Dirtying bs}"
  obtain own where o: "owners_ok y own" and ci: "cache_inv (cache y)" and po: "\<And>t. pc_ok (cache y) (pcs y t)"
    using inv by (auto simp: sys_inv_def)
  have k: "cache_inv c" "keeps ?D (cache y) c" using d by (auto simp: dirty_post_def walk_step_def)
  have old: "holds_dirty c bs' (own t')" if "pcs y t' = Dirtying bs'" for t' bs'
  proof (rule holds_dirty_keeps [OF _ k(2) _ ci k(1)])
    show "holds_dirty (cache y) bs' (own t')" using o that by (simp add: owners_ok_def)
    then show "own t' \<in> ?D" by (simp add: holds_dirty_def dirtying_def)
  qed
  have pk: "pc_ok c (pcs ?y' t')" for t'
  proof (cases "t' = t")
    case True
    have "\<forall>b\<in>set bs. b < next_block c" using bs(2) k(2) by (auto simp: keeps_def)
    then show ?thesis using True bs(1) by (auto simp: pc_ok_def pc_blocks_def after_dirty_def split: dirty_result.splits)
  next
    case False
    then show ?thesis using pc_ok_keeps [OF po k(2)] by simp
  qed
  have "\<exists>own. owners_ok ?y' own"
  proof (cases "r = Dirty_done 0")
    case True
    obtain s where s: "s \<notin> ?D" "dirtying c = insert s ?D" "holds_dirty c bs s"
      using d True by (auto simp: dirty_post_def)
    have T: "{t'. \<exists>bs. pcs ?y' t' = Dirtying bs} = insert t ?T" using True by (auto simp: after_dirty_def)
    have tn: "t \<notin> ?T" using nd by simp
    have "?D = own ` ?T" "inj_on own ?T" using o by (auto simp: owners_ok_def)
    then have "inj_on (own(t := s)) (insert t ?T)" "(own(t := s)) ` insert t ?T = insert s ?D"
      using s(1) tn by (auto simp: inj_on_def)
    then have "owners_ok ?y' (own(t := s))"
      unfolding owners_ok_def T using s old True by (auto simp: after_dirty_def)
    then show ?thesis by blast
  next
    case False
    then have n: "\<forall>bs'. after_dirty bs r \<noteq> Dirtying bs'" by (auto simp: after_dirty_def split: dirty_result.splits)
    have "{t'. \<exists>bs. pcs ?y' t' = Dirtying bs} = ?T" using n nd by auto
    moreover have "dirtying c = ?D" using d False by (simp add: dirty_post_def)
    ultimately have "owners_ok ?y' own" using o old n by (auto simp: owners_ok_def)
    then show ?thesis by blast
  qed
  then show ?thesis using k(1) pk by (simp add: sys_inv_def)
qed

lemma sys_inv_end:
  assumes inv: "sys_inv y" and t: "pcs y t = Dirtying bs" and e: "ngnfs_block_dirty_end bs (cache y) = Ret c"
  shows "sys_inv (y\<lparr>cache := c, pcs := (pcs y)(t := Idle)\<rparr>)" (is "sys_inv ?y'")
proof -
  let ?T = "{t. \<exists>bs. pcs y t = Dirtying bs}"
  obtain own where o: "owners_ok y own" and ci: "cache_inv (cache y)" and po: "\<And>t. pc_ok (cache y) (pcs y t)"
    using inv by (auto simp: sys_inv_def)
  have h: "holds_dirty (cache y) bs (own t)" using o t by (simp add: owners_ok_def)
  have bs: "bs \<noteq> []" using po [of t] t by (simp add: pc_ok_def)
  let ?D = "dirtying (cache y) - {own t}"
  note E = dirty_end_inv [OF ci h bs _ e, of ?D, simplified]
  have k: "cache_inv c" "keeps ?D (cache y) c" using E(1) by (auto simp: walk_step_def)
  have inj: "inj_on own ?T" "dirtying (cache y) = own ` ?T" using o by (auto simp: owners_ok_def)
  have T: "{t'. \<exists>bs. pcs ?y' t' = Dirtying bs} = ?T - {t}" by auto
  have "holds_dirty c bs' (own t')" if "pcs y t' = Dirtying bs'" "t' \<noteq> t" for t' bs'
  proof (rule holds_dirty_keeps [OF _ k(2) _ ci k(1)])
    show "holds_dirty (cache y) bs' (own t')" using o that by (simp add: owners_ok_def)
    then have "own t' \<in> dirtying (cache y)" by (simp add: holds_dirty_def dirtying_def)
    then show "own t' \<in> ?D" using inj(1) that t by (auto simp: inj_on_def)
  qed
  moreover have "dirtying c = own ` (?T - {t})"
    using E(2) inj t by (auto simp: inj_on_def)
  ultimately have "owners_ok ?y' own"
    using inj unfolding owners_ok_def T by (auto intro: inj_on_subset)
  moreover have "pc_ok c (pcs ?y' t')" for t'
    using pc_ok_keeps [OF po k(2), of t'] by (auto simp: pc_ok_def pc_blocks_def)
  ultimately show ?thesis using k(1) by (auto simp: sys_inv_def)
qed

lemma init_sys_inv: "sys_inv (init_sys depth)"
proof -
  have "owners_ok (init_sys depth) own" for own
    by (simp add: owners_ok_def init_sys_def init_block_info_def new_set_def dirtying_def)
  then show ?thesis
    using init_cache_inv by (auto simp: sys_inv_def init_sys_def pc_ok_def pc_blocks_def)
qed

lemma block_step_inv:
  assumes "sys_inv y" "block_step y y'"
  shows "sys_inv y'"
  using assms(2,1)
proof cases
  case (get t alloc_ok bnr nbf r c)
  have s: "safe_step (cache y) c" using block_get_inv(1) get(3) assms(1) by (auto simp: sys_inv_def)
  show ?thesis
    using get(1,2) by (intro sys_inv_safe [OF assms(1) s])
      (auto simp: after_get_def pc_ok_def pc_blocks_def split: get_result.splits)
next
  case (get_woken t b r c)
  have s: "safe_step (cache y) c"
    using core_block_get_finish [OF get_woken(4)] assms(1) by (intro safe_step_core) (auto simp: sys_inv_def)
  show ?thesis using get_woken(1,2) by (intro sys_inv_safe [OF assms(1) s]) (auto simp: pc_ok_def pc_blocks_def)
next
  case (put t b c)
  have s: "safe_step (cache y) c"
    using put(4) assms(1) by (intro safe_step_core) (auto simp: sys_inv_def ngnfs_block_put_def core_put_block)
  show ?thesis using put(1) by (intro sys_inv_safe [OF assms(1) s]) auto
next
  case (dirty_begin t bs km r c)
  have "dirty_post bs r (cache y) c"
    using dirty_begin(3-5) assms(1) by (intro dirty_begin_inv) (auto simp: sys_inv_def)
  then show ?thesis using dirty_begin by (auto intro!: sys_inv_dirty [OF assms(1)])
next
  case (throttle_woken t bs km r c)
  have p: "pc_ok (cache y) (Throttled bs)" using assms(1) throttle_woken(2) by (metis sys_inv_def)
  then have "dirty_post bs r (cache y) c"
    using throttle_woken(4) assms(1) by (intro dirty_restart_inv) (auto simp: sys_inv_def pc_ok_def pc_blocks_def)
  then show ?thesis using throttle_woken p by (auto intro!: sys_inv_dirty [OF assms(1)] simp: pc_ok_def pc_blocks_def)
next
  case (dirty_woken t bs w small large km r c)
  have p: "pc_ok (cache y) (Dirty_waiting bs w small large)" using assms(1) dirty_woken(2) by (metis sys_inv_def)
  then have "dirty_post bs r (cache y) c"
    using dirty_woken(4) assms(1) by (intro dirty_resume_inv) (auto simp: sys_inv_def pc_ok_def pc_blocks_def)
  then show ?thesis using dirty_woken p by (auto intro!: sys_inv_dirty [OF assms(1)] simp: pc_ok_def pc_blocks_def)
next
  case (modify t bs b page)
  have "core (upd_block (cache y) b (\<lambda>bl. bl\<lparr>bl_page := page\<rparr>)) = core (cache y)"
    by (simp add: core_def upd_block_def fun_eq_iff)
  then have s: "safe_step (cache y) (upd_block (cache y) b (\<lambda>bl. bl\<lparr>bl_page := page\<rparr>))"
    using assms(1) by (intro safe_step_core) (auto simp: sys_inv_def)
  show ?thesis using modify(1) by (intro sys_inv_safe [OF assms(1) s]) auto
next
  case (dirty_end t bs c)
  then show ?thesis using sys_inv_end [OF assms(1)] by simp
next
  case (sync t seq c)
  have "core c = core (cache y)" using sync(3) core_sync(4) by (auto simp: ngnfs_block_sync_def)
  then have s: "safe_step (cache y) c" using assms(1) by (intro safe_step_core) (auto simp: sys_inv_def)
  show ?thesis using sync(1,2) by (intro sys_inv_safe [OF assms(1) s]) (auto simp: pc_ok_def pc_blocks_def)
next
  case (sync_woken t seq ret c)
  have "core c = core (cache y)" using sync_woken(4) core_sync(3) [of "cache y"] by (simp add: sync_finish_def)
  then have s: "safe_step (cache y) c" using assms(1) by (intro safe_step_core) (auto simp: sys_inv_def)
  show ?thesis using sync_woken(1,2) by (intro sys_inv_safe [OF assms(1) s]) (auto simp: pc_ok_def pc_blocks_def)
next
  case (submit_work submit_ret c)
  have s: "safe_step (cache y) c" using submit_work(3) assms(1) submit_work_inv by (auto simp: sys_inv_def)
  show ?thesis using submit_work(1) by (intro sys_inv_safe [OF assms(1) s]) auto
next
  case (writeback_work w c)
  have s: "safe_step (cache y) c" using writeback_work(3) assms(1) writeback_work_inv by (auto simp: sys_inv_def)
  show ?thesis using writeback_work(1) by (intro sys_inv_safe [OF assms(1) s]) auto
next
  case (end_io bnr data_page err c)
  have s: "safe_step (cache y) c" using end_io(2,3) assms(1) end_io_inv by (auto simp: sys_inv_def)
  show ?thesis using end_io(1) by (intro sys_inv_safe [OF assms(1) s]) auto
qed

interpretation blk: invariant_system block_step sys_inv "init_sys depth" for depth
  by unfold_locales (auto intro: init_sys_inv block_step_inv)

abbreviation block_reachable :: "int \<Rightarrow> sys \<Rightarrow> bool" where
  "block_reachable depth \<equiv> reach block_step (init_sys depth)"

subsection \<open>What the invariant gives\<close>

text \<open>Two threads in the middle of a modification have no block in common.\<close>

lemma dirtying_disjoint:
  assumes "block_reachable depth y" "pcs y t = Dirtying bs" "pcs y t' = Dirtying bs'" "t \<noteq> t'"
  shows "set bs \<inter> set bs' = {}"
proof -
  obtain own where o: "owners_ok y own" using blk.reach_inv [OF assms(1)] by (auto simp: sys_inv_def)
  have "own t \<noteq> own t'" using o assms(2-4) by (auto simp: owners_ok_def inj_on_def)
  moreover have "holds_dirty (cache y) bs (own t)" "holds_dirty (cache y) bs' (own t')"
    using o assms(2,3) by (auto simp: owners_ok_def)
  ultimately show ?thesis by (auto simp: holds_dirty_def)
qed

text \<open>A block that is being modified has no write queued or with the transport.\<close>

lemma dirtying_no_writes:
  assumes "block_reachable depth y" "pcs y t = Dirtying bs" "b \<in> set bs"
  shows "writes (cache y) b = 0"
proof -
  have inv: "sys_inv y" using assms(1) by (rule blk.reach_inv)
  then obtain own where o: "owners_ok y own" and ci: "cache_inv (cache y)" by (auto simp: sys_inv_def)
  have h: "holds_dirty (cache y) bs (own t)" using o assms(2) by (simp add: owners_ok_def)
  have b: "bl_set (blocks (cache y) b) = Some (own t)" using h assms(3) by (simp add: holds_dirty_def)
  show ?thesis
  proof (rule not_writing_writes [OF ci])
    show "b < next_block (cache y)" using ht_okD(2) [OF cache_invD(3) [OF ci] b] .
    show "\<not> SET_WRITEBACK (sets (cache y) s)" if "bl_set (blocks (cache y) b) = Some s" for s
      using that b h dirtying_not_writing [OF ci, of "own t"] by (simp add: holds_dirty_def)
  qed
qed

lemma nr_writeback_zero:
  assumes inv: "cache_inv st" and z: "nr_writeback st = 0" and w: "SET_WRITEBACK (sets st s)"
  shows "block_list (sets st s) = []"
proof (rule ccontr)
  assume n: "block_list (sets st s) \<noteq> []"
  note io = cache_invD(4) [OF inv]
  have pos: "0 \<le> submitted_blocks (sets st t)" for t
  proof -
    have "0 \<le> (\<Sum>b\<leftarrow>block_list (sets st t). writes st b)"
      using io_okD(1) [OF io inv_member_bound [OF inv]] by (intro sum_list_nonneg) force
    then show ?thesis using io_okD(2) [OF io, of t] by simp
  qed
  have "s < next_set st" using members_okD(4) [OF cache_invD(1) [OF inv], of s] w by (meson not_le)
  then have "submitted_blocks (sets st s) \<le> (\<Sum>t<next_set st. submitted_blocks (sets st t))"
    using pos by (intro member_le_sum) auto
  then show False using io_okD(3) [OF io w n] io_okD(4) [OF io] z by simp
qed

text \<open>What the condition a sync waits for means.\<close>

lemma sync_all_written:
  assumes inv: "cache_inv st" and c: "seq \<le> writeback_seq st" "nr_writeback st = 0"
    and s: "SET_DIRTY (sets st s)" "block_list (sets st s) \<noteq> []"
  shows "seq < set_dirty_seq (sets st s) \<and> s \<in> set (wb_queue st)"
proof -
  note q = cache_invD(2) [OF inv]
  have "s \<in> set (wb_queue st)"
    using queue_okD(4) [OF q s] nr_writeback_zero [OF inv c(2)] s(2) by blast
  moreover from this have "set_dirty_seq (sets st s) \<in> set (map (\<lambda>s. set_dirty_seq (sets st s)) (wb_queue st))" by simp
  then have "writeback_seq st < set_dirty_seq (sets st s)"
    unfolding queue_okD(1) [OF q] by (simp only: set_upt atLeastLessThan_iff Suc_le_eq)
  ultimately show ?thesis using c(1) by simp
qed

end
