(* ===== verification/Block_Props.thy ===== *)
theory Block_Props
  imports Block_Sys
begin

text \<open>
  The properties of \<open>shared/block.c\<close>: isolation of concurrent modifications,
  what a completed sync guarantees, the writeback order and its counters, and the
  behaviour of the single operations.
\<close>

subsection \<open>A state to apply the properties to\<close>

text \<open>One new block, got and dirtied by thread 0.\<close>

definition demo_cache :: block_info where
  "demo_cache = (init_block_info 8)\<lparr>ht := [(5, 0)], next_block := 1,
     blocks := (\<lambda>_. new_block 0)(0 := (new_block 5)\<lparr>bl_refcount := 2, BL_UPTODATE := True\<rparr>)\<rparr>"

lemma demo_get: "ngnfs_block_get True (init_block_info 8) 5 NBF_NEW =
    Ret (Get_done (Inr 0), demo_cache)"
proof -
  have "bad_nbf NBF_NEW = False" by (simp add: bad_nbf_def) (simp add: hweight_long_def upt_conv_Cons)
  then show ?thesis
    by (simp add: ngnfs_block_get_def lookup_or_alloc_block_def lookup_block_def init_block_info_def
        alloc_block_def get_block_def upd_block_def new_block_def block_get_finish_def demo_cache_def fun_eq_iff)
qed

subsection \<open>Dirtying blocks that are in no set\<close>

lemma fresh_walk:
  assumes "distinct bs" "\<forall>b\<in>set bs. bl_set (blocks st b) = None"
  shows "\<exists>st'. dirty_walk km bs None (Some l) st = Ret (Walk_done, None, Some l, st') \<and>
    sets st' = (sets st)(l := (sets st l)\<lparr>block_list := block_list (sets st l) @ bs, set_size := set_size (sets st l) + length bs\<rparr>) \<and>
    blocks st' = (\<lambda>b. if b \<in> set bs then (blocks st b)\<lparr>bl_set := Some l\<rparr> else blocks st b) \<and>
    nr_dirty st' = nr_dirty st \<and> next_block st' = next_block st \<and>
    nr_writeback st' = nr_writeback st \<and> sync_waiters st' = sync_waiters st"
  using assms
proof (induction bs arbitrary: st)
  case Nil
  then show ?case by simp
next
  case (Cons b bs)
  define st1 where "st1 = upd_set (upd_block st b (\<lambda>bl. bl\<lparr>bl_set := Some l\<rparr>)) l
      (\<lambda>x. x\<lparr>block_list := block_list x @ [b], set_size := set_size x + 1\<rparr>)"
  have "dirty_walk km (b # bs) None (Some l) st = dirty_walk km bs None (Some l) st1"
    using Cons.prems(2) by (simp add: put_set_def get_other_set_def st1_def)
  moreover have "\<forall>b\<in>set bs. bl_set (blocks st1 b) = None"
    using Cons.prems by (auto simp: st1_def upd_set_def upd_block_def)
  ultimately show ?case
    using Cons.IH [of st1] Cons.prems(1) by (auto simp: st1_def upd_set_def upd_block_def fun_eq_iff)
qed

lemma fresh_begin:
  assumes bs: "distinct bs" "bs \<noteq> []" "\<forall>b\<in>set bs. bl_set (blocks st b) = None" and t: "\<not> dirty_throttled st"
  shows "\<exists>st' s. ngnfs_block_dirty_begin (Some junk) bs st = Ret (Dirty_done 0, st') \<and>
    s = next_set st \<and> block_list (sets st' s) = bs \<and> set_size (sets st' s) = length bs \<and>
    (\<forall>b. bl_set (blocks st' b) = (if b \<in> set bs then Some s else bl_set (blocks st b))) \<and>
    nr_dirty st' = nr_dirty st + int (length (takeWhile (\<lambda>b. \<not> BL_DIRTY (blocks st b)) (rev bs))) \<and>
    next_block st' = next_block st \<and> nr_writeback st' = nr_writeback st \<and> sync_waiters st' = sync_waiters st"
proof -
  obtain b cs where b: "bs = b # cs" using bs(2) by (cases bs) auto
  define st1 where "st1 = upd_set (upd_block (st\<lparr>sets := (sets st)(next_set st := new_set junk b), next_set := Suc (next_set st)\<rparr>)
      b (\<lambda>bl. bl\<lparr>bl_set := Some (next_set st)\<rparr>)) (next_set st) (\<lambda>x. x\<lparr>SET_DIRTYING := True\<rparr>)"
  have "\<forall>b\<in>set cs. bl_set (blocks st1 b) = None" "distinct cs"
    using bs b by (auto simp: st1_def upd_set_def upd_block_def)
  then obtain st2 where w: "dirty_walk (Some junk) cs None (Some (next_set st)) st1 = Ret (Walk_done, None, Some (next_set st), st2)"
      and f: "sets st2 = (sets st1)(next_set st := (sets st1 (next_set st))\<lparr>block_list := block_list (sets st1 (next_set st)) @ cs,
           set_size := set_size (sets st1 (next_set st)) + length cs\<rparr>)"
        "blocks st2 = (\<lambda>b. if b \<in> set cs then (blocks st1 b)\<lparr>bl_set := Some (next_set st)\<rparr> else blocks st1 b)"
        "nr_dirty st2 = nr_dirty st1" "next_block st2 = next_block st1"
        "nr_writeback st2 = nr_writeback st1" "sync_waiters st2 = sync_waiters st1"
    using fresh_walk [of cs st1 "Some junk" "next_set st"] by blast
  have run: "ngnfs_block_dirty_begin (Some junk) bs st = Ret (Dirty_done 0, dirty_large st2 (next_set st))"
  proof -
    have "dirty_walk (Some junk) bs None None st = dirty_walk (Some junk) cs None (Some (next_set st)) st1"
      using bs(3) b by (simp add: put_set_def get_other_set_def Let_def st1_def upd_set_def upd_block_def new_set_def)
    then show ?thesis using w t b by (simp add: ngnfs_block_dirty_begin_def dirty_restart_def put_set_def)
  qed
  have l: "block_list (sets st2 (next_set st)) = bs" "set_size (sets st2 (next_set st)) = length bs"
    using f(1) b by (simp_all add: st1_def upd_set_def upd_block_def new_set_def)
  have d: "BL_DIRTY (blocks st2 x) = BL_DIRTY (blocks st x)" for x
    by (simp add: f(2) st1_def upd_set_def upd_block_def)
  have mk: "mark_dirty st2 (rev bs) = st2\<lparr>blocks := (\<lambda>x. if x \<in> set (takeWhile (\<lambda>b. \<not> BL_DIRTY (blocks st b)) (rev bs))
          then (blocks st2 x)\<lparr>BL_DIRTY := True\<rparr> else blocks st2 x),
        nr_dirty := nr_dirty st2 + int (length (takeWhile (\<lambda>b. \<not> BL_DIRTY (blocks st b)) (rev bs)))\<rparr>"
    using bs(1) mark_dirty_eq [of "rev bs" st2] by (simp add: d)
  have L: "block_list (sets (dirty_large st2 (next_set st)) (next_set st)) = bs"
      "bl_set (blocks (dirty_large st2 (next_set st)) x) = bl_set (blocks st2 x)"
      "nr_dirty (dirty_large st2 (next_set st)) = nr_dirty st2 + int (length (takeWhile (\<lambda>b. \<not> BL_DIRTY (blocks st b)) (rev bs)))"
      "next_block (dirty_large st2 (next_set st)) = next_block st2"
      "set_size (sets (dirty_large st2 (next_set st)) (next_set st)) = length bs"
      "nr_writeback (dirty_large st2 (next_set st)) = nr_writeback st2"
      "sync_waiters (dirty_large st2 (next_set st)) = sync_waiters st2" for x
    by (simp_all add: dirty_large_def Let_def l mk upd_set_def get_set_def try_queue_writeback_work_def)
  have "bl_set (blocks (dirty_large st2 (next_set st)) x) = (if x \<in> set bs then Some (next_set st) else bl_set (blocks st x))" for x
    unfolding L(2) using b by (simp add: f(2) st1_def upd_set_def upd_block_def)
  then show ?thesis
    using run L(1,3-7) f(3-6) by (auto simp: st1_def upd_set_def upd_block_def)
qed

subsection \<open>Reachable states\<close>

lemma ex_two_gets:
  "\<exists>y. block_reachable 8 y \<and> (\<forall>t. pcs y t = Idle) \<and> next_block (cache y) = 2 \<and> 0 < held y 0 \<and> 0 < held y 1 \<and>
    (\<forall>b. bl_set (blocks (cache y) b) = None) \<and> nr_dirty (cache y) = 0 \<and>
    nr_writeback (cache y) = 0 \<and> sync_waiters (cache y) = 0"
proof -
  define c2 where "c2 = demo_cache\<lparr>ht := [(6, 1), (5, 0)], next_block := 2,
     blocks := (blocks demo_cache)(1 := (new_block 6)\<lparr>bl_refcount := 2, BL_UPTODATE := True\<rparr>)\<rparr>"
  have bad: "bad_nbf NBF_NEW = False" by (simp add: bad_nbf_def) (simp add: hweight_long_def upt_conv_Cons)
  have g2: "ngnfs_block_get True demo_cache 6 NBF_NEW = Ret (Get_done (Inr 1), c2)"
    using bad by (simp add: ngnfs_block_get_def lookup_or_alloc_block_def lookup_block_def init_block_info_def
        alloc_block_def get_block_def upd_block_def new_block_def block_get_finish_def demo_cache_def c2_def fun_eq_iff)
  let ?y1 = "(init_sys 8)\<lparr>cache := demo_cache, pcs := (pcs (init_sys 8))(0 := after_get (Get_done (Inr 0))),
      held := held_get (Get_done (Inr 0)) (held (init_sys 8))\<rparr>"
  let ?y2 = "?y1\<lparr>cache := c2, pcs := (pcs ?y1)(0 := after_get (Get_done (Inr 1))),
      held := held_get (Get_done (Inr 1)) (held ?y1)\<rparr>"
  have "block_step (init_sys 8) ?y1" using demo_get by (intro block_step.get) (simp_all add: init_sys_def)
  moreover have "block_step ?y1 ?y2"
    using g2 by (intro block_step.get) (simp_all add: init_sys_def after_get_def)
  ultimately have "block_reachable 8 ?y2" by (meson reach.start reach.step)
  then show ?thesis
    by (intro exI [of _ ?y2]) (simp add: init_sys_def after_get_def held_get_def c2_def demo_cache_def
        init_block_info_def new_block_def)
qed

lemma ex_dirtying:
  "\<exists>y s. block_reachable 8 y \<and> pcs y 0 = Dirtying [0] \<and> pcs y 1 = Dirtying [1] \<and>
    SET_DIRTY (sets (cache y) s) \<and> block_list (sets (cache y) s) \<noteq> [] \<and> s \<in> set (wb_queue (cache y)) \<and>
    nr_writeback (cache y) = 0 \<and> sync_waiters (cache y) = 0"
proof -
  obtain y where y: "block_reachable 8 y" "\<And>t. pcs y t = Idle" "next_block (cache y) = 2" "0 < held y 0" "0 < held y 1"
      "\<And>b. bl_set (blocks (cache y) b) = None" "nr_dirty (cache y) = 0"
      "nr_writeback (cache y) = 0" "sync_waiters (cache y) = 0" using ex_two_gets by auto
  obtain c1 s where c1: "ngnfs_block_dirty_begin (Some 0) [0] (cache y) = Ret (Dirty_done 0, c1)"
      "\<And>b. bl_set (blocks c1 b) = (if b \<in> set [0] then Some s else bl_set (blocks (cache y) b))"
      "nr_dirty c1 = nr_dirty (cache y) + int (length (takeWhile (\<lambda>b. \<not> BL_DIRTY (blocks (cache y) b)) (rev [0])))"
      "next_block c1 = next_block (cache y)" "nr_writeback c1 = 0" "sync_waiters c1 = 0"
    using fresh_begin [of "[0]" "cache y" 0] y by (auto simp: dirty_throttled_def)
  let ?y1 = "y\<lparr>cache := c1, pcs := (pcs y)(0 := after_dirty [0] (Dirty_done 0))\<rparr>"
  have "block_step y ?y1" using y c1(1) by (intro block_step.dirty_begin) auto
  then have r1: "block_reachable 8 ?y1" by (rule reach.step [OF y(1)])
  have "nr_dirty c1 \<le> 1" using c1(3) y(7) by (simp split: if_splits)
  then obtain c2 where c2: "ngnfs_block_dirty_begin (Some 0) [1] c1 = Ret (Dirty_done 0, c2)"
      "nr_writeback c2 = 0" "sync_waiters c2 = 0"
    using fresh_begin [of "[1]" c1 0] y c1(2,5,6) by (auto simp: dirty_throttled_def)
  let ?y2 = "?y1\<lparr>cache := c2, pcs := (pcs ?y1)(1 := after_dirty [1] (Dirty_done 0))\<rparr>"
  have "block_step ?y1 ?y2" using y c1(4) c2 by (intro block_step.dirty_begin) (auto simp: after_dirty_def)
  then have "block_reachable 8 ?y2" by (rule reach.step [OF r1])
  moreover have "cache_inv c1" using blk.reach_inv [OF r1] by (simp add: sys_inv_def)
  then have "dirty_post [1] (Dirty_done 0) c1 c2" using c1(4) y(3) c2(1) by (intro dirty_begin_inv) auto
  ultimately show ?thesis
    using c2 by (auto simp: dirty_post_def holds_dirty_def after_dirty_def intro!: exI [of _ ?y2])
qed

subsection \<open>Concurrent modification, writeback and sync\<close>







lemma sum_set_writes:
  assumes inv: "cache_inv st"
  shows "nr_writeback st = (\<Sum>b<next_block st. writes st b)"
proof -
  note m = cache_invD(1) [OF inv] and io = cache_invD(4) [OF inv]
  let ?in = "\<lambda>s. set (block_list (sets st s))"
  have "nr_writeback st = (\<Sum>s<next_set st. \<Sum>b\<in>?in s. writes st b)"
    using io_okD(4) [OF io] io_okD(2) [OF io] members_okD(2) [OF m] by (simp add: sum_list_distinct_conv_sum_set)
  also have "\<dots> = (\<Sum>b\<in>(\<Union>s\<in>{..<next_set st}. ?in s). writes st b)"
    using members_okD(1) [OF m] by (intro sum.UNION_disjoint [symmetric]) (auto, metis option.inject)
  also have "\<dots> = (\<Sum>b<next_block st. writes st b)"
  proof (rule sum.mono_neutral_left)
    show "(\<Union>s\<in>{..<next_set st}. ?in s) \<subseteq> {..<next_block st}" using inv_member_bound [OF inv] by auto
    show "\<forall>b\<in>{..<next_block st} - (\<Union>s\<in>{..<next_set st}. ?in s). writes st b = 0"
    proof
      fix b assume b: "b \<in> {..<next_block st} - (\<Union>s\<in>{..<next_set st}. ?in s)"
      have "s < next_set st" if "b \<in> ?in s" for s using that members_okD(4) [OF m, of s] by (cases "s < next_set st") auto
      then have "bl_set (blocks st b) = None" using b members_okD(1) [OF m, of b] by (cases "bl_set (blocks st b)") auto
      then show "writes st b = 0" using b io_okD(1) [OF io, of b] by auto
    qed
  qed simp
  finally show ?thesis .
qed

text \<open>\<open>nr_writeback\<close> is the number of block writes that are queued or in flight, and
  a set with blocks stays in writeback only while one of its blocks has such a write.\<close>

theorem block_nr_writeback_counts:
  assumes "block_reachable depth y"
  shows "nr_writeback (cache y) = (\<Sum>b<next_block (cache y). writes (cache y) b) \<and>
    (\<forall>s. SET_WRITEBACK (sets (cache y) s) \<and> block_list (sets (cache y) s) \<noteq> [] \<longrightarrow>
       (\<exists>b\<in>set (block_list (sets (cache y) s)). writes (cache y) b = 1))"
proof -
  have inv: "cache_inv (cache y)" using blk.reach_inv [OF assms] by (simp add: sys_inv_def)
  note io = cache_invD(4) [OF inv]
  have "\<exists>b\<in>set (block_list (sets (cache y) s)). writes (cache y) b = 1"
    if "SET_WRITEBACK (sets (cache y) s)" "block_list (sets (cache y) s) \<noteq> []" for s
  proof (rule ccontr)
    assume no: "\<not> ?thesis"
    have "map (writes (cache y)) (block_list (sets (cache y) s)) = map (\<lambda>_. 0) (block_list (sets (cache y) s))"
      using no io_okD(1) [OF io inv_member_bound [OF inv]] by (intro map_cong) auto
    then have "submitted_blocks (sets (cache y) s) = 0" using io_okD(2) [OF io, of s] by (simp only: sum_list_0)
    then show False using io_okD(3) [OF io that] by simp
  qed
  then show ?thesis using sum_set_writes [OF inv] by blast
qed

theorem block_nr_writeback_counts_witness:
  "\<exists>y. block_reachable 8 y \<and> pcs y 0 = Dirtying [0] \<and> (\<Sum>b<next_block (cache y). writes (cache y) b) = 0"
proof -
  obtain y where "block_reachable 8 y" "pcs y 0 = Dirtying [0]" "nr_writeback (cache y) = 0" using ex_dirtying by blast
  then show ?thesis using block_nr_writeback_counts [of 8 y] by auto
qed

subsection \<open>Single operations\<close>

text \<open>A successful \<open>dirty_begin\<close> has put all of the caller's blocks into one set
  that nobody was dirtying before, that is marked dirty, is not being written and is
  queued for writeback, and has left the sets others are dirtying alone; any other
  result leaves the caller with no set marked as being dirtied.\<close>

theorem block_dirty_begin_result:
  assumes "cache_inv st" "\<forall>b\<in>set bs. b < next_block st" "bs \<noteq> []"
    and "ngnfs_block_dirty_begin km bs st = Ret (res, st')"
  shows "cache_inv st' \<and> keeps (dirtying st) st st' \<and>
    (if res = Dirty_done 0
     then \<exists>s. s \<notin> dirtying st \<and> dirtying st' = insert s (dirtying st) \<and>
       (\<forall>b\<in>set bs. bl_set (blocks st' b) = Some s) \<and> SET_DIRTY (sets st' s) \<and>
       \<not> SET_WRITEBACK (sets st' s) \<and> s \<in> set (wb_queue st')
     else dirtying st' = dirtying st)"
proof -
  have d: "dirty_post bs res st st'" using assms by (rule dirty_begin_inv)
  then have i: "cache_inv st'" "keeps (dirtying st) st st'" by (simp_all add: dirty_post_def walk_step_def)
  show ?thesis
  proof (cases "res = Dirty_done 0")
    case True
    then obtain s where s: "s \<notin> dirtying st" "dirtying st' = insert s (dirtying st)" "holds_dirty st' bs s"
        "SET_DIRTY (sets st' s)" "s \<in> set (wb_queue st')" using d by (auto simp: dirty_post_def)
    then show ?thesis
      using i True writeback_front_not_writing [OF i(1) s(5)] unfolding holds_dirty_def by metis
  qed (use d i in \<open>simp add: dirty_post_def\<close>)
qed

theorem block_dirty_begin_result_witness:
  "\<exists>st st'. cache_inv st \<and> ngnfs_block_dirty_begin (Some 0) [0, 1] st = Ret (Dirty_done 0, st') \<and>
     bl_set (blocks st' 0) = bl_set (blocks st' 1) \<and> bl_set (blocks st' 0) \<noteq> None"
proof -
  obtain y where y: "block_reachable 8 y" "next_block (cache y) = 2" "\<And>b. bl_set (blocks (cache y) b) = None"
      "nr_dirty (cache y) = 0" using ex_two_gets by auto
  have inv: "cache_inv (cache y)" using blk.reach_inv [OF y(1)] by (simp add: sys_inv_def)
  obtain st' where b: "ngnfs_block_dirty_begin (Some 0) [0, 1] (cache y) = Ret (Dirty_done 0, st')"
    using fresh_begin [of "[0, 1]" "cache y" 0] y by (auto simp: dirty_throttled_def)
  show ?thesis using block_dirty_begin_result [OF inv _ _ b] y(2) b inv by fastforce
qed

text \<open>a group of blocks that are in no set becomes one set with exactly these blocks,
  in the caller's order and of any size, and \<open>nr_dirty\<close> grows by the number of blocks
  after the last one whose dirty bit was still set.\<close>

theorem block_dirty_begin_fresh_group:
  assumes "distinct bs" "bs \<noteq> []" "\<forall>b\<in>set bs. bl_set (blocks st b) = None" "nr_dirty st < DIRTY_LIMIT"
  shows "\<exists>st'. ngnfs_block_dirty_begin (Some junk) bs st = Ret (Dirty_done 0, st') \<and>
    block_list (sets st' (next_set st)) = bs \<and> set_size (sets st' (next_set st)) = length bs \<and>
    (\<forall>b\<in>set bs. bl_set (blocks st' b) = Some (next_set st)) \<and>
    nr_dirty st' = nr_dirty st + int (length (takeWhile (\<lambda>b. \<not> BL_DIRTY (blocks st b)) (rev bs)))"
  using fresh_begin [OF assms(1-3), of junk] assms(4) by (auto simp: dirty_throttled_def)

theorem block_dirty_begin_fresh_group_witness:
  "\<exists>st'. ngnfs_block_dirty_begin (Some 0) [0..<65] (init_block_info 8) = Ret (Dirty_done 0, st') \<and>
     set_size (sets st' 0) = 65 \<and> SET_LIMIT < set_size (sets st' 0)"
  using block_dirty_begin_fresh_group [of "[0..<65]" "init_block_info 8" 0]
  by (auto simp: init_block_info_def new_block_def)

text \<open>a block that was written before is not counted again when it is dirtied alone,
  although its set has size one and will be subtracted when it has been written.\<close>

theorem block_redirty_not_counted:
  assumes "bl_set (blocks st b) = None" "BL_DIRTY (blocks st b)" "nr_dirty st < DIRTY_LIMIT"
  shows "\<exists>st'. ngnfs_block_dirty_begin (Some junk) [b] st = Ret (Dirty_done 0, st') \<and>
    set_size (sets st' (next_set st)) = 1 \<and> nr_dirty st' = nr_dirty st"
  using fresh_begin [of "[b]" st junk] assms by (auto simp: dirty_throttled_def)

theorem block_redirty_not_counted_witness:
  "\<exists>st'. ngnfs_block_dirty_begin (Some 0) [0] (upd_block (init_block_info 8) 0 (\<lambda>bl. bl\<lparr>BL_DIRTY := True\<rparr>)) =
     Ret (Dirty_done 0, st') \<and> nr_dirty st' = 0"
  using block_redirty_not_counted [of "upd_block (init_block_info 8) 0 (\<lambda>bl. bl\<lparr>BL_DIRTY := True\<rparr>)" 0 0]
  by (auto simp: init_block_info_def new_block_def upd_block_def)

text \<open>A get that returns or waits for a block gives the cache's only block of that
  number, the number is then in the hash table, and a later get of the number without a
  bad flag gives the same block.\<close>

theorem block_get_unique:
  assumes "cache_inv st" "ngnfs_block_get ok st bnr nbf = Ret (r, st')"
    and "r = Get_done (Inr b) \<or> r = Get_wait b"
    and "ngnfs_block_get ok' st' bnr nbf' = Ret (r', st'')" "r' = Get_done (Inr b') \<or> r' = Get_wait b'"
  shows "bl_bnr (blocks st' b) = bnr \<and> map_of (ht st') bnr = Some b \<and> b' = b"
proof -
  have i1: "cache_inv st'" and b: "b < next_block st'" "bl_bnr (blocks st' b) = bnr"
    using block_get_inv [OF assms(1,2)] assms(3) by (auto simp: safe_step_def)
  then have h: "map_of (ht st') bnr = Some b" using ht_okD(1) [OF cache_invD(3)] by blast
  have nb: "\<not> bad_nbf nbf'" using assms(4,5) by (auto simp: ngnfs_block_get_def)
  have "lookup_or_alloc_block ok' st' bnr = Ret (Inr b, get_block st' b)"
    using h by (simp add: lookup_or_alloc_block_def lookup_block_def)
  then have "b' = b"
    using assms(4,5) nb by (auto simp: ngnfs_block_get_def Let_def run_simps block_get_finish_def split: if_splits)
  then show ?thesis using b h by simp
qed

theorem block_get_unique_witness:
  "\<exists>st st'. ngnfs_block_get True (init_block_info 8) 5 NBF_NEW = Ret (Get_done (Inr 0), st) \<and>
     ngnfs_block_get True st 5 NBF_NEW = Ret (Get_done (Inr 0), st') \<and> map_of (ht st) 5 = Some 0"
proof -
  have bad: "bad_nbf NBF_NEW = False" by (simp add: bad_nbf_def) (simp add: hweight_long_def upt_conv_Cons)
  have "\<exists>st'. ngnfs_block_get True demo_cache 5 NBF_NEW = Ret (Get_done (Inr 0), st')"
    using bad by (simp add: ngnfs_block_get_def lookup_or_alloc_block_def lookup_block_def demo_cache_def
        init_block_info_def get_block_def upd_block_def new_block_def block_get_finish_def)
  then obtain st' where g: "ngnfs_block_get True demo_cache 5 NBF_NEW = Ret (Get_done (Inr 0), st')" by blast
  show ?thesis
    using block_get_unique [OF init_cache_inv demo_get _ g, of 0 0] demo_get g by auto
qed

text \<open>Waiters of a sync leaving one after the other: what each returns, and the state after.\<close>

primrec leave_sync :: "nat \<Rightarrow> block_info \<Rightarrow> int list \<times> block_info" where
  "leave_sync 0 st = ([], st)"
| "leave_sync (Suc n) st =
     (case sync_waiters_dec_error st of (ret, st) \<Rightarrow>
        case leave_sync n st of (rets, st) \<Rightarrow> (ret # rets, st))"

lemma leave_sync_clean:
  "sync_waiters st = 2 * int n \<Longrightarrow> fst (leave_sync n st) = replicate n 0 \<and> sync_waiters (snd (leave_sync n st)) = 0"
proof (induction n arbitrary: st)
  case (Suc n)
  let ?st1 = "st\<lparr>sync_waiters := 2 * int n\<rparr>"
  have "sync_waiters st AND 1 = 0" using Suc.prems by (simp add: and_one_eq)
  moreover have "2 * int n \<noteq> 1" by presburger
  ultimately have "sync_waiters_dec_error st = (0, ?st1)"
    using Suc.prems by (simp add: sync_waiters_dec_error_def Let_def)
  then show ?case using Suc.IH [of ?st1] by (auto split: prod.splits)
qed simp

lemma leave_sync_error:
  "sync_waiters st = 2 * int n + 1 \<Longrightarrow> 0 < n \<Longrightarrow>
    fst (leave_sync n st) = replicate n (- EIO) \<and> sync_waiters (snd (leave_sync n st)) = 0"
proof (induction n arbitrary: st)
  case (Suc n)
  have a: "sync_waiters st AND 1 = 1" using Suc.prems by (simp add: and_one_eq)
  show ?case
  proof (cases n)
    case 0
    then show ?thesis using Suc.prems a by (simp add: sync_waiters_dec_error_def Let_def)
  next
    case (Suc k)
    let ?st1 = "st\<lparr>sync_waiters := 2 * int n + 1\<rparr>"
    have "sync_waiters_dec_error st = (- EIO, ?st1)"
      using Suc.prems a Suc by (simp add: sync_waiters_dec_error_def Let_def)
    then show ?thesis using Suc.IH [of ?st1] Suc by (auto split: prod.splits)
  qed
qed simp

text \<open>an IO error while \<open>n\<close> callers wait in sync is returned to each of them and is
  forgotten when the last one has left; without an error each returns 0.\<close>

theorem sync_waiters_error_latch:
  assumes "sync_waiters st = 2 * int n" "0 < n"
  shows "fst (leave_sync n (sync_waiters_set_error st)) = replicate n (- EIO) \<and>
    sync_waiters (snd (leave_sync n (sync_waiters_set_error st))) = 0 \<and>
    fst (leave_sync n st) = replicate n 0 \<and> sync_waiters (snd (leave_sync n st)) = 0"
proof -
  have "sync_waiters (sync_waiters_set_error st) = 2 * int n + 1"
    using assms by (simp add: sync_waiters_set_error_def Let_def or_one_eq)
  then show ?thesis using leave_sync_error [of "sync_waiters_set_error st" n] leave_sync_clean assms by simp
qed

theorem sync_waiters_error_latch_witness:
  "fst (leave_sync 2 (sync_waiters_set_error (sync_waiters_inc (sync_waiters_inc (init_block_info 8))))) = [- EIO, - EIO]"
  using sync_waiters_error_latch [of "sync_waiters_inc (sync_waiters_inc (init_block_info 8))" 2]
  by (simp add: sync_waiters_inc_def init_block_info_def numeral_2_eq_2)

end
