(* ===== verification/Block_Submit.thy ===== *)
theory Block_Submit
  imports Block_Props
begin

text \<open>
  How many requests the block cache can ever submit.  \<open>nr_submitted\<close> only grows, and
  nothing is submitted once it has reached the queue depth of the transport.
\<close>

subsection \<open>What an operation does to the submission state\<close>

definition submit_frame :: "block_info \<Rightarrow> int \<times> int \<times> bool \<times> (btx_op \<times> u64 \<times> mem) list" where
  "submit_frame st = (nr_submitted st, queue_depth st, submit_queued st, in_transport st)"

text \<open>Nothing is submitted, and the work is queued only below the queue depth.\<close>

definition no_submit :: "block_info \<Rightarrow> block_info \<Rightarrow> bool" where
  "no_submit st st' \<longleftrightarrow> nr_submitted st' = nr_submitted st \<and> queue_depth st' = queue_depth st \<and>
     set (in_transport st') \<subseteq> set (in_transport st) \<and>
     (submit_queued st' \<longrightarrow> submit_queued st \<or> nr_submitted st < queue_depth st)"

lemma no_submit_refl [simp]: "no_submit st st"
  by (simp add: no_submit_def)

lemma no_submit_trans: "no_submit st st' \<Longrightarrow> no_submit st' st'' \<Longrightarrow> no_submit st st''"
  by (auto simp: no_submit_def)

lemma no_submit_frame: "submit_frame st' = submit_frame st \<Longrightarrow> no_submit st st'"
  by (simp add: no_submit_def submit_frame_def)

named_theorems submit_frames \<open>operations that leave the submission state alone\<close>

lemma submit_frame_upd [submit_frames]:
  "submit_frame (upd_block st b f) = submit_frame st" "submit_frame (upd_set st s g) = submit_frame st"
  "submit_frame (get_block st b) = submit_frame st" "submit_frame (get_set st s) = submit_frame st"
  "submit_frame (try_queue_writeback_work st) = submit_frame st"
  "submit_frame (sync_waiters_inc st) = submit_frame st" "submit_frame (sync_waiters_set_error st) = submit_frame st"
  "submit_frame (sync_up_to_seq st seq) = submit_frame st" "submit_frame (snd (sync_finish st)) = submit_frame st"
  by (simp_all add: submit_frame_def upd_block_def upd_set_def get_block_def get_set_def try_queue_writeback_work_def
      sync_waiters_inc_def sync_waiters_set_error_def sync_up_to_seq_def sync_finish_def sync_waiters_dec_error_def Let_def)

lemma submit_frame_put_block: "put_block st b = Ret st' \<Longrightarrow> submit_frame st' = submit_frame st"
  by (auto simp: put_block_def free_block_def Let_def run_simps submit_frames split: if_splits)

lemma submit_frame_put_set: "put_set st so = Ret st' \<Longrightarrow> submit_frame st' = submit_frame st"
  by (auto simp: put_set_def Let_def run_simps submit_frames split: if_splits option.splits)

subsection \<open>Dirtying\<close>

lemma ball_True: "\<forall>b\<in>A. True"
  by simp

lemma submit_frame_get_other_set: "get_other_set km st b e = (r, st') \<Longrightarrow> submit_frame st' = submit_frame st"
  by (auto simp: get_other_set_def Let_def submit_frame_def upd_block_def upd_set_def get_set_def split: option.splits if_splits)

lemma submit_frame_drop_clean [submit_frames]: "submit_frame (drop_clean st s bs) = submit_frame st"
  by (induction bs arbitrary: st) (simp_all add: submit_frames)

lemma submit_frame_move [submit_frames]: "submit_frame (move_to_set st l bs) = submit_frame st"
  by (induction bs arbitrary: st) (simp_all add: submit_frames)

lemma submit_frame_mark [submit_frames]: "submit_frame (mark_dirty st bs) = submit_frame st"
proof (induction bs arbitrary: st)
  case (Cons b bs)
  have "submit_frame ((upd_block st b f)\<lparr>nr_dirty := n\<rparr>) = submit_frame st" for f n
    by (simp add: submit_frame_def upd_block_def)
  then show ?case by (simp add: Cons)
qed simp

lemma submit_frame_clear [submit_frames]:
  "submit_frame (clear_set_dirtying st s) = submit_frame st" "submit_frame (clear_set_dirtying_opt st so) = submit_frame st"
  by (simp_all add: clear_set_dirtying_def clear_set_dirtying_opt_def Let_def submit_frames split: option.splits)

lemma submit_frame_merge [submit_frames]: "submit_frame (merge_sets st a b) = submit_frame st"
  by (simp add: merge_sets_def Let_def submit_frames)

lemma submit_frame_dirty_large [submit_frames]: "submit_frame (dirty_large st l) = submit_frame st"
proof -
  have "submit_frame ((upd_set (st\<lparr>dirty_seq := n\<rparr>) s f)\<lparr>writeback_llist := ll\<rparr>) = submit_frame st" for st n s f ll
    by (simp add: submit_frame_def upd_set_def)
  then show ?thesis by (simp add: dirty_large_def Let_def submit_frames)
qed

interpretation sf: walk_large_kept "\<lambda>c. submit_frame c = f" "\<lambda>_. True" for f
  by unfold_locales (auto simp: submit_frames dest: submit_frame_put_set submit_frame_get_other_set)

lemmas submit_frame_restart = sf.restart_keeps [OF refl ball_True]
  and submit_frame_begin = sf.begin_keeps [OF refl ball_True]
  and submit_frame_resume = sf.resume_keeps [OF refl ball_True]

lemma submit_frame_end: "ngnfs_block_dirty_end bs st = Ret st' \<Longrightarrow> submit_frame st' = submit_frame st"
  by (auto simp: ngnfs_block_dirty_end_def run_simps submit_frames dest!: submit_frame_put_set split: list.splits option.splits)

subsection \<open>Getting, writeback and completion\<close>

lemma no_submit_try: "no_submit st (try_queue_submit_work st)"
  by (simp add: no_submit_def try_queue_submit_work_def)

lemma submit_frame_llist_add: "llist_add_submit st b = Ret st' \<Longrightarrow> submit_frame st' = submit_frame st"
  by (auto simp: llist_add_submit_def submit_frame_def split: if_splits)

lemma submit_frame_lookup_alloc:
  "lookup_or_alloc_block ok st bnr = Ret (r, st') \<Longrightarrow> submit_frame st' = submit_frame st"
  by (auto simp: lookup_or_alloc_block_def lookup_block_def alloc_block_def run_simps submit_frames
      dest!: submit_frame_put_block split: option.splits if_splits)
    (simp_all add: submit_frame_def get_block_def upd_block_def)

lemma submit_frame_finish: "block_get_finish st b = Ret (r, st') \<Longrightarrow> submit_frame st' = submit_frame st"
  by (auto simp: block_get_finish_def run_simps dest!: submit_frame_put_block split: if_splits)

lemma no_submit_get:
  assumes "ngnfs_block_get ok st bnr nbf = Ret (r, st')"
  shows "no_submit st st'"
proof (cases "bad_nbf nbf")
  case False
  then obtain x st1 where l: "lookup_or_alloc_block ok st bnr = Ret (x, st1)"
    using assms by (auto simp: ngnfs_block_get_def run_simps)
  have f1: "no_submit st st1" using submit_frame_lookup_alloc [OF l] by (rule no_submit_frame)
  show ?thesis
  proof (cases x)
    case (Inl err)
    then show ?thesis using assms False l f1 by (auto simp: ngnfs_block_get_def)
  next
    case (Inr b)
    define st2 where "st2 = (if nbf AND NBF_NEW \<noteq> 0
        then upd_block st1 b (\<lambda>bl. bl\<lparr>bl_page := \<lambda>i. if i < 4096 then 0 else bl_page bl i, BL_UPTODATE := True\<rparr>) else st1)"
    have f2: "no_submit st1 st2" by (rule no_submit_frame) (simp add: st2_def submit_frames)
    let ?rd = "get_block (upd_block st2 b (\<lambda>bl. bl\<lparr>BL_READING := True\<rparr>)) b"
    have g: "(if \<not> BL_UPTODATE (blocks st2 b)
        then bind_run (if BL_READING (blocks st2 b) then Ret st2
                       else bind_run (llist_add_submit ?rd b) (\<lambda>st. Ret (try_queue_submit_work st)))
               (\<lambda>st. Ret (Get_wait b, st))
        else bind_run (block_get_finish st2 b) (\<lambda>(r, st). Ret (Get_done r, st))) = Ret (r, st')"
      using assms False l Inr unfolding ngnfs_block_get_def Let_def st2_def by simp
    have rd: "no_submit st2 st3" if "llist_add_submit ?rd b = Ret st3" for st3
      using submit_frame_llist_add [OF that] by (intro no_submit_frame) (simp add: submit_frames)
    consider "st' = st2" | st3 where "llist_add_submit ?rd b = Ret st3" "st' = try_queue_submit_work st3"
      | y where "block_get_finish st2 b = Ret (y, st')"
      using g by (auto simp: run_simps split: if_splits)
    then have "no_submit st2 st'"
    proof cases
      case (2 st3)
      then show ?thesis using rd no_submit_try no_submit_trans by blast
    next
      case (3 y)
      then show ?thesis by (intro no_submit_frame submit_frame_finish)
    qed simp
    then show ?thesis using f1 f2 no_submit_trans by blast
  qed
qed (use assms in \<open>simp add: ngnfs_block_get_def\<close>)

lemma submit_frame_queue_set: "queue_set_blocks bs st = Ret st' \<Longrightarrow> submit_frame st' = submit_frame st"
proof (induction bs arbitrary: st)
  case (Cons b bs)
  then obtain st1 where "llist_add_submit (get_block st b) b = Ret st1" "queue_set_blocks bs st1 = Ret st'"
    by (auto simp: run_simps)
  then show ?case using Cons.IH submit_frame_llist_add by (simp add: submit_frames)
qed simp

lemma no_submit_writeback_set:
  assumes "writeback_set s st = Ret st'"
  shows "no_submit st st'"
proof -
  define st1 where "st1 = st\<lparr>writeback_list := remove1 s (writeback_list st)\<rparr>"
  define st2 where "st2 = get_set (upd_set (st1\<lparr>nr_writeback := nr_writeback st1 + int (set_size (sets st1 s))\<rparr>) s
      (\<lambda>x. x\<lparr>submitted_blocks := submitted_blocks x + int (set_size x)\<rparr>)) s"
  have f: "submit_frame st1 = submit_frame st" "submit_frame st2 = submit_frame st"
    by (simp_all add: st1_def st2_def submit_frames) (simp_all add: submit_frame_def)
  have last: "no_submit st3 st'" if "put_set (st3\<lparr>writeback_seq := writeback_seq st3 + 1\<rparr>) (Some s) = Ret st'" for st3
    using submit_frame_put_set [OF that] by (intro no_submit_frame) (simp add: submit_frame_def)
  show ?thesis
  proof (cases "set_size (sets st1 s) > 0")
    case True
    obtain st4 where q: "queue_set_blocks (block_list (sets st2 s)) st2 = Ret st4"
      "put_set ((try_queue_submit_work st4)\<lparr>writeback_seq := writeback_seq (try_queue_submit_work st4) + 1\<rparr>) (Some s) = Ret st'"
      using assms True unfolding writeback_set_def Let_def st1_def [symmetric] st2_def [symmetric] by (auto simp: run_simps)
    have "no_submit st st4" using submit_frame_queue_set [OF q(1)] f(2) by (intro no_submit_frame) simp
    then show ?thesis using no_submit_try last [OF q(2)] no_submit_trans by blast
  next
    case False
    then have "put_set (st1\<lparr>writeback_seq := writeback_seq st1 + 1\<rparr>) (Some s) = Ret st'"
      using assms unfolding writeback_set_def Let_def st1_def [symmetric] by (simp add: run_simps)
    then show ?thesis using last no_submit_frame [OF f(1)] no_submit_trans by blast
  qed
qed

lemma no_submit_writeback_loop: "writeback_loop ss st = Ret (r, st') \<Longrightarrow> no_submit st st'"
proof (induction ss arbitrary: st)
  case (Cons s ss)
  let ?w = "upd_set st s (\<lambda>x. x\<lparr>SET_WRITEBACK := True\<rparr>)"
  have w: "no_submit st ?w" by (rule no_submit_frame) (simp add: submit_frames)
  consider "st' = st" | "st' = upd_set ?w s (\<lambda>x. x\<lparr>SET_WRITEBACK := False\<rparr>)"
    | st1 where "writeback_set s ?w = Ret st1" "writeback_loop ss st1 = Ret (r, st')"
    using Cons.prems by (auto simp: Let_def run_simps split: if_splits)
  then show ?case
  proof cases
    case 2
    then show ?thesis by (intro no_submit_frame) (simp add: submit_frames)
  next
    case (3 st1)
    then show ?thesis using w no_submit_writeback_set Cons.IH no_submit_trans by blast
  qed simp
qed simp

lemma no_submit_writeback_work: "ngnfs_block_writeback_work st = Ret (r, st') \<Longrightarrow> no_submit st st'"
proof -
  assume a: "ngnfs_block_writeback_work st = Ret (r, st')"
  obtain l ll where d: "del_all_reverse_add_tail (writeback_list st) (writeback_llist st) = (l, ll)" by fastforce
  let ?st1 = "st\<lparr>writeback_list := l, writeback_llist := ll, writeback_queued := False\<rparr>"
  have "no_submit st ?st1" by (rule no_submit_frame) (simp add: submit_frame_def)
  moreover have "no_submit ?st1 st'"
    using a d no_submit_writeback_loop by (simp add: ngnfs_block_writeback_work_def Let_def)
  ultimately show ?thesis by (rule no_submit_trans)
qed

lemma submit_frame_release [submit_frames]: "submit_frame (release_blocks st s bs) = submit_frame st"
  by (induction bs arbitrary: st) (simp_all add: submit_frames)

lemma submit_frame_end_read [submit_frames]: "submit_frame (end_read_io st b p) = submit_frame st"
  by (simp add: end_read_io_def Let_def submit_frames split: option.splits)

lemma submit_frame_end_write: "end_write_io st b = Ret st' \<Longrightarrow> submit_frame st' = submit_frame st"
proof -
  have *: "submit_frame (st\<lparr>nr_writeback := n\<rparr>) = submit_frame st" "submit_frame (st\<lparr>nr_dirty := m\<rparr>) = submit_frame st" for st n m
    by (simp_all add: submit_frame_def)
  show "end_write_io st b = Ret st' \<Longrightarrow> submit_frame st' = submit_frame st"
    by (auto simp: end_write_io_def Let_def run_simps submit_frames * dest!: submit_frame_put_set split: option.splits if_splits)
qed

lemma submit_frame_end_io:
  assumes "ngnfs_block_end_io st bnr p err = Ret st'"
  shows "submit_frame st' = submit_frame (transport_done st bnr)"
  using assms
proof (rule end_io_split)
  fix b st3
  let ?st2 = "end_io_found st bnr err b"
  assume r: "(if BL_READING (blocks ?st2 b) then Ret (end_read_io ?st2 b p) else end_write_io ?st2 b) = Ret st3"
    "put_block st3 b = Ret st'"
  have "submit_frame ?st2 = submit_frame (transport_done st bnr)" by (simp add: end_io_found_def Let_def submit_frames)
  moreover have "submit_frame st3 = submit_frame ?st2" using r(1) submit_frame_end_write
    by (auto simp: submit_frames split: if_splits)
  ultimately show ?thesis using submit_frame_put_block [OF r(2)] by simp
qed

lemma no_submit_end_io:
  assumes "ngnfs_block_end_io st bnr p err = Ret st'"
  shows "no_submit st st'"
proof -
  have "no_submit st (transport_done st bnr)"
    using transport_done_subset [of st bnr] by (auto simp: no_submit_def transport_done_def)
  then show ?thesis using no_submit_frame [OF submit_frame_end_io [OF assms]] no_submit_trans by blast
qed

subsection \<open>The submission work\<close>

lemma submit_loop_bound:
  assumes "submit_loop ret bs space st = Ret st'"
  shows "nr_submitted st' \<le> nr_submitted st + max 0 (space + 1) \<and> queue_depth st' = queue_depth st \<and>
    submit_queued st' = submit_queued st"
  using assms
proof (induction bs arbitrary: space st)
  case (Cons b bs)
  show ?case
  proof (cases "space < 0")
    case False
    then obtain op st1 where p: "put_block (st\<lparr>submit_list := remove1 b (submit_list st), nr_submitted := nr_submitted st + 1,
          in_transport := in_transport st @ [op]\<rparr>) b = Ret st1" "submit_loop ret bs (space - 1) st1 = Ret st'"
      using Cons.prems by (auto simp: Let_def run_simps)
    then show ?thesis using Cons.IH [OF p(2)] submit_frame_put_block [OF p(1)] False by (auto simp: submit_frame_def)
  qed (use Cons.prems in simp)
qed simp

lemma submit_work_bound:
  assumes "ngnfs_block_submit_work ret st = Ret st'" "nr_submitted st < queue_depth st"
  shows "nr_submitted st' \<le> queue_depth st + 1 \<and> queue_depth st' = queue_depth st \<and> \<not> submit_queued st'"
proof -
  obtain l ll where d: "del_all_reverse_add_tail (submit_list st) (submit_llist st) = (l, ll)" by fastforce
  then have "submit_loop ret l (queue_depth st - nr_submitted st) (st\<lparr>submit_list := l, submit_llist := ll, submit_queued := False\<rparr>) = Ret st'"
    using assms(1) by (simp add: ngnfs_block_submit_work_def)
  from submit_loop_bound [OF this] show ?thesis using assms(2) by simp
qed

lemmas no_submit_ops = no_submit_get no_submit_writeback_work no_submit_end_io
  no_submit_frame [OF submit_frame_finish] no_submit_frame [OF submit_frame_put_block]
  no_submit_frame [OF submit_frame_begin] no_submit_frame [OF submit_frame_restart]
  no_submit_frame [OF submit_frame_resume] no_submit_frame [OF submit_frame_end]

text \<open>Every step that is not the submission work submits nothing.\<close>

lemma block_step_no_submit:
  assumes "block_step y y'"
  obtains "no_submit (cache y) (cache y')"
  | ret where "submit_queued (cache y)" "ngnfs_block_submit_work ret (cache y) = Ret (cache y')"
  using assms
proof cases
  case (submit_work ret c)
  then show thesis by (intro that(2)) auto
next
  case (sync t seq c)
  then have "submit_frame c = submit_frame (cache y)" by (auto simp: ngnfs_block_sync_def submit_frames)
  then show thesis using sync by (intro that(1) no_submit_frame) simp
next
  case (sync_woken t seq ret c)
  then have "submit_frame c = submit_frame (cache y)" using submit_frame_upd(9) [of "cache y"] by simp
  then show thesis using sync_woken by (intro that(1) no_submit_frame) simp
next
  case (modify t bs b page)
  then show thesis by (intro that(1) no_submit_frame) (simp add: submit_frames)
qed (auto simp: ngnfs_block_put_def intro: that(1) no_submit_ops)

definition submit_inv :: "int \<Rightarrow> sys \<Rightarrow> bool" where
  "submit_inv depth y \<longleftrightarrow> queue_depth (cache y) = depth \<and> nr_submitted (cache y) \<le> depth + 1 \<and>
     (submit_queued (cache y) \<longrightarrow> nr_submitted (cache y) < depth)"

interpretation sub: kept_system block_step "submit_inv depth" for depth
proof
  fix y y' assume i: "submit_inv depth y" and s: "block_step y y'"
  from s show "submit_inv depth y'"
  proof (cases rule: block_step_no_submit)
    case 1
    then show ?thesis using i by (auto simp: submit_inv_def no_submit_def)
  next
    case (2 ret)
    then show ?thesis using i submit_work_bound [OF 2(2)] by (auto simp: submit_inv_def)
  qed
qed

definition stalled :: "int \<Rightarrow> int \<Rightarrow> (btx_op \<times> u64 \<times> mem) set \<Rightarrow> sys \<Rightarrow> bool" where
  "stalled depth n T y \<longleftrightarrow> queue_depth (cache y) = depth \<and> nr_submitted (cache y) = n \<and> depth \<le> n \<and>
     \<not> submit_queued (cache y) \<and> set (in_transport (cache y)) \<subseteq> T"

interpretation stall: kept_system block_step "stalled depth n T" for depth n T
proof
  fix y y' assume i: "stalled depth n T y" and s: "block_step y y'"
  from s show "stalled depth n T y'"
    by (cases rule: block_step_no_submit) (use i in \<open>auto simp: stalled_def no_submit_def\<close>)
qed


text \<open>A transport of depth 1 after the first read: nothing is ever submitted again.\<close>

definition example_read :: sys where
  "example_read = \<lparr>cache = (init_block_info 1)\<lparr>ht := [(5, 0)], next_block := 1, nr_submitted := 1,
      in_transport := [(NGNFS_BTX_OP_GET_READ, 5, \<lambda>_. 0)],
      blocks := (\<lambda>_. new_block 0)(0 := (new_block 5)\<lparr>bl_refcount := 2, BL_READING := True\<rparr>)\<rparr>,
    pcs = (\<lambda>_. Idle)(0 := Getting 0), held = (\<lambda>_. 0)\<rparr>"

definition example_queued :: "int \<Rightarrow> block_info" where
  "example_queued depth = (init_block_info depth)\<lparr>ht := [(5, 0)], next_block := 1, submit_llist := [0], submit_queued := True,
      blocks := (\<lambda>_. new_block 0)(0 := (new_block 5)\<lparr>bl_refcount := 3, BL_READING := True\<rparr>)\<rparr>"

definition example_got :: "int \<Rightarrow> sys" where
  "example_got depth = \<lparr>cache = example_queued depth, pcs = (\<lambda>_. Idle)(0 := Getting 0), held = (\<lambda>_. 0)\<rparr>"

lemma example_got_step:
  assumes "0 < depth"
  shows "block_step (init_sys depth) (example_got depth)"
proof -
  have bad: "\<not> bad_nbf NBF_READ" by (simp add: bad_nbf_def) (simp add: hweight_long_def upt_conv_Cons)
  have "ngnfs_block_get True (init_block_info depth) 5 NBF_READ = Ret (Get_wait 0, example_queued depth)"
    using bad assms by (simp add: ngnfs_block_get_def lookup_or_alloc_block_def lookup_block_def init_block_info_def
        alloc_block_def get_block_def upd_block_def new_block_def llist_add_submit_def try_queue_submit_work_def
        example_queued_def fun_eq_iff)
  then show ?thesis
    using block_step.get [of "init_sys depth" 0 True 5 NBF_READ "Get_wait 0" "example_queued depth"]
    by (simp add: init_sys_def after_get_def held_get_def example_got_def)
qed

lemma example_steps: "block_step (init_sys 1) (example_got 1)" "block_step (example_got 1) example_read"
proof -
  show "block_step (init_sys 1) (example_got 1)" by (rule example_got_step) simp
  have "ngnfs_block_submit_work (\<lambda>_ _. 0) (example_queued 1) = Ret (cache example_read)"
    by (simp add: ngnfs_block_submit_work_def example_queued_def example_read_def del_all_reverse_add_tail_def
        init_block_info_def put_block_def upd_block_def new_block_def Let_def fun_eq_iff)
  then show "block_step (example_got 1) example_read"
    using block_step.submit_work [of "example_got 1" "\<lambda>_ _. 0" "cache example_read"]
    by (simp add: example_got_def example_queued_def example_read_def init_block_info_def)
qed

lemma example_read_reachable: "block_reachable 1 example_read"
  using example_steps by (meson reach.intros)


end
