(* ===== verification/Block_Ref.thy ===== *)
theory Block_Ref
  imports Block_Sys
begin

text \<open>
  The reference counts of the block cache, as an invariant of all its reachable states.  A block
  has the reference of the hash table, one for every reference a caller was given, one for every
  thread that waits for its read, and one for its entry on a submission list.  A set has the
  reference its creation leaves for \<open>bl->set\<close>, one for every entry in the writeback queue, one while
  blocks of it are being written, and those of the threads that dirty its blocks.  Neither the
  hash table's reference nor the one of \<open>bl->set\<close> is ever put before the teardown, so nothing is
  freed while a list or a thread can reach it.
\<close>

subsection \<open>Sets\<close>

text \<open>\<open>ext\<close> are the references the threads hold.\<close>

definition set_refs_ok :: "(sid \<Rightarrow> nat) \<Rightarrow> block_info \<Rightarrow> bool" where
  "set_refs_ok ext st \<longleftrightarrow>
     (\<forall>s < next_set st. \<not> set_freed (sets st s) \<and>
        set_refcount (sets st s) =
          1 + int (count_list (wb_queue st) s) + of_bool (0 < submitted_blocks (sets st s)) + int (ext s)) \<and>
     (\<forall>s. next_set st \<le> s \<longrightarrow> ext s = 0 \<and> s \<notin> set (wb_queue st)) \<and>
     (\<forall>b s. bl_set (blocks st b) = Some s \<longrightarrow> s < next_set st)"

definition ref_of :: "sid option \<Rightarrow> sid \<Rightarrow> nat" where
  "ref_of so s = of_bool (so = Some s)"

lemma ref_of_simps [simp]: "ref_of None s = 0" "ref_of (Some t) s = of_bool (t = s)"
  by (simp_all add: ref_of_def)

lemma set_refs_okD:
  assumes "set_refs_ok ext st"
  shows "s < next_set st \<Longrightarrow> set_refcount (sets st s) =
      1 + int (count_list (wb_queue st) s) + of_bool (0 < submitted_blocks (sets st s)) + int (ext s)"
    and "s < next_set st \<Longrightarrow> \<not> set_freed (sets st s)"
    and "0 < ext s \<Longrightarrow> s < next_set st" and "s \<in> set (wb_queue st) \<Longrightarrow> s < next_set st"
    and "bl_set (blocks st b) = Some s \<Longrightarrow> s < next_set st"
  using assms by (auto simp: set_refs_ok_def) (metis leI less_irrefl, meson leI)

text \<open>What of a state the counts of the sets depend on.\<close>

definition set_view :: "block_info \<Rightarrow> nat \<times> sid list \<times> (sid \<Rightarrow> int \<times> bool \<times> int)" where
  "set_view st = (next_set st, wb_queue st,
     \<lambda>s. (set_refcount (sets st s), set_freed (sets st s), submitted_blocks (sets st s)))"

lemma set_refs_ok_view:
  assumes "set_refs_ok ext st" "set_view st' = set_view st"
    and "\<And>b s. bl_set (blocks st' b) = Some s \<Longrightarrow> bl_set (blocks st b) = Some s \<or> s < next_set st"
  shows "set_refs_ok ext st'"
proof -
  have v: "next_set st' = next_set st" "wb_queue st' = wb_queue st"
    "set_refcount (sets st' s) = set_refcount (sets st s)" "set_freed (sets st' s) = set_freed (sets st s)"
    "submitted_blocks (sets st' s) = submitted_blocks (sets st s)" for s
    using assms(2) by (simp_all add: set_view_def fun_eq_iff)
  show ?thesis
    using assms(1,3) unfolding set_refs_ok_def v by blast
qed

named_theorems view_simps \<open>what leaves the reference counts alone\<close>

lemma set_view_upd_block [view_simps]: "set_view (upd_block st b f) = set_view st"
  by (simp add: set_view_def upd_block_def wb_queue_def)

lemma set_view_upd_set [view_simps]:
  assumes "\<And>x. set_refcount (f x) = set_refcount x" "\<And>x. set_freed (f x) = set_freed x"
    "\<And>x. submitted_blocks (f x) = submitted_blocks x"
  shows "set_view (upd_set st s f) = set_view st"
  using assms by (simp add: set_view_def upd_set_def wb_queue_def fun_eq_iff)

lemma set_view_counters [view_simps]:
  "set_view (st\<lparr>nr_dirty := n\<rparr>) = set_view st" "set_view (st\<lparr>sync_seq := q\<rparr>) = set_view st"
  "set_view (st\<lparr>sync_waiters := w\<rparr>) = set_view st" "set_view (st\<lparr>nr_writeback := n\<rparr>) = set_view st"
  "set_view (st\<lparr>writeback_queued := d\<rparr>) = set_view st" "set_view (st\<lparr>submit_queued := d\<rparr>) = set_view st"
  "set_view (st\<lparr>dirty_seq := e\<rparr>) = set_view st" "set_view (st\<lparr>writeback_seq := e\<rparr>) = set_view st"
  "set_view (st\<lparr>submit_llist := l\<rparr>) = set_view st" "set_view (st\<lparr>submit_list := l\<rparr>) = set_view st"
  "set_view (st\<lparr>in_transport := tr\<rparr>) = set_view st" "set_view (st\<lparr>nr_submitted := n\<rparr>) = set_view st"
  by (simp_all add: set_view_def wb_queue_def)

lemma set_view_queue [view_simps]:
  "set_view (try_queue_writeback_work st) = set_view st" "set_view (try_queue_submit_work st) = set_view st"
  "set_view (sync_up_to_seq st seq) = set_view st" "set_view (sync_waiters_set_error st) = set_view st"
  "set_view (snd (sync_waiters_dec_error st)) = set_view st"
  by (simp_all add: try_queue_writeback_work_def try_queue_submit_work_def sync_up_to_seq_def sync_waiters_inc_def
      sync_waiters_set_error_def sync_waiters_dec_error_def Let_def view_simps)

lemma set_view_drop_clean [view_simps]: "set_view (drop_clean st s bs) = set_view st"
  by (induction bs arbitrary: st) (simp_all add: view_simps)

lemma set_view_walk [view_simps]:
  "set_view (clear_set_dirtying st s) = set_view st" "set_view (clear_set_dirtying_opt st so) = set_view st"
  "set_view (merge_sets st small large) = set_view st"
  "set_view (mark_dirty st bs) = set_view st" "set_view (release_blocks st s bs) = set_view st"
proof -
  show 1: "set_view (clear_set_dirtying st s) = set_view st" for s
    by (simp add: clear_set_dirtying_def Let_def view_simps)
  show "set_view (clear_set_dirtying_opt st so) = set_view st"
    by (simp add: clear_set_dirtying_opt_def 1 split: option.splits)
  have "set_view (move_to_set st l bs) = set_view st" for l bs
    by (induction bs arbitrary: st) (simp_all add: view_simps)
  then show "set_view (merge_sets st small large) = set_view st"
    by (simp add: merge_sets_def Let_def view_simps)
  show "set_view (mark_dirty st bs) = set_view st"
    by (induction bs arbitrary: st) (simp_all add: view_simps)
  show "set_view (release_blocks st s bs) = set_view st"
    by (induction bs arbitrary: st) (simp_all add: view_simps)
qed

text \<open>Which sets the walk's helpers leave blocks in.\<close>

lemma bl_set_upd_set [simp]: "blocks (upd_set st s f) = blocks st"
  by (simp add: upd_set_def)

lemma bl_set_upd_block [view_simps]:
  assumes "\<And>x. bl_set (f x) = bl_set x"
  shows "bl_set (blocks (upd_block st b f) c) = bl_set (blocks st c)"
  using assms by (simp add: upd_block_def)

lemma bl_set_queue [simp]:
  "blocks (try_queue_writeback_work st) = blocks st" "blocks (try_queue_submit_work st) = blocks st"
  "blocks (sync_up_to_seq st seq) = blocks st"
  by (simp_all add: try_queue_writeback_work_def try_queue_submit_work_def sync_up_to_seq_def sync_waiters_inc_def Let_def)

lemma bl_set_drop_clean: "bl_set (blocks (drop_clean st t bs) b) = Some s \<Longrightarrow> bl_set (blocks st b) = Some s"
proof (induction bs arbitrary: st)
  case (Cons a bs)
  show ?case
  proof (cases "BL_DIRTY (blocks st a)")
    case True
    then show ?thesis using Cons.prems by simp
  next
    case False
    from Cons.IH Cons.prems False show ?thesis by (force simp: upd_block_def split: if_splits)
  qed
qed simp

lemma bl_set_clear: "bl_set (blocks (clear_set_dirtying st t) b) = Some s \<Longrightarrow> bl_set (blocks st b) = Some s"
  by (auto simp: clear_set_dirtying_def Let_def intro: bl_set_drop_clean)

lemma bl_set_clear_opt: "bl_set (blocks (clear_set_dirtying_opt st t) b) = Some s \<Longrightarrow> bl_set (blocks st b) = Some s"
  by (auto simp: clear_set_dirtying_opt_def intro: bl_set_clear split: option.splits)

lemma bl_set_merge: "bl_set (blocks (merge_sets st small large) b) = Some s \<Longrightarrow> bl_set (blocks st b) = Some s \<or> s = large"
  by (auto simp: merge_sets_def Let_def move_to_set_eq split: if_splits)

lemma bl_set_mark_dirty: "bl_set (blocks (mark_dirty st bs) b) = bl_set (blocks st b)"
  by (induction bs arbitrary: st) (auto simp: upd_block_def)

subsubsection \<open>Taking and dropping references\<close>

lemma put_set_refs:
  assumes "set_refs_ok (\<lambda>s. ext s + ref_of so s) st"
  shows "\<exists>st'. put_set st so = Ret st' \<and> core st' = core st \<and> blocks st' = blocks st \<and> set_refs_ok ext st'"
proof (cases so)
  case None
  then show ?thesis using assms by (simp add: put_set_def)
next
  case (Some s)
  let ?st = "upd_set st s (\<lambda>x. x\<lparr>set_refcount := set_refcount x - 1\<rparr>)"
  have s: "s < next_set st" using set_refs_okD(3) [OF assms, of s] Some by simp
  have pos: "set_refcount (sets ?st s) \<noteq> 0" using set_refs_okD(1) [OF assms s] Some by (simp add: upd_set_def)
  then have p: "put_set st so = Ret ?st" using Some by (simp add: put_set_def Let_def)
  have "wb_queue ?st = wb_queue st" "next_set ?st = next_set st" by (simp_all add: wb_queue_def upd_set_def)
  then have "set_refs_ok ext ?st"
    using assms Some unfolding set_refs_ok_def by (auto simp: upd_set_def)
  then show ?thesis using p core_put_set [OF p] by auto
qed

lemma get_set_refs:
  assumes "set_refs_ok ext st" "s < next_set st"
  shows "set_refs_ok (\<lambda>t. ext t + ref_of (Some s) t) (get_set st s)"
proof -
  have "wb_queue (get_set st s) = wb_queue st" "next_set (get_set st s) = next_set st"
    by (simp_all add: wb_queue_def get_set_def upd_set_def)
  then show ?thesis using assms unfolding set_refs_ok_def by (auto simp: upd_set_def get_set_def)
qed

lemma new_set_refs:
  assumes "set_refs_ok ext st"
  shows "set_refs_ok (\<lambda>t. ext t + ref_of (Some (next_set st)) t)
    (upd_block (st\<lparr>sets := (sets st)(next_set st := new_set junk b), next_set := Suc (next_set st)\<rparr>)
       b (\<lambda>bl. bl\<lparr>bl_set := Some (next_set st)\<rparr>))" (is "set_refs_ok _ ?st'")
proof -
  have f: "wb_queue ?st' = wb_queue st" "next_set ?st' = Suc (next_set st)"
    "sets ?st' = (sets st)(next_set st := new_set junk b)"
    "blocks ?st' = (blocks st)(b := (blocks st b)\<lparr>bl_set := Some (next_set st)\<rparr>)"
    by (simp_all add: wb_queue_def upd_block_def)
  have "count_list (wb_queue st) (next_set st) = 0" "ext (next_set st) = 0"
    using assms by (auto simp: set_refs_ok_def count_list_0_iff)
  then show ?thesis
    using assms unfolding set_refs_ok_def f by (auto simp: new_set_def less_Suc_eq)
qed


lemma set_refs_ok_ext: "set_refs_ok e st \<Longrightarrow> (\<And>s. e s = e' s) \<Longrightarrow> set_refs_ok e' st"
  by (simp add: set_refs_ok_def)

subsubsection \<open>The walk over the blocks to dirty\<close>

text \<open>The walk always ends, and the references it returns are the ones it took.\<close>

abbreviation refs2 :: "(sid \<Rightarrow> nat) \<Rightarrow> sid option \<Rightarrow> sid option \<Rightarrow> sid \<Rightarrow> nat" where
  "refs2 ext small large \<equiv> (\<lambda>s. ext s + ref_of small s + ref_of large s)"

definition walk_refs ::
  "(sid \<Rightarrow> nat) \<Rightarrow> (walk_result \<times> sid option \<times> sid option \<times> block_info) run \<Rightarrow> bool" where
  "walk_refs ext res \<longleftrightarrow> (\<exists>r small large st. res = Ret (r, small, large, st) \<and> set_refs_ok (refs2 ext small large) st)"

lemma walk_refs_Ret [simp]: "walk_refs ext (Ret (r, small, large, st)) = set_refs_ok (refs2 ext small large) st"
  by (simp add: walk_refs_def)

text \<open>The step of the walk that finds a set the walk does not have yet.\<close>

lemma walk_found_refs:
  assumes r: "set_refs_ok (refs2 ext (Some s) large) st"
    and IH: "\<And>small large st. set_refs_ok (refs2 ext small large) st \<Longrightarrow> walk_refs ext (dirty_walk km bs small large st)"
  shows "walk_refs ext
     (if SET_DIRTYING (sets st s)
      then Ret (Walk_wait_dirtying s, Some s, large, clear_set_dirtying_opt st large)
      else
        (let st = upd_set st s (\<lambda>x. x\<lparr>SET_DIRTYING := True\<rparr>)
         in if SET_WRITEBACK (sets st s)
            then Ret (Walk_wait_writeback s, Some s, large,
                      clear_set_dirtying_opt (clear_set_dirtying st s) large)
            else
              (case large of
                 None \<Rightarrow> dirty_walk km bs None (Some s) st
               | Some l \<Rightarrow>
                 (let (small, large) =
                        (if set_size (sets st s) > set_size (sets st l) then (l, s) else (s, l))
                  in if set_size (sets st large) + set_size (sets st small) > SET_LIMIT
                     then (let seq = set_dirty_seq (sets st large);
                               st = clear_set_dirtying (clear_set_dirtying st small) large
                           in Ret (Walk_wait_sync seq, Some small, Some large, sync_up_to_seq st seq))
                     else dirty_walk km bs (Some small) (Some large)
                            (merge_sets st small large)))))"
proof -
  let ?st1 = "upd_set st s (\<lambda>x. x\<lparr>SET_DIRTYING := True\<rparr>)"
  have r1: "set_refs_ok (refs2 ext (Some s) large) ?st1"
    by (rule set_refs_ok_view [OF r]) (simp_all add: view_simps)
  have w1: "set_refs_ok (refs2 ext (Some s) large) (clear_set_dirtying_opt st large)"
    by (rule set_refs_ok_view [OF r]) (auto simp: view_simps dest: bl_set_clear_opt)
  have w2: "set_refs_ok (refs2 ext (Some s) large) (clear_set_dirtying_opt (clear_set_dirtying ?st1 s) large)"
    by (rule set_refs_ok_view [OF r1]) (auto simp: view_simps dest!: bl_set_clear_opt bl_set_clear)
  have two: "walk_refs ext
      (if set_size (sets ?st1 lg) + set_size (sets ?st1 sm) > SET_LIMIT
       then (let seq = set_dirty_seq (sets ?st1 lg);
                 st = clear_set_dirtying (clear_set_dirtying ?st1 sm) lg
             in Ret (Walk_wait_sync seq, Some sm, Some lg, sync_up_to_seq st seq))
       else dirty_walk km bs (Some sm) (Some lg) (merge_sets ?st1 sm lg))"
    if l: "large = Some l" and sl: "(sm, lg) = (l, s) \<or> (sm, lg) = (s, l)" for l sm lg
  proof -
    have rr: "set_refs_ok (refs2 ext (Some sm) (Some lg)) ?st1"
      using r1 l sl by (elim set_refs_ok_ext) auto
    have lg: "lg < next_set ?st1" using set_refs_okD(3) [OF rr, of lg] by simp
    have "set_refs_ok (refs2 ext (Some sm) (Some lg))
        (sync_up_to_seq (clear_set_dirtying (clear_set_dirtying ?st1 sm) lg) q)" for q
      by (rule set_refs_ok_view [OF rr]) (auto simp: view_simps dest!: bl_set_clear)
    moreover have "set_refs_ok (refs2 ext (Some sm) (Some lg)) (merge_sets ?st1 sm lg)"
      using lg by (intro set_refs_ok_view [OF rr]) (auto simp: view_simps dest!: bl_set_merge)
    ultimately show ?thesis by (simp add: Let_def IH)
  qed
  show ?thesis
  proof (cases large)
    case None
    have "set_refs_ok (refs2 ext None (Some s)) ?st1" using r1 None by (elim set_refs_ok_ext) simp
    then show ?thesis using w1 w2 None IH by (simp add: Let_def)
  next
    case (Some l)
    let ?p = "if set_size (sets ?st1 s) > set_size (sets ?st1 l) then (l, s) else (s, l)"
    obtain sm lg where p: "?p = (sm, lg)" by fastforce
    then have sl: "(sm, lg) = (l, s) \<or> (sm, lg) = (s, l)" by (auto split: if_splits)
    show ?thesis using w1 w2 two [OF Some sl] unfolding Let_def Some option.case p prod.case by simp
  qed
qed

lemma dirty_walk_refs:
  assumes "set_refs_ok (refs2 ext small large) st"
  shows "walk_refs ext (dirty_walk km bs small large st)"
  using assms
proof (induction bs arbitrary: small large st)
  case (Cons b bs)
  obtain st1 where st1: "put_set st small = Ret st1" "set_refs_ok (\<lambda>s. ext s + ref_of large s) st1"
    using put_set_refs [of "\<lambda>s. ext s + ref_of large s" small st] set_refs_ok_ext [OF Cons.prems] by force
  have none: "set_refs_ok (refs2 ext None large) st1" using st1(2) by (elim set_refs_ok_ext) simp
  show ?case
  proof (cases "bl_set (blocks st1 b)")
    case (Some s)
    show ?thesis
    proof (cases "large = Some s")
      case True
      then show ?thesis using Cons.IH [OF none] st1(1) Some by (simp add: get_other_set_def)
    next
      case False
      have "s < next_set st1" using set_refs_okD(5) [OF st1(2) Some] .
      from get_set_refs [OF st1(2) this] have "set_refs_ok (refs2 ext (Some s) large) (get_set st1 s)"
        by (elim set_refs_ok_ext) simp
      from walk_found_refs [OF this Cons.IH] show ?thesis
        by (simp only: dirty_walk.simps st1(1) bind_run.simps get_other_set_other [OF Some False] prod.case sum.case option.case)
    qed
  next
    case None
    show ?thesis
    proof (cases large)
      case (Some e)
      have "e < next_set st1" using set_refs_okD(3) [OF st1(2), of e] Some by simp
      then have "set_refs_ok (refs2 ext None large) (upd_set (upd_block st1 b (\<lambda>bl. bl\<lparr>bl_set := Some e\<rparr>)) e
          (\<lambda>x. x\<lparr>block_list := block_list x @ [b], set_size := set_size x + 1\<rparr>))"
        by (intro set_refs_ok_view [OF none]) (simp add: view_simps, auto simp: upd_block_def split: if_splits)
      from Cons.IH [OF this] show ?thesis using st1(1) None Some by (simp add: get_other_set_def)
    next
      case ln: None
      show ?thesis
      proof (cases km)
        case None
        then show ?thesis using none st1(1) \<open>bl_set (blocks st1 b) = None\<close> ln by (simp add: get_other_set_def)
      next
        case (Some junk)
        let ?st2 = "upd_block (st1\<lparr>sets := (sets st1)(next_set st1 := new_set junk b), next_set := Suc (next_set st1)\<rparr>)
            b (\<lambda>bl. bl\<lparr>bl_set := Some (next_set st1)\<rparr>)"
        have "set_refs_ok (refs2 ext (Some (next_set st1)) large) ?st2"
          using new_set_refs [OF st1(2)] by (rule set_refs_ok_ext) simp
        from walk_found_refs [OF this Cons.IH] show ?thesis
          using st1(1) None ln Some
          by (simp only: dirty_walk.simps bind_run.simps get_other_set_def Let_def prod.case sum.case option.case)
      qed
    qed
  qed
qed (simp add: walk_refs_def)

lemma dirty_large_refs:
  assumes "set_refs_ok ext st" "l < next_set st"
  shows "set_refs_ok ext (dirty_large st l)"
proof -
  let ?st1 = "mark_dirty st (rev (block_list (sets st l)))"
  have r1: "set_refs_ok ext ?st1" by (rule set_refs_ok_view [OF assms(1)]) (simp_all add: view_simps bl_set_mark_dirty)
  show ?thesis
  proof (cases "SET_DIRTY (sets ?st1 l)")
    case True
    then show ?thesis using r1 by (simp add: dirty_large_def)
  next
    case False
    let ?st2 = "upd_set ?st1 l (\<lambda>x. x\<lparr>SET_DIRTY := True\<rparr>)"
    have l: "l < next_set ?st1"
      using assms(2) arg_cong [OF set_view_walk(4), of fst] by (simp add: set_view_def)
    define st3 where "st3 = upd_set ((get_set ?st2 l)\<lparr>dirty_seq := dirty_seq (get_set ?st2 l) + 1\<rparr>) l
        (\<lambda>x. x\<lparr>set_dirty_seq := dirty_seq (get_set ?st2 l) + 1\<rparr>)"
    have "set_refs_ok ext (st3\<lparr>writeback_llist := l # writeback_llist st3\<rparr>)"
      using r1 l unfolding set_refs_ok_def st3_def
      by (auto simp: upd_set_def get_set_def wb_queue_def count_list_append)
    then have "set_refs_ok ext (try_queue_writeback_work (st3\<lparr>writeback_llist := l # writeback_llist st3\<rparr>))"
      by (rule set_refs_ok_view) (simp_all add: view_simps)
    moreover have "dirty_large st l = try_queue_writeback_work (st3\<lparr>writeback_llist := l # writeback_llist st3\<rparr>)"
      using False by (simp add: dirty_large_def Let_def st3_def)
    ultimately show ?thesis by simp
  qed
qed


subsection \<open>Blocks\<close>

text \<open>\<open>h\<close> are the references of the callers and of the threads that wait for a read.\<close>

definition blk_refs_ok :: "(bid \<Rightarrow> nat) \<Rightarrow> block_info \<Rightarrow> bool" where
  "blk_refs_ok h st \<longleftrightarrow>
     (\<forall>b < next_block st. \<not> bl_freed (blocks st b) \<and>
        bl_refcount (blocks st b) =
          1 + int (h b) + int (count_list (submit_llist st) b) + int (count_list (submit_list st) b)) \<and>
     (\<forall>b. next_block st \<le> b \<longrightarrow> h b = 0)"

text \<open>What dirtying leaves alone: all of a block but its set and its dirty bit.\<close>

definition blk_view :: "block_info \<Rightarrow> nat \<times> bid list \<times> bid list \<times> (bid \<Rightarrow> block)" where
  "blk_view st = (next_block st, submit_llist st, submit_list st, \<lambda>b. (blocks st b)\<lparr>bl_set := None, BL_DIRTY := False\<rparr>)"

lemma blk_viewD:
  assumes "blk_view st' = blk_view st"
  shows "next_block st' = next_block st" "submit_llist st' = submit_llist st" "submit_list st' = submit_list st"
    "bl_refcount (blocks st' b) = bl_refcount (blocks st b)" "bl_freed (blocks st' b) = bl_freed (blocks st b)"
    "BL_READING (blocks st' b) = BL_READING (blocks st b)" "BL_UPTODATE (blocks st' b) = BL_UPTODATE (blocks st b)"
    "BL_ERROR (blocks st' b) = BL_ERROR (blocks st b)"
proof -
  have e: "(blocks st' b)\<lparr>bl_set := None, BL_DIRTY := False\<rparr> = (blocks st b)\<lparr>bl_set := None, BL_DIRTY := False\<rparr>"
    using assms by (simp add: blk_view_def fun_eq_iff)
  show "next_block st' = next_block st" "submit_llist st' = submit_llist st" "submit_list st' = submit_list st"
    using assms by (simp_all add: blk_view_def)
  show "bl_refcount (blocks st' b) = bl_refcount (blocks st b)" using arg_cong [OF e, of bl_refcount] by simp
  show "bl_freed (blocks st' b) = bl_freed (blocks st b)" using arg_cong [OF e, of bl_freed] by simp
  show "BL_READING (blocks st' b) = BL_READING (blocks st b)" using arg_cong [OF e, of BL_READING] by simp
  show "BL_UPTODATE (blocks st' b) = BL_UPTODATE (blocks st b)" using arg_cong [OF e, of BL_UPTODATE] by simp
  show "BL_ERROR (blocks st' b) = BL_ERROR (blocks st b)" using arg_cong [OF e, of BL_ERROR] by simp
qed

lemma blk_refs_ok_view:
  assumes "blk_refs_ok h st" "blk_view st' = blk_view st"
  shows "blk_refs_ok h st'"
  using assms(1) unfolding blk_refs_ok_def blk_viewD(1-5) [OF assms(2)] .

lemma blk_refs_okD:
  assumes "blk_refs_ok h st"
  shows "b < next_block st \<Longrightarrow> bl_refcount (blocks st b) =
      1 + int (h b) + int (count_list (submit_llist st) b) + int (count_list (submit_list st) b)"
    and "b < next_block st \<Longrightarrow> \<not> bl_freed (blocks st b)" and "0 < h b \<Longrightarrow> b < next_block st"
  using assms by (auto simp: blk_refs_ok_def) (metis leI less_irrefl)

lemma blk_refs_ok_ext: "blk_refs_ok e st \<Longrightarrow> (\<And>s. e s = e' s) \<Longrightarrow> blk_refs_ok e' st"
  by (simp add: blk_refs_ok_def)

lemma blk_view_upd_set [view_simps]: "blk_view (upd_set st s f) = blk_view st"
  by (simp add: blk_view_def upd_set_def)

lemma blk_view_upd_block [view_simps]:
  assumes "\<And>x. (f x)\<lparr>bl_set := None, BL_DIRTY := False\<rparr> = x\<lparr>bl_set := None, BL_DIRTY := False\<rparr>"
  shows "blk_view (upd_block st s f) = blk_view st"
  using assms by (simp add: blk_view_def upd_block_def fun_eq_iff)

lemma blk_view_counters [view_simps]:
  "blk_view (st\<lparr>nr_dirty := n\<rparr>) = blk_view st" "blk_view (st\<lparr>sync_seq := q\<rparr>) = blk_view st"
  "blk_view (st\<lparr>sync_waiters := w\<rparr>) = blk_view st" "blk_view (st\<lparr>nr_writeback := n\<rparr>) = blk_view st"
  "blk_view (st\<lparr>writeback_queued := d\<rparr>) = blk_view st" "blk_view (st\<lparr>submit_queued := d\<rparr>) = blk_view st"
  "blk_view (st\<lparr>dirty_seq := e\<rparr>) = blk_view st" "blk_view (st\<lparr>writeback_seq := e\<rparr>) = blk_view st"
  "blk_view (st\<lparr>in_transport := tr\<rparr>) = blk_view st" "blk_view (st\<lparr>nr_submitted := n\<rparr>) = blk_view st"
  "blk_view (st\<lparr>writeback_list := l\<rparr>) = blk_view st" "blk_view (st\<lparr>writeback_llist := l\<rparr>) = blk_view st"
  "blk_view (st\<lparr>sets := ss\<rparr>) = blk_view st" "blk_view (st\<lparr>next_set := n'\<rparr>) = blk_view st"
  by (simp_all add: blk_view_def)

lemma blk_view_queue [view_simps]:
  "blk_view (try_queue_writeback_work st) = blk_view st" "blk_view (try_queue_submit_work st) = blk_view st"
  "blk_view (sync_up_to_seq st seq) = blk_view st" "blk_view (sync_waiters_set_error st) = blk_view st"
  "blk_view (snd (sync_waiters_dec_error st)) = blk_view st" "blk_view (get_set st s) = blk_view st"
  by (simp_all add: try_queue_writeback_work_def try_queue_submit_work_def sync_up_to_seq_def sync_waiters_inc_def
      sync_waiters_set_error_def sync_waiters_dec_error_def get_set_def Let_def view_simps)

lemma blk_view_walk [view_simps]:
  "blk_view (clear_set_dirtying st s) = blk_view st" "blk_view (clear_set_dirtying_opt st so) = blk_view st"
  "blk_view (merge_sets st small large) = blk_view st"
  "blk_view (mark_dirty st bs) = blk_view st" "blk_view (release_blocks st s bs) = blk_view st"
proof -
  have "blk_view (drop_clean st s bs) = blk_view st" for s bs
    by (induction bs arbitrary: st) (simp_all add: view_simps)
  then show 1: "blk_view (clear_set_dirtying st s) = blk_view st" for s
    by (simp add: clear_set_dirtying_def Let_def view_simps)
  show "blk_view (clear_set_dirtying_opt st so) = blk_view st"
    by (simp add: clear_set_dirtying_opt_def 1 split: option.splits)
  have "blk_view (move_to_set st l bs) = blk_view st" for l bs
    by (induction bs arbitrary: st) (simp_all add: view_simps)
  then show "blk_view (merge_sets st small large) = blk_view st"
    by (simp add: merge_sets_def Let_def view_simps)
  show "blk_view (mark_dirty st bs) = blk_view st"
    by (induction bs arbitrary: st) (simp_all add: view_simps)
  show "blk_view (release_blocks st s bs) = blk_view st"
    by (induction bs arbitrary: st) (simp_all add: view_simps)
qed

lemma blk_view_dirty_large [view_simps]: "blk_view (dirty_large st l) = blk_view st"
  by (simp add: dirty_large_def Let_def view_simps)

lemma blk_view_put_set: "put_set st so = Ret st' \<Longrightarrow> blk_view st' = blk_view st"
  by (auto simp: put_set_def Let_def run_simps view_simps split: option.splits if_splits)

lemma blk_view_get_other_set: "get_other_set km st b so = (r, st') \<Longrightarrow> blk_view st' = blk_view st"
  by (auto simp: get_other_set_def Let_def view_simps split: option.splits if_splits)

text \<open>The view is one of the things a walk keeps.\<close>

interpretation bv: walk_large_kept "\<lambda>c. blk_view c = v" "\<lambda>_. True" for v
  by unfold_locales (auto simp: view_simps sync_finish_def dest: blk_view_put_set blk_view_get_other_set)

subsection \<open>Beginning and ending a modification\<close>

text \<open>The set references of a thread: the two sets of a waiting walk, or the set its blocks are in.\<close>

definition pc_set_refs :: "block_info \<Rightarrow> pc \<Rightarrow> sid \<Rightarrow> nat" where
  "pc_set_refs c p s = (case p of
     Dirty_waiting _ _ small large \<Rightarrow> ref_of small s + ref_of large s
   | Dirtying bs \<Rightarrow> ref_of (bl_set (blocks c (hd bs))) s
   | _ \<Rightarrow> 0)"

lemma pc_set_refs_simps [simp]:
  "pc_set_refs c Idle s = 0" "pc_set_refs c (Getting b) s = 0" "pc_set_refs c (Throttled bs) s = 0"
  "pc_set_refs c (Syncing q) s = 0"
  "pc_set_refs c (Dirty_waiting bs w small large) s = ref_of small s + ref_of large s"
  "pc_set_refs c (Dirtying bs) s = ref_of (bl_set (blocks c (hd bs))) s"
  by (simp_all add: pc_set_refs_def)

definition dirty_refs :: "(sid \<Rightarrow> nat) \<Rightarrow> bid list \<Rightarrow> block_info \<Rightarrow> (dirty_result \<times> block_info) run \<Rightarrow> bool" where
  "dirty_refs ext bs st res \<longleftrightarrow> (\<exists>r st'. res = Ret (r, st') \<and> blk_view st' = blk_view st \<and>
     set_refs_ok (\<lambda>s. ext s + pc_set_refs st' (after_dirty bs r) s) st')"

text \<open>Two puts in a row, as every way out of a walk has them.\<close>

lemma put_two_refs:
  assumes "set_refs_ok (refs2 ext small large) st"
  shows "\<exists>st1 st2. put_set st small = Ret st1 \<and> put_set st1 large = Ret st2 \<and> core st2 = core st \<and>
    blk_view st2 = blk_view st \<and> set_refs_ok ext st2"
proof -
  obtain st1 where 1: "put_set st small = Ret st1" "core st1 = core st" "set_refs_ok (\<lambda>s. ext s + ref_of large s) st1"
    using put_set_refs [of "\<lambda>s. ext s + ref_of large s" small st] set_refs_ok_ext [OF assms] by force
  obtain st2 where 2: "put_set st1 large = Ret st2" "core st2 = core st1" "set_refs_ok ext st2"
    using put_set_refs [OF 1(3)] by blast
  show ?thesis using 1 2 blk_view_put_set by metis
qed

lemma dirty_restart_refs:
  assumes inv: "cache_inv st" and bs: "\<forall>b\<in>set bs. b < next_block st" "bs \<noteq> []"
    and r: "set_refs_ok (refs2 ext small large) st"
  shows "dirty_refs ext bs st (dirty_restart km bs small large st)"
proof -
  obtain st1 st2 where p: "put_set st small = Ret st1" "put_set st1 large = Ret st2" "core st2 = core st"
      "blk_view st2 = blk_view st" "set_refs_ok ext st2"
    using put_two_refs [OF r] by blast
  have "walk_refs ext (dirty_walk km bs None None st2)"
    using p(5) by (intro dirty_walk_refs) (elim set_refs_ok_ext, simp)
  then obtain wr sm lg st3 where w: "dirty_walk km bs None None st2 = Ret (wr, sm, lg, st3)"
      "set_refs_ok (refs2 ext sm lg) st3" by (auto simp: walk_refs_def)
  have v3: "blk_view st3 = blk_view st" using bv.walk_keeps [OF p(4) _ w(1)] by simp
  have res: "dirty_restart km bs small large st = (case wr of
      Walk_done \<Rightarrow> (case lg of None \<Rightarrow> Undef
        | Some l \<Rightarrow> bind_run (put_set (dirty_large st3 l) sm) (\<lambda>st. Ret (Dirty_done 0, st)))
    | Walk_error err \<Rightarrow> bind_run (put_set st3 sm) (\<lambda>st. bind_run (put_set st lg) (\<lambda>st. Ret (Dirty_done err, st)))
    | _ \<Rightarrow> Ret (Dirty_wait wr sm lg, st3))"
    using p(1,2) w(1) by (simp add: dirty_restart_def)
  have inv2: "cache_inv st2" using cache_inv_cong [OF p(3)] inv by simp
  then have "walk_inv (dirtying st2) [] None st2" by (simp add: walk_inv_def)
  moreover have "\<forall>b\<in>set bs. b < next_block st2" using bs core_eqD(10) [OF p(3)] by simp
  ultimately have post: "walk_post (dirtying st2) bs wr lg st2 st3" using dirty_walk_inv [OF _ _ w(1)] by force
  show ?thesis
  proof (cases wr)
    case Walk_done
    then have wi: "walk_inv (dirtying st2) bs lg st3" using post by (simp add: walk_post_def)
    note W = walk_invD [OF wi]
    obtain l where l: "lg = Some l" using W(3) bs(2) by (cases lg) auto
    have bl: "bl_set (blocks (dirty_large st3 l) (hd bs)) = Some l"
      using W(6) [OF l, of "hd bs"] dirty_large_step(3) [OF W(1) W(7) [OF l] W(4) [OF l] W(5) [OF l]] bs(2) by simp
    have "l < next_set st3" using set_refs_okD(3) [OF w(2), of l] l by simp
    from dirty_large_refs [OF w(2) this]
    have "set_refs_ok (\<lambda>s. (ext s + ref_of lg s) + ref_of sm s) (dirty_large st3 l)" by (rule set_refs_ok_ext) simp
    from put_set_refs [OF this] obtain st4 where st4: "put_set (dirty_large st3 l) sm = Ret st4"
        "blocks st4 = blocks (dirty_large st3 l)" "set_refs_ok (\<lambda>s. ext s + ref_of lg s) st4" by blast
    have "blk_view st4 = blk_view st" using blk_view_put_set [OF st4(1)] v3 by (simp add: view_simps)
    then show ?thesis
      using res Walk_done l st4 bl set_refs_ok_ext [OF st4(3)] by (auto simp: dirty_refs_def after_dirty_def)
  next
    case (Walk_error e)
    obtain st4 st5 where st5: "put_set st3 sm = Ret st4" "put_set st4 lg = Ret st5"
        "blk_view st5 = blk_view st3" "set_refs_ok ext st5" using put_two_refs [OF w(2)] by blast
    have "e \<noteq> 0" using post Walk_error by (auto simp: walk_post_def)
    then show ?thesis using res Walk_error st5 v3 set_refs_ok_ext [OF st5(4)] by (auto simp: dirty_refs_def after_dirty_def)
  qed (use res v3 set_refs_ok_ext [OF w(2)] in \<open>auto simp: dirty_refs_def after_dirty_def\<close>)
qed

lemma dirty_begin_refs:
  assumes "cache_inv st" "\<forall>b\<in>set bs. b < next_block st" "bs \<noteq> []" "set_refs_ok ext st"
  shows "dirty_refs ext bs st (ngnfs_block_dirty_begin km bs st)"
proof (cases "dirty_throttled st")
  case True
  then show ?thesis using assms by (auto simp: ngnfs_block_dirty_begin_def dirty_refs_def after_dirty_def intro: set_refs_ok_ext)
next
  case False
  then show ?thesis
    using assms by (auto simp: ngnfs_block_dirty_begin_def intro!: dirty_restart_refs)
qed

lemma dirty_resume_refs:
  assumes inv: "cache_inv st" and bs: "\<forall>b\<in>set bs. b < next_block st" "bs \<noteq> []"
    and r: "set_refs_ok (refs2 ext small large) st"
  shows "dirty_refs ext bs st (dirty_resume km bs w small large st)"
proof (cases "\<exists>seq. w = Walk_wait_sync seq")
  case False
  then have "dirty_resume km bs w small large st = dirty_restart km bs small large st"
    by (cases w) (auto simp: dirty_resume_def)
  then show ?thesis using dirty_restart_refs [OF assms] by simp
next
  case True
  obtain ret st1 where f: "sync_finish st = (ret, st1)" by fastforce
  have st1: "st1 = snd (sync_waiters_dec_error st)" using f by (simp add: sync_finish_def)
  have c: "core st1 = core st" using st1 core_sync(3) [of st] by simp
  have v: "blk_view st1 = blk_view st" using st1 by (simp add: view_simps)
  have r1: "set_refs_ok (refs2 ext small large) st1"
    using core_eqD(12) [OF c] st1 by (intro set_refs_ok_view [OF r]) (simp_all add: view_simps)
  show ?thesis
  proof (cases "ret < 0")
    case neg: True
    obtain st2 st3 where p: "put_set st1 small = Ret st2" "put_set st2 large = Ret st3"
        "blk_view st3 = blk_view st1" "set_refs_ok ext st3" using put_two_refs [OF r1] by blast
    show ?thesis
      using True f neg p v set_refs_ok_ext [OF p(4)] by (auto simp: dirty_resume_def dirty_refs_def after_dirty_def)
  next
    case False
    have "dirty_refs ext bs st1 (dirty_restart km bs small large st1)"
      using cache_inv_cong [OF c] inv bs core_eqD(10) [OF c] r1 by (intro dirty_restart_refs) auto
    then show ?thesis using True f False v by (auto simp: dirty_resume_def dirty_refs_def)
  qed
qed

lemma dirty_end_refs:
  assumes bs: "bs \<noteq> []" "bl_set (blocks st (hd bs)) = Some s" and r: "set_refs_ok (\<lambda>t. ext t + ref_of (Some s) t) st"
  shows "\<exists>st'. ngnfs_block_dirty_end bs st = Ret st' \<and> blk_view st' = blk_view st \<and> set_refs_ok ext st'"
proof -
  let ?st1 = "upd_set st s (\<lambda>x. x\<lparr>SET_DIRTYING := False\<rparr>)"
  have "set_refs_ok (\<lambda>t. ext t + ref_of (Some s) t) ?st1"
    by (rule set_refs_ok_view [OF r]) (simp_all add: view_simps)
  from put_set_refs [OF this] obtain st2 where p: "put_set ?st1 (Some s) = Ret st2" "set_refs_ok ext st2" by blast
  have "set_refs_ok ext (try_queue_writeback_work st2)"
    by (rule set_refs_ok_view [OF p(2)]) (simp_all add: view_simps)
  moreover have "ngnfs_block_dirty_end bs st = Ret (try_queue_writeback_work st2)"
    using bs p(1) by (cases bs) (auto simp: ngnfs_block_dirty_end_def)
  ultimately show ?thesis using blk_view_put_set [OF p(1)] by (simp add: view_simps)
qed

end
