(* ===== verification/Block_Ref_Io.thy ===== *)
theory Block_Ref_Io
  imports Block_Ref
begin

text \<open>
  The reference counts across the operations that get, put, read and write blocks.  Each lemma
  says when the operation returns, and that the counts are kept when it does.
\<close>

definition refs_ok :: "(sid \<Rightarrow> nat) \<Rightarrow> (bid \<Rightarrow> nat) \<Rightarrow> block_info \<Rightarrow> bool" where
  "refs_ok ext h st \<longleftrightarrow> set_refs_ok ext st \<and> blk_refs_ok h st"

lemma refs_ok_view:
  assumes "refs_ok ext h st" "set_view st' = set_view st" "blk_view st' = blk_view st"
    and "\<And>b s. bl_set (blocks st' b) = Some s \<Longrightarrow> bl_set (blocks st b) = Some s \<or> s < next_set st"
  shows "refs_ok ext h st'"
  using assms set_refs_ok_view [of ext st st'] blk_refs_ok_view [of h st st'] by (simp add: refs_ok_def)

lemma refs_ok_upd_block:
  assumes "refs_ok ext h st" "\<And>x. bl_set (f x) = bl_set x" "\<And>x. bl_refcount (f x) = bl_refcount x"
    "\<And>x. bl_freed (f x) = bl_freed x"
  shows "refs_ok ext h (upd_block st b f)"
proof -
  have "set_refs_ok ext st" "blk_refs_ok h st" using assms(1) by (simp_all add: refs_ok_def)
  moreover from this(1) have "set_refs_ok ext (upd_block st b f)"
    by (rule set_refs_ok_view) (simp_all add: view_simps assms(2))
  ultimately show ?thesis using assms(3,4) by (simp add: refs_ok_def blk_refs_ok_def upd_block_def)
qed

lemma refs_ok_cong: "refs_ok e h st \<Longrightarrow> (\<And>s. e s = e' s) \<Longrightarrow> (\<And>b. h b = h' b) \<Longrightarrow> refs_ok e' h' st"
  by (simp add: refs_ok_def set_refs_ok_def blk_refs_ok_def)

lemma refs_ok_ext: "refs_ok ext h st \<Longrightarrow> (\<And>b. h b = h' b) \<Longrightarrow> refs_ok ext h' st"
  by (auto simp: refs_ok_def elim: blk_refs_ok_ext)

subsection \<open>Getting and putting blocks\<close>

definition on_submit :: "block_info \<Rightarrow> bid \<Rightarrow> bool" where
  "on_submit st b \<longleftrightarrow> b \<in> set (submit_llist st) \<union> set (submit_list st)"

lemma put_block_refs:
  assumes "refs_ok ext (\<lambda>c. h c + of_bool (c = b)) st"
  shows "\<exists>st'. put_block st b = Ret st' \<and> core st' = core st \<and> refs_ok ext h st'"
proof -
  let ?st = "upd_block st b (\<lambda>bl. bl\<lparr>bl_refcount := bl_refcount bl - 1\<rparr>)"
  have r: "blk_refs_ok (\<lambda>c. h c + of_bool (c = b)) st" using assms by (simp add: refs_ok_def)
  have b: "b < next_block st" using blk_refs_okD(3) [OF r, of b] by simp
  have p: "put_block st b = Ret ?st" using blk_refs_okD(1) [OF r b] by (simp add: put_block_def upd_block_def Let_def)
  have s: "set_refs_ok ext st" using assms by (simp add: refs_ok_def)
  have "set_refs_ok ext ?st" by (rule set_refs_ok_view [OF s]) (simp_all add: view_simps)
  moreover have "blk_refs_ok h ?st" using r b unfolding blk_refs_ok_def by (auto simp: upd_block_def)
  ultimately show ?thesis using p core_put_block [OF p] by (simp add: refs_ok_def)
qed

lemma get_block_refs:
  assumes "refs_ok ext h st" "b < next_block st"
  shows "refs_ok ext (\<lambda>c. h c + of_bool (c = b)) (get_block st b)"
proof -
  have s: "set_refs_ok ext st" using assms by (simp add: refs_ok_def)
  have "set_refs_ok ext (get_block st b)"
    by (rule set_refs_ok_view [OF s]) (simp_all add: get_block_def view_simps)
  moreover have "blk_refs_ok (\<lambda>c. h c + of_bool (c = b)) (get_block st b)"
    using assms unfolding refs_ok_def blk_refs_ok_def by (auto simp: upd_block_def get_block_def)
  ultimately show ?thesis by (simp add: refs_ok_def)
qed

lemma llist_add_refs:
  assumes "refs_ok ext (\<lambda>c. h c + of_bool (c = b)) st" "\<not> on_submit st b"
  shows "\<exists>st'. llist_add_submit st b = Ret st' \<and> refs_ok ext h st' \<and> blocks st' = blocks st \<and>
    submit_llist st' = b # submit_llist st \<and> submit_list st' = submit_list st"
proof -
  let ?st = "st\<lparr>submit_llist := b # submit_llist st\<rparr>"
  have s: "set_refs_ok ext st" using assms by (simp add: refs_ok_def)
  have "set_refs_ok ext ?st" by (rule set_refs_ok_view [OF s]) (simp_all add: view_simps)
  moreover have "blk_refs_ok h ?st"
    using assms blk_refs_okD(3) [of "\<lambda>c. h c + of_bool (c = b)" st b] unfolding refs_ok_def blk_refs_ok_def by auto
  ultimately show ?thesis using assms(2) by (simp add: refs_ok_def llist_add_submit_def on_submit_def)
qed

lemma new_block_refs:
  assumes "refs_ok ext h st" "ht_ok st"
  shows "refs_ok ext h (st\<lparr>blocks := (blocks st)(next_block st := new_block bnr), next_block := Suc (next_block st), ht := t\<rparr>)"
    (is "refs_ok ext h ?st")
proof -
  have f: "set_view ?st = set_view st" by (simp add: set_view_def wb_queue_def)
  have "next_block st \<notin> set (submit_llist st)" "next_block st \<notin> set (submit_list st)"
    using ht_okD(3,4) [OF assms(2), of "next_block st"] by auto
  then have "blk_refs_ok h ?st"
    using assms(1) unfolding refs_ok_def blk_refs_ok_def by (auto simp: new_block_def less_Suc_eq count_list_0_iff)
  moreover have "set_refs_ok ext ?st"
    using assms(1) by (intro set_refs_ok_view [OF _ f]) (auto simp: refs_ok_def new_block_def split: if_splits)
  ultimately show ?thesis by (simp add: refs_ok_def)
qed

lemma lookup_or_alloc_refs:
  assumes "refs_ok ext h st" "ht_ok st"
  shows "\<exists>r st'. lookup_or_alloc_block alloc_ok st bnr = Ret (r, st') \<and>
    refs_ok ext (\<lambda>c. h c + of_bool (r = Inr c)) st'"
proof (cases "map_of (ht st) bnr")
  case (Some b)
  then have "b < next_block st" using ht_okD(1) [OF assms(2)] by auto
  from get_block_refs [OF assms(1) this] show ?thesis
    using Some by (auto simp: lookup_or_alloc_block_def lookup_block_def elim: refs_ok_ext)
next
  case None
  show ?thesis
  proof (cases alloc_ok)
    case True
    let ?st = "st\<lparr>blocks := (blocks st)(next_block st := new_block bnr), next_block := Suc (next_block st),
        ht := (bnr, next_block st) # ht st\<rparr>"
    have "refs_ok ext (\<lambda>c. h c + of_bool (c = next_block st)) (get_block ?st (next_block st))"
      using new_block_refs [OF assms] by (intro get_block_refs) simp_all
    then have "refs_ok ext (\<lambda>c. h c + of_bool (Inr (next_block st) = (Inr c :: int + bid))) (get_block ?st (next_block st))"
      by (rule refs_ok_ext) simp
    then show ?thesis
      using None True by (auto simp: lookup_or_alloc_block_def lookup_block_def alloc_block_def)
  next
    case False
    then show ?thesis
      using None assms(1) by (auto simp: lookup_or_alloc_block_def lookup_block_def alloc_block_def elim: refs_ok_ext)
  qed
qed

lemma lookup_or_alloc_flags:
  assumes "lookup_or_alloc_block alloc_ok st bnr = Ret (Inr b, st')" "ht_ok st" "on_submit st' b"
  shows "on_submit st b \<and> BL_UPTODATE (blocks st' b) = BL_UPTODATE (blocks st b) \<and>
    BL_READING (blocks st' b) = BL_READING (blocks st b)"
proof (cases "map_of (ht st) bnr")
  case (Some a)
  then show ?thesis
    using assms(1,3) by (auto simp: lookup_or_alloc_block_def lookup_block_def get_block_def upd_block_def on_submit_def)
next
  case None
  have "\<not> on_submit st (next_block st)" using ht_okD(3,4) [OF assms(2), of "next_block st"] by (auto simp: on_submit_def)
  then show ?thesis
    using None assms(1,3)
    by (auto simp: lookup_or_alloc_block_def lookup_block_def alloc_block_def get_block_def upd_block_def on_submit_def
        split: if_splits)
qed

text \<open>The references a get leaves with its caller, or with the thread while it waits.\<close>

definition get_refs :: "get_result \<Rightarrow> bid \<Rightarrow> nat" where
  "get_refs r c = (case r of Get_wait b \<Rightarrow> of_bool (b = c) | Get_done (Inr b) \<Rightarrow> of_bool (b = c) | Get_done (Inl _) \<Rightarrow> 0)"

lemma get_refs_simps [simp]:
  "get_refs (Get_wait b) c = of_bool (b = c)" "get_refs (Get_done (Inr b)) c = of_bool (b = c)"
  "get_refs (Get_done (Inl e)) c = 0"
  by (simp_all add: get_refs_def)

lemma block_get_finish_refs:
  assumes "refs_ok ext (\<lambda>c. h c + of_bool (b = c)) st"
  shows "\<exists>r st'. block_get_finish st b = Ret (r, st') \<and> refs_ok ext (\<lambda>c. h c + get_refs (Get_done r) c) st'"
proof (cases "BL_ERROR (blocks st b)")
  case True
  have "refs_ok ext (\<lambda>c. h c + of_bool (c = b)) st" using assms by (rule refs_ok_ext) auto
  then obtain st' where "put_block st b = Ret st'" "refs_ok ext h st'" using put_block_refs by blast
  then show ?thesis using True by (auto simp: block_get_finish_def elim: refs_ok_ext)
next
  case False
  then show ?thesis using assms by (auto simp: block_get_finish_def elim: refs_ok_ext)
qed

lemma block_get_refs:
  assumes "refs_ok ext h st" "ht_ok st"
  shows "(\<exists>r st'. ngnfs_block_get alloc_ok st bnr nbf = Ret (r, st') \<and> refs_ok ext (\<lambda>c. h c + get_refs r c) st') \<or>
    ngnfs_block_get alloc_ok st bnr nbf = Undef \<and>
      (\<exists>b. on_submit st b \<and> \<not> BL_UPTODATE (blocks st b) \<and> \<not> BL_READING (blocks st b))"
proof (cases "bad_nbf nbf")
  case True
  then show ?thesis using assms(1) by (auto simp: ngnfs_block_get_def elim: refs_ok_ext)
next
  case False
  obtain r st1 where l: "lookup_or_alloc_block alloc_ok st bnr = Ret (r, st1)"
      "refs_ok ext (\<lambda>c. h c + of_bool (r = Inr c)) st1" using lookup_or_alloc_refs [OF assms] by blast
  show ?thesis
  proof (cases r)
    case (Inl e)
    then show ?thesis using l False by (auto simp: ngnfs_block_get_def elim: refs_ok_ext)
  next
    case (Inr b)
    define st2 where "st2 = (if nbf AND NBF_NEW \<noteq> 0
        then upd_block st1 b (\<lambda>bl. bl\<lparr>bl_page := \<lambda>i. if i < 4096 then 0 else bl_page bl i, BL_UPTODATE := True\<rparr>) else st1)"
    have r2: "refs_ok ext (\<lambda>c. h c + of_bool (b = c)) st2"
      using refs_ok_ext [OF l(2)] Inr by (auto simp: st2_def intro!: refs_ok_upd_block)
    have get: "ngnfs_block_get alloc_ok st bnr nbf =
        (if \<not> BL_UPTODATE (blocks st2 b)
         then bind_run
           (if BL_READING (blocks st2 b) then Ret st2
            else bind_run
              (llist_add_submit (get_block (upd_block st2 b (\<lambda>bl. bl\<lparr>BL_READING := True\<rparr>)) b) b)
              (\<lambda>st. Ret (try_queue_submit_work st)))
           (\<lambda>st. Ret (Get_wait b, st))
         else bind_run (block_get_finish st2 b) (\<lambda>(r, st). Ret (Get_done r, st)))"
      using False l(1) Inr by (simp add: ngnfs_block_get_def Let_def st2_def)
    consider (ready) "BL_UPTODATE (blocks st2 b)" | (reading) "\<not> BL_UPTODATE (blocks st2 b)" "BL_READING (blocks st2 b)"
      | (start) "\<not> BL_UPTODATE (blocks st2 b)" "\<not> BL_READING (blocks st2 b)" by blast
    then show ?thesis
    proof cases
      case ready
      then show ?thesis using get block_get_finish_refs [OF r2] by auto
    next
      case reading
      have "refs_ok ext (\<lambda>c. h c + get_refs (Get_wait b) c) st2" using r2 by simp
      moreover have "ngnfs_block_get alloc_ok st bnr nbf = Ret (Get_wait b, st2)" using get reading by simp
      ultimately show ?thesis by blast
    next
      case start
      let ?st3 = "upd_block st2 b (\<lambda>bl. bl\<lparr>BL_READING := True\<rparr>)"
      have "BL_UPTODATE (blocks st2 b)" if "nbf AND NBF_NEW \<noteq> 0" using that by (simp add: st2_def upd_block_def)
      then have u: "st2 = st1" using start(1) unfolding st2_def by meson
      show ?thesis
      proof (cases "on_submit st1 b")
        case True
        then have "llist_add_submit (get_block ?st3 b) b = Undef"
          using u by (auto simp: llist_add_submit_def on_submit_def get_block_def upd_block_def)
        then have "ngnfs_block_get alloc_ok st bnr nbf = Undef" using get start by simp
        with lookup_or_alloc_flags [OF l(1) [unfolded Inr] assms(2) True] show ?thesis using start u by auto
      next
        case False
        have b: "b < next_block ?st3" using blk_refs_okD(3) [of "\<lambda>c. h c + of_bool (b = c)" st2 b] r2
          by (simp add: refs_ok_def upd_block_def)
        have "refs_ok ext (\<lambda>c. h c + of_bool (b = c)) ?st3"
          by (rule refs_ok_upd_block [OF r2]) simp_all
        from get_block_refs [OF this b]
        obtain st4 where st4: "llist_add_submit (get_block ?st3 b) b = Ret st4" "refs_ok ext (\<lambda>c. h c + of_bool (b = c)) st4"
          using llist_add_refs [of ext "\<lambda>c. h c + of_bool (b = c)" b "get_block ?st3 b"] False u
          by (auto simp: on_submit_def get_block_def upd_block_def)
        have "refs_ok ext (\<lambda>c. h c + get_refs (Get_wait b) c) (try_queue_submit_work st4)"
          by (rule refs_ok_view [OF refs_ok_ext [OF st4(2)]]) (simp_all add: view_simps)
        moreover have "ngnfs_block_get alloc_ok st bnr nbf = Ret (Get_wait b, try_queue_submit_work st4)"
          using get start st4(1) by simp
        ultimately show ?thesis by blast
      qed
    qed
  qed
qed


subsection \<open>Submission\<close>

lemma submit_loop_refs:
  assumes "refs_ok ext h st" "distinct bs" "set bs \<subseteq> set (submit_list st)" "\<forall>b\<in>set bs. b < next_block st"
  shows "(\<exists>st'. submit_loop submit_ret bs space st = Ret st' \<and> refs_ok ext h st') \<or>
    submit_loop submit_ret bs space st = Bug \<and> (\<exists>op bnr. submit_ret op bnr \<noteq> 0)"
  using assms
proof (induction bs arbitrary: st space)
  case (Cons b bs)
  let ?bl = "blocks st b"
  let ?op = "if BL_READING ?bl then NGNFS_BTX_OP_GET_READ else NGNFS_BTX_OP_WRITE"
  define st1 where "st1 = st\<lparr>submit_list := remove1 b (submit_list st), nr_submitted := nr_submitted st + 1,
      in_transport := in_transport st @ [(?op, bl_bnr ?bl, bl_page ?bl)]\<rparr>"
  have b: "b \<in> set (submit_list st)" using Cons.prems by simp
  then have pos: "0 < count_list (submit_list st) b" by (metis count_list_0_iff gr0I)
  have r: "set_refs_ok ext st" "blk_refs_ok h st" using Cons.prems(1) by (simp_all add: refs_ok_def)
  have bn: "b < next_block st" using Cons.prems(4) by simp
  have "set_refs_ok ext st1" by (rule set_refs_ok_view [OF r(1)]) (simp_all add: st1_def view_simps)
  moreover have "blk_refs_ok (\<lambda>c. h c + of_bool (c = b)) st1"
    using r(2) bn pos unfolding blk_refs_ok_def by (auto simp: st1_def count_list_remove1 [OF b])
  ultimately obtain st2 where st2: "put_block st1 b = Ret st2" "core st2 = core st1" "refs_ok ext h st2"
    using put_block_refs [of ext h b st1] by (auto simp: refs_ok_def)
  have "set bs \<subseteq> set (submit_list st2)"
    using Cons.prems(2,3) core_eqD(6) [OF st2(2)] by (auto simp: st1_def) (metis in_set_remove1 subsetD)
  moreover have "\<forall>b\<in>set bs. b < next_block st2" using Cons.prems(4) core_eqD(10) [OF st2(2)] by (simp add: st1_def)
  ultimately have IH: "(\<exists>st'. submit_loop submit_ret bs (space - 1) st2 = Ret st' \<and> refs_ok ext h st') \<or>
      submit_loop submit_ret bs (space - 1) st2 = Bug \<and> (\<exists>op bnr. submit_ret op bnr \<noteq> 0)"
    using Cons.IH [OF st2(3)] Cons.prems(2) by simp
  show ?case
  proof (cases "space < 0")
    case True
    then show ?thesis using Cons.prems(1) by simp
  next
    case False
    have "submit_loop submit_ret (b # bs) space st =
        BUG_ON (submit_ret ?op (bl_bnr ?bl) \<noteq> 0) (submit_loop submit_ret bs (space - 1) st2)"
      using False st2(1) by (simp add: Let_def st1_def)
    then show ?thesis using IH Cons.prems(2) by (auto simp: BUG_ON_def split: if_splits)
  qed
qed simp


lemma submit_work_refs:
  assumes "refs_ok ext h st" "ht_ok st"
  shows "(\<exists>st'. ngnfs_block_submit_work submit_ret st = Ret st' \<and> refs_ok ext h st') \<or>
    ngnfs_block_submit_work submit_ret st = Bug \<and> (\<exists>op bnr. submit_ret op bnr \<noteq> 0)"
proof -
  let ?st1 = "st\<lparr>submit_list := submit_list st @ rev (submit_llist st), submit_llist := [], submit_queued := False\<rparr>"
  have r: "set_refs_ok ext st" "blk_refs_ok h st" using assms(1) by (simp_all add: refs_ok_def)
  have "set_refs_ok ext ?st1" by (rule set_refs_ok_view [OF r(1)]) (simp_all add: view_simps)
  moreover have "blk_refs_ok h ?st1" using r(2) unfolding blk_refs_ok_def by (simp add: count_list_append)
  ultimately have r1: "refs_ok ext h ?st1" by (simp add: refs_ok_def)
  have "distinct (submit_list ?st1)" "\<forall>b\<in>set (submit_list ?st1). b < next_block ?st1"
    using ht_okD(3-5) [OF assms(2)] by auto
  from submit_loop_refs [OF r1 this(1) subset_refl this(2), of submit_ret "queue_depth ?st1 - nr_submitted ?st1"]
  show ?thesis by (simp add: ngnfs_block_submit_work_def del_all_reverse_add_tail_def fold_Cons_rev Let_def)
qed

subsection \<open>Completion\<close>

lemma bl_set_release: "bl_set (blocks (release_blocks st s bs) b) = Some t \<Longrightarrow> bl_set (blocks st b) = Some t"
  by (simp add: release_blocks_eq split: if_splits)

text \<open>The end of a set's writeback, once its last block is written.\<close>

lemma writeback_end_refs:
  assumes r: "refs_ok ext h st" and s: "s < next_set st" "submitted_blocks (sets st s) = 1"
    and st1: "st1 = upd_set st s (\<lambda>x. x\<lparr>submitted_blocks := submitted_blocks x - 1\<rparr>)"
    and st2: "st2 = upd_set (st1\<lparr>nr_dirty := nr_dirty st1 - int (set_size (sets st1 s))\<rparr>) s (\<lambda>x. x\<lparr>set_size := 0\<rparr>)"
    and st3: "st3 = upd_set (release_blocks st2 s (block_list (sets st2 s))) s (\<lambda>x. x\<lparr>SET_WRITEBACK := False\<rparr>)"
  shows "\<exists>st'. put_set st3 (Some s) = Ret st' \<and> refs_ok ext h st'"
proof -
  have "set_refs_ok (\<lambda>t. ext t + ref_of (Some s) t) st1"
    using r s unfolding refs_ok_def set_refs_ok_def st1 by (auto simp: upd_set_def wb_queue_def)
  moreover have "blk_refs_ok h st1"
    using r by (auto simp: refs_ok_def st1 view_simps elim: blk_refs_ok_view)
  ultimately have "refs_ok (\<lambda>t. ext t + ref_of (Some s) t) h st1" by (simp add: refs_ok_def)
  then have "refs_ok (\<lambda>t. ext t + ref_of (Some s) t) h st3"
    by (rule refs_ok_view) (auto simp: st3 st2 view_simps dest!: bl_set_release)
  then obtain st' where "put_set st3 (Some s) = Ret st'" "set_refs_ok ext st'" "blk_refs_ok h st3"
    using put_set_refs [of ext "Some s" st3] by (auto simp: refs_ok_def)
  then show ?thesis using blk_view_put_set blk_refs_ok_view by (metis refs_ok_def)
qed

lemma end_write_refs:
  assumes r: "refs_ok ext h st" and b: "bl_set (blocks st b) = Some s" "\<not> BL_ERROR (blocks st b)"
    and sub: "0 < submitted_blocks (sets st s)"
  shows "\<exists>st'. end_write_io st b = Ret st' \<and> refs_ok ext h st'"
proof -
  define st0 where "st0 = try_queue_writeback_work (st\<lparr>nr_writeback := nr_writeback st - 1\<rparr>)"
  define st1 where "st1 = upd_set st0 s (\<lambda>x. x\<lparr>submitted_blocks := submitted_blocks x - 1\<rparr>)"
  define st2 where "st2 = upd_set (st1\<lparr>nr_dirty := nr_dirty st1 - int (set_size (sets st1 s))\<rparr>) s (\<lambda>x. x\<lparr>set_size := 0\<rparr>)"
  have r0: "refs_ok ext h st0" by (rule refs_ok_view [OF r]) (simp_all add: st0_def view_simps)
  have f0: "sets st0 = sets st" "next_set st0 = next_set st" by (simp_all add: st0_def try_queue_writeback_work_def)
  have s: "s < next_set st0" using r f0 b(1) by (auto simp: refs_ok_def dest: set_refs_okD(5))
  have run: "end_write_io st b =
      (if submitted_blocks (sets st1 s) > 0 then Ret st1
       else put_set (upd_set (release_blocks st2 s (block_list (sets st2 s))) s (\<lambda>x. x\<lparr>SET_WRITEBACK := False\<rparr>)) (Some s))"
    using b by (simp add: end_write_io_def Let_def st0_def [symmetric] st1_def [symmetric] st2_def [symmetric])
  show ?thesis
  proof (cases "submitted_blocks (sets st s) = 1")
    case True
    then have "\<not> submitted_blocks (sets st1 s) > 0" using f0 by (simp add: st1_def upd_set_def)
    then show ?thesis using run writeback_end_refs [OF r0 s _ st1_def st2_def refl] True f0 by simp
  next
    case False
    then have sub1: "submitted_blocks (sets st1 s) > 0" using sub f0 by (simp add: st1_def upd_set_def)
    have "set_refs_ok ext st1"
      using r0 sub sub1 f0 unfolding refs_ok_def set_refs_ok_def st1_def by (auto simp: upd_set_def wb_queue_def)
    moreover have "blk_refs_ok h st1" using r0 by (auto simp: refs_ok_def st1_def view_simps elim: blk_refs_ok_view)
    ultimately show ?thesis using run sub1 by (simp add: refs_ok_def)
  qed
qed

text \<open>The block of a request that is not a read is in a set that is being written.\<close>

lemma write_writeback:
  assumes inv: "cache_inv st" and t: "bnr \<in> (\<lambda>r. fst (snd r)) ` set (in_transport st)"
    and b: "map_of (ht st) bnr = Some b" "\<not> BL_READING (blocks st b)"
  shows "\<exists>s. bl_set (blocks st b) = Some s \<and> SET_WRITEBACK (sets st s)"
proof -
  have b': "b < next_block st" "bl_bnr (blocks st b) = bnr" using b(1) ht_okD(1) [OF cache_invD(3) [OF inv]] by auto
  have "0 < length (filter (\<lambda>r. fst (snd r) = bnr) (in_transport st))" using t by (auto simp: filter_empty_conv)
  then have "writes st b > 0" using b(2) b'(2) by (simp add: transport_count del: length_greater_0_conv)
  then show ?thesis using io_okD(1) [OF cache_invD(4) [OF inv] b'(1)] by auto
qed

lemma write_in_set:
  assumes inv: "cache_inv st" and t: "bnr \<in> (\<lambda>r. fst (snd r)) ` set (in_transport st)"
    and b: "map_of (ht st) bnr = Some b" "\<not> BL_READING (blocks st b)"
  shows "\<exists>s. bl_set (blocks st b) = Some s \<and> 0 < submitted_blocks (sets st s)"
proof -
  obtain s where s: "bl_set (blocks st b) = Some s" "SET_WRITEBACK (sets st s)" using write_writeback [OF assms] by blast
  then have "block_list (sets st s) \<noteq> []" using members_okD(1) [OF cache_invD(1) [OF inv], of b s] by auto
  then show ?thesis using s io_okD(3) [OF cache_invD(4) [OF inv] s(2)] by auto
qed

lemma end_io_refs:
  assumes inv: "cache_inv st" and r: "refs_ok ext h st" and t: "bnr \<in> (\<lambda>r. fst (snd r)) ` set (in_transport st)"
  shows "(\<exists>st'. ngnfs_block_end_io st bnr data_page err = Ret st' \<and> refs_ok ext h st') \<or>
    ngnfs_block_end_io st bnr data_page err = Bug \<and>
      (\<exists>b. map_of (ht st) bnr = Some b \<and> \<not> BL_READING (blocks st b) \<and> (BL_ERROR (blocks st b) \<or> err < 0))"
proof -
  note ht = cache_invD(3) [OF inv]
  obtain b where b: "map_of (ht st) bnr = Some b" using ht_ok_transport [OF ht] t by (metis (no_types, lifting) domD imageE)
  then have b': "b < next_block st" "bl_bnr (blocks st b) = bnr" using ht_okD(1) [OF ht] by auto
  define st1 where "st1 = get_block (transport_done st bnr) b"
  define st2 where "st2 = end_io_found st bnr err b"
  have st2': "st2 = (if err < 0 then sync_waiters_set_error
      (upd_block st1 b (\<lambda>bl. bl\<lparr>BL_ERROR := True, bl_error := err\<rparr>)) else st1)"
    by (simp add: st2_def st1_def end_io_found_def Let_def)
  note run = end_io_eq [OF b, of data_page err, folded st2_def]
  have "refs_ok ext h (transport_done st bnr)"
    by (rule refs_ok_view [OF r]) (simp_all add: transport_done_def view_simps)
  then have r1: "refs_ok ext (\<lambda>c. h c + of_bool (c = b)) st1"
    unfolding st1_def using b'(1) by (intro get_block_refs) (simp_all add: transport_done_def)
  have bl: "blocks (sync_waiters_set_error st) = blocks st" for st
    by (simp add: sync_waiters_set_error_def Let_def)
  have "refs_ok ext (\<lambda>c. h c + of_bool (c = b)) (sync_waiters_set_error
      (upd_block st1 b (\<lambda>bl. bl\<lparr>BL_ERROR := True, bl_error := err\<rparr>)))"
    by (rule refs_ok_view [OF refs_ok_upd_block [OF r1]]) (auto simp: view_simps bl)
  then have r2: "refs_ok ext (\<lambda>c. h c + of_bool (c = b)) st2" using r1 by (simp add: st2')
  have put: "\<exists>st'. ngnfs_block_end_io st bnr data_page err = Ret st' \<and> refs_ok ext h st'"
    if "(if BL_READING (blocks st2 b) then Ret (end_read_io st2 b data_page) else end_write_io st2 b) = Ret st3"
      "refs_ok ext (\<lambda>c. h c + of_bool (c = b)) st3" for st3
    using run that(1) put_block_refs [OF that(2)] by auto
  have rd: "BL_READING (blocks st2 b) = BL_READING (blocks st b)"
    by (simp add: st2' st1_def bl upd_block_def get_block_def transport_done_def)
  show ?thesis
  proof (cases "BL_READING (blocks st b)")
    case True
    have "refs_ok ext (\<lambda>c. h c + of_bool (c = b)) (end_read_io st2 b data_page)"
      using r2 by (auto simp: end_read_io_def Let_def intro!: refs_ok_upd_block split: option.splits)
    then show ?thesis using put True rd by simp
  next
    case False
    obtain s where s: "bl_set (blocks st b) = Some s" and sub: "0 < submitted_blocks (sets st s)"
      using write_in_set [OF inv t b False] by blast
    show ?thesis
    proof (cases "BL_ERROR (blocks st b) \<or> err < 0")
      case True
      then have "BL_ERROR (blocks st2 b)" "bl_set (blocks st2 b) = Some s"
        using s by (auto simp: st2' st1_def get_block_def upd_block_def transport_done_def bl)
      then show ?thesis using run b False rd True by (simp add: end_write_io_def)
    next
      case ok: False
      then have "bl_set (blocks st2 b) = Some s" "\<not> BL_ERROR (blocks st2 b)" "0 < submitted_blocks (sets st2 s)"
        using s sub by (simp_all add: st2' st1_def get_block_def upd_block_def transport_done_def)
      from end_write_refs [OF r2 this] show ?thesis using put False rd by auto
    qed
  qed
qed


subsection \<open>Writeback\<close>

lemma queue_set_blocks_refs:
  assumes "refs_ok ext h st" "distinct bs" "\<forall>b\<in>set bs. b < next_block st"
  shows "(\<exists>st'. queue_set_blocks bs st = Ret st' \<and> refs_ok ext h st') \<or>
    queue_set_blocks bs st = Undef \<and> (\<exists>b\<in>set bs. on_submit st b)"
  using assms
proof (induction bs arbitrary: st)
  case (Cons b bs)
  show ?case
  proof (cases "on_submit st b")
    case False
    have "refs_ok ext (\<lambda>c. h c + of_bool (c = b)) (get_block st b)"
      using Cons.prems by (intro get_block_refs) auto
    moreover have "\<not> on_submit (get_block st b) b" using False by (simp add: on_submit_def get_block_def upd_block_def)
    ultimately obtain st1 where st1: "llist_add_submit (get_block st b) b = Ret st1" "refs_ok ext h st1"
        "submit_llist st1 = b # submit_llist st" "submit_list st1 = submit_list st"
      using llist_add_refs by (fastforce simp: get_block_def upd_block_def)
    moreover have "next_block st1 = next_block st"
      using st1(1) by (auto simp: llist_add_submit_def get_block_def upd_block_def split: if_splits)
    ultimately show ?thesis using Cons.IH [OF st1(2)] Cons.prems(2,3) by (auto simp: on_submit_def)
  next
    case True
    then have "llist_add_submit (get_block st b) b = Undef"
      by (auto simp: llist_add_submit_def on_submit_def get_block_def upd_block_def)
    then show ?thesis using True by simp
  qed
qed simp

lemma writeback_set_refs:
  assumes inv: "cache_inv st" and r: "refs_ok ext h st" and l: "writeback_list st = s # ss"
  shows "(\<exists>st'. writeback_set s (upd_set st s (\<lambda>x. x\<lparr>SET_WRITEBACK := True\<rparr>)) = Ret st' \<and> refs_ok ext h st') \<or>
    writeback_set s (upd_set st s (\<lambda>x. x\<lparr>SET_WRITEBACK := True\<rparr>)) = Undef \<and>
      (\<exists>b. bl_set (blocks st b) = Some s \<and> on_submit st b)"
proof -
  note m = cache_invD(1) [OF inv] and q = cache_invD(2) [OF inv]
  let ?st1 = "(upd_set st s (\<lambda>x. x\<lparr>SET_WRITEBACK := True\<rparr>))\<lparr>writeback_list := ss\<rparr>"
  let ?st2 = "upd_set (?st1\<lparr>nr_writeback := nr_writeback st + int (set_size (sets st s))\<rparr>) s
      (\<lambda>x. x\<lparr>submitted_blocks := submitted_blocks x + int (set_size x)\<rparr>)"
  let ?st3 = "get_set ?st2 s"
  have sq: "wb_queue st = s # wb_queue ?st1" using l by (simp add: wb_queue_def upd_set_def)
  have s: "s < next_set st" "\<not> SET_WRITEBACK (sets st s)" using queue_okD(2,3) [OF q, of s] sq by auto
  have rs: "set_refs_ok ext st" "blk_refs_ok h st" using r by (simp_all add: refs_ok_def)
  have v: "blk_view ?st3 = blk_view st" by (simp add: view_simps)
  have r1: "refs_ok (\<lambda>t. ext t + ref_of (Some s) t) h ?st1"
    using rs s(1) sq unfolding refs_ok_def set_refs_ok_def blk_refs_ok_def by (auto simp: upd_set_def wb_queue_def)
  have sub: "submitted_blocks (sets st s) = 0" using not_writing_submitted [OF inv s(2)] .
  have put: "\<exists>st'. put_set (st4\<lparr>writeback_seq := writeback_seq st4 + 1\<rparr>) (Some s) = Ret st' \<and> refs_ok ext h st'"
    if "refs_ok (\<lambda>t. ext t + ref_of (Some s) t) h st4" for st4
  proof -
    have "refs_ok (\<lambda>t. ext t + ref_of (Some s) t) h (st4\<lparr>writeback_seq := writeback_seq st4 + 1\<rparr>)"
      by (rule refs_ok_view [OF that]) (simp_all add: view_simps)
    then show ?thesis
      using put_set_refs [of ext "Some s"] blk_view_put_set blk_refs_ok_view unfolding refs_ok_def by metis
  qed
  show ?thesis
  proof (cases "set_size (sets st s) = 0")
    case True
    have "writeback_set s (upd_set st s (\<lambda>x. x\<lparr>SET_WRITEBACK := True\<rparr>)) =
        put_set (?st1\<lparr>writeback_seq := writeback_seq ?st1 + 1\<rparr>) (Some s)"
      using True l by (simp add: writeback_set_def Let_def upd_set_def)
    then show ?thesis using put [OF r1] by simp
  next
    case False
    have r3: "refs_ok (\<lambda>t. ext t + ref_of (Some s) t) h ?st3"
      using r1 False sub s(1) unfolding refs_ok_def set_refs_ok_def blk_refs_ok_def
      by (auto simp: upd_set_def get_set_def wb_queue_def)
    have run: "writeback_set s (upd_set st s (\<lambda>x. x\<lparr>SET_WRITEBACK := True\<rparr>)) =
        bind_run (queue_set_blocks (block_list (sets st s)) ?st3)
          (\<lambda>st4. put_set ((try_queue_submit_work st4)\<lparr>writeback_seq := writeback_seq (try_queue_submit_work st4) + 1\<rparr>) (Some s))"
      using False l by (simp add: writeback_set_def Let_def upd_set_def get_set_def bind_run_assoc)
    have bd: "\<forall>b\<in>set (block_list (sets st s)). b < next_block ?st3"
      using inv_member_bound [OF inv] by (auto simp: get_set_def upd_set_def)
    consider st4 where "queue_set_blocks (block_list (sets st s)) ?st3 = Ret st4" "refs_ok (\<lambda>t. ext t + ref_of (Some s) t) h st4"
      | b where "queue_set_blocks (block_list (sets st s)) ?st3 = Undef" "b \<in> set (block_list (sets st s))" "on_submit ?st3 b"
      using queue_set_blocks_refs [OF r3 members_okD(2) [OF m] bd] by blast
    then show ?thesis
    proof cases
      case (1 st4)
      have "refs_ok (\<lambda>t. ext t + ref_of (Some s) t) h (try_queue_submit_work st4)"
        by (rule refs_ok_view [OF 1(2)]) (simp_all add: view_simps)
      then show ?thesis using run 1(1) put by simp
    next
      case (2 b)
      have "writeback_set s (upd_set st s (\<lambda>x. x\<lparr>SET_WRITEBACK := True\<rparr>)) = Undef" using run 2(1) by simp
      then show ?thesis using 2(2,3) members_okD(1) [OF m, of b s] by (auto simp: on_submit_def get_set_def upd_set_def)
    qed
  qed
qed


text \<open>A block of a set that is not being written is on a submission list only for a read.\<close>

lemma on_submit_reading:
  assumes "cache_inv st" "on_submit st b" "\<And>s. bl_set (blocks st b) = Some s \<Longrightarrow> \<not> SET_WRITEBACK (sets st s)"
  shows "BL_READING (blocks st b)"
proof -
  have "b < next_block st" using assms(2) ht_okD(3,4) [OF cache_invD(3) [OF assms(1)], of b] by (auto simp: on_submit_def)
  then have "writes st b = 0" using assms(3) by (intro not_writing_writes [OF assms(1)])
  moreover have "0 < count_list (submit_llist st) b + count_list (submit_list st) b"
    using assms(2) by (auto simp: on_submit_def count_list_0_iff intro: gr0I)
  ultimately show ?thesis by (intro ccontr [of "BL_READING (blocks st b)"]) (auto simp: transport_count)
qed

definition set_reading :: "block_info \<Rightarrow> bool" where
  "set_reading st \<longleftrightarrow> (\<exists>b. bl_set (blocks st b) \<noteq> None \<and> BL_READING (blocks st b))"

lemma writeback_loop_refs:
  assumes "cache_inv st" "refs_ok ext h st" "writeback_list st = ss"
  shows "(\<exists>w st'. writeback_loop ss st = Ret (w, st') \<and> refs_ok ext h st') \<or>
    writeback_loop ss st = Undef \<and> set_reading st"
  using assms
proof (induction ss arbitrary: st)
  case (Cons s ss)
  let ?st1 = "upd_set st s (\<lambda>x. x\<lparr>SET_WRITEBACK := True\<rparr>)"
  have nw: "\<not> SET_WRITEBACK (sets st s)"
    using queue_okD(3) [OF cache_invD(2) [OF Cons.prems(1)], of s] Cons.prems(3) by (simp add: wb_queue_def)
  have d: "SET_DIRTYING (sets ?st1 s) = SET_DIRTYING (sets st s)" by (simp add: upd_set_def)
  consider (stop) "\<not> should_writeback st" | (dirtying) "should_writeback st" "SET_DIRTYING (sets st s)"
    | (set) "should_writeback st" "\<not> SET_DIRTYING (sets st s)" by blast
  then show ?case
  proof cases
    case stop
    then show ?thesis using Cons.prems(2) by simp
  next
    case dirtying
    have "refs_ok ext h (upd_set ?st1 s (\<lambda>x. x\<lparr>SET_WRITEBACK := False\<rparr>))"
      by (rule refs_ok_view [OF Cons.prems(2)]) (simp_all add: view_simps)
    then show ?thesis using dirtying nw d by (simp add: Let_def)
  next
    case set
    have run: "writeback_loop (s # ss) st = bind_run (writeback_set s ?st1) (writeback_loop ss)"
      using set nw d by (simp add: Let_def)
    consider st2 where "writeback_set s ?st1 = Ret st2" "refs_ok ext h st2"
      | b where "writeback_set s ?st1 = Undef" "bl_set (blocks st b) = Some s" "on_submit st b"
      using writeback_set_refs [OF Cons.prems] by blast
    then show ?thesis
    proof cases
      case (1 st2)
      note c = writeback_set_core [OF cache_invD(1) [OF Cons.prems(1)] 1(1)]
      have s1: "safe_step st st2"
        using wb_started_inv [OF Cons.prems(1,3) set(2) c(2)] c(1) by (rule safe_step_core_right)
      have "writeback_list st2 = ss" using core_eqD(8) [OF c(1)] Cons.prems(3) by simp
      then have "(\<exists>w st'. writeback_loop ss st2 = Ret (w, st') \<and> refs_ok ext h st') \<or>
          writeback_loop ss st2 = Undef \<and> set_reading st2"
        using s1 1(2) by (intro Cons.IH) (auto simp: safe_step_def)
      moreover have "set_reading st2 = set_reading st" using core_eqD(12,13) [OF c(1)] by (simp add: set_reading_def)
      ultimately show ?thesis using run 1(1) by simp
    next
      case (2 b)
      then have "BL_READING (blocks st b)" using on_submit_reading [OF Cons.prems(1) 2(3)] nw by simp
      then show ?thesis using run 2(1,2) by (auto simp: set_reading_def)
    qed
  qed
qed simp

lemma writeback_work_refs:
  assumes inv: "cache_inv st" and r: "refs_ok ext h st"
  shows "(\<exists>w st'. ngnfs_block_writeback_work st = Ret (w, st') \<and> refs_ok ext h st') \<or>
    ngnfs_block_writeback_work st = Undef \<and> set_reading st"
proof -
  let ?st1 = "st\<lparr>writeback_list := writeback_list st @ rev (writeback_llist st), writeback_llist := [], writeback_queued := False\<rparr>"
  have "set_view ?st1 = set_view st" by (simp add: set_view_def wb_queue_def)
  then have r1: "refs_ok ext h ?st1" by (rule refs_ok_view [OF r]) (simp_all add: view_simps)
  have run: "ngnfs_block_writeback_work st = writeback_loop (writeback_list ?st1) ?st1"
    by (simp add: ngnfs_block_writeback_work_def del_all_reverse_add_tail_def fold_Cons_rev Let_def)
  have "set_reading ?st1 = set_reading st" by (simp add: set_reading_def)
  then show ?thesis using run writeback_loop_refs [OF writeback_gather_inv [OF inv] r1 refl] by simp
qed

end
