(* ===== verification/Block_Ref_Sys.thy ===== *)
theory Block_Ref_Sys
  imports Block_Ref_Io Block_Submit
begin

text \<open>
  The reference counts hold in every reachable state of the block cache and its callers.
\<close>

subsection \<open>The references of all threads\<close>

definition tsum :: "(pc \<Rightarrow> nat) \<Rightarrow> (nat \<Rightarrow> pc) \<Rightarrow> nat" where
  "tsum f p = (\<Sum>t | p t \<noteq> Idle. f (p t))"

lemma tsum_split:
  assumes "finite {t. p t \<noteq> Idle}" "f Idle = 0"
  shows "tsum f p = tsum f (p(t := Idle)) + f (p t)"
proof (cases "p t = Idle")
  case True
  then have "p(t := Idle) = p" by auto
  then show ?thesis using True assms(2) by simp
next
  case False
  have e: "{u. (p(t := Idle)) u \<noteq> Idle} = {u. p u \<noteq> Idle} - {t}" by auto
  have "tsum f p = f (p t) + (\<Sum>u\<in>{u. p u \<noteq> Idle} - {t}. f (p u))"
    unfolding tsum_def using assms(1) False by (intro sum.remove) auto
  then show ?thesis unfolding tsum_def e by (simp add: add.commute)
qed

lemma finite_busy_upd: "finite {t. p t \<noteq> Idle} \<Longrightarrow> finite {u. (p(t := x)) u \<noteq> Idle}"
  by (rule finite_subset [of _ "insert t {t. p t \<noteq> Idle}"]) auto

definition set_refs :: "block_info \<Rightarrow> (nat \<Rightarrow> pc) \<Rightarrow> sid \<Rightarrow> nat" where
  "set_refs c p s = tsum (\<lambda>q. pc_set_refs c q s) p"

definition waiting :: "(nat \<Rightarrow> pc) \<Rightarrow> bid \<Rightarrow> nat" where
  "waiting p b = tsum (\<lambda>q. of_bool (q = Getting b)) p"

lemma set_refs_split: "finite {t. p t \<noteq> Idle} \<Longrightarrow> set_refs c p s = set_refs c (p(t := Idle)) s + pc_set_refs c (p t) s"
  unfolding set_refs_def by (rule tsum_split) simp_all

lemma waiting_split: "finite {t. p t \<noteq> Idle} \<Longrightarrow> waiting p b = waiting (p(t := Idle)) b + of_bool (p t = Getting b)"
  unfolding waiting_def by (rule tsum_split) simp_all

lemma waiting_upd:
  "finite {t. p t \<noteq> Idle} \<Longrightarrow> waiting (p(t := x)) b = waiting (p(t := Idle)) b + of_bool (x = Getting b)"
  using waiting_split [of "p(t := x)" b t, OF finite_busy_upd] by simp

lemma set_refs_upd:
  "finite {t. p t \<noteq> Idle} \<Longrightarrow> set_refs c (p(t := x)) s = set_refs c (p(t := Idle)) s + pc_set_refs c x s"
  using set_refs_split [of "p(t := x)" c s t, OF finite_busy_upd] by simp

lemma set_refs_cong:
  assumes "\<And>t bs. p t = Dirtying bs \<Longrightarrow> bl_set (blocks c' (hd bs)) = bl_set (blocks c (hd bs))"
  shows "set_refs c' p = set_refs c p"
proof
  fix s
  have "pc_set_refs c' (p t) s = pc_set_refs c (p t) s" for t
    using assms [of t] by (cases "p t") simp_all
  then show "set_refs c' p s = set_refs c p s" by (simp add: set_refs_def tsum_def)
qed

definition ref_inv :: "sys \<Rightarrow> bool" where
  "ref_inv y \<longleftrightarrow> finite {t. pcs y t \<noteq> Idle} \<and>
     refs_ok (set_refs (cache y) (pcs y)) (\<lambda>b. held y b + waiting (pcs y) b) (cache y)"

text \<open>A step changes no set that another thread is dirtying.\<close>

lemma dirtying_set_kept:
  assumes "owners_ok y own" "pcs y t = Dirtying bs" "bs \<noteq> []" "keeps D (cache y) c" "own t \<in> D"
    "cache_inv (cache y)" "cache_inv c"
  shows "bl_set (blocks c (hd bs)) = bl_set (blocks (cache y) (hd bs))"
proof -
  have h: "holds_dirty (cache y) bs (own t)" using assms(1,2) by (simp add: owners_ok_def)
  then have "holds_dirty c bs (own t)" using assms(4-7) by (rule holds_dirty_keeps)
  then show ?thesis using h assms(3) by (simp add: holds_dirty_def)
qed

lemma safe_step_set_kept:
  assumes "sys_inv y" "keeps (dirtying (cache y)) (cache y) c" "cache_inv c" "pcs y t = Dirtying bs"
  shows "bl_set (blocks c (hd bs)) = bl_set (blocks (cache y) (hd bs))"
proof -
  obtain own where o: "owners_ok y own" and ci: "cache_inv (cache y)" and p: "pc_ok (cache y) (pcs y t)"
    using assms(1) by (auto simp: sys_inv_def)
  have "own t \<in> dirtying (cache y)" using o assms(4) by (auto simp: owners_ok_def)
  moreover have "bs \<noteq> []" using p assms(4) by (simp add: pc_ok_def)
  ultimately show ?thesis using dirtying_set_kept [OF o assms(4) _ assms(2) _ ci assms(3)] by blast
qed

lemma ref_inv_worker:
  assumes inv: "sys_inv y" and r: "ref_inv y" and s: "safe_step (cache y) c"
    and c: "refs_ok (set_refs (cache y) (pcs y)) (\<lambda>b. held y b + waiting (pcs y) b) c"
  shows "ref_inv (y\<lparr>cache := c\<rparr>)"
proof -
  have "set_refs c (pcs y) = set_refs (cache y) (pcs y)"
    using safe_step_set_kept [OF inv, of c] s by (intro set_refs_cong) (auto simp: safe_step_def)
  then show ?thesis using r c by (simp add: ref_inv_def)
qed

lemma ref_inv_thread:
  assumes r: "ref_inv y"
    and k: "\<And>u bs. u \<noteq> t \<Longrightarrow> pcs y u = Dirtying bs \<Longrightarrow> bl_set (blocks c (hd bs)) = bl_set (blocks (cache y) (hd bs))"
    and c: "refs_ok (\<lambda>s. set_refs (cache y) ((pcs y)(t := Idle)) s + pc_set_refs c p s)
        (\<lambda>b. h b + waiting ((pcs y)(t := Idle)) b + of_bool (p = Getting b)) c"
    and y': "cache y' = c" "pcs y' = (pcs y)(t := p)" "held y' = h"
  shows "ref_inv y'"
proof -
  have f: "finite {t. pcs y t \<noteq> Idle}" using r by (simp add: ref_inv_def)
  have "set_refs c ((pcs y)(t := Idle)) = set_refs (cache y) ((pcs y)(t := Idle))"
    using k by (intro set_refs_cong) (auto split: if_splits)
  then have s: "set_refs c (pcs y') = (\<lambda>s. set_refs (cache y) ((pcs y)(t := Idle)) s + pc_set_refs c p s)"
    unfolding y'(2) by (intro HOL.ext) (simp add: set_refs_upd [OF f, of c t p])
  have w: "(\<lambda>b. held y' b + waiting (pcs y') b) = (\<lambda>b. h b + waiting ((pcs y)(t := Idle)) b + of_bool (p = Getting b))"
    unfolding y'(2,3) by (intro HOL.ext) (simp add: waiting_upd [OF f, of t p])
  show ?thesis using c f finite_busy_upd [OF f, of t p] y' unfolding ref_inv_def y'(1) s w by simp
qed


text \<open>The references, those of one thread apart.\<close>

lemma ref_inv_split:
  assumes "ref_inv y"
  shows "refs_ok (\<lambda>s. set_refs (cache y) ((pcs y)(t := Idle)) s + pc_set_refs (cache y) (pcs y t) s)
    (\<lambda>b. held y b + waiting ((pcs y)(t := Idle)) b + of_bool (pcs y t = Getting b)) (cache y)"
proof -
  have f: "finite {t. pcs y t \<noteq> Idle}" and r: "refs_ok (set_refs (cache y) (pcs y)) (\<lambda>b. held y b + waiting (pcs y) b) (cache y)"
    using assms by (simp_all add: ref_inv_def)
  show ?thesis
  proof (rule refs_ok_cong [OF r])
    show "set_refs (cache y) (pcs y) s = set_refs (cache y) ((pcs y)(t := Idle)) s + pc_set_refs (cache y) (pcs y t) s" for s
      by (rule set_refs_split [OF f])
    show "held y b + waiting (pcs y) b = held y b + waiting ((pcs y)(t := Idle)) b + of_bool (pcs y t = Getting b)" for b
      using waiting_split [OF f, of b t] by simp
  qed
qed

lemma ref_inv_dirty:
  assumes inv: "sys_inv y" and r: "ref_inv y" and d: "dirty_post bs res (cache y) c"
    and p: "\<And>b. pcs y t \<noteq> Getting b"
    and dr: "\<And>ext. set_refs_ok (\<lambda>s. ext s + pc_set_refs (cache y) (pcs y t) s) (cache y) \<Longrightarrow>
        dirty_refs ext bs (cache y) (Ret (res, c))"
  shows "ref_inv (y\<lparr>cache := c, pcs := (pcs y)(t := after_dirty bs res)\<rparr>)"
proof (rule ref_inv_thread [OF r])
  have k: "cache_inv c" "keeps (dirtying (cache y)) (cache y) c" using d by (auto simp: dirty_post_def walk_step_def)
  show "bl_set (blocks c (hd bs')) = bl_set (blocks (cache y) (hd bs'))" if "pcs y u = Dirtying bs'" for u bs'
    using safe_step_set_kept [OF inv k(2,1) that] .
  let ?ext = "set_refs (cache y) ((pcs y)(t := Idle))"
  let ?h = "\<lambda>b. held y b + waiting ((pcs y)(t := Idle)) b + of_bool (pcs y t = Getting b)"
  have s: "refs_ok (\<lambda>s. ?ext s + pc_set_refs (cache y) (pcs y t) s) ?h (cache y)" by (rule ref_inv_split [OF r])
  then have "dirty_refs ?ext bs (cache y) (Ret (res, c))" by (intro dr) (simp add: refs_ok_def)
  then have "set_refs_ok (\<lambda>s. ?ext s + pc_set_refs c (after_dirty bs res) s) c" "blk_view c = blk_view (cache y)"
    by (auto simp: dirty_refs_def)
  moreover from this(2) have "blk_refs_ok ?h c" using s by (auto simp: refs_ok_def elim: blk_refs_ok_view)
  ultimately have a: "refs_ok (\<lambda>s. ?ext s + pc_set_refs c (after_dirty bs res) s) ?h c" by (simp add: refs_ok_def)
  show "refs_ok (\<lambda>s. ?ext s + pc_set_refs c (after_dirty bs res) s)
      (\<lambda>b. held y b + waiting ((pcs y)(t := Idle)) b + of_bool (after_dirty bs res = Getting b)) c"
    using a p by (elim refs_ok_cong) (auto simp: after_dirty_def split: dirty_result.splits)
qed simp_all

lemma ref_inv_block:
  assumes inv: "sys_inv y" and r: "ref_inv y" and s: "safe_step (cache y) c"
    and np: "\<And>s. pc_set_refs (cache y) (pcs y t) s = 0" "\<And>s. pc_set_refs c p s = 0"
    and c: "\<And>ext. refs_ok ext (\<lambda>b. held y b + waiting ((pcs y)(t := Idle)) b + of_bool (pcs y t = Getting b)) (cache y) \<Longrightarrow>
        refs_ok ext (\<lambda>b. h b + waiting ((pcs y)(t := Idle)) b + of_bool (p = Getting b)) c"
    and y': "cache y' = c" "pcs y' = (pcs y)(t := p)" "held y' = h"
  shows "ref_inv y'"
proof (rule ref_inv_thread [OF r _ _ y'])
  show "bl_set (blocks c (hd bs)) = bl_set (blocks (cache y) (hd bs))" if "pcs y u = Dirtying bs" for u bs
    using safe_step_set_kept [OF inv _ _ that] s by (auto simp: safe_step_def)
  show "refs_ok (\<lambda>s. set_refs (cache y) ((pcs y)(t := Idle)) s + pc_set_refs c p s)
        (\<lambda>b. h b + waiting ((pcs y)(t := Idle)) b + of_bool (p = Getting b)) c"
    using ref_inv_split [OF r, of t] np by (intro c) simp
qed

lemma ref_inv_end:
  assumes inv: "sys_inv y" and r: "ref_inv y" and t: "pcs y t = Dirtying bs"
    and e: "ngnfs_block_dirty_end bs (cache y) = Ret c"
  shows "ref_inv (y\<lparr>cache := c, pcs := (pcs y)(t := Idle)\<rparr>)"
proof -
  obtain own where o: "owners_ok y own" and ci: "cache_inv (cache y)" and p: "\<And>t. pc_ok (cache y) (pcs y t)"
    using inv by (auto simp: sys_inv_def)
  have h: "holds_dirty (cache y) bs (own t)" using o t by (simp add: owners_ok_def)
  have bs: "bs \<noteq> []" using p [of t] t by (simp add: pc_ok_def)
  let ?D = "dirtying (cache y) - {own t}"
  let ?ext = "set_refs (cache y) ((pcs y)(t := Idle))"
  let ?h = "\<lambda>b. held y b + waiting ((pcs y)(t := Idle)) b + of_bool (pcs y t = Getting b)"
  have k: "cache_inv c" "keeps ?D (cache y) c" using dirty_end_inv(1) [OF ci h bs _ e, of ?D] by (auto simp: walk_step_def)
  have hd: "bl_set (blocks (cache y) (hd bs)) = Some (own t)" using h bs by (simp add: holds_dirty_def)
  have s: "refs_ok (\<lambda>s. ?ext s + pc_set_refs (cache y) (pcs y t) s) ?h (cache y)" by (rule ref_inv_split [OF r])
  then have "set_refs_ok (\<lambda>s. ?ext s + ref_of (Some (own t)) s) (cache y)" using t hd by (simp add: refs_ok_def)
  from dirty_end_refs [OF bs hd this] have "set_refs_ok ?ext c" "blk_view c = blk_view (cache y)" using e by auto
  then have "refs_ok ?ext ?h c" using s by (auto simp: refs_ok_def elim: blk_refs_ok_view)
  then have a: "refs_ok (\<lambda>s. ?ext s + pc_set_refs c Idle s)
      (\<lambda>b. held y b + waiting ((pcs y)(t := Idle)) b + of_bool (Idle = Getting b)) c"
    using t by (elim refs_ok_cong) auto
  have "bl_set (blocks c (hd bs')) = bl_set (blocks (cache y) (hd bs'))" if "u \<noteq> t" "pcs y u = Dirtying bs'" for u bs'
  proof (rule dirtying_set_kept [OF o that(2) _ k(2) _ ci k(1)])
    show "bs' \<noteq> []" using p [of u] that(2) by (simp add: pc_ok_def)
    show "own u \<in> ?D" using o that t by (auto simp: owners_ok_def inj_on_def)
  qed
  from ref_inv_thread [OF r this a] show ?thesis by simp
qed


lemma held_get_refs: "held_get r h b + of_bool (after_get r = Getting b) = h b + get_refs r b"
  by (auto simp: held_get_def after_get_def get_refs_def split: get_result.splits sum.splits)

lemma block_step_refs:
  assumes inv: "sys_inv y" and r: "ref_inv y" and st: "block_step y y'"
  shows "ref_inv y'"
  using st
proof cases
  case (get t alloc_ok bnr nbf res c)
  note ht = cache_invD(3) [of "cache y"]
  have ci: "cache_inv (cache y)" using inv by (simp add: sys_inv_def)
  have "refs_ok ext (\<lambda>b. held_get res (held y) b + waiting ((pcs y)(t := Idle)) b + of_bool (after_get res = Getting b)) c"
    if "refs_ok ext (\<lambda>b. held y b + waiting ((pcs y)(t := Idle)) b + of_bool (pcs y t = Getting b)) (cache y)" for ext
  proof -
    have "refs_ok ext (\<lambda>b. (held y b + waiting ((pcs y)(t := Idle)) b + of_bool (pcs y t = Getting b)) + get_refs res b) c"
      using block_get_refs [OF that ht [OF ci], of alloc_ok bnr nbf] unfolding get(3) by auto
    then show ?thesis
    proof (rule refs_ok_ext)
      fix b
      show "(held y b + waiting ((pcs y)(t := Idle)) b + of_bool (pcs y t = Getting b)) + get_refs res b =
          held_get res (held y) b + waiting ((pcs y)(t := Idle)) b + of_bool (after_get res = Getting b)"
        using held_get_refs [of res "held y" b] get(2) by simp
    qed
  qed
  then show ?thesis
    using get block_get_inv(1) [OF ci get(3)]
    by (intro ref_inv_block [OF inv r, of c t "after_get res"]) (auto simp: after_get_def split: get_result.splits)
next
  case (get_woken t b res c)
  have ci: "cache_inv (cache y)" using inv by (simp add: sys_inv_def)
  have "refs_ok ext (\<lambda>c. held_get (Get_done res) (held y) c + waiting ((pcs y)(t := Idle)) c + of_bool (Idle = Getting c)) c"
    if "refs_ok ext (\<lambda>c. held y c + waiting ((pcs y)(t := Idle)) c + of_bool (pcs y t = Getting c)) (cache y)" for ext
  proof -
    have "refs_ok ext (\<lambda>c. (held y c + waiting ((pcs y)(t := Idle)) c) + of_bool (b = c)) (cache y)"
      using that get_woken(2) by (elim refs_ok_ext) auto
    from block_get_finish_refs [OF this] show ?thesis
      using get_woken(4) held_get_refs [of "Get_done res" "held y"] by (auto simp: after_get_def elim!: refs_ok_ext)
  qed
  then show ?thesis
    using get_woken safe_step_core [OF ci core_block_get_finish [OF get_woken(4)]]
    by (intro ref_inv_block [OF inv r, of c t Idle]) auto
next
  case (put t b c)
  have ci: "cache_inv (cache y)" using inv by (simp add: sys_inv_def)
  have "refs_ok ext (\<lambda>d. ((held y)(b := held y b - 1)) d + waiting ((pcs y)(t := Idle)) d + of_bool (Idle = Getting d)) c"
    if a: "refs_ok ext (\<lambda>d. held y d + waiting ((pcs y)(t := Idle)) d + of_bool (pcs y t = Getting d)) (cache y)" for ext
  proof -
    have "refs_ok ext (\<lambda>d. (((held y)(b := held y b - 1)) d + waiting ((pcs y)(t := Idle)) d) + of_bool (d = b)) (cache y)"
      using put(2,3) by (intro refs_ok_ext [OF a]) auto
    from put_block_refs [OF this] show ?thesis using put(4) by (auto simp: ngnfs_block_put_def elim!: refs_ok_ext)
  qed
  moreover have "(pcs y)(t := Idle) = pcs y" using put(2) by auto
  ultimately show ?thesis
    using put safe_step_core [OF ci core_put_block, of b c]
    by (intro ref_inv_block [OF inv r, of c t Idle]) (auto simp: ngnfs_block_put_def)
next
  case (dirty_begin t bs km res c)
  have "dirty_post bs res (cache y) c" using dirty_begin(3-5) inv by (intro dirty_begin_inv) (auto simp: sys_inv_def)
  moreover have "dirty_refs ext bs (cache y) (Ret (res, c))" if "set_refs_ok ext (cache y)" for ext
    using dirty_begin_refs [of "cache y" bs ext km] dirty_begin(3-5) inv that by (auto simp: sys_inv_def)
  ultimately show ?thesis using dirty_begin(1,2) by (auto intro!: ref_inv_dirty [OF inv r])
next
  case (throttle_woken t bs km res c)
  have p: "pc_ok (cache y) (Throttled bs)" using inv throttle_woken(2) by (metis sys_inv_def)
  have "dirty_post bs res (cache y) c"
    using throttle_woken(4) inv p by (intro dirty_restart_inv) (auto simp: sys_inv_def pc_ok_def pc_blocks_def)
  moreover have "dirty_refs ext bs (cache y) (Ret (res, c))" if "set_refs_ok ext (cache y)" for ext
    using dirty_restart_refs [of "cache y" bs ext None None km] throttle_woken(4) p inv that
    by (auto simp: sys_inv_def pc_ok_def pc_blocks_def)
  ultimately show ?thesis using throttle_woken(1,2) by (auto intro!: ref_inv_dirty [OF inv r])
next
  case (dirty_woken t bs w small large km res c)
  have p: "pc_ok (cache y) (Dirty_waiting bs w small large)" using inv dirty_woken(2) by (metis sys_inv_def)
  have "dirty_post bs res (cache y) c"
    using dirty_woken(4) inv p by (intro dirty_resume_inv) (auto simp: sys_inv_def pc_ok_def pc_blocks_def)
  moreover have "dirty_refs ext bs (cache y) (Ret (res, c))"
    if "set_refs_ok (\<lambda>s. ext s + (ref_of small s + ref_of large s)) (cache y)" for ext
    using dirty_resume_refs [of "cache y" bs ext small large km w] dirty_woken(4) p inv that
    by (auto simp: sys_inv_def pc_ok_def pc_blocks_def add.assoc)
  ultimately show ?thesis using dirty_woken(1,2) by (auto intro!: ref_inv_dirty [OF inv r])
next
  case (modify t bs b page)
  let ?c = "upd_block (cache y) b (\<lambda>bl. bl\<lparr>bl_page := page\<rparr>)"
  have "core ?c = core (cache y)" by (simp add: core_def upd_block_def fun_eq_iff)
  then have "safe_step (cache y) ?c" using inv by (intro safe_step_core) (auto simp: sys_inv_def)
  moreover have "refs_ok (set_refs (cache y) (pcs y)) (\<lambda>b. held y b + waiting (pcs y) b) ?c"
    by (rule refs_ok_upd_block [OF r [unfolded ref_inv_def, THEN conjunct2]]) simp_all
  ultimately show ?thesis unfolding modify(1) by (rule ref_inv_worker [OF inv r])
next
  case (dirty_end t bs c)
  then show ?thesis using ref_inv_end [OF inv r] by simp
next
  case (sync t seq c)
  have c: "c = sync_up_to_seq (cache y) (dirty_seq (cache y))" using sync(3) by (auto simp: ngnfs_block_sync_def)
  have "safe_step (cache y) c" using inv core_sync(4) c by (intro safe_step_core) (auto simp: sys_inv_def)
  moreover have "refs_ok ext h c" if "refs_ok ext h (cache y)" for ext h
    by (rule refs_ok_view [OF that]) (simp_all add: c view_simps)
  ultimately show ?thesis using sync(1,2) by (intro ref_inv_block [OF inv r, of c t "Syncing seq"]) auto
next
  case (sync_woken t seq ret c)
  have c: "c = snd (sync_waiters_dec_error (cache y))" using sync_woken(4) by (simp add: sync_finish_def)
  have "safe_step (cache y) c" using inv core_sync(3) c by (intro safe_step_core) (auto simp: sys_inv_def)
  moreover have "refs_ok ext h c" if "refs_ok ext h (cache y)" for ext h
    by (rule refs_ok_view [OF that]) (simp_all add: c view_simps, simp add: sync_waiters_dec_error_def Let_def)
  ultimately show ?thesis using sync_woken(1,2) by (intro ref_inv_block [OF inv r, of c t Idle]) auto
next
  case (submit_work submit_ret c)
  have ci: "cache_inv (cache y)" using inv by (simp add: sys_inv_def)
  have "refs_ok (set_refs (cache y) (pcs y)) (\<lambda>b. held y b + waiting (pcs y) b) c"
    using submit_work_refs [OF _ cache_invD(3) [OF ci], of _ _ submit_ret] submit_work(3) r by (fastforce simp: ref_inv_def)
  then show ?thesis unfolding submit_work(1) using submit_work_inv [OF ci submit_work(3)] by (intro ref_inv_worker [OF inv r])
next
  case (writeback_work w c)
  have ci: "cache_inv (cache y)" using inv by (simp add: sys_inv_def)
  have "refs_ok (set_refs (cache y) (pcs y)) (\<lambda>b. held y b + waiting (pcs y) b) c"
    using writeback_work_refs [OF ci] writeback_work(3) r by (fastforce simp: ref_inv_def)
  then show ?thesis unfolding writeback_work(1) using writeback_work_inv [OF ci writeback_work(3)] by (intro ref_inv_worker [OF inv r])
next
  case (end_io bnr data_page err c)
  have ci: "cache_inv (cache y)" using inv by (simp add: sys_inv_def)
  have "refs_ok (set_refs (cache y) (pcs y)) (\<lambda>b. held y b + waiting (pcs y) b) c"
    using end_io_refs [OF ci _ end_io(2), of _ _ data_page err] end_io(3) r by (fastforce simp: ref_inv_def)
  then show ?thesis unfolding end_io(1) using end_io_inv [OF ci end_io(2,3)] by (intro ref_inv_worker [OF inv r])
qed


lemma init_ref_inv: "ref_inv (init_sys depth)"
  by (simp add: ref_inv_def refs_ok_def set_refs_ok_def blk_refs_ok_def init_sys_def init_block_info_def
      new_block_def set_refs_def waiting_def tsum_def wb_queue_def)

interpretation refs: invariant_system block_step "\<lambda>y. sys_inv y \<and> ref_inv y" "init_sys depth" for depth
  by unfold_locales (auto intro: init_sys_inv block_step_inv init_ref_inv block_step_refs)

lemma waiting_card:
  assumes "finite {t. p t \<noteq> Idle}"
  shows "waiting p b = card {t. p t = Getting b}"
proof -
  have "{t. p t \<noteq> Idle} \<inter> {t. p t = Getting b} = {t. p t = Getting b}" by auto
  then show ?thesis unfolding waiting_def tsum_def of_bool_def using assms by (simp add: sum.If_cases)
qed




end
