(* ===== verification/Block_Safe.thy ===== *)
theory Block_Safe
  imports Block_Ref_Sys
begin

text \<open>
  No operation of the block cache runs into an assertion or corrupts a list, as long as \<open>NBF_NEW\<close>
  is not used on a block that another thread is reading, the transport accepts what it is given
  and no write fails.
\<close>

subsection \<open>What the bits of a block say about its users\<close>

text \<open>A block is in use when it was handed out, when a thread dirties it, and when it is in a set.\<close>

definition in_use :: "sys \<Rightarrow> bid \<Rightarrow> bool" where
  "in_use y b \<longleftrightarrow> 0 < held y b \<or> bl_set (blocks (cache y) b) \<noteq> None \<or> (\<exists>t. b \<in> set (pc_blocks (pcs y t)))"

definition fresh_blocks :: "block_info \<Rightarrow> bool" where
  "fresh_blocks c \<longleftrightarrow> (\<forall>b \<ge> next_block c. \<not> BL_READING (blocks c b) \<and> \<not> BL_UPTODATE (blocks c b) \<and> \<not> BL_ERROR (blocks c b))"

text \<open>
  A block in use is up to date, and the read a thread waits for ends with the block up to date or
  failed.
\<close>

definition users_ok :: "sys \<Rightarrow> bool" where
  "users_ok y \<longleftrightarrow> fresh_blocks (cache y) \<and> (\<forall>b. in_use y b \<longrightarrow> BL_UPTODATE (blocks (cache y) b)) \<and>
     (\<forall>t b. pcs y t = Getting b \<longrightarrow>
        BL_READING (blocks (cache y) b) \<or> BL_UPTODATE (blocks (cache y) b) \<or> BL_ERROR (blocks (cache y) b))"

definition errors_ok :: "sys \<Rightarrow> bool" where
  "errors_ok y \<longleftrightarrow> (\<forall>b. in_use y b \<longrightarrow> \<not> BL_ERROR (blocks (cache y) b))"

text \<open>No block is read into while its contents are in use.\<close>

definition no_overlap :: "block_info \<Rightarrow> bool" where
  "no_overlap c \<longleftrightarrow> (\<forall>b. \<not> (BL_READING (blocks c b) \<and> BL_UPTODATE (blocks c b)))"

text \<open>What every operation does to the bits.\<close>

definition bits_step :: "block_info \<Rightarrow> block_info \<Rightarrow> bool" where
  "bits_step c c' \<longleftrightarrow> fresh_blocks c' \<and>
     (\<forall>b. (BL_UPTODATE (blocks c b) \<longrightarrow> BL_UPTODATE (blocks c' b)) \<and>
       (BL_ERROR (blocks c b) \<longrightarrow> BL_ERROR (blocks c' b)) \<and>
       (BL_READING (blocks c b) \<longrightarrow>
          BL_READING (blocks c' b) \<or> BL_UPTODATE (blocks c' b) \<or> BL_ERROR (blocks c' b)) \<and>
       (BL_ERROR (blocks c' b) \<longrightarrow> BL_ERROR (blocks c b) \<or> BL_READING (blocks c b)))"

lemma users_step:
  assumes u: "users_ok y" and b: "bits_step (cache y) (cache y')"
    and n: "\<And>b. in_use y' b \<Longrightarrow> in_use y b \<or> BL_UPTODATE (blocks (cache y') b)"
    and g: "\<And>t b. pcs y' t = Getting b \<Longrightarrow> pcs y t = Getting b \<or> BL_READING (blocks (cache y') b)"
  shows "users_ok y'"
  using assms unfolding users_ok_def bits_step_def by metis

lemma errors_step:
  assumes u: "users_ok y" and e: "errors_ok y" and o: "no_overlap (cache y)" and b: "bits_step (cache y) (cache y')"
    and n: "\<And>b. in_use y' b \<Longrightarrow> in_use y b \<or> \<not> BL_ERROR (blocks (cache y') b)"
  shows "errors_ok y'"
  using assms unfolding users_ok_def errors_ok_def no_overlap_def bits_step_def by metis

subsection \<open>The operations\<close>

definition same_bits :: "block_info \<Rightarrow> block_info \<Rightarrow> bool" where
  "same_bits c c' \<longleftrightarrow> next_block c' = next_block c \<and>
     (\<forall>b. BL_READING (blocks c' b) = BL_READING (blocks c b) \<and> BL_UPTODATE (blocks c' b) = BL_UPTODATE (blocks c b) \<and>
       BL_ERROR (blocks c' b) = BL_ERROR (blocks c b) \<and> bl_set (blocks c' b) = bl_set (blocks c b))"

lemma same_bits_refl [simp]: "same_bits c c"
  by (simp add: same_bits_def)

lemma same_bits_trans: "same_bits c c' \<Longrightarrow> same_bits c' c'' \<Longrightarrow> same_bits c c''"
  by (simp add: same_bits_def)

lemma same_bits_step: "same_bits c c' \<Longrightarrow> fresh_blocks c \<Longrightarrow> bits_step c c'"
  by (simp add: same_bits_def bits_step_def fresh_blocks_def)

lemma bits_step_view:
  assumes "blk_view c' = blk_view c" "fresh_blocks c"
  shows "bits_step c c'"
  using assms(2) unfolding bits_step_def fresh_blocks_def blk_viewD [OF assms(1)] by simp

lemma same_bits_blocks: "blocks c' = blocks c \<Longrightarrow> next_block c' = next_block c \<Longrightarrow> same_bits c c'"
  by (simp add: same_bits_def)

lemma same_bits_put_set: "put_set c so = Ret c' \<Longrightarrow> same_bits c c'"
  by (auto simp: put_set_def upd_set_def same_bits_def Let_def run_simps split: if_splits option.splits)

lemma same_bits_put_block: "put_block c b = Ret c' \<Longrightarrow> same_bits c c'"
  by (auto simp: put_block_def free_block_def upd_block_def same_bits_def Let_def run_simps split: if_splits)

lemma same_bits_submit_loop: "submit_loop submit_ret bs space c = Ret c' \<Longrightarrow> same_bits c c'"
proof (induction bs arbitrary: c space)
  case (Cons b bs)
  show ?case
  proof (cases "space < 0")
    case False
    then obtain n tr l c1 where c1: "put_block (c\<lparr>submit_list := l, nr_submitted := n, in_transport := tr\<rparr>) b = Ret c1"
        "submit_loop submit_ret bs (space - 1) c1 = Ret c'"
      using Cons.prems by (auto simp: Let_def run_simps)
    have "same_bits c (c\<lparr>submit_list := l, nr_submitted := n, in_transport := tr\<rparr>)" by (simp add: same_bits_def)
    then show ?thesis using same_bits_put_block [OF c1(1)] Cons.IH [OF c1(2)] by (blast intro: same_bits_trans)
  qed (use Cons.prems in simp)
qed simp

lemma same_bits_submit_work: "ngnfs_block_submit_work submit_ret c = Ret c' \<Longrightarrow> same_bits c c'"
  by (auto simp: ngnfs_block_submit_work_def del_all_reverse_add_tail_def Let_def same_bits_def
      dest!: same_bits_submit_loop)

lemma same_bits_queue_set_blocks: "queue_set_blocks bs c = Ret c' \<Longrightarrow> same_bits c c'"
proof (induction bs arbitrary: c)
  case (Cons b bs)
  obtain c1 where c1: "llist_add_submit (get_block c b) b = Ret c1" "queue_set_blocks bs c1 = Ret c'"
    using Cons.prems by (auto simp: run_simps)
  have "same_bits c c1"
    using c1(1) by (auto simp: llist_add_submit_def get_block_def upd_block_def same_bits_def split: if_splits)
  then show ?case using Cons.IH [OF c1(2)] by (rule same_bits_trans)
qed simp


lemma same_bits_writeback_set: "writeback_set s c = Ret c' \<Longrightarrow> same_bits c c'"
proof (cases "set_size (sets c s) > 0")
  case True
  let ?c1 = "get_set (upd_set (c\<lparr>writeback_list := remove1 s (writeback_list c),
      nr_writeback := nr_writeback c + int (set_size (sets c s))\<rparr>) s
      (\<lambda>x. x\<lparr>submitted_blocks := submitted_blocks x + int (set_size x)\<rparr>)) s"
  assume "writeback_set s c = Ret c'"
  then obtain c2 where c2: "queue_set_blocks (block_list (sets ?c1 s)) ?c1 = Ret c2"
      "put_set ((try_queue_submit_work c2)\<lparr>writeback_seq := writeback_seq (try_queue_submit_work c2) + 1\<rparr>) (Some s) = Ret c'"
    using True by (auto simp: writeback_set_def Let_def run_simps)
  have "same_bits c ?c1" by (rule same_bits_blocks) (simp_all add: get_set_def upd_set_def)
  moreover have "same_bits c2 ((try_queue_submit_work c2)\<lparr>writeback_seq := writeback_seq (try_queue_submit_work c2) + 1\<rparr>)"
    by (rule same_bits_blocks) (simp_all add: try_queue_submit_work_def)
  ultimately show ?thesis
    using same_bits_queue_set_blocks [OF c2(1)] same_bits_put_set [OF c2(2)] by (blast intro: same_bits_trans)
next
  case False
  assume "writeback_set s c = Ret c'"
  then have "put_set (c\<lparr>writeback_list := remove1 s (writeback_list c), writeback_seq := writeback_seq c + 1\<rparr>) (Some s) = Ret c'"
    using False by (simp add: writeback_set_def Let_def)
  then show ?thesis by (auto simp: same_bits_def dest!: same_bits_put_set)
qed

lemma same_bits_writeback_loop: "writeback_loop ss c = Ret (w, c') \<Longrightarrow> same_bits c c'"
proof (induction ss arbitrary: c)
  case (Cons s ss)
  let ?c1 = "upd_set c s (\<lambda>x. x\<lparr>SET_WRITEBACK := True\<rparr>)"
  have u: "same_bits c (upd_set c s f)" for c s f by (rule same_bits_blocks) (simp_all add: upd_set_def)
  show ?case
  proof (cases "should_writeback c \<and> \<not> SET_DIRTYING (sets ?c1 s)")
    case True
    then obtain c2 where "writeback_set s ?c1 = Ret c2" "writeback_loop ss c2 = Ret (w, c')"
      using Cons.prems by (auto simp: Let_def run_simps split: if_splits)
    then show ?thesis using u Cons.IH same_bits_writeback_set by (blast intro: same_bits_trans)
  next
    case False
    then show ?thesis
      using Cons.prems same_bits_trans [OF u u] by (auto simp: Let_def run_simps split: if_splits)
  qed
qed simp

lemma same_bits_writeback_work: "ngnfs_block_writeback_work c = Ret (w, c') \<Longrightarrow> same_bits c c'"
  by (auto simp: ngnfs_block_writeback_work_def del_all_reverse_add_tail_def Let_def same_bits_def
      dest!: same_bits_writeback_loop)

text \<open>Dirtying puts only the caller's blocks into sets.\<close>

definition members_in :: "(bid \<Rightarrow> bool) \<Rightarrow> block_info \<Rightarrow> bool" where
  "members_in U c \<longleftrightarrow> (\<forall>b. bl_set (blocks c b) \<noteq> None \<longrightarrow> U b) \<and> (\<forall>s. \<forall>b\<in>set (block_list (sets c s)). U b)"

lemma members_in_upd_set:
  "members_in U c \<Longrightarrow> (\<And>x. set (block_list (f x)) \<subseteq> set (block_list x)) \<Longrightarrow> members_in U (upd_set c s f)"
  by (fastforce simp: members_in_def upd_set_def)

lemma members_in_blocks:
  "members_in U c \<Longrightarrow> blocks c' = blocks c \<Longrightarrow> sets c' = sets c \<Longrightarrow> members_in U c'"
  by (simp add: members_in_def)

lemma members_in_drop_clean: "members_in U c \<Longrightarrow> members_in U (drop_clean c s bs)"
proof (induction bs arbitrary: c)
  case (Cons b bs)
  have "members_in U (upd_block (upd_set c s (\<lambda>x. x\<lparr>block_list := remove1 b (block_list x), set_size := set_size x - 1\<rparr>)) b
      (\<lambda>bl. bl\<lparr>bl_set := None\<rparr>))"
    using Cons.prems by (auto simp: members_in_def upd_set_def upd_block_def dest: notin_set_remove1 [THEN contrapos_pp])
      (metis notin_set_remove1)+
  then show ?case using Cons by simp
qed simp

lemma members_in_clear: "members_in U c \<Longrightarrow> members_in U (clear_set_dirtying c s)"
  unfolding clear_set_dirtying_def Let_def
  by (rule members_in_blocks [OF members_in_upd_set [OF members_in_drop_clean]])
    (simp_all add: try_queue_writeback_work_def)

lemma members_in_merge: "members_in U c \<Longrightarrow> members_in U (merge_sets c small large)"
  by (auto simp: merge_sets_def Let_def move_to_set_eq members_in_def upd_set_def split: if_splits)

lemma members_in_mark_dirty: "members_in U c \<Longrightarrow> members_in U (mark_dirty c bs)"
proof (induction bs arbitrary: c)
  case (Cons b bs)
  have "members_in U ((upd_block c b (\<lambda>bl. bl\<lparr>BL_DIRTY := True\<rparr>))\<lparr>nr_dirty := nr_dirty c + 1\<rparr>)"
    using Cons.prems by (auto simp: members_in_def upd_block_def)
  then show ?case using Cons by simp
qed simp

lemma members_in_dirty_large:
  assumes "members_in U c"
  shows "members_in U (dirty_large c l)"
proof -
  let ?c1 = "mark_dirty c (rev (block_list (sets c l)))"
  have "members_in U ?c1" using assms by (rule members_in_mark_dirty)
  then show ?thesis
    by (auto simp: dirty_large_def Let_def members_in_def try_queue_writeback_work_def get_set_def upd_set_def)
qed

lemma members_in_put_set: "members_in U c \<Longrightarrow> put_set c so = Ret c' \<Longrightarrow> members_in U c'"
  by (auto simp: put_set_def Let_def run_simps intro!: members_in_upd_set split: option.splits if_splits)

lemma members_in_get_other_set:
  "members_in U c \<Longrightarrow> U b \<Longrightarrow> get_other_set km c b so = (g, c') \<Longrightarrow> members_in U c'"
  by (auto simp: get_other_set_def get_set_def Let_def members_in_def upd_set_def upd_block_def new_set_def
      split: option.splits if_splits)

interpretation mi: walk_large_kept "members_in U" U for U
proof
  show "members_in U (sync_up_to_seq c seq)" if "members_in U c" for c seq
    using that by (rule members_in_blocks)
      (simp_all add: sync_up_to_seq_def sync_waiters_inc_def try_queue_writeback_work_def Let_def)
  show "members_in U (snd (sync_finish c))" if "members_in U c" for c
    using that by (rule members_in_blocks) (simp_all add: sync_finish_def sync_waiters_dec_error_def Let_def)
qed (auto intro: members_in_put_set members_in_get_other_set members_in_upd_set members_in_clear
    members_in_merge members_in_dirty_large)

subsubsection \<open>Getting a block\<close>

lemma lookup_or_alloc_bits:
  assumes "fresh_blocks c" "ht_ok c" "lookup_or_alloc_block alloc_ok c bnr = Ret (r, c')"
  shows "fresh_blocks c'" "BL_READING (blocks c' b) = BL_READING (blocks c b)"
    "BL_UPTODATE (blocks c' b) = BL_UPTODATE (blocks c b)" "BL_ERROR (blocks c' b) = BL_ERROR (blocks c b)"
    "bl_set (blocks c' b) = bl_set (blocks c b)" "r = Inr a \<Longrightarrow> a < next_block c'"
proof -
  have n: "bl_set (blocks c (next_block c)) = None"
    using ht_okD(2) [OF assms(2), of "next_block c"] by (cases "bl_set (blocks c (next_block c))") auto
  have k: "map_of (ht c) bnr = Some a \<Longrightarrow> a < next_block c" for a using ht_okD(1) [OF assms(2)] by auto
  have "fresh_blocks c' \<and> BL_READING (blocks c' b) = BL_READING (blocks c b) \<and>
      BL_UPTODATE (blocks c' b) = BL_UPTODATE (blocks c b) \<and> BL_ERROR (blocks c' b) = BL_ERROR (blocks c b) \<and>
      bl_set (blocks c' b) = bl_set (blocks c b) \<and> (r = Inr a \<longrightarrow> a < next_block c')"
    using assms(1,3) n k
    by (auto simp: lookup_or_alloc_block_def lookup_block_def alloc_block_def get_block_def upd_block_def new_block_def
        fresh_blocks_def split: option.splits if_splits)
  then show "fresh_blocks c'" "BL_READING (blocks c' b) = BL_READING (blocks c b)"
    "BL_UPTODATE (blocks c' b) = BL_UPTODATE (blocks c b)" "BL_ERROR (blocks c' b) = BL_ERROR (blocks c b)"
    "bl_set (blocks c' b) = bl_set (blocks c b)" "r = Inr a \<Longrightarrow> a < next_block c'" by blast+
qed


lemma fresh_upd_block: "fresh_blocks c \<Longrightarrow> b < next_block c \<Longrightarrow> fresh_blocks (upd_block c b f)"
  by (simp add: fresh_blocks_def upd_block_def)

lemma get_finish_bits:
  assumes "block_get_finish c b = Ret (r, c')"
  shows "same_bits c c'" "r = Inr a \<Longrightarrow> a = b \<and> \<not> BL_ERROR (blocks c b)"
  using assms by (auto simp: block_get_finish_def run_simps dest: same_bits_put_block split: if_splits)

lemma block_get_bits:
  assumes f: "fresh_blocks c" "ht_ok c" and g: "ngnfs_block_get alloc_ok c bnr nbf = Ret (r, c')"
  shows "bits_step c c' \<and> (\<forall>b. bl_set (blocks c' b) = bl_set (blocks c b)) \<and>
    (\<forall>b. r = Get_wait b \<longrightarrow> BL_READING (blocks c' b)) \<and>
    (\<forall>b. r = Get_done (Inr b) \<longrightarrow> BL_UPTODATE (blocks c' b) \<and> \<not> BL_ERROR (blocks c' b))"
proof (cases "bad_nbf nbf")
  case True
  then show ?thesis using g same_bits_step [OF same_bits_refl f(1)] by (auto simp: ngnfs_block_get_def)
next
  case False
  obtain lr c1 where l: "lookup_or_alloc_block alloc_ok c bnr = Ret (lr, c1)"
    using g False by (auto simp: ngnfs_block_get_def run_simps)
  note L = lookup_or_alloc_bits [OF f l]
  show ?thesis
  proof (cases lr)
    case (Inl e)
    then have "c' = c1" "r = Get_done (Inl e)" using g False l by (auto simp: ngnfs_block_get_def)
    then show ?thesis using L(1-5) by (simp add: bits_step_def)
  next
    case (Inr b)
    let ?new = "\<lambda>bl. bl\<lparr>bl_page := \<lambda>i. if i < 4096 then 0 else bl_page bl i, BL_UPTODATE := True\<rparr>"
    define c2 where "c2 = (if nbf AND NBF_NEW \<noteq> 0 then upd_block c1 b ?new else c1)"
    have b1: "b < next_block c1" using L(6) Inr by simp
    have new: "bits_step c (upd_block c1 b ?new) \<and> (\<forall>a. bl_set (blocks (upd_block c1 b ?new) a) = bl_set (blocks c a))"
      using fresh_upd_block [OF L(1) b1] L(2-5) by (simp add: bits_step_def upd_block_def)
    have old: "bits_step c c1 \<and> (\<forall>a. bl_set (blocks c1 a) = bl_set (blocks c a))" using L(1-5) by (simp add: bits_step_def)
    have b2: "bits_step c c2" "\<And>a. bl_set (blocks c2 a) = bl_set (blocks c a)" "b < next_block c2"
      using new old b1 by (auto simp: c2_def upd_block_def)
    have get: "ngnfs_block_get alloc_ok c bnr nbf =
        (if \<not> BL_UPTODATE (blocks c2 b)
         then bind_run
           (if BL_READING (blocks c2 b) then Ret c2
            else bind_run
              (llist_add_submit (get_block (upd_block c2 b (\<lambda>bl. bl\<lparr>BL_READING := True\<rparr>)) b) b)
              (\<lambda>st. Ret (try_queue_submit_work st)))
           (\<lambda>st. Ret (Get_wait b, st))
         else bind_run (block_get_finish c2 b) (\<lambda>(r, st). Ret (Get_done r, st)))"
      using False l Inr by (simp add: ngnfs_block_get_def Let_def c2_def)
    consider (ready) "BL_UPTODATE (blocks c2 b)" | (reading) "\<not> BL_UPTODATE (blocks c2 b)" "BL_READING (blocks c2 b)"
      | (start) "\<not> BL_UPTODATE (blocks c2 b)" "\<not> BL_READING (blocks c2 b)" by blast
    then show ?thesis
    proof cases
      case ready
      then obtain fr where fr: "block_get_finish c2 b = Ret (fr, c')" "r = Get_done fr"
        using get [unfolded g, symmetric] by (auto simp: run_simps)
      note F = get_finish_bits [OF fr(1)]
      have "bits_step c c'" using b2(1) F(1) by (simp add: bits_step_def same_bits_def fresh_blocks_def)
      moreover have "BL_UPTODATE (blocks c' b)" "BL_ERROR (blocks c' b) = BL_ERROR (blocks c2 b)"
        "\<forall>a. bl_set (blocks c' a) = bl_set (blocks c2 a)" using F(1) ready by (simp_all add: same_bits_def)
      ultimately show ?thesis using F(2) fr(2) b2(2) by auto
    next
      case reading
      then have "r = Get_wait b" "c' = c2" using get g by auto
      then show ?thesis using reading b2 by simp
    next
      case start
      let ?c3 = "get_block (upd_block c2 b (\<lambda>bl. bl\<lparr>BL_READING := True\<rparr>)) b"
      obtain c4 where c4: "llist_add_submit ?c3 b = Ret c4" "r = Get_wait b" "c' = try_queue_submit_work c4"
        using get [unfolded g, symmetric] start by (auto simp: run_simps)
      have c': "blocks c' = blocks ?c3" "next_block c' = next_block ?c3"
        using c4 by (auto simp: llist_add_submit_def try_queue_submit_work_def split: if_splits)
      have "fresh_blocks c2" using b2(1) by (simp add: bits_step_def)
      then have "fresh_blocks c'" using c' b2(3) by (auto simp: fresh_blocks_def get_block_def upd_block_def)
      moreover have "BL_READING (blocks c' a) = (BL_READING (blocks c2 a) \<or> a = b)" "bl_set (blocks c' a) = bl_set (blocks c2 a)"
        "BL_UPTODATE (blocks c' a) = BL_UPTODATE (blocks c2 a)" "BL_ERROR (blocks c' a) = BL_ERROR (blocks c2 a)" for a
        unfolding c'(1) by (auto simp: get_block_def upd_block_def)
      ultimately show ?thesis using b2 c4(2) by (auto simp: bits_step_def)
    qed
  qed
qed

subsubsection \<open>Completing a request\<close>

lemma end_write_bits:
  assumes "end_write_io c b = Ret c'"
  shows "next_block c' = next_block c" "BL_READING (blocks c' a) = BL_READING (blocks c a)"
    "BL_UPTODATE (blocks c' a) = BL_UPTODATE (blocks c a)" "BL_ERROR (blocks c' a) = BL_ERROR (blocks c a)"
    "bl_set (blocks c' a) \<noteq> None \<Longrightarrow> bl_set (blocks c a) \<noteq> None" "\<not> BL_ERROR (blocks c b)"
proof -
  have q: "next_block (try_queue_writeback_work c) = next_block c" for c by (simp add: try_queue_writeback_work_def)
  have p: "put_set c so = Ret c' \<Longrightarrow> next_block c' = next_block c \<and> blocks c' = blocks c" for c so c'
    by (auto simp: put_set_def Let_def upd_set_def run_simps split: option.splits if_splits)
  obtain s where s: "bl_set (blocks c b) = Some s" "\<not> BL_ERROR (blocks c b)"
    using assms by (auto simp: end_write_io_def run_simps split: option.splits)
  show "\<not> BL_ERROR (blocks c b)" by (rule s(2))
  have "next_block c' = next_block c \<and> BL_READING (blocks c' a) = BL_READING (blocks c a) \<and>
    BL_UPTODATE (blocks c' a) = BL_UPTODATE (blocks c a) \<and> BL_ERROR (blocks c' a) = BL_ERROR (blocks c a) \<and>
    (bl_set (blocks c' a) \<noteq> None \<longrightarrow> bl_set (blocks c a) \<noteq> None)"
    using assms s
    by (auto simp: end_write_io_def Let_def release_blocks_eq q upd_set_def dest!: p split: if_splits)
  then show "next_block c' = next_block c" "BL_READING (blocks c' a) = BL_READING (blocks c a)"
    "BL_UPTODATE (blocks c' a) = BL_UPTODATE (blocks c a)" "BL_ERROR (blocks c' a) = BL_ERROR (blocks c a)"
    "bl_set (blocks c' a) \<noteq> None \<Longrightarrow> bl_set (blocks c a) \<noteq> None" by auto
qed

lemma end_io_bits:
  assumes f: "fresh_blocks c" "ht_ok c" and e: "ngnfs_block_end_io c bnr data_page err = Ret c'"
  shows "bits_step c c' \<and> (\<forall>b. bl_set (blocks c' b) \<noteq> None \<longrightarrow> bl_set (blocks c b) \<noteq> None) \<and>
    (\<forall>b. BL_READING (blocks c' b) \<longrightarrow> BL_READING (blocks c b) \<and> BL_UPTODATE (blocks c' b) = BL_UPTODATE (blocks c b))"
proof -
  obtain b c3 where b: "map_of (ht c) bnr = Some b"
      and c3: "(if BL_READING (blocks (end_io_found c bnr err b) b) then Ret (end_read_io (end_io_found c bnr err b) b data_page)
        else end_write_io (end_io_found c bnr err b) b) = Ret c3" "put_block c3 b = Ret c'"
    using e by (rule end_io_split)
  have bn: "b < next_block c" using b ht_okD(1) [OF f(2)] by auto
  define c2 where "c2 = end_io_found c bnr err b"
  note c3 = c3 [folded c2_def]
  have c2: "next_block c2 = next_block c" "BL_READING (blocks c2 a) = BL_READING (blocks c a)"
    "BL_UPTODATE (blocks c2 a) = BL_UPTODATE (blocks c a)" "bl_set (blocks c2 a) = bl_set (blocks c a)"
    "BL_ERROR (blocks c2 a) = (BL_ERROR (blocks c a) \<or> a = b \<and> err < 0)" for a
    by (auto simp: c2_def end_io_found_def sync_waiters_set_error_def Let_def get_block_def upd_block_def transport_done_def)
  have fr: "fresh_blocks c3" if "next_block c3 = next_block c"
    "\<And>a. a \<noteq> b \<Longrightarrow> BL_READING (blocks c3 a) = BL_READING (blocks c a) \<and>
      BL_UPTODATE (blocks c3 a) = BL_UPTODATE (blocks c a) \<and> BL_ERROR (blocks c3 a) = BL_ERROR (blocks c a)"
    using f(1) bn that unfolding fresh_blocks_def by (metis not_le)
  have "bits_step c c3 \<and> (\<forall>b. bl_set (blocks c3 b) \<noteq> None \<longrightarrow> bl_set (blocks c b) \<noteq> None) \<and>
    (\<forall>b. BL_READING (blocks c3 b) \<longrightarrow> BL_READING (blocks c b) \<and> BL_UPTODATE (blocks c3 b) = BL_UPTODATE (blocks c b))"
  proof (cases "BL_READING (blocks c b)")
    case True
    then have "c3 = end_read_io c2 b data_page" using c3(1) c2(2) by simp
    then have x: "next_block c3 = next_block c2" "bl_set (blocks c3 a) = bl_set (blocks c2 a)"
      "BL_ERROR (blocks c3 a) = BL_ERROR (blocks c2 a)" "BL_READING (blocks c3 a) = (BL_READING (blocks c2 a) \<and> a \<noteq> b)"
      "BL_UPTODATE (blocks c3 a) = (BL_UPTODATE (blocks c2 a) \<or> a = b \<and> \<not> BL_ERROR (blocks c2 b))" for a
      by (auto simp: end_read_io_def Let_def upd_block_def split: option.splits)
    have "fresh_blocks c3" by (rule fr) (simp_all add: x c2)
    then show ?thesis using True by (auto simp: bits_step_def x c2)
  next
    case False
    then have w: "end_write_io c2 b = Ret c3" using c3(1) c2(2) by simp
    note W = end_write_bits [OF w]
    have ne: "\<not> err < 0" using W(6) c2(5) [of b] by simp
    have "fresh_blocks c3" by (rule fr) (use ne in \<open>simp_all add: W(1-4) c2\<close>)
    then show ?thesis using W(5) ne by (simp add: bits_step_def W(2-4) c2)
  qed
  moreover have "same_bits c3 c'" using c3(2) by (rule same_bits_put_block)
  ultimately show ?thesis by (simp add: same_bits_def bits_step_def fresh_blocks_def)
qed


subsection \<open>Every step\<close>

text \<open>\<open>step_use\<close>: the step keeps what the bits say about the users.\<close>

definition step_use :: "sys \<Rightarrow> sys \<Rightarrow> bool" where
  "step_use y y' \<longleftrightarrow> bits_step (cache y) (cache y') \<and>
     (\<forall>b. in_use y' b \<longrightarrow> in_use y b \<or> BL_UPTODATE (blocks (cache y') b) \<and> \<not> BL_ERROR (blocks (cache y') b)) \<and>
     (\<forall>t b. pcs y' t = Getting b \<longrightarrow> pcs y t = Getting b \<or> BL_READING (blocks (cache y') b))"

lemma step_use_same:
  assumes "users_ok y" "same_bits (cache y) c" "cache y' = c" "\<And>b. 0 < held y' b \<Longrightarrow> 0 < held y b"
    "\<And>t. pcs y' t = pcs y t \<or> pc_blocks (pcs y' t) = [] \<and> (\<forall>b. pcs y' t \<noteq> Getting b)"
  shows "step_use y y'"
proof -
  have "in_use y b" if "in_use y' b" for b
    using that assms(2-4) assms(5) unfolding in_use_def same_bits_def by (metis empty_iff list.set(1))
  moreover have "pcs y t = Getting b" if "pcs y' t = Getting b" for t b using that assms(5) [of t] by auto
  moreover have "bits_step (cache y) (cache y')"
    using assms(1,2,3) same_bits_step by (auto simp: users_ok_def)
  ultimately show ?thesis by (auto simp: step_use_def)
qed

lemma step_use_dirty:
  assumes inv: "sys_inv y" and u: "users_ok y" and bs: "\<forall>b\<in>set bs. in_use y b"
    and b: "blk_view c = blk_view (cache y)"
    and m: "members_in (in_use y) (cache y) \<Longrightarrow> members_in (in_use y) c"
  shows "step_use y (y\<lparr>cache := c, pcs := (pcs y)(t := after_dirty bs r)\<rparr>)"
proof -
  have "members_in (in_use y) (cache y)"
    using members_okD(1) [OF cache_invD(1), of "cache y"] inv by (auto simp: members_in_def in_use_def sys_inv_def)
  then have sets: "bl_set (blocks c b) \<noteq> None \<Longrightarrow> in_use y b" for b using m by (auto simp: members_in_def)
  have sub: "set (pc_blocks (after_dirty bs r)) \<subseteq> set bs"
    by (auto simp: after_dirty_def pc_blocks_def split: dirty_result.splits if_splits)
  have "in_use y b" if i: "in_use (y\<lparr>cache := c, pcs := (pcs y)(t := after_dirty bs r)\<rparr>) b" for b
  proof -
    consider "0 < held y b" | "bl_set (blocks c b) \<noteq> None" | u where "b \<in> set (pc_blocks (((pcs y)(t := after_dirty bs r)) u))"
      using i by (auto simp: in_use_def)
    then show ?thesis
    proof cases
      case (3 u)
      then show ?thesis
      proof (cases "u = t")
        case True
        then show ?thesis using 3 sub bs by auto
      next
        case False
        then show ?thesis using 3 by (auto simp: in_use_def)
      qed
    qed (use sets in \<open>auto simp: in_use_def\<close>)
  qed
  moreover have "bits_step (cache y) c" using b u by (intro bits_step_view) (simp_all add: users_ok_def)
  moreover have "after_dirty bs r \<noteq> Getting b" for b by (auto simp: after_dirty_def split: dirty_result.splits)
  ultimately show ?thesis by (auto simp: step_use_def)
qed

lemma block_step_use:
  assumes inv: "sys_inv y" and u: "users_ok y" and st: "block_step y y'"
  shows "step_use y y'"
proof -
  have ci: "cache_inv (cache y)" and fr: "fresh_blocks (cache y)" using inv u by (auto simp: sys_inv_def users_ok_def)
  note ht = cache_invD(3) [OF ci]
  from st show ?thesis
  proof cases
    case (get t alloc_ok bnr nbf r c)
    note B = block_get_bits [OF fr ht get(3)]
    have "in_use y b \<or> BL_UPTODATE (blocks (cache y') b) \<and> \<not> BL_ERROR (blocks (cache y') b)" if i: "in_use y' b" for b
    proof (cases "r = Get_done (Inr b)")
      case True
      then show ?thesis using B get(1) by simp
    next
      case False
      then have "held_get r (held y) b = held y b" by (auto simp: held_get_def split: get_result.splits sum.splits)
      moreover have "pc_blocks (after_get r) = []" by (simp add: after_get_def pc_blocks_def split: get_result.splits)
      ultimately show ?thesis using i B unfolding get(1) in_use_def by (auto split: if_splits)
    qed
    moreover have "pcs y a = Getting b \<or> BL_READING (blocks (cache y') b)" if "pcs y' a = Getting b" for a b
      using that B unfolding get(1) by (auto simp: after_get_def split: if_splits get_result.splits)
    ultimately show ?thesis using B get(1) by (simp add: step_use_def)
  next
    case (get_woken t b r c)
    note F = get_finish_bits [OF get_woken(4)]
    have up: "BL_UPTODATE (blocks (cache y) b)" if "r = Inr b"
      using F(2) [OF that] u get_woken(2,3) by (auto simp: users_ok_def)
    have "in_use y a \<or> BL_UPTODATE (blocks (cache y') a) \<and> \<not> BL_ERROR (blocks (cache y') a)" if i: "in_use y' a" for a
    proof (cases "r = Inr a")
      case True
      then have "a = b" "\<not> BL_ERROR (blocks (cache y) b)" using F(2) by auto
      then show ?thesis using True up F(1) get_woken(1) by (auto simp: same_bits_def)
    next
      case False
      then have "held_get (Get_done r) (held y) a = held y a" by (auto simp: held_get_def split: sum.splits)
      then show ?thesis using i F(1) unfolding get_woken(1) in_use_def by (auto simp: pc_blocks_def same_bits_def split: if_splits)
    qed
    then show ?thesis
      using same_bits_step [OF F(1) fr] get_woken(1) by (auto simp: step_use_def split: if_splits)
  next
    case (put t b c)
    then show ?thesis
      using same_bits_put_block by (intro step_use_same [OF u]) (auto simp: ngnfs_block_put_def split: if_splits)
  next
    case (dirty_begin t bs km r c)
    have "blk_view c = blk_view (cache y)" using bv.begin_keeps [OF refl _ dirty_begin(5)] by simp
    moreover have use: "\<forall>b\<in>set bs. in_use y b" using dirty_begin(4) by (auto simp: in_use_def)
    ultimately show ?thesis
      unfolding dirty_begin(1) using mi.begin_keeps [OF _ use dirty_begin(5)] by (intro step_use_dirty [OF inv u])
  next
    case (throttle_woken t bs km r c)
    have "blk_view c = blk_view (cache y)" using bv.restart_keeps [OF refl _ throttle_woken(4)] by simp
    moreover have "set bs = set (pc_blocks (pcs y t))" using throttle_woken(2) by (simp add: pc_blocks_def)
    then have use: "\<forall>b\<in>set bs. in_use y b" by (auto simp: in_use_def)
    ultimately show ?thesis
      unfolding throttle_woken(1) using mi.restart_keeps [OF _ use throttle_woken(4)] by (intro step_use_dirty [OF inv u])
  next
    case (dirty_woken t bs w small large km r c)
    have "blk_view c = blk_view (cache y)" using bv.resume_keeps [OF refl _ dirty_woken(4)] by simp
    moreover have "set bs = set (pc_blocks (pcs y t))" using dirty_woken(2) by (simp add: pc_blocks_def)
    then have use: "\<forall>b\<in>set bs. in_use y b" by (auto simp: in_use_def)
    ultimately show ?thesis
      unfolding dirty_woken(1) using mi.resume_keeps [OF _ use dirty_woken(4)] by (intro step_use_dirty [OF inv u])
  next
    case (modify t bs b page)
    then show ?thesis by (intro step_use_same [OF u]) (auto simp: same_bits_def upd_block_def)
  next
    case (dirty_end t bs c)
    have "pc_ok (cache y) (Dirtying bs)" using inv dirty_end(2) by (metis sys_inv_def)
    then obtain b bs' where bs: "bs = b # bs'" by (cases bs) (auto simp: pc_ok_def)
    obtain s c1 where c1: "put_set (upd_set (cache y) s (\<lambda>x. x\<lparr>SET_DIRTYING := False\<rparr>)) (Some s) = Ret c1"
        "c = try_queue_writeback_work c1"
      using dirty_end(3) bs by (auto simp: ngnfs_block_dirty_end_def run_simps split: option.splits)
    have "same_bits (cache y) c"
      using same_bits_put_set [OF c1(1)] c1(2) by (simp add: same_bits_def upd_set_def try_queue_writeback_work_def)
    then show ?thesis unfolding dirty_end(1) by (intro step_use_same [OF u]) (auto simp: pc_blocks_def)
  next
    case (sync t seq c)
    then have c: "c = sync_up_to_seq (cache y) (dirty_seq (cache y))" by (auto simp: ngnfs_block_sync_def)
    have "next_block (sync_up_to_seq d q) = next_block d" for d q
      by (simp add: sync_up_to_seq_def sync_waiters_inc_def try_queue_writeback_work_def Let_def)
    then have "same_bits (cache y) c" by (simp add: c same_bits_def)
    then show ?thesis unfolding sync(1) by (intro step_use_same [OF u]) (auto simp: pc_blocks_def)
  next
    case (sync_woken t seq ret c)
    then have "same_bits (cache y) c" by (auto simp: sync_finish_def sync_waiters_dec_error_def Let_def same_bits_def)
    then show ?thesis unfolding sync_woken(1) by (intro step_use_same [OF u]) (auto simp: pc_blocks_def)
  next
    case (submit_work submit_ret c)
    then show ?thesis using same_bits_submit_work by (intro step_use_same [OF u]) auto
  next
    case (writeback_work w c)
    then show ?thesis using same_bits_writeback_work by (intro step_use_same [OF u]) auto
  next
    case (end_io bnr data_page err c)
    note E = end_io_bits [OF fr ht end_io(3)]
    then have "in_use y b" if "in_use y' b" for b using that unfolding end_io(1) by (auto simp: in_use_def)
    then show ?thesis using E end_io(1) by (auto simp: step_use_def)
  qed
qed


lemma block_step_users: "sys_inv y \<Longrightarrow> users_ok y \<Longrightarrow> block_step y y' \<Longrightarrow> users_ok y'"
  using block_step_use [of y y'] by (intro users_step [of y y']) (auto simp: step_use_def)

lemma init_users:
  "users_ok (init_sys depth)" "errors_ok (init_sys depth)" "no_overlap (cache (init_sys depth))"
  by (simp_all add: users_ok_def errors_ok_def no_overlap_def fresh_blocks_def in_use_def init_sys_def
      init_block_info_def new_block_def pc_blocks_def)

interpretation uses: invariant_system block_step "\<lambda>y. sys_inv y \<and> users_ok y" "init_sys depth" for depth
  by unfold_locales (auto intro: init_sys_inv block_step_inv init_users block_step_users)

subsection \<open>No operation fails\<close>

text \<open>A step after which no block is read into while its contents are in use.\<close>

definition plain_step :: "sys \<Rightarrow> sys \<Rightarrow> bool" where
  "plain_step y y' \<longleftrightarrow> block_step y y' \<and> no_overlap (cache y')"

definition plain_inv :: "sys \<Rightarrow> bool" where
  "plain_inv y \<longleftrightarrow> sys_inv y \<and> ref_inv y \<and> users_ok y \<and> errors_ok y \<and> no_overlap (cache y)"

lemma plain_step_inv:
  assumes "plain_inv y" "plain_step y y'"
  shows "plain_inv y'"
proof -
  have s: "block_step y y'" "no_overlap (cache y')" using assms(2) by (simp_all add: plain_step_def)
  have i: "sys_inv y" "ref_inv y" "users_ok y" "errors_ok y" "no_overlap (cache y)" using assms(1) by (simp_all add: plain_inv_def)
  have u: "step_use y y'" using block_step_use [OF i(1,3) s(1)] .
  have "users_ok y'" using block_step_users [OF i(1,3) s(1)] .
  moreover have "errors_ok y'" using u by (intro errors_step [OF i(3-5)]) (auto simp: step_use_def)
  ultimately show ?thesis
    using s block_step_inv [OF i(1) s(1)] block_step_refs [OF i(1,2) s(1)] by (simp add: plain_inv_def)
qed

lemma init_plain_inv: "plain_inv (init_sys depth)"
  by (simp add: plain_inv_def init_sys_inv init_ref_inv init_users)

interpretation plain: invariant_system plain_step plain_inv "init_sys depth" for depth
  by unfold_locales (auto intro: init_plain_inv plain_step_inv)

definition returns :: "'a run \<Rightarrow> bool" where
  "returns r \<longleftrightarrow> (\<exists>x. r = Ret x)"

text \<open>
  The calls a thread, a work or the transport can make in a state, with the guards of
  \<open>block_step\<close>, whose result is not a return.
\<close>

inductive block_fault :: "sys \<Rightarrow> bool" where
  get: "pcs y t = Idle \<Longrightarrow> \<not> returns (ngnfs_block_get alloc_ok (cache y) bnr nbf) \<Longrightarrow> block_fault y"
| get_woken: "pcs y t = Getting b \<Longrightarrow> \<not> BL_READING (blocks (cache y) b) \<Longrightarrow>
    \<not> returns (block_get_finish (cache y) b) \<Longrightarrow> block_fault y"
| put: "pcs y t = Idle \<Longrightarrow> 0 < held y b \<Longrightarrow> \<not> returns (ngnfs_block_put (cache y) b) \<Longrightarrow> block_fault y"
| dirty_begin: "pcs y t = Idle \<Longrightarrow> bs \<noteq> [] \<Longrightarrow> \<forall>b\<in>set bs. b < next_block (cache y) \<and> 0 < held y b \<Longrightarrow>
    \<not> returns (ngnfs_block_dirty_begin km bs (cache y)) \<Longrightarrow> block_fault y"
| throttle_woken: "pcs y t = Throttled bs \<Longrightarrow> \<not> dirty_throttled (cache y) \<Longrightarrow>
    \<not> returns (dirty_restart km bs None None (cache y)) \<Longrightarrow> block_fault y"
| dirty_woken: "pcs y t = Dirty_waiting bs w small large \<Longrightarrow> walk_woken (cache y) w \<Longrightarrow>
    \<not> returns (dirty_resume km bs w small large (cache y)) \<Longrightarrow> block_fault y"
| dirty_end: "pcs y t = Dirtying bs \<Longrightarrow> \<not> returns (ngnfs_block_dirty_end bs (cache y)) \<Longrightarrow> block_fault y"
| submit_work: "submit_queued (cache y) \<Longrightarrow> \<forall>op bnr. submit_ret op bnr = 0 \<Longrightarrow>
    \<not> returns (ngnfs_block_submit_work submit_ret (cache y)) \<Longrightarrow> block_fault y"
| writeback_work: "writeback_queued (cache y) \<Longrightarrow> \<not> returns (ngnfs_block_writeback_work (cache y)) \<Longrightarrow> block_fault y"
| end_io: "bnr \<in> (\<lambda>r. fst (snd r)) ` set (in_transport (cache y)) \<Longrightarrow>
    0 \<le> err \<or> (\<exists>b. map_of (ht (cache y)) bnr = Some b \<and> BL_READING (blocks (cache y) b)) \<Longrightarrow>
    \<not> returns (ngnfs_block_end_io (cache y) bnr data_page err) \<Longrightarrow> block_fault y"

lemma dirty_refs_returns: "dirty_refs ext bs c res \<Longrightarrow> returns res"
  by (auto simp: dirty_refs_def returns_def)

lemma plain_no_fault:
  assumes p: "plain_inv y"
  shows "\<not> block_fault y"
proof
  have i: "sys_inv y" "ref_inv y" "users_ok y" "errors_ok y" "no_overlap (cache y)" using p by (simp_all add: plain_inv_def)
  have ci: "cache_inv (cache y)" and pc: "\<And>t. pc_ok (cache y) (pcs y t)" using i(1) by (auto simp: sys_inv_def)
  note ht = cache_invD(3) [OF ci]
  have r: "refs_ok (set_refs (cache y) (pcs y)) (\<lambda>b. held y b + waiting (pcs y) b) (cache y)"
    using i(2) by (simp add: ref_inv_def)
  have sr: "set_refs_ok (\<lambda>s. set_refs (cache y) ((pcs y)(t := Idle)) s + pc_set_refs (cache y) (pcs y t) s) (cache y)" for t
    using ref_inv_split [OF i(2), of t] by (simp add: refs_ok_def)
  have up: "bl_set (blocks (cache y) b) \<noteq> None \<Longrightarrow>
      BL_UPTODATE (blocks (cache y) b) \<and> \<not> BL_READING (blocks (cache y) b) \<and> \<not> BL_ERROR (blocks (cache y) b)" for b
    using i(3-5) by (auto simp: users_ok_def errors_ok_def no_overlap_def in_use_def)
  assume "block_fault y"
  then show False
  proof cases
    case (get t alloc_ok bnr nbf)
    have "\<not> (on_submit (cache y) b \<and> \<not> BL_UPTODATE (blocks (cache y) b) \<and> \<not> BL_READING (blocks (cache y) b))" for b
      using on_submit_reading [OF ci, of b] up [of b] by auto
    then show False using block_get_refs [OF r ht, of alloc_ok bnr nbf] get(2) by (auto simp: returns_def)
  next
    case (get_woken t b)
    have "refs_ok (\<lambda>s. set_refs (cache y) ((pcs y)(t := Idle)) s + pc_set_refs (cache y) (pcs y t) s)
        (\<lambda>c. (held y c + waiting ((pcs y)(t := Idle)) c) + of_bool (b = c)) (cache y)"
      using ref_inv_split [OF i(2), of t] get_woken(1) by (elim refs_ok_cong) auto
    from block_get_finish_refs [OF this] show False using get_woken(3) by (auto simp: returns_def)
  next
    case (put t b)
    have "refs_ok (set_refs (cache y) (pcs y)) (\<lambda>d. (((held y)(b := held y b - 1)) d + waiting (pcs y) d) + of_bool (d = b)) (cache y)"
      using put(2) by (intro refs_ok_ext [OF r]) auto
    from put_block_refs [OF this] show False using put(3) by (auto simp: returns_def ngnfs_block_put_def)
  next
    case (dirty_begin t bs km)
    have "dirty_refs (set_refs (cache y) ((pcs y)(t := Idle))) bs (cache y) (ngnfs_block_dirty_begin km bs (cache y))"
      using dirty_begin(1-3) sr [of t] by (intro dirty_begin_refs [OF ci]) auto
    then show False using dirty_begin(4) dirty_refs_returns by blast
  next
    case (throttle_woken t bs km)
    have "dirty_refs (set_refs (cache y) ((pcs y)(t := Idle))) bs (cache y) (dirty_restart km bs None None (cache y))"
      using throttle_woken(1) pc [of t] sr [of t] by (intro dirty_restart_refs [OF ci]) (auto simp: pc_ok_def pc_blocks_def)
    then show False using throttle_woken(3) dirty_refs_returns by blast
  next
    case (dirty_woken t bs w small large km)
    have "dirty_refs (set_refs (cache y) ((pcs y)(t := Idle))) bs (cache y) (dirty_resume km bs w small large (cache y))"
      using dirty_woken(1) pc [of t] sr [of t]
      by (intro dirty_resume_refs [OF ci]) (auto simp: pc_ok_def pc_blocks_def add.assoc)
    then show False using dirty_woken(3) dirty_refs_returns by blast
  next
    case (dirty_end t bs)
    obtain own where o: "owners_ok y own" using i(1) by (auto simp: sys_inv_def)
    have bs: "bs \<noteq> []" using pc [of t] dirty_end(1) by (simp add: pc_ok_def)
    have hd: "bl_set (blocks (cache y) (hd bs)) = Some (own t)"
      using o dirty_end(1) bs by (simp add: owners_ok_def holds_dirty_def)
    have "set_refs_ok (\<lambda>s. set_refs (cache y) ((pcs y)(t := Idle)) s + ref_of (Some (own t)) s) (cache y)"
      using sr [of t] dirty_end(1) hd by simp
    from dirty_end_refs [OF bs hd this] show False using dirty_end(2) by (auto simp: returns_def)
  next
    case (submit_work submit_ret)
    then show False using submit_work_refs [OF r ht, of submit_ret] by (auto simp: returns_def)
  next
    case writeback_work
    have "\<not> set_reading (cache y)" using up by (auto simp: set_reading_def)
    then show False using writeback_work_refs [OF ci r] writeback_work(2) by (auto simp: returns_def)
  next
    case (end_io bnr err data_page)
    have "\<not> (map_of (ht (cache y)) bnr = Some b \<and> \<not> BL_READING (blocks (cache y) b) \<and> (BL_ERROR (blocks (cache y) b) \<or> err < 0))" for b
    proof
      assume a: "map_of (ht (cache y)) bnr = Some b \<and> \<not> BL_READING (blocks (cache y) b) \<and> (BL_ERROR (blocks (cache y) b) \<or> err < 0)"
      then have "0 \<le> err" using end_io(2) by auto
      moreover have "bl_set (blocks (cache y) b) \<noteq> None" using write_in_set [OF ci end_io(1)] a by blast
      ultimately show False using up [of b] a by auto
    qed
    then show False using end_io_refs [OF ci r end_io(1), of data_page err] end_io(3) by (auto simp: returns_def)
  qed
qed

end
