(* ===== verification/Txn.thy ===== *)
theory Txn
  imports Block_Dirty
begin

text \<open>
  Transactions of \<open>shared/txn.c\<close> on the block cache.  A transaction block carries its
  callbacks as functions on the bytes of its block and on the memory \<open>'a\<close> their arguments
  point to; a prepare function that adds blocks to its transaction is not modelled, the
  program has none.  The \<open>writes\<close> list holds positions in \<open>blocks\<close>.

  The caller waits in \<open>ngnfs_block_get\<close> and \<open>ngnfs_block_dirty_begin\<close>.  \<open>env n\<close> is what
  everybody else does to the cache during the caller's wait number \<open>n\<close>; a wait that has
  not ended in the resulting state is \<open>Spin\<close>.
\<close>

unbundle bit_operations_syntax

type_synonym env = "nat \<Rightarrow> block_info \<Rightarrow> block_info"

record 'a tblk =
  tblk_bl :: "bid option"
  tblk_bnr :: u64
  tblk_nbf :: u32
  tblk_prepare :: "(mem \<Rightarrow> 'a \<Rightarrow> (int \<times> 'a) run) option"
  tblk_commit :: "(mem \<Rightarrow> 'a \<Rightarrow> (mem \<times> 'a) run) option"

record 'a txn =
  txn_blocks :: "'a tblk list"
  txn_writes :: "nat list"

definition ngnfs_txn_init :: "'a txn" where
  "ngnfs_txn_init = \<lparr>txn_blocks = [], txn_writes = []\<rparr>"

definition ngnfs_txn_add_block ::
    "bool \<Rightarrow> u64 \<Rightarrow> u32 \<Rightarrow> (mem \<Rightarrow> 'a \<Rightarrow> (int \<times> 'a) run) option \<Rightarrow> (mem \<Rightarrow> 'a \<Rightarrow> (mem \<times> 'a) run) option \<Rightarrow>
     'a txn \<Rightarrow> int \<times> 'a txn" where
  "ngnfs_txn_add_block mem_ok bnr nbf prepare commit txn =
     (if \<not> mem_ok then (- ENOMEM, txn)
      else (0, txn\<lparr>txn_blocks := txn_blocks txn @
             [\<lparr>tblk_bl = None, tblk_bnr = bnr, tblk_nbf = nbf, tblk_prepare = prepare, tblk_commit = commit\<rparr>]\<rparr>))"

subsection \<open>Calls that wait\<close>

text \<open>\<open>ngnfs_block_get\<close> until it returns, with the number of the next wait.\<close>

definition txn_get :: "bool \<Rightarrow> env \<Rightarrow> nat \<Rightarrow> block_info \<Rightarrow> u64 \<Rightarrow> u32 \<Rightarrow> ((int + bid) \<times> block_info \<times> nat) run" where
  "txn_get mem_ok env n st bnr nbf =
     bind_run (ngnfs_block_get mem_ok st bnr nbf) (\<lambda>(r, st).
       case r of
         Get_done bl \<Rightarrow> Ret (bl, st, n)
       | Get_wait b \<Rightarrow>
           (let st = env n st
            in if BL_READING (blocks st b) then Spin
               else bind_run (block_get_finish st b) (\<lambda>(bl, st). Ret (bl, st, Suc n))))"

text \<open>\<open>ngnfs_block_dirty_begin\<close> until it returns, waiting at most \<open>fuel\<close> times.\<close>

primrec txn_dirty_wait ::
    "nat \<Rightarrow> nat option \<Rightarrow> env \<Rightarrow> nat \<Rightarrow> bid list \<Rightarrow> dirty_result \<Rightarrow> block_info \<Rightarrow> (int \<times> block_info \<times> nat) run" where
  "txn_dirty_wait 0 km env n bs r st = (case r of Dirty_done ret \<Rightarrow> Ret (ret, st, n) | _ \<Rightarrow> Spin)"
| "txn_dirty_wait (Suc fuel) km env n bs r st =
     (case r of
        Dirty_done ret \<Rightarrow> Ret (ret, st, n)
      | Dirty_throttle \<Rightarrow>
          (let st = env n st
           in if dirty_throttled st then Spin
              else bind_run (dirty_restart km bs None None st) (\<lambda>(r, st). txn_dirty_wait fuel km env (Suc n) bs r st))
      | Dirty_wait w small large \<Rightarrow>
          (let st = env n st
           in if \<not> walk_woken st w then Spin
              else bind_run (dirty_resume km bs w small large st)
                     (\<lambda>(r, st). txn_dirty_wait fuel km env (Suc n) bs r st)))"

definition txn_dirty_begin :: "nat \<Rightarrow> nat option \<Rightarrow> env \<Rightarrow> nat \<Rightarrow> bid list \<Rightarrow> block_info \<Rightarrow> (int \<times> block_info \<times> nat) run" where
  "txn_dirty_begin fuel km env n bs st =
     bind_run (ngnfs_block_dirty_begin km bs st) (\<lambda>(r, st). txn_dirty_wait fuel km env n bs r st)"

subsection \<open>Execution\<close>

text \<open>
  The first loop of \<open>ngnfs_txn_execute\<close>, with the blocks it is done with.  Its results are
  \<open>ret\<close>, the blocks, the writes, the next wait, the cache and the arguments.
\<close>

primrec txn_acquire ::
    "(nat \<Rightarrow> bool) \<Rightarrow> env \<Rightarrow> 'a tblk list \<Rightarrow> 'a tblk list \<Rightarrow> nat list \<Rightarrow> int \<Rightarrow> nat \<Rightarrow> block_info \<Rightarrow> 'a \<Rightarrow>
     (int \<times> 'a tblk list \<times> nat list \<times> nat \<times> block_info \<times> 'a) run" where
  "txn_acquire ok env [] acc wr ret n st w = Ret (ret, acc, wr, n, st, w)"
| "txn_acquire ok env (t # ts) acc wr ret n st w =
     bind_run (txn_get (ok (length acc)) env n st (tblk_bnr t) (tblk_nbf t)) (\<lambda>(bl, st, n).
       case bl of
         Inl err \<Rightarrow> Ret (err, acc @ t # ts, wr, n, st, w)
       | Inr b \<Rightarrow>
           (let t = t\<lparr>tblk_bl := Some b\<rparr>;
                wr' = (if tblk_nbf t AND NBF_WRITE \<noteq> 0 then wr @ [length acc] else wr)
            in case tblk_prepare t of
                 None \<Rightarrow> txn_acquire ok env ts (acc @ [t]) wr' ret n st w
               | Some prepare \<Rightarrow>
                   bind_run (prepare (ngnfs_block_buf st b) w) (\<lambda>(ret, w).
                     if ret < 0 then Ret (ret, acc @ t # ts, wr, n, st, w)
                     else txn_acquire ok env ts (acc @ [t]) wr' ret n st w)))"

definition txn_write_bl :: "'a tblk list \<Rightarrow> nat \<Rightarrow> bid option" where
  "txn_write_bl tblks i = (if i < length tblks then tblk_bl (tblks ! i) else None)"

text \<open>The commit callbacks of the writes, in order.\<close>

primrec txn_commit :: "'a tblk list \<Rightarrow> nat list \<Rightarrow> block_info \<Rightarrow> 'a \<Rightarrow> (block_info \<times> 'a) run" where
  "txn_commit tblks [] st w = Ret (st, w)"
| "txn_commit tblks (i # is) st w =
     (case txn_write_bl tblks i of
        None \<Rightarrow> Undef
      | Some b \<Rightarrow>
          (case tblk_commit (tblks ! i) of
             None \<Rightarrow> txn_commit tblks is st w
           | Some commit \<Rightarrow>
               bind_run (commit (ngnfs_block_buf st b) w) (\<lambda>(page, w).
                 txn_commit tblks is (upd_block st b (\<lambda>bl. bl\<lparr>bl_page := page\<rparr>)) w)))"

definition ngnfs_txn_execute ::
    "nat \<Rightarrow> (nat \<Rightarrow> bool) \<Rightarrow> nat option \<Rightarrow> env \<Rightarrow> 'a txn \<Rightarrow> block_info \<Rightarrow> 'a \<Rightarrow> (int \<times> 'a txn \<times> block_info \<times> 'a) run" where
  "ngnfs_txn_execute fuel ok km env txn st w =
     bind_run (txn_acquire ok env (txn_blocks txn) [] (txn_writes txn) 0 0 st w) (\<lambda>(ret, tblks, wr, n, st, w).
       let txn = \<lparr>txn_blocks = tblks, txn_writes = wr\<rparr>
       in if ret < 0 \<or> wr = [] then Ret (ret, txn, st, w)
          else
            (let bs = map (\<lambda>i. the (txn_write_bl tblks i)) wr
             in bind_run (txn_dirty_begin fuel km env n bs st) (\<lambda>(ret, st, n).
                  if ret < 0 then Ret (ret, txn, st, w)
                  else bind_run (txn_commit tblks wr st w) (\<lambda>(st, w).
                       bind_run (ngnfs_block_dirty_end bs st) (\<lambda>st. Ret (ret, txn, st, w))))))"

subsection \<open>Teardown\<close>

primrec txn_put_blocks :: "'a tblk list \<Rightarrow> block_info \<Rightarrow> block_info run" where
  "txn_put_blocks [] st = Ret st"
| "txn_put_blocks (t # ts) st =
     bind_run (case tblk_bl t of None \<Rightarrow> Ret st | Some b \<Rightarrow> ngnfs_block_put st b) (txn_put_blocks ts)"

text \<open>Every block leaves the lists, including the writes.\<close>

definition ngnfs_txn_destroy :: "'a txn \<Rightarrow> block_info \<Rightarrow> ('a txn \<times> block_info) run" where
  "ngnfs_txn_destroy txn st =
     bind_run (txn_put_blocks (txn_blocks txn) st) (\<lambda>st.
       Ret (\<lparr>txn_blocks = [], txn_writes = filter (\<lambda>i. i \<ge> length (txn_blocks txn)) (txn_writes txn)\<rparr>, st))"

end
