(* ===== verification/Txn_Props.thy ===== *)
theory Txn_Props
  imports Txn Block_Props
begin

text \<open>
  A transaction that fails has called no commit function; one that succeeds has applied
  all of them to blocks that are in one dirty set, so they are written together.
\<close>

unbundle bit_operations_syntax

subsection \<open>The cache while a transaction waits\<close>

text \<open>What the other threads do keeps the invariant of the cache and removes no block.\<close>

definition env_ok :: "env \<Rightarrow> bool" where
  "env_ok env \<longleftrightarrow> (\<forall>n c. cache_inv c \<longrightarrow> cache_inv (env n c) \<and> next_block c \<le> next_block (env n c))"

definition grows :: "block_info \<Rightarrow> block_info \<Rightarrow> bool" where
  "grows st st' \<longleftrightarrow> cache_inv st' \<and> next_block st \<le> next_block st'"

lemma grows_refl: "cache_inv st \<Longrightarrow> grows st st"
  by (simp add: grows_def)

lemma grows_trans: "grows st st' \<Longrightarrow> grows st' st'' \<Longrightarrow> grows st st''"
  by (simp add: grows_def)

lemma grows_env: "env_ok env \<Longrightarrow> cache_inv st \<Longrightarrow> grows st (env n st)"
  by (simp add: grows_def env_ok_def)

lemma grows_core: "cache_inv st \<Longrightarrow> core st' = core st \<Longrightarrow> grows st st'"
  using cache_inv_cong [of st' st] core_eqD(10) [of st' st] by (simp add: grows_def)

lemma grows_safe: "safe_step st st' \<Longrightarrow> grows st st'"
  by (simp add: grows_def safe_step_def keeps_def)

lemma grows_dirty: "dirty_post bs r st st' \<Longrightarrow> grows st st'"
  by (simp add: grows_def dirty_post_def walk_step_def keeps_def)

lemma block_get_finish_bl: "block_get_finish st b = Ret (Inr b', st') \<Longrightarrow> b' = b"
  by (auto simp: block_get_finish_def run_simps split: if_splits)

lemma txn_get_grows:
  assumes "env_ok env" "cache_inv st" "txn_get mem_ok env n st bnr nbf = Ret (bl, st', n')"
  shows "grows st st' \<and> (\<forall>b. bl = Inr b \<longrightarrow> b < next_block st')"
proof -
  obtain r st1 where g: "ngnfs_block_get mem_ok st bnr nbf = Ret (r, st1)"
    using assms(3) by (auto simp: txn_get_def run_simps)
  note i = block_get_inv [OF assms(2) g]
  have g1: "grows st st1" using i(1) by (rule grows_safe)
  show ?thesis
  proof (cases r)
    case (Get_done x)
    then show ?thesis using g g1 i(2) assms(3) by (auto simp: txn_get_def)
  next
    case (Get_wait b)
    let ?st2 = "env n st1"
    have f: "block_get_finish ?st2 b = Ret (bl, st')"
      using assms(3) g Get_wait by (auto simp: txn_get_def Let_def run_simps split: if_splits)
    have g2: "grows st1 ?st2" using g1 assms(1) by (intro grows_env) (auto simp: grows_def)
    have g3: "grows ?st2 st'" using g2 core_block_get_finish [OF f] by (intro grows_core) (auto simp: grows_def)
    have "b < next_block st1" using i(2) Get_wait by simp
    then show ?thesis using f g1 g2 g3 by (auto simp: grows_def dest!: block_get_finish_bl)
  qed
qed

text \<open>The positions in the writes are those of blocks the transaction holds.\<close>

definition writes_held :: "'a tblk list \<Rightarrow> nat list \<Rightarrow> block_info \<Rightarrow> bool" where
  "writes_held tblks wr st \<longleftrightarrow> (\<forall>i\<in>set wr. \<exists>b. txn_write_bl tblks i = Some b \<and> b < next_block st)"

lemma writes_held_grows: "writes_held tblks wr st \<Longrightarrow> grows st st' \<Longrightarrow> writes_held tblks wr st'"
  by (fastforce simp: writes_held_def grows_def)

lemma writes_held_append: "writes_held tblks wr st \<Longrightarrow> writes_held (tblks @ ts) wr st"
  by (fastforce simp: writes_held_def txn_write_bl_def nth_append split: if_splits)

lemma writes_held_snoc:
  "writes_held acc wr st \<Longrightarrow> tblk_bl t = Some b \<Longrightarrow> b < next_block st \<Longrightarrow>
   writes_held (acc @ [t]) (if c then wr @ [length acc] else wr) st"
  using writes_held_append [of acc wr st "[t]"] by (auto simp: writes_held_def txn_write_bl_def)

lemma txn_acquire_grows:
  assumes "env_ok env" "cache_inv st" "writes_held acc wr st"
    and "txn_acquire ok env ts acc wr ret n st w = Ret (ret', tblks, wr', n', st', w')"
  shows "grows st st' \<and> writes_held tblks wr' st'"
  using assms(2-)
proof (induction ts arbitrary: acc wr ret n st w)
  case Nil
  then show ?case by (simp add: grows_refl)
next
  case (Cons t ts)
  obtain bl st1 n1 where g: "txn_get (ok (length acc)) env n st (tblk_bnr t) (tblk_nbf t) = Ret (bl, st1, n1)"
    using Cons.prems(3) by (auto simp: run_simps)
  note gg = txn_get_grows [OF assms(1) Cons.prems(1) g]
  have held: "writes_held acc wr st1" using Cons.prems(2) gg writes_held_grows by blast
  show ?case
  proof (cases bl)
    case (Inl err)
    then show ?thesis using Cons.prems(3) g gg writes_held_append [OF held] by auto
  next
    case (Inr b)
    let ?t = "t\<lparr>tblk_bl := Some b\<rparr>"
    let ?wr = "if tblk_nbf t AND NBF_WRITE \<noteq> 0 then wr @ [length acc] else wr"
    have step: "grows st st' \<and> writes_held tblks wr' st'"
      if "txn_acquire ok env ts (acc @ [?t]) ?wr r n1 st1 w1 = Ret (ret', tblks, wr', n', st', w')" for r w1
      using Cons.IH [OF _ writes_held_snoc [OF held, of ?t b] that] gg Inr by (auto simp: grows_def)
    have held2: "writes_held (acc @ ?t # ts) wr st1" using held by (rule writes_held_append)
    show ?thesis
    proof (cases "tblk_prepare t")
      case None
      then show ?thesis using Cons.prems(3) g Inr step [of ret w] by (simp add: Let_def)
    next
      case (Some prepare)
      then obtain r w1 where p: "prepare (ngnfs_block_buf st1 b) w = Ret (r, w1)"
        using Cons.prems(3) g Inr by (auto simp: run_simps Let_def)
      show ?thesis
      proof (cases "r < 0")
        case True
        then show ?thesis using Cons.prems(3) g Inr Some p gg held2 by (auto simp: Let_def)
      next
        case False
        then show ?thesis using Cons.prems(3) g Inr Some p step [of r w1] by (auto simp: Let_def)
      qed
    qed
  qed
qed

subsection \<open>Dirtying\<close>

lemma get_other_set_err: "get_other_set km st b e = (Inl err, st') \<Longrightarrow> err < 0"
  by (auto simp: get_other_set_def Let_def split: option.splits if_splits)

lemma dirty_walk_err:
  "dirty_walk km bs small large st = Ret (Walk_error err, small', large', st') \<Longrightarrow> err < 0"
proof (induction bs arbitrary: small large st)
  case (Cons b bs)
  obtain st1 where "put_set st small = Ret st1" using Cons.prems by (auto simp: run_simps)
  then show ?case using Cons
    by (auto simp: get_other_set_err Let_def split: prod.splits sum.splits option.splits if_splits)
qed simp

lemma dirty_restart_done:
  assumes "dirty_restart km bs small large st = Ret (Dirty_done ret, st')"
  shows "ret \<le> 0"
proof -
  obtain st0 where p0: "put_set st small = Ret st0" using assms by (auto simp: dirty_restart_def run_simps)
  obtain st1 where p1: "put_set st0 large = Ret st1" using assms p0 by (auto simp: dirty_restart_def run_simps)
  obtain r small' large' st2 where w: "dirty_walk km bs None None st1 = Ret (r, small', large', st2)"
    using assms p0 p1 by (auto simp: dirty_restart_def run_simps)
  show ?thesis using assms p0 p1 w dirty_walk_err [of km bs None None st1]
    by (cases r) (auto simp: dirty_restart_def run_simps less_imp_le split: option.splits)
qed

lemma dirty_begin_done: "ngnfs_block_dirty_begin km bs st = Ret (Dirty_done ret, st') \<Longrightarrow> ret \<le> 0"
  by (auto simp: ngnfs_block_dirty_begin_def dest: dirty_restart_done split: if_splits)

lemma dirty_resume_done: "dirty_resume km bs w small large st = Ret (Dirty_done ret, st') \<Longrightarrow> ret \<le> 0"
  by (auto simp: dirty_resume_def run_simps dest: dirty_restart_done split: walk_result.splits prod.splits if_splits)

text \<open>The last part of a \<open>dirty_begin\<close> that returns is a part that is done.\<close>

lemma txn_dirty_wait_post:
  assumes "env_ok env" "cache_inv st" "\<forall>b\<in>set bs. b < next_block st" "bs \<noteq> []"
    and "dirty_post bs r st0 st" "\<forall>ret. r = Dirty_done ret \<longrightarrow> ret \<le> 0"
    and "txn_dirty_wait fuel km env n bs r st = Ret (ret, st', n')"
  shows "ret \<le> 0 \<and> (\<exists>c. dirty_post bs (Dirty_done ret) c st') \<and> grows st st'"
  using assms(2-)
proof (induction fuel arbitrary: n r st0 st)
  case 0
  then show ?case by (auto simp: grows_refl split: dirty_result.splits)
next
  case (Suc fuel)
  let ?e = "env n st"
  have ge: "grows st ?e" using assms(1) Suc.prems(1) by (rule grows_env)
  then have e: "cache_inv ?e" "\<forall>b\<in>set bs. b < next_block ?e" using Suc.prems(2) by (auto simp: grows_def)
  have go: ?case if "dirty_post bs r1 ?e st1" "\<forall>ret. r1 = Dirty_done ret \<longrightarrow> ret \<le> 0"
      "txn_dirty_wait fuel km env (Suc n) bs r1 st1 = Ret (ret, st', n')" for r1 st1
  proof -
    have g1: "grows ?e st1" using that(1) by (rule grows_dirty)
    then have "cache_inv st1" "\<forall>b\<in>set bs. b < next_block st1" using e(2) by (auto simp: grows_def)
    then show ?thesis using Suc.IH [OF _ _ Suc.prems(3) that] ge g1 by (blast intro: grows_trans)
  qed
  show ?case
  proof (cases r)
    case (Dirty_done x)
    then show ?thesis using Suc.prems by (auto simp: grows_refl)
  next
    case Dirty_throttle
    then obtain r1 st1 where "dirty_restart km bs None None ?e = Ret (r1, st1)"
      "txn_dirty_wait fuel km env (Suc n) bs r1 st1 = Ret (ret, st', n')"
      using Suc.prems(6) by (auto simp: Let_def run_simps split: if_splits)
    then show ?thesis using dirty_restart_inv e Suc.prems(3) dirty_restart_done by (intro go) blast+
  next
    case (Dirty_wait w small large)
    then obtain r1 st1 where "dirty_resume km bs w small large ?e = Ret (r1, st1)"
      "txn_dirty_wait fuel km env (Suc n) bs r1 st1 = Ret (ret, st', n')"
      using Suc.prems(6) by (auto simp: Let_def run_simps split: if_splits)
    then show ?thesis using dirty_resume_inv e Suc.prems(3) dirty_resume_done by (intro go) blast+
  qed
qed

lemma txn_dirty_begin_post:
  assumes "env_ok env" "cache_inv st" "\<forall>b\<in>set bs. b < next_block st" "bs \<noteq> []"
    and "txn_dirty_begin fuel km env n bs st = Ret (ret, st', n')"
  shows "ret \<le> 0" "grows st st'"
    and "ret = 0 \<Longrightarrow> \<exists>s. holds_dirty st' bs s \<and> SET_DIRTY (sets st' s) \<and> \<not> SET_WRITEBACK (sets st' s) \<and>
      s \<in> set (wb_queue st')"
proof -
  obtain r st1 where b: "ngnfs_block_dirty_begin km bs st = Ret (r, st1)"
    and w: "txn_dirty_wait fuel km env n bs r st1 = Ret (ret, st', n')"
    using assms(5) by (auto simp: txn_dirty_begin_def run_simps)
  have p: "dirty_post bs r st st1" using assms(2-4) b by (rule dirty_begin_inv)
  then have g: "grows st st1" by (rule grows_dirty)
  have *: "ret \<le> 0 \<and> (\<exists>c. dirty_post bs (Dirty_done ret) c st') \<and> grows st1 st'"
  proof (rule txn_dirty_wait_post [OF assms(1) _ _ assms(4) p _ w])
    show "cache_inv st1" "\<forall>b\<in>set bs. b < next_block st1" using g assms(3) by (auto simp: grows_def)
    show "\<forall>ret. r = Dirty_done ret \<longrightarrow> ret \<le> 0" using dirty_begin_done b by blast
  qed
  then show "ret \<le> 0" "grows st st'" using g grows_trans by blast+
  assume "ret = 0"
  then obtain c where c: "dirty_post bs (Dirty_done 0) c st'" using * by blast
  then have "cache_inv st'" by (simp add: dirty_post_def walk_step_def)
  then show "\<exists>s. holds_dirty st' bs s \<and> SET_DIRTY (sets st' s) \<and> \<not> SET_WRITEBACK (sets st' s) \<and> s \<in> set (wb_queue st')"
    using c writeback_front_not_writing [of st'] by (auto simp: dirty_post_def)
qed

subsection \<open>Committing\<close>

lemma txn_commit_core: "txn_commit tblks is st w = Ret (st', w') \<Longrightarrow> core st' = core st"
proof (induction "is" arbitrary: st w)
  case (Cons i "is")
  have *: "core (upd_block st b (\<lambda>bl. bl\<lparr>bl_page := page\<rparr>)) = core st" for b page
    by (simp add: core_def upd_block_def fun_eq_iff)
  show ?case using Cons.prems Cons.IH * by (auto simp: run_simps split: option.splits)
qed simp

lemma dirty_end_effect:
  assumes "ngnfs_block_dirty_end bs st = Ret st'" "holds_dirty st bs s" "bs \<noteq> []" "cache_inv st"
  shows "cache_inv st'" "blocks st' = blocks st" "wb_queue st' = wb_queue st"
    "SET_DIRTY (sets st' s) = SET_DIRTY (sets st s)" "SET_WRITEBACK (sets st' s) = SET_WRITEBACK (sets st s)"
proof -
  show "cache_inv st'" using dirty_end_inv(1) [OF assms(4,2,3) _ assms(1), of "{}"] by (simp add: walk_step_def)
  have s: "bl_set (blocks st (hd bs)) = Some s" using assms(2,3) by (cases bs) (auto simp: holds_dirty_def)
  then obtain st2 where p: "put_set (upd_set st s (\<lambda>x. x\<lparr>SET_DIRTYING := False\<rparr>)) (Some s) = Ret st2"
      "st' = try_queue_writeback_work st2"
    using assms(1,3) by (cases bs) (auto simp: ngnfs_block_dirty_end_def run_simps)
  then show "blocks st' = blocks st" "wb_queue st' = wb_queue st"
    "SET_DIRTY (sets st' s) = SET_DIRTY (sets st s)" "SET_WRITEBACK (sets st' s) = SET_WRITEBACK (sets st s)"
    by (auto simp: put_set_def upd_set_def try_queue_writeback_work_def wb_queue_def Let_def run_simps split: if_splits)
qed

subsection \<open>Transactions without commit functions\<close>

definition no_commits :: "'a tblk list \<Rightarrow> 'a tblk list" where
  "no_commits tblks = map (\<lambda>t. t\<lparr>tblk_commit := None\<rparr>) tblks"

lemma txn_write_bl_no_commits: "txn_write_bl (no_commits tblks) = txn_write_bl tblks"
  by (auto simp: fun_eq_iff txn_write_bl_def no_commits_def)

lemma txn_acquire_no_commits:
  assumes "txn_acquire ok env ts acc wr ret n st w = Ret (ret', tblks, rest)"
  shows "txn_acquire ok env (no_commits ts) (no_commits acc) wr ret n st w = Ret (ret', no_commits tblks, rest)"
  using assms
proof (induction ts arbitrary: acc wr ret n st w)
  case Nil
  then show ?case by (simp add: no_commits_def)
next
  case (Cons t ts)
  have nc: "no_commits (acc @ [t]) = no_commits acc @ [t\<lparr>tblk_commit := None\<rparr>]"
      "no_commits (t # ts) = t\<lparr>tblk_commit := None\<rparr> # no_commits ts" "length (no_commits acc) = length acc"
      "no_commits (acc @ t # ts) = no_commits acc @ t\<lparr>tblk_commit := None\<rparr> # no_commits ts" for acc :: "'a tblk list" and t
    by (simp_all add: no_commits_def)
  obtain bl st1 n1 where g: "txn_get (ok (length acc)) env n st (tblk_bnr t) (tblk_nbf t) = Ret (bl, st1, n1)"
    using Cons.prems by (auto simp: run_simps)
  show ?case
  proof (cases bl)
    case (Inr b)
    have sw: "t\<lparr>tblk_commit := None, tblk_bl := Some b\<rparr> = t\<lparr>tblk_bl := Some b, tblk_commit := None\<rparr>" by simp
    show ?thesis
    proof (cases "tblk_prepare t")
      case None
      then show ?thesis using Cons.prems g Inr Cons.IH [of "acc @ [t\<lparr>tblk_bl := Some b\<rparr>]"]
        by (auto simp: nc Let_def sw split: if_splits)
    next
      case (Some prepare)
      then obtain r w1 where "prepare (ngnfs_block_buf st1 b) w = Ret (r, w1)"
        using Cons.prems g Inr by (auto simp: run_simps Let_def)
      then show ?thesis using Cons.prems g Inr Some Cons.IH [of "acc @ [t\<lparr>tblk_bl := Some b\<rparr>]"]
        by (auto simp: nc Let_def sw split: if_splits)
    qed
  qed (use Cons.prems g in \<open>auto simp: nc\<close>)
qed

subsection \<open>The property\<close>


subsection \<open>Blocks that are in the cache\<close>

definition block_ready :: "block_info \<Rightarrow> u64 \<Rightarrow> bid \<Rightarrow> bool" where
  "block_ready st bnr b \<longleftrightarrow> map_of (ht st) bnr = Some b \<and> BL_UPTODATE (blocks st b) \<and> \<not> BL_ERROR (blocks st b) \<and>
     0 < bl_refcount (blocks st b)"

lemma not_bad_nbf: "\<not> bad_nbf NBF_READ" "\<not> bad_nbf NBF_WRITE"
proof -
  show "\<not> bad_nbf NBF_READ" by (simp add: bad_nbf_def) (simp add: hweight_long_def upt_conv_Cons)
  show "\<not> bad_nbf NBF_WRITE" by (simp add: bad_nbf_def) (simp add: hweight_long_def upt_conv_Cons)
qed

lemma txn_get_ready:
  assumes "block_ready st bnr b" "nbf = NBF_READ \<or> nbf = NBF_WRITE"
  shows "txn_get mem_ok env n st bnr nbf = Ret (Inr b, get_block st b, n)"
proof -
  have l: "lookup_or_alloc_block mem_ok st bnr = Ret (Inr b, get_block st b)"
    using assms(1) by (simp add: lookup_or_alloc_block_def lookup_block_def block_ready_def)
  have g: "BL_UPTODATE (blocks (get_block st b) b)" "\<not> BL_ERROR (blocks (get_block st b) b)"
    using assms(1) by (simp_all add: block_ready_def get_block_def upd_block_def)
  have nbf: "\<not> bad_nbf nbf" "nbf AND NBF_NEW = 0" using assms(2) not_bad_nbf by auto
  have "ngnfs_block_get mem_ok st bnr nbf = Ret (Get_done (Inr b), get_block st b)"
    unfolding ngnfs_block_get_def using l g nbf by (simp add: block_get_finish_def)
  then show ?thesis by (simp add: txn_get_def)
qed

lemma txn_put_ready:
  assumes "0 < bl_refcount (blocks st b)"
  shows "txn_put_blocks [t\<lparr>tblk_bl := Some b\<rparr>] (get_block st b) = Ret st"
proof -
  have "(get_block st b)\<lparr>blocks := (blocks (get_block st b))(b := (blocks (get_block st b) b)\<lparr>bl_refcount := bl_refcount (blocks st b)\<rparr>)\<rparr> = st"
    by (simp add: get_block_def upd_block_def)
  then show ?thesis using assms
    by (simp add: ngnfs_block_put_def put_block_def get_block_def upd_block_def Let_def)
qed

text \<open>The cache after a transaction has replaced the content of the block \<open>b\<close>, which was in no set.\<close>

definition dirtied :: "bool \<Rightarrow> block_info \<Rightarrow> bid \<Rightarrow> mem \<Rightarrow> block_info" where
  "dirtied q g b page = g\<lparr>blocks := (blocks g)(b := (blocks g b)\<lparr>bl_set := Some (next_set g), BL_DIRTY := True, bl_page := page\<rparr>),
     sets := (sets g)(next_set g := \<lparr>set_refcount = 2, submitted_blocks = 0, block_list = [b],
       set_dirty_seq = dirty_seq g + 1, SET_DIRTYING = False, SET_DIRTY = True, SET_WRITEBACK = False, set_size = 1,
       set_freed = False\<rparr>),
     next_set := Suc (next_set g), nr_dirty := nr_dirty g + (if BL_DIRTY (blocks g b) then 0 else 1),
     dirty_seq := dirty_seq g + 1, writeback_llist := next_set g # writeback_llist g, writeback_queued := q\<rparr>"

lemma try_queue_writeback_eq:
  "try_queue_writeback_work st = st\<lparr>writeback_queued := writeback_queued st \<or> should_writeback st\<rparr>"
  by (simp add: try_queue_writeback_work_def)

text \<open>On the way: the new set of the walk, and the cache between the begin and the end.\<close>

definition walked :: "nat \<Rightarrow> block_info \<Rightarrow> bid \<Rightarrow> block_info" where
  "walked junk g b = g\<lparr>sets := (sets g)(next_set g := (new_set junk b)\<lparr>SET_DIRTYING := True\<rparr>), next_set := Suc (next_set g),
     blocks := (blocks g)(b := (blocks g b)\<lparr>bl_set := Some (next_set g)\<rparr>)\<rparr>"

definition dirtying_one :: "bool \<Rightarrow> block_info \<Rightarrow> bid \<Rightarrow> block_info" where
  "dirtying_one q g b = g\<lparr>blocks := (blocks g)(b := (blocks g b)\<lparr>bl_set := Some (next_set g), BL_DIRTY := True\<rparr>),
     sets := (sets g)(next_set g := \<lparr>set_refcount = 3, submitted_blocks = 0, block_list = [b],
       set_dirty_seq = dirty_seq g + 1, SET_DIRTYING = True, SET_DIRTY = True, SET_WRITEBACK = False, set_size = 1,
       set_freed = False\<rparr>),
     next_set := Suc (next_set g), nr_dirty := nr_dirty g + (if BL_DIRTY (blocks g b) then 0 else 1),
     dirty_seq := dirty_seq g + 1, writeback_llist := next_set g # writeback_llist g, writeback_queued := q\<rparr>"

lemma mark_dirty_one:
  "mark_dirty (walked junk g b) [b] = (walked junk g b)\<lparr>nr_dirty := nr_dirty g + (if BL_DIRTY (blocks g b) then 0 else 1),
     blocks := (blocks g)(b := (blocks g b)\<lparr>bl_set := Some (next_set g), BL_DIRTY := True\<rparr>)\<rparr>"
proof (cases "BL_DIRTY (blocks g b)")
  case True
  then have "(blocks g b)\<lparr>bl_set := Some (next_set g), BL_DIRTY := True\<rparr> = (blocks g b)\<lparr>bl_set := Some (next_set g)\<rparr>"
    by (cases "blocks g b") simp
  then have "(blocks g)(b := (blocks g b)\<lparr>bl_set := Some (next_set g), BL_DIRTY := True\<rparr>) = blocks (walked junk g b)"
    by (simp add: walked_def)
  moreover have "nr_dirty (walked junk g b) = nr_dirty g" "BL_DIRTY (blocks (walked junk g b) b)" using True by (simp_all add: walked_def)
  ultimately show ?thesis using True by simp
next
  case False
  then show ?thesis by (simp add: walked_def upd_block_def)
qed

lemma dirty_large_one: "\<exists>q. dirty_large (walked junk g b) (next_set g) = dirtying_one q g b"
proof -
  let ?s = "next_set g" and ?st = "walked junk g b"
  have bl: "block_list (sets ?st ?s) = [b]" "\<not> SET_DIRTY (sets ?st ?s)" by (simp_all add: walked_def new_set_def)
  define st where "st = (upd_set ((get_set (upd_set (mark_dirty ?st [b]) ?s (\<lambda>x. x\<lparr>SET_DIRTY := True\<rparr>)) ?s)\<lparr>dirty_seq := dirty_seq ?st + 1\<rparr>) ?s
        (\<lambda>x. x\<lparr>set_dirty_seq := dirty_seq ?st + 1\<rparr>))\<lparr>writeback_llist := ?s # writeback_llist ?st\<rparr>"
  have "dirty_large ?st ?s = try_queue_writeback_work st"
    using bl unfolding st_def by (simp add: dirty_large_def Let_def get_set_def upd_set_def upd_block_def)
  moreover have "st = dirtying_one (writeback_queued g) g b"
    unfolding st_def mark_dirty_one by (simp add: walked_def dirtying_one_def upd_set_def get_set_def new_set_def)
  moreover have "(dirtying_one q g b)\<lparr>writeback_queued := q'\<rparr> = dirtying_one q' g b" for q q' by (simp add: dirtying_one_def)
  ultimately show ?thesis unfolding try_queue_writeback_eq by metis
qed

lemma dirty_end_one:
  "\<exists>q'. ngnfs_block_dirty_end [b] (upd_block (dirtying_one q g b) b (\<lambda>bl. bl\<lparr>bl_page := page\<rparr>)) = Ret (dirtied q' g b page)"
proof -
  let ?s = "next_set g" and ?st = "upd_block (dirtying_one q g b) b (\<lambda>bl. bl\<lparr>bl_page := page\<rparr>)"
  have "put_set (upd_set ?st ?s (\<lambda>x. x\<lparr>SET_DIRTYING := False\<rparr>)) (Some ?s) = Ret (dirtied q g b page)"
    by (simp add: put_set_def upd_set_def Let_def upd_block_def dirtying_one_def dirtied_def)
  moreover have "bl_set (blocks ?st b) = Some ?s" by (simp add: upd_block_def dirtying_one_def)
  ultimately have "ngnfs_block_dirty_end [b] ?st = Ret (try_queue_writeback_work (dirtied q g b page))"
    by (simp add: ngnfs_block_dirty_end_def)
  moreover have "(dirtied q g b page)\<lparr>writeback_queued := q'\<rparr> = dirtied q' g b page" for q' by (simp add: dirtied_def)
  ultimately show ?thesis unfolding try_queue_writeback_eq by metis
qed

lemma single_begin:
  assumes "bl_set (blocks g b) = None" "\<not> dirty_throttled g"
  shows "\<exists>q. ngnfs_block_dirty_begin (Some junk) [b] g = Ret (Dirty_done 0, dirtying_one q g b)"
proof -
  have w: "dirty_walk (Some junk) [b] None None g = Ret (Walk_done, None, Some (next_set g), walked junk g b)"
    using assms(1) by (simp add: put_set_def get_other_set_def Let_def walked_def upd_set_def upd_block_def new_set_def)
  obtain q where q: "dirty_large (walked junk g b) (next_set g) = dirtying_one q g b" using dirty_large_one by blast
  have "ngnfs_block_dirty_begin (Some junk) [b] g = Ret (Dirty_done 0, dirtying_one q g b)"
    using w assms(2) q by (simp add: ngnfs_block_dirty_begin_def dirty_restart_def put_set_def)
  then show ?thesis by blast
qed

lemma single_dirty:
  assumes "bl_set (blocks g b) = None" "\<not> dirty_throttled g"
  obtains st' q where "txn_dirty_begin fuel (Some junk) env n [b] g = Ret (0, st', n)"
     "ngnfs_block_buf st' b = ngnfs_block_buf g b"
     "ngnfs_block_dirty_end [b] (upd_block st' b (\<lambda>bl. bl\<lparr>bl_page := page\<rparr>)) = Ret (dirtied q g b page)"
proof -
  obtain q where "ngnfs_block_dirty_begin (Some junk) [b] g = Ret (Dirty_done 0, dirtying_one q g b)"
    using single_begin [OF assms] by blast
  then have "txn_dirty_begin fuel (Some junk) env n [b] g = Ret (0, dirtying_one q g b, n)"
    by (cases fuel) (simp_all add: txn_dirty_begin_def)
  moreover have "ngnfs_block_buf (dirtying_one q g b) b = ngnfs_block_buf g b" by (simp add: ngnfs_block_buf_def dirtying_one_def)
  ultimately show thesis using dirty_end_one [of b q g page] that by blast
qed

lemma write_after_get:
  fixes w :: 'a
  assumes "txn_get (ok 0) env 0 st bnr nbf = Ret (Inr b, g, n)" "nbf AND NBF_WRITE \<noteq> 0"
    and "bl_set (blocks g b) = None" "\<not> dirty_throttled g" "commit (ngnfs_block_buf g b) w = Ret (page, w)"
  obtains t q where
    "ngnfs_txn_execute fuel ok (Some jk) env
        (snd (ngnfs_txn_add_block True bnr nbf None (Some commit) ngnfs_txn_init)) st w =
       Ret (0, \<lparr>txn_blocks = [t], txn_writes = [0]\<rparr>, dirtied q g b page, w)" "tblk_bl t = Some b"
proof -
  define t :: "'a tblk" where "t = \<lparr>tblk_bl = Some b, tblk_bnr = bnr, tblk_nbf = nbf, tblk_prepare = None,
      tblk_commit = Some commit\<rparr>"
  obtain st2 q where d: "txn_dirty_begin fuel (Some jk) env n [b] g = Ret (0, st2, n)"
      "ngnfs_block_buf st2 b = ngnfs_block_buf g b"
      "ngnfs_block_dirty_end [b] (upd_block st2 b (\<lambda>bl. bl\<lparr>bl_page := page\<rparr>)) = Ret (dirtied q g b page)"
    using single_dirty [OF assms(3,4)] .
  show thesis
  proof (rule that)
    show "ngnfs_txn_execute fuel ok (Some jk) env
        (snd (ngnfs_txn_add_block True bnr nbf None (Some commit) ngnfs_txn_init)) st w =
      Ret (0, \<lparr>txn_blocks = [t], txn_writes = [0]\<rparr>, dirtied q g b page, w)"
      using assms(1,2,5) d
      by (simp add: ngnfs_txn_add_block_def ngnfs_txn_init_def ngnfs_txn_execute_def txn_write_bl_def Let_def t_def)
  qed (simp add: t_def)
qed

lemma single_write_runs:
  fixes w :: 'a
  assumes "block_ready st bnr b" "bl_set (blocks st b) = None" "\<not> dirty_throttled st"
    and "commit (ngnfs_block_buf st b) w = Ret (page, w)"
  obtains t q where
    "ngnfs_txn_execute fuel ok (Some jk) env
        (snd (ngnfs_txn_add_block True bnr NBF_WRITE None (Some commit) ngnfs_txn_init)) st w =
       Ret (0, \<lparr>txn_blocks = [t], txn_writes = [0]\<rparr>, dirtied q (get_block st b) b page, w)" "tblk_bl t = Some b"
proof -
  let ?g = "get_block st b"
  have g: "bl_set (blocks ?g b) = None" "\<not> dirty_throttled ?g" "commit (ngnfs_block_buf ?g b) w = Ret (page, w)"
    using assms by (simp_all add: get_block_def upd_block_def dirty_throttled_def ngnfs_block_buf_def)
  show thesis
    by (rule write_after_get [where commit = commit and nbf = NBF_WRITE, OF txn_get_ready [OF assms(1)] _ g]) (auto intro: that)
qed

lemma dirtied_put:
  "upd_block (dirtied q g b page) b (\<lambda>bl. bl\<lparr>bl_refcount := bl_refcount bl - 1\<rparr>) =
   dirtied q (upd_block g b (\<lambda>bl. bl\<lparr>bl_refcount := bl_refcount bl - 1\<rparr>)) b page"
  by (cases "blocks g b") (simp add: dirtied_def upd_block_def)

lemma destroy_one:
  assumes "tblk_bl t = Some b" "1 < bl_refcount (blocks st b)"
  shows "ngnfs_txn_destroy \<lparr>txn_blocks = [t], txn_writes = wr\<rparr> st =
    Ret (\<lparr>txn_blocks = [], txn_writes = filter (\<lambda>i. i \<ge> 1) wr\<rparr>,
      upd_block st b (\<lambda>bl. bl\<lparr>bl_refcount := bl_refcount bl - 1\<rparr>))"
  using assms by (simp add: ngnfs_txn_destroy_def ngnfs_block_put_def put_block_def upd_block_def Let_def)


end
