(* ===== verification/Block_Race.thy ===== *)
theory Block_Race
  imports Block_Safe Txn_Props
begin

text \<open>
  The race that \<open>NBF_NEW\<close> allows: \<open>ngnfs_block_get\<close> marks a block up to date without waiting for the
  read that another thread has started.  The caller's changes are lost when the read completes,
  and the block can be put on the submission list twice.
\<close>

unbundle bit_operations_syntax

subsection \<open>The operations return\<close>


lemma example_read_plain: "reach plain_step (init_sys 1) example_read"
proof -
  have "no_overlap (cache (example_got 1))" "no_overlap (cache example_read)"
    by (simp_all add: no_overlap_def example_got_def example_queued_def example_read_def new_block_def)
  then have "plain_step (init_sys 1) (example_got 1)" "plain_step (example_got 1) example_read"
    using example_steps by (simp_all add: plain_step_def)
  then show ?thesis by (meson reach.intros)
qed


subsection \<open>A new block that is being read\<close>

text \<open>The block after a get with \<open>NBF_NEW\<close>.\<close>

definition got_new :: "block_info \<Rightarrow> bid \<Rightarrow> block_info" where
  "got_new c b = upd_block (get_block c b) b
     (\<lambda>bl. bl\<lparr>bl_page := \<lambda>i. if i < 4096 then 0 else bl_page bl i, BL_UPTODATE := True\<rparr>)"

lemma new_get:
  assumes "map_of (ht c) bnr = Some b" "\<not> BL_ERROR (blocks c b)"
  shows "ngnfs_block_get ok c bnr NBF_NEW = Ret (Get_done (Inr b), got_new c b)"
proof -
  have "\<not> bad_nbf NBF_NEW" by (simp add: bad_nbf_def) (simp add: hweight_long_def upt_conv_Cons)
  then show ?thesis
    using assms by (simp add: ngnfs_block_get_def lookup_or_alloc_block_def lookup_block_def got_new_def
        block_get_finish_def upd_block_def get_block_def)
qed

text \<open>A thread's get, modification and end, without another step between them.\<close>

lemma new_write_reach:
  assumes t: "pcs y t = Idle" and b: "map_of (ht (cache y)) bnr = Some b" "b < next_block (cache y)"
    "\<not> BL_ERROR (blocks (cache y) b)" "bl_set (blocks (cache y) b) = None" "\<not> dirty_throttled (cache y)"
  shows "\<exists>q y'. reach block_step y y' \<and> cache y' = dirtied q (got_new (cache y) b) b page \<and> pcs y' = pcs y"
proof -
  let ?g = "got_new (cache y) b"
  let ?y1 = "y\<lparr>cache := ?g, pcs := (pcs y)(t := after_get (Get_done (Inr b))), held := held_get (Get_done (Inr b)) (held y)\<rparr>"
  have 1: "block_step y ?y1" using t new_get [OF b(1,3)] by (rule block_step.get)
  have g: "bl_set (blocks ?g b) = None" "\<not> dirty_throttled ?g" "next_block ?g = next_block (cache y)"
    using b by (simp_all add: got_new_def get_block_def upd_block_def dirty_throttled_def)
  then obtain q where q: "ngnfs_block_dirty_begin (Some 0) [b] ?g = Ret (Dirty_done 0, dirtying_one q ?g b)"
    using single_begin by blast
  let ?c2 = "dirtying_one q ?g b"
  let ?y2 = "?y1\<lparr>cache := ?c2, pcs := (pcs ?y1)(t := after_dirty [b] (Dirty_done 0))\<rparr>"
  have 2: "block_step ?y1 ?y2"
    using q g b(2) by (intro block_step.dirty_begin) (auto simp: after_get_def held_get_def)
  let ?y3 = "?y2\<lparr>cache := upd_block ?c2 b (\<lambda>bl. bl\<lparr>bl_page := page\<rparr>)\<rparr>"
  have 3: "block_step ?y2 ?y3" using block_step.modify [of ?y2 t "[b]" b page] by (simp add: after_dirty_def)
  obtain q' where e: "ngnfs_block_dirty_end [b] (upd_block ?c2 b (\<lambda>bl. bl\<lparr>bl_page := page\<rparr>)) = Ret (dirtied q' ?g b page)"
    using dirty_end_one by blast
  have "block_step ?y3 (?y3\<lparr>cache := dirtied q' ?g b page, pcs := (pcs ?y3)(t := Idle)\<rparr>)" (is "block_step _ ?y4")
    using e by (intro block_step.dirty_end [of _ t "[b]"]) (simp_all add: after_dirty_def)
  with 1 2 3 have "reach block_step y ?y4" by (meson reach.intros)
  moreover have "pcs ?y4 = pcs y" using t by (auto simp: after_get_def after_dirty_def)
  ultimately show ?thesis by (intro exI [of _ q'] exI [of _ ?y4]) simp
qed


lemma dirtied_bits:
  "BL_READING (blocks (dirtied q (got_new c b) b page) b) = BL_READING (blocks c b)"
  "BL_ERROR (blocks (dirtied q (got_new c b) b page) b) = BL_ERROR (blocks c b)"
  "BL_DIRTY (blocks (dirtied q (got_new c b) b page) b)" "bl_page (blocks (dirtied q (got_new c b) b page) b) = page"
  "ht (dirtied q (got_new c b) b page) = ht c" "in_transport (dirtied q (got_new c b) b page) = in_transport c"
  "submit_llist (dirtied q (got_new c b) b page) = submit_llist c"
  "submit_list (dirtied q (got_new c b) b page) = submit_list c"
  "0 < bl_refcount (blocks c b) \<Longrightarrow> 0 < bl_refcount (blocks (dirtied q (got_new c b) b page) b)"
  by (simp_all add: dirtied_def got_new_def get_block_def upd_block_def)

text \<open>The completion of a read puts its page into the block, whatever the block holds.\<close>

lemma end_read_page:
  assumes "map_of (ht c) bnr = Some b" "BL_READING (blocks c b)" "0 < bl_refcount (blocks c b)"
  shows "\<exists>c'. ngnfs_block_end_io c bnr (Some old) 0 = Ret c' \<and> bl_page (blocks c' b) = old \<and>
    BL_DIRTY (blocks c' b) = BL_DIRTY (blocks c b) \<and> in_transport c' = in_transport (transport_done c bnr) \<and>
    submit_llist c' = submit_llist c \<and> submit_list c' = submit_list c"
  using assms
  by (simp add: ngnfs_block_end_io_def lookup_block_def transport_done_def get_block_def upd_block_def end_read_io_def
      put_block_def Let_def)

text \<open>C17: a write of a whole block is lost when it meets a read of the block.  In every reachable
  state in which the read of a block is with the transport, a thread can get the block with
  \<open>NBF_NEW\<close>, as the server does for a write request, change it and end its modification; the completion of the
  read then replaces the changed page with what the device held, and the block stays marked dirty
  while no request with the new page is queued.
\<close>

theorem new_get_loses_write:
  assumes r: "block_reachable depth y" and t: "pcs y t = Idle"
    and i: "bnr \<in> (\<lambda>r. fst (snd r)) ` set (in_transport (cache y))" and b: "map_of (ht (cache y)) bnr = Some b"
    and f: "BL_READING (blocks (cache y) b)" "\<not> BL_UPTODATE (blocks (cache y) b)" "\<not> BL_ERROR (blocks (cache y) b)"
    and d: "nr_dirty (cache y) < DIRTY_LIMIT"
  shows "\<exists>y1 y2. reach block_step y y1 \<and> pcs y1 = pcs y \<and>
      BL_DIRTY (blocks (cache y1) b) \<and> bl_page (blocks (cache y1) b) = new \<and>
      block_step y1 y2 \<and> BL_DIRTY (blocks (cache y2) b) \<and> bl_page (blocks (cache y2) b) = old \<and>
      set (in_transport (cache y2)) \<subseteq> set (in_transport (cache y)) \<and>
      submit_llist (cache y2) = submit_llist (cache y) \<and> submit_list (cache y2) = submit_list (cache y)"
proof -
  let ?c = "cache y"
  have inv: "sys_inv y" "ref_inv y" using refs.reach_inv [OF r] by auto
  have u: "users_ok y" using uses.reach_inv [OF r] by simp
  have bn: "b < next_block ?c" using inv(1) b ht_okD(1) [OF cache_invD(3), of ?c bnr b] by (auto simp: sys_inv_def)
  have s: "bl_set (blocks ?c b) = None" using u f(2) by (auto simp: users_ok_def in_use_def)
  have rc: "0 < bl_refcount (blocks ?c b)"
    using inv(2) bn by (auto simp: ref_inv_def refs_ok_def blk_refs_ok_def)
  obtain q y1 where y1: "reach block_step y y1" "cache y1 = dirtied q (got_new ?c b) b new" "pcs y1 = pcs y"
    using new_write_reach [OF t b bn f(3) s, of new] d by (auto simp: dirty_throttled_def)
  note D = dirtied_bits [where q = q and c = ?c and b = b and page = new]
  obtain c2 where c2: "ngnfs_block_end_io (cache y1) bnr (Some old) 0 = Ret c2" "bl_page (blocks c2 b) = old"
      "BL_DIRTY (blocks c2 b) = BL_DIRTY (blocks (cache y1) b)" "in_transport c2 = in_transport (transport_done (cache y1) bnr)"
      "submit_llist c2 = submit_llist (cache y1)" "submit_list c2 = submit_list (cache y1)"
    using end_read_page [of "cache y1" bnr b old] y1(2) D b f(1) rc by auto
  have "block_step y1 (y1\<lparr>cache := c2\<rparr>)" using i c2(1) y1(2) D by (intro block_step.end_io) auto
  then show ?thesis
    using y1 c2 D transport_done_subset [of "cache y1" bnr] by (intro exI [of _ y1] exI [of _ "y1\<lparr>cache := c2\<rparr>"]) auto
qed

theorem new_get_loses_write_witness:
  "\<exists>y1 y2. reach block_step example_read y1 \<and> BL_DIRTY (blocks (cache y1) 0) \<and> bl_page (blocks (cache y1) 0) = (\<lambda>_. 7) \<and>
     block_step y1 y2 \<and> BL_DIRTY (blocks (cache y2) 0) \<and> bl_page (blocks (cache y2) 0) = (\<lambda>_. 0)"
  using new_get_loses_write [OF example_read_reachable, of 1 5 0 "\<lambda>_. 7" "\<lambda>_. 0"]
  by (simp add: example_read_def init_block_info_def new_block_def) blast

text \<open>
  The same race before the read was submitted: the block is queued a second time for its write, and
  the writeback work corrupts the submission list.
\<close>

lemma new_get_corrupts_submit_list:
  "\<exists>y. block_reachable 1 y \<and> writeback_queued (cache y) \<and> ngnfs_block_writeback_work (cache y) = Undef"
proof -
  let ?c = "cache (example_got 1)"
  have e: "map_of (ht ?c) 5 = Some 0" "0 < next_block ?c" "\<not> BL_ERROR (blocks ?c 0)" "bl_set (blocks ?c 0) = None"
      "\<not> dirty_throttled ?c" "pcs (example_got 1) 1 = Idle"
    by (simp_all add: example_got_def example_queued_def init_block_info_def new_block_def dirty_throttled_def)
  obtain q y1 where y1: "reach block_step (example_got 1) y1" "cache y1 = dirtied q (got_new ?c 0) 0 (\<lambda>_. 7)" "pcs y1 = pcs (example_got 1)"
    using new_write_reach [OF e(6,1-5), of "\<lambda>_. 7"] by auto
  obtain seq c2 where c2: "ngnfs_block_sync (cache y1) = (seq, c2)" by fastforce
  let ?y2 = "y1\<lparr>cache := c2, pcs := (pcs y1)(1 := Syncing seq)\<rparr>"
  have "block_step y1 ?y2" using e(6) y1(3) c2 by (intro block_step.sync) auto
  then have "block_reachable 1 ?y2"
    using example_steps(1) y1(1) by (meson reach.intros reach_trans)
  moreover have "writeback_queued c2" "ngnfs_block_writeback_work c2 = Undef"
    using c2 y1(2)
    by (auto simp: ngnfs_block_sync_def sync_up_to_seq_def sync_waiters_inc_def try_queue_writeback_work_def should_writeback_def
        dirtied_def got_new_def get_block_def upd_block_def upd_set_def get_set_def example_got_def example_queued_def
        init_block_info_def new_block_def ngnfs_block_writeback_work_def del_all_reverse_add_tail_def writeback_set_def
        llist_add_submit_def)
  ultimately show ?thesis by (intro exI [of _ ?y2]) simp
qed

end
