(* ===== verification/Block_Queued.thy ===== *)
theory Block_Queued
  imports Block_Safe
begin

text \<open>
  No work of the block cache is lost: whenever there is something to submit or to write back and
  nothing is in the way, the work that does it is queued.
\<close>

subsection \<open>Writeback\<close>

definition wb_frame :: "block_info \<Rightarrow> sid list \<times> nat \<times> nat \<times> nat \<times> int \<times> int \<times> int \<times> bool" where
  "wb_frame st = (wb_queue st, sync_seq st, dirty_seq st, writeback_seq st, nr_dirty st, nr_writeback st,
     queue_depth st, writeback_queued st)"

definition wb_woken :: "block_info \<Rightarrow> bool" where
  "wb_woken st \<longleftrightarrow> wb_queue st \<noteq> [] \<and> should_writeback st \<longrightarrow> writeback_queued st"

lemma wb_woken_frame: "wb_frame st' = wb_frame st \<Longrightarrow> wb_woken st' = wb_woken st"
  by (simp add: wb_woken_def wb_frame_def should_writeback_def)

lemma wb_woken_try: "wb_woken (try_queue_writeback_work st)"
  by (simp add: wb_woken_def try_queue_writeback_work_def should_writeback_def wb_queue_def)

named_theorems wb_frames \<open>what leaves the writeback state alone\<close>

lemma wb_frame_upd [wb_frames]:
  "wb_frame (upd_block st b f) = wb_frame st" "wb_frame (upd_set st s g) = wb_frame st"
  "wb_frame (get_block st b) = wb_frame st" "wb_frame (get_set st s) = wb_frame st"
  "wb_frame (try_queue_submit_work st) = wb_frame st" "wb_frame (sync_waiters_set_error st) = wb_frame st"
  "wb_frame (snd (sync_finish st)) = wb_frame st" "wb_frame (transport_done st bnr) = wb_frame st"
  by (simp_all add: wb_frame_def wb_queue_def upd_block_def upd_set_def get_block_def get_set_def try_queue_submit_work_def
      sync_waiters_set_error_def sync_finish_def sync_waiters_dec_error_def transport_done_def Let_def)

lemma wb_frame_put_block: "put_block st b = Ret st' \<Longrightarrow> wb_frame st' = wb_frame st"
  by (auto simp: put_block_def free_block_def Let_def run_simps wb_frames split: if_splits)

lemma wb_frame_put_set: "put_set st so = Ret st' \<Longrightarrow> wb_frame st' = wb_frame st"
  by (auto simp: put_set_def Let_def run_simps wb_frames split: if_splits option.splits)

lemma wb_frame_get_other_set: "get_other_set km st b so = (g, st') \<Longrightarrow> wb_frame st' = wb_frame st"
  by (auto simp: get_other_set_def Let_def wb_frames split: option.splits if_splits)
    (simp add: wb_frame_def wb_queue_def upd_block_def)

lemma wb_frame_walk [wb_frames]:
  "wb_frame (drop_clean st s bs) = wb_frame st" "wb_frame (move_to_set st s bs) = wb_frame st"
  "wb_frame (release_blocks st s bs) = wb_frame st"
  by (induction bs arbitrary: st) (simp_all add: wb_frames)

lemma wb_frame_merge [wb_frames]: "wb_frame (merge_sets st a b) = wb_frame st"
  by (simp add: merge_sets_def Let_def wb_frames)

lemma wb_frame_finish: "block_get_finish st b = Ret (r, st') \<Longrightarrow> wb_frame st' = wb_frame st"
  by (auto simp: block_get_finish_def run_simps dest!: wb_frame_put_block split: if_splits)

lemma wb_frame_lookup_alloc: "lookup_or_alloc_block ok st bnr = Ret (r, st') \<Longrightarrow> wb_frame st' = wb_frame st"
  by (auto simp: lookup_or_alloc_block_def lookup_block_def alloc_block_def run_simps wb_frames
      dest!: wb_frame_put_block split: option.splits if_splits)
    (simp_all add: wb_frame_def wb_queue_def get_block_def upd_block_def)

lemma wb_frame_llist_add: "llist_add_submit st b = Ret st' \<Longrightarrow> wb_frame st' = wb_frame st"
  by (auto simp: llist_add_submit_def wb_frame_def wb_queue_def split: if_splits)

lemma wb_frame_get:
  assumes "ngnfs_block_get ok st bnr nbf = Ret (r, st')"
  shows "wb_frame st' = wb_frame st"
proof (cases "bad_nbf nbf")
  case False
  then obtain x st1 where l: "lookup_or_alloc_block ok st bnr = Ret (x, st1)"
    using assms by (auto simp: ngnfs_block_get_def run_simps)
  note f1 = wb_frame_lookup_alloc [OF l]
  show ?thesis
  proof (cases x)
    case (Inl err)
    then show ?thesis using assms False l f1 by (auto simp: ngnfs_block_get_def)
  next
    case (Inr b)
    then show ?thesis
      using assms False l f1
      by (auto simp: ngnfs_block_get_def Let_def run_simps wb_frames
          dest!: wb_frame_finish wb_frame_llist_add split: if_splits)
  qed
qed (use assms in \<open>simp add: ngnfs_block_get_def\<close>)

lemma wb_frame_submit_loop: "submit_loop submit_ret bs space st = Ret st' \<Longrightarrow> wb_frame st' = wb_frame st"
proof (induction bs arbitrary: st space)
  case (Cons b bs)
  have f: "wb_frame (st\<lparr>submit_list := l, nr_submitted := n, in_transport := t\<rparr>) = wb_frame st" for l n t
    by (simp add: wb_frame_def wb_queue_def)
  show ?case
    using Cons by (auto simp: Let_def run_simps f dest!: wb_frame_put_block split: if_splits)
qed simp

lemma wb_frame_submit_work: "ngnfs_block_submit_work submit_ret st = Ret st' \<Longrightarrow> wb_frame st' = wb_frame st"
  by (auto simp: ngnfs_block_submit_work_def Let_def dest!: wb_frame_submit_loop split: prod.splits)
    (simp add: wb_frame_def wb_queue_def)

lemma wb_woken_sync: "wb_woken st \<Longrightarrow> wb_woken (sync_up_to_seq st seq)"
  by (auto simp: sync_up_to_seq_def sync_waiters_inc_def Let_def wb_woken_try)
    (simp add: wb_woken_def wb_queue_def should_writeback_def)

text \<open>A walk that does not succeed leaves no writeback behind.\<close>

interpretation ww: walk_kept wb_woken "\<lambda>_. True"
proof
  show "wb_woken (clear_set_dirtying c s)" for c s by (simp add: clear_set_dirtying_def Let_def wb_woken_try)
qed (auto simp: wb_woken_sync wb_frames elim: wb_woken_frame [THEN iffD2, rotated] dest: wb_frame_put_set wb_frame_get_other_set)


lemma wb_woken_end: "ngnfs_block_dirty_end bs st = Ret st' \<Longrightarrow> wb_woken st'"
  by (auto simp: ngnfs_block_dirty_end_def run_simps wb_woken_try)

lemma wb_woken_end_write: "end_write_io st b = Ret st' \<Longrightarrow> wb_woken st'"
proof -
  assume e: "end_write_io st b = Ret st'"
  obtain s where s: "bl_set (blocks st b) = Some s" using e by (auto simp: end_write_io_def split: option.splits)
  define st1 where "st1 = upd_set (try_queue_writeback_work (st\<lparr>nr_writeback := nr_writeback st - 1\<rparr>)) s
      (\<lambda>x. x\<lparr>submitted_blocks := submitted_blocks x - 1\<rparr>)"
  have w1: "wb_woken st1" unfolding st1_def wb_woken_frame [OF wb_frame_upd(2)] by (rule wb_woken_try)
  have less: "wb_woken (st1\<lparr>nr_dirty := nr_dirty st1 - int n\<rparr>)" for n
    using w1 by (auto simp: wb_woken_def should_writeback_def wb_queue_def)
  show ?thesis
  proof (cases "submitted_blocks (sets st1 s) > 0")
    case True
    then show ?thesis using e s w1 by (simp add: end_write_io_def run_simps st1_def)
  next
    case False
    define st2 where "st2 = upd_set (st1\<lparr>nr_dirty := nr_dirty st1 - int (set_size (sets st1 s))\<rparr>) s (\<lambda>x. x\<lparr>set_size := 0\<rparr>)"
    define st3 where "st3 = upd_set (release_blocks st2 s (block_list (sets st2 s))) s (\<lambda>x. x\<lparr>SET_WRITEBACK := False\<rparr>)"
    have "put_set st3 (Some s) = Ret st'"
      using e s False by (simp add: end_write_io_def run_simps Let_def st1_def [symmetric] st2_def [symmetric] st3_def)
    from wb_frame_put_set [OF this] show ?thesis
      using less wb_woken_frame [of st' "st1\<lparr>nr_dirty := nr_dirty st1 - int (set_size (sets st1 s))\<rparr>"]
      by (simp add: st3_def st2_def wb_frames)
  qed
qed

lemma wb_frame_end_io_found [wb_frames]: "wb_frame (end_io_found st bnr err b) = wb_frame st"
  by (simp add: end_io_found_def Let_def wb_frames)

lemma wb_woken_end_io:
  assumes "ngnfs_block_end_io st bnr data_page err = Ret st'" "wb_woken st"
  shows "wb_woken st'"
  using assms(1)
proof (rule end_io_split)
  fix b st3
  let ?st2 = "end_io_found st bnr err b"
  assume r: "(if BL_READING (blocks ?st2 b) then Ret (end_read_io ?st2 b data_page) else end_write_io ?st2 b) = Ret st3"
    "put_block st3 b = Ret st'"
  have "wb_woken st3"
  proof (cases "BL_READING (blocks ?st2 b)")
    case True
    then have "wb_frame st3 = wb_frame ?st2" using r(1) by (auto simp: end_read_io_def Let_def wb_frames split: option.splits)
    then show ?thesis using assms(2) wb_woken_frame [of st3 st] by (simp add: wb_frames)
  next
    case False
    then show ?thesis using r(1) wb_woken_end_write by simp
  qed
  then show ?thesis using wb_woken_frame [OF wb_frame_put_block [OF r(2)]] by simp
qed

lemma wb_woken_writeback_loop:
  assumes "cache_inv st" "writeback_loop ss st = Ret (w, st')" "writeback_list st = ss" "writeback_llist st = []" "dirtying st = {}"
  shows "wb_queue st' = [] \<or> \<not> should_writeback st'"
  using assms
proof (induction ss arbitrary: st)
  case Nil
  then show ?case by (simp add: wb_queue_def)
next
  case (Cons s ss)
  let ?st1 = "upd_set st s (\<lambda>x. x\<lparr>SET_WRITEBACK := True\<rparr>)"
  show ?case
  proof (cases "should_writeback st")
    case False
    then show ?thesis using Cons.prems by simp
  next
    case True
    have nd: "\<not> SET_DIRTYING (sets st s)" using Cons.prems(5) by (auto simp: dirtying_def)
    then obtain st2 where st2: "writeback_set s ?st1 = Ret st2" "writeback_loop ss st2 = Ret (w, st')"
      using Cons.prems(2) True by (auto simp: run_simps Let_def upd_set_def)
    note c = writeback_set_core [OF cache_invD(1) [OF Cons.prems(1)] st2(1)]
    have s1: "safe_step st st2"
      using wb_started_inv [OF Cons.prems(1,3) nd c(2)] c(1) by (rule safe_step_core_right)
    show ?thesis
    proof (rule Cons.IH [OF _ st2(2)])
      show "writeback_list st2 = ss" "writeback_llist st2 = []"
        using core_eqD(7,8) [OF c(1)] Cons.prems(3,4) by simp_all
      show "cache_inv st2" "dirtying st2 = {}" using s1 Cons.prems(5) by (auto simp: safe_step_def)
    qed
  qed
qed

lemma wb_woken_writeback_work:
  assumes "cache_inv st" "ngnfs_block_writeback_work st = Ret (w, st')" "dirtying st = {}"
  shows "wb_woken st'"
proof -
  let ?st1 = "st\<lparr>writeback_list := writeback_list st @ rev (writeback_llist st), writeback_llist := [], writeback_queued := False\<rparr>"
  have "writeback_loop (writeback_list ?st1) ?st1 = Ret (w, st')"
    using assms(2) by (simp add: ngnfs_block_writeback_work_def del_all_reverse_add_tail_def fold_Cons_rev Let_def)
  then have "wb_queue st' = [] \<or> \<not> should_writeback st'"
    using writeback_gather_inv [OF assms(1)] assms(3) by (intro wb_woken_writeback_loop [of ?st1]) (simp_all add: dirtying_def)
  then show ?thesis by (auto simp: wb_woken_def)
qed

subsection \<open>Submission\<close>

definition sub_woken :: "block_info \<Rightarrow> bool" where
  "sub_woken st \<longleftrightarrow> (submit_list st \<noteq> [] \<or> submit_llist st \<noteq> []) \<and> nr_submitted st < queue_depth st \<longrightarrow> submit_queued st"

lemma sub_woken_try: "sub_woken (try_queue_submit_work st)"
  by (simp add: sub_woken_def try_queue_submit_work_def)

text \<open>The lists, and what decides whether the work is queued.\<close>

definition sub_frame :: "block_info \<Rightarrow> bid list \<times> bid list \<times> int \<times> int \<times> bool" where
  "sub_frame st = (submit_list st, submit_llist st, nr_submitted st, queue_depth st, submit_queued st)"

lemma sub_woken_frame: "sub_frame st' = sub_frame st \<Longrightarrow> sub_woken st' = sub_woken st"
  by (simp add: sub_woken_def sub_frame_def)

lemma sub_frame_view: "blk_view st' = blk_view st \<Longrightarrow> submit_frame st' = submit_frame st \<Longrightarrow> sub_frame st' = sub_frame st"
  using blk_viewD(2,3) [of st' st] by (simp add: sub_frame_def submit_frame_def)

lemma sub_frame_core: "core st' = core st \<Longrightarrow> submit_frame st' = submit_frame st \<Longrightarrow> sub_frame st' = sub_frame st"
  using core_eqD(5,6) [of st' st] by (simp add: sub_frame_def submit_frame_def)

lemma sub_frame_lookup_alloc: "lookup_or_alloc_block ok st bnr = Ret (r, st') \<Longrightarrow> sub_frame st' = sub_frame st"
  by (auto simp: lookup_or_alloc_block_def lookup_block_def alloc_block_def run_simps get_block_def upd_block_def
      put_block_def free_block_def Let_def sub_frame_def split: option.splits if_splits)

lemma sub_woken_get:
  assumes "ngnfs_block_get ok st bnr nbf = Ret (r, st')" "sub_woken st"
  shows "sub_woken st'"
proof (cases "bad_nbf nbf")
  case False
  then obtain x st1 where l: "lookup_or_alloc_block ok st bnr = Ret (x, st1)"
    using assms by (auto simp: ngnfs_block_get_def run_simps)
  have w1: "sub_woken st1" using sub_woken_frame [OF sub_frame_lookup_alloc [OF l]] assms(2) by simp
  have u: "sub_woken (upd_block st1 b f)" for b f
    using w1 sub_woken_frame [of "upd_block st1 b f" st1] by (simp add: sub_frame_def upd_block_def)
  have fin: "sub_woken st'" if "block_get_finish st2 b = Ret (q, st')" "sub_woken st2" for st2 b q
    using sub_woken_frame [OF sub_frame_core [OF core_block_get_finish submit_frame_finish], OF that(1) that(1)] that(2) by simp
  show ?thesis
  proof (cases x)
    case (Inl err)
    then show ?thesis using assms False l w1 by (auto simp: ngnfs_block_get_def)
  next
    case (Inr b)
    then show ?thesis
      using assms False l w1 u
      by (auto simp: ngnfs_block_get_def Let_def run_simps sub_woken_try dest!: fin split: if_splits)
  qed
qed (use assms in \<open>simp add: ngnfs_block_get_def\<close>)


named_theorems sub_frames \<open>what leaves the submission lists and their work alone\<close>

lemma sub_frame_upd [sub_frames]:
  "sub_frame (upd_block st b f) = sub_frame st" "sub_frame (upd_set st s g) = sub_frame st"
  "sub_frame (get_block st b) = sub_frame st" "sub_frame (get_set st s) = sub_frame st"
  "sub_frame (try_queue_writeback_work st) = sub_frame st" "sub_frame (sync_waiters_set_error st) = sub_frame st"
  "sub_frame (transport_done st bnr) = sub_frame st" "sub_frame (st\<lparr>nr_writeback := n\<rparr>) = sub_frame st"
  "sub_frame (st\<lparr>nr_dirty := n\<rparr>) = sub_frame st" "sub_frame (st\<lparr>writeback_seq := q\<rparr>) = sub_frame st"
  by (simp_all add: sub_frame_def upd_block_def upd_set_def get_block_def get_set_def try_queue_writeback_work_def
      sync_waiters_set_error_def transport_done_def Let_def)

lemma sub_frame_put_block: "put_block st b = Ret st' \<Longrightarrow> sub_frame st' = sub_frame st"
  by (auto simp: put_block_def free_block_def Let_def run_simps sub_frames split: if_splits)

lemma sub_frame_put_set: "put_set st so = Ret st' \<Longrightarrow> sub_frame st' = sub_frame st"
  by (auto simp: put_set_def Let_def run_simps sub_frames split: if_splits option.splits)

lemma sub_frame_release [sub_frames]: "sub_frame (release_blocks st s bs) = sub_frame st"
  by (induction bs arbitrary: st) (simp_all add: sub_frames)

lemma sub_frame_end_write: "end_write_io st b = Ret st' \<Longrightarrow> sub_frame st' = sub_frame st"
  by (auto simp: end_write_io_def Let_def run_simps sub_frames dest!: sub_frame_put_set split: option.splits if_splits)

lemma sub_frame_end_io:
  assumes "ngnfs_block_end_io st bnr data_page err = Ret st'"
  shows "sub_frame st' = sub_frame st"
  using assms
proof (rule end_io_split)
  fix b st3
  let ?st2 = "end_io_found st bnr err b"
  assume r: "(if BL_READING (blocks ?st2 b) then Ret (end_read_io ?st2 b data_page) else end_write_io ?st2 b) = Ret st3"
    "put_block st3 b = Ret st'"
  have "sub_frame ?st2 = sub_frame st" by (simp add: end_io_found_def Let_def sub_frames)
  moreover have "sub_frame st3 = sub_frame ?st2"
    using r(1) by (auto simp: end_read_io_def Let_def sub_frames dest: sub_frame_end_write split: option.splits if_splits)
  ultimately show ?thesis using sub_frame_put_block [OF r(2)] by simp
qed

lemma sub_woken_writeback_set:
  assumes "writeback_set s st = Ret st'" "sub_woken st"
  shows "sub_woken st'"
proof -
  have p: "sub_woken st'" if "put_set (st3\<lparr>writeback_seq := q\<rparr>) (Some s) = Ret st'" "sub_woken st3" for st3 q
    using sub_woken_frame [of st' st3] sub_frame_put_set [OF that(1)] that(2) by (simp add: sub_frames)
  have "sub_woken (st\<lparr>writeback_list := l\<rparr>)" for l using assms(2) by (simp add: sub_woken_def)
  then show ?thesis
    using assms(1) by (auto simp: writeback_set_def Let_def run_simps sub_woken_try dest!: p split: if_splits)
qed

lemma sub_woken_writeback_loop: "writeback_loop ss st = Ret (w, st') \<Longrightarrow> sub_woken st \<Longrightarrow> sub_woken st'"
proof (induction ss arbitrary: st)
  case (Cons s ss)
  have u: "sub_woken (upd_set st s f) = sub_woken st" for st f
    by (rule sub_woken_frame) (simp add: sub_frames)
  show ?case
    using Cons.prems Cons.IH by (auto simp: Let_def run_simps u dest!: sub_woken_writeback_set split: if_splits)
qed simp

lemma sub_woken_writeback_work: "ngnfs_block_writeback_work st = Ret (w, st') \<Longrightarrow> sub_woken st \<Longrightarrow> sub_woken st'"
  by (auto simp: ngnfs_block_writeback_work_def Let_def dest!: sub_woken_writeback_loop split: prod.splits)
    (simp add: sub_woken_def)

text \<open>The submission work takes entries from the front of the list as long as there is space.\<close>

lemma submit_loop_lists:
  assumes "submit_loop submit_ret bs space st = Ret st'" "submit_list st = bs"
  shows "submit_llist st' = submit_llist st \<and> queue_depth st' = queue_depth st \<and>
    (\<exists>k\<le>length bs. submit_list st' = drop k bs \<and> nr_submitted st' = nr_submitted st + int k \<and>
       (k < length bs \<longrightarrow> space < int k))"
  using assms
proof (induction bs arbitrary: st space)
  case (Cons b bs)
  show ?case
  proof (cases "space < 0")
    case True
    then show ?thesis using Cons.prems by (auto intro!: exI [of _ 0])
  next
    case False
    then obtain op st1 where p: "put_block (st\<lparr>submit_list := bs, nr_submitted := nr_submitted st + 1,
          in_transport := in_transport st @ [op]\<rparr>) b = Ret st1" "submit_loop submit_ret bs (space - 1) st1 = Ret st'"
      using Cons.prems by (auto simp: Let_def run_simps)
    note f = sub_frame_put_block [OF p(1)]
    have "submit_list st1 = bs" using f by (simp add: sub_frame_def)
    from Cons.IH [OF p(2) this] obtain k where k: "submit_llist st' = submit_llist st1" "queue_depth st' = queue_depth st1"
        "k \<le> length bs" "submit_list st' = drop k bs" "nr_submitted st' = nr_submitted st1 + int k"
        "k < length bs \<longrightarrow> space - 1 < int k" by blast
    then show ?thesis using f by (intro conjI exI [of _ "Suc k"]) (auto simp: sub_frame_def)
  qed
qed simp

lemma submit_work_lists:
  assumes "ngnfs_block_submit_work submit_ret st = Ret st'"
  shows "submit_llist st' = [] \<and> queue_depth st' = queue_depth st \<and>
    (\<exists>k\<le>length (submit_list st) + length (submit_llist st).
       submit_list st' = drop k (submit_list st @ rev (submit_llist st)) \<and> nr_submitted st' = nr_submitted st + int k \<and>
       (k < length (submit_list st) + length (submit_llist st) \<longrightarrow> queue_depth st < nr_submitted st'))"
proof -
  let ?st1 = "st\<lparr>submit_list := submit_list st @ rev (submit_llist st), submit_llist := [], submit_queued := False\<rparr>"
  have "submit_loop submit_ret (submit_list ?st1) (queue_depth st - nr_submitted st) ?st1 = Ret st'"
    using assms by (simp add: ngnfs_block_submit_work_def del_all_reverse_add_tail_def fold_Cons_rev Let_def)
  from submit_loop_lists [OF this refl] show ?thesis by auto
qed

lemma sub_woken_submit_work: "ngnfs_block_submit_work submit_ret st = Ret st' \<Longrightarrow> sub_woken st'"
  using submit_work_lists [of submit_ret st st'] by (fastforce simp: sub_woken_def)

subsection \<open>Every step\<close>

text \<open>
  The works are queued when there is something for them, the writeback work as long as no set is being dirtied, and a
  sync waits for a sequence number that was asked for and given out.
\<close>

definition queued_inv :: "int \<Rightarrow> sys \<Rightarrow> bool" where
  "queued_inv depth y \<longleftrightarrow> queue_depth (cache y) = depth \<and> 0 \<le> nr_submitted (cache y) \<and> sub_woken (cache y) \<and>
     (dirtying (cache y) = {} \<longrightarrow> wb_woken (cache y)) \<and>
     (\<forall>t seq. pcs y t = Syncing seq \<longrightarrow> seq \<le> sync_seq (cache y) \<and> seq \<le> dirty_seq (cache y))"


lemma seqs_frame: "wb_frame st' = wb_frame st \<Longrightarrow> sync_seq st' = sync_seq st \<and> dirty_seq st' = dirty_seq st"
  by (simp add: wb_frame_def)

lemma seqs_mark_dirty: "sync_seq (mark_dirty st bs) = sync_seq st \<and> dirty_seq (mark_dirty st bs) = dirty_seq st"
  by (induction bs arbitrary: st) (simp_all add: upd_block_def)

definition same_seqs :: "block_info \<Rightarrow> block_info \<Rightarrow> bool" where
  "same_seqs st st' \<longleftrightarrow> sync_seq st' = sync_seq st \<and> dirty_seq st' = dirty_seq st"

lemma same_seqs_frame: "wb_frame st' = wb_frame st \<Longrightarrow> same_seqs st st'"
  unfolding same_seqs_def by (rule seqs_frame)

lemma same_seqs_trans: "same_seqs st st' \<Longrightarrow> same_seqs st' st'' \<Longrightarrow> same_seqs st st''"
  by (simp add: same_seqs_def)

lemma same_seqs_try: "same_seqs st (try_queue_writeback_work st)"
  by (simp add: same_seqs_def try_queue_writeback_work_def)

lemmas seqs_put_set = wb_frame_put_set [THEN seqs_frame]

text \<open>The end of a modification: one set loses its bit and a reference.\<close>

lemma dirty_end_split:
  assumes "ngnfs_block_dirty_end bs st = Ret st'"
  obtains "st' = try_queue_writeback_work st"
  | s st1 where "put_set (upd_set st s (\<lambda>x. x\<lparr>SET_DIRTYING := False\<rparr>)) (Some s) = Ret st1" "st' = try_queue_writeback_work st1"
  using assms by (cases bs) (auto simp: ngnfs_block_dirty_end_def run_simps split: option.splits)

lemma blk_view_dirty_end: "ngnfs_block_dirty_end bs st = Ret st' \<Longrightarrow> blk_view st' = blk_view st"
  by (erule dirty_end_split) (auto simp: view_simps dest: blk_view_put_set)

lemma seqs_dirty_end:
  assumes "ngnfs_block_dirty_end bs st = Ret st'"
  shows "sync_seq st' = sync_seq st \<and> dirty_seq st' = dirty_seq st"
  using assms
proof (cases rule: dirty_end_split)
  case (2 s st1)
  then show ?thesis using seqs_put_set [OF 2(1)] by (simp add: try_queue_writeback_work_def upd_set_def)
qed (simp add: try_queue_writeback_work_def)

lemma wb_frame_queue_set_blocks: "queue_set_blocks bs st = Ret st' \<Longrightarrow> wb_frame st' = wb_frame st"
proof (induction bs arbitrary: st)
  case (Cons b bs)
  then show ?case by (auto simp: run_simps wb_frames dest!: wb_frame_llist_add)
qed simp

lemma same_seqs_writeback_set: "writeback_set s st = Ret st' \<Longrightarrow> same_seqs st st'"
proof -
  assume a: "writeback_set s st = Ret st'"
  have p: "same_seqs st3 st'" if "put_set (st3\<lparr>writeback_seq := q\<rparr>) (Some s) = Ret st'" for st3 q
    using same_seqs_frame [OF wb_frame_put_set [OF that]] by (simp add: same_seqs_def)
  show ?thesis
  proof (cases "set_size (sets st s) > 0")
    case True
    then obtain st2 n f where q: "queue_set_blocks (block_list (sets (get_set (upd_set (st\<lparr>writeback_list := remove1 s (writeback_list st),
          nr_writeback := n\<rparr>) s f) s) s)) (get_set (upd_set (st\<lparr>writeback_list := remove1 s (writeback_list st),
          nr_writeback := n\<rparr>) s f) s) = Ret st2"
        "put_set ((try_queue_submit_work st2)\<lparr>writeback_seq := writeback_seq (try_queue_submit_work st2) + 1\<rparr>) (Some s) = Ret st'"
      using a by (auto simp: writeback_set_def Let_def run_simps)
    have "same_seqs st st2"
      using same_seqs_frame [OF wb_frame_queue_set_blocks [OF q(1)]] by (simp add: same_seqs_def get_set_def upd_set_def)
    then show ?thesis using p [OF q(2)] same_seqs_frame [OF wb_frame_upd(5) [of st2]] by (blast intro: same_seqs_trans)
  next
    case False
    then have "put_set (st\<lparr>writeback_list := remove1 s (writeback_list st), writeback_seq := writeback_seq st + 1\<rparr>) (Some s) = Ret st'"
      using a by (simp add: writeback_set_def Let_def)
    from p [OF this] show ?thesis by (simp add: same_seqs_def)
  qed
qed

lemma same_seqs_writeback_loop: "writeback_loop ss st = Ret (w, st') \<Longrightarrow> same_seqs st st'"
proof (induction ss arbitrary: st)
  case (Cons s ss)
  have u: "same_seqs (upd_set st s f) st' = same_seqs st st'" for st f st' by (simp add: same_seqs_def upd_set_def)
  have r: "same_seqs st st" by (simp add: same_seqs_def)
  have v: "same_seqs st (upd_set st s f)" for st f by (simp add: same_seqs_def upd_set_def)
  consider "st' = st" | f g where "st' = upd_set (upd_set st s f) s g"
    | f st1 where "writeback_set s (upd_set st s f) = Ret st1" "writeback_loop ss st1 = Ret (w, st')"
    using Cons.prems by (auto simp: Let_def run_simps split: if_splits)
  then show ?case
  proof cases
    case 2
    then show ?thesis using same_seqs_trans [OF v v] by simp
  next
    case (3 f st1)
    then show ?thesis using same_seqs_trans [OF v same_seqs_trans [OF same_seqs_writeback_set Cons.IH]] by blast
  qed (simp add: r)
qed (simp add: same_seqs_def)

lemma seqs_writeback_work:
  "ngnfs_block_writeback_work st = Ret (w, st') \<Longrightarrow> sync_seq st' = sync_seq st \<and> dirty_seq st' = dirty_seq st"
  by (auto simp: ngnfs_block_writeback_work_def Let_def same_seqs_def dest!: same_seqs_writeback_loop split: prod.splits)

lemma seqs_end_write: "end_write_io st b = Ret st' \<Longrightarrow> sync_seq st' = sync_seq st \<and> dirty_seq st' = dirty_seq st"
  by (auto simp: end_write_io_def Let_def run_simps release_blocks_eq upd_set_def try_queue_writeback_work_def
      dest!: seqs_put_set split: option.splits if_splits)

lemma seqs_end_io:
  assumes "ngnfs_block_end_io st bnr data_page err = Ret st'"
  shows "sync_seq st' = sync_seq st \<and> dirty_seq st' = dirty_seq st"
  using assms
proof (rule end_io_split)
  fix b st3
  let ?st2 = "end_io_found st bnr err b"
  assume r: "(if BL_READING (blocks ?st2 b) then Ret (end_read_io ?st2 b data_page) else end_write_io ?st2 b) = Ret st3"
    "put_block st3 b = Ret st'"
  have "sync_seq st3 = sync_seq ?st2 \<and> dirty_seq st3 = dirty_seq ?st2"
    using r(1) by (auto simp: end_read_io_def Let_def upd_block_def dest: seqs_end_write split: option.splits if_splits)
  then show ?thesis
    using seqs_frame [OF wb_frame_put_block [OF r(2)]] seqs_frame [OF wb_frame_end_io_found [of st bnr err b]] by simp
qed

interpretation ms: walk_large_kept "\<lambda>c. m \<le> sync_seq c \<and> n \<le> dirty_seq c" "\<lambda>_. True" for m n
proof
  fix c :: block_info and s :: nat
  assume a: "m \<le> sync_seq c \<and> n \<le> dirty_seq c"
  have "sync_seq (clear_set_dirtying c s) = sync_seq c \<and> dirty_seq (clear_set_dirtying c s) = dirty_seq c"
    using seqs_frame [OF wb_frame_walk(1) [of c s "rev (block_list (sets c s))"]]
    by (simp add: clear_set_dirtying_def Let_def try_queue_writeback_work_def upd_set_def)
  with a show "m \<le> sync_seq (clear_set_dirtying c s) \<and> n \<le> dirty_seq (clear_set_dirtying c s)" by simp
  show "m \<le> sync_seq (sync_up_to_seq c s) \<and> n \<le> dirty_seq (sync_up_to_seq c s)"
    using a by (simp add: sync_up_to_seq_def sync_waiters_inc_def try_queue_writeback_work_def Let_def)
  show "m \<le> sync_seq (dirty_large c s) \<and> n \<le> dirty_seq (dirty_large c s)"
    using a seqs_mark_dirty [of c "rev (block_list (sets c s))"]
    by (simp add: dirty_large_def Let_def try_queue_writeback_work_def get_set_def upd_set_def)
qed (auto simp: seqs_frame [OF wb_frame_upd(2)] seqs_frame [OF wb_frame_merge] seqs_frame [OF wb_frame_upd(7)]
    dest!: wb_frame_put_set wb_frame_get_other_set seqs_frame)


lemma queued_step:
  assumes q: "queued_inv depth y" and d: "block_step y y'" and s: "sub_woken (cache y')"
    and w: "dirtying (cache y') = {} \<Longrightarrow> wb_woken (cache y')"
    and m: "sync_seq (cache y) \<le> sync_seq (cache y')" "dirty_seq (cache y) \<le> dirty_seq (cache y')"
    and n: "\<And>t seq. pcs y' t = Syncing seq \<Longrightarrow>
      pcs y t = Syncing seq \<or> seq \<le> sync_seq (cache y') \<and> seq \<le> dirty_seq (cache y')"
  shows "queued_inv depth y'"
proof -
  have "queue_depth (cache y') = depth \<and> 0 \<le> nr_submitted (cache y')"
    using d
  proof (cases rule: block_step_no_submit)
    case 1
    then show ?thesis using q by (simp add: no_submit_def queued_inv_def)
  next
    case (2 ret)
    then show ?thesis using q submit_work_lists [OF 2(2)] by (auto simp: queued_inv_def)
  qed
  then show ?thesis using q s w m n unfolding queued_inv_def by (meson order_trans)
qed

text \<open>A step of the walk that does not succeed.\<close>

lemma queued_dirty:
  assumes inv: "sys_inv y" and q: "queued_inv depth y" and st: "block_step y y'"
    and y': "y' = y\<lparr>cache := c, pcs := (pcs y)(t := after_dirty bs r)\<rparr>" and d: "dirty_post bs r (cache y) c"
    and v: "blk_view c = blk_view (cache y)" "submit_frame c = submit_frame (cache y)"
    and m: "sync_seq (cache y) \<le> sync_seq c \<and> dirty_seq (cache y) \<le> dirty_seq c"
    and w: "wb_woken (cache y) \<Longrightarrow> r \<noteq> Dirty_done 0 \<Longrightarrow> wb_woken c"
  shows "queued_inv depth y'"
proof (rule queued_step [OF q st])
  show "sub_woken (cache y')" using sub_woken_frame [OF sub_frame_view [OF v]] q y' by (simp add: queued_inv_def)
  show "wb_woken (cache y')" if "dirtying (cache y') = {}"
  proof -
    have "r \<noteq> Dirty_done 0" "dirtying (cache y) = {}" using d that y' by (auto simp: dirty_post_def split: if_splits)
    then show ?thesis using w q y' by (simp add: queued_inv_def)
  qed
  show "sync_seq (cache y) \<le> sync_seq (cache y')" "dirty_seq (cache y) \<le> dirty_seq (cache y')" using m y' by simp_all
  show "pcs y u = Syncing seq \<or> seq \<le> sync_seq (cache y') \<and> seq \<le> dirty_seq (cache y')" if "pcs y' u = Syncing seq" for u seq
    using that y' by (auto simp: after_dirty_def split: if_splits dirty_result.splits)
qed

text \<open>A step that leaves the writeback state alone.\<close>

lemma queued_frame:
  assumes q: "queued_inv depth y" and st: "block_step y y'" and s: "sub_woken (cache y')"
    and f: "wb_frame (cache y') = wb_frame (cache y)" and d: "dirtying (cache y') = dirtying (cache y)"
    and n: "\<And>t seq. pcs y' t = Syncing seq \<Longrightarrow> pcs y t = Syncing seq"
  shows "queued_inv depth y'"
  using n seqs_frame [OF f] wb_woken_frame [OF f] d q by (intro queued_step [OF q st s]) (auto simp: queued_inv_def)

lemma block_step_queued:
  assumes inv: "sys_inv y" and q: "queued_inv depth y" and st: "block_step y y'"
  shows "queued_inv depth y'"
proof -
  have ci: "cache_inv (cache y)" and pc: "\<And>t. pc_ok (cache y) (pcs y t)" using inv by (auto simp: sys_inv_def)
  have sw: "sub_woken (cache y)" and ww: "dirtying (cache y) = {} \<Longrightarrow> wb_woken (cache y)" using q by (auto simp: queued_inv_def)
  from st show ?thesis
  proof cases
    case (get t alloc_ok bnr nbf r c)
    then show ?thesis
      using sub_woken_get [OF get(3) sw] wb_frame_get [OF get(3)] block_get_inv(1) [OF ci get(3)]
      by (intro queued_frame [OF q st]) (auto simp: safe_step_def after_get_def split: if_splits get_result.splits)
  next
    case (get_woken t b r c)
    then show ?thesis
      using sub_woken_frame [OF sub_frame_core [OF core_block_get_finish [OF get_woken(4)] submit_frame_finish [OF get_woken(4)]]] sw
        wb_frame_finish [OF get_woken(4)] dirtying_core [OF core_block_get_finish [OF get_woken(4)]]
      by (intro queued_frame [OF q st]) (auto split: if_splits)
  next
    case (put t b c)
    then have p: "put_block (cache y) b = Ret c" by (simp add: ngnfs_block_put_def)
    then show ?thesis
      using put(1) sub_woken_frame [OF sub_frame_put_block [OF p]] sw wb_frame_put_block [OF p] dirtying_core [OF core_put_block [OF p]]
      by (intro queued_frame [OF q st]) auto
  next
    case (dirty_begin t bs km r c)
    show ?thesis
    proof (rule queued_dirty [OF inv q st dirty_begin(1)])
      show "dirty_post bs r (cache y) c" using dirty_begin(3-5) by (intro dirty_begin_inv [OF ci]) auto
      show "blk_view c = blk_view (cache y)" "submit_frame c = submit_frame (cache y)"
        "sync_seq (cache y) \<le> sync_seq c \<and> dirty_seq (cache y) \<le> dirty_seq c"
        using bv.begin_keeps [OF refl _ dirty_begin(5)] sf.begin_keeps [OF refl _ dirty_begin(5)]
          ms.begin_keeps [OF _ _ dirty_begin(5), of "sync_seq (cache y)" "dirty_seq (cache y)"] by auto
      show "wb_woken c" if "wb_woken (cache y)" "r \<noteq> Dirty_done 0" using ww.begin_fails_keeps [OF that(1) _ dirty_begin(5) that(2)] by simp
    qed
  next
    case (throttle_woken t bs km r c)
    have p: "pc_ok (cache y) (Throttled bs)" using pc [of t] throttle_woken(2) by simp
    show ?thesis
    proof (rule queued_dirty [OF inv q st throttle_woken(1)])
      show "dirty_post bs r (cache y) c"
        using throttle_woken(4) p by (intro dirty_restart_inv [OF ci]) (auto simp: pc_ok_def pc_blocks_def)
      show "blk_view c = blk_view (cache y)" "submit_frame c = submit_frame (cache y)"
        "sync_seq (cache y) \<le> sync_seq c \<and> dirty_seq (cache y) \<le> dirty_seq c"
        using bv.restart_keeps [OF refl _ throttle_woken(4)] sf.restart_keeps [OF refl _ throttle_woken(4)]
          ms.restart_keeps [OF _ _ throttle_woken(4), of "sync_seq (cache y)" "dirty_seq (cache y)"] by auto
      show "wb_woken c" if "wb_woken (cache y)" "r \<noteq> Dirty_done 0" using ww.restart_fails_keeps [OF that(1) _ throttle_woken(4) that(2)] by simp
    qed
  next
    case (dirty_woken t bs w small large km r c)
    have p: "pc_ok (cache y) (Dirty_waiting bs w small large)" using pc [of t] dirty_woken(2) by simp
    show ?thesis
    proof (rule queued_dirty [OF inv q st dirty_woken(1)])
      show "dirty_post bs r (cache y) c"
        using dirty_woken(4) p by (intro dirty_resume_inv [OF ci]) (auto simp: pc_ok_def pc_blocks_def)
      show "blk_view c = blk_view (cache y)" "submit_frame c = submit_frame (cache y)"
        "sync_seq (cache y) \<le> sync_seq c \<and> dirty_seq (cache y) \<le> dirty_seq c"
        using bv.resume_keeps [OF refl _ dirty_woken(4)] sf.resume_keeps [OF refl _ dirty_woken(4)]
          ms.resume_keeps [OF _ _ dirty_woken(4), of "sync_seq (cache y)" "dirty_seq (cache y)"] by auto
      show "wb_woken c" if "wb_woken (cache y)" "r \<noteq> Dirty_done 0" using ww.resume_fails_keeps [OF that(1) _ dirty_woken(4) that(2)] by simp
    qed
  next
    case (modify t bs b page)
    then show ?thesis
      using sw sub_woken_frame [OF sub_frame_upd(1)]
      by (intro queued_frame [OF q st]) (simp_all add: wb_frames, simp add: dirtying_def upd_block_def)
  next
    case (dirty_end t bs c)
    have "sub_woken c"
      using sub_woken_frame [OF sub_frame_view [OF blk_view_dirty_end [OF dirty_end(3)] submit_frame_end [OF dirty_end(3)]]] sw by simp
    then show ?thesis
      using dirty_end(1) wb_woken_end [OF dirty_end(3)] seqs_dirty_end [OF dirty_end(3)]
      by (intro queued_step [OF q st]) (auto split: if_splits)
  next
    case (sync t seq c)
    have c: "c = sync_up_to_seq (cache y) (dirty_seq (cache y))" "seq = dirty_seq (cache y)"
      using sync(3) by (auto simp: ngnfs_block_sync_def)
    have "sub_frame c = sub_frame (cache y)"
      unfolding c by (rule sub_frame_core [OF core_sync(4)]) (simp add: submit_frames)
    moreover have "dirtying c = dirtying (cache y)" unfolding c by (rule dirtying_core [OF core_sync(4)])
    moreover have "sync_seq (cache y) \<le> sync_seq c" "seq \<le> sync_seq c" "dirty_seq c = dirty_seq (cache y)"
      by (simp_all add: c sync_up_to_seq_def sync_waiters_inc_def try_queue_writeback_work_def Let_def)
    ultimately show ?thesis
      using sync(1) sub_woken_frame [of c "cache y"] sw ww wb_woken_sync [of "cache y"] c
      by (intro queued_step [OF q st]) (auto split: if_splits)
  next
    case (sync_woken t seq ret c)
    have c: "c = snd (sync_finish (cache y))" using sync_woken(4) by simp
    have k: "core c = core (cache y)" using core_sync(3) c by (simp add: sync_finish_def)
    have "sub_frame c = sub_frame (cache y)" by (rule sub_frame_core [OF k]) (simp add: c submit_frames)
    then show ?thesis
      using sync_woken(1) sub_woken_frame [of c "cache y"] sw dirtying_core [OF k] c
      by (intro queued_frame [OF q st]) (auto simp: wb_frames split: if_splits)
  next
    case (submit_work submit_ret c)
    then show ?thesis
      using sub_woken_submit_work [OF submit_work(3)] wb_frame_submit_work [OF submit_work(3)] submit_work_inv [OF ci submit_work(3)]
      by (intro queued_frame [OF q st]) (auto simp: safe_step_def)
  next
    case (writeback_work w c)
    have "dirtying c = dirtying (cache y)" using writeback_work_inv [OF ci writeback_work(3)] by (simp add: safe_step_def)
    then show ?thesis
      using writeback_work(1) sub_woken_writeback_work [OF writeback_work(3) sw] wb_woken_writeback_work [OF ci writeback_work(3)]
        seqs_writeback_work [OF writeback_work(3)]
      by (intro queued_step [OF q st]) auto
  next
    case (end_io bnr data_page err c)
    have "dirtying c = dirtying (cache y)" using end_io_inv [OF ci end_io(2,3)] by (simp add: safe_step_def)
    then show ?thesis
      using end_io(1) sub_woken_frame [OF sub_frame_end_io [OF end_io(3)]] sw ww wb_woken_end_io [OF end_io(3)] seqs_end_io [OF end_io(3)]
      by (intro queued_step [OF q st]) auto
  qed
qed

end
