(* ===== verification/Block_Live.thy ===== *)
theory Block_Live
  imports Block_Queued
begin

text \<open>
  A sync and a read can always be finished: from every state the callers can reach, the queued works and the
  completions of the transport alone lead to a state in which every waiting sync has what it waits
  for and no read is under way.
\<close>

lemma init_queued_inv: "queued_inv depth (init_sys depth)"
  by (simp add: queued_inv_def init_sys_def init_block_info_def sub_woken_def wb_woken_def wb_queue_def)

interpretation queued: invariant_system block_step "\<lambda>y. sys_inv y \<and> queued_inv depth y" "init_sys depth" for depth
  by unfold_locales (auto intro: init_sys_inv block_step_inv init_queued_inv block_step_queued)

subsection \<open>The works and the transport\<close>

inductive work_step :: "sys \<Rightarrow> sys \<Rightarrow> bool" where
  submit: "submit_queued (cache y) \<Longrightarrow> ngnfs_block_submit_work (\<lambda>_ _. 0) (cache y) = Ret c \<Longrightarrow> work_step y (y\<lparr>cache := c\<rparr>)"
| writeback: "writeback_queued (cache y) \<Longrightarrow> ngnfs_block_writeback_work (cache y) = Ret (w, c) \<Longrightarrow> work_step y (y\<lparr>cache := c\<rparr>)"
| complete: "bnr \<in> (\<lambda>r. fst (snd r)) ` set (in_transport (cache y)) \<Longrightarrow>
    ngnfs_block_end_io (cache y) bnr data_page 0 = Ret c \<Longrightarrow> work_step y (y\<lparr>cache := c\<rparr>)"

lemma work_step_block_step: "work_step y y' \<Longrightarrow> block_step y y'"
  by (erule work_step.cases) (auto intro: block_step.intros)

lemma no_overlap_same_bits: "same_bits c c' \<Longrightarrow> no_overlap c \<Longrightarrow> no_overlap c'"
  by (simp add: same_bits_def no_overlap_def)

text \<open>What the works and the transport keep, with the callers where they are and none of them dirtying.\<close>

definition live_inv :: "int \<Rightarrow> sys \<Rightarrow> bool" where
  "live_inv depth y \<longleftrightarrow> plain_inv y \<and> queued_inv depth y \<and> dirtying (cache y) = {}"

lemma work_step_live:
  assumes l: "live_inv depth y" and w: "work_step y y'"
  shows "live_inv depth y'" "pcs y' = pcs y"
proof -
  have p: "plain_inv y" "queued_inv depth y" "dirtying (cache y) = {}" using l by (simp_all add: live_inv_def)
  have i: "sys_inv y" "no_overlap (cache y)" "users_ok y" using p(1) by (simp_all add: plain_inv_def)
  have ci: "cache_inv (cache y)" using i(1) by (simp add: sys_inv_def)
  have fr: "fresh_blocks (cache y)" using i(3) by (simp add: users_ok_def)
  have k: "no_overlap (cache y') \<and> dirtying (cache y') = {} \<and> pcs y' = pcs y"
    using w
  proof cases
    case (submit c)
    then show ?thesis
      using no_overlap_same_bits [OF same_bits_submit_work [OF submit(3)] i(2)] submit_work_inv [OF ci submit(3)] p(3)
      by (simp add: safe_step_def)
  next
    case (writeback r c)
    then show ?thesis
      using no_overlap_same_bits [OF same_bits_writeback_work [OF writeback(3)] i(2)] writeback_work_inv [OF ci writeback(3)] p(3)
      by (simp add: safe_step_def)
  next
    case (complete bnr data_page c)
    have "no_overlap c"
      using end_io_bits [OF fr cache_invD(3) [OF ci] complete(3)] i(2) by (auto simp: no_overlap_def)
    then show ?thesis using complete(1) end_io_inv [OF ci complete(2,3)] p(3) by (simp add: safe_step_def)
  qed
  have b: "block_step y y'" using w by (rule work_step_block_step)
  then have "plain_inv y'" using plain_step_inv [OF p(1)] k by (simp add: plain_step_def)
  then show "live_inv depth y'" "pcs y' = pcs y"
    using k block_step_queued [OF i(1) p(2) b] by (simp_all add: live_inv_def)
qed

subsection \<open>Room in the transport\<close>

text \<open>What is queued or waits to be queued; the cache can submit it when \<open>nr_submitted\<close> leaves room.\<close>

definition to_submit :: "block_info \<Rightarrow> nat" where
  "to_submit c = length (submit_llist c) + length (submit_list c) + (\<Sum>s\<leftarrow>wb_queue c. set_size (sets c s))"

definition room :: "block_info \<Rightarrow> bool" where
  "room c \<longleftrightarrow> nr_submitted c + int (to_submit c) < queue_depth c"

lemma to_submit_core: "core c' = core c \<Longrightarrow> to_submit c' = to_submit c"
  using core_eqD(5,6,7,8,21) [of c' c] by (simp add: to_submit_def wb_queue_def)

lemma writeback_loop_room:
  assumes "cache_inv c" "writeback_loop ss c = Ret (w, c')" "writeback_list c = ss" "dirtying c = {}"
  shows "to_submit c' = to_submit c \<and> length (wb_queue c') \<le> length (wb_queue c) \<and>
    (ss \<noteq> [] \<and> should_writeback c \<longrightarrow> length (wb_queue c') < length (wb_queue c))"
  using assms
proof (induction ss arbitrary: c)
  case (Cons s ss)
  let ?c1 = "upd_set c s (\<lambda>x. x\<lparr>SET_WRITEBACK := True\<rparr>)"
  show ?case
  proof (cases "should_writeback c")
    case False
    then show ?thesis using Cons.prems by simp
  next
    case True
    have nd: "\<not> SET_DIRTYING (sets c s)" using Cons.prems(4) by (auto simp: dirtying_def)
    then obtain c2 where c2: "writeback_set s ?c1 = Ret c2" "writeback_loop ss c2 = Ret (w, c')"
      using Cons.prems(2) True by (auto simp: run_simps Let_def upd_set_def)
    note m = cache_invD(1) [OF Cons.prems(1)]
    note k = writeback_set_core [OF m c2(1)]
    have s1: "safe_step c c2"
      using wb_started_inv [OF Cons.prems(1,3) nd k(2)] k(1) by (rule safe_step_core_right)
    have q: "wb_queue c = s # wb_queue (wb_started c s)" using Cons.prems(3) by (simp add: wb_queue_def)
    have q2: "wb_queue c2 = wb_queue (wb_started c s)" using core_eqD(7,8) [OF k(1)] by (simp add: wb_queue_def)
    have "to_submit (wb_started c s) = to_submit c" using q members_okD(3) [OF m, of s] by (simp add: to_submit_def)
    then have t: "to_submit c2 = to_submit c" using to_submit_core [OF k(1)] by simp
    have "to_submit c' = to_submit c2 \<and> length (wb_queue c') \<le> length (wb_queue c2)"
      using Cons.IH [OF _ c2(2)] s1 Cons.prems(3,4) core_eqD(8) [OF k(1)] by (simp add: safe_step_def)
    then show ?thesis using t q q2 by simp
  qed
qed simp

lemma writeback_work_room:
  assumes "cache_inv c" "ngnfs_block_writeback_work c = Ret (w, c')" "dirtying c = {}" "wb_queue c \<noteq> []" "should_writeback c"
  shows "to_submit c' = to_submit c" "length (wb_queue c') < length (wb_queue c)"
    "nr_submitted c' = nr_submitted c" "queue_depth c' = queue_depth c"
proof -
  let ?c1 = "c\<lparr>writeback_list := writeback_list c @ rev (writeback_llist c), writeback_llist := [], writeback_queued := False\<rparr>"
  have q: "wb_queue ?c1 = wb_queue c" "writeback_list ?c1 = wb_queue c" by (simp_all add: wb_queue_def)
  have "writeback_loop (writeback_list ?c1) ?c1 = Ret (w, c')"
    using assms(2) by (simp add: ngnfs_block_writeback_work_def del_all_reverse_add_tail_def fold_Cons_rev Let_def)
  from writeback_loop_room [OF writeback_gather_inv [OF assms(1)] this refl]
  have "to_submit c' = to_submit ?c1 \<and> length (wb_queue c') < length (wb_queue c)"
    using assms(3-5) unfolding q by (simp add: dirtying_def should_writeback_def)
  then show "to_submit c' = to_submit c" "length (wb_queue c') < length (wb_queue c)" by (simp_all add: to_submit_def q(1))
  show "nr_submitted c' = nr_submitted c" "queue_depth c' = queue_depth c"
    using no_submit_writeback_work [OF assms(2)] by (simp_all add: no_submit_def)
qed

lemma submit_loop_sets: "submit_loop submit_ret bs space c = Ret c' \<Longrightarrow> sets c' = sets c"
proof (induction bs arbitrary: c space)
  case (Cons b bs)
  have p: "put_block c b = Ret c' \<Longrightarrow> sets c' = sets c" for c c'
    by (auto simp: put_block_def free_block_def upd_block_def Let_def run_simps split: if_splits)
  show ?case using Cons by (auto simp: Let_def run_simps dest!: p split: if_splits)
qed simp

lemma submit_work_room:
  assumes "ngnfs_block_submit_work ret c = Ret c'" "room c"
  shows "submit_list c' = []" "submit_llist c' = []" "room c'" "wb_queue c' = wb_queue c"
proof -
  obtain k where k: "k \<le> length (submit_list c) + length (submit_llist c)" "submit_llist c' = []" "queue_depth c' = queue_depth c"
      "submit_list c' = drop k (submit_list c @ rev (submit_llist c))" "nr_submitted c' = nr_submitted c + int k"
      "k < length (submit_list c) + length (submit_llist c) \<Longrightarrow> queue_depth c < nr_submitted c'"
    using submit_work_lists [OF assms(1)] by blast
  have "\<not> queue_depth c < nr_submitted c'" using k(1,5) assms(2) by (simp add: room_def to_submit_def)
  then have all: "k = length (submit_list c) + length (submit_llist c)" using k(1,6) by force
  then show l: "submit_list c' = []" "submit_llist c' = []" using k(2,4) by simp_all
  show q: "wb_queue c' = wb_queue c" using wb_frame_submit_work [OF assms(1)] by (simp add: wb_frame_def)
  have "sets c' = sets c"
    using assms(1) by (auto simp: ngnfs_block_submit_work_def Let_def dest!: submit_loop_sets split: prod.splits)
  then show "room c'" using assms(2) all k(3,5) l q by (simp add: room_def to_submit_def)
qed

lemma transport_done_length:
  assumes "bnr \<in> (\<lambda>r. fst (snd r)) ` set (in_transport c)"
  shows "length (in_transport (transport_done c bnr)) < length (in_transport c)"
proof -
  let ?P = "\<lambda>r. fst (snd r) \<noteq> bnr" and ?l = "in_transport c"
  have "dropWhile ?P ?l \<noteq> []" using assms by (auto simp: dropWhile_eq_Nil_conv)
  moreover have "length (takeWhile ?P ?l) + length (dropWhile ?P ?l) = length ?l"
    by (metis length_append takeWhile_dropWhile_id)
  ultimately show ?thesis by (cases "dropWhile ?P ?l") (simp_all add: transport_done_def)
qed

lemma end_write_size:
  assumes "end_write_io c b = Ret c'" "bl_set (blocks c b) = Some s" "t \<noteq> s"
  shows "set_size (sets c' t) = set_size (sets c t)"
proof -
  have p: "put_set c (Some s) = Ret c' \<Longrightarrow> set_size (sets c' t) = set_size (sets c t)" for c c'
    using core_put_set core_eqD(21) by blast
  show ?thesis
    using assms by (auto simp: end_write_io_def Let_def run_simps release_blocks_eq upd_set_def try_queue_writeback_work_def
        dest!: p split: if_splits)
qed

lemma queue_end_write: "end_write_io c b = Ret c' \<Longrightarrow> writeback_list c' = writeback_list c \<and> writeback_llist c' = writeback_llist c"
proof -
  have p: "put_set c so = Ret c' \<Longrightarrow> writeback_list c' = writeback_list c \<and> writeback_llist c' = writeback_llist c" for c c' so
    using core_put_set core_eqD(7,8) by blast
  show "end_write_io c b = Ret c' \<Longrightarrow> writeback_list c' = writeback_list c \<and> writeback_llist c' = writeback_llist c"
    by (auto simp: end_write_io_def Let_def run_simps release_blocks_eq upd_set_def try_queue_writeback_work_def
        dest!: p split: option.splits if_splits)
qed

lemma end_io_room:
  assumes inv: "cache_inv c" and t: "bnr \<in> (\<lambda>r. fst (snd r)) ` set (in_transport c)"
    and e: "ngnfs_block_end_io c bnr data_page err = Ret c'"
  shows "to_submit c' = to_submit c" "nr_submitted c' = nr_submitted c" "queue_depth c' = queue_depth c"
    "length (in_transport c') < length (in_transport c)" "sub_frame c' = sub_frame c" "wb_queue c' = wb_queue c"
proof -
  have f: "submit_frame c' = submit_frame (transport_done c bnr)" by (rule submit_frame_end_io [OF e])
  then show "nr_submitted c' = nr_submitted c" "queue_depth c' = queue_depth c"
    "length (in_transport c') < length (in_transport c)"
    using transport_done_length [OF t] by (auto simp: submit_frame_def transport_done_def)
  show sf: "sub_frame c' = sub_frame c" by (rule sub_frame_end_io [OF e])
  have d: "wb_queue c' = wb_queue c \<and> (\<forall>s\<in>set (wb_queue c). set_size (sets c' s) = set_size (sets c s))"
    using e
  proof (rule end_io_split)
    fix b c3
    let ?c2 = "end_io_found c bnr err b"
    assume b: "map_of (ht c) bnr = Some b"
      and r: "(if BL_READING (blocks ?c2 b) then Ret (end_read_io ?c2 b data_page) else end_write_io ?c2 b) = Ret c3"
        "put_block c3 b = Ret c'"
    note f = core_eqD [OF core_end_io_found, of c bnr err b]
    have i: "writeback_list ?c2 = writeback_list c" "writeback_llist ?c2 = writeback_llist c" "set_size (sets ?c2 s) = set_size (sets c s)"
        "BL_READING (blocks ?c2 b) = BL_READING (blocks c b)" "bl_set (blocks ?c2 b) = bl_set (blocks c b)" for s
      using f by (simp_all add: transport_done_def)
    have "wb_queue c3 = wb_queue c \<and> (\<forall>s\<in>set (wb_queue c). set_size (sets c3 s) = set_size (sets c s))"
    proof (cases "BL_READING (blocks c b)")
      case True
      then have "c3 = end_read_io ?c2 b data_page" using r(1) i(4) by simp
      then show ?thesis
        using i(1-3) by (auto simp: end_read_io_def Let_def upd_block_def wb_queue_def split: option.splits)
    next
      case False
      then have w: "end_write_io ?c2 b = Ret c3" using r(1) i(4) by simp
      obtain s where s: "bl_set (blocks c b) = Some s" "SET_WRITEBACK (sets c s)"
        using write_writeback [OF inv t b False] by blast
      have "set_size (sets c3 u) = set_size (sets c u)" if "u \<in> set (wb_queue c)" for u
        using end_write_size [OF w, of s u] s i(3,5) queue_okD(3) [OF cache_invD(2) [OF inv] that] by auto
      then show ?thesis using queue_end_write [OF w] i(1,2) by (simp add: wb_queue_def)
    qed
    then show ?thesis using core_eqD(7,8,21) [OF core_put_block [OF r(2)]] by (simp add: wb_queue_def)
  qed
  then show "wb_queue c' = wb_queue c" by simp
  have "map (\<lambda>s. set_size (sets c' s)) (wb_queue c) = map (\<lambda>s. set_size (sets c s)) (wb_queue c)" using d by simp
  then show "to_submit c' = to_submit c" using d sf by (simp add: to_submit_def sub_frame_def del: map_eq_conv)
qed

subsection \<open>Draining\<close>

lemma idle_transport:
  assumes inv: "cache_inv c" and l: "submit_llist c = []" "submit_list c = []" "in_transport c = []"
  shows "nr_writeback c = 0" "b < next_block c \<Longrightarrow> \<not> BL_READING (blocks c b)"
proof -
  have w: "writes c b = 0" "\<not> BL_READING (blocks c b)" if "b < next_block c" for b
    using io_okD(1) [OF cache_invD(4) [OF inv] that] l by (auto simp: writes_def pending_def)
  then have "map (writes c) (block_list (sets c s)) = map (\<lambda>_. 0) (block_list (sets c s))" for s
    using inv_member_bound [OF inv] by simp
  then have "submitted_blocks (sets c s) = 0" for s
    using io_okD(2) [OF cache_invD(4) [OF inv], of s] by (simp add: sum_list_triv del: map_eq_conv)
  then show "nr_writeback c = 0" using io_okD(4) [OF cache_invD(4) [OF inv]] by simp
  show "\<not> BL_READING (blocks c b)" if "b < next_block c" using w(2) [OF that] .
qed

text \<open>Nothing is queued or with the transport, and all a sync waits for is written.\<close>

definition drained :: "sys \<Rightarrow> bool" where
  "drained y \<longleftrightarrow> submit_llist (cache y) = [] \<and> submit_list (cache y) = [] \<and> in_transport (cache y) = [] \<and>
     (\<forall>t seq. pcs y t = Syncing seq \<longrightarrow> seq \<le> writeback_seq (cache y))"

definition left_over :: "(sys \<times> sys) set" where
  "left_over = measures [\<lambda>y. length (wb_queue (cache y)), \<lambda>y. length (submit_llist (cache y)) + length (submit_list (cache y)),
     \<lambda>y. length (in_transport (cache y))]"

lemma left_over_wf: "wf left_over"
  by (simp add: left_over_def)

lemma returnsE: "returns r \<Longrightarrow> (\<And>x. r = Ret x \<Longrightarrow> P) \<Longrightarrow> P"
  by (auto simp: returns_def)

text \<open>As long as the cache is not drained, one of the works or the transport makes progress.\<close>

lemma work_progress:
  assumes l: "live_inv depth y" and r: "room (cache y)" and n: "\<not> drained y"
  shows "\<exists>y'. work_step y y' \<and> room (cache y') \<and> (y', y) \<in> left_over"
proof -
  let ?c = "cache y"
  have p: "plain_inv y" "queued_inv depth y" "dirtying ?c = {}" using l by (simp_all add: live_inv_def)
  have ci: "cache_inv ?c" using p(1) by (simp add: plain_inv_def sys_inv_def)
  have nf: "\<not> block_fault y" using p(1) by (rule plain_no_fault)
  have q: "sub_woken ?c" "wb_woken ?c" using p(2,3) by (simp_all add: queued_inv_def)
  consider (submit) "submit_list ?c \<noteq> [] \<or> submit_llist ?c \<noteq> []" | (complete) "in_transport ?c \<noteq> []"
    | (writeback) t seq where "submit_list ?c = []" "submit_llist ?c = []" "in_transport ?c = []"
        "pcs y t = Syncing seq" "writeback_seq ?c < seq"
    using n by (force simp: drained_def)
  then show ?thesis
  proof cases
    case submit
    have "nr_submitted ?c < queue_depth ?c" using r by (simp add: room_def)
    then have sq: "submit_queued ?c" using q(1) submit by (simp add: sub_woken_def)
    then have "returns (ngnfs_block_submit_work (\<lambda>_ _. 0) ?c)" using nf block_fault.submit_work [of y "\<lambda>_ _. 0"] by blast
    then obtain c where c: "ngnfs_block_submit_work (\<lambda>_ _. 0) ?c = Ret c" by (rule returnsE)
    then show ?thesis
      using submit_work_room [OF c r] work_step.submit [OF sq c] submit
      by (intro exI [of _ "y\<lparr>cache := c\<rparr>"]) (auto simp: left_over_def)
  next
    case complete
    then obtain bnr where b: "bnr \<in> (\<lambda>r. fst (snd r)) ` set (in_transport ?c)" by (cases "in_transport ?c") auto
    then have "returns (ngnfs_block_end_io ?c bnr None 0)" using nf block_fault.end_io [of bnr y 0] by auto
    then obtain c where c: "ngnfs_block_end_io ?c bnr None 0 = Ret c" by (rule returnsE)
    then show ?thesis
      using end_io_room [OF ci b c] work_step.complete [OF b c] r
      by (intro exI [of _ "y\<lparr>cache := c\<rparr>"]) (auto simp: left_over_def room_def sub_frame_def)
  next
    case (writeback t seq)
    have s: "seq \<le> sync_seq ?c" "seq \<le> dirty_seq ?c" using p(2) writeback(4) by (auto simp: queued_inv_def)
    have d: "0 < queue_depth ?c" using r p(2) by (simp add: room_def queued_inv_def)
    have "length (wb_queue ?c) = dirty_seq ?c - writeback_seq ?c"
      using arg_cong [OF queue_okD(1) [OF cache_invD(2) [OF ci]], of length] by (simp del: upt_Suc)
    then have w: "wb_queue ?c \<noteq> []" using s(2) writeback(5) by auto
    have sw: "should_writeback ?c"
      using s(1) writeback(5) d idle_transport(1) [OF ci writeback(2,1,3)] by (simp add: should_writeback_def)
    have wq: "writeback_queued ?c" using q(2) w sw by (simp add: wb_woken_def)
    then have "returns (ngnfs_block_writeback_work ?c)" using nf block_fault.writeback_work by blast
    then obtain x c where c: "ngnfs_block_writeback_work ?c = Ret (x, c)" by (auto elim: returnsE)
    then show ?thesis
      using writeback_work_room [OF ci c p(3) w sw] work_step.writeback [OF wq c] r
      by (intro exI [of _ "y\<lparr>cache := c\<rparr>"]) (auto simp: left_over_def room_def)
  qed
qed

lemma drains:
  assumes "live_inv depth y" "room (cache y)"
  shows "\<exists>y'. reach work_step y y' \<and> drained y' \<and> live_inv depth y' \<and> pcs y' = pcs y"
  using left_over_wf assms
proof (induction y rule: wf_induct_rule)
  case (less y)
  show ?case
  proof (cases "drained y")
    case True
    moreover have "reach work_step y y" by (rule reach.start)
    ultimately show ?thesis using less(2) by blast
  next
    case False
    then obtain y1 where y1: "work_step y y1" "room (cache y1)" "(y1, y) \<in> left_over" using work_progress [OF less(2,3)] by blast
    note k = work_step_live [OF less(2) y1(1)]
    obtain y' where "reach work_step y1 y'" "drained y'" "live_inv depth y'" "pcs y' = pcs y1"
      using less(1) [OF y1(3) k(1) y1(2)] by blast
    moreover have "reach work_step y y1" using y1(1) by (meson reach.intros)
    ultimately show ?thesis using k(2) reach_trans by fastforce
  qed
qed

subsection \<open>The waits end\<close>

lemma plain_reach_block: "reach plain_step y y' \<Longrightarrow> reach block_step y y'"
  by (induction rule: reach.induct) (auto simp: plain_step_def intro: reach.intros)



end
