(* ===== verification/Lk_Atomic.thy ===== *)
theory Lk_Atomic
  imports Ngnfs_Prelude
begin

text \<open>
  The atomic counters of \<open>shared/lk/atomic.h\<close>, generated for \<open>int\<close>, \<open>long\<close> and \<open>s64\<close>: words of 32
  and 64 bits whose operations wrap.  An operation is one step and returns its result and the new
  value.  On top of them, the two ways in which the sources use them: a loop around
  \<open>atomic_cmpxchg\<close>, and a reference count.
\<close>

subsection \<open>atomic.h\<close>

definition atomic_set :: "'a::len word \<Rightarrow> 'a word \<Rightarrow> 'a word" where
  "atomic_set v i = i"

definition atomic_read :: "'a::len word \<Rightarrow> 'a word" where
  "atomic_read v = v"

definition atomic_inc :: "'a::len word \<Rightarrow> 'a word" where
  "atomic_inc v = v + 1"

definition atomic_dec :: "'a::len word \<Rightarrow> 'a word" where
  "atomic_dec v = v - 1"

definition uatomic_add_return :: "'a::len word \<Rightarrow> 'a word \<Rightarrow> 'a word \<times> 'a word" where
  "uatomic_add_return v i = (v + i, v + i)"

definition atomic_inc_return :: "'a::len word \<Rightarrow> 'a word \<times> 'a word" where
  "atomic_inc_return v = uatomic_add_return v 1"

definition atomic_dec_return :: "'a::len word \<Rightarrow> 'a word \<times> 'a word" where
  "atomic_dec_return v = uatomic_add_return v (- 1)"

definition atomic_dec_and_test :: "'a::len word \<Rightarrow> bool \<times> 'a word" where
  "atomic_dec_and_test v = (let (r, v) = uatomic_add_return v (- 1) in (r = 0, v))"

definition atomic_add :: "'a::len word \<Rightarrow> 'a word \<Rightarrow> 'a word" where
  "atomic_add i v = v + i"

definition atomic_sub :: "'a::len word \<Rightarrow> 'a word \<Rightarrow> 'a word" where
  "atomic_sub i v = v - i"

text \<open>The result is the value that was found.\<close>

definition atomic_cmpxchg :: "'a::len word \<Rightarrow> 'a word \<Rightarrow> 'a word \<Rightarrow> 'a word \<times> 'a word" where
  "atomic_cmpxchg v old new = (v, if v = old then new else v)"

lemmas atomic_defs = atomic_set_def atomic_read_def atomic_inc_def atomic_dec_def uatomic_add_return_def
  atomic_inc_return_def atomic_dec_return_def atomic_dec_and_test_def atomic_add_def atomic_sub_def atomic_cmpxchg_def

text \<open>The counters below the sign bit are the numbers they stand for.\<close>

lemma sint_of_nat_small: "n < 2 ^ (LENGTH('a) - 1) \<Longrightarrow> sint (of_nat n :: 'a::len word) = int n"
proof -
  assume n: "n < 2 ^ (LENGTH('a) - 1)"
  have "sint (of_nat n :: 'a word) = signed_take_bit (LENGTH('a) - Suc 0) (int n)" by (simp add: signed_of_nat)
  also have "\<dots> = int n"
    using n by (intro signed_take_bit_int_eq_self) (auto simp: order_trans [of _ 0] of_nat_less_iff [of n, symmetric])
  finally show ?thesis .
qed

subsection \<open>Loops around a compare and exchange\<close>

text \<open>
  The loops read the value, decide on it and try to exchange it, and start over when another
  thread has changed the value in between.  \<open>pick\<close> is what a loop does with the value it read:
  leave with a result, or try a new value.
\<close>

datatype ('w, 'r) cas_choice = Leave 'r | Try 'w 'r

datatype ('w, 'r) cas_pc = Cas_read | Cas_try 'w 'w 'r | Cas_done 'r

type_synonym ('a, 'r) cas_loop = "('a word, 'r) cas_pc"

fun cas_step :: "('a::len word \<Rightarrow> ('a word, 'r) cas_choice) \<Rightarrow> 'a word \<Rightarrow> ('a, 'r) cas_loop \<Rightarrow> 'a word \<times> ('a, 'r) cas_loop" where
  "cas_step pick v Cas_read =
     (case pick (atomic_read v) of Leave r \<Rightarrow> (v, Cas_done r) | Try new r \<Rightarrow> (v, Cas_try (atomic_read v) new r))"
| "cas_step pick v (Cas_try old new r) =
     (let (found, v) = atomic_cmpxchg v old new in (v, if found \<noteq> old then Cas_read else Cas_done r))"
| "cas_step pick v (Cas_done r) = (v, Cas_done r)"

text \<open>The loop as one step, and what a loop remembers of the value it read.\<close>

definition cas_apply :: "('w \<Rightarrow> ('w, 'r) cas_choice) \<Rightarrow> 'w \<Rightarrow> 'w \<times> 'r" where
  "cas_apply pick v = (case pick v of Leave r \<Rightarrow> (v, r) | Try new r \<Rightarrow> (new, r))"

fun cas_ok :: "('w \<Rightarrow> ('w, 'r) cas_choice) \<Rightarrow> ('w, 'r) cas_pc \<Rightarrow> bool" where
  "cas_ok pick (Cas_try old new r) \<longleftrightarrow> pick old = Try new r"
| "cas_ok pick p \<longleftrightarrow> True"

fun cas_running :: "('w, 'r) cas_pc \<Rightarrow> bool" where
  "cas_running (Cas_done r) \<longleftrightarrow> False"
| "cas_running p \<longleftrightarrow> True"

lemma cas_ok_step: "cas_ok pick p \<Longrightarrow> cas_step pick v p = (v', p') \<Longrightarrow> cas_ok pick p'"
  by (cases p) (auto simp: atomic_defs split: cas_choice.splits if_splits)

text \<open>
  The step that ends the loop does the whole work of the loop on the value of that moment, the
  others change nothing: other threads see the loop as one step.
\<close>

lemma cas_step_running:
  "cas_running p \<Longrightarrow> cas_step pick v p = (v', p') \<Longrightarrow> cas_running p' \<Longrightarrow> v' = v"
  by (cases p) (auto simp: atomic_defs split: cas_choice.splits if_splits)

lemma cas_step_done:
  "cas_running p \<Longrightarrow> cas_ok pick p \<Longrightarrow> cas_step pick v p = (v', Cas_done r) \<Longrightarrow> cas_apply pick v = (v', r)"
  by (cases p) (auto simp: atomic_defs cas_apply_def split: cas_choice.splits if_splits)

text \<open>A loop that no other thread disturbs ends after three steps of its own.\<close>

lemma cas_undisturbed:
  assumes "cas_ok pick p"
  shows "\<not> cas_running (snd (((\<lambda>(v, p). cas_step pick v p) ^^ 3) (v, p)))"
proof -
  have r: "\<not> cas_running (snd (((\<lambda>(v, p). cas_step pick v p) ^^ 2) (v, Cas_read)))" for v
    by (cases "pick v") (simp_all add: numeral_eq_Suc atomic_defs)
  show ?thesis
  proof (cases p)
    case (Cas_try old new x)
    then show ?thesis using r [of v] by (simp add: eval_nat_numeral funpow_Suc_right atomic_defs split: if_splits del: funpow.simps)
  qed (auto simp: numeral_eq_Suc atomic_defs split: cas_choice.splits)
qed

subsection \<open>Reference counts\<close>

text \<open>
  An object with a reference count as \<open>shared/block.c\<close>, \<open>shared/msg.c\<close> and \<open>shared/trace.c\<close> have it:
  \<open>atomic_set\<close> to 1 when it is made, \<open>atomic_inc\<close> by a thread that has a reference,
  \<open>atomic_dec_return\<close> to give one back, and the thread that sees 0 frees the object.  References
  can be handed to other threads.  \<open>gets\<close> counts the references taken in all.
\<close>

record refobj =
  refcount :: u32
  refs :: "nat \<Rightarrow> nat"
  frees :: nat
  gets :: nat

definition ref_init :: refobj where
  "ref_init = \<lparr>refcount = atomic_set 0 1, refs = (\<lambda>_. 0)(0 := 1), frees = 0, gets = 0\<rparr>"

definition ref_get :: "nat \<Rightarrow> refobj \<Rightarrow> refobj" where
  "ref_get t y = y\<lparr>refcount := atomic_inc (refcount y), refs := (refs y)(t := refs y t + 1), gets := gets y + 1\<rparr>"

definition ref_put :: "nat \<Rightarrow> refobj \<Rightarrow> refobj" where
  "ref_put t y =
     (let (r, v) = atomic_dec_return (refcount y);
          y = y\<lparr>refcount := v, refs := (refs y)(t := refs y t - 1)\<rparr>
      in if r = 0 then y\<lparr>frees := frees y + 1\<rparr> else y)"

definition ref_give :: "nat \<Rightarrow> nat \<Rightarrow> refobj \<Rightarrow> refobj" where
  "ref_give t u y = (let r = (refs y)(t := refs y t - 1) in y\<lparr>refs := r(u := r u + 1)\<rparr>)"

inductive ref_step :: "nat \<Rightarrow> refobj \<Rightarrow> refobj \<Rightarrow> bool" for N where
  get: "t < N \<Longrightarrow> 0 < refs y t \<Longrightarrow> ref_step N y (ref_get t y)"
| put: "t < N \<Longrightarrow> 0 < refs y t \<Longrightarrow> ref_step N y (ref_put t y)"
| give: "t < N \<Longrightarrow> u < N \<Longrightarrow> 0 < refs y t \<Longrightarrow> ref_step N y (ref_give t u y)"

definition total_refs :: "nat \<Rightarrow> refobj \<Rightarrow> nat" where
  "total_refs N y = (\<Sum>t<N. refs y t)"

definition ref_inv :: "nat \<Rightarrow> refobj \<Rightarrow> bool" where
  "ref_inv N y \<longleftrightarrow> total_refs N y \<le> gets y + 1 \<and> (gets y + 1 < 2 ^ 32 \<longrightarrow>
     refcount y = of_nat (total_refs N y) \<and> frees y = (if total_refs N y = 0 then 1 else 0))"

lemma sum_upd_nat:
  fixes f :: "nat \<Rightarrow> nat"
  shows "t < N \<Longrightarrow> (\<Sum>s<N. (f(t := x)) s) + f t = (\<Sum>s<N. f s) + x"
  by (simp add: sum.remove [of "{..<N}" t] sum.cong [of "{..<N} - {t}" _ "f(t := x)" f])

lemma total_refs_step:
  assumes "t < N"
  shows "total_refs N (ref_get t y) = total_refs N y + 1"
    and "0 < refs y t \<Longrightarrow> total_refs N (ref_put t y) + 1 = total_refs N y"
    and "0 < refs y t \<Longrightarrow> u < N \<Longrightarrow> total_refs N (ref_give t u y) = total_refs N y"
proof -
  show "total_refs N (ref_get t y) = total_refs N y + 1"
    using sum_upd_nat [OF assms, of "refs y" "refs y t + 1"] by (simp add: total_refs_def ref_get_def)
  have 2: "(\<Sum>s<N. ((refs y)(t := refs y t - 1)) s) + 1 = total_refs N y" if "0 < refs y t"
    using sum_upd_nat [OF assms, of "refs y" "refs y t - 1"] that by (simp add: total_refs_def)
  then show "0 < refs y t \<Longrightarrow> total_refs N (ref_put t y) + 1 = total_refs N y"
    by (simp add: total_refs_def ref_put_def atomic_defs Let_def)
  assume p: "0 < refs y t" and u: "u < N"
  let ?r = "(refs y)(t := refs y t - 1)"
  have "(\<Sum>s<N. (?r(u := ?r u + 1)) s) = (\<Sum>s<N. ?r s) + 1"
    using sum_upd_nat [OF u, of ?r "?r u + 1"] by (simp del: fun_upd_apply)
  then show "total_refs N (ref_give t u y) = total_refs N y"
    using 2 [OF p] by (simp add: total_refs_def ref_give_def Let_def del: fun_upd_apply)
qed

lemma total_refs_pos: "t < N \<Longrightarrow> 0 < refs y t \<Longrightarrow> 0 < total_refs N y"
  by (auto simp: total_refs_def intro!: sum_pos2 [of _ t])

lemma ref_step_inv: "ref_inv N y \<Longrightarrow> ref_step N y y' \<Longrightarrow> ref_inv N y'"
proof (erule ref_step.cases)
  fix t z assume i: "ref_inv N y" and e: "y = z" "y' = ref_get t z" and t: "t < N" "0 < refs z t"
  have g: "gets y' = gets y + 1" "refcount y' = refcount y + 1" "frees y' = frees y"
    by (simp_all add: e ref_get_def atomic_defs)
  then show ?thesis using i total_refs_pos [OF t] total_refs_step(1) [OF t(1), of y] e
    by (auto simp: ref_inv_def)
next
  fix t z assume i: "ref_inv N y" and e: "y = z" "y' = ref_put t z" and t: "t < N" "0 < refs z t"
  have tr: "total_refs N y = total_refs N y' + 1" using total_refs_step(2) [OF t] e by simp
  have g: "gets y' = gets y" "refcount y' = refcount y - 1" "frees y' = frees y + (if refcount y - 1 = 0 then 1 else 0)"
    by (simp_all add: e ref_put_def atomic_defs Let_def)
  have "(of_nat (total_refs N y') :: u32) = 0 \<longleftrightarrow> total_refs N y' = 0" if "total_refs N y' < 2 ^ 32"
    using that by (simp add: unat_eq_zero [symmetric] unat_of_nat)
  then show ?thesis using i g tr by (auto simp: ref_inv_def)
next
  fix t u z assume i: "ref_inv N y" and e: "y = z" "y' = ref_give t u z" and t: "t < N" "u < N" "0 < refs z t"
  have "gets y' = gets y" "refcount y' = refcount y" "frees y' = frees y"
    by (simp_all add: e ref_give_def Let_def)
  then show ?thesis using i total_refs_step(3) [OF t(1,3,2)] e by (simp add: ref_inv_def)
qed

lemma ref_init_inv: "0 < N \<Longrightarrow> ref_inv N ref_init"
proof -
  assume "0 < N"
  then have "total_refs N ref_init = 1"
    using sum_upd_nat [of 0 N "\<lambda>_. 0" 1] by (simp add: total_refs_def ref_init_def)
  then show ?thesis by (simp add: ref_inv_def ref_init_def atomic_defs)
qed

interpretation refobjs: kept_system "ref_step N" "ref_inv N" for N
  using ref_step_inv by unfold_locales


text \<open>Thread 0 takes a second reference for thread 1, and both put theirs.\<close>

definition example_refs :: refobj where
  "example_refs = ref_put 1 (ref_put 0 (ref_give 0 1 (ref_get 0 ref_init)))"


end
