(* ===== verification/Block_Sync.thy ===== *)
theory Block_Sync
  imports Block_Cache Lk_Atomic
begin

text \<open>
  The sync of \<open>shared/block.c\<close> with its atomic steps interleaved: \<open>sync_up_to_seq\<close> with its two
  compare and exchange loops, and \<open>sync_waiters_set_error\<close>, which the end of a failed write calls.
  The model of the block cache runs these functions without interference; here every loop reads
  and exchanges in steps of its own.
\<close>

unbundle bit_operations_syntax

subsection \<open>The loops\<close>

definition set_error_pick :: "u32 \<Rightarrow> (u32, unit) cas_choice" where
  "set_error_pick old = (if sint old \<ge> SYNC_WAITERS_INC then Try (old OR 1) () else Leave ())"

definition dec_error_pick :: "u32 \<Rightarrow> (u32, int) cas_choice" where
  "dec_error_pick old =
     (let ret = (if old AND 1 \<noteq> 0 then - EIO else 0);
          new = old - 2;
          new = (if new = 1 then 0 else new)
      in Try new ret)"

definition sync_seq_pick :: "u64 \<Rightarrow> u64 \<Rightarrow> (u64, u64) cas_choice" where
  "sync_seq_pick seq old = (if seq > old then Try seq old else Leave old)"

subsection \<open>Threads\<close>

text \<open>
  A thread is outside, raises \<open>sync_seq\<close>, waits, leaves, has left with a result, or records an
  error.  \<open>failed\<close> are the threads that were counted as waiters when an error was recorded and have
  not returned yet.
\<close>

datatype sync_pc =
    Out
  | Raising u64 "(64, u64) cas_loop"
  | Waiting u64
  | Leaving "(32, int) cas_loop"
  | Left int
  | Failing "(32, unit) cas_loop"

record sync_sys =
  waiters :: u32
  seq_ctr :: u64
  spc :: "nat \<Rightarrow> sync_pc"
  failed :: "nat set"

definition sgoto :: "nat \<Rightarrow> sync_pc \<Rightarrow> sync_sys \<Rightarrow> sync_sys" where
  "sgoto t p y = y\<lparr>spc := (spc y)(t := p)\<rparr>"

fun counted :: "sync_pc \<Rightarrow> bool" where
  "counted (Raising s p) = True"
| "counted (Waiting s) = True"
| "counted (Leaving p) = True"
| "counted _ = False"

definition sync_enter :: "nat \<Rightarrow> u64 \<Rightarrow> sync_sys \<Rightarrow> sync_sys" where
  "sync_enter t seq y = sgoto t (Raising seq Cas_read) (y\<lparr>waiters := atomic_add 2 (waiters y)\<rparr>)"

definition sync_raise :: "nat \<Rightarrow> sync_sys \<Rightarrow> sync_sys" where
  "sync_raise t y =
     (case spc y t of
        Raising seq p \<Rightarrow>
          (let (v, p) = cas_step (sync_seq_pick seq) (seq_ctr y) p
           in sgoto t (if cas_running p then Raising seq p else Waiting seq) (y\<lparr>seq_ctr := v\<rparr>))
      | _ \<Rightarrow> y)"

definition sync_leave :: "nat \<Rightarrow> sync_sys \<Rightarrow> sync_sys" where
  "sync_leave t y =
     (case spc y t of
        Waiting seq \<Rightarrow> sgoto t (Leaving Cas_read) y
      | Leaving p \<Rightarrow>
          (let (v, p) = cas_step dec_error_pick (waiters y) p; y = y\<lparr>waiters := v\<rparr>
           in case p of
                Cas_done ret \<Rightarrow> sgoto t (Left ret) y
              | _ \<Rightarrow> sgoto t (Leaving p) y)
      | _ \<Rightarrow> y)"

definition sync_fail :: "nat \<Rightarrow> sync_sys \<Rightarrow> sync_sys" where
  "sync_fail t y =
     (case spc y t of
        Failing p \<Rightarrow>
          (let (v, p) = cas_step set_error_pick (waiters y) p; y = y\<lparr>waiters := v\<rparr>
           in if cas_running p then sgoto t (Failing p) y
              else sgoto t Out (y\<lparr>failed := failed y \<union> {s. counted (spc y s)}\<rparr>))
      | _ \<Rightarrow> y)"

inductive sync_step :: "nat \<Rightarrow> sync_sys \<Rightarrow> sync_sys \<Rightarrow> bool" for N where
  enter: "t < N \<Longrightarrow> spc y t = Out \<Longrightarrow> sync_step N y (sync_enter t seq y)"
| raise: "t < N \<Longrightarrow> sync_step N y (sync_raise t y)"
| leave: "t < N \<Longrightarrow> sync_step N y (sync_leave t y)"
| error: "t < N \<Longrightarrow> spc y t = Out \<Longrightarrow> sync_step N y (sgoto t (Failing Cas_read) y)"
| fail: "t < N \<Longrightarrow> sync_step N y (sync_fail t y)"
| return: "t < N \<Longrightarrow> spc y t = Left r \<Longrightarrow> sync_step N y (sgoto t Out (y\<lparr>failed := failed y - {t}\<rparr>))"

definition sync_init :: sync_sys where
  "sync_init = \<lparr>waiters = 0, seq_ctr = 0, spc = (\<lambda>_. Out), failed = {}\<rparr>"

subsection \<open>The invariant\<close>

text \<open>The counter is twice the number of counted threads, plus the error bit.\<close>

definition counted_set :: "sync_sys \<Rightarrow> nat set" where
  "counted_set y = {t. counted (spc y t)}"

definition waiters_val :: "nat \<Rightarrow> bool \<Rightarrow> u32" where
  "waiters_val n e = of_nat (2 * n + (if e then 1 else 0))"

fun spc_ok :: "sync_sys \<Rightarrow> sync_pc \<Rightarrow> bool" where
  "spc_ok y (Raising s p) \<longleftrightarrow> cas_ok (sync_seq_pick s) p \<and> cas_running p"
| "spc_ok y (Waiting s) \<longleftrightarrow> s \<le> seq_ctr y"
| "spc_ok y (Leaving p) \<longleftrightarrow> cas_ok dec_error_pick p \<and> cas_running p"
| "spc_ok y (Failing p) \<longleftrightarrow> cas_ok set_error_pick p \<and> cas_running p"
| "spc_ok y p \<longleftrightarrow> True"

definition sync_inv :: "nat \<Rightarrow> sync_sys \<Rightarrow> bool" where
  "sync_inv N y \<longleftrightarrow> counted_set y \<subseteq> {..<N} \<and> (\<forall>t. spc_ok y (spc y t)) \<and>
     (\<exists>e. waiters y = waiters_val (card (counted_set y)) e \<and> (e \<longrightarrow> counted_set y \<noteq> {}) \<and>
       (failed y \<inter> counted_set y \<noteq> {} \<longrightarrow> e)) \<and>
     (\<forall>t. t \<in> failed y \<and> \<not> counted (spc y t) \<longrightarrow> spc y t = Left (- EIO))"

lemmas cas_apply_defs = cas_apply_def set_error_pick_def dec_error_pick_def sync_seq_pick_def

lemma sint_waiters: "n < 2 ^ 30 \<Longrightarrow> sint (waiters_val n e) = 2 * int n + (if e then 1 else 0)"
  using sint_of_nat_small [of "2 * n + (if e then 1 else 0)", where ?'a = 32] by (simp add: waiters_val_def)

lemma waiters_val_eq_iff:
  "n < 2 ^ 30 \<Longrightarrow> k < 2 ^ 30 \<Longrightarrow> waiters_val n e = waiters_val k f \<longleftrightarrow> n = k \<and> e = f"
proof
  assume "n < 2 ^ 30" "k < 2 ^ 30" "waiters_val n e = waiters_val k f"
  then have "2 * int n + (if e then 1 else 0) = 2 * int k + (if f then 1 else 0)"
    using sint_waiters by metis
  then show "n = k \<and> e = f" by (simp split: if_splits) presburger+
qed simp

lemma waiters_val_bits:
  "waiters_val n e AND 1 \<noteq> 0 \<longleftrightarrow> e" "waiters_val n e OR 1 = waiters_val n True"
  "waiters_val n e + 2 = waiters_val (Suc n) e" "waiters_val (Suc n) e - 2 = waiters_val n e"
  by (auto simp: waiters_val_def and_one_eq or_one_eq mod_2_eq_odd)

lemma apply_set_error:
  assumes "n < 2 ^ 30" "e \<Longrightarrow> n \<noteq> 0"
  shows "cas_apply set_error_pick (waiters_val n e) = (waiters_val n (n \<noteq> 0), ())"
  using assms by (cases "n = 0") (auto simp: cas_apply_defs sint_waiters waiters_val_bits split: if_splits)

lemma apply_dec_error:
  assumes "Suc n < 2 ^ 30"
  shows "cas_apply dec_error_pick (waiters_val (Suc n) e) = (waiters_val n (e \<and> n \<noteq> 0), if e then - EIO else 0)"
proof -
  have one: "waiters_val n e = 1 \<longleftrightarrow> n = 0 \<and> e"
    using waiters_val_eq_iff [of n 0 e True] assms by (simp add: waiters_val_def)
  have zero: "waiters_val 0 False = 0" by (simp add: waiters_val_def)
  show ?thesis using one zero by (auto simp: cas_apply_defs waiters_val_bits Let_def)
qed

lemma apply_sync_seq: "cas_apply (sync_seq_pick seq) v = (max v seq, v)"
  by (auto simp: cas_apply_defs max_def)

subsection \<open>Every step keeps it\<close>

lemma sgoto_simps [simp]:
  "spc (sgoto t p y) s = (if s = t then p else spc y s)" "waiters (sgoto t p y) = waiters y"
  "seq_ctr (sgoto t p y) = seq_ctr y" "failed (sgoto t p y) = failed y"
  by (simp_all add: sgoto_def)

lemma counted_sgoto: "spc y0 = spc y \<Longrightarrow>
  counted_set (sgoto t p y0) = (if counted p then insert t (counted_set y) else counted_set y - {t})"
  by (auto simp: counted_set_def)

lemma spc_ok_mono: "spc_ok y p \<Longrightarrow> seq_ctr y \<le> seq_ctr y' \<Longrightarrow> spc_ok y' p"
  by (cases p) (auto intro: order_trans)

lemma sync_invD:
  assumes "sync_inv N y"
  shows "counted_set y \<subseteq> {..<N}" "spc_ok y (spc y t)" "finite (counted_set y)" "card (counted_set y) \<le> N"
    "t \<in> failed y \<Longrightarrow> \<not> counted (spc y t) \<Longrightarrow> spc y t = Left (- EIO)"
    "\<exists>e. waiters y = waiters_val (card (counted_set y)) e \<and> (e \<longrightarrow> counted_set y \<noteq> {}) \<and>
       (failed y \<inter> counted_set y \<noteq> {} \<longrightarrow> e)"
proof -
  show c: "counted_set y \<subseteq> {..<N}" using assms by (simp add: sync_inv_def)
  then show "finite (counted_set y)" by (rule finite_subset) simp
  show "card (counted_set y) \<le> N" using card_mono [OF _ c] by simp
qed (use assms in \<open>auto simp: sync_inv_def\<close>)

text \<open>A thread moves on; \<open>e\<close> is the error bit afterwards.\<close>

lemma sync_inv_move:
  assumes "sync_inv N y" "t < N" "spc y0 = spc y" "seq_ctr y \<le> seq_ctr y0" "spc_ok y0 p"
    and "waiters y0 = waiters_val (card (counted_set (sgoto t p y0))) e" "e \<Longrightarrow> counted_set (sgoto t p y0) \<noteq> {}"
    and "failed y0 \<inter> counted_set (sgoto t p y0) \<noteq> {} \<Longrightarrow> e"
    and "\<And>s. s \<in> failed y0 \<Longrightarrow> s \<noteq> t \<Longrightarrow> s \<in> failed y \<or> counted (spc y s)"
    and "t \<in> failed y0 \<Longrightarrow> \<not> counted p \<Longrightarrow> p = Left (- EIO)"
  shows "sync_inv N (sgoto t p y0)"
proof -
  have "spc_ok (sgoto t p y0) (spc (sgoto t p y0) s)" for s
    using sync_invD(2) [OF assms(1), of s] assms(3-5) spc_ok_mono [of y0 p "sgoto t p y0"]
      spc_ok_mono [of y "spc y s" "sgoto t p y0"] by auto
  moreover have "counted_set (sgoto t p y0) \<subseteq> {..<N}"
    using sync_invD(1) [OF assms(1)] assms(2) by (auto simp: counted_sgoto [OF assms(3)])
  moreover have "spc (sgoto t p y0) s = Left (- EIO)" if "s \<in> failed y0" "\<not> counted (spc (sgoto t p y0) s)" for s
    using that assms(3,9,10) sync_invD(5) [OF assms(1), of s] by (auto split: if_splits)
  ultimately show ?thesis unfolding sync_inv_def using assms(6-8) by auto
qed

lemma sync_inv_stay:
  assumes "sync_inv N y" "t < N" "spc y0 = spc y" "seq_ctr y \<le> seq_ctr y0" "waiters y0 = waiters y" "failed y0 = failed y"
    and "spc_ok y0 p" "counted p = counted (spc y t)" "t \<in> failed y \<Longrightarrow> \<not> counted p \<Longrightarrow> p = Left (- EIO)"
  shows "sync_inv N (sgoto t p y0)"
proof -
  have c: "counted_set (sgoto t p y0) = counted_set y"
    using assms(3,8) by (auto simp: counted_sgoto counted_set_def)
  obtain e where "waiters y = waiters_val (card (counted_set y)) e" "e \<longrightarrow> counted_set y \<noteq> {}"
    "failed y \<inter> counted_set y \<noteq> {} \<longrightarrow> e" using sync_invD(6) [OF assms(1)] by blast
  then show ?thesis using assms c by (intro sync_inv_move [of N y t y0 p e]) auto
qed

lemma sync_enter_inv:
  assumes "sync_inv N y" "t < N" "spc y t = Out"
  shows "sync_inv N (sync_enter t seq y)"
proof -
  obtain e where e: "waiters y = waiters_val (card (counted_set y)) e" "e \<longrightarrow> counted_set y \<noteq> {}"
    "failed y \<inter> counted_set y \<noteq> {} \<longrightarrow> e" using sync_invD(6) [OF assms(1)] by blast
  have "t \<notin> counted_set y" "t \<notin> failed y"
    using assms(3) sync_invD(5) [OF assms(1), of t] by (auto simp: counted_set_def)
  then show ?thesis unfolding sync_enter_def using assms e sync_invD(3) [OF assms(1)]
    by (intro sync_inv_move [of N y t _ _ e])
      (auto simp: counted_sgoto [of _ y] atomic_defs waiters_val_bits)
qed

lemma sync_raise_inv:
  assumes "sync_inv N y" "t < N"
  shows "sync_inv N (sync_raise t y)"
proof (cases "spc y t")
  case (Raising seq p)
  have ok: "cas_ok (sync_seq_pick seq) p" "cas_running p" using sync_invD(2) [OF assms(1), of t] Raising by auto
  obtain v p' where st: "cas_step (sync_seq_pick seq) (seq_ctr y) p = (v, p')" by fastforce
  have 1: "sync_inv N (sgoto t (Raising seq p') (y\<lparr>seq_ctr := v\<rparr>))" if "cas_running p'"
    using assms Raising that cas_step_running [OF ok(2) st that] cas_ok_step [OF ok(1) st]
    by (intro sync_inv_stay [of N y]) auto
  have 2: "sync_inv N (sgoto t (Waiting seq) (y\<lparr>seq_ctr := v\<rparr>))" if "p' = Cas_done r" for r
  proof -
    have "v = max (seq_ctr y) seq" using cas_step_done [OF ok(2,1) st [unfolded that]] by (auto simp: apply_sync_seq)
    then show ?thesis using assms Raising by (intro sync_inv_stay [of N y]) auto
  qed
  show ?thesis using Raising st 1 2 by (cases p') (auto simp: sync_raise_def)
qed (use assms in \<open>simp_all add: sync_raise_def\<close>)

text \<open>The thread that leaves takes the error bit with it when it is the last one.\<close>

lemma sync_left_inv:
  assumes "sync_inv N y" "t < N" "N < 2 ^ 30" "counted (spc y t)" "cas_apply dec_error_pick (waiters y) = (v, ret)"
  shows "sync_inv N (sgoto t (Left ret) (y\<lparr>waiters := v\<rparr>))"
proof -
  let ?C = "counted_set y"
  obtain e where e: "waiters y = waiters_val (card ?C) e" "failed y \<inter> ?C \<noteq> {} \<longrightarrow> e"
    using sync_invD(6) [OF assms(1)] by blast
  have t: "t \<in> ?C" using assms(4) by (simp add: counted_set_def)
  then obtain n where n: "card ?C = Suc n" using sync_invD(3) [OF assms(1)] by (metis card_Suc_Diff1)
  then have cn: "card (?C - {t}) = n" using t sync_invD(3) [OF assms(1)] by simp
  have "Suc n < 2 ^ 30" using n sync_invD(4) [OF assms(1)] assms(3) by linarith
  then have v: "v = waiters_val n (e \<and> n \<noteq> 0)" "ret = (if e then - EIO else 0)"
    using assms(5) apply_dec_error [of n e] e(1) n by auto
  have "e \<and> n \<noteq> 0" if f: "failed y \<inter> (?C - {t}) \<noteq> {}"
  proof -
    have "?C - {t} \<noteq> {}" using f by auto
    then have "n \<noteq> 0" using cn sync_invD(3) [OF assms(1)] by (metis card_eq_0_iff finite_Diff)
    then show ?thesis using e(2) f by auto
  qed
  moreover have "n \<noteq> 0 \<Longrightarrow> ?C - {t} \<noteq> {}" using cn by (metis card.empty)
  moreover have "t \<in> failed y \<Longrightarrow> e" using e(2) t by auto
  ultimately show ?thesis using assms v cn
    by (intro sync_inv_move [of N y t _ _ "e \<and> n \<noteq> 0"]) (auto simp: counted_sgoto [of _ y])
qed

lemma sync_leave_inv:
  assumes "sync_inv N y" "t < N" "N < 2 ^ 30"
  shows "sync_inv N (sync_leave t y)"
proof (cases "spc y t")
  case (Waiting seq)
  then show ?thesis using assms by (auto simp: sync_leave_def intro!: sync_inv_stay [of N y])
next
  case (Leaving p)
  have ok: "cas_ok dec_error_pick p" "cas_running p" using sync_invD(2) [OF assms(1), of t] Leaving by auto
  obtain v p' where st: "cas_step dec_error_pick (waiters y) p = (v, p')" by fastforce
  have 1: "sync_inv N (sgoto t (Leaving p') (y\<lparr>waiters := v\<rparr>))" if "cas_running p'"
    using assms Leaving that cas_step_running [OF ok(2) st that] cas_ok_step [OF ok(1) st]
    by (intro sync_inv_stay [of N y]) auto
  have 2: "sync_inv N (sgoto t (Left r) (y\<lparr>waiters := v\<rparr>))" if "p' = Cas_done r" for r
    using sync_left_inv [OF assms, of v r] cas_step_done [OF ok(2,1) st [unfolded that]] Leaving by simp
  show ?thesis using Leaving st 1 2 by (cases p') (auto simp: sync_leave_def)
qed (use assms in \<open>simp_all add: sync_leave_def\<close>)

lemma sync_failed_inv:
  assumes "sync_inv N y" "t < N" "N < 2 ^ 30" "spc y t = Failing p" "cas_apply set_error_pick (waiters y) = (v, ())"
  shows "sync_inv N (sgoto t Out (y\<lparr>waiters := v, failed := failed y \<union> counted_set y\<rparr>))"
proof -
  let ?C = "counted_set y"
  obtain e where e: "waiters y = waiters_val (card ?C) e" "e \<longrightarrow> ?C \<noteq> {}" using sync_invD(6) [OF assms(1)] by blast
  have t: "t \<notin> ?C" "t \<notin> failed y" using assms(4) sync_invD(5) [OF assms(1), of t] by (auto simp: counted_set_def)
  have c: "card ?C = 0 \<longleftrightarrow> ?C = {}" "card ?C < 2 ^ 30" using sync_invD(3,4) [OF assms(1)] assms(3) by auto
  have "v = waiters_val (card ?C) (card ?C \<noteq> 0)"
    using assms(5) apply_set_error [of "card ?C" e] e c by auto
  moreover have "counted_set (sgoto t Out (y\<lparr>waiters := v, failed := failed y \<union> ?C\<rparr>)) = ?C"
    using t by (subst counted_sgoto [of _ y]) auto
  moreover have "s \<in> ?C \<longleftrightarrow> counted (spc y s)" for s by (simp add: counted_set_def)
  ultimately show ?thesis using assms(1-4) t c(1)
    by (intro sync_inv_move [of N y t _ _ "card ?C \<noteq> 0"]) auto
qed

lemma sync_fail_inv:
  assumes "sync_inv N y" "t < N" "N < 2 ^ 30"
  shows "sync_inv N (sync_fail t y)"
proof (cases "spc y t")
  case (Failing p)
  have ok: "cas_ok set_error_pick p" "cas_running p" using sync_invD(2) [OF assms(1), of t] Failing by auto
  obtain v p' where st: "cas_step set_error_pick (waiters y) p = (v, p')" by fastforce
  have "t \<notin> failed y" using Failing sync_invD(5) [OF assms(1), of t] by auto
  then have 1: "sync_inv N (sgoto t (Failing p') (y\<lparr>waiters := v\<rparr>))" if "cas_running p'"
    using assms Failing that cas_step_running [OF ok(2) st that] cas_ok_step [OF ok(1) st]
    by (intro sync_inv_stay [of N y]) auto
  have 2: "sync_inv N (sgoto t Out (y\<lparr>waiters := v, failed := failed y \<union> counted_set y\<rparr>))" if "p' = Cas_done r" for r
    using sync_failed_inv [OF assms Failing, of v] cas_step_done [OF ok(2,1) st [unfolded that]] by simp
  show ?thesis using Failing st 1 2 by (cases p') (auto simp: sync_fail_def counted_set_def)
qed (use assms in \<open>simp_all add: sync_fail_def\<close>)

lemma sync_step_inv:
  assumes "N < 2 ^ 30" "sync_inv N y" "sync_step N y y'"
  shows "sync_inv N y'"
  using assms(3,2)
proof (induction rule: sync_step.induct)
  case (error t y)
  then show ?case using sync_invD(5) [of N y t] by (intro sync_inv_stay [of N y]) auto
next
  case (return t y r)
  let ?y = "y\<lparr>failed := failed y - {t}\<rparr>"
  have "spc_ok ?y (spc y s)" for s using spc_ok_mono [of y "spc y s" ?y] sync_invD(2) [OF return(3)] by simp
  then have "sync_inv N ?y" using return(3) unfolding sync_inv_def counted_set_def by auto
  then show ?case using return by (intro sync_inv_stay [of N ?y]) auto
qed (use assms(1) in \<open>auto intro: sync_enter_inv sync_raise_inv sync_leave_inv sync_fail_inv\<close>)

lemma sync_init_inv: "sync_inv N sync_init"
  by (auto simp: sync_inv_def sync_init_def counted_set_def waiters_val_def intro!: exI [of _ False])

lemma reach_sync_inv:
  assumes "N < 2 ^ 30" "reach (sync_step N) sync_init y"
  shows "sync_inv N y"
  using assms(2) by (induction rule: reach.induct) (auto intro: sync_init_inv sync_step_inv [OF assms(1)])

subsection \<open>The functions of the block cache model\<close>

text \<open>The state of the model that the counters stand for.\<close>

definition sync_abs :: "sync_sys \<Rightarrow> block_info \<Rightarrow> bool" where
  "sync_abs y st \<longleftrightarrow> sync_waiters st = sint (waiters y) \<and> sync_seq st = unat (seq_ctr y)"

lemma model_set_error:
  assumes "n < 2 ^ 30" "e \<Longrightarrow> n \<noteq> 0" "sync_waiters st = sint (waiters_val n e)"
  shows "sync_waiters (sync_waiters_set_error st) = sint (waiters_val n (n \<noteq> 0))"
    "sync_seq (sync_waiters_set_error st) = sync_seq st"
  using assms by (auto simp: sync_waiters_set_error_def sint_waiters or_one_eq Let_def)

lemma model_dec_error:
  assumes "Suc n < 2 ^ 30" "sync_waiters st = sint (waiters_val (Suc n) e)"
  shows "\<exists>st'. sync_waiters_dec_error st = (if e then - EIO else 0, st') \<and>
    sync_waiters st' = sint (waiters_val n (e \<and> n \<noteq> 0)) \<and> sync_seq st' = sync_seq st"
  using assms by (auto simp: sync_waiters_dec_error_def sint_waiters and_one_eq Let_def mod_2_eq_odd)

text \<open>What a step does to the model: nothing, or one of the operations as a whole.\<close>

inductive sync_model :: "block_info \<Rightarrow> sync_pc \<Rightarrow> sync_pc \<Rightarrow> block_info \<Rightarrow> bool" where
  stutter: "sync_model st p p' st"
| inc: "sync_model st Out (Raising seq Cas_read) (sync_waiters_inc st)"
| raised: "sync_model st (Raising seq c) (Waiting seq) (st\<lparr>sync_seq := max (sync_seq st) (unat seq)\<rparr>)"
| error: "sync_model st (Failing c) Out (sync_waiters_set_error st)"
| left: "sync_waiters_dec_error st = (ret, st') \<Longrightarrow> sync_model st (Leaving c) (Left ret) st'"

lemma refine_enter:
  assumes "N < 2 ^ 30" "sync_inv N y" "t < N" "spc y t = Out" "sync_abs y st"
  shows "sync_abs (sync_enter t seq y) (sync_waiters_inc st)"
proof -
  let ?C = "counted_set y"
  obtain e where e: "waiters y = waiters_val (card ?C) e" using sync_invD(6) [OF assms(2)] by blast
  have "t \<notin> ?C" "insert t ?C \<subseteq> {..<N}" using sync_invD(1) [OF assms(2)] assms(3,4) by (auto simp: counted_set_def)
  then have "Suc (card ?C) \<le> N"
    using card_mono [of "{..<N}" "insert t ?C"] sync_invD(3) [OF assms(2)] by simp
  then show ?thesis using assms(1,5) e
    by (simp add: sync_abs_def sync_enter_def atomic_defs waiters_val_bits sync_waiters_inc_def sint_waiters)
qed

lemma refine_raise:
  assumes "sync_inv N y" "sync_abs y st"
  shows "\<exists>st'. sync_abs (sync_raise t y) st' \<and> sync_model st (spc y t) (spc (sync_raise t y) t) st'"
proof (cases "spc y t")
  case (Raising seq p)
  have ok: "cas_ok (sync_seq_pick seq) p" "cas_running p" using sync_invD(2) [OF assms(1), of t] Raising by auto
  obtain v p' where st: "cas_step (sync_seq_pick seq) (seq_ctr y) p = (v, p')" by fastforce
  show ?thesis
  proof (cases "cas_running p'")
    case True
    then have "sync_abs (sync_raise t y) st"
      using assms(2) Raising st cas_step_running [OF ok(2) st True] by (simp add: sync_raise_def sync_abs_def)
    then show ?thesis by (blast intro: sync_model.stutter)
  next
    case False
    then obtain r where "p' = Cas_done r" by (cases p') auto
    then have v: "v = max (seq_ctr y) seq" using cas_step_done [OF ok(2,1)] st by (auto simp: apply_sync_seq)
    let ?st = "st\<lparr>sync_seq := max (sync_seq st) (unat seq)\<rparr>"
    have "sync_abs (sync_raise t y) ?st" "spc (sync_raise t y) t = Waiting seq"
      using assms(2) Raising st False v by (auto simp: sync_raise_def sync_abs_def max_def word_le_nat_alt)
    then show ?thesis using sync_model.raised [of st seq p] Raising by (intro exI [of _ ?st]) simp
  qed
qed (use assms in \<open>auto simp: sync_raise_def intro!: exI [of _ st] sync_model.stutter\<close>)

lemma refine_leave:
  assumes "N < 2 ^ 30" "sync_inv N y" "sync_abs y st"
  shows "\<exists>st'. sync_abs (sync_leave t y) st' \<and> sync_model st (spc y t) (spc (sync_leave t y) t) st'"
proof (cases "spc y t")
  case (Leaving p)
  let ?C = "counted_set y"
  have ok: "cas_ok dec_error_pick p" "cas_running p" using sync_invD(2) [OF assms(2), of t] Leaving by auto
  obtain v p' where st: "cas_step dec_error_pick (waiters y) p = (v, p')" by fastforce
  show ?thesis
  proof (cases "cas_running p'")
    case True
    then have "sync_abs (sync_leave t y) st"
      using assms(3) Leaving st cas_step_running [OF ok(2) st True]
      by (cases p') (simp_all add: sync_leave_def sync_abs_def)
    then show ?thesis by (blast intro: sync_model.stutter)
  next
    case False
    then obtain r where r: "p' = Cas_done r" by (cases p') auto
    obtain e where e: "waiters y = waiters_val (card ?C) e" using sync_invD(6) [OF assms(2)] by blast
    have t: "t \<in> ?C" using Leaving by (simp add: counted_set_def)
    then obtain n where n: "card ?C = Suc n" using sync_invD(3) [OF assms(2)] by (metis card_Suc_Diff1)
    have b: "Suc n < 2 ^ 30" using n sync_invD(4) [OF assms(2)] assms(1) by linarith
    have v: "v = waiters_val n (e \<and> n \<noteq> 0)" "r = (if e then - EIO else 0)"
      using cas_step_done [OF ok(2,1) st [unfolded r]] apply_dec_error [OF b, of e] e n by auto
    obtain st' where st': "sync_waiters_dec_error st = (r, st')" "sync_waiters st' = sint v" "sync_seq st' = sync_seq st"
      using model_dec_error [OF b, of st e] assms(3) e n v by (auto simp: sync_abs_def)
    then have "sync_abs (sync_leave t y) st'" "spc (sync_leave t y) t = Left r"
      using assms(3) Leaving st r by (simp_all add: sync_leave_def sync_abs_def)
    then show ?thesis using sync_model.left [OF st'(1), of p] Leaving by (intro exI [of _ st']) simp
  qed
qed (use assms in \<open>auto simp: sync_leave_def sync_abs_def intro!: exI [of _ st] sync_model.stutter\<close>)

lemma refine_fail:
  assumes "N < 2 ^ 30" "sync_inv N y" "sync_abs y st"
  shows "\<exists>st'. sync_abs (sync_fail t y) st' \<and> sync_model st (spc y t) (spc (sync_fail t y) t) st'"
proof (cases "spc y t")
  case (Failing p)
  let ?C = "counted_set y"
  have ok: "cas_ok set_error_pick p" "cas_running p" using sync_invD(2) [OF assms(2), of t] Failing by auto
  obtain v p' where st: "cas_step set_error_pick (waiters y) p = (v, p')" by fastforce
  show ?thesis
  proof (cases "cas_running p'")
    case True
    then have "sync_abs (sync_fail t y) st"
      using assms(3) Failing st cas_step_running [OF ok(2) st True] by (simp add: sync_fail_def sync_abs_def)
    then show ?thesis by (blast intro: sync_model.stutter)
  next
    case False
    then obtain r where r: "p' = Cas_done r" by (cases p') auto
    obtain e where e: "waiters y = waiters_val (card ?C) e" "e \<longrightarrow> ?C \<noteq> {}" using sync_invD(6) [OF assms(2)] by blast
    have b: "card ?C < 2 ^ 30" "e \<Longrightarrow> card ?C \<noteq> 0" using e sync_invD(3,4) [OF assms(2)] assms(1) by auto
    have v: "v = waiters_val (card ?C) (card ?C \<noteq> 0)"
      using cas_step_done [OF ok(2,1) st [unfolded r]] apply_set_error [OF b] e(1) by simp
    have "sync_abs (sync_fail t y) (sync_waiters_set_error st)" "spc (sync_fail t y) t = Out"
      using assms(3) Failing st False v e(1) model_set_error [where st = st, OF b] by (auto simp: sync_fail_def sync_abs_def)
    then show ?thesis using sync_model.error [of st p] Failing by (intro exI [of _ "sync_waiters_set_error st"]) simp
  qed
qed (use assms in \<open>auto simp: sync_fail_def intro!: exI [of _ st] sync_model.stutter\<close>)

subsection \<open>Properties\<close>

text \<open>C29: The atomic steps of the sync functions refine the block cache model.  In every interleaving
  of fewer than 2^30 threads, a step of a thread leaves the state of the model alone or does to it
  what \<open>sync_waiters_inc\<close>, \<open>sync_waiters_set_error\<close>, the raising of \<open>sync_seq\<close> or
  \<open>sync_waiters_dec_error\<close> does as a whole, with the same result.\<close>

theorem sync_steps_refine:
  assumes "N < 2 ^ 30" "reach (sync_step N) sync_init y" "sync_step N y y'" "sync_abs y st"
  shows "\<exists>st' t. sync_abs y' st' \<and> sync_model st (spc y t) (spc y' t) st'"
proof -
  have inv: "sync_inv N y" by (rule reach_sync_inv [OF assms(1,2)])
  show ?thesis using assms(3) inv assms(4)
  proof (induction rule: sync_step.induct)
    case (enter t y seq)
    have "spc (sync_enter t seq y) t = Raising seq Cas_read" by (simp add: sync_enter_def)
    then show ?case using refine_enter [OF assms(1) enter(3,1,2,4), of seq] sync_model.inc [of st seq] enter(2) by metis
  next
    case (raise t y)
    then show ?case using refine_raise by blast
  next
    case (leave t y)
    then show ?case using refine_leave [OF assms(1)] by blast
  next
    case (fail t y)
    then show ?case using refine_fail [OF assms(1)] by blast
  qed (auto simp: sync_abs_def intro!: exI [of _ st] sync_model.stutter)
qed

text \<open>C20: A write error reaches every task that is in a sync.  In every interleaving of fewer than 2^30
  threads, a thread that was counted as a waiter when an error was recorded returns \<open>-EIO\<close> from its
  sync; once no thread is counted the counter is 0, so the error is forgotten; and a thread waits
  only after \<open>sync_seq\<close> has reached its sequence number.\<close>

theorem sync_error_reaches_waiters:
  assumes "N < 2 ^ 30" "reach (sync_step N) sync_init y"
  shows "(t \<in> failed y \<and> spc y t = Left ret \<longrightarrow> ret = - EIO) \<and>
    ((\<forall>s. \<not> counted (spc y s)) \<longrightarrow> waiters y = 0) \<and> (spc y t = Waiting seq \<longrightarrow> seq \<le> seq_ctr y)"
proof -
  have inv: "sync_inv N y" by (rule reach_sync_inv [OF assms])
  have "waiters y = 0" if "\<forall>s. \<not> counted (spc y s)"
    using sync_invD(6) [OF inv] that by (auto simp: counted_set_def waiters_val_def)
  then show ?thesis using sync_invD(5) [OF inv, of t] sync_invD(2) [OF inv, of t] by auto
qed

text \<open>Thread 0 is in a sync when thread 1 records an error.\<close>

definition example_raised :: sync_sys where
  "example_raised = sync_raise 0 (sync_raise 0 (sync_enter 0 5 sync_init))"

definition example_failed :: sync_sys where
  "example_failed = sync_fail 1 (sync_fail 1 (sgoto 1 (Failing Cas_read) example_raised))"

definition example_left :: sync_sys where
  "example_left = sync_leave 0 (sync_leave 0 (sync_leave 0 example_failed))"

lemmas example_sync_defs = example_left_def example_failed_def example_raised_def sync_init_def sync_enter_def
  sync_raise_def sync_fail_def sync_leave_def sgoto_def atomic_defs set_error_pick_def dec_error_pick_def sync_seq_pick_def

lemma example_reach: "reach (sync_step 2) sync_init example_failed" "reach (sync_step 2) sync_init example_left"
proof -
  note st = reach.step [where step = "sync_step 2"]
  have "reach (sync_step 2) sync_init example_raised"
    unfolding example_raised_def by (intro st [OF st [OF st [OF reach.start sync_step.enter] sync_step.raise] sync_step.raise])
      (simp_all add: sync_init_def)
  moreover have "spc example_raised 1 = Out" by (simp add: example_sync_defs)
  ultimately have "reach (sync_step 2) sync_init (sgoto 1 (Failing Cas_read) example_raised)"
    by (intro st [OF _ sync_step.error]) simp_all
  then show f: "reach (sync_step 2) sync_init example_failed"
    unfolding example_failed_def by (intro st [OF st [OF _ sync_step.fail] sync_step.fail]) simp_all
  then show "reach (sync_step 2) sync_init example_left"
    unfolding example_left_def by (intro st [OF st [OF st [OF _ sync_step.leave] sync_step.leave] sync_step.leave]) simp_all
qed

theorem sync_error_reaches_waiters_witness:
  "spc example_left 0 = Left (- EIO) \<and> 0 \<in> failed example_left \<and> waiters example_left = 0"
proof -
  have "spc example_left s = (if s = 0 then Left (- EIO) else Out)" for s by (simp add: example_sync_defs)
  moreover have "0 \<in> failed example_left" by (simp add: example_sync_defs)
  ultimately show ?thesis using sync_error_reaches_waiters [OF _ example_reach(2), of 0 "- EIO" 0] by simp
qed

theorem sync_steps_refine_witness:
  "\<exists>st' t. sync_abs (sync_leave 0 example_failed) st' \<and>
     sync_model (init_block_info 1\<lparr>sync_waiters := 3, sync_seq := 5\<rparr>) (spc example_failed t)
       (spc (sync_leave 0 example_failed) t) st'"
proof (rule sync_steps_refine [OF _ example_reach(1)])
  show "sync_step 2 example_failed (sync_leave 0 example_failed)" by (rule sync_step.leave) simp
  show "sync_abs example_failed (init_block_info 1\<lparr>sync_waiters := 3, sync_seq := 5\<rparr>)"
    by (simp add: sync_abs_def example_sync_defs)
qed simp

end
