(* ===== verification/Block_Round.thy ===== *)
theory Block_Round
  imports Txn_Props
begin

text \<open>
  One block from a get or a sync to its completion.  While a caller waits, the work queue runs the
  works that are queued, in order, and the transport completes the request they submit; the lemmas
  say what the cache then is.
\<close>

unbundle bit_operations_syntax

text \<open>The queued works; a writeback work that waits for a dirtying set holds up the queue.\<close>

definition run_works :: "block_info \<Rightarrow> block_info run" where
  "run_works c =
     bind_run (if writeback_queued c
               then bind_run (ngnfs_block_writeback_work c) (\<lambda>(s, c). case s of None \<Rightarrow> Ret c | Some _ \<Rightarrow> Spin)
               else Ret c)
       (\<lambda>c. if submit_queued c then ngnfs_block_submit_work (\<lambda>_ _. 0) c else Ret c)"

text \<open>Nothing is under way and the transport takes another request.\<close>

definition quiet :: "block_info \<Rightarrow> bool" where
  "quiet st \<longleftrightarrow> submit_list st = [] \<and> submit_llist st = [] \<and> writeback_list st = [] \<and> writeback_llist st = [] \<and>
     in_transport st = [] \<and> \<not> writeback_queued st \<and> \<not> submit_queued st \<and> nr_submitted st < queue_depth st \<and>
     0 < queue_depth st \<and> nr_writeback st = 0 \<and> nr_dirty st < WRITEBACK_THRESH - 1 \<and> sync_waiters st = 0 \<and>
     writeback_seq st = dirty_seq st \<and> sync_seq st \<le> dirty_seq st"

text \<open>A cached block nobody reads and that is in no set.\<close>

definition block_idle :: "block_info \<Rightarrow> u64 \<Rightarrow> bid \<Rightarrow> bool" where
  "block_idle st bnr b \<longleftrightarrow> block_ready st bnr b \<and> bl_set (blocks st b) = None \<and> \<not> BL_READING (blocks st b) \<and>
     bl_bnr (blocks st b) = bnr"

lemma init_quiet: "0 < depth \<Longrightarrow> quiet (init_block_info depth)"
  by (simp add: quiet_def init_block_info_def)

subsection \<open>Reading\<close>

text \<open>The cache after a block was read with \<open>page\<close> as its content, in the slot \<open>next_block\<close>.\<close>

definition read_done :: "block_info \<Rightarrow> u64 \<Rightarrow> mem \<Rightarrow> block_info" where
  "read_done st bnr page = st\<lparr>ht := (bnr, next_block st) # ht st, next_block := Suc (next_block st),
     nr_submitted := nr_submitted st + 1,
     blocks := (blocks st)(next_block st := (new_block bnr)\<lparr>bl_refcount := 2, BL_UPTODATE := True, bl_page := page\<rparr>)\<rparr>"

lemma get_round:
  assumes "quiet st" "map_of (ht st) bnr = None" "\<not> bad_nbf nbf" "nbf AND NBF_NEW = 0"
  obtains st1 st2 pg where "ngnfs_block_get True st bnr nbf = Ret (Get_wait (next_block st), st1)" "in_transport st1 = []"
    "run_works st1 = Ret st2" "in_transport st2 = [(NGNFS_BTX_OP_GET_READ, bnr, pg)]"
    "\<forall>page. ngnfs_block_end_io st2 bnr (Some page) 0 = Ret (read_done st bnr page)"
proof -
  let ?b = "next_block st"
  define st1 where "st1 = st\<lparr>ht := (bnr, ?b) # ht st, next_block := Suc ?b, submit_llist := [?b], submit_queued := True,
     blocks := (blocks st)(?b := (new_block bnr)\<lparr>bl_refcount := 3, BL_READING := True\<rparr>)\<rparr>"
  define st2 where "st2 = st1\<lparr>submit_llist := [], submit_queued := False, nr_submitted := nr_submitted st + 1,
     in_transport := [(NGNFS_BTX_OP_GET_READ, bnr, \<lambda>_. 0)],
     blocks := (blocks st)(?b := (new_block bnr)\<lparr>bl_refcount := 2, BL_READING := True\<rparr>)\<rparr>"
  show thesis
  proof (rule that)
    show "ngnfs_block_get True st bnr nbf = Ret (Get_wait ?b, st1)"
      using assms by (simp add: quiet_def ngnfs_block_get_def lookup_or_alloc_block_def lookup_block_def alloc_block_def
        get_block_def upd_block_def new_block_def llist_add_submit_def try_queue_submit_work_def st1_def)
    show "run_works st1 = Ret st2"
      using assms by (simp add: quiet_def run_works_def st1_def st2_def ngnfs_block_submit_work_def
        del_all_reverse_add_tail_def put_block_def upd_block_def new_block_def)
    show "in_transport st1 = []" "in_transport st2 = [(NGNFS_BTX_OP_GET_READ, bnr, \<lambda>_. 0)]"
      using assms by (simp_all add: st1_def st2_def quiet_def)
    show "\<forall>page. ngnfs_block_end_io st2 bnr (Some page) 0 = Ret (read_done st bnr page)"
      using assms by (simp add: quiet_def ngnfs_block_end_io_def transport_done_def lookup_block_def st1_def st2_def
        read_done_def get_block_def upd_block_def new_block_def end_read_io_def put_block_def)
  qed
qed

lemma read_done_idle:
  assumes "quiet st"
  shows "block_idle (read_done st bnr page) bnr (next_block st)"
    "ngnfs_block_buf (read_done st bnr page) (next_block st) = page"
    "block_get_finish (read_done st bnr page) (next_block st) = Ret (Inr (next_block st), read_done st bnr page)"
    "\<not> BL_READING (blocks (read_done st bnr page) (next_block st))"
    "bl_refcount (blocks (read_done st bnr page) (next_block st)) = 2"
    "nr_submitted st + 1 < queue_depth st \<Longrightarrow> quiet (read_done st bnr page)"
  using assms by (simp_all add: read_done_def block_idle_def block_ready_def quiet_def ngnfs_block_buf_def new_block_def
      block_get_finish_def)

subsection \<open>Writing\<close>

text \<open>A dirtied block, from the sync to its end: when the caller waits, when its works have run and when
  the write has ended.  The set keeps the reference its block had, so it is not freed, and a transport
  that reports an error for the write stops the process.\<close>

definition syncing :: "block_info \<Rightarrow> bid \<Rightarrow> mem \<Rightarrow> block_info" where
  "syncing g b page = (dirtied True g b page)\<lparr>sync_waiters := 2, sync_seq := dirty_seq g + 1\<rparr>"

definition writing :: "block_info \<Rightarrow> u64 \<Rightarrow> bid \<Rightarrow> mem \<Rightarrow> block_info" where
  "writing g bnr b page = (syncing g b page)\<lparr>writeback_llist := [], writeback_queued := False, submit_queued := False,
     nr_writeback := 1, writeback_seq := dirty_seq g + 1, nr_submitted := nr_submitted g + 1,
     sets := (sets g)(next_set g := \<lparr>set_refcount = 2, submitted_blocks = 1, block_list = [b],
       set_dirty_seq = dirty_seq g + 1, SET_DIRTYING = False, SET_DIRTY = True, SET_WRITEBACK = True, set_size = 1,
       set_freed = False\<rparr>), in_transport := [(NGNFS_BTX_OP_WRITE, bnr, page)]\<rparr>"

definition written :: "block_info \<Rightarrow> u64 \<Rightarrow> bid \<Rightarrow> mem \<Rightarrow> block_info" where
  "written g bnr b page = (writing g bnr b page)\<lparr>nr_writeback := 0, nr_dirty := nr_dirty (syncing g b page) - 1, in_transport := [],
     sets := (sets g)(next_set g := \<lparr>set_refcount = 1, submitted_blocks = 0, block_list = [],
       set_dirty_seq = dirty_seq g + 1, SET_DIRTYING = False, SET_DIRTY = True, SET_WRITEBACK = False, set_size = 0,
       set_freed = False\<rparr>),
     blocks := (blocks g)(b := (blocks g b)\<lparr>bl_set := None, BL_DIRTY := True, bl_page := page\<rparr>)\<rparr>"

lemmas write_states = written_def writing_def syncing_def dirtied_def

lemma same_refcount:
  "bl\<lparr>bl_set := x, BL_DIRTY := y, bl_page := z, bl_refcount := bl_refcount bl\<rparr> = bl\<lparr>bl_set := x, BL_DIRTY := y, bl_page := z\<rparr>"
  by (cases bl) simp

lemma sync_dirtied: "quiet g \<Longrightarrow> ngnfs_block_sync (dirtied q g b page) = (dirty_seq g + 1, syncing g b page)"
  by (simp add: quiet_def ngnfs_block_sync_def sync_up_to_seq_def sync_waiters_inc_def
      try_queue_writeback_work_def should_writeback_def syncing_def dirtied_def)

lemma works_write:
  assumes "quiet g" "block_idle g bnr b"
  shows "run_works (syncing g b page) = Ret (writing g bnr b page)"
proof -
  have r: "0 < bl_refcount (blocks g b)" using assms(2) by (simp add: block_idle_def block_ready_def)
  define st where "st = (writing g bnr b page)\<lparr>submit_llist := [b], submit_queued := True, nr_submitted := nr_submitted g,
     blocks := (blocks (syncing g b page))(b := (blocks (syncing g b page) b)\<lparr>bl_refcount := bl_refcount (blocks g b) + 1\<rparr>),
     in_transport := []\<rparr>"
  have "ngnfs_block_writeback_work (syncing g b page) = Ret (None, st)"
    using assms by (simp add: quiet_def ngnfs_block_writeback_work_def del_all_reverse_add_tail_def write_states st_def
      should_writeback_def upd_set_def writeback_set_def get_set_def get_block_def upd_block_def
      llist_add_submit_def try_queue_submit_work_def put_set_def)
  moreover have "ngnfs_block_submit_work (\<lambda>_ _. 0) st = Ret (writing g bnr b page)"
    using assms r by (simp add: quiet_def block_idle_def ngnfs_block_submit_work_def del_all_reverse_add_tail_def put_block_def
      upd_block_def write_states st_def same_refcount)
  ultimately show ?thesis by (simp add: run_works_def syncing_def dirtied_def st_def)
qed

text \<open>The block that the completion has found.\<close>

definition completing :: "block_info \<Rightarrow> u64 \<Rightarrow> bid \<Rightarrow> mem \<Rightarrow> block_info" where
  "completing g bnr b page = (writing g bnr b page)\<lparr>in_transport := [],
     blocks := (blocks (syncing g b page))(b := (blocks (syncing g b page) b)\<lparr>bl_refcount := bl_refcount (blocks g b) + 1\<rparr>)\<rparr>"

lemma lookup_writing:
  "block_idle g bnr b \<Longrightarrow> lookup_block (transport_done (writing g bnr b page) bnr) bnr = (Some b, completing g bnr b page)"
  by (simp add: block_idle_def block_ready_def lookup_block_def transport_done_def get_block_def upd_block_def completing_def
      write_states)

lemma completing_block:
  assumes "block_idle g bnr b"
  shows "bl_set (blocks (completing g bnr b page) b) = Some (next_set g)" "\<not> BL_ERROR (blocks (completing g bnr b page) b)"
    "\<not> BL_READING (blocks (completing g bnr b page) b)" "nr_writeback (completing g bnr b page) = 1"
  using assms by (simp_all add: completing_def write_states block_idle_def block_ready_def)

lemma end_write_completing:
  assumes "quiet g" "block_idle g bnr b"
  shows "end_write_io (completing g bnr b page) b = Ret ((written g bnr b page)\<lparr>blocks :=
    (blocks g)(b := (blocks g b)\<lparr>bl_set := None, BL_DIRTY := True, bl_page := page, bl_refcount := bl_refcount (blocks g b) + 1\<rparr>)\<rparr>)"
proof -
  let ?s = "next_set g" and ?st = "completing g bnr b page"
  have "nr_dirty (syncing g b page) < 256" using assms(1) by (simp add: write_states quiet_def)
  then have q: "try_queue_writeback_work (?st\<lparr>nr_writeback := 0\<rparr>) = ?st\<lparr>nr_writeback := 0\<rparr>"
    by (simp add: try_queue_writeback_work_def should_writeback_def completing_def writing_def syncing_def)
  have s: "sets ?st = (sets g)(?s := \<lparr>set_refcount = 2, submitted_blocks = 1, block_list = [b],
     set_dirty_seq = dirty_seq g + 1, SET_DIRTYING = False, SET_DIRTY = True, SET_WRITEBACK = True, set_size = 1,
     set_freed = False\<rparr>)" by (simp add: completing_def writing_def)
  define st where "st = ?st\<lparr>nr_writeback := 0, nr_dirty := nr_dirty ?st - 1, blocks := (blocks ?st)(b := (blocks ?st b)\<lparr>bl_set := None\<rparr>),
     sets := (sets g)(?s := \<lparr>set_refcount = 1, submitted_blocks = 0, block_list = [],
       set_dirty_seq = dirty_seq g + 1, SET_DIRTYING = False, SET_DIRTY = True, SET_WRITEBACK = False, set_size = 0,
       set_freed = False\<rparr>)\<rparr>"
  have "end_write_io ?st b = Ret st"
    using completing_block [OF assms(2), of page] s q
    by (simp add: end_write_io_def upd_set_def upd_block_def put_set_def Let_def st_def)
  moreover have "st = (written g bnr b page)\<lparr>blocks := (blocks g)(b := (blocks g b)\<lparr>bl_set := None, BL_DIRTY := True,
      bl_page := page, bl_refcount := bl_refcount (blocks g b) + 1\<rparr>)\<rparr>"
    by (cases "blocks g b") (simp add: st_def completing_def write_states)
  ultimately show ?thesis by simp
qed

lemma end_io_writing:
  assumes "quiet g" "block_idle g bnr b"
  shows "ngnfs_block_end_io (writing g bnr b page) bnr pg 0 = Ret (written g bnr b page)"
    "err < 0 \<Longrightarrow> ngnfs_block_end_io (writing g bnr b page) bnr pg err = Bug"
proof -
  note l = lookup_writing [OF assms(2), of page] and c = completing_block [OF assms(2), of page]
  have r: "0 < bl_refcount (blocks g b)" using assms(2) by (simp add: block_idle_def block_ready_def)
  have "put_block ((written g bnr b page)\<lparr>blocks := (blocks g)(b := (blocks g b)\<lparr>bl_set := None, BL_DIRTY := True, bl_page := page,
      bl_refcount := bl_refcount (blocks g b) + 1\<rparr>)\<rparr>) b = Ret (written g bnr b page)"
    using r by (simp add: put_block_def upd_block_def written_def same_refcount)
  then show "ngnfs_block_end_io (writing g bnr b page) bnr pg 0 = Ret (written g bnr b page)"
    using l c(3) end_write_completing [OF assms, of page] by (simp add: ngnfs_block_end_io_def)
  show "ngnfs_block_end_io (writing g bnr b page) bnr pg err = Bug" if "err < 0"
    using that l c(1,3) by (simp add: ngnfs_block_end_io_def sync_waiters_set_error_def upd_block_def end_write_io_def Let_def)
qed

lemma sync_written:
  assumes "quiet g"
  shows "sync_woken (written g bnr b page) (dirty_seq g + 1)"
    "sync_finish (written g bnr b page) = (0, (written g bnr b page)\<lparr>sync_waiters := 0\<rparr>)"
  using assms by (simp_all add: write_states quiet_def sync_woken_def sync_finish_def sync_waiters_dec_error_def)

lemma written_idle:
  fixes page :: mem
  assumes "quiet g" "block_idle g bnr b"
  defines "st \<equiv> (written g bnr b page)\<lparr>sync_waiters := 0\<rparr>"
  shows "block_idle st bnr b" "ngnfs_block_buf st b = page" "nr_submitted g + 1 < queue_depth g \<Longrightarrow> quiet st"
    "set_refcount (sets st (next_set g)) = 1"
  using assms by (simp_all add: st_def write_states quiet_def block_idle_def block_ready_def ngnfs_block_buf_def)

lemma in_transport_write:
  "quiet g \<Longrightarrow> in_transport (syncing g b page) = []" "in_transport (writing g bnr b page) = [(NGNFS_BTX_OP_WRITE, bnr, page)]"
  by (simp_all add: syncing_def dirtied_def quiet_def writing_def)

end
