(* ===== verification/Pfs.thy ===== *)
theory Pfs
  imports Txn Btree_Block
begin

text \<open>
  File system operations as transactions, \<open>shared/pfs.c\<close>, and the two commands of
  \<open>cli/debugfs.c\<close> that call them.  An inode is the 88 bytes of \<open>struct ngnfs_inode\<close>; the
  arguments \<open>'a\<close> of the transactions are those of \<open>ngnfs_pfs_read_inode\<close>: the lookup's
  result and the bytes it put into the caller's buffer.
\<close>

unbundle bit_operations_syntax

definition NGNFS_IBLOCK_KEY_INODE :: u8 where [simp]: "NGNFS_IBLOCK_KEY_INODE = 0"
definition NGNFS_ROOT_INO :: u64 where [simp]: "NGNFS_ROOT_INO = 1"
definition sizeof_inode :: nat where [simp]: "sizeof_inode = 88"

definition map_iblock :: "u64 \<Rightarrow> int \<times> u64" where
  "map_iblock ino = (0, ino)"

text \<open>The stores into the allocated inode; the other bytes keep what the allocation held.\<close>

definition mkfs_inode :: "mem \<Rightarrow> u64 \<Rightarrow> u64 \<Rightarrow> mem" where
  "mkfs_inode junk root_ino nsec =
     (let m = put_unaligned_le64 (unat root_ino) junk 0;
          m = put_unaligned_le64 1 m 8;
          m = put_unaligned_le32 1 m 32;
          m = put_unaligned_le32 493 m 44;
          m = put_unaligned_le64 (unat nsec) m 56;
          m = put_unaligned_le64 (get_unaligned_le64 m 56) m 64;
          m = put_unaligned_le64 (get_unaligned_le64 m 56) m 72
      in put_unaligned_le64 (get_unaligned_le64 m 56) m 80)"

definition commit_mkfs :: "mem \<Rightarrow> mem \<Rightarrow> 'a \<Rightarrow> (mem \<times> 'a) run" where
  "commit_mkfs ninode page w =
     bind_run (ngnfs_btree_insert (ngnfs_btree_init_block page 0) [NGNFS_IBLOCK_KEY_INODE] (bytes ninode 0 sizeof_inode))
       (\<lambda>(ret, bt). BUG_ON (ret \<noteq> 0) (Ret (bt, w)))"

text \<open>
  \<open>kmalloc\<close> is the content of the allocated inode, None when there is no memory;
  \<open>add_ok\<close> says whether the transaction block is allocated, the other arguments are those of
  the execution.
\<close>

definition ngnfs_pfs_mkfs ::
    "mem option \<Rightarrow> bool \<Rightarrow> nat \<Rightarrow> (nat \<Rightarrow> bool) \<Rightarrow> nat option \<Rightarrow> env \<Rightarrow> u64 \<Rightarrow> u64 \<Rightarrow> 'a txn \<Rightarrow> block_info \<Rightarrow> 'a \<Rightarrow>
     (int \<times> 'a txn \<times> block_info \<times> 'a) run" where
  "ngnfs_pfs_mkfs kmalloc add_ok fuel ok km env root_ino nsec txn st w =
     (case kmalloc of
        None \<Rightarrow> Ret (- ENOMEM, txn, st, w)
      | Some junk \<Rightarrow>
          (let ninode = mkfs_inode junk root_ino nsec;
               (ret, bnr) = map_iblock root_ino
           in if ret \<noteq> 0 then Ret (ret, txn, st, w)
              else
                (let (ret, txn) = ngnfs_txn_add_block add_ok bnr NBF_WRITE None (Some (commit_mkfs ninode)) txn
                 in if ret \<noteq> 0 then Ret (ret, txn, st, w)
                    else ngnfs_txn_execute fuel ok km env txn st w)))"

type_synonym read_inode_args = "int \<times> u8 list"

definition prepare_read_inode :: "nat \<Rightarrow> mem \<Rightarrow> read_inode_args \<Rightarrow> (int \<times> read_inode_args) run" where
  "prepare_read_inode buf_size page args =
     bind_run (ngnfs_btree_lookup page [NGNFS_IBLOCK_KEY_INODE] buf_size) (\<lambda>res. Ret (0, res))"

definition ngnfs_pfs_read_inode ::
    "bool \<Rightarrow> nat \<Rightarrow> (nat \<Rightarrow> bool) \<Rightarrow> nat option \<Rightarrow> env \<Rightarrow> u64 \<Rightarrow> nat \<Rightarrow> read_inode_args txn \<Rightarrow> block_info \<Rightarrow>
     (int \<times> u8 list \<times> read_inode_args txn \<times> block_info) run" where
  "ngnfs_pfs_read_inode add_ok fuel ok km env ino buf_size txn st =
     (let (ret, bnr) = map_iblock ino
      in bind_run
           (if ret \<noteq> 0 then Ret (ret, txn, st, (0, []))
            else
              (let (ret, txn) = ngnfs_txn_add_block add_ok bnr NBF_READ (Some (prepare_read_inode buf_size)) None txn
               in if ret \<noteq> 0 then Ret (ret, txn, st, (0, []))
                  else ngnfs_txn_execute fuel ok km env txn st (0, [])))
           (\<lambda>(ret, txn, st, (args_ret, buf)).
              bind_run (ngnfs_txn_destroy txn st) (\<lambda>(txn, st).
                Ret (if ret \<noteq> 0 then ret else args_ret, buf, txn, st))))"

subsection \<open>cli/debugfs.c\<close>

text \<open>What the commands print: an error, a buffer that is too small, or the fields of the inode.\<close>

datatype cmd_output =
    Mkfs_error int
  | Sync_error int
  | Mkfs_done
  | Stat_error int
  | Stat_too_small int
  | Stat_print "nat list"

definition stat_fields :: "u8 list \<Rightarrow> nat list" where
  "stat_fields buf =
     (let m = write_bytes (\<lambda>_. 0) 0 buf
      in [get_unaligned_le64 m 0, get_unaligned_le64 m 8, get_unaligned_le32 m 32, get_unaligned_le32 m 44,
          get_unaligned_le64 m 56, get_unaligned_le64 m 64, get_unaligned_le64 m 72, get_unaligned_le64 m 80])"

text \<open>\<open>ngnfs_block_sync\<close> until it returns; \<open>env\<close> is what the other threads do meanwhile.\<close>

definition block_sync_wait :: "(block_info \<Rightarrow> block_info) \<Rightarrow> block_info \<Rightarrow> (int \<times> block_info) run" where
  "block_sync_wait env st =
     (let (seq, st) = ngnfs_block_sync st;
          st = env st
      in if sync_woken st seq then Ret (sync_finish st) else Spin)"

definition cmd_mkfs ::
    "(block_info \<Rightarrow> block_info) \<Rightarrow> mem option \<Rightarrow> bool \<Rightarrow> nat \<Rightarrow> (nat \<Rightarrow> bool) \<Rightarrow> nat option \<Rightarrow> env \<Rightarrow> u64 \<Rightarrow> block_info \<Rightarrow>
     (cmd_output \<times> block_info) run" where
  "cmd_mkfs sync_env kmalloc add_ok fuel ok km env nsec st =
     bind_run (ngnfs_pfs_mkfs kmalloc add_ok fuel ok km env NGNFS_ROOT_INO nsec ngnfs_txn_init st ()) (\<lambda>(ret, txn, st, _).
       bind_run (ngnfs_txn_destroy txn st) (\<lambda>(txn, st).
         if ret < 0 then Ret (Mkfs_error ret, st)
         else bind_run (block_sync_wait sync_env st) (\<lambda>(ret, st).
           Ret (if ret < 0 then Sync_error ret else Mkfs_done, st))))"

definition cmd_stat :: "bool \<Rightarrow> nat \<Rightarrow> (nat \<Rightarrow> bool) \<Rightarrow> nat option \<Rightarrow> env \<Rightarrow> block_info \<Rightarrow> (cmd_output \<times> block_info) run" where
  "cmd_stat add_ok fuel ok km env st =
     bind_run (ngnfs_pfs_read_inode add_ok fuel ok km env NGNFS_ROOT_INO sizeof_inode ngnfs_txn_init st)
       (\<lambda>(ret, buf, txn, st).
          bind_run (ngnfs_txn_destroy txn st) (\<lambda>(txn, st).
            Ret (if ret < 0 then Stat_error ret
                 else if ret < int sizeof_inode then Stat_too_small ret
                 else Stat_print (stat_fields buf), st)))"

end
