(* ===== verification/Pfs_Props.thy ===== *)
theory Pfs_Props
  imports Pfs Txn_Props Btree_Map
begin

text \<open>
  The inode that mkfs writes is the one that a later read finds: the btree block, the
  transaction, the block cache and the commands composed.
\<close>

unbundle bit_operations_syntax

subsection \<open>mkfs\<close>

lemma length_mkfs_bytes: "length (bytes (mkfs_inode junk ino nsec) 0 sizeof_inode) = 88"
  by simp

lemma commit_mkfs_inserts:
  obtains bt where "commit_mkfs ninode page w = Ret (bt, w)" "wf_block bt"
    "block_map bt = [[NGNFS_IBLOCK_KEY_INODE] \<mapsto> bytes ninode 0 sizeof_inode]"
proof -
  let ?b = "ngnfs_btree_init_block page 0"
  have v: "valid_kv [NGNFS_IBLOCK_KEY_INODE] (bytes ninode 0 sizeof_inode)" by (simp add: valid_kv_def)
  have m: "block_map ?b = Map.empty" by (simp add: block_map_def init_block_correct)
  obtain bt where "ngnfs_btree_insert ?b [NGNFS_IBLOCK_KEY_INODE] (bytes ninode 0 sizeof_inode) = Ret (0, bt)"
    "wf_block bt" "block_map bt = (block_map ?b)([NGNFS_IBLOCK_KEY_INODE] \<mapsto> bytes ninode 0 sizeof_inode)"
    by (rule insert_correct [OF init_block_correct(1) [of page 0] v]) (auto simp: m init_block_correct kv_cost_def)
  then show thesis using m by (intro that) (auto simp: commit_mkfs_def)
qed

lemma prepare_read_inode_finds:
  assumes "wf_block bt" "block_map bt = [[NGNFS_IBLOCK_KEY_INODE] \<mapsto> v]"
  shows "prepare_read_inode n bt args = Ret (0, int (min n (length v)), take n v)"
  using lookup_correct [OF assms(1), of "[NGNFS_IBLOCK_KEY_INODE]" n] assms(2) by (simp add: prepare_read_inode_def)

lemma mkfs_dirties:
  assumes "txn_get (ok 0) env 0 st ino NBF_WRITE = Ret (Inr b, g, n)" "bl_set (blocks g b) = None" "\<not> dirty_throttled g"
    "commit_mkfs (mkfs_inode junk ino nsec) (ngnfs_block_buf g b) w = Ret (bt, w)"
  obtains t q where
    "ngnfs_pfs_mkfs (Some junk) True fuel ok (Some jk) env ino nsec ngnfs_txn_init st w =
       Ret (0, \<lparr>txn_blocks = [t], txn_writes = [0]\<rparr>, dirtied q g b bt, w)" "tblk_bl t = Some b"
proof -
  let ?ninode = "mkfs_inode junk ino nsec"
  have nw: "NBF_WRITE AND NBF_WRITE \<noteq> 0" by simp
  obtain t q where "ngnfs_txn_execute fuel ok (Some jk) env
        (snd (ngnfs_txn_add_block True ino NBF_WRITE None (Some (commit_mkfs ?ninode)) ngnfs_txn_init)) st w =
      Ret (0, \<lparr>txn_blocks = [t], txn_writes = [0]\<rparr>, dirtied q g b bt, w)" "tblk_bl t = Some b"
    using write_after_get [where commit = "commit_mkfs ?ninode" and ok = ok, OF assms(1) nw assms(2-4)] .
  then show thesis
    by (intro that) (simp_all add: ngnfs_pfs_mkfs_def map_iblock_def ngnfs_txn_add_block_def)
qed

text \<open>The command: what it syncs is the cache with the inode block in it.\<close>

lemma cmd_mkfs_syncs:
  assumes "txn_get (ok 0) env 0 st NGNFS_ROOT_INO NBF_WRITE = Ret (Inr b, g, n)" "bl_set (blocks g b) = None"
    "\<not> dirty_throttled g" "commit_mkfs (mkfs_inode junk NGNFS_ROOT_INO nsec) (ngnfs_block_buf g b) () = Ret (bt, ())"
    "1 < bl_refcount (blocks g b)"
  obtains q where
    "cmd_mkfs sync_env (Some junk) True fuel ok (Some jk) env nsec st =
       bind_run (block_sync_wait sync_env (dirtied q (upd_block g b (\<lambda>bl. bl\<lparr>bl_refcount := bl_refcount bl - 1\<rparr>)) b bt))
         (\<lambda>(ret, st). Ret (if ret < 0 then Sync_error ret else Mkfs_done, st))"
proof -
  obtain t q where m: "ngnfs_pfs_mkfs (Some junk) True fuel ok (Some jk) env NGNFS_ROOT_INO nsec ngnfs_txn_init st () =
       Ret (0, \<lparr>txn_blocks = [t], txn_writes = [0]\<rparr>, dirtied q g b bt, ())" "tblk_bl t = Some b"
    using mkfs_dirties [where ok = ok, OF assms(1-4)] .
  have "1 < bl_refcount (blocks (dirtied q g b bt) b)" using assms(5) by (simp add: dirtied_def)
  note d = destroy_one [OF m(2) this, of "[0]", unfolded dirtied_put]
  show thesis by (rule that [of q]) (simp only: cmd_mkfs_def m(1) d bind_run.simps prod.case less_irrefl if_False)
qed

subsection \<open>Reading the inode\<close>

lemma read_inode_runs:
  assumes "txn_get (ok 0) env 0 st ino NBF_READ = Ret (Inr b, g, m)" "1 < bl_refcount (blocks g b)"
    "wf_block (ngnfs_block_buf g b)" "block_map (ngnfs_block_buf g b) = [[NGNFS_IBLOCK_KEY_INODE] \<mapsto> v]"
  shows "ngnfs_pfs_read_inode True fuel ok km env ino n ngnfs_txn_init st =
    Ret (int (min n (length v)), take n v, ngnfs_txn_init, upd_block g b (\<lambda>bl. bl\<lparr>bl_refcount := bl_refcount bl - 1\<rparr>))"
proof -
  have p: "prepare_read_inode n (ngnfs_block_buf g b) args = Ret (0, int (min n (length v)), take n v)" for args
    using prepare_read_inode_finds [OF assms(3,4)] .
  define t :: "read_inode_args tblk" where "t = \<lparr>tblk_bl = Some b, tblk_bnr = ino, tblk_nbf = NBF_READ,
      tblk_prepare = Some (prepare_read_inode n), tblk_commit = None\<rparr>"
  have d: "ngnfs_txn_destroy \<lparr>txn_blocks = [t], txn_writes = []\<rparr> g =
      Ret (ngnfs_txn_init, upd_block g b (\<lambda>bl. bl\<lparr>bl_refcount := bl_refcount bl - 1\<rparr>))"
    using destroy_one [OF _ assms(2), of t "[]"] by (simp add: t_def ngnfs_txn_init_def)
  show ?thesis
    using assms(1) p d [unfolded t_def ngnfs_txn_init_def]
    by (simp add: ngnfs_pfs_read_inode_def map_iblock_def ngnfs_txn_add_block_def ngnfs_txn_init_def
        ngnfs_txn_execute_def Let_def)
qed

subsection \<open>The fields of the inode\<close>

lemma get_from_bytes:
  "p + 8 \<le> n \<Longrightarrow> get_unaligned_le64 (write_bytes z 0 (bytes m 0 n)) p = get_unaligned_le64 m p"
  "p + 4 \<le> n \<Longrightarrow> get_unaligned_le32 (write_bytes z 0 (bytes m 0 n)) p = get_unaligned_le32 m p"
proof -
  have "bytes (write_bytes z 0 (bytes m 0 n)) p k = bytes m p k" if "p + k \<le> n" for k
    using that by (intro bytes_cong) (auto simp: write_bytes_def)
  then show "p + 8 \<le> n \<Longrightarrow> get_unaligned_le64 (write_bytes z 0 (bytes m 0 n)) p = get_unaligned_le64 m p"
    "p + 4 \<le> n \<Longrightarrow> get_unaligned_le32 (write_bytes z 0 (bytes m 0 n)) p = get_unaligned_le32 m p"
    by (simp_all add: get_unaligned_le64_def get_unaligned_le32_def)
qed

lemma get_put_other [mem_simps]:
  "p + 8 \<le> q \<or> q + 8 \<le> p \<Longrightarrow> get_unaligned_le64 (put_unaligned_le64 v m q) p = get_unaligned_le64 m p"
  "p + 8 \<le> q \<or> q + 4 \<le> p \<Longrightarrow> get_unaligned_le64 (put_unaligned_le32 v m q) p = get_unaligned_le64 m p"
  "p + 4 \<le> q \<or> q + 8 \<le> p \<Longrightarrow> get_unaligned_le32 (put_unaligned_le64 v m q) p = get_unaligned_le32 m p"
  "p + 4 \<le> q \<or> q + 4 \<le> p \<Longrightarrow> get_unaligned_le32 (put_unaligned_le32 v m q) p = get_unaligned_le32 m p"
  by (simp_all add: get_unaligned_le64_def get_unaligned_le32_def put_unaligned_le64_def put_unaligned_le32_def
      bytes_write_other)

lemma stat_fields_mkfs:
  "stat_fields (bytes (mkfs_inode junk ino nsec) 0 sizeof_inode) =
    [unat ino, 1, 1, 493, unat nsec, unat nsec, unat nsec, unat nsec]"
proof -
  have b: "unat x < 18446744073709551616" for x :: u64 using unsigned_less [of x, where ?'a = nat] by simp
  show ?thesis by (simp add: stat_fields_def Let_def get_from_bytes) (simp add: mkfs_inode_def Let_def mem_simps b)
qed

text \<open>The root inode that mkfs makes at the time \<open>nsec\<close> is in the cached block \<open>b\<close>.\<close>

definition root_made :: "u64 \<Rightarrow> block_info \<Rightarrow> nat \<Rightarrow> bool" where
  "root_made nsec st b \<longleftrightarrow> block_ready st NGNFS_ROOT_INO b \<and> wf_block (ngnfs_block_buf st b) \<and>
     (\<exists>junk. block_map (ngnfs_block_buf st b) =
        [[NGNFS_IBLOCK_KEY_INODE] \<mapsto> bytes (mkfs_inode junk NGNFS_ROOT_INO nsec) 0 sizeof_inode])"

lemma mkfs_makes_root:
  assumes "block_ready st NGNFS_ROOT_INO b" "bl_set (blocks st b) = None" "\<not> dirty_throttled st"
    and "\<And>c. block_ready c NGNFS_ROOT_INO b \<Longrightarrow> block_ready (sync_env c) NGNFS_ROOT_INO b \<and>
      ngnfs_block_buf (sync_env c) b = ngnfs_block_buf c b \<and> sync_woken (sync_env c) (dirty_seq c)"
  shows "\<exists>out st1. cmd_mkfs sync_env (Some junk) True fuel ok (Some jk) env nsec st = Ret (out, st1) \<and>
    (out = Mkfs_done \<or> out = Sync_error (- EIO)) \<and> root_made nsec st1 b"
proof -
  let ?g = "get_block st b"
  have g: "bl_set (blocks ?g b) = None" "\<not> dirty_throttled ?g" "1 < bl_refcount (blocks ?g b)"
    using assms(1-3) by (simp_all add: get_block_def upd_block_def dirty_throttled_def block_ready_def)
  have "txn_get (ok 0) env 0 st NGNFS_ROOT_INO NBF_WRITE = Ret (Inr b, ?g, 0)" by (rule txn_get_ready [OF assms(1)]) simp
  moreover obtain bt where c: "commit_mkfs (mkfs_inode junk NGNFS_ROOT_INO nsec) (ngnfs_block_buf ?g b) () = Ret (bt, ())"
    "wf_block bt" "block_map bt = [[NGNFS_IBLOCK_KEY_INODE] \<mapsto> bytes (mkfs_inode junk NGNFS_ROOT_INO nsec) 0 sizeof_inode]"
    using commit_mkfs_inserts .
  ultimately obtain q where m: "cmd_mkfs sync_env (Some junk) True fuel ok (Some jk) env nsec st =
       bind_run (block_sync_wait sync_env (dirtied q (upd_block ?g b (\<lambda>bl. bl\<lparr>bl_refcount := bl_refcount bl - 1\<rparr>)) b bt))
         (\<lambda>(ret, st). Ret (if ret < 0 then Sync_error ret else Mkfs_done, st))"
    using cmd_mkfs_syncs [where ok = ok, OF _ g(1,2) c(1) g(3)] by blast
  define st2 where "st2 = dirtied q (upd_block ?g b (\<lambda>bl. bl\<lparr>bl_refcount := bl_refcount bl - 1\<rparr>)) b bt"
  have r2: "block_ready st2 NGNFS_ROOT_INO b" "ngnfs_block_buf st2 b = bt"
    using assms(1) by (simp_all add: st2_def dirtied_def get_block_def block_ready_def upd_block_def ngnfs_block_buf_def)
  define st3 where "st3 = sync_up_to_seq st2 (dirty_seq st2)"
  have r3: "block_ready st3 NGNFS_ROOT_INO b" "ngnfs_block_buf st3 b = bt" "dirty_seq st3 = dirty_seq st2"
    using r2 by (simp_all add: st3_def sync_up_to_seq_def sync_waiters_inc_def try_queue_writeback_work_def Let_def
        block_ready_def ngnfs_block_buf_def)
  note e = assms(4) [OF r3(1), unfolded r3(2,3)]
  define st4 where "st4 = snd (sync_finish (sync_env st3))"
  have r4: "block_ready st4 NGNFS_ROOT_INO b" "ngnfs_block_buf st4 b = bt"
    using e by (simp_all add: st4_def sync_finish_def sync_waiters_dec_error_def Let_def block_ready_def ngnfs_block_buf_def)
  have fin: "sync_finish (sync_env st3) = (0, st4) \<or> sync_finish (sync_env st3) = (- EIO, st4)"
    by (simp add: st4_def sync_finish_def sync_waiters_dec_error_def Let_def)
  have "block_sync_wait sync_env st2 = Ret (sync_finish (sync_env st3))"
    using e by (simp add: block_sync_wait_def ngnfs_block_sync_def st3_def)
  then have "cmd_mkfs sync_env (Some junk) True fuel ok (Some jk) env nsec st = Ret (Mkfs_done, st4) \<or>
      cmd_mkfs sync_env (Some junk) True fuel ok (Some jk) env nsec st = Ret (Sync_error (- EIO), st4)"
    using m [folded st2_def] fin by auto
  moreover have "root_made nsec st4 b" using r4 c(2,3) by (auto simp: root_made_def)
  ultimately show ?thesis by blast
qed

text \<open>The stat command, from the get of the inode block on.\<close>

lemma cmd_stat_prints:
  assumes "txn_get (ok 0) env 0 st NGNFS_ROOT_INO NBF_READ = Ret (Inr b, g, n)" "1 < bl_refcount (blocks g b)"
    "wf_block (ngnfs_block_buf g b)" "block_map (ngnfs_block_buf g b) =
      [[NGNFS_IBLOCK_KEY_INODE] \<mapsto> bytes (mkfs_inode junk NGNFS_ROOT_INO nsec) 0 sizeof_inode]"
  shows "cmd_stat True fuel ok km env st = Ret (Stat_print [1, 1, 1, 493, unat nsec, unat nsec, unat nsec, unat nsec],
    upd_block g b (\<lambda>bl. bl\<lparr>bl_refcount := bl_refcount bl - 1\<rparr>))"
  using read_inode_runs [where ok = ok, OF assms, of fuel km sizeof_inode] stat_fields_mkfs [of junk NGNFS_ROOT_INO nsec]
  by (simp add: cmd_stat_def ngnfs_txn_init_def ngnfs_txn_destroy_def)

lemma stat_prints_root:
  assumes "root_made nsec st b"
  shows "\<exists>st'. cmd_stat True fuel ok km env st =
    Ret (Stat_print [1, 1, 1, 493, unat nsec, unat nsec, unat nsec, unat nsec], st')"
proof -
  obtain junk where r: "block_ready st NGNFS_ROOT_INO b" "wf_block (ngnfs_block_buf st b)"
    "block_map (ngnfs_block_buf st b) =
      [[NGNFS_IBLOCK_KEY_INODE] \<mapsto> bytes (mkfs_inode junk NGNFS_ROOT_INO nsec) 0 sizeof_inode]"
    using assms by (auto simp: root_made_def)
  have "ngnfs_block_buf (get_block st b) b = ngnfs_block_buf st b" "1 < bl_refcount (blocks (get_block st b) b)"
    using r(1) by (simp_all add: ngnfs_block_buf_def get_block_def upd_block_def block_ready_def)
  then show ?thesis
    using cmd_stat_prints [where ok = ok and g = "get_block st b", OF txn_get_ready [OF r(1)]] r(2,3) by auto
qed

text \<open>A cache that holds block 1, and a sync during which all sets are written.\<close>

definition example_cache :: block_info where
  "example_cache = (init_block_info 8)\<lparr>ht := [(1, 0)], next_block := 1,
     blocks := (\<lambda>_. new_block 0)(0 := (new_block 1)\<lparr>bl_refcount := 2, BL_UPTODATE := True\<rparr>)\<rparr>"

definition example_sync :: "block_info \<Rightarrow> block_info" where
  "example_sync c = c\<lparr>writeback_seq := dirty_seq c, nr_writeback := 0\<rparr>"

lemma example_cache_ready:
  "block_ready example_cache NGNFS_ROOT_INO 0" "bl_set (blocks example_cache 0) = None" "\<not> dirty_throttled example_cache"
  by (simp_all add: block_ready_def example_cache_def init_block_info_def new_block_def dirty_throttled_def)

lemma example_sync_keeps:
  "block_ready c NGNFS_ROOT_INO 0 \<Longrightarrow> block_ready (example_sync c) NGNFS_ROOT_INO 0 \<and>
    ngnfs_block_buf (example_sync c) 0 = ngnfs_block_buf c 0 \<and> sync_woken (example_sync c) (dirty_seq c)"
  by (simp add: block_ready_def example_sync_def ngnfs_block_buf_def sync_woken_def)

end
