(* ===== verification/Msg.thy ===== *)
theory Msg
  imports Lk_Mem
begin

text \<open>
  The messaging layer: \<open>shared/msg.c\<close>, the message formats of
  \<open>shared/format-msg.h\<close> and the address map of \<open>shared/manifest.c\<close>.  A peer is a
  number; the hash table of peers is a list of addresses with their peers, in the
  order its iteration visits them.  The transport below (\<open>mtr_ops\<close>) is a record of
  functions on its own state, as the struct of function pointers is.
\<close>

subsection \<open>format-msg.h\<close>

definition NGNFS_MSG_GET_BLOCK :: u8 where [simp]: "NGNFS_MSG_GET_BLOCK = 0"
definition NGNFS_MSG_GET_BLOCK_RESULT :: u8 where [simp]: "NGNFS_MSG_GET_BLOCK_RESULT = 1"
definition NGNFS_MSG_WRITE_BLOCK :: u8 where [simp]: "NGNFS_MSG_WRITE_BLOCK = 2"
definition NGNFS_MSG_WRITE_BLOCK_RESULT :: u8 where [simp]: "NGNFS_MSG_WRITE_BLOCK_RESULT = 3"
definition NGNFS_MSG__NR :: u8 where [simp]: "NGNFS_MSG__NR = 4"

definition NGNFS_MSG_ERR_OK :: u8 where [simp]: "NGNFS_MSG_ERR_OK = 0"
definition NGNFS_MSG_ERR_UNKNOWN :: u8 where [simp]: "NGNFS_MSG_ERR_UNKNOWN = 1"
definition NGNFS_MSG_ERR_EIO :: u8 where [simp]: "NGNFS_MSG_ERR_EIO = 2"
definition NGNFS_MSG_ERR_ENOMEM :: u8 where [simp]: "NGNFS_MSG_ERR_ENOMEM = 3"
definition NGNFS_MSG_ERR__INVALID :: u8 where [simp]: "NGNFS_MSG_ERR__INVALID = 4"

definition NGNFS_MSG_BLOCK_ACCESS_READ :: u8 where [simp]: "NGNFS_MSG_BLOCK_ACCESS_READ = 0"
definition NGNFS_MSG_BLOCK_ACCESS_WRITE :: u8 where [simp]: "NGNFS_MSG_BLOCK_ACCESS_WRITE = 1"
definition NGNFS_MSG_BLOCK_ACCESS__UNKNOWN :: u8 where [simp]: "NGNFS_MSG_BLOCK_ACCESS__UNKNOWN = 2"

definition NGNFS_MSG_MAX_CTL_SIZE :: nat where [simp]: "NGNFS_MSG_MAX_CTL_SIZE = 255"
definition NGNFS_MSG_MAX_DATA_SIZE :: nat where [simp]: "NGNFS_MSG_MAX_DATA_SIZE = 4096"

text \<open>\<open>struct ngnfs_msg_header\<close>; \<open>data_size\<close> is little-endian on the wire.\<close>

record msg_header =
  hdr_crc :: u32
  hdr_data_size :: u16
  hdr_ctl_size :: u8
  hdr_type :: u8

type_synonym sockaddr_in = "u32 \<times> u16"

text \<open>\<open>struct ngnfs_msg_desc\<close>: buffers are memories read from offset 0.\<close>

record msg_desc =
  addr :: sockaddr_in
  ctl_buf :: mem
  data_page :: "mem option"
  data_size :: u16
  ctl_size :: u8
  mtype :: u8

subsection \<open>Errors over the wire and header checks\<close>

definition ngnfs_msg_err :: "int \<Rightarrow> u8" where
  "ngnfs_msg_err eno =
     (if \<bar>eno\<bar> = 0 then NGNFS_MSG_ERR_OK
      else if \<bar>eno\<bar> = EIO then NGNFS_MSG_ERR_EIO
      else if \<bar>eno\<bar> = ENOMEM then NGNFS_MSG_ERR_ENOMEM
      else NGNFS_MSG_ERR_UNKNOWN)"

definition ngnfs_msg_errno :: "u8 \<Rightarrow> int" where
  "ngnfs_msg_errno err =
     (if err = NGNFS_MSG_ERR_OK then 0
      else if err = NGNFS_MSG_ERR_UNKNOWN then - EIO
      else if NGNFS_MSG_ERR__INVALID \<le> err then - EPROTO
      else if err = NGNFS_MSG_ERR_EIO then - EIO else - ENOMEM)"

definition ngnfs_msg_verify_header :: "msg_header \<Rightarrow> int" where
  "ngnfs_msg_verify_header hdr =
     (if hdr_ctl_size hdr = 0 \<and> hdr_data_size hdr = 0 \<or>
         unat (hdr_ctl_size hdr) > NGNFS_MSG_MAX_CTL_SIZE \<or>
         unat (hdr_data_size hdr) > NGNFS_MSG_MAX_DATA_SIZE \<or>
         hdr_type hdr \<ge> NGNFS_MSG__NR
      then - EINVAL else 0)"

subsection \<open>Peers\<close>

record peer =
  refcount :: int
  peer_addr :: sockaddr_in
  peer_info :: bool
  peer_freed :: bool

text \<open>
  The operations of a message transport, on the transport's state.  A peer's private
  info is named by the peer's number; \<open>'fd\<close> is what an accepting transport hands in.
\<close>

record ('fd, 't) mtr_ops =
  mtr_setup :: "('t \<Rightarrow> int \<times> 't) option"
  mtr_shutdown :: "('t \<Rightarrow> 't) option"
  mtr_destroy :: "('t \<Rightarrow> 't) option"
  start_listen :: "sockaddr_in \<Rightarrow> 't \<Rightarrow> int \<times> 't"
  stop_listen :: "'t \<Rightarrow> 't"
  peer_info_size :: nat
  init_peer :: "(nat \<Rightarrow> 't \<Rightarrow> 't) option"
  destroy_peer :: "(nat \<Rightarrow> 't \<Rightarrow> 't) option"
  mtr_start :: "nat \<Rightarrow> sockaddr_in \<Rightarrow> 'fd option \<Rightarrow> 't \<Rightarrow> int \<times> 't"
  mtr_send :: "nat \<Rightarrow> msg_desc \<Rightarrow> 't \<Rightarrow> int \<times> 't"

datatype recv_fn = Get_block_result | Write_block_result | Devd_get_block | Devd_write_block

record 't msg_info =
  peer_ht :: "(sockaddr_in \<times> nat) list"
  peers :: "nat \<Rightarrow> peer"
  next_peer :: nat
  recv_fns :: "nat \<Rightarrow> recv_fn option"
  listen_info :: bool
  mtr_info :: 't

definition upd_peer :: "nat \<Rightarrow> (peer \<Rightarrow> peer) \<Rightarrow> 't msg_info \<Rightarrow> 't msg_info" where
  "upd_peer p f minf = minf\<lparr>peers := (peers minf)(p := f (peers minf p))\<rparr>"

definition inc_peer :: "nat \<Rightarrow> 't msg_info \<Rightarrow> 't msg_info" where
  "inc_peer p = upd_peer p (\<lambda>pr. pr\<lparr>refcount := refcount pr + 1\<rparr>)"

definition put_peer :: "('fd, 't) mtr_ops \<Rightarrow> nat \<Rightarrow> 't msg_info \<Rightarrow> 't msg_info" where
  "put_peer ops p minf =
     (let minf = upd_peer p (\<lambda>pr. pr\<lparr>refcount := refcount pr - 1\<rparr>) minf
      in if refcount (peers minf p) = 0
         then (let minf = (case destroy_peer ops of
                             Some d \<Rightarrow> if peer_info (peers minf p)
                                       then minf\<lparr>mtr_info := d p (mtr_info minf)\<rparr> else minf
                           | None \<Rightarrow> minf)
               in upd_peer p (\<lambda>pr. pr\<lparr>peer_freed := True\<rparr>) minf)
         else minf)"

text \<open>
  The calls on the hash table: lookup by address, and insertion that returns the
  present entry when there is one.
\<close>

definition ht_lookup :: "sockaddr_in \<Rightarrow> 't msg_info \<Rightarrow> nat option" where
  "ht_lookup a minf = map_of (peer_ht minf) a"

definition ht_insert :: "sockaddr_in \<Rightarrow> nat \<Rightarrow> 't msg_info \<Rightarrow> nat option \<times> 't msg_info" where
  "ht_insert a p minf =
     (case ht_lookup a minf of
        Some e \<Rightarrow> (Some e, minf)
      | None \<Rightarrow> (None, minf\<lparr>peer_ht := peer_ht minf @ [(a, p)]\<rparr>))"

text \<open>The second half of \<open>get_peer\<close>: a new peer is made, inserted and started.\<close>

definition get_peer_new ::
    "('fd, 't) mtr_ops \<Rightarrow> bool \<Rightarrow> sockaddr_in \<Rightarrow> 'fd option \<Rightarrow> 't msg_info \<Rightarrow> (int \<times> nat option) \<times> 't msg_info" where
  "get_peer_new ops mem_ok a accepted minf =
     (if \<not> mem_ok then ((- ENOMEM, None), minf)
      else
        (let p = next_peer minf;
             minf = minf\<lparr>next_peer := p + 1,
                         peers := (peers minf)(p := \<lparr>refcount = 1, peer_addr = a, peer_info = False, peer_freed = False\<rparr>)\<rparr>;
             minf = (if peer_info_size ops > 0
                     then (let minf = upd_peer p (\<lambda>pr. pr\<lparr>peer_info := True\<rparr>) minf
                           in case init_peer ops of
                                Some i \<Rightarrow> minf\<lparr>mtr_info := i p (mtr_info minf)\<rparr>
                              | None \<Rightarrow> minf)
                     else minf);
             minf = inc_peer p minf;
             (exist, minf) = ht_insert a p minf
         in case exist of
              Some e \<Rightarrow>
                (let minf = inc_peer e minf;
                     minf = put_peer ops p (put_peer ops p minf)
                 in ((if accepted \<noteq> None then - EEXIST else 0, Some e), minf))
            | None \<Rightarrow>
                (let (ret, t) = mtr_start ops p a accepted (mtr_info minf)
                 in ((ret, Some p), minf\<lparr>mtr_info := t\<rparr>))))"

text \<open>
  \<open>get_peer\<close>.  Between the lookup that finds nothing and the insertion other threads
  may run: \<open>other\<close> is what they do to the state.
\<close>

definition get_peer ::
    "('fd, 't) mtr_ops \<Rightarrow> bool \<Rightarrow> ('t msg_info \<Rightarrow> 't msg_info) \<Rightarrow> sockaddr_in \<Rightarrow> 'fd option \<Rightarrow> 't msg_info \<Rightarrow>
     (int + nat) \<times> 't msg_info" where
  "get_peer ops mem_ok other a accepted minf =
     (let ((ret, p), minf) =
            (case ht_lookup a minf of
               Some p \<Rightarrow> (if accepted \<noteq> None then ((- EEXIST, Some p), minf) else ((0, Some p), inc_peer p minf))
             | None \<Rightarrow> get_peer_new ops mem_ok a accepted (other minf))
      in case p of
           None \<Rightarrow> (Inl ret, minf)
         | Some p \<Rightarrow> if ret < 0 then (Inl ret, put_peer ops p minf) else (Inr p, minf))"

definition ngnfs_msg_send ::
    "('fd, 't) mtr_ops \<Rightarrow> bool \<Rightarrow> ('t msg_info \<Rightarrow> 't msg_info) \<Rightarrow> msg_desc \<Rightarrow> 't msg_info \<Rightarrow> int \<times> 't msg_info" where
  "ngnfs_msg_send ops mem_ok other mdesc minf =
     (case get_peer ops mem_ok other (addr mdesc) None minf of
        (Inl ret, minf) \<Rightarrow> (ret, minf)
      | (Inr p, minf) \<Rightarrow>
          (let (ret, t) = mtr_send ops p mdesc (mtr_info minf)
           in (ret, put_peer ops p (minf\<lparr>mtr_info := t\<rparr>))))"

definition ngnfs_msg_accept ::
    "('fd, 't) mtr_ops \<Rightarrow> bool \<Rightarrow> ('t msg_info \<Rightarrow> 't msg_info) \<Rightarrow> sockaddr_in \<Rightarrow> 'fd option \<Rightarrow> 't msg_info \<Rightarrow> int \<times> 't msg_info" where
  "ngnfs_msg_accept ops mem_ok other a arg minf =
     (if arg = None then (- EINVAL, minf)
      else case get_peer ops mem_ok other a arg minf of
             (Inl ret, minf) \<Rightarrow> (ret, minf)
           | (Inr p, minf) \<Rightarrow> (0, put_peer ops p minf))"

subsection \<open>Receive handlers\<close>

text \<open>\<open>call\<close> runs a handler.\<close>

definition ngnfs_msg_recv :: "(recv_fn \<Rightarrow> msg_desc \<Rightarrow> 'w \<Rightarrow> int \<times> 'w) \<Rightarrow> 't msg_info \<Rightarrow> msg_desc \<Rightarrow> 'w \<Rightarrow> int \<times> 'w" where
  "ngnfs_msg_recv call minf mdesc w =
     (if mtype mdesc < NGNFS_MSG__NR
      then (case recv_fns minf (unat (mtype mdesc)) of
              Some f \<Rightarrow> call f mdesc w
            | None \<Rightarrow> (- EINVAL, w))
      else (- EINVAL, w))"

definition ngnfs_msg_register_recv :: "u8 \<Rightarrow> recv_fn \<Rightarrow> 't msg_info \<Rightarrow> int \<times> 't msg_info" where
  "ngnfs_msg_register_recv type fn minf =
     (if type \<ge> NGNFS_MSG__NR \<or> recv_fns minf (unat type) \<noteq> None then (- EEXIST, minf)
      else (0, minf\<lparr>recv_fns := (recv_fns minf)(unat type := Some fn)\<rparr>))"

definition ngnfs_msg_unregister_recv :: "u8 \<Rightarrow> recv_fn \<Rightarrow> 't msg_info option \<Rightarrow> 't msg_info option" where
  "ngnfs_msg_unregister_recv type fn minf =
     (case minf of
        None \<Rightarrow> None
      | Some m \<Rightarrow>
          if type < NGNFS_MSG__NR \<and> recv_fns m (unat type) = Some fn
          then Some (m\<lparr>recv_fns := (recv_fns m)(unat type := None)\<rparr>)
          else Some m)"

subsection \<open>Setup and teardown\<close>

definition new_msg_info :: "'t \<Rightarrow> 't msg_info" where
  "new_msg_info t =
     \<lparr>peer_ht = [], peers = (\<lambda>_. \<lparr>refcount = 0, peer_addr = (0, 0), peer_info = False, peer_freed = True\<rparr>),
      next_peer = 0, recv_fns = (\<lambda>_. None), listen_info = False, mtr_info = t\<rparr>"

text \<open>
  The result is the return value and \<open>nfi->msg_info\<close>.  \<open>mem_ok\<close> and \<open>ht_ret\<close> are the
  outcomes of the allocation and of \<open>rhashtable_init\<close>.
\<close>

definition ngnfs_msg_setup ::
    "('fd, 't) mtr_ops \<Rightarrow> bool \<Rightarrow> int \<Rightarrow> sockaddr_in option \<Rightarrow> 't \<Rightarrow> int \<times> 't msg_info option" where
  "ngnfs_msg_setup ops mem_ok ht_ret listen_addr t =
     (if \<not> mem_ok then (- ENOMEM, None)
      else
        (let (ret, t) = (case mtr_setup ops of Some s \<Rightarrow> s t | None \<Rightarrow> (0, t))
         in if ret < 0 then (ret, None)
            else if ht_ret < 0 then (ht_ret, None)
            else
              (let minf = new_msg_info t
               in case listen_addr of
                    None \<Rightarrow> (0, Some minf)
                  | Some a \<Rightarrow>
                      (let (ret, t) = start_listen ops a (mtr_info minf)
                       in if ret < 0 then (ret, Some (minf\<lparr>mtr_info := t\<rparr>))
                          else (0, Some (minf\<lparr>mtr_info := t, listen_info := True\<rparr>))))))"

primrec free_ht_peers :: "('fd, 't) mtr_ops \<Rightarrow> (sockaddr_in \<times> nat) list \<Rightarrow> 't msg_info \<Rightarrow> 't msg_info" where
  "free_ht_peers ops [] minf = minf"
| "free_ht_peers ops (e # es) minf =
     free_ht_peers ops es (put_peer ops (snd e) (minf\<lparr>peer_ht := remove1 e (peer_ht minf)\<rparr>))"

text \<open>The state when the info is freed; \<open>nfi->msg_info\<close> keeps pointing at it.\<close>

definition ngnfs_msg_destroy :: "('fd, 't) mtr_ops \<Rightarrow> 't msg_info \<Rightarrow> 't msg_info" where
  "ngnfs_msg_destroy ops minf =
     (let minf = (if listen_info minf then minf\<lparr>mtr_info := stop_listen ops (mtr_info minf)\<rparr> else minf);
          minf = (case mtr_shutdown ops of Some f \<Rightarrow> minf\<lparr>mtr_info := f (mtr_info minf)\<rparr> | None \<Rightarrow> minf);
          minf = (case mtr_destroy ops of Some f \<Rightarrow> minf\<lparr>mtr_info := f (mtr_info minf)\<rparr> | None \<Rightarrow> minf)
      in free_ht_peers ops (peer_ht minf) minf)"

end
