(* ===== verification/Lk_Words.thy ===== *)
theory Lk_Words
  imports Lk_Mem
begin

text \<open>
  Byte order, unaligned access, bit operations, rounding and error pointers:
  \<open>shared/lk/byteorder.h\<close>, \<open>unaligned.h\<close>, \<open>unaligned_packed_struct.h\<close>,
  \<open>bitops.h\<close>, \<open>math.h\<close> and \<open>err.h\<close>, on machine words.  The compile time test of
  the byte order is the argument \<open>lend\<close>: true on a little-endian machine.
\<close>

unbundle bit_operations_syntax

subsection \<open>byteorder.h\<close>

definition swab16 :: "u16 \<Rightarrow> u16" where
  "swab16 x = (push_bit 8 (x AND 0x00ff)) OR (drop_bit 8 (x AND 0xff00))"

definition swab32 :: "u32 \<Rightarrow> u32" where
  "swab32 x =
     (push_bit 24 (x AND 0x000000ff)) OR
     (push_bit 8 (x AND 0x0000ff00)) OR
     (drop_bit 8 (x AND 0x00ff0000)) OR
     (drop_bit 24 (x AND 0xff000000))"

definition swab64 :: "u64 \<Rightarrow> u64" where
  "swab64 x =
     (push_bit 56 (x AND 0x00000000000000ff)) OR
     (push_bit 40 (x AND 0x000000000000ff00)) OR
     (push_bit 24 (x AND 0x0000000000ff0000)) OR
     (push_bit 8 (x AND 0x00000000ff000000)) OR
     (drop_bit 8 (x AND 0x000000ff00000000)) OR
     (drop_bit 24 (x AND 0x0000ff0000000000)) OR
     (drop_bit 40 (x AND 0x00ff000000000000)) OR
     (drop_bit 56 (x AND 0xff00000000000000))"

text \<open>The conversions the macros generate: a cast for the machine's own order, a swap for the other one.\<close>

definition gen_cast :: "'a word \<Rightarrow> 'a :: len word" where
  "gen_cast x = x"

definition cpu_to_le16 :: "bool \<Rightarrow> u16 \<Rightarrow> u16" where
  "cpu_to_le16 lend x = (if lend then gen_cast x else swab16 x)"
definition cpu_to_le32 :: "bool \<Rightarrow> u32 \<Rightarrow> u32" where
  "cpu_to_le32 lend x = (if lend then gen_cast x else swab32 x)"
definition cpu_to_le64 :: "bool \<Rightarrow> u64 \<Rightarrow> u64" where
  "cpu_to_le64 lend x = (if lend then gen_cast x else swab64 x)"
definition cpu_to_be16 :: "bool \<Rightarrow> u16 \<Rightarrow> u16" where
  "cpu_to_be16 lend x = (if lend then swab16 x else gen_cast x)"
definition cpu_to_be32 :: "bool \<Rightarrow> u32 \<Rightarrow> u32" where
  "cpu_to_be32 lend x = (if lend then swab32 x else gen_cast x)"
definition cpu_to_be64 :: "bool \<Rightarrow> u64 \<Rightarrow> u64" where
  "cpu_to_be64 lend x = (if lend then swab64 x else gen_cast x)"

definition le16_to_cpu :: "bool \<Rightarrow> u16 \<Rightarrow> u16" where
  "le16_to_cpu lend x = (if lend then gen_cast x else swab16 x)"
definition le32_to_cpu :: "bool \<Rightarrow> u32 \<Rightarrow> u32" where
  "le32_to_cpu lend x = (if lend then gen_cast x else swab32 x)"
definition le64_to_cpu :: "bool \<Rightarrow> u64 \<Rightarrow> u64" where
  "le64_to_cpu lend x = (if lend then gen_cast x else swab64 x)"
definition be16_to_cpu :: "bool \<Rightarrow> u16 \<Rightarrow> u16" where
  "be16_to_cpu lend x = (if lend then swab16 x else gen_cast x)"
definition be32_to_cpu :: "bool \<Rightarrow> u32 \<Rightarrow> u32" where
  "be32_to_cpu lend x = (if lend then swab32 x else gen_cast x)"
definition be64_to_cpu :: "bool \<Rightarrow> u64 \<Rightarrow> u64" where
  "be64_to_cpu lend x = (if lend then swab64 x else gen_cast x)"

text \<open>\<open>__gen_add_funcs\<close>: adding to a variable kept in a fixed byte order.\<close>

definition le16_add_cpu :: "bool \<Rightarrow> u16 \<Rightarrow> u16 \<Rightarrow> u16" where
  "le16_add_cpu lend var val = cpu_to_le16 lend (le16_to_cpu lend var + val)"
definition le64_add_cpu :: "bool \<Rightarrow> u64 \<Rightarrow> u64 \<Rightarrow> u64" where
  "le64_add_cpu lend var val = cpu_to_le64 lend (le64_to_cpu lend var + val)"
definition be64_add_cpu :: "bool \<Rightarrow> u64 \<Rightarrow> u64 \<Rightarrow> u64" where
  "be64_add_cpu lend var val = cpu_to_be64 lend (be64_to_cpu lend var + val)"

subsection \<open>unaligned_packed_struct.h and unaligned.h\<close>

text \<open>How the machine stores and loads a number of \<open>n\<close> bytes.\<close>

definition cpu_bytes :: "bool \<Rightarrow> nat \<Rightarrow> nat \<Rightarrow> u8 list" where
  "cpu_bytes lend n v = (if lend then num_le n v else rev (num_le n v))"

definition cpu_load :: "bool \<Rightarrow> mem \<Rightarrow> nat \<Rightarrow> nat \<Rightarrow> nat" where
  "cpu_load lend m p n = le_num (if lend then bytes m p n else rev (bytes m p n))"

definition get_unaligned_cpu16 :: "bool \<Rightarrow> mem \<Rightarrow> nat \<Rightarrow> u16" where
  "get_unaligned_cpu16 lend m p = of_nat (cpu_load lend m p 2)"
definition get_unaligned_cpu32 :: "bool \<Rightarrow> mem \<Rightarrow> nat \<Rightarrow> u32" where
  "get_unaligned_cpu32 lend m p = of_nat (cpu_load lend m p 4)"
definition get_unaligned_cpu64 :: "bool \<Rightarrow> mem \<Rightarrow> nat \<Rightarrow> u64" where
  "get_unaligned_cpu64 lend m p = of_nat (cpu_load lend m p 8)"
definition put_unaligned_cpu16 :: "bool \<Rightarrow> u16 \<Rightarrow> mem \<Rightarrow> nat \<Rightarrow> mem" where
  "put_unaligned_cpu16 lend val m p = write_bytes m p (cpu_bytes lend 2 (unat val))"
definition put_unaligned_cpu32 :: "bool \<Rightarrow> u32 \<Rightarrow> mem \<Rightarrow> nat \<Rightarrow> mem" where
  "put_unaligned_cpu32 lend val m p = write_bytes m p (cpu_bytes lend 4 (unat val))"
definition put_unaligned_cpu64 :: "bool \<Rightarrow> u64 \<Rightarrow> mem \<Rightarrow> nat \<Rightarrow> mem" where
  "put_unaligned_cpu64 lend val m p = write_bytes m p (cpu_bytes lend 8 (unat val))"

text \<open>The accessors of a fixed byte order (their packed struct access is the machine's own).\<close>

definition get_unaligned_le16_w :: "bool \<Rightarrow> mem \<Rightarrow> nat \<Rightarrow> u16" where
  "get_unaligned_le16_w lend m p = le16_to_cpu lend (get_unaligned_cpu16 lend m p)"
definition get_unaligned_le32_w :: "bool \<Rightarrow> mem \<Rightarrow> nat \<Rightarrow> u32" where
  "get_unaligned_le32_w lend m p = le32_to_cpu lend (get_unaligned_cpu32 lend m p)"
definition get_unaligned_le64_w :: "bool \<Rightarrow> mem \<Rightarrow> nat \<Rightarrow> u64" where
  "get_unaligned_le64_w lend m p = le64_to_cpu lend (get_unaligned_cpu64 lend m p)"
definition put_unaligned_le16_w :: "bool \<Rightarrow> u16 \<Rightarrow> mem \<Rightarrow> nat \<Rightarrow> mem" where
  "put_unaligned_le16_w lend val m p = put_unaligned_cpu16 lend (cpu_to_le16 lend val) m p"
definition put_unaligned_le32_w :: "bool \<Rightarrow> u32 \<Rightarrow> mem \<Rightarrow> nat \<Rightarrow> mem" where
  "put_unaligned_le32_w lend val m p = put_unaligned_cpu32 lend (cpu_to_le32 lend val) m p"
definition put_unaligned_le64_w :: "bool \<Rightarrow> u64 \<Rightarrow> mem \<Rightarrow> nat \<Rightarrow> mem" where
  "put_unaligned_le64_w lend val m p = put_unaligned_cpu64 lend (cpu_to_le64 lend val) m p"

definition get_unaligned_be16 :: "bool \<Rightarrow> mem \<Rightarrow> nat \<Rightarrow> u16" where
  "get_unaligned_be16 lend m p = be16_to_cpu lend (get_unaligned_cpu16 lend m p)"
definition get_unaligned_be32 :: "bool \<Rightarrow> mem \<Rightarrow> nat \<Rightarrow> u32" where
  "get_unaligned_be32 lend m p = be32_to_cpu lend (get_unaligned_cpu32 lend m p)"
definition get_unaligned_be64 :: "bool \<Rightarrow> mem \<Rightarrow> nat \<Rightarrow> u64" where
  "get_unaligned_be64 lend m p = be64_to_cpu lend (get_unaligned_cpu64 lend m p)"
definition put_unaligned_be16 :: "bool \<Rightarrow> u16 \<Rightarrow> mem \<Rightarrow> nat \<Rightarrow> mem" where
  "put_unaligned_be16 lend val m p = put_unaligned_cpu16 lend (cpu_to_be16 lend val) m p"
definition put_unaligned_be32 :: "bool \<Rightarrow> u32 \<Rightarrow> mem \<Rightarrow> nat \<Rightarrow> mem" where
  "put_unaligned_be32 lend val m p = put_unaligned_cpu32 lend (cpu_to_be32 lend val) m p"
definition put_unaligned_be64 :: "bool \<Rightarrow> u64 \<Rightarrow> mem \<Rightarrow> nat \<Rightarrow> mem" where
  "put_unaligned_be64 lend val m p = put_unaligned_cpu64 lend (cpu_to_be64 lend val) m p"

text \<open>The accessors of 3 and 6 bytes work a byte at a time.\<close>

definition get_unaligned_be24 :: "mem \<Rightarrow> nat \<Rightarrow> u32" where
  "get_unaligned_be24 m p = push_bit 16 (ucast (m p)) OR push_bit 8 (ucast (m (p + 1))) OR ucast (m (p + 2))"

definition get_unaligned_le24 :: "mem \<Rightarrow> nat \<Rightarrow> u32" where
  "get_unaligned_le24 m p = ucast (m p) OR push_bit 8 (ucast (m (p + 1))) OR push_bit 16 (ucast (m (p + 2)))"

definition put_unaligned_be24 :: "u32 \<Rightarrow> mem \<Rightarrow> nat \<Rightarrow> mem" where
  "put_unaligned_be24 val m p =
     write_bytes m p [ucast (drop_bit 16 val), ucast (drop_bit 8 val), ucast val]"

definition put_unaligned_le24 :: "u32 \<Rightarrow> mem \<Rightarrow> nat \<Rightarrow> mem" where
  "put_unaligned_le24 val m p =
     write_bytes m p [ucast val, ucast (drop_bit 8 val), ucast (drop_bit 16 val)]"

definition put_unaligned_be48 :: "u64 \<Rightarrow> mem \<Rightarrow> nat \<Rightarrow> mem" where
  "put_unaligned_be48 val m p =
     write_bytes m p [ucast (drop_bit 40 val), ucast (drop_bit 32 val), ucast (drop_bit 24 val),
                      ucast (drop_bit 16 val), ucast (drop_bit 8 val), ucast val]"

text \<open>
  The three low bytes are promoted to \<open>int\<close>, shifted there and converted to 64 bits
  with the others: \<open>p[3] << 16\<close> stays below \<open>2 ^ 31\<close>.
\<close>

definition get_unaligned_be48 :: "mem \<Rightarrow> nat \<Rightarrow> u64" where
  "get_unaligned_be48 m p =
     push_bit 40 (ucast (m p)) OR push_bit 32 (ucast (m (p + 1))) OR push_bit 24 (ucast (m (p + 2))) OR
     ucast (push_bit 16 (ucast (m (p + 3))) OR push_bit 8 (ucast (m (p + 4))) OR ucast (m (p + 5)) :: 32 word)"

subsection \<open>bitops.h\<close>

text \<open>A bitmap is an array of 64-bit words.\<close>

definition nr_bit :: "nat \<Rightarrow> u64" where
  "nr_bit nr = push_bit (nr mod 64) 1"

definition nr_addr :: "nat \<Rightarrow> nat" where
  "nr_addr nr = nr div 64"

definition test_bit :: "nat \<Rightarrow> (nat \<Rightarrow> u64) \<Rightarrow> bool" where
  "test_bit nr addr \<longleftrightarrow> addr (nr_addr nr) AND nr_bit nr \<noteq> 0"

definition set_bit_op :: "nat \<Rightarrow> (nat \<Rightarrow> u64) \<Rightarrow> (nat \<Rightarrow> u64)" where
  "set_bit_op nr addr = addr(nr_addr nr := addr (nr_addr nr) OR nr_bit nr)"

definition clear_bit :: "nat \<Rightarrow> (nat \<Rightarrow> u64) \<Rightarrow> (nat \<Rightarrow> u64)" where
  "clear_bit nr addr = addr(nr_addr nr := addr (nr_addr nr) AND NOT (nr_bit nr))"

text \<open>The atomic test and change functions work on the first word, whatever \<open>nr\<close> is.\<close>

definition test_and_set_bit :: "nat \<Rightarrow> (nat \<Rightarrow> u64) \<Rightarrow> bool \<times> (nat \<Rightarrow> u64)" where
  "test_and_set_bit nr addr =
     (let bt = nr_bit nr in (addr 0 AND bt \<noteq> 0, addr(0 := addr 0 OR bt)))"

definition test_and_clear_bit :: "nat \<Rightarrow> (nat \<Rightarrow> u64) \<Rightarrow> bool \<times> (nat \<Rightarrow> u64)" where
  "test_and_clear_bit nr addr =
     (let bt = nr_bit nr in (addr 0 AND bt \<noteq> 0, addr(0 := addr 0 AND NOT bt)))"

definition rol64 :: "u64 \<Rightarrow> u32 \<Rightarrow> u64" where
  "rol64 w shift = push_bit (unat (shift AND 63)) w OR drop_bit (unat (- shift AND 63)) w"
definition ror64 :: "u64 \<Rightarrow> u32 \<Rightarrow> u64" where
  "ror64 w shift = drop_bit (unat (shift AND 63)) w OR push_bit (unat (- shift AND 63)) w"
definition rol32 :: "u32 \<Rightarrow> u32 \<Rightarrow> u32" where
  "rol32 w shift = push_bit (unat (shift AND 31)) w OR drop_bit (unat (- shift AND 31)) w"
definition ror32 :: "u32 \<Rightarrow> u32 \<Rightarrow> u32" where
  "ror32 w shift = drop_bit (unat (shift AND 31)) w OR push_bit (unat (- shift AND 31)) w"
definition rol16 :: "u16 \<Rightarrow> u32 \<Rightarrow> u16" where
  "rol16 w shift = push_bit (unat (shift AND 15)) w OR drop_bit (unat (- shift AND 15)) w"
definition ror16 :: "u16 \<Rightarrow> u32 \<Rightarrow> u16" where
  "ror16 w shift = drop_bit (unat (shift AND 15)) w OR push_bit (unat (- shift AND 15)) w"
definition rol8 :: "u8 \<Rightarrow> u32 \<Rightarrow> u8" where
  "rol8 w shift = push_bit (unat (shift AND 7)) w OR drop_bit (unat (- shift AND 7)) w"
definition ror8 :: "u8 \<Rightarrow> u32 \<Rightarrow> u8" where
  "ror8 w shift = drop_bit (unat (shift AND 7)) w OR push_bit (unat (- shift AND 7)) w"

subsection \<open>math.h, math64.h and err.h\<close>

definition round_mask :: "'a word \<Rightarrow> 'a :: len word" where
  "round_mask y = y - 1"

definition round_up :: "'a word \<Rightarrow> 'a word \<Rightarrow> 'a :: len word" where
  "round_up x y = ((x - 1) OR round_mask y) + 1"

definition round_down :: "'a word \<Rightarrow> 'a word \<Rightarrow> 'a :: len word" where
  "round_down x y = x AND NOT (round_mask y)"

definition DIV_ROUND_UP :: "'a word \<Rightarrow> 'a word \<Rightarrow> 'a :: len word" where
  "DIV_ROUND_UP n d = (n + d - 1) div d"

definition roundup :: "'a word \<Rightarrow> 'a word \<Rightarrow> 'a :: len word" where
  "roundup x y = ((x + (y - 1)) div y) * y"

definition rounddown :: "'a word \<Rightarrow> 'a word \<Rightarrow> 'a :: len word" where
  "rounddown x y = x - x mod y"

definition div_u64_rem :: "u64 \<Rightarrow> u32 \<Rightarrow> u64 \<times> u32" where
  "div_u64_rem dividend divisor = (dividend div ucast divisor, ucast (dividend mod ucast divisor))"

definition MAX_ERRNO :: int where "MAX_ERRNO = 4095"

definition IS_ERR_VALUE :: "u64 \<Rightarrow> bool" where
  "IS_ERR_VALUE x \<longleftrightarrow> x \<ge> word_of_int (- MAX_ERRNO)"

definition ERR_PTR :: "64 word \<Rightarrow> u64" where "ERR_PTR error = error"

definition PTR_ERR :: "u64 \<Rightarrow> int" where "PTR_ERR ptr = sint ptr"

definition IS_ERR :: "u64 \<Rightarrow> bool" where "IS_ERR ptr \<longleftrightarrow> IS_ERR_VALUE ptr"

definition IS_ERR_OR_NULL :: "u64 \<Rightarrow> bool" where
  "IS_ERR_OR_NULL ptr \<longleftrightarrow> ptr = 0 \<or> IS_ERR_VALUE ptr"

definition PTR_ERR_OR_ZERO :: "u64 \<Rightarrow> int" where
  "PTR_ERR_OR_ZERO ptr = (if IS_ERR ptr then PTR_ERR ptr else 0)"

subsection \<open>Byte order\<close>

lemma byte_mask: "(0xff :: 'a :: len word) = mask 8"
  by (simp add: mask_eq_exp_minus_1)

lemma byte_masks16: "(0xff00 :: u16) = push_bit 8 (mask 8)"
  by (simp add: mask_eq_exp_minus_1)

lemma byte_masks32: "(0xff00 :: u32) = push_bit 8 (mask 8)" "(0xff0000 :: u32) = push_bit 16 (mask 8)"
  "(0xff000000 :: u32) = push_bit 24 (mask 8)"
  by (simp_all add: mask_eq_exp_minus_1)

lemma byte_masks64: "(0xff00 :: u64) = push_bit 8 (mask 8)" "(0xff0000 :: u64) = push_bit 16 (mask 8)"
  "(0xff000000 :: u64) = push_bit 24 (mask 8)" "(0xff00000000 :: u64) = push_bit 32 (mask 8)"
  "(0xff0000000000 :: u64) = push_bit 40 (mask 8)" "(0xff000000000000 :: u64) = push_bit 48 (mask 8)"
  "(0xff00000000000000 :: u64) = push_bit 56 (mask 8)"
  by (simp_all add: mask_eq_exp_minus_1)

text \<open>The bytes of a word, lowest first.\<close>

definition word_byte :: "'a :: len word \<Rightarrow> nat \<Rightarrow> u8" where
  "word_byte x i = ucast (drop_bit (8 * i) x)"

lemma num_le_word: "num_le n (unat x div 2 ^ (8 * k)) = map (\<lambda>i. word_byte x (k + i)) [0..<n]"
proof (induction n arbitrary: k)
  case (Suc n)
  have "unat x div 2 ^ (8 * k) div 256 = unat x div 2 ^ (8 * Suc k)"
    by (simp add: div_mult2_eq [symmetric] mult.commute power_add)
  with Suc [of "Suc k"] have "num_le n (unat x div 2 ^ (8 * k) div 256) = map (\<lambda>i. word_byte x (Suc k + i)) [0..<n]"
    by simp
  moreover have "(of_nat (unat x div 2 ^ (8 * k)) :: u8) = word_byte x k"
    by (simp add: word_byte_def unat_drop_bit_eq [symmetric] drop_bit_eq_div [symmetric])
  ultimately show ?case by (simp add: map_upt_Suc del: upt_Suc)
qed simp

lemma num_le_word_bytes: "num_le n (unat x) = map (word_byte x) [0..<n]"
  using num_le_word [of n x 0] by simp

lemma word_byte_swab16: "word_byte (swab16 x) 0 = word_byte x 1" "word_byte (swab16 x) 1 = word_byte x 0"
  by (rule bit_word_eqI;
      simp add: word_byte_def swab16_def byte_mask byte_masks16 bit_simps, linarith?)+

lemma word_byte_swab32:
  "word_byte (swab32 x) 0 = word_byte x 3" "word_byte (swab32 x) 1 = word_byte x 2"
  "word_byte (swab32 x) 2 = word_byte x 1" "word_byte (swab32 x) 3 = word_byte x 0"
  by (rule bit_word_eqI;
      simp add: word_byte_def swab32_def byte_mask byte_masks32 bit_simps, linarith?)+

lemma word_byte_swab64:
  "word_byte (swab64 x) 0 = word_byte x 7" "word_byte (swab64 x) 1 = word_byte x 6"
  "word_byte (swab64 x) 2 = word_byte x 5" "word_byte (swab64 x) 3 = word_byte x 4"
  "word_byte (swab64 x) 4 = word_byte x 3" "word_byte (swab64 x) 5 = word_byte x 2"
  "word_byte (swab64 x) 6 = word_byte x 1" "word_byte (swab64 x) 7 = word_byte x 0"
  by (rule bit_word_eqI;
      simp add: word_byte_def swab64_def byte_mask byte_masks64 bit_simps, linarith?)+

lemmas word_byte_swab = word_byte_swab16 word_byte_swab32 word_byte_swab64

lemma upt_numerals: "[0..<2] = [0, 1::nat]" "[0..<4] = [0, 1, 2, 3::nat]" "[0..<8] = [0, 1, 2, 3, 4, 5, 6, 7::nat]"
  by (simp_all add: upt_rec)

lemma num_le_swab:
  "num_le 2 (unat (swab16 x)) = rev (num_le 2 (unat x))"
  "num_le 4 (unat (swab32 y)) = rev (num_le 4 (unat y))"
  "num_le 8 (unat (swab64 z)) = rev (num_le 8 (unat z))"
  by (simp_all add: num_le_word_bytes upt_numerals word_byte_swab del: One_nat_def)

lemma unat_bound16: "unat (x :: u16) < 256 ^ 2" and unat_bound32: "unat (y :: u32) < 256 ^ 4"
  and unat_bound64: "unat (z :: u64) < 256 ^ 8"
  using unsigned_less [of x, where ?'a = nat] unsigned_less [of y, where ?'a = nat]
    unsigned_less [of z, where ?'a = nat] by simp_all

lemma le_num_word:
  "(of_nat (le_num (num_le 2 (unat x))) :: u16) = x"
  "(of_nat (le_num (num_le 4 (unat y))) :: u32) = y"
  "(of_nat (le_num (num_le 8 (unat z))) :: u64) = z"
  using unat_bound16 [of x] unat_bound32 [of y] unat_bound64 [of z] by (simp_all add: le_num_num_le)

lemma swab_swab: "swab16 (swab16 x) = x" "swab32 (swab32 y) = y" "swab64 (swab64 z) = z"
  using le_num_word(1) [of "swab16 (swab16 x)"] le_num_word(2) [of "swab32 (swab32 y)"]
    le_num_word(3) [of "swab64 (swab64 z)"]
  by (simp_all only: num_le_swab rev_rev_ident le_num_word)

lemmas byte_order_defs =
  cpu_to_le16_def cpu_to_le32_def cpu_to_le64_def cpu_to_be16_def cpu_to_be32_def cpu_to_be64_def
  le16_to_cpu_def le32_to_cpu_def le64_to_cpu_def be16_to_cpu_def be32_to_cpu_def be64_to_cpu_def
  gen_cast_def

lemmas unaligned_defs =
  get_unaligned_le16_w_def get_unaligned_le32_w_def get_unaligned_le64_w_def
  put_unaligned_le16_w_def put_unaligned_le32_w_def put_unaligned_le64_w_def
  get_unaligned_be16_def get_unaligned_be32_def get_unaligned_be64_def
  put_unaligned_be16_def put_unaligned_be32_def put_unaligned_be64_def
  get_unaligned_cpu16_def get_unaligned_cpu32_def get_unaligned_cpu64_def
  put_unaligned_cpu16_def put_unaligned_cpu32_def put_unaligned_cpu64_def cpu_bytes_def cpu_load_def

lemma put_le_host:
  "put_unaligned_le16_w lend x m p = put_unaligned_le16 (unat x) m p"
  "put_unaligned_le32_w lend y m p = put_unaligned_le32 (unat y) m p"
  "put_unaligned_le64_w lend z m p = put_unaligned_le64 (unat z) m p"
  by (simp_all add: unaligned_defs byte_order_defs num_le_swab put_unaligned_le16_def put_unaligned_le32_def
      put_unaligned_le64_def)

lemma put_be_host:
  "put_unaligned_be16 lend x m p = write_bytes m p (rev (num_le 2 (unat x)))"
  "put_unaligned_be32 lend y m p = write_bytes m p (rev (num_le 4 (unat y)))"
  "put_unaligned_be64 lend z m p = write_bytes m p (rev (num_le 8 (unat z)))"
  by (simp_all add: unaligned_defs byte_order_defs num_le_swab)

lemma of_nat_rev_swab:
  "length bs = 2 \<Longrightarrow> swab16 (of_nat (le_num (rev bs))) = of_nat (le_num bs)"
  "length cs = 4 \<Longrightarrow> swab32 (of_nat (le_num (rev cs))) = of_nat (le_num cs)"
  "length ds = 8 \<Longrightarrow> swab64 (of_nat (le_num (rev ds))) = of_nat (le_num ds)"
proof -
  show "swab16 (of_nat (le_num (rev bs))) = of_nat (le_num bs)" if "length bs = 2"
  proof -
    define x :: u16 where "x = of_nat (le_num (rev bs))"
    have "num_le 2 (unat x) = rev bs"
      using num_le_le_num [of "rev bs"] le_num_bound [of "rev bs"] that by (simp add: x_def unat_of_nat)
    then have "num_le 2 (unat (swab16 x)) = bs" by (simp add: num_le_swab)
    then show ?thesis using le_num_word(1) [of "swab16 x"] by (simp add: x_def)
  qed
  show "swab32 (of_nat (le_num (rev cs))) = of_nat (le_num cs)" if "length cs = 4"
  proof -
    define x :: u32 where "x = of_nat (le_num (rev cs))"
    have "num_le 4 (unat x) = rev cs"
      using num_le_le_num [of "rev cs"] le_num_bound [of "rev cs"] that by (simp add: x_def unat_of_nat)
    then have "num_le 4 (unat (swab32 x)) = cs" by (simp add: num_le_swab)
    then show ?thesis using le_num_word(2) [of "swab32 x"] by (simp add: x_def)
  qed
  show "swab64 (of_nat (le_num (rev ds))) = of_nat (le_num ds)" if "length ds = 8"
  proof -
    define x :: u64 where "x = of_nat (le_num (rev ds))"
    have "num_le 8 (unat x) = rev ds"
      using num_le_le_num [of "rev ds"] le_num_bound [of "rev ds"] that by (simp add: x_def unat_of_nat)
    then have "num_le 8 (unat (swab64 x)) = ds" by (simp add: num_le_swab)
    then show ?thesis using le_num_word(3) [of "swab64 x"] by (simp add: x_def)
  qed
qed

lemma get_le_host:
  "get_unaligned_le16_w lend m p = of_nat (get_unaligned_le16 m p)"
  "get_unaligned_le32_w lend m p = of_nat (get_unaligned_le32 m p)"
  "get_unaligned_le64_w lend m p = of_nat (get_unaligned_le64 m p)"
  by (simp_all add: unaligned_defs byte_order_defs of_nat_rev_swab get_unaligned_le16_def
      get_unaligned_le32_def get_unaligned_le64_def)

lemma get_be_host:
  "get_unaligned_be16 lend m p = of_nat (le_num (rev (bytes m p 2)))"
  "get_unaligned_be32 lend m p = of_nat (le_num (rev (bytes m p 4)))"
  "get_unaligned_be64 lend m p = of_nat (le_num (rev (bytes m p 8)))"
  using of_nat_rev_swab(1) [of "rev (bytes m p 2)"] of_nat_rev_swab(2) [of "rev (bytes m p 4)"]
    of_nat_rev_swab(3) [of "rev (bytes m p 8)"]
  by (simp_all add: unaligned_defs byte_order_defs)

text \<open>The accessors of 3 and 6 bytes.\<close>

lemma bit_stored_byte:
  fixes v :: "'a :: len word"
  assumes "n < LENGTH('a)"
  shows "bit (push_bit k (ucast (ucast (drop_bit k v) :: u8) :: 'a word)) n \<longleftrightarrow> k \<le> n \<and> n < k + 8 \<and> bit v n"
    "bit (ucast (ucast v :: u8) :: 'a word) n \<longleftrightarrow> n < 8 \<and> bit v n"
proof -
  have "n - k < LENGTH(8) \<longleftrightarrow> n < k + 8" if "k \<le> n" using that by auto
  then show "bit (push_bit k (ucast (ucast (drop_bit k v) :: u8) :: 'a word)) n \<longleftrightarrow> k \<le> n \<and> n < k + 8 \<and> bit v n"
    using assms by (auto simp: bit_simps)
  show "bit (ucast (ucast v :: u8) :: 'a word) n \<longleftrightarrow> n < 8 \<and> bit v n"
    using assms by (auto simp: bit_simps)
qed

lemma get_put_24: "get_unaligned_be24 (put_unaligned_be24 v m p) p = take_bit 24 v"
  "get_unaligned_le24 (put_unaligned_le24 v m p) p = take_bit 24 v"
  by (rule bit_word_eqI;
      auto simp add: get_unaligned_be24_def put_unaligned_be24_def get_unaligned_le24_def put_unaligned_le24_def
        write_bytes_def bit_or_iff bit_stored_byte bit_take_bit_iff)+

lemma u8_bit_bound: "bit (b :: u8) i \<Longrightarrow> i < 8"
  using bit_imp_le_length [of b i] by simp

lemma ucast_low_bytes:
  "(ucast (push_bit 16 (ucast a) OR push_bit 8 (ucast b) OR ucast c :: u32) :: u64) =
     push_bit 16 (ucast (a :: u8)) OR push_bit 8 (ucast (b :: u8)) OR ucast (c :: u8)"
proof (rule bit_word_eqI)
  fix n
  have "bit a (n - 16) \<Longrightarrow> n < 32" "bit b (n - 8) \<Longrightarrow> n < 32" "bit c n \<Longrightarrow> n < 32"
    by (auto dest!: u8_bit_bound)
  then show "bit (ucast (push_bit 16 (ucast a) OR push_bit 8 (ucast b) OR ucast c :: u32) :: u64) n =
     bit (push_bit 16 (ucast a) OR push_bit 8 (ucast b) OR ucast c :: u64) n"
    by (simp add: bit_simps) (auto dest: u8_bit_bound)
qed

lemma get_put_48: "get_unaligned_be48 (put_unaligned_be48 w m p) p = take_bit 48 w"
  by (rule bit_word_eqI)
    (auto simp add: get_unaligned_be48_def put_unaligned_be48_def ucast_low_bytes
        write_bytes_def bit_or_iff bit_stored_byte bit_take_bit_iff)

subsection \<open>Bits and rotations\<close>

lemma unat_and_mask: "unat (s AND mask n :: 'a :: len word) = unat s mod 2 ^ n" if "n < LENGTH('a)"
proof -
  have "unat (take_bit n s) = take_bit n (unat s)" by (rule unsigned_take_bit_eq)
  then show ?thesis by (simp only: take_bit_eq_mask [symmetric]) (simp add: take_bit_eq_mod)
qed

lemma shift_masks: "(63 :: u32) = mask 6" "(31 :: u32) = mask 5" "(15 :: u32) = mask 4" "(7 :: u32) = mask 3"
  by (simp_all add: mask_eq_exp_minus_1)

lemma unat_neg_mask:
  assumes "n < 32"
  shows "unat (- s AND mask n :: u32) = (if unat s mod 2 ^ n = 0 then 0 else 2 ^ n - unat s mod 2 ^ n)"
proof -
  have d: "(2 :: int) ^ n dvd 2 ^ 32" using assms by (intro le_imp_power_dvd) simp
  have "int (unat (- s AND mask n)) = uint (- s) mod 2 ^ n"
    using assms by (simp add: unat_and_mask zmod_int)
  also have "uint (- s) = (- uint s) mod 2 ^ 32" by (simp add: uint_word_ariths)
  also have "\<dots> mod 2 ^ n = (- uint s) mod 2 ^ n" using d by (rule mod_mod_cancel)
  also have "\<dots> = (if uint s mod 2 ^ n = 0 then 0 else 2 ^ n - uint s mod 2 ^ n)"
    by (rule zmod_zminus1_eq_if)
  also have "uint s mod 2 ^ n = int (unat s mod 2 ^ n)" by (simp add: zmod_int)
  finally have "int (unat (- s AND mask n)) = int (if unat s mod 2 ^ n = 0 then 0 else 2 ^ n - unat s mod 2 ^ n)"
    by (auto simp: of_nat_diff less_imp_le)
  then show ?thesis by (simp only: of_nat_eq_iff)
qed

text \<open>Shifting both ways by complementary amounts is a rotation.\<close>

lemma or_shifts_rotl:
  fixes w :: "'a :: len word"
  assumes "k < LENGTH('a)"
  shows "push_bit k w OR drop_bit (if k = 0 then 0 else LENGTH('a) - k) w = word_rotl k w"
    "drop_bit k w OR push_bit (if k = 0 then 0 else LENGTH('a) - k) w = word_rotr k w"
proof -
  have l: "(n + LENGTH('a) - k) mod LENGTH('a) = (if n < k then n + LENGTH('a) - k else n - k)" if "n < LENGTH('a)" for n
    using that assms by (auto simp: mod_if)
  have r: "(n + k) mod LENGTH('a) = (if n + k < LENGTH('a) then n + k else n + k - LENGTH('a))" if "n < LENGTH('a)" for n
    using that assms by (auto simp: mod_if)
  show "push_bit k w OR drop_bit (if k = 0 then 0 else LENGTH('a) - k) w = word_rotl k w"
    by (rule bit_word_eqI) (use assms in \<open>auto simp: bit_simps bit_word_rotl_iff l add.commute [of "LENGTH('a)"] dest: bit_imp_le_length\<close>)
  show "drop_bit k w OR push_bit (if k = 0 then 0 else LENGTH('a) - k) w = word_rotr k w"
    by (rule bit_word_eqI) (use assms in \<open>auto simp: bit_simps bit_word_rotr_iff r add.commute [of k] dest: bit_imp_le_length\<close>)
qed

lemma masked_shifts:
  fixes w :: "'a :: len word" and s :: u32
  assumes "LENGTH('a) = 2 ^ n" "n < 32"
  shows "push_bit (unat (s AND mask n)) w OR drop_bit (unat (- s AND mask n)) w = word_rotl (unat s mod 2 ^ n) w"
    "drop_bit (unat (s AND mask n)) w OR push_bit (unat (- s AND mask n)) w = word_rotr (unat s mod 2 ^ n) w"
proof -
  have "unat s mod 2 ^ n < LENGTH('a)" using assms(1) by simp
  note r = or_shifts_rotl [OF this, of w, unfolded assms(1)]
  have m: "unat (s AND mask n) = unat s mod 2 ^ n" using assms(2) by (intro unat_and_mask) simp
  show "push_bit (unat (s AND mask n)) w OR drop_bit (unat (- s AND mask n)) w = word_rotl (unat s mod 2 ^ n) w"
    "drop_bit (unat (s AND mask n)) w OR push_bit (unat (- s AND mask n)) w = word_rotr (unat s mod 2 ^ n) w"
    unfolding unat_neg_mask [OF assms(2)] m by (rule r(1), rule r(2))
qed

lemma rotations:
  "rol64 a s = word_rotl (unat s mod 64) a" "ror64 a s = word_rotr (unat s mod 64) a"
  "rol32 b s = word_rotl (unat s mod 32) b" "ror32 b s = word_rotr (unat s mod 32) b"
  "rol16 c s = word_rotl (unat s mod 16) c" "ror16 c s = word_rotr (unat s mod 16) c"
  "rol8 d s = word_rotl (unat s mod 8) d" "ror8 d s = word_rotr (unat s mod 8) d"
  unfolding rol64_def ror64_def rol32_def ror32_def rol16_def ror16_def rol8_def ror8_def shift_masks
  by (subst masked_shifts; simp)+

lemma bit_nr_bit: "bit (nr_bit nr) n \<longleftrightarrow> n = nr mod 64"
  by (auto simp: nr_bit_def bit_exp_iff)

lemma and_nr_bit: "x AND nr_bit nr \<noteq> 0 \<longleftrightarrow> bit x (nr mod 64)"
proof
  assume "x AND nr_bit nr \<noteq> 0"
  then obtain n where "bit (x AND nr_bit nr) n" using bit_eq_iff [of "x AND nr_bit nr" 0] by auto
  then show "bit x (nr mod 64)" by (auto simp: bit_and_iff bit_nr_bit)
next
  assume "bit x (nr mod 64)"
  then have "bit (x AND nr_bit nr) (nr mod 64)" by (simp add: bit_and_iff bit_nr_bit)
  then show "x AND nr_bit nr \<noteq> 0" by auto
qed

text \<open>The bit numbered \<open>nr\<close> of a bitmap.\<close>

lemma test_bit_bit: "test_bit nr addr \<longleftrightarrow> bit (addr (nr div 64)) (nr mod 64)"
  by (simp add: test_bit_def nr_addr_def and_nr_bit)

lemma bit_number_eq: "i div 64 = j div 64 \<Longrightarrow> i mod 64 = j mod 64 \<Longrightarrow> i = (j :: nat)"
  by (metis div_mult_mod_eq)

lemma test_set_bit: "test_bit i (set_bit_op j addr) \<longleftrightarrow> i = j \<or> test_bit i addr"
  by (auto simp: test_bit_bit set_bit_op_def nr_addr_def bit_or_iff bit_nr_bit dest: bit_number_eq)

lemma test_clear_bit: "test_bit i (clear_bit j addr) \<longleftrightarrow> i \<noteq> j \<and> test_bit i addr"
proof -
  have "i mod 64 < 64" by simp
  then show ?thesis
    by (auto simp: test_bit_bit clear_bit_def nr_addr_def bit_and_iff bit_not_iff bit_nr_bit dest: bit_number_eq)
qed

lemma test_and_change:
  "test_and_set_bit nr addr = (test_bit (nr mod 64) addr, set_bit_op (nr mod 64) addr)"
  "test_and_clear_bit nr addr = (test_bit (nr mod 64) addr, clear_bit (nr mod 64) addr)"
  by (simp_all add: test_and_set_bit_def test_and_clear_bit_def test_bit_def set_bit_op_def clear_bit_def
      nr_addr_def nr_bit_def Let_def)

subsection \<open>Rounding and error pointers\<close>

lemma and_not_mask: "x AND NOT (mask k) = push_bit k (drop_bit k (x :: 'a :: len word))"
  by (rule bit_word_eqI) (auto simp: bit_simps)

lemma unat_and_not_mask: "unat (x AND NOT (mask k) :: 'a :: len word) = unat x div 2 ^ k * 2 ^ k"
proof -
  have "unat (push_bit k (drop_bit k x)) = take_bit LENGTH('a) (push_bit k (unat (drop_bit k x)))"
    by (rule unsigned_push_bit_eq)
  also have "push_bit k (unat (drop_bit k x)) = unat x div 2 ^ k * 2 ^ k"
    by (simp only: unat_drop_bit_eq push_bit_eq_mult) (simp add: drop_bit_eq_div)
  also have "take_bit LENGTH('a) \<dots> = \<dots>"
  proof -
    have "unat x div 2 ^ k * 2 ^ k \<le> unat x" by (rule div_times_less_eq_dividend)
    also have "unat x < 2 ^ LENGTH('a)" by (rule unsigned_less)
    finally show ?thesis by (simp add: take_bit_eq_mod)
  qed
  finally show ?thesis by (simp add: and_not_mask)
qed

lemma or_mask_add: "x OR mask k = (x AND NOT (mask k)) + (mask k :: 'a :: len word)"
proof -
  have "(x AND NOT (mask k)) AND mask k = 0" by (rule bit_word_eqI) (auto simp: bit_simps)
  then have "(x AND NOT (mask k)) + mask k = (x AND NOT (mask k)) OR mask k"
    by (simp add: disjunctive_add_eq_or)
  also have "\<dots> = x OR mask k" by (rule bit_word_eqI) (auto simp: bit_simps)
  finally show ?thesis by simp
qed

lemma round_mask_pow: "round_mask (2 ^ k) = mask k"
  by (simp add: round_mask_def mask_eq_exp_minus_1)

lemma round_down_pow: "unat (round_down x (2 ^ k)) = unat x div 2 ^ k * 2 ^ k"
  by (simp add: round_down_def round_mask_pow unat_and_not_mask)

lemma div_ceil:
  fixes x d :: nat
  assumes "0 < d" "0 < x"
  shows "(x - 1) div d * d + d = (x + d - 1) div d * d"
proof -
  have "x + d - 1 = (x - 1) + d" using assms(2) by simp
  then have "(x + d - 1) div d = (x - 1) div d + 1" using assms(1) by (simp only: div_add_self2)
  then show ?thesis by simp
qed

lemma round_up_pow:
  fixes x :: "'a :: len word"
  assumes "k < LENGTH('a)" "unat x + 2 ^ k \<le> 2 ^ LENGTH('a)"
  shows "unat (round_up x (2 ^ k)) = (unat x + 2 ^ k - 1) div 2 ^ k * 2 ^ k"
proof (cases "x = 0")
  case True
  have "(2 :: nat) ^ k - 1 < 2 ^ k" by simp
  then have "((2 :: nat) ^ k - 1) div 2 ^ k = 0" by (rule div_less)
  then show ?thesis by (simp add: True round_up_def)
next
  case False
  then have x: "unat (x - 1) = unat x - 1" "0 < unat x"
    by (simp_all add: unat_minus_one unat_gt_0)
  define y where "y = (unat x - 1) div 2 ^ k * 2 ^ k"
  have e: "round_up x (2 ^ k) = ((x - 1) AND NOT (mask k)) + 2 ^ k"
    unfolding round_up_def round_mask_pow or_mask_add by (simp add: mask_eq_exp_minus_1 [of k])
  have "y \<le> unat x - 1" unfolding y_def by (rule div_times_less_eq_dividend)
  then have "y + 2 ^ k < 2 ^ LENGTH('a)" using assms(2) x(2) by linarith
  moreover have "unat ((x - 1) AND NOT (mask k)) = y" by (simp add: unat_and_not_mask x(1) y_def)
  moreover have "unat (2 ^ k :: 'a word) = 2 ^ k" 
    using assms(1) unat_of_nat [of "2 ^ k", where ?'a = 'a] by simp
  ultimately have "unat (round_up x (2 ^ k)) = y + 2 ^ k"
    unfolding e by (subst unat_add_lem [THEN iffD1]) simp_all
  then show ?thesis using div_ceil [of "2 ^ k" "unat x"] x(2) by (simp add: y_def)
qed

lemma DIV_ROUND_UP_ceil:
  fixes n d :: "'a :: len word"
  assumes "0 < d" "unat n + unat d \<le> 2 ^ LENGTH('a)"
  shows "unat (DIV_ROUND_UP n d) = (unat n + unat d - 1) div unat d"
proof -
  have d: "0 < unat d" using assms(1) by (simp add: unat_gt_0 word_neq_0_conv)
  have "n + d - 1 = n + (d - 1)" by simp
  moreover have "unat (d - 1) = unat d - 1" using d by (simp add: unat_minus_one unat_gt_0)
  ultimately have "unat (n + d - 1) = unat n + unat d - 1"
    using assms(2) d by (simp only: ) (subst unat_add_lem [THEN iffD1]; simp)
  then show ?thesis by (simp add: DIV_ROUND_UP_def unat_div)
qed

text \<open>Error pointers.\<close>

lemma mod_wrap: "0 \<le> a \<Longrightarrow> a < 2 * m \<Longrightarrow> a mod m = (if a < m then a else a - m)" for a m :: int
  using mod_pos_pos_trivial [of "a - m" m] by (simp add: minus_mod_self2)

lemma IS_ERR_iff: "IS_ERR p \<longleftrightarrow> - 4095 \<le> sint p \<and> sint p < 0"
proof -
  have u: "uint p < 2 ^ 64" using unsigned_less [of p, where ?'a = int] by simp
  have "IS_ERR p \<longleftrightarrow> 2 ^ 64 - 4095 \<le> uint p"
    by (simp add: IS_ERR_def IS_ERR_VALUE_def MAX_ERRNO_def word_le_def uint_word_ariths)
  moreover have "sint p = (if uint p < 2 ^ 63 then uint p else uint p - 2 ^ 64)"
  proof -
    have "sint p = (uint p + 2 ^ 63) mod 2 ^ 64 - 2 ^ 63"
      by (simp add: sint_uint signed_take_bit_eq_take_bit_shift take_bit_eq_mod)
    moreover have "(uint p + 2 ^ 63) mod 2 ^ 64 = (if uint p < 2 ^ 63 then uint p + 2 ^ 63 else uint p + 2 ^ 63 - 2 ^ 64)"
      using u mod_wrap [of "uint p + 2 ^ 63" "2 ^ 64"] by simp
    ultimately show ?thesis by simp
  qed
  ultimately show ?thesis using u by auto
qed

subsection \<open>Properties\<close>

text \<open>C33: The unaligned accessors of a fixed byte order do not depend on the machine's
  own order: on either machine the little-endian stores and loads of
  \<open>unaligned.h\<close> are those the btree uses, a big-endian store puts the bytes in the
  opposite order, and loading after storing gives the value back, for 2, 4 and 8 bytes
  and, cut to their width, for 3 and 6.\<close>

theorem unaligned_host_independent:
  "put_unaligned_le16_w lend a m p = put_unaligned_le16 (unat a) m p \<and>
   put_unaligned_le32_w lend b m p = put_unaligned_le32 (unat b) m p \<and>
   put_unaligned_le64_w lend c m p = put_unaligned_le64 (unat c) m p \<and>
   get_unaligned_le16_w lend m p = of_nat (get_unaligned_le16 m p) \<and>
   get_unaligned_le32_w lend m p = of_nat (get_unaligned_le32 m p) \<and>
   get_unaligned_le64_w lend m p = of_nat (get_unaligned_le64 m p) \<and>
   bytes (put_unaligned_be64 lend c m p) p 8 = rev (num_le 8 (unat c)) \<and>
   get_unaligned_be16 lend (put_unaligned_be16 lend a m p) p = a \<and>
   get_unaligned_be32 lend (put_unaligned_be32 lend b m p) p = b \<and>
   get_unaligned_be64 lend (put_unaligned_be64 lend c m p) p = c \<and>
   get_unaligned_be24 (put_unaligned_be24 b m p) p = take_bit 24 b \<and>
   get_unaligned_le24 (put_unaligned_le24 b m p) p = take_bit 24 b \<and>
   get_unaligned_be48 (put_unaligned_be48 c m p) p = take_bit 48 c"
  unfolding put_le_host get_le_host get_be_host put_be_host get_put_24 get_put_48
  by (simp add: bytes_write_same le_num_word)

text \<open>\<open>set_bit\<close> and \<open>clear_bit\<close> change exactly the bit of their number in a
  bitmap of any size.  \<open>test_and_set_bit\<close> and \<open>test_and_clear_bit\<close> test and
  change the bit \<open>nr mod 64\<close> instead: they do what they say below 64, and from 64 on
  they neither read nor change the bit they are asked for.\<close>

theorem bit_operations:
  "(test_bit i (set_bit_op nr addr) \<longleftrightarrow> i = nr \<or> test_bit i addr) \<and>
   (test_bit i (clear_bit nr addr) \<longleftrightarrow> i \<noteq> nr \<and> test_bit i addr) \<and>
   fst (test_and_set_bit nr addr) = test_bit (nr mod 64) addr \<and>
   (test_bit i (snd (test_and_set_bit nr addr)) \<longleftrightarrow> i = nr mod 64 \<or> test_bit i addr) \<and>
   fst (test_and_clear_bit nr addr) = test_bit (nr mod 64) addr \<and>
   (test_bit i (snd (test_and_clear_bit nr addr)) \<longleftrightarrow> i \<noteq> nr mod 64 \<and> test_bit i addr)"
  by (simp add: test_set_bit test_clear_bit test_and_change)

text \<open>For a power of two, \<open>round_up\<close> gives the least multiple that is not below
  \<open>x\<close> when that fits the type, and \<open>round_down\<close> the greatest one that is not above
  \<open>x\<close>; \<open>DIV_ROUND_UP\<close> is the rounded up quotient when the sum it forms fits.\<close>

theorem rounding_bounds:
  fixes x d :: "'a :: len word"
  assumes "k < LENGTH('a)" "unat x + 2 ^ k \<le> 2 ^ LENGTH('a)" "0 < d" "unat x + unat d \<le> 2 ^ LENGTH('a)"
  shows "unat (round_up x (2 ^ k)) = (unat x + 2 ^ k - 1) div 2 ^ k * 2 ^ k \<and>
    x \<le> round_up x (2 ^ k) \<and> unat (round_up x (2 ^ k)) < unat x + 2 ^ k \<and>
    unat (round_down x (2 ^ k)) = unat x div 2 ^ k * 2 ^ k \<and>
    round_down x (2 ^ k) \<le> x \<and> unat x < unat (round_down x (2 ^ k)) + 2 ^ k \<and>
    unat (DIV_ROUND_UP x d) = (unat x + unat d - 1) div unat d"
proof -
  note u = round_up_pow [OF assms(1,2)] and dn = round_down_pow [of x k]
  have "unat x \<le> unat (round_up x (2 ^ k)) \<and> unat (round_up x (2 ^ k)) < unat x + 2 ^ k"
  proof -
    have "unat x + 2 ^ k - 1 = (unat x + 2 ^ k - 1) div 2 ^ k * 2 ^ k + (unat x + 2 ^ k - 1) mod 2 ^ k"
      by (rule div_mult_mod_eq [symmetric])
    moreover have "(unat x + 2 ^ k - 1) mod 2 ^ k < 2 ^ k" by simp
    moreover have "(0 :: nat) < 2 ^ k" by simp
    ultimately show ?thesis unfolding u by linarith
  qed
  moreover have "unat x div 2 ^ k * 2 ^ k \<le> unat x \<and> unat x < unat x div 2 ^ k * 2 ^ k + 2 ^ k"
  proof -
    have "unat x = unat x div 2 ^ k * 2 ^ k + unat x mod 2 ^ k" by (rule div_mult_mod_eq [symmetric])
    moreover have "unat x mod 2 ^ k < 2 ^ k" by simp
    ultimately show ?thesis by linarith
  qed
  ultimately show ?thesis using u dn DIV_ROUND_UP_ceil [OF assms(3,4)] by (simp add: word_le_nat_alt)
qed

theorem rounding_bounds_witness:
  "unat (round_up (4097 :: u16) 4096) = 8192 \<and> unat (DIV_ROUND_UP (4097 :: u16) 4096) = 2"
  using rounding_bounds [of 12 "4097 :: u16" 4096] by simp

text \<open>An error pointer carries an errno: for \<open>-4095 \<le> e < 0\<close>, and only for those,
  \<open>ERR_PTR e\<close> is recognised by \<open>IS_ERR\<close> and \<open>PTR_ERR\<close> gives \<open>e\<close> back, so
  the pointers of the last page and no others are errors.\<close>

theorem error_pointers:
  "PTR_ERR (ERR_PTR e) = sint e \<and> (IS_ERR (ERR_PTR e) \<longleftrightarrow> -4095 \<le> sint e \<and> sint e < 0) \<and>
   (IS_ERR_OR_NULL (ERR_PTR e) \<longleftrightarrow> -4095 \<le> sint e \<and> sint e \<le> 0) \<and>
   PTR_ERR_OR_ZERO (ERR_PTR e) = (if -4095 \<le> sint e \<and> sint e < 0 then sint e else 0)"
proof -
  have "IS_ERR_VALUE e \<longleftrightarrow> -4095 \<le> sint e \<and> sint e < 0" using IS_ERR_iff [of e] by (simp add: IS_ERR_def)
  moreover have "sint e = 0 \<longleftrightarrow> e = 0" by (metis signed_0 signed_word_eqI)
  ultimately show ?thesis
    by (auto simp: ERR_PTR_def PTR_ERR_def IS_ERR_def IS_ERR_OR_NULL_def PTR_ERR_OR_ZERO_def)
qed

end
