(* ===== verification/Block_Proto.thy ===== *)
theory Block_Proto
  imports Msg Lk_Words Block_Cache
begin

text \<open>
  Blocks over messages: the address map of \<open>shared/manifest.c\<close>, the client's block
  transport of \<open>shared/btr-msg.c\<close> and the server's handlers of \<open>devd/recv.c\<close>.  A
  handler sends its answer with \<open>ngnfs_msg_send\<close>; the model of a handler returns the
  descriptor it sends.
\<close>

definition NGNFS_BLOCK_SIZE :: nat where [simp]: "NGNFS_BLOCK_SIZE = 4096"

subsection \<open>manifest.c\<close>

record manifest_info =
  nr_addrs :: u8
  addrs :: "sockaddr_in list"

text \<open>A division by zero is not defined, nor is reading past the array.\<close>

definition ngnfs_manifest_map_block :: "manifest_info \<Rightarrow> u64 \<Rightarrow> sockaddr_in run" where
  "ngnfs_manifest_map_block mfinf bnr =
     (if nr_addrs mfinf = 0 then Undef
      else
        (let (_, rem) = div_u64_rem bnr (ucast (nr_addrs mfinf))
         in if unat rem < length (addrs mfinf) then Ret (addrs mfinf ! unat rem) else Undef))"

text \<open>The loop of \<open>ngnfs_manifest_setup\<close> over the list, with the u8 countdown and the array so far.\<close>

primrec manifest_fill :: "sockaddr_in list \<Rightarrow> u8 \<Rightarrow> sockaddr_in list \<Rightarrow> int \<times> u8 \<times> sockaddr_in list" where
  "manifest_fill [] nr arr = (0, nr, arr)"
| "manifest_fill (a # as) nr arr =
     (if nr = 0 then (- EINVAL, nr - 1, arr) else manifest_fill as (nr - 1) (arr @ [a]))"

definition ngnfs_manifest_setup :: "bool \<Rightarrow> sockaddr_in list \<Rightarrow> u8 \<Rightarrow> int \<times> manifest_info option" where
  "ngnfs_manifest_setup mem_ok as nr =
     (if \<not> mem_ok then (- ENOMEM, None)
      else
        (let (ret, left, arr) = manifest_fill as nr []
         in if ret < 0 then (ret, None)
            else if left \<noteq> 0 then (- EINVAL, None)
            else (0, Some \<lparr>nr_addrs = nr, addrs = arr\<rparr>)))"

definition ngnfs_manifest_destroy :: "manifest_info option \<Rightarrow> manifest_info option" where
  "ngnfs_manifest_destroy mfinf = None"

subsection \<open>Control structs\<close>

text \<open>
  The structs of \<open>format-msg.h\<close> as stores into the memory of a stack variable, whose
  other bytes (the padding) keep what the stack held.
\<close>

definition sizeof_get_block :: nat where [simp]: "sizeof_get_block = 16"
definition sizeof_get_block_result :: nat where [simp]: "sizeof_get_block_result = 16"
definition sizeof_write_block :: nat where [simp]: "sizeof_write_block = 8"
definition sizeof_write_block_result :: nat where [simp]: "sizeof_write_block_result = 16"

definition msg_get_block :: "mem \<Rightarrow> u64 \<Rightarrow> u8 \<Rightarrow> mem" where
  "msg_get_block stack bnr access = (put_unaligned_le64 (unat bnr) stack 0)(8 := access)"

definition msg_get_block_result :: "mem \<Rightarrow> u64 \<Rightarrow> u8 \<Rightarrow> u8 \<Rightarrow> mem" where
  "msg_get_block_result stack bnr access e = (put_unaligned_le64 (unat bnr) stack 0)(8 := access, 9 := e)"

definition msg_write_block :: "mem \<Rightarrow> u64 \<Rightarrow> mem" where
  "msg_write_block stack bnr = put_unaligned_le64 (unat bnr) stack 0"

definition msg_write_block_result :: "mem \<Rightarrow> u64 \<Rightarrow> u8 \<Rightarrow> mem" where
  "msg_write_block_result stack bnr e = (put_unaligned_le64 (unat bnr) stack 0)(8 := e)"

text \<open>Reading the fields of a control buffer.\<close>

definition ctl_bnr :: "msg_desc \<Rightarrow> u64" where
  "ctl_bnr mdesc = of_nat (get_unaligned_le64 (ctl_buf mdesc) 0)"

definition ctl_byte :: "nat \<Rightarrow> msg_desc \<Rightarrow> u8" where
  "ctl_byte i mdesc = ctl_buf mdesc i"

subsection \<open>btr-msg.c\<close>

text \<open>What \<open>ngnfs_btr_msg_submit_block\<close> sends to the address \<open>a\<close> of the block.\<close>

definition submit_desc :: "mem \<Rightarrow> btx_op \<Rightarrow> u64 \<Rightarrow> mem \<Rightarrow> sockaddr_in \<Rightarrow> msg_desc" where
  "submit_desc stack op bnr page a =
     (if op = NGNFS_BTX_OP_GET_READ \<or> op = NGNFS_BTX_OP_GET_WRITE
      then \<lparr>addr = a,
            ctl_buf = msg_get_block stack bnr
              (if op = NGNFS_BTX_OP_GET_READ then NGNFS_MSG_BLOCK_ACCESS_READ else NGNFS_MSG_BLOCK_ACCESS_WRITE),
            data_page = None, data_size = 0, ctl_size = of_nat sizeof_get_block, mtype = NGNFS_MSG_GET_BLOCK\<rparr>
      else \<lparr>addr = a, ctl_buf = msg_write_block stack bnr, data_page = Some page,
            data_size = of_nat NGNFS_BLOCK_SIZE, ctl_size = of_nat sizeof_write_block, mtype = NGNFS_MSG_WRITE_BLOCK\<rparr>)"

definition ngnfs_btr_msg_submit_block ::
    "(msg_desc \<Rightarrow> 'w \<Rightarrow> int \<times> 'w) \<Rightarrow> manifest_info \<Rightarrow> mem \<Rightarrow> btx_op \<Rightarrow> u64 \<Rightarrow> mem \<Rightarrow> 'w \<Rightarrow> (int \<times> 'w) run" where
  "ngnfs_btr_msg_submit_block send mfinf stack op bnr page w =
     bind_run (ngnfs_manifest_map_block mfinf bnr) (\<lambda>a. Ret (send (submit_desc stack op bnr page a) w))"

definition ngnfs_btr_msg_get_block_result :: "msg_desc \<Rightarrow> block_info \<Rightarrow> (int \<times> block_info) run" where
  "ngnfs_btr_msg_get_block_result mdesc st =
     (let e = ctl_byte 9 mdesc
      in if unat (ctl_size mdesc) \<noteq> sizeof_get_block_result \<or>
            e = NGNFS_MSG_ERR_OK \<and> unat (data_size mdesc) \<noteq> NGNFS_BLOCK_SIZE \<or>
            e \<noteq> NGNFS_MSG_ERR_OK \<and> data_size mdesc \<noteq> 0
         then Ret (- EINVAL, st)
         else bind_run (ngnfs_block_end_io st (ctl_bnr mdesc) (data_page mdesc) (ngnfs_msg_errno e))
                (\<lambda>st. Ret (0, st)))"

definition ngnfs_btr_msg_write_block_result :: "msg_desc \<Rightarrow> block_info \<Rightarrow> (int \<times> block_info) run" where
  "ngnfs_btr_msg_write_block_result mdesc st =
     (if unat (ctl_size mdesc) \<noteq> sizeof_write_block_result \<or> data_size mdesc \<noteq> 0
      then Ret (- EINVAL, st)
      else bind_run (ngnfs_block_end_io st (ctl_bnr mdesc) (data_page mdesc) (ngnfs_msg_errno (ctl_byte 8 mdesc)))
             (\<lambda>st. Ret (0, st)))"

definition ngnfs_btr_msg_queue_depth :: int where
  "ngnfs_btr_msg_queue_depth = 32"

definition ngnfs_btr_msg_setup :: "'t msg_info \<Rightarrow> int \<times> 't msg_info" where
  "ngnfs_btr_msg_setup minf =
     (let (ret, minf) = ngnfs_msg_register_recv NGNFS_MSG_GET_BLOCK_RESULT Get_block_result minf
      in if ret \<noteq> 0 then (ret, minf)
         else ngnfs_msg_register_recv NGNFS_MSG_WRITE_BLOCK_RESULT Write_block_result minf)"

definition ngnfs_btr_msg_destroy :: "'t msg_info option \<Rightarrow> 't msg_info option" where
  "ngnfs_btr_msg_destroy minf =
     ngnfs_msg_unregister_recv NGNFS_MSG_WRITE_BLOCK_RESULT Write_block_result
       (ngnfs_msg_unregister_recv NGNFS_MSG_GET_BLOCK_RESULT Get_block_result minf)"

subsection \<open>devd/recv.c\<close>

text \<open>
  The handlers.  \<open>get\<close> is \<open>ngnfs_block_get\<close> run until it returns, \<open>page\<close> the page
  of the block; \<open>write\<close> is the transaction that adds the block and executes, with
  its return value, \<open>sync\<close> is \<open>ngnfs_block_sync\<close> run until it returns; \<open>send\<close> is
  \<open>ngnfs_msg_send\<close>, and the rest is the state of the device's block cache.
\<close>

definition devd_get_block ::
    "(u64 \<Rightarrow> u32 \<Rightarrow> 's \<Rightarrow> (int + bid) \<times> 's) \<Rightarrow> (bid \<Rightarrow> 's \<Rightarrow> mem) \<Rightarrow> (bid \<Rightarrow> 's \<Rightarrow> 's) \<Rightarrow> (msg_desc \<Rightarrow> 's \<Rightarrow> int \<times> 's) \<Rightarrow>
     mem \<Rightarrow> msg_desc \<Rightarrow> 's \<Rightarrow> int \<times> 's" where
  "devd_get_block get page put send stack mdesc s =
     (if unat (ctl_size mdesc) \<noteq> sizeof_get_block \<or> ctl_byte 8 mdesc \<ge> NGNFS_MSG_BLOCK_ACCESS__UNKNOWN \<or>
         data_size mdesc \<noteq> 0
      then (- EINVAL, s)
      else
        (let (bl, s) = get (ctl_bnr mdesc) NBF_READ s;
             ret = (case bl of Inl e \<Rightarrow> e | Inr _ \<Rightarrow> 0);
             res = msg_get_block_result stack (ctl_bnr mdesc) (ctl_byte 8 mdesc) (ngnfs_msg_err ret);
             res_mdesc = \<lparr>addr = addr mdesc, ctl_buf = res,
                          data_page = (case bl of Inl _ \<Rightarrow> None | Inr b \<Rightarrow> Some (page b s)),
                          data_size = (case bl of Inl _ \<Rightarrow> 0 | Inr _ \<Rightarrow> of_nat NGNFS_BLOCK_SIZE),
                          ctl_size = of_nat sizeof_get_block_result, mtype = NGNFS_MSG_GET_BLOCK_RESULT\<rparr>;
             (ret, s) = send res_mdesc s
         in (ret, case bl of Inl _ \<Rightarrow> s | Inr b \<Rightarrow> put b s)))"

definition commit_write_block :: "mem \<Rightarrow> mem \<Rightarrow> mem" where
  "commit_write_block page buf = memcpy buf 0 page 0 NGNFS_BLOCK_SIZE"

definition devd_write_block ::
    "(u64 \<Rightarrow> u32 \<Rightarrow> (mem \<Rightarrow> mem) \<Rightarrow> 's \<Rightarrow> int \<times> 's) \<Rightarrow> ('s \<Rightarrow> int \<times> 's) \<Rightarrow> (msg_desc \<Rightarrow> 's \<Rightarrow> int \<times> 's) \<Rightarrow>
     mem \<Rightarrow> msg_desc \<Rightarrow> 's \<Rightarrow> int \<times> 's" where
  "devd_write_block write sync send stack mdesc s =
     (if unat (ctl_size mdesc) \<noteq> sizeof_write_block \<or> unat (data_size mdesc) \<noteq> NGNFS_BLOCK_SIZE
      then (- EIO, s)
      else
        (let page = (case data_page mdesc of Some p \<Rightarrow> p | None \<Rightarrow> (\<lambda>_. 0));
             (ret, s) = write (ctl_bnr mdesc) (NBF_NEW OR NBF_WRITE) (commit_write_block page) s;
             (ret, s) = (if ret = 0 then sync s else (ret, s));
             res = msg_write_block_result stack (ctl_bnr mdesc) (ngnfs_msg_err ret)
         in send \<lparr>addr = addr mdesc, ctl_buf = res, data_page = None, data_size = 0,
                  ctl_size = of_nat sizeof_write_block_result, mtype = NGNFS_MSG_WRITE_BLOCK_RESULT\<rparr> s))"

definition devd_recv_setup :: "'t msg_info \<Rightarrow> int \<times> 't msg_info" where
  "devd_recv_setup minf =
     (let (ret, minf) = ngnfs_msg_register_recv NGNFS_MSG_GET_BLOCK Devd_get_block minf
      in if ret \<noteq> 0 then (ret, minf)
         else ngnfs_msg_register_recv NGNFS_MSG_WRITE_BLOCK Devd_write_block minf)"

definition devd_recv_destroy :: "'t msg_info option \<Rightarrow> 't msg_info option" where
  "devd_recv_destroy minf =
     ngnfs_msg_unregister_recv NGNFS_MSG_WRITE_BLOCK Devd_write_block
       (ngnfs_msg_unregister_recv NGNFS_MSG_GET_BLOCK Devd_get_block minf)"

end
