(* ===== verification/Block_Proto_Props.thy ===== *)
theory Block_Proto_Props
  imports Block_Proto
begin

text \<open>
  Properties of the block messages: requests and results fit together on both sides,
  errors arrive as errors, and the manifest gives every block an address.
\<close>

lemma msg_errno_err: "ngnfs_msg_errno (ngnfs_msg_err e) =
    (if e = 0 then 0 else if \<bar>e\<bar> = ENOMEM then - ENOMEM else - EIO)"
  by (simp add: ngnfs_msg_err_def ngnfs_msg_errno_def)

lemma msg_err_ok_iff: "ngnfs_msg_err e = 0 \<longleftrightarrow> e = 0"
  by (simp add: ngnfs_msg_err_def)

lemma get_le64_upd: "8 \<le> i \<Longrightarrow> get_unaligned_le64 (m(i := x)) 0 = get_unaligned_le64 m 0"
proof -
  assume "8 \<le> i"
  then have "bytes (m(i := x)) 0 8 = bytes m 0 8" by (intro bytes_cong) auto
  then show ?thesis by (simp add: get_unaligned_le64_def)
qed

lemma get_put_bnr: "(of_nat (get_unaligned_le64 (put_unaligned_le64 (unat bnr) m 0) 0) :: u64) = bnr"
  using unsigned_less [of bnr, where ?'a = nat] by (simp add: get_put_le64_same)

lemmas struct_fields =
  msg_get_block_def msg_get_block_result_def msg_write_block_def msg_write_block_result_def
  ctl_bnr_def ctl_byte_def get_le64_upd get_put_bnr

lemma manifest_fill_eq:
  "manifest_fill as nr arr =
     (if length as \<le> unat nr then (0, nr - of_nat (length as), arr @ as)
      else (- EINVAL, -1, arr @ take (unat nr) as))"
proof (induction as arbitrary: nr arr)
  case (Cons a as)
  show ?case
  proof (cases "nr = 0")
    case False
    then have u: "unat (nr - 1) = unat nr - 1" "0 < unat nr" by (simp_all add: unat_minus_one unat_gt_0)
    then have "take (unat nr) (a # as) = a # take (unat nr - 1) as" by (cases "unat nr") simp_all
    then show ?thesis using False u Cons [of "nr - 1" "arr @ [a]"] by (auto simp: algebra_simps)
  qed simp
qed simp

lemma left_zero_iff: "nr - of_nat (length as) = (0 :: u8) \<longleftrightarrow> unat nr = length as" if "length as \<le> unat nr"
proof -
  have "length as < 256" using that unsigned_less [of nr, where ?'a = nat] by simp
  then have "unat (of_nat (length as) :: u8) = length as" by (simp add: unat_of_nat)
  then have "nr = of_nat (length as) \<longleftrightarrow> unat nr = length as" by (metis word_unat_eq_iff)
  then show ?thesis by simp
qed

lemma manifest_setup_eq:
  "ngnfs_manifest_setup True as nr =
     (if unat nr = length as then (0, Some \<lparr>nr_addrs = nr, addrs = as\<rparr>) else (- EINVAL, None))"
  using left_zero_iff [of as nr] by (auto simp: ngnfs_manifest_setup_def manifest_fill_eq)

lemma manifest_map_eq:
  assumes "unat nr = length as" "as \<noteq> []"
  shows "ngnfs_manifest_map_block \<lparr>nr_addrs = nr, addrs = as\<rparr> bnr = Ret (as ! (unat bnr mod length as))"
proof -
  have nz: "nr \<noteq> 0" using assms by auto
  have n: "unat nr < 256" using unsigned_less [of nr, where ?'a = nat] by simp
  have e: "unat (ucast (ucast nr :: u32) :: u64) = unat nr"
  proof -
    have "unat (ucast nr :: u32) = take_bit LENGTH(32) (unat nr)" by (rule unsigned_ucast_eq)
    then have "unat (ucast nr :: u32) = unat nr" using n by (simp add: take_bit_eq_mod)
    moreover have "unat (ucast (ucast nr :: u32) :: u64) = take_bit LENGTH(64) (unat (ucast nr :: u32))"
      by (rule unsigned_ucast_eq)
    ultimately show ?thesis using n by (simp only: take_bit_eq_mod) simp
  qed
  have m: "unat bnr mod unat nr < 256" using n mod_less_divisor [of "unat nr" "unat bnr"] nz
    by (metis less_trans unat_gt_0)
  have "unat (ucast (bnr mod ucast (ucast nr :: u32)) :: u32) = unat bnr mod unat nr"
    using m e by (simp add: unsigned_ucast_eq take_bit_eq_mod unat_mod)
  then show ?thesis using nz assms by (simp add: ngnfs_manifest_map_block_def div_u64_rem_def)
qed

subsection \<open>Properties\<close>

text \<open>\<open>ngnfs_manifest_setup\<close> succeeds exactly when the count it is given is the length
  of the address list, and then, unless the list is empty, every block number maps to
  an address of the list, the one at the block number modulo the length: the index never
  leaves the array.\<close>

theorem manifest_maps_every_block:
  "(fst (ngnfs_manifest_setup True as nr) = 0 \<longleftrightarrow> unat nr = length as) \<and>
   (unat nr = length as \<longrightarrow> as \<noteq> [] \<longrightarrow>
     (\<exists>mf. ngnfs_manifest_setup True as nr = (0, Some mf) \<and>
       (\<forall>bnr. ngnfs_manifest_map_block mf bnr = Ret (as ! (unat bnr mod length as)))))"
  using manifest_map_eq by (auto simp: manifest_setup_eq)

theorem manifest_maps_every_block_witness:
  "\<exists>mf. ngnfs_manifest_setup True [(1, 2), (3, 4)] 2 = (0, Some mf) \<and>
     ngnfs_manifest_map_block mf 5 = Ret (3, 4)"
  using manifest_maps_every_block [of "[(1, 2), (3, 4)]" 2] by (auto simp: numeral_2_eq_2 [symmetric])

text \<open>The answers of the server: the fields of the messages that report a result.\<close>

definition read_answer :: "u64 \<Rightarrow> int \<Rightarrow> mem option \<Rightarrow> msg_desc \<Rightarrow> bool" where
  "read_answer bnr ret page m \<longleftrightarrow> mtype m = NGNFS_MSG_GET_BLOCK_RESULT \<and> unat (ctl_size m) = sizeof_get_block_result \<and>
     ctl_bnr m = bnr \<and> ctl_byte 9 m = ngnfs_msg_err ret \<and> data_page m = page \<and>
     unat (data_size m) = (if page = None then 0 else NGNFS_BLOCK_SIZE)"

definition write_answer :: "u64 \<Rightarrow> int \<Rightarrow> msg_desc \<Rightarrow> bool" where
  "write_answer bnr ret m \<longleftrightarrow> mtype m = NGNFS_MSG_WRITE_BLOCK_RESULT \<and> unat (ctl_size m) = sizeof_write_block_result \<and>
     ctl_bnr m = bnr \<and> ctl_byte 8 m = ngnfs_msg_err ret \<and> data_page m = None \<and> data_size m = 0"

text \<open>What a client makes of an answer.\<close>

lemma read_answer_ends:
  assumes "read_answer bnr ret page m" "ret = 0 \<longleftrightarrow> page \<noteq> None"
  shows "ngnfs_btr_msg_get_block_result m st =
    bind_run (ngnfs_block_end_io st bnr page (if ret = 0 then 0 else if \<bar>ret\<bar> = ENOMEM then - ENOMEM else - EIO)) (\<lambda>st. Ret (0, st))"
proof -
  have "data_size m = 0 \<longleftrightarrow> unat (data_size m) = 0" by (simp add: unat_eq_0)
  then show ?thesis using assms msg_errno_err [of ret] msg_err_ok_iff [of ret]
    by (auto simp: read_answer_def ngnfs_btr_msg_get_block_result_def Let_def)
qed

lemma write_answer_ends:
  assumes "write_answer bnr ret m"
  shows "ngnfs_btr_msg_write_block_result m st =
    bind_run (ngnfs_block_end_io st bnr None (if ret = 0 then 0 else if \<bar>ret\<bar> = ENOMEM then - ENOMEM else - EIO)) (\<lambda>st. Ret (0, st))"
  using assms msg_errno_err [of ret] by (simp add: write_answer_def ngnfs_btr_msg_write_block_result_def)

text \<open>The request that a client sends for a block is accepted by the server's handler, which reads that
  block and sends one answer back, with the page or the error.\<close>

lemma read_messages_fit:
  "\<exists>res. devd_get_block get page put send stack' (submit_desc stack NGNFS_BTX_OP_GET_READ bnr pg a) s =
      (let (bl, s) = get bnr NBF_READ s; (ret, s) = send res s in (ret, case bl of Inl _ \<Rightarrow> s | Inr b \<Rightarrow> put b s)) \<and>
    addr res = a \<and>
    (case get bnr NBF_READ s of
       (Inr b, s') \<Rightarrow> read_answer bnr 0 (Some (page b s')) res
     | (Inl e, s') \<Rightarrow> read_answer bnr e None res)"
proof -
  let ?req = "submit_desc stack NGNFS_BTX_OP_GET_READ bnr pg a"
  have req: "unat (ctl_size ?req) = 16" "ctl_byte 8 ?req = 0" "data_size ?req = 0" "ctl_bnr ?req = bnr" "addr ?req = a"
    by (simp_all add: submit_desc_def struct_fields)
  obtain bl s1 where g: "get bnr NBF_READ s = (bl, s1)" by fastforce
  define ret where "ret = (case bl of Inl e \<Rightarrow> e | Inr _ \<Rightarrow> 0)"
  define res where "res = \<lparr>addr = a, ctl_buf = msg_get_block_result stack' bnr 0 (ngnfs_msg_err ret),
      data_page = (case bl of Inl _ \<Rightarrow> None | Inr b \<Rightarrow> Some (page b s1)),
      data_size = (case bl of Inl _ \<Rightarrow> 0 | Inr _ \<Rightarrow> of_nat NGNFS_BLOCK_SIZE),
      ctl_size = of_nat sizeof_get_block_result, mtype = NGNFS_MSG_GET_BLOCK_RESULT\<rparr>"
  have "devd_get_block get page put send stack' ?req s =
      (let (ret, s) = send res s1 in (ret, case bl of Inl _ \<Rightarrow> s | Inr b \<Rightarrow> put b s))"
    using req g by (simp add: devd_get_block_def res_def ret_def Let_def)
  moreover have "case bl of Inr b \<Rightarrow> read_answer bnr 0 (Some (page b s1)) res | Inl e \<Rightarrow> read_answer bnr e None res"
    by (auto simp: read_answer_def res_def ret_def struct_fields split: sum.split)
  ultimately show ?thesis using g by (intro exI [of _ res]) (auto simp: res_def split: sum.splits)
qed

text \<open>A block write over messages: the request is accepted by the server's handler, which writes the
  client's page to that block and then syncs, and answers with the result of both.\<close>

lemma write_messages_fit:
  "\<exists>res. devd_write_block write sync send stack' (submit_desc stack NGNFS_BTX_OP_WRITE bnr pg a) s =
      (let (ret, s) = write bnr (NBF_NEW OR NBF_WRITE) (commit_write_block pg) s;
           (ret, s) = (if ret = 0 then sync s else (ret, s)) in send res s) \<and>
    addr res = a \<and>
    write_answer bnr (let (ret, s) = write bnr (NBF_NEW OR NBF_WRITE) (commit_write_block pg) s
                      in if ret = 0 then fst (sync s) else ret) res"
proof -
  let ?req = "submit_desc stack NGNFS_BTX_OP_WRITE bnr pg a"
  have req: "unat (ctl_size ?req) = 8" "unat (data_size ?req) = 4096" "ctl_bnr ?req = bnr" "addr ?req = a"
    "data_page ?req = Some pg"
    by (simp_all add: submit_desc_def struct_fields)
  obtain r1 s1 where w: "write bnr (NBF_NEW OR NBF_WRITE) (commit_write_block pg) s = (r1, s1)" by fastforce
  obtain r2 s2 where y: "(if r1 = 0 then sync s1 else (r1, s1)) = (r2, s2)" by fastforce
  define res where "res = \<lparr>addr = a, ctl_buf = msg_write_block_result stack' bnr (ngnfs_msg_err r2),
      data_page = None, data_size = 0, ctl_size = of_nat sizeof_write_block_result, mtype = NGNFS_MSG_WRITE_BLOCK_RESULT\<rparr>"
  have "devd_write_block write sync send stack' ?req s = send res s2"
    using req w y by (simp add: devd_write_block_def res_def Let_def)
  moreover have "write_answer bnr r2 res" by (simp add: write_answer_def res_def struct_fields)
  moreover have "(if r1 = 0 then fst (sync s1) else r1) = r2" using y by (auto split: if_splits)
  ultimately show ?thesis using w y by (intro exI [of _ res]) (simp add: res_def)
qed

end
