(* ===== verification/Devd.thy ===== *)
theory Devd
  imports Block_Proto_Props Txn_Props Pfs
begin

text \<open>
  The block server: the message handlers of \<open>devd/recv.c\<close> on the transactions of \<open>shared/txn.c\<close> and
  the block cache of \<open>shared/block.c\<close>, with the messages they send.  A run that an assertion or a
  wait stopped stays stopped.
\<close>

unbundle bit_operations_syntax

record devd =
  devd_cache :: block_info
  devd_sent :: "msg_desc list"

subsection \<open>The calls of the handlers\<close>

definition in_run :: "('s \<Rightarrow> ('r \<times> 's) run) \<Rightarrow> 'r \<Rightarrow> 's run \<Rightarrow> 'r \<times> 's run" where
  "in_run f r0 s =
     (case bind_run s f of Ret (r, s) \<Rightarrow> (r, Ret s) | Bug \<Rightarrow> (r0, Bug) | Spin \<Rightarrow> (r0, Spin) | Undef \<Rightarrow> (r0, Undef))"

definition on_cache :: "(block_info \<Rightarrow> ('r \<times> block_info) run) \<Rightarrow> devd \<Rightarrow> ('r \<times> devd) run" where
  "on_cache f d = bind_run (f (devd_cache d)) (\<lambda>(r, c). Ret (r, d\<lparr>devd_cache := c\<rparr>))"

text \<open>The transaction of \<open>devd_write_block\<close>, whose blocks are not put.\<close>

definition txn_write_block ::
    "bool \<Rightarrow> nat \<Rightarrow> (nat \<Rightarrow> bool) \<Rightarrow> nat option \<Rightarrow> env \<Rightarrow> u64 \<Rightarrow> u32 \<Rightarrow> (mem \<Rightarrow> mem) \<Rightarrow> block_info \<Rightarrow> (int \<times> block_info) run" where
  "txn_write_block add_ok fuel ok km env bnr nbf commit st =
     (let (ret, txn) = ngnfs_txn_add_block add_ok bnr nbf None (Some (\<lambda>page w. Ret (commit page, w))) ngnfs_txn_init
      in if ret \<noteq> 0 then Ret (ret, st)
         else bind_run (ngnfs_txn_execute fuel ok km env txn st ()) (\<lambda>(ret, txn, st, w). Ret (ret, st)))"

definition read_get_block :: "bool \<Rightarrow> env \<Rightarrow> u64 \<Rightarrow> u32 \<Rightarrow> block_info \<Rightarrow> ((int + bid) \<times> block_info) run" where
  "read_get_block mem_ok env bnr nbf st =
     bind_run (txn_get mem_ok env 0 st bnr nbf) (\<lambda>(bl, st, n). Ret (bl, st))"

definition send_msg :: "int \<Rightarrow> msg_desc \<Rightarrow> devd \<Rightarrow> (int \<times> devd) run" where
  "send_msg ret mdesc d = Ret (ret, d\<lparr>devd_sent := devd_sent d @ [mdesc]\<rparr>)"

definition devd_write ::
    "bool \<Rightarrow> nat \<Rightarrow> (nat \<Rightarrow> bool) \<Rightarrow> nat option \<Rightarrow> env \<Rightarrow> (block_info \<Rightarrow> block_info) \<Rightarrow> int \<Rightarrow> mem \<Rightarrow> msg_desc \<Rightarrow> devd \<Rightarrow>
     int \<times> devd run" where
  "devd_write add_ok fuel ok km env sync_env send_ret stack mdesc d =
     devd_write_block (\<lambda>bnr nbf commit. in_run (on_cache (txn_write_block add_ok fuel ok km env bnr nbf commit)) 0)
       (in_run (on_cache (block_sync_wait sync_env)) 0) (\<lambda>m. in_run (send_msg send_ret m) 0) stack mdesc (Ret d)"

definition devd_get :: "bool \<Rightarrow> env \<Rightarrow> int \<Rightarrow> mem \<Rightarrow> msg_desc \<Rightarrow> devd \<Rightarrow> int \<times> devd run" where
  "devd_get mem_ok env send_ret stack mdesc d =
     devd_get_block (\<lambda>bnr nbf. in_run (on_cache (read_get_block mem_ok env bnr nbf)) (Inl 0))
       (\<lambda>b s. case s of Ret d \<Rightarrow> ngnfs_block_buf (devd_cache d) b | _ \<Rightarrow> (\<lambda>_. 0))
       (\<lambda>b s. snd (in_run (on_cache (\<lambda>c. bind_run (ngnfs_block_put c b) (\<lambda>c. Ret ((), c)))) () s))
       (\<lambda>m. in_run (send_msg send_ret m) 0) stack mdesc (Ret d)"

subsection \<open>A new block\<close>

text \<open>The block is not in the cache, or it is there, without an error and in no set.\<close>

definition block_free :: "block_info \<Rightarrow> u64 \<Rightarrow> bool" where
  "block_free st bnr \<longleftrightarrow> (case map_of (ht st) bnr of None \<Rightarrow> True
     | Some b \<Rightarrow> \<not> BL_ERROR (blocks st b) \<and> bl_set (blocks st b) = None \<and> 0 < bl_refcount (blocks st b))"

lemma not_bad_nbf_new: "\<not> bad_nbf (NBF_NEW OR NBF_WRITE)"
  by (simp add: bad_nbf_def) (simp add: hweight_long_def upt_conv_Cons)

lemma txn_get_new:
  assumes "block_free st bnr"
  obtains b g where "txn_get True env n st bnr (NBF_NEW OR NBF_WRITE) = Ret (Inr b, g, n)" "block_ready g bnr b"
    "bl_set (blocks g b) = None" "dirty_throttled g = dirty_throttled st"
proof -
  have "\<exists>b st1. lookup_or_alloc_block True st bnr = Ret (Inr b, st1) \<and> map_of (ht st1) bnr = Some b \<and>
      \<not> BL_ERROR (blocks st1 b) \<and> bl_set (blocks st1 b) = None \<and> 0 < bl_refcount (blocks st1 b) \<and>
      dirty_throttled st1 = dirty_throttled st"
  proof (cases "map_of (ht st) bnr")
    case None
    then show ?thesis
      by (simp add: lookup_or_alloc_block_def lookup_block_def alloc_block_def get_block_def upd_block_def new_block_def
          dirty_throttled_def)
  next
    case (Some b)
    then show ?thesis using assms
      by (simp add: lookup_or_alloc_block_def lookup_block_def get_block_def upd_block_def block_free_def dirty_throttled_def)
  qed
  then obtain b st1 where l: "lookup_or_alloc_block True st bnr = Ret (Inr b, st1)" "map_of (ht st1) bnr = Some b"
      "\<not> BL_ERROR (blocks st1 b)" "bl_set (blocks st1 b) = None" "0 < bl_refcount (blocks st1 b)"
      "dirty_throttled st1 = dirty_throttled st" by blast
  define g where "g = upd_block st1 b (\<lambda>bl. bl\<lparr>bl_page := \<lambda>i. if i < 4096 then 0 else bl_page bl i, BL_UPTODATE := True\<rparr>)"
  have g: "block_ready g bnr b" "bl_set (blocks g b) = None" "dirty_throttled g = dirty_throttled st"
    using l by (simp_all add: g_def block_ready_def upd_block_def dirty_throttled_def)
  have n: "(NBF_NEW OR NBF_WRITE) AND NBF_NEW \<noteq> 0" by simp
  have "ngnfs_block_get True st bnr (NBF_NEW OR NBF_WRITE) = Ret (Get_done (Inr b), g)"
    unfolding ngnfs_block_get_def using l(1,3) n not_bad_nbf_new g(1)
    by (simp add: g_def block_get_finish_def block_ready_def upd_block_def del: NBF_NEW_def NBF_WRITE_def)
  then have "txn_get True env n st bnr (NBF_NEW OR NBF_WRITE) = Ret (Inr b, g, n)" by (simp only: txn_get_def bind_run.simps prod.case get_result.case)
  then show thesis using g by (rule that)
qed

lemma txn_write_block_dirties:
  assumes "txn_get (ok 0) env 0 st bnr (NBF_NEW OR NBF_WRITE) = Ret (Inr b, g, n)" "bl_set (blocks g b) = None"
    "\<not> dirty_throttled g"
  obtains q where "txn_write_block True fuel ok (Some jk) env bnr (NBF_NEW OR NBF_WRITE) commit st =
    Ret (0, dirtied q g b (commit (ngnfs_block_buf g b)))"
proof -
  let ?c = "\<lambda>page (w :: unit). Ret (commit page, w)"
  have nw: "(NBF_NEW OR NBF_WRITE) AND NBF_WRITE \<noteq> 0" by simp
  obtain t q where e: "ngnfs_txn_execute fuel ok (Some jk) env
        (snd (ngnfs_txn_add_block True bnr (NBF_NEW OR NBF_WRITE) None (Some ?c) ngnfs_txn_init)) st () =
       Ret (0, \<lparr>txn_blocks = [t], txn_writes = [0]\<rparr>, dirtied q g b (commit (ngnfs_block_buf g b)), ())" "tblk_bl t = Some b"
    by (rule write_after_get [where commit = ?c and w = "()" and page = "commit (ngnfs_block_buf g b)" and ok = ok,
          OF assms(1) nw assms(2,3)]) auto
  show thesis by (rule that [of q]) (use e(1) in \<open>simp add: txn_write_block_def ngnfs_txn_add_block_def\<close>)
qed

lemma bytes_commit_write_block: "bytes (commit_write_block pg buf) 0 4096 = bytes pg 0 4096"
  by (simp add: commit_write_block_def bytes_def memcpy_def write_bytes_def)

lemma txn_write_block_runs:
  assumes "block_free st bnr" "\<not> dirty_throttled st" "ok 0"
  obtains b st1 where "txn_write_block True fuel ok (Some jk) env bnr (NBF_NEW OR NBF_WRITE) (commit_write_block pg) st = Ret (0, st1)"
    "block_ready st1 bnr b" "bytes (ngnfs_block_buf st1 b) 0 4096 = bytes pg 0 4096"
proof -
  obtain b g where g: "txn_get True env 0 st bnr (NBF_NEW OR NBF_WRITE) = Ret (Inr b, g, 0)" "block_ready g bnr b"
    "bl_set (blocks g b) = None" "dirty_throttled g = dirty_throttled st" using txn_get_new [OF assms(1)] .
  have g1: "txn_get (ok 0) env 0 st bnr (NBF_NEW OR NBF_WRITE) = Ret (Inr b, g, 0)" "\<not> dirty_throttled g"
    using g(1,4) assms(2,3) by simp_all
  obtain q where "txn_write_block True fuel ok (Some jk) env bnr (NBF_NEW OR NBF_WRITE) (commit_write_block pg) st =
      Ret (0, dirtied q g b (commit_write_block pg (ngnfs_block_buf g b)))"
    using txn_write_block_dirties [where ok = ok, OF g1(1) g(3) g1(2)] .
  then show thesis
    by (rule that [of _ b]) (use g(2) bytes_commit_write_block [of pg] in
      \<open>simp_all add: dirtied_def block_ready_def ngnfs_block_buf_def\<close>)
qed

subsection \<open>Writing and reading back\<close>

text \<open>What the others do during the sync: the block stays in the cache with its contents, and the sync ends.\<close>

definition sync_keeps :: "(block_info \<Rightarrow> block_info) \<Rightarrow> u64 \<Rightarrow> bool" where
  "sync_keeps sync_env bnr \<longleftrightarrow> (\<forall>c b. block_ready c bnr b \<longrightarrow> block_ready (sync_env c) bnr b \<and>
     ngnfs_block_buf (sync_env c) b = ngnfs_block_buf c b \<and> sync_woken (sync_env c) (dirty_seq c))"

lemma block_sync_runs:
  assumes "block_ready st bnr b" "sync_keeps sync_env bnr"
  obtains ret st' where "block_sync_wait sync_env st = Ret (ret, st')" "ret = 0 \<or> ret = - EIO" "block_ready st' bnr b"
    "ngnfs_block_buf st' b = ngnfs_block_buf st b"
proof -
  define st1 where "st1 = sync_up_to_seq st (dirty_seq st)"
  have r1: "block_ready st1 bnr b" "ngnfs_block_buf st1 b = ngnfs_block_buf st b" "dirty_seq st1 = dirty_seq st"
    using assms(1) by (simp_all add: st1_def sync_up_to_seq_def sync_waiters_inc_def try_queue_writeback_work_def Let_def
        block_ready_def ngnfs_block_buf_def)
  have e: "block_ready (sync_env st1) bnr b" "ngnfs_block_buf (sync_env st1) b = ngnfs_block_buf st1 b"
      "sync_woken (sync_env st1) (dirty_seq st)"
    using assms(2) r1(1) unfolding sync_keeps_def r1(3) [symmetric] by blast+
  obtain ret st' where f: "sync_finish (sync_env st1) = (ret, st')" by fastforce
  have "block_sync_wait sync_env st = Ret (ret, st')"
    using e(3) f by (simp add: block_sync_wait_def ngnfs_block_sync_def st1_def)
  moreover have "ret = 0 \<or> ret = - EIO" "block_ready st' bnr b" "ngnfs_block_buf st' b = ngnfs_block_buf st b"
    using f e(1,2) r1(2) by (auto simp: sync_finish_def sync_waiters_dec_error_def Let_def block_ready_def ngnfs_block_buf_def
        split: if_splits)
  ultimately show thesis by (rule that)
qed

text \<open>The handlers as a whole, from what their calls return.\<close>

lemma devd_write_answers:
  assumes "txn_write_block True fuel ok km env bnr (NBF_NEW OR NBF_WRITE) (commit_write_block pg) (devd_cache d) = Ret (0, c1)"
    "block_sync_wait sync_env c1 = Ret (e, c2)"
  obtains res where
    "devd_write True fuel ok km env sync_env r stack' (submit_desc stack NGNFS_BTX_OP_WRITE bnr pg a) d =
      (r, Ret (d\<lparr>devd_cache := c2, devd_sent := devd_sent d @ [res]\<rparr>))" "addr res = a" "write_answer bnr e res"
proof -
  let ?txw = "\<lambda>bnr nbf commit. in_run (on_cache (txn_write_block True fuel ok km env bnr nbf commit)) 0"
    and ?sync = "in_run (on_cache (block_sync_wait sync_env)) 0" and ?send = "\<lambda>m. in_run (send_msg r m) 0"
  have 1: "?txw bnr (NBF_NEW OR NBF_WRITE) (commit_write_block pg) (Ret d) = (0, Ret (d\<lparr>devd_cache := c1\<rparr>))"
    using assms(1) by (simp add: in_run_def on_cache_def del: NBF_NEW_def NBF_WRITE_def)
  have 2: "?sync (Ret (d\<lparr>devd_cache := c1\<rparr>)) = (e, Ret (d\<lparr>devd_cache := c2\<rparr>))"
    using assms(2) by (simp add: in_run_def on_cache_def)
  obtain res where res: "devd_write_block ?txw ?sync ?send stack' (submit_desc stack NGNFS_BTX_OP_WRITE bnr pg a) (Ret d) =
      ?send res (Ret (d\<lparr>devd_cache := c2\<rparr>))" "addr res = a" "write_answer bnr e res"
    using write_messages_fit [of ?txw ?sync ?send stack' stack bnr pg a "Ret d"] unfolding 1 by (auto simp: 2)
  show thesis by (rule that [of res]) (use res in \<open>simp_all add: devd_write_def in_run_def send_msg_def\<close>)
qed

lemma devd_get_answers:
  assumes "read_get_block mem_ok env bnr NBF_READ (devd_cache d) = Ret (Inr b, c1)" "ngnfs_block_put c1 b = Ret c2"
  obtains res where
    "devd_get mem_ok env r stack' (submit_desc stack NGNFS_BTX_OP_GET_READ bnr pg a) d =
      (r, Ret (d\<lparr>devd_cache := c2, devd_sent := devd_sent d @ [res]\<rparr>))" "addr res = a"
    "read_answer bnr 0 (Some (ngnfs_block_buf c1 b)) res"
proof -
  let ?get = "\<lambda>bnr nbf. in_run (on_cache (read_get_block mem_ok env bnr nbf)) (Inl 0)"
    and ?page = "\<lambda>b s. case s of Ret d \<Rightarrow> ngnfs_block_buf (devd_cache d) b | _ \<Rightarrow> (\<lambda>_. 0)"
    and ?put = "\<lambda>b s. snd (in_run (on_cache (\<lambda>c. bind_run (ngnfs_block_put c b) (\<lambda>c. Ret ((), c)))) () s)"
    and ?send = "\<lambda>m. in_run (send_msg r m) 0"
  have g: "?get bnr NBF_READ (Ret d) = (Inr b, Ret (d\<lparr>devd_cache := c1\<rparr>))"
    using assms(1) by (simp add: in_run_def on_cache_def)
  obtain res where res: "devd_get_block ?get ?page ?put ?send stack' (submit_desc stack NGNFS_BTX_OP_GET_READ bnr pg a) (Ret d) =
      (let (ret, s) = ?send res (Ret (d\<lparr>devd_cache := c1\<rparr>)) in (ret, ?put b s))" "addr res = a"
    "read_answer bnr 0 (Some (ngnfs_block_buf c1 b)) res"
    using read_messages_fit [of ?get ?page ?put ?send stack' stack bnr pg a "Ret d"] unfolding g by auto
  show thesis
    by (rule that [of res]) (use res assms(2) in \<open>simp_all add: devd_get_def in_run_def on_cache_def send_msg_def\<close>)
qed

lemma devd_write_runs:
  assumes "block_free (devd_cache d) bnr" "\<not> dirty_throttled (devd_cache d)" "ok 0" "sync_keeps sync_env bnr"
  obtains res d' b e where
    "devd_write True fuel ok (Some jk) env sync_env r stack' (submit_desc stack NGNFS_BTX_OP_WRITE bnr pg a) d = (r, Ret d')"
    "devd_sent d' = devd_sent d @ [res]" "addr res = a" "e = 0 \<or> e = - EIO" "write_answer bnr e res"
    "block_ready (devd_cache d') bnr b"
    "bytes (ngnfs_block_buf (devd_cache d') b) 0 4096 = bytes pg 0 4096"
proof -
  obtain b c1 where w: "txn_write_block True fuel ok (Some jk) env bnr (NBF_NEW OR NBF_WRITE) (commit_write_block pg)
      (devd_cache d) = Ret (0, c1)" "block_ready c1 bnr b"
    "bytes (ngnfs_block_buf c1 b) 0 4096 = bytes pg 0 4096"
    using txn_write_block_runs [where ok = ok, OF assms(1-3)] .
  obtain e c2 where y: "block_sync_wait sync_env c1 = Ret (e, c2)" "e = 0 \<or> e = - EIO" "block_ready c2 bnr b"
    "ngnfs_block_buf c2 b = ngnfs_block_buf c1 b" using block_sync_runs [OF w(2) assms(4)] .
  obtain res where "devd_write True fuel ok (Some jk) env sync_env r stack' (submit_desc stack NGNFS_BTX_OP_WRITE bnr pg a) d =
      (r, Ret (d\<lparr>devd_cache := c2, devd_sent := devd_sent d @ [res]\<rparr>))" "addr res = a" "write_answer bnr e res"
    using devd_write_answers [OF w(1) y(1)] .
  then show thesis using that [of "d\<lparr>devd_cache := c2, devd_sent := devd_sent d @ [res]\<rparr>" res e b] y w(3) by simp
qed

lemma devd_get_runs:
  assumes "block_ready (devd_cache d) bnr b"
  obtains res where
    "devd_get mem_ok env r stack' (submit_desc stack NGNFS_BTX_OP_GET_READ bnr pg a) d =
      (r, Ret (d\<lparr>devd_sent := devd_sent d @ [res]\<rparr>))" "addr res = a"
    "read_answer bnr 0 (Some (ngnfs_block_buf (devd_cache d) b)) res"
proof -
  let ?c = "get_block (devd_cache d) b"
  have g: "read_get_block mem_ok env bnr NBF_READ (devd_cache d) = Ret (Inr b, ?c)"
    using txn_get_ready [OF assms, of NBF_READ] by (simp add: read_get_block_def)
  have buf: "ngnfs_block_buf ?c b = ngnfs_block_buf (devd_cache d) b"
    by (simp add: ngnfs_block_buf_def get_block_def upd_block_def)
  have put: "ngnfs_block_put ?c b = Ret (devd_cache d)"
    using txn_put_ready [of "devd_cache d" b] assms by (simp add: block_ready_def run_simps)
  obtain res where "devd_get mem_ok env r stack' (submit_desc stack NGNFS_BTX_OP_GET_READ bnr pg a) d =
      (r, Ret (d\<lparr>devd_cache := devd_cache d, devd_sent := devd_sent d @ [res]\<rparr>))" "addr res = a"
    "read_answer bnr 0 (Some (ngnfs_block_buf ?c b)) res"
    using devd_get_answers [OF g put] .
  then show thesis using that [of res] by (simp add: buf)
qed

subsection \<open>The property\<close>


text \<open>A server with an empty cache and a sync during which all sets are written.\<close>

definition example_devd :: devd where
  "example_devd = \<lparr>devd_cache = init_block_info 8, devd_sent = []\<rparr>"

definition example_written :: "block_info \<Rightarrow> block_info" where
  "example_written c = c\<lparr>writeback_seq := dirty_seq c, nr_writeback := 0\<rparr>"


end
