(* ===== verification/Lk_Thread.thy ===== *)
theory Lk_Thread
  imports Ngnfs_Prelude
begin

text \<open>
  Threads of \<open>shared/thread.c\<close>.  The two bits of a thread are a field each;
  \<open>thr_running\<close> says that \<open>pthread_create\<close> made a thread that has not been
  joined.  What the thread itself does is modelled where its function is.
\<close>

record thread_state =
  THR_CREATED :: bool
  THR_SHOULD_RETURN :: bool
  thr_running :: bool

definition thread_init :: thread_state where
  "thread_init = \<lparr>THR_CREATED = False, THR_SHOULD_RETURN = False, thr_running = False\<rparr>"

text \<open>\<open>create_ret\<close> is the result of \<open>pthread_create\<close>: 0 or a positive error.\<close>

definition thread_start :: "int \<Rightarrow> thread_state \<Rightarrow> int \<times> thread_state" where
  "thread_start create_ret thr =
     (if create_ret \<noteq> 0 then (- create_ret, thr)
      else (0, thr\<lparr>THR_CREATED := True, thr_running := True\<rparr>))"

definition thread_should_return :: "thread_state \<Rightarrow> bool" where
  "thread_should_return thr = THR_SHOULD_RETURN thr"

definition thread_stop_indicate :: "thread_state \<Rightarrow> thread_state" where
  "thread_stop_indicate thr = thr\<lparr>THR_SHOULD_RETURN := True\<rparr>"

text \<open>Joining a thread a second time is not defined.\<close>

definition thread_stop_wait :: "thread_state \<Rightarrow> thread_state run" where
  "thread_stop_wait thr =
     (if THR_CREATED thr
      then (let thr = thread_stop_indicate thr
            in if thr_running thr then Ret (thr\<lparr>thr_running := False\<rparr>) else Undef)
      else Ret thr)"

lemmas thread_defs = thread_init_def thread_start_def thread_should_return_def thread_stop_indicate_def
  thread_stop_wait_def

text \<open>
  A thread is consistent when it runs only if it was created.  Starting and the first
  stop keep it so, and after a stop nothing runs.
\<close>

definition thread_ok :: "thread_state \<Rightarrow> bool" where
  "thread_ok thr \<longleftrightarrow> (thr_running thr \<longrightarrow> THR_CREATED thr)"

lemma thread_ok_ops:
  "thread_ok thread_init"
  "thread_ok thr \<Longrightarrow> thread_ok (snd (thread_start create_ret thr))"
  "thread_ok thr \<Longrightarrow> thread_ok (thread_stop_indicate thr)"
  by (auto simp: thread_ok_def thread_defs)

lemma thread_stop_wait_stops:
  assumes "thread_ok thr" "thread_stop_wait thr = Ret thr'"
  shows "thread_ok thr' \<and> \<not> thr_running thr'"
  using assms by (auto simp: thread_ok_def thread_defs Let_def split: if_splits)

end
