(* ===== verification/Mtr_Socket.thy ===== *)
theory Mtr_Socket
  imports Msg Lk_Thread
begin

text \<open>
  The socket transport of \<open>shared/mtr-socket.c\<close>.  A connected socket is the bytes
  that are still to be read from it and the bytes written to it; how many bytes a call
  of \<open>readv\<close> or \<open>writev\<close> moves is up to the system, which the schedule \<open>chunk\<close>
  decides: call number \<open>i\<close> moves at most \<open>chunk i\<close> bytes.  The results of the other
  system calls and of starting a thread are arguments of the functions that make them.
\<close>

subsection \<open>Vectored reads and writes\<close>

text \<open>The buffers an \<open>iovec\<close> can point into.\<close>

datatype buf = Hdr_buf | Ctl_buf | Data_buf | Send_buf

text \<open>An \<open>iovec\<close>: a buffer, an offset in it and a length.\<close>

type_synonym iovec = "buf \<times> nat \<times> nat"

record sock =
  inp :: "u8 list"
  outp :: "u8 list"
  calls :: nat
  bufs :: "buf \<Rightarrow> mem"

definition iov_total :: "iovec list \<Rightarrow> nat" where
  "iov_total iov = sum_list (map (\<lambda>(b, off, len). len) iov)"

fun scatter :: "iovec list \<Rightarrow> u8 list \<Rightarrow> (buf \<Rightarrow> mem) \<Rightarrow> (buf \<Rightarrow> mem)" where
  "scatter [] bs m = m"
| "scatter ((b, off, len) # iov) bs m = scatter iov (drop len bs) (m(b := write_bytes (m b) off (take len bs)))"

fun gather :: "iovec list \<Rightarrow> (buf \<Rightarrow> mem) \<Rightarrow> u8 list" where
  "gather [] m = []"
| "gather ((b, off, len) # iov) m = bytes (m b) off len @ gather iov m"

text \<open>
  The system calls: \<open>readv\<close> returns 0 when the other side is done and nothing is left.
\<close>

definition readv :: "(nat \<Rightarrow> nat) \<Rightarrow> iovec list \<Rightarrow> sock \<Rightarrow> int \<times> sock" where
  "readv chunk iov s =
     (let n = min (chunk (calls s)) (min (iov_total iov) (length (inp s)))
      in (int n, s\<lparr>calls := calls s + 1, inp := drop n (inp s), bufs := scatter iov (take n (inp s)) (bufs s)\<rparr>))"

definition writev :: "(nat \<Rightarrow> nat) \<Rightarrow> iovec list \<Rightarrow> sock \<Rightarrow> int \<times> sock" where
  "writev chunk iov s =
     (let n = min (chunk (calls s)) (iov_total iov)
      in (int n, s\<lparr>calls := calls s + 1, outp := outp s @ take n (gather iov (bufs s))\<rparr>))"

text \<open>The inner loop of \<open>whole_iovec\<close>: \<open>sret\<close> bytes are done.\<close>

fun iov_advance :: "nat \<Rightarrow> iovec list \<Rightarrow> iovec list" where
  "iov_advance sret [] = []"
| "iov_advance sret ((b, off, len) # iov) =
     (if sret = 0 then (b, off, len) # iov
      else
        (let part = min len sret
         in if len - part = 0 then iov_advance (sret - part) iov
            else (b, off + part, len - part) # iov))"

text \<open>A negative result of \<open>func\<close> stands for \<open>-errno\<close>.\<close>

primrec whole_iovec :: "nat \<Rightarrow> (iovec list \<Rightarrow> sock \<Rightarrow> int \<times> sock) \<Rightarrow> iovec list \<Rightarrow> sock \<Rightarrow> (int \<times> sock) run" where
  "whole_iovec 0 func iov s = (if iov = [] then Ret (0, s) else Spin)"
| "whole_iovec (Suc fuel) func iov s =
     (if iov = [] then Ret (0, s)
      else
        (let (sret, s) = func iov s
         in if sret < 0 then Ret (sret, s)
            else if sret = 0 then Ret (- ESHUTDOWN, s)
            else whole_iovec fuel func (iov_advance (nat sret) iov) s))"

definition iov_append :: "iovec list \<Rightarrow> buf \<Rightarrow> nat \<Rightarrow> iovec list" where
  "iov_append iov base len = (if len = 0 then iov else iov @ [(base, 0, len)])"

subsection \<open>The peer\<close>

record socket_peer_info =
  sp_addr :: sockaddr_in
  send_q :: "u8 list list"
  connect_thr :: thread_state
  listen_thr :: thread_state
  send_thr :: thread_state
  recv_thr :: thread_state
  fd :: int
  err :: int
  sp_shutdown :: bool
  fd_shutdown :: bool
  fd_closed :: bool

definition shutdown_peer :: "int \<Rightarrow> socket_peer_info \<Rightarrow> socket_peer_info" where
  "shutdown_peer e pinf =
     (let pinf =
        (if \<not> sp_shutdown pinf
         then pinf\<lparr>sp_shutdown := True,
                   connect_thr := thread_stop_indicate (connect_thr pinf),
                   listen_thr := thread_stop_indicate (listen_thr pinf),
                   send_thr := thread_stop_indicate (send_thr pinf),
                   recv_thr := thread_stop_indicate (recv_thr pinf),
                   fd_shutdown := (fd pinf \<ge> 0)\<rparr>
         else pinf)
      in if e < 0 \<and> err pinf = 0 then pinf\<lparr>err := e\<rparr> else pinf)"

definition socket_init_peer :: "socket_peer_info" where
  "socket_init_peer =
     \<lparr>sp_addr = (0, 0), send_q = [], connect_thr = thread_init, listen_thr = thread_init, send_thr = thread_init,
      recv_thr = thread_init, fd = -1, err = 0, sp_shutdown = False, fd_shutdown = False,
      fd_closed = False\<rparr>"

text \<open>The arguments are the results of \<open>pthread_create\<close> for the two threads.\<close>

definition start_send_recv :: "int \<Rightarrow> int \<Rightarrow> socket_peer_info \<Rightarrow> int \<times> socket_peer_info" where
  "start_send_recv send_ret recv_ret pinf =
     (let (ret, thr) = thread_start send_ret (send_thr pinf);
          pinf = pinf\<lparr>send_thr := thr\<rparr>
      in if ret \<noteq> 0 then (ret, pinf)
         else
           (let (ret, thr) = thread_start recv_ret (recv_thr pinf)
            in (ret, pinf\<lparr>recv_thr := thr\<rparr>)))"

text \<open>\<open>sret\<close> is what \<open>setsockopt\<close> returned and \<open>errno\<close> its error.\<close>

definition set_connected_options :: "int \<Rightarrow> int \<Rightarrow> int" where
  "set_connected_options sret errno = (if sret < 0 then - errno else sret)"

text \<open>
  \<open>socket_connect_thread\<close> with the results of its calls: \<open>socket\<close> (an fd or
  \<open>-errno\<close>), \<open>connect\<close> (0 or -1), \<open>setsockopt\<close> (0 or \<open>-errno\<close>) and the threads.
\<close>

definition socket_connect_thread :: "int \<Rightarrow> int \<Rightarrow> int \<Rightarrow> int \<Rightarrow> int \<Rightarrow> socket_peer_info \<Rightarrow> socket_peer_info" where
  "socket_connect_thread socket_ret connect_ret opt_ret send_ret recv_ret pinf =
     (let (ret, pinf) =
        (if socket_ret < 0 then (socket_ret, pinf)
         else if connect_ret < 0 then (- connect_ret, pinf)
         else if opt_ret < 0 then (opt_ret, pinf)
         else start_send_recv send_ret recv_ret (pinf\<lparr>fd := socket_ret\<rparr>))
      in if ret < 0 then shutdown_peer ret pinf else pinf)"

definition socket_start :: "sockaddr_in \<Rightarrow> int option \<Rightarrow> int \<Rightarrow> int \<Rightarrow> int \<Rightarrow> socket_peer_info \<Rightarrow> int \<times> socket_peer_info" where
  "socket_start a accepted connect_thr_ret send_ret recv_ret pinf =
     (let pinf = pinf\<lparr>sp_addr := a\<rparr>;
          (ret, pinf) =
            (case accepted of
               Some f \<Rightarrow> start_send_recv send_ret recv_ret (pinf\<lparr>fd := f\<rparr>)
             | None \<Rightarrow>
                 (let (ret, thr) = thread_start connect_thr_ret (connect_thr pinf)
                  in (ret, pinf\<lparr>connect_thr := thr\<rparr>)))
      in (0, if ret < 0 then shutdown_peer ret pinf else pinf))"

definition socket_destroy_peer :: "socket_peer_info \<Rightarrow> socket_peer_info run" where
  "socket_destroy_peer pinf =
     bind_run (thread_stop_wait (connect_thr pinf)) (\<lambda>c.
     bind_run (thread_stop_wait (listen_thr pinf)) (\<lambda>l.
     bind_run (thread_stop_wait (send_thr pinf)) (\<lambda>s.
     bind_run (thread_stop_wait (recv_thr pinf)) (\<lambda>r.
     Ret (pinf\<lparr>connect_thr := c, listen_thr := l, send_thr := s, recv_thr := r,
               fd_closed := (fd pinf \<ge> 0)\<rparr>)))))"

text \<open>The system calls return 0 or \<open>-errno\<close>, \<open>thr_ret\<close> is the result of \<open>pthread_create\<close>.\<close>

definition socket_start_listen :: "bool \<Rightarrow> int \<Rightarrow> int \<Rightarrow> int \<Rightarrow> int \<Rightarrow> int \<Rightarrow> (int + socket_peer_info) run" where
  "socket_start_listen mem_ok socket_ret opt_ret bind_ret listen_ret thr_ret =
     (if \<not> mem_ok then Ret (Inl (- ENOMEM))
      else
        (let pinf = socket_init_peer\<lparr>fd := socket_ret\<rparr>;
             (ret, pinf) =
               (if socket_ret < 0 then (socket_ret, pinf)
                else if opt_ret < 0 then (opt_ret, pinf)
                else if bind_ret < 0 then (bind_ret, pinf)
                else if listen_ret < 0 then (listen_ret, pinf)
                else (let (ret, thr) = thread_start thr_ret (listen_thr pinf)
                      in (ret, pinf\<lparr>listen_thr := thr\<rparr>)))
         in if ret < 0 then bind_run (socket_destroy_peer pinf) (\<lambda>_. Ret (Inl ret))
            else Ret (Inr pinf)))"

definition socket_stop_listen :: "(int + socket_peer_info) option \<Rightarrow> socket_peer_info option run" where
  "socket_stop_listen info =
     (case info of
        Some (Inr pinf) \<Rightarrow> bind_run (socket_destroy_peer (shutdown_peer 0 pinf)) (\<lambda>_. Ret None)
      | _ \<Rightarrow> Ret None)"

subsection \<open>Accepting\<close>

text \<open>
  What \<open>accept\<close> returned: an error, or a socket with the address of the other side,
  whether that is an IPv4 address, and the outcome of \<open>setsockopt\<close> on the socket.
\<close>

datatype accepted = Accept_err int | Accept_ok int sockaddr_in bool int int

datatype listen_end = Listen_blocked | Listen_returned | Listen_exit int

definition listen_break :: "bool \<Rightarrow> int \<Rightarrow> listen_end" where
  "listen_break stop ret = (if stop then Listen_returned else Listen_exit ret)"

text \<open>
  \<open>socket_listen_thread\<close> on the calls of \<open>accept\<close> so far, each with whether the thread
  was asked to return by the time it was done; \<open>acc\<close> is \<open>ngnfs_msg_accept\<close>.  The
  result has the sockets the thread closed.
\<close>

primrec socket_listen_thread ::
    "(sockaddr_in \<Rightarrow> int \<Rightarrow> 'w \<Rightarrow> int \<times> 'w) \<Rightarrow> (accepted \<times> bool) list \<Rightarrow> bool \<Rightarrow> int list \<Rightarrow> 'w \<Rightarrow>
     listen_end \<times> int list \<times> 'w" where
  "socket_listen_thread acc [] stop closed w =
     (if stop then Listen_returned else Listen_blocked, closed, w)"
| "socket_listen_thread acc (ev # evs) stop closed w =
     (if stop then (Listen_returned, closed, w)
      else
        (let (res, stop) = ev
         in case res of
              Accept_err errno \<Rightarrow> (listen_break stop (- errno), closed, w)
            | Accept_ok f a valid sret errno \<Rightarrow>
                if \<not> valid then (listen_break stop (- EINVAL), closed, w)
                else
                  (let ret = set_connected_options sret errno;
                       (ret, w) = (if ret \<noteq> 0 then (ret, w) else acc a f w)
                   in socket_listen_thread acc evs stop (if ret < 0 then closed @ [f] else closed) w)))"

subsection \<open>Sending\<close>

text \<open>
  The bytes of a packet: the header, the control buffer and the data.  The crc field
  is not set; \<open>crc\<close> is what the allocation held there.
\<close>

definition header_bytes :: "u32 \<Rightarrow> msg_desc \<Rightarrow> u8 list" where
  "header_bytes crc mdesc =
     num_le 4 (unat crc) @ num_le 2 (unat (data_size mdesc)) @ [ctl_size mdesc, mtype mdesc]"

definition page_address :: "mem option \<Rightarrow> mem" where
  "page_address p = (case p of Some m \<Rightarrow> m | None \<Rightarrow> (\<lambda>_. 0))"

definition packet_bytes :: "u32 \<Rightarrow> msg_desc \<Rightarrow> u8 list" where
  "packet_bytes crc mdesc =
     header_bytes crc mdesc @ bytes (ctl_buf mdesc) 0 (unat (ctl_size mdesc)) @
     bytes (page_address (data_page mdesc)) 0 (unat (data_size mdesc))"

definition socket_send :: "bool \<Rightarrow> u32 \<Rightarrow> msg_desc \<Rightarrow> socket_peer_info \<Rightarrow> int \<times> socket_peer_info" where
  "socket_send mem_ok crc mdesc pinf =
     (if err pinf \<noteq> 0 then (err pinf, pinf)
      else if \<not> mem_ok then (- ENOMEM, pinf)
      else (0, pinf\<lparr>send_q := send_q pinf @ [packet_bytes crc mdesc]\<rparr>))"

text \<open>Writing the buffers that were spliced off the queue, in order.\<close>

primrec send_bufs :: "(nat \<Rightarrow> nat) \<Rightarrow> u8 list list \<Rightarrow> sock \<Rightarrow> (int \<times> sock) run" where
  "send_bufs chunk [] s = Ret (0, s)"
| "send_bufs chunk (sbuf # sbufs) s =
     (let s = s\<lparr>bufs := (bufs s)(Send_buf := write_bytes (\<lambda>_. 0) 0 sbuf)\<rparr>
      in bind_run (whole_iovec (length sbuf) (writev chunk) (iov_append [] Send_buf (length sbuf)) s)
           (\<lambda>(ret, s). if ret < 0 then Ret (ret, s) else send_bufs chunk sbufs s))"

text \<open>One round of \<open>socket_send_thread\<close>: all queued buffers are taken and written.\<close>

definition socket_send_round :: "(nat \<Rightarrow> nat) \<Rightarrow> socket_peer_info \<Rightarrow> sock \<Rightarrow> (int \<times> socket_peer_info \<times> sock) run" where
  "socket_send_round chunk pinf s =
     bind_run (send_bufs chunk (send_q pinf) s)
       (\<lambda>(ret, s).
          (let pinf = pinf\<lparr>send_q := []\<rparr>
           in Ret (ret, if ret < 0 then shutdown_peer ret pinf else pinf, s)))"

subsection \<open>Receiving\<close>

definition header_of :: "mem \<Rightarrow> msg_header" where
  "header_of m =
     \<lparr>hdr_crc = of_nat (get_unaligned_le32 m 0), hdr_data_size = of_nat (get_unaligned_le16 m 4),
      hdr_ctl_size = m 6, hdr_type = m 7\<rparr>"

text \<open>
  One round of \<open>socket_recv_thread\<close>.  \<open>page\<close> is the outcome of the data page
  allocation: its content before it is read into.  \<open>recv\<close> is \<open>ngnfs_msg_recv\<close>.
\<close>

definition socket_recv_round ::
    "(nat \<Rightarrow> nat) \<Rightarrow> mem option \<Rightarrow> (msg_desc \<Rightarrow> 'w \<Rightarrow> int \<times> 'w) \<Rightarrow> sockaddr_in \<Rightarrow> sock \<Rightarrow> 'w \<Rightarrow> (int \<times> sock \<times> 'w) run" where
  "socket_recv_round chunk page recv a s w =
     bind_run (whole_iovec 8 (readv chunk) (iov_append [] Hdr_buf 8) s)
       (\<lambda>(ret, s).
          if ret < 0 then Ret (ret, s, w)
          else
            (let hdr = header_of (bufs s Hdr_buf);
                 ret = ngnfs_msg_verify_header hdr
             in if ret < 0 then Ret (ret, s, w)
                else if hdr_data_size hdr \<noteq> 0 \<and> page = None then Ret (- ENOMEM, s, w)
                else
                  (let s = (if hdr_data_size hdr \<noteq> 0
                            then s\<lparr>bufs := (bufs s)(Data_buf := page_address page)\<rparr> else s);
                       iov = iov_append [] Ctl_buf (unat (hdr_ctl_size hdr));
                       iov = iov_append iov Data_buf (unat (hdr_data_size hdr))
                   in bind_run (whole_iovec (unat (hdr_ctl_size hdr) + unat (hdr_data_size hdr)) (readv chunk) iov s)
                        (\<lambda>(ret, s).
                           if ret < 0 then Ret (ret, s, w)
                           else
                             (let (ret, w) =
                                recv \<lparr>addr = a, ctl_buf = bufs s Ctl_buf,
                                      data_page = (if hdr_data_size hdr \<noteq> 0 then Some (bufs s Data_buf) else None),
                                      data_size = hdr_data_size hdr, ctl_size = hdr_ctl_size hdr, mtype = hdr_type hdr\<rparr> w
                              in Ret (ret, s, w))))))"

text \<open>The loop of the thread, for a number of rounds, and its end.\<close>

primrec socket_recv_loop ::
    "nat \<Rightarrow> (nat \<Rightarrow> nat) \<Rightarrow> mem option \<Rightarrow> (msg_desc \<Rightarrow> 'w \<Rightarrow> int \<times> 'w) \<Rightarrow> sockaddr_in \<Rightarrow> sock \<Rightarrow> 'w \<Rightarrow> (int \<times> sock \<times> 'w) run" where
  "socket_recv_loop 0 chunk page recv a s w = Ret (0, s, w)"
| "socket_recv_loop (Suc n) chunk page recv a s w =
     bind_run (socket_recv_round chunk page recv a s w)
       (\<lambda>(ret, s, w). if ret < 0 then Ret (ret, s, w) else socket_recv_loop n chunk page recv a s w)"

definition socket_recv_thread ::
    "nat \<Rightarrow> bool \<Rightarrow> (nat \<Rightarrow> nat) \<Rightarrow> mem option \<Rightarrow> (msg_desc \<Rightarrow> 'w \<Rightarrow> int \<times> 'w) \<Rightarrow> socket_peer_info \<Rightarrow> sock \<Rightarrow> 'w \<Rightarrow>
     (socket_peer_info \<times> sock \<times> 'w) run" where
  "socket_recv_thread rounds ctl_ok chunk page recv pinf s w =
     (if \<not> ctl_ok then Ret (shutdown_peer (- ENOMEM) pinf, s, w)
      else bind_run (socket_recv_loop rounds chunk page recv (sp_addr pinf) s w)
             (\<lambda>(ret, s, w). Ret (shutdown_peer ret pinf, s, w)))"

end
