(* ===== verification/Mtr_Socket_Props.thy ===== *)
theory Mtr_Socket_Props
  imports Mtr_Socket
begin

text \<open>
  Properties of the socket transport: vectored transfers are complete however the
  system splits them, and what is sent on one side is received whole and in order on
  the other side.
\<close>

subsection \<open>Transfers in pieces\<close>

definition iov_ok :: "iovec list \<Rightarrow> bool" where
  "iov_ok iov \<longleftrightarrow> list_all (\<lambda>(b, off, len). 0 < len) iov"

lemma iov_total_simps [simp]:
  "iov_total [] = 0" "iov_total ((b, off, len) # iov) = len + iov_total iov"
  by (simp_all add: iov_total_def)

lemma iov_ok_simps [simp]: "iov_ok []" "iov_ok ((b, off, len) # iov) \<longleftrightarrow> 0 < len \<and> iov_ok iov"
  by (simp_all add: iov_ok_def)

lemma iov_ok_total_0: "iov_ok iov \<Longrightarrow> iov_total iov = 0 \<longleftrightarrow> iov = []"
  by (cases iov) auto

lemma length_gather [simp]: "length (gather iov m) = iov_total iov"
  by (induction iov m rule: gather.induct) simp_all

lemma iov_advance_ok: "iov_ok iov \<Longrightarrow> iov_ok (iov_advance n iov)"
  by (induction n iov rule: iov_advance.induct) (auto simp: Let_def)

lemma iov_advance_total: "n \<le> iov_total iov \<Longrightarrow> iov_total (iov_advance n iov) = iov_total iov - n"
  by (induction n iov rule: iov_advance.induct) (auto simp: Let_def min_def)

lemma drop_bytes: "k \<le> n \<Longrightarrow> drop k (bytes m a n) = bytes m (a + k) (n - k)"
  by (rule nth_equalityI) (auto simp: add.assoc)

lemma gather_advance: "n \<le> iov_total iov \<Longrightarrow> gather (iov_advance n iov) m = drop n (gather iov m)"
  by (induction n iov rule: iov_advance.induct) (auto simp: Let_def min_def drop_bytes)

lemma write_bytes_append:
  "write_bytes (write_bytes m a xs) (a + length xs) ys = write_bytes m a (xs @ ys)"
  by (auto simp: write_bytes_def fun_eq_iff nth_append)

lemma scatter_Nil [simp]: "scatter iov [] m = m"
  by (induction iov "[] :: u8 list" m rule: scatter.induct) simp_all

lemma iov_advance_0 [simp]: "iov_advance 0 iov = iov"
  by (cases iov) auto

lemma scatter_advance:
  "length bs = iov_total iov \<Longrightarrow> n \<le> iov_total iov \<Longrightarrow>
    scatter (iov_advance n iov) (drop n bs) (scatter iov (take n bs) m) = scatter iov bs m"
proof (induction n iov arbitrary: bs m rule: iov_advance.induct)
  case (2 n b off len iov)
  show ?case
  proof (cases "len \<le> n")
    case True
    have d: "drop len (take n bs) = take (n - len) (drop len bs)" "min len n = len" using True by (simp_all add: drop_take)
    have "scatter (iov_advance (n - len) iov) (drop (n - len) (drop len bs))
        (scatter iov (take (n - len) (drop len bs)) m') = scatter iov (drop len bs) m'" for m'
    proof (cases "n = 0")
      case True
      then show ?thesis by simp
    next
      case n: False
      have "n - len \<le> iov_total iov" using 2(3) by simp
      then show ?thesis using 2(1) [OF n refl, of "drop len bs" m'] 2(2) d(2) by simp
    qed
    then show ?thesis using True d by (cases "n = 0") (auto simp: Let_def min_def)
  next
    case False
    then have "min len n = n" "len - n \<noteq> 0" by simp_all
    moreover have "write_bytes (write_bytes (m b) off (take n bs)) (off + n) (take (len - n) (drop n bs)) =
        write_bytes (m b) off (take len bs)"
    proof -
      have "length (take n bs) = n" using 2(2) False by simp
      then have "write_bytes (write_bytes (m b) off (take n bs)) (off + n) (take (len - n) (drop n bs)) =
          write_bytes (m b) off (take n bs @ take (len - n) (drop n bs))"
        using write_bytes_append [of "m b" off "take n bs"] by simp
      also have "take n bs @ take (len - n) (drop n bs) = take len bs"
        using False by (metis le_add_diff_inverse less_imp_le not_less take_add)
      finally show ?thesis .
    qed
    moreover have "((\<lambda>x. if x = b then y else m x)(b := z)) = m(b := z)" for y z by (simp add: fun_eq_iff)
    ultimately show ?thesis using False by (simp add: Let_def)
  qed
qed simp

lemma whole_readv:
  assumes chunk: "\<And>i. 0 < chunk i"
  shows "iov_ok iov \<Longrightarrow> iov_total iov \<le> fuel \<Longrightarrow> iov_total iov \<le> length (inp s) \<Longrightarrow>
    \<exists>c. whole_iovec fuel (readv chunk) iov s =
      Ret (0, s\<lparr>calls := c, inp := drop (iov_total iov) (inp s),
                bufs := scatter iov (take (iov_total iov) (inp s)) (bufs s)\<rparr>)"
proof (induction fuel arbitrary: iov s)
  case 0
  then have "iov = []" using iov_ok_total_0 by simp
  then show ?case by (auto intro: exI [of _ "calls s"])
next
  case (Suc fuel)
  show ?case
  proof (cases "iov = []")
    case True
    then show ?thesis by (auto intro: exI [of _ "calls s"])
  next
    case False
    let ?t = "iov_total iov"
    define n where "n = min (chunk (calls s)) ?t"
    have n: "0 < n" "n \<le> ?t" using iov_ok_total_0 [OF Suc.prems(1)] False chunk [of "calls s"] by (auto simp: n_def)
    define s1 where "s1 = s\<lparr>calls := calls s + 1, inp := drop n (inp s), bufs := scatter iov (take n (inp s)) (bufs s)\<rparr>"
    have r: "readv chunk iov s = (int n, s1)" using Suc.prems(3) n by (simp add: readv_def Let_def s1_def n_def)
    have f: "?t - n \<le> fuel" "?t - n \<le> length (inp s) - n" using Suc.prems n by linarith+
    have "iov_total (iov_advance n iov) = ?t - n" using iov_advance_total n by simp
    then obtain c where c: "whole_iovec fuel (readv chunk) (iov_advance n iov) s1 =
        Ret (0, s1\<lparr>calls := c, inp := drop (?t - n) (inp s1),
                   bufs := scatter (iov_advance n iov) (take (?t - n) (inp s1)) (bufs s1)\<rparr>)"
      using Suc.IH [of "iov_advance n iov" s1] iov_advance_ok [OF Suc.prems(1), of n] f
      by (auto simp: s1_def)
    have "take (?t - n) (drop n (inp s)) = drop n (take ?t (inp s))" by (simp add: drop_take)
    moreover have "take n (inp s) = take n (take ?t (inp s))" using n by simp
    ultimately have "scatter (iov_advance n iov) (take (?t - n) (drop n (inp s))) (scatter iov (take n (inp s)) (bufs s)) =
        scatter iov (take ?t (inp s)) (bufs s)"
      using scatter_advance [of "take ?t (inp s)" iov n] Suc.prems n by simp
    then show ?thesis using c r n False by (auto simp: s1_def intro!: exI [of _ c])
  qed
qed

lemma whole_writev:
  assumes chunk: "\<And>i. 0 < chunk i"
  shows "iov_ok iov \<Longrightarrow> iov_total iov \<le> fuel \<Longrightarrow>
    \<exists>c. whole_iovec fuel (writev chunk) iov s = Ret (0, s\<lparr>calls := c, outp := outp s @ gather iov (bufs s)\<rparr>)"
proof (induction fuel arbitrary: iov s)
  case 0
  then have "iov = []" using iov_ok_total_0 by simp
  then show ?case by (auto intro: exI [of _ "calls s"])
next
  case (Suc fuel)
  show ?case
  proof (cases "iov = []")
    case True
    then show ?thesis by (auto intro: exI [of _ "calls s"])
  next
    case False
    let ?t = "iov_total iov"
    define n where "n = min (chunk (calls s)) ?t"
    have n: "0 < n" "n \<le> ?t" using iov_ok_total_0 [OF Suc.prems(1)] False chunk [of "calls s"] by (auto simp: n_def)
    define s1 where "s1 = s\<lparr>calls := calls s + 1, outp := outp s @ take n (gather iov (bufs s))\<rparr>"
    have r: "writev chunk iov s = (int n, s1)" by (simp add: writev_def Let_def s1_def n_def)
    have f: "?t - n \<le> fuel" using Suc.prems n by linarith
    obtain c where c: "whole_iovec fuel (writev chunk) (iov_advance n iov) s1 =
        Ret (0, s1\<lparr>calls := c, outp := outp s1 @ gather (iov_advance n iov) (bufs s1)\<rparr>)"
      using Suc.IH [of "iov_advance n iov" s1] iov_advance_ok [OF Suc.prems(1), of n] iov_advance_total [OF n(2)]
        f by auto
    have "take n (gather iov (bufs s)) @ gather (iov_advance n iov) (bufs s) = gather iov (bufs s)"
      using gather_advance [OF n(2)] by simp
    then show ?thesis using c r n False by (auto simp: s1_def intro!: exI [of _ c])
  qed
qed

text \<open>When the other side stops before the buffers are full, the transfer fails.\<close>

lemma whole_readv_short:
  assumes chunk: "\<And>i. 0 < chunk i"
  shows "iov_ok iov \<Longrightarrow> iov_total iov \<le> fuel \<Longrightarrow> length (inp s) < iov_total iov \<Longrightarrow>
    \<exists>s'. whole_iovec fuel (readv chunk) iov s = Ret (- ESHUTDOWN, s')"
proof (induction fuel arbitrary: iov s)
  case (Suc fuel)
  then have ne: "iov \<noteq> []" by auto
  define n where "n = min (chunk (calls s)) (length (inp s))"
  define s1 where "s1 = s\<lparr>calls := calls s + 1, inp := drop n (inp s), bufs := scatter iov (take n (inp s)) (bufs s)\<rparr>"
  have n: "n \<le> length (inp s)" by (simp add: n_def)
  have r: "readv chunk iov s = (int n, s1)" using Suc.prems(3) by (simp add: readv_def Let_def s1_def n_def min_def)
  show ?case
  proof (cases "n = 0")
    case True
    then show ?thesis using r ne by simp
  next
    case False
    have f: "iov_total iov - n \<le> fuel" "length (inp s) - n < iov_total iov - n" using Suc.prems n False by linarith+
    have "iov_total (iov_advance n iov) = iov_total iov - n" using iov_advance_total n Suc.prems by simp
    then have "\<exists>s'. whole_iovec fuel (readv chunk) (iov_advance n iov) s1 = Ret (- ESHUTDOWN, s')"
      using Suc.IH [of "iov_advance n iov" s1] iov_advance_ok [OF Suc.prems(1), of n] f
      by (auto simp: s1_def)
    then show ?thesis using r ne False by simp
  qed
qed simp

subsection \<open>Packets\<close>

text \<open>What a message says, without the buffers it is in.\<close>

definition msg_of :: "msg_desc \<Rightarrow> u8 \<times> u8 list \<times> u8 list" where
  "msg_of d = (mtype d, bytes (ctl_buf d) 0 (unat (ctl_size d)), bytes (page_address (data_page d)) 0 (unat (data_size d)))"

text \<open>The messages the layers above send.\<close>

definition desc_ok :: "msg_desc \<Rightarrow> bool" where
  "desc_ok d \<longleftrightarrow> (ctl_size d \<noteq> 0 \<or> data_size d \<noteq> 0) \<and> unat (data_size d) \<le> NGNFS_MSG_MAX_DATA_SIZE \<and>
     mtype d < NGNFS_MSG__NR"

lemma length_header [simp]: "length (header_bytes crc d) = 8"
  by (simp add: header_bytes_def)

lemma header_of_bytes:
  assumes "bytes m 0 8 = header_bytes crc d"
  shows "hdr_data_size (header_of m) = data_size d" "hdr_ctl_size (header_of m) = ctl_size d"
    "hdr_type (header_of m) = mtype d"
proof -
  have i: "m i = header_bytes crc d ! i" if "i < 8" for i using nth_bytes [of i 8 m 0] that assms by simp
  have "bytes m 4 2 = num_le 2 (unat (data_size d))"
    by (rule nth_equalityI) (auto simp: i header_bytes_def nth_append)
  moreover have "unat (data_size d) < 65536" using unsigned_less [of "data_size d", where ?'a = nat] by simp
  ultimately show "hdr_data_size (header_of m) = data_size d"
    by (simp add: header_of_def get_unaligned_le16_def le_num_num_le)
  show "hdr_ctl_size (header_of m) = ctl_size d" "hdr_type (header_of m) = mtype d"
    by (simp_all add: header_of_def i header_bytes_def nth_append)
qed

lemma verify_desc_ok:
  "desc_ok d \<Longrightarrow> hdr_data_size h = data_size d \<Longrightarrow> hdr_ctl_size h = ctl_size d \<Longrightarrow> hdr_type h = mtype d \<Longrightarrow>
    ngnfs_msg_verify_header h = 0"
  using unsigned_less [of "ctl_size d", where ?'a = nat]
  by (auto simp: ngnfs_msg_verify_header_def desc_ok_def)

lemma send_bufs_out:
  assumes "\<And>i. 0 < chunk i"
  shows "list_all (\<lambda>b. b \<noteq> []) sbufs \<Longrightarrow>
    \<exists>s'. send_bufs chunk sbufs s = Ret (0, s') \<and> outp s' = outp s @ concat sbufs"
proof (induction sbufs arbitrary: s)
  case (Cons b sbufs)
  define s1 where "s1 = s\<lparr>bufs := (bufs s)(Send_buf := write_bytes (\<lambda>_. 0) 0 b)\<rparr>"
  have iov: "iov_append [] Send_buf (length b) = [(Send_buf, 0, length b)]" using Cons.prems by (simp add: iov_append_def)
  have g: "gather [(Send_buf, 0, length b)] (bufs s1) = b" by (simp add: s1_def bytes_write_same)
  obtain c where "whole_iovec (length b) (writev chunk) [(Send_buf, 0, length b)] s1 =
      Ret (0, s1\<lparr>calls := c, outp := outp s1 @ gather [(Send_buf, 0, length b)] (bufs s1)\<rparr>)"
    using whole_writev [where chunk = chunk and iov = "[(Send_buf, 0, length b)]" and fuel = "length b" and s = s1]
      assms Cons.prems by auto
  then have w: "whole_iovec (length b) (writev chunk) [(Send_buf, 0, length b)] s1 =
      Ret (0, s1\<lparr>calls := c, outp := outp s1 @ b\<rparr>)" unfolding g .
  obtain s' where "send_bufs chunk sbufs (s1\<lparr>calls := c, outp := outp s1 @ b\<rparr>) = Ret (0, s')"
    "outp s' = outp (s1\<lparr>calls := c, outp := outp s1 @ b\<rparr>) @ concat sbufs"
    using Cons.IH Cons.prems by fastforce
  then show ?case using w iov by (simp add: Let_def s1_def)
qed simp

text \<open>One round of the receiving thread on the bytes of a packet.\<close>

lemma bytes_scatter_ctl_data:
  assumes "length cs = c" "length ds = d"
  defines "iov \<equiv> iov_append (iov_append [] Ctl_buf c) Data_buf d"
  shows "bytes (scatter iov (cs @ ds) m Ctl_buf) 0 c = cs" "bytes (scatter iov (cs @ ds) m Data_buf) 0 d = ds"
    "iov_ok iov" "iov_total iov = c + d"
  using assms by (auto simp: iov_def iov_append_def bytes_write_same)

lemma recv_round_desc:
  assumes chunk: "\<And>i. 0 < chunk i" and ok: "desc_ok d" and page: "page \<noteq> None"
    and inp: "inp s = packet_bytes crc d @ rest"
  obtains s' d' where "inp s' = rest"
    "socket_recv_round chunk page recv a s w = (let (ret, w) = recv d' w in Ret (ret, s', w))"
    "addr d' = a" "msg_of d' = msg_of d" "data_page d' = None \<longleftrightarrow> data_size d = 0"
proof -
  let ?c = "unat (ctl_size d)" and ?n = "unat (data_size d)"
  define cs where "cs = bytes (ctl_buf d) 0 ?c"
  define ds where "ds = bytes (page_address (data_page d)) 0 ?n"
  have i: "inp s = header_bytes crc d @ cs @ ds @ rest" using inp by (simp add: packet_bytes_def cs_def ds_def)
  have l: "length cs = ?c" "length ds = ?n" by (simp_all add: cs_def ds_def)
  have hiov: "iov_append [] Hdr_buf 8 = [(Hdr_buf, 0, 8)]" by (simp add: iov_append_def)
  obtain k where k: "whole_iovec 8 (readv chunk) [(Hdr_buf, 0, 8)] s =
      Ret (0, s\<lparr>calls := k, inp := drop 8 (inp s), bufs := scatter [(Hdr_buf, 0, 8)] (take 8 (inp s)) (bufs s)\<rparr>)"
    using whole_readv [where chunk = chunk and iov = "[(Hdr_buf, 0, 8)]" and fuel = 8 and s = s] chunk i by auto
  define s1 where "s1 = s\<lparr>calls := k, inp := drop 8 (inp s), bufs := scatter [(Hdr_buf, 0, 8)] (take 8 (inp s)) (bufs s)\<rparr>"
  have k1: "whole_iovec 8 (readv chunk) [(Hdr_buf, 0, 8)] s = Ret (0, s1)" using k by (simp add: s1_def)
  have "bytes (bufs s1 Hdr_buf) 0 8 = header_bytes crc d" by (simp add: s1_def i bytes_write_same)
  note hd = header_of_bytes [OF this]
  note v = verify_desc_ok [OF ok hd]
  define s2 where "s2 = (if data_size d \<noteq> 0 then s1\<lparr>bufs := (bufs s1)(Data_buf := page_address page)\<rparr> else s1)"
  define iov where "iov = iov_append (iov_append [] Ctl_buf ?c) Data_buf ?n"
  note b = bytes_scatter_ctl_data(1,2) [OF l, of "bufs s2", folded iov_def]
    bytes_scatter_ctl_data(3,4) [OF l, folded iov_def]
  have i2: "inp s2 = cs @ ds @ rest" by (simp add: s2_def s1_def i)
  obtain k2 where k2: "whole_iovec (?c + ?n) (readv chunk) iov s2 =
      Ret (0, s2\<lparr>calls := k2, inp := drop (?c + ?n) (inp s2), bufs := scatter iov (take (?c + ?n) (inp s2)) (bufs s2)\<rparr>)"
    using whole_readv [where chunk = chunk and iov = iov and fuel = "?c + ?n" and s = s2] chunk i2 b(3,4) l by auto
  define s3 where "s3 = s2\<lparr>calls := k2, inp := rest, bufs := scatter iov (cs @ ds) (bufs s2)\<rparr>"
  have k3: "whole_iovec (?c + ?n) (readv chunk) iov s2 = Ret (0, s3)"
    using k2 by (simp add: s3_def i2 l)
  define d' where "d' = \<lparr>addr = a, ctl_buf = bufs s3 Ctl_buf,
      data_page = (if data_size d \<noteq> 0 then Some (bufs s3 Data_buf) else None),
      data_size = data_size d, ctl_size = ctl_size d, mtype = mtype d\<rparr>"
  have "bytes (bufs s3 Ctl_buf) 0 ?c = cs" "bytes (bufs s3 Data_buf) 0 ?n = ds" using b by (simp_all add: s3_def)
  then have m: "msg_of d' = msg_of d"
    by (auto simp: msg_of_def d'_def cs_def ds_def page_address_def split: option.splits)
  have "socket_recv_round chunk page recv a s w =
      bind_run (whole_iovec (?c + ?n) (readv chunk) iov s2)
        (\<lambda>(ret, s). if ret < 0 then Ret (ret, s, w)
           else (let (ret, w) = recv \<lparr>addr = a, ctl_buf = bufs s Ctl_buf,
                   data_page = (if data_size d \<noteq> 0 then Some (bufs s Data_buf) else None),
                   data_size = data_size d, ctl_size = ctl_size d, mtype = mtype d\<rparr> w in Ret (ret, s, w)))"
    unfolding socket_recv_round_def hiov k1 bind_run.simps prod.case Let_def hd v iov_def s2_def msg_desc.select_convs
    using page by auto
  then have "socket_recv_round chunk page recv a s w = (let (ret, w) = recv d' w in Ret (ret, s3, w))"
    unfolding k3 d'_def by simp
  moreover have "inp s3 = rest" "addr d' = a" "data_page d' = None \<longleftrightarrow> data_size d = 0" by (simp_all add: d'_def s3_def)
  ultimately show thesis using m by (intro that [of s3 d'])
qed

lemma recv_round_packet:
  assumes "\<And>i. 0 < chunk i" "desc_ok d" "page \<noteq> None" "inp s = packet_bytes crc d @ rest"
  shows "\<exists>s'. inp s' = rest \<and>
    socket_recv_round chunk page (\<lambda>d. h (addr d) (msg_of d)) a s w = Ret (fst (h a (msg_of d) w), s', snd (h a (msg_of d) w))"
proof -
  obtain s' d' where "inp s' = rest" "addr d' = a" "msg_of d' = msg_of d"
    "socket_recv_round chunk page (\<lambda>d. h (addr d) (msg_of d)) a s w =
      (let (ret, w) = h (addr d') (msg_of d') w in Ret (ret, s', w))"
    by (rule recv_round_desc [where chunk = chunk and recv = "\<lambda>d. h (addr d) (msg_of d)" and a = a and w = w, OF assms]) blast
  then show ?thesis by (auto split: prod.splits)
qed

lemma recv_loop_packets:
  assumes chunk: "\<And>i. 0 < chunk i" and page: "page \<noteq> None" and h: "\<And>m w. 0 \<le> fst (h a m w)"
  shows "list_all desc_ok ds \<Longrightarrow> inp s = concat (map (packet_bytes crc) ds) @ rest \<Longrightarrow>
    \<exists>s'. inp s' = rest \<and>
      socket_recv_loop (length ds) chunk page (\<lambda>d. h (addr d) (msg_of d)) a s w =
        Ret (0, s', fold (\<lambda>m w. snd (h a m w)) (map msg_of ds) w)"
proof (induction ds arbitrary: s w)
  case (Cons d ds)
  obtain s1 where s1: "inp s1 = concat (map (packet_bytes crc) ds) @ rest"
    "socket_recv_round chunk page (\<lambda>d. h (addr d) (msg_of d)) a s w =
      Ret (fst (h a (msg_of d) w), s1, snd (h a (msg_of d) w))"
    using recv_round_packet [of chunk d page s crc "concat (map (packet_bytes crc) ds) @ rest" h a w]
      chunk page Cons.prems by auto
  then show ?case using Cons.IH [OF _ s1(1), of "snd (h a (msg_of d) w)"] Cons.prems h [of "msg_of d" w] by auto
qed auto

lemma packet_bytes_nonempty: "packet_bytes crc d \<noteq> []"
  by (simp add: packet_bytes_def header_bytes_def)

text \<open>The queue after sending some messages.\<close>

lemma socket_send_queues:
  assumes "err pinf = 0"
  shows "fold (\<lambda>d p. snd (socket_send True crc d p)) ds pinf = pinf\<lparr>send_q := send_q pinf @ map (packet_bytes crc) ds\<rparr>"
  using assms by (induction ds arbitrary: pinf) (simp_all add: socket_send_def)

subsection \<open>Properties\<close>

text \<open>C34: Messages arrive whole and in order.  Messages that are sent on a peer without an
  error are queued, the send thread writes their packets, and a receive thread that
  reads what was written hands the same messages, with the address of its peer, to the
  message layer in the same order, and reads nothing beyond them; this holds however the
  system splits the writes and the reads.\<close>

theorem socket_messages_in_order:
  assumes "\<And>i. 0 < chunkw i" "\<And>i. 0 < chunkr i" "page \<noteq> None" "\<And>m w. 0 \<le> fst (h a m w)"
    and "list_all desc_ok ds" "err pinf = 0" "send_q pinf = []"
  shows "\<exists>pinf' s s'. socket_send_round chunkw (fold (\<lambda>d p. snd (socket_send True crc d p)) ds pinf) tx = Ret (0, pinf', s) \<and>
    send_q pinf' = [] \<and> err pinf' = 0 \<and>
    socket_recv_loop (length ds) chunkr page (\<lambda>d. h (addr d) (msg_of d)) a (rx\<lparr>inp := drop (length (outp tx)) (outp s) @ rest\<rparr>) w =
      Ret (0, s', fold (\<lambda>m w. snd (h a m w)) (map msg_of ds) w) \<and> inp s' = rest"
proof -
  let ?p = "map (packet_bytes crc) ds"
  have "list_all (\<lambda>b. b \<noteq> []) ?p" by (simp add: list_all_iff packet_bytes_nonempty)
  then obtain s where s: "send_bufs chunkw ?p tx = Ret (0, s)" "outp s = outp tx @ concat ?p"
    using send_bufs_out [where chunk = chunkw, OF assms(1)] by blast
  have "\<exists>s'. inp s' = rest \<and>
      socket_recv_loop (length ds) chunkr page (\<lambda>d. h (addr d) (msg_of d)) a (rx\<lparr>inp := drop (length (outp tx)) (outp s) @ rest\<rparr>) w =
        Ret (0, s', fold (\<lambda>m w. snd (h a m w)) (map msg_of ds) w)"
    by (rule recv_loop_packets [where chunk = chunkr and crc = crc]) (use assms s in auto)
  moreover have "socket_send_round chunkw (fold (\<lambda>d p. snd (socket_send True crc d p)) ds pinf) tx =
      Ret (0, pinf\<lparr>send_q := []\<rparr>, s)"
    using s(1) assms(6,7) by (simp add: socket_send_round_def socket_send_queues Let_def)
  ultimately show ?thesis using assms(6) by fastforce
qed

text \<open>A message for the witnesses: a write of block 7 whose page is all ones.\<close>

definition example_desc :: msg_desc where
  "example_desc = \<lparr>addr = (1, 2), ctl_buf = put_unaligned_le64 7 (\<lambda>_. 0) 0, data_page = Some (\<lambda>_. 1),
     data_size = 4096, ctl_size = 8, mtype = NGNFS_MSG_WRITE_BLOCK\<rparr>"

theorem socket_messages_in_order_witness:
  "\<exists>s'. socket_recv_loop 1 (\<lambda>_. 100) (Some (\<lambda>_. 0)) (\<lambda>d w. (0, w @ [msg_of d])) (5, 6)
     \<lparr>inp = packet_bytes 0 example_desc, outp = [], calls = 0, bufs = (\<lambda>_ _. 0)\<rparr> [] =
     Ret (0, s', [msg_of example_desc])"
proof -
  have ok: "list_all desc_ok [example_desc]" by (simp add: desc_ok_def example_desc_def)
  define s0 where "s0 = \<lparr>inp = [], outp = [], calls = 0, bufs = (\<lambda>_ _. 0)\<rparr>"
  obtain pinf' s s' where *: "socket_send_round (\<lambda>_. 3) (fold (\<lambda>d p. snd (socket_send True 0 d p)) [example_desc] socket_init_peer) s0 = Ret (0, pinf', s)"
    "socket_recv_loop (length [example_desc]) (\<lambda>_. 100) (Some (\<lambda>_. 0)) (\<lambda>d. (\<lambda>a m w. (0, w @ [m])) (addr d) (msg_of d)) (5, 6) (s0\<lparr>inp := drop (length (outp s0)) (outp s) @ []\<rparr>) [] =
      Ret (0, s', fold (\<lambda>m w. snd ((\<lambda>a m w. (0, w @ [m])) (5, 6) m w)) (map msg_of [example_desc]) [])"
    using socket_messages_in_order [where chunkw = "\<lambda>_. 3" and chunkr = "\<lambda>_. 100" and page = "Some (\<lambda>_. 0)" and
        h = "\<lambda>a m w. (0, w @ [m])" and a = "(5, 6)" and pinf = socket_init_peer and tx = s0 and rx = s0 and
        rest = "[]" and w = "[]" and crc = 0, OF _ _ _ _ ok]
    by (auto simp: socket_init_peer_def)
  obtain t where t: "send_bufs (\<lambda>_. 3) [packet_bytes 0 example_desc] s0 = Ret (0, t)" "outp t = packet_bytes 0 example_desc"
    using send_bufs_out [of "\<lambda>_. 3" "[packet_bytes 0 example_desc]" s0]
    by (auto simp: packet_bytes_nonempty s0_def)
  have "s = t"
    using *(1) t(1) by (simp add: socket_send_round_def socket_send_def socket_init_peer_def Let_def)
  then show ?thesis using *(2) t(2) by (auto simp: s0_def)
qed

text \<open>A connection that fails is not reported: when \<open>connect\<close> returns -1 the thread
  ends with the positive value 1, the peer is not shut down and gets no error, so every
  later send on it succeeds and queues a packet nobody will write.\<close>

theorem socket_connect_failure_lost:
  assumes "0 \<le> socket_ret" "err pinf = 0"
  shows "socket_connect_thread socket_ret (-1) opt_ret send_ret recv_ret pinf = pinf \<and>
    fst (socket_send True crc d (socket_connect_thread socket_ret (-1) opt_ret send_ret recv_ret pinf)) = 0 \<and>
    length (send_q (snd (socket_send True crc d (socket_connect_thread socket_ret (-1) opt_ret send_ret recv_ret pinf)))) =
      length (send_q pinf) + 1"
  using assms by (simp add: socket_connect_thread_def socket_send_def)

theorem socket_connect_failure_lost_witness:
  "fst (socket_send True 0 example_desc (socket_connect_thread 3 (-1) 0 0 0 socket_init_peer)) = 0"
  using socket_connect_failure_lost [where socket_ret = 3 and pinf = socket_init_peer and opt_ret = 0 and
      send_ret = 0 and recv_ret = 0 and crc = 0 and d = example_desc]
  by (metis socket_peer_info.select_convs(8) socket_init_peer_def zero_le_numeral)

end
