(* ===== verification/Remote.thy ===== *)
theory Remote
  imports Devd Pfs_Props Mtr_Socket_Props Block_Round
begin

text \<open>
  The system as a whole: clients whose block caches reach the block servers through messages over
  sockets, the servers with their caches and devices, and the commands of debugfs on top.
\<close>

unbundle bit_operations_syntax

subsection \<open>Messages over a connection\<close>

text \<open>What a connection promises: a message arrives with its type and bytes, with the address of the
  peer it came from, and with a page exactly when it carries data.\<close>

locale message_wire =
  fixes wire :: "sockaddr_in \<Rightarrow> msg_desc \<Rightarrow> msg_desc"
  assumes wire_addr: "desc_ok m \<Longrightarrow> addr (wire a m) = a"
    and wire_msg: "desc_ok m \<Longrightarrow> msg_of (wire a m) = msg_of m"
    and wire_page: "desc_ok m \<Longrightarrow> data_page (wire a m) = None \<longleftrightarrow> data_size m = 0"

text \<open>A message that is sent on a new peer, written by the send thread, read by the receive thread of
  the other side and handed to the message layer there; the system splits writes and reads into chunks
  of \<open>Suc (chunkw i)\<close> and \<open>Suc (chunkr i)\<close> bytes.\<close>

definition new_sock :: sock where
  "new_sock = \<lparr>inp = [], outp = [], calls = 0, bufs = (\<lambda>_ _. 0)\<rparr>"

definition socket_wire :: "(nat \<Rightarrow> nat) \<Rightarrow> (nat \<Rightarrow> nat) \<Rightarrow> mem \<Rightarrow> u32 \<Rightarrow> sockaddr_in \<Rightarrow> msg_desc \<Rightarrow> msg_desc" where
  "socket_wire chunkw chunkr page crc a m =
     (case socket_send_round (\<lambda>i. Suc (chunkw i)) (snd (socket_send True crc m socket_init_peer)) new_sock of
        Ret (ret, pinf, s) \<Rightarrow>
          (case socket_recv_round (\<lambda>i. Suc (chunkr i)) (Some page) (\<lambda>d ds. (0, ds @ [d])) a (new_sock\<lparr>inp := outp s\<rparr>) [] of
             Ret (ret, s, [d]) \<Rightarrow> d
           | _ \<Rightarrow> m)
      | _ \<Rightarrow> m)"

interpretation sw: message_wire "socket_wire chunkw chunkr page crc" for chunkw chunkr page crc
proof -
  have "addr (socket_wire chunkw chunkr page crc a m) = a \<and> msg_of (socket_wire chunkw chunkr page crc a m) = msg_of m \<and>
      (data_page (socket_wire chunkw chunkr page crc a m) = None \<longleftrightarrow> data_size m = 0)" if m: "desc_ok m" for a m
  proof -
    obtain s where s: "send_bufs (\<lambda>i. Suc (chunkw i)) [packet_bytes crc m] new_sock = Ret (0, s)"
      "outp s = outp new_sock @ concat [packet_bytes crc m]"
      using send_bufs_out [of "\<lambda>i. Suc (chunkw i)" "[packet_bytes crc m]" new_sock] packet_bytes_nonempty [of crc m] by auto
    have send: "socket_send_round (\<lambda>i. Suc (chunkw i)) (snd (socket_send True crc m socket_init_peer)) new_sock =
        Ret (0, socket_init_peer\<lparr>send_q := []\<rparr>, s)"
      using s(1) by (simp add: socket_send_round_def socket_send_def socket_init_peer_def Let_def)
    have i: "inp (new_sock\<lparr>inp := outp s\<rparr>) = packet_bytes crc m @ []" using s(2) by (simp add: new_sock_def)
    obtain s' d' where "socket_recv_round (\<lambda>i. Suc (chunkr i)) (Some page) (\<lambda>d ds. (0, ds @ [d])) a (new_sock\<lparr>inp := outp s\<rparr>) [] =
        (let (ret, w) = (0, [] @ [d']) in Ret (ret, s', w))" "addr d' = a" "msg_of d' = msg_of m"
      "data_page d' = None \<longleftrightarrow> data_size m = 0"
      by (rule recv_round_desc [where chunk = "\<lambda>i. Suc (chunkr i)" and page = "Some page" and recv = "\<lambda>d ds. (0, ds @ [d])" and
            a = a and w = "[]", OF _ m _ i]) auto
    then show ?thesis by (simp add: socket_wire_def send)
  qed
  then show "message_wire (socket_wire chunkw chunkr page crc)" by unfold_locales auto
qed

subsection \<open>Handlers see the type and the bytes of a message only\<close>

lemma msg_of_eq:
  assumes "msg_of m = msg_of m'"
  shows "mtype m = mtype m'" "ctl_size m = ctl_size m'" "data_size m = data_size m'"
    "bytes (ctl_buf m) 0 (unat (ctl_size m)) = bytes (ctl_buf m') 0 (unat (ctl_size m))"
    "bytes (page_address (data_page m)) 0 (unat (data_size m)) = bytes (page_address (data_page m')) 0 (unat (data_size m))"
proof -
  have "length (bytes (ctl_buf m) 0 (unat (ctl_size m))) = length (bytes (ctl_buf m') 0 (unat (ctl_size m')))"
    "length (bytes (page_address (data_page m)) 0 (unat (data_size m))) =
      length (bytes (page_address (data_page m')) 0 (unat (data_size m')))"
    using assms unfolding msg_of_def by (metis prod.inject)+
  then show s: "ctl_size m = ctl_size m'" "data_size m = data_size m'" by (simp_all add: word_unat_eq_iff)
  show "mtype m = mtype m'" "bytes (ctl_buf m) 0 (unat (ctl_size m)) = bytes (ctl_buf m') 0 (unat (ctl_size m))"
    "bytes (page_address (data_page m)) 0 (unat (data_size m)) = bytes (page_address (data_page m')) 0 (unat (data_size m))"
    using assms unfolding msg_of_def s by simp_all
qed

lemma bytes_eqD: "bytes m a n = bytes m' a n \<Longrightarrow> a \<le> i \<Longrightarrow> i < a + n \<Longrightarrow> m i = m' i"
  using nth_bytes [of "i - a" n m a] nth_bytes [of "i - a" n m' a] by simp

lemma ctl_fields_eq:
  assumes "msg_of m = msg_of m'"
  shows "8 \<le> unat (ctl_size m) \<Longrightarrow> ctl_bnr m = ctl_bnr m'" "i < unat (ctl_size m) \<Longrightarrow> ctl_byte i m = ctl_byte i m'"
proof -
  note b = bytes_eqD [OF msg_of_eq(4) [OF assms]]
  show "ctl_byte i m = ctl_byte i m'" if "i < unat (ctl_size m)" using b [of i] that by (simp add: ctl_byte_def)
  show "ctl_bnr m = ctl_bnr m'" if "8 \<le> unat (ctl_size m)"
  proof -
    have "bytes (ctl_buf m) 0 8 = bytes (ctl_buf m') 0 8" using that by (intro bytes_cong b) auto
    then show ?thesis by (simp add: ctl_bnr_def get_unaligned_le64_def)
  qed
qed

lemma devd_get_msg:
  assumes "addr m = addr m'" "msg_of m = msg_of m'"
  shows "devd_get mem_ok env r stack m d = devd_get mem_ok env r stack m' d"
proof (cases "unat (ctl_size m) = sizeof_get_block")
  case True
  then have "ctl_bnr m = ctl_bnr m'" "ctl_byte 8 m = ctl_byte 8 m'" using ctl_fields_eq [OF assms(2)] by simp_all
  then show ?thesis using assms(1) msg_of_eq(2,3) [OF assms(2)] by (simp add: devd_get_def devd_get_block_def)
next
  case False
  then show ?thesis using msg_of_eq(2) [OF assms(2)] by (simp add: devd_get_def devd_get_block_def)
qed

lemma devd_write_msg:
  assumes "addr m = addr m'" "msg_of m = msg_of m'"
  shows "devd_write add_ok fuel ok km env sync_env r stack m d = devd_write add_ok fuel ok km env sync_env r stack m' d"
proof (cases "unat (ctl_size m) = sizeof_write_block \<and> unat (data_size m) = NGNFS_BLOCK_SIZE")
  case True
  then have b: "ctl_bnr m = ctl_bnr m'" using ctl_fields_eq [OF assms(2)] by simp
  have "bytes (page_address (data_page m)) 0 4096 = bytes (page_address (data_page m')) 0 4096"
    using msg_of_eq(5) [OF assms(2)] True by simp
  then have "commit_write_block (page_address (data_page m)) = commit_write_block (page_address (data_page m'))"
    by (simp add: commit_write_block_def memcpy_def fun_eq_iff)
  then show ?thesis using assms(1) b msg_of_eq(2,3) [OF assms(2)]
    by (simp add: devd_write_def devd_write_block_def page_address_def [symmetric])
next
  case False
  then show ?thesis using msg_of_eq(2,3) [OF assms(2)] by (auto simp: devd_write_def devd_write_block_def)
qed

text \<open>Answers that arrive over a connection.\<close>

context message_wire
begin

lemma wire_read_answer:
  assumes "read_answer bnr 0 (Some page) m"
  obtains page' where "read_answer bnr 0 (Some page') (wire a m)" "bytes page' 0 NGNFS_BLOCK_SIZE = bytes page 0 NGNFS_BLOCK_SIZE"
proof -
  have ok: "desc_ok m" using assms by (auto simp: desc_ok_def read_answer_def unat_eq_0)
  note f = msg_of_eq [OF wire_msg [OF ok, of a]]
  obtain page' where p: "data_page (wire a m) = Some page'"
    using wire_page [OF ok, of a] assms by (cases "data_page (wire a m)") (auto simp: read_answer_def)
  have "ctl_bnr (wire a m) = bnr" "ctl_byte 9 (wire a m) = ngnfs_msg_err 0"
    using ctl_fields_eq [OF wire_msg [OF ok, of a]] f(2) assms by (simp_all add: read_answer_def)
  moreover have "bytes page' 0 NGNFS_BLOCK_SIZE = bytes page 0 NGNFS_BLOCK_SIZE"
    using f(3,5) p assms by (simp add: read_answer_def page_address_def)
  ultimately show thesis using f(1-3) p assms by (intro that [of page']) (simp_all add: read_answer_def)
qed

lemma wire_write_answer:
  assumes "write_answer bnr ret m"
  shows "write_answer bnr ret (wire a m)"
proof -
  have ok: "desc_ok m" using assms by (auto simp: desc_ok_def write_answer_def unat_eq_0)
  note f = msg_of_eq [OF wire_msg [OF ok, of a]]
  have "ctl_bnr (wire a m) = bnr" "ctl_byte 8 (wire a m) = ngnfs_msg_err ret"
    using ctl_fields_eq [OF wire_msg [OF ok, of a]] f(2) assms by (simp_all add: write_answer_def)
  then show ?thesis using f(1-3) wire_page [OF ok, of a] assms by (simp add: write_answer_def)
qed

end

subsection \<open>Pages that agree on a block\<close>

lemma wf_block_page:
  assumes "bytes q 0 NGNFS_BLOCK_SIZE = bytes p 0 NGNFS_BLOCK_SIZE" "wf_block p"
  shows "wf_block q" "block_map q = block_map p"
proof -
  have eq: "q i = p i" if "i < 4096" for i using bytes_eqD [OF assms(1)] that by simp
  have hdr: "nr_items q = nr_items p" "total_free q = total_free p" "avail_free q = avail_free p"
    by (simp_all add: nr_items_def total_free_def avail_free_def get_le16_cong [of q _ p] eq)
  have fe: "free_end q = free_end p" by (simp add: free_end_def hdr)
  have "item_off_addr i < 4096" "item_off_addr i + 1 < 4096" if "i < nr_items p" for i
    using assms(2) that by (simp_all add: wf_block_def free_end_def item_off_addr_def)
  then have offs: "item_offs q = item_offs p"
    unfolding item_offs_def hdr by (intro map_cong get_le16_cong eq) auto
  have it: "key_size q i = key_size p i" "payload q i = payload p i" "item_key q i = item_key p i" "item_val q i = item_val p i"
    if "i \<in> set (item_offs p)" for i
  proof -
    have "i + payload p i \<le> 4096" using assms(2) that by (simp add: wf_block_def list_all_iff)
    then have *: "\<And>j. i \<le> j \<Longrightarrow> j < i + payload p i \<Longrightarrow> q j = p j" using eq by simp
    show "key_size q i = key_size p i" "payload q i = payload p i" "item_key q i = item_key p i" "item_val q i = item_val p i"
      using item_cong [of i p q, OF *] by auto
  qed
  have "sorted_wrt (payloads_disjoint q) (item_offs p) = sorted_wrt (payloads_disjoint p) (item_offs p)"
    by (rule iffI; erule sorted_wrt_mono_rel [rotated]) (simp_all add: payloads_disjoint_def it)
  then show "wf_block q" using assms(2) unfolding wf_block_def offs fe hdr list_all_iff
    by (simp add: it cong: map_cong ball_cong)
  show "block_map q = block_map p" by (simp add: block_map_def items_def offs it cong: map_cong)
qed

subsection \<open>A server and its device\<close>

text \<open>The device completes the requests in order and without errors; \<open>dev\<close> is what it holds.\<close>

primrec complete :: "(u64 \<Rightarrow> mem) \<Rightarrow> (btx_op \<times> u64 \<times> mem) list \<Rightarrow> block_info \<Rightarrow> block_info run" where
  "complete dev [] c = Ret c"
| "complete dev (r # rs) c =
     (let (op, bnr, page) = r
      in bind_run (ngnfs_block_end_io c bnr (Some (if op = NGNFS_BTX_OP_WRITE then page else dev bnr)) 0) (complete dev rs))"

definition device_round :: "(u64 \<Rightarrow> mem) \<Rightarrow> block_info \<Rightarrow> block_info" where
  "device_round dev c =
     (case bind_run (run_works c) (\<lambda>c'. complete dev (drop (length (in_transport c)) (in_transport c')) c') of
        Ret c' \<Rightarrow> c' | _ \<Rightarrow> c)"

lemma get_on_device:
  assumes "quiet st" "map_of (ht st) bnr = None" "nbf = NBF_READ \<or> nbf = NBF_WRITE"
  shows "txn_get True (\<lambda>_. device_round dev) n st bnr nbf = Ret (Inr (next_block st), read_done st bnr (dev bnr), Suc n)"
proof -
  have nbf: "\<not> bad_nbf nbf" "nbf AND NBF_NEW = 0" using assms(3) not_bad_nbf by auto
  obtain st1 st2 pg where g: "ngnfs_block_get True st bnr nbf = Ret (Get_wait (next_block st), st1)" "in_transport st1 = []"
    "run_works st1 = Ret st2" "in_transport st2 = [(NGNFS_BTX_OP_GET_READ, bnr, pg)]"
    "\<forall>page. ngnfs_block_end_io st2 bnr (Some page) 0 = Ret (read_done st bnr page)"
    using get_round [OF assms(1,2) nbf] .
  have "device_round dev st1 = read_done st bnr (dev bnr)" using g(2-5) by (simp add: device_round_def)
  then show ?thesis using g(1) read_done_idle [OF assms(1)] by (simp add: txn_get_def)
qed

lemma sync_on_device:
  assumes "quiet g" "block_idle g bnr b"
  shows "block_sync_wait (device_round dev) (dirtied q g b page) = Ret (0, (written g bnr b page)\<lparr>sync_waiters := 0\<rparr>)"
proof -
  have "device_round dev (syncing g b page) = written g bnr b page"
    using works_write [OF assms] end_io_writing(1) [OF assms, of page "Some page"] in_transport_write assms(1)
    by (simp add: device_round_def)
  then show ?thesis using sync_dirtied [OF assms(1)] sync_written [OF assms(1)] by (simp add: block_sync_wait_def)
qed

text \<open>The handlers that a server registers, on its cache and its device; all allocations succeed.\<close>

record server_env =
  sv_dev :: "u64 \<Rightarrow> mem"
  sv_stack :: mem
  sv_fuel :: nat
  sv_junk :: nat

primrec server_call :: "server_env \<Rightarrow> recv_fn \<Rightarrow> msg_desc \<Rightarrow> devd \<Rightarrow> int \<times> devd run" where
  "server_call e Devd_get_block m d = devd_get True (\<lambda>_. device_round (sv_dev e)) 0 (sv_stack e) m d"
| "server_call e Devd_write_block m d =
     devd_write True (sv_fuel e) (\<lambda>_. True) (Some (sv_junk e)) (\<lambda>_. device_round (sv_dev e)) (device_round (sv_dev e)) 0
       (sv_stack e) m d"
| "server_call e Get_block_result m d = (- EINVAL, Ret d)"
| "server_call e Write_block_result m d = (- EINVAL, Ret d)"

definition server_msgs :: "unit msg_info" where
  "server_msgs = snd (devd_recv_setup (new_msg_info ()))"

definition server_recv :: "server_env \<Rightarrow> msg_desc \<Rightarrow> devd \<Rightarrow> int \<times> devd run" where
  "server_recv e m d =
     ngnfs_msg_recv (\<lambda>f m s. case s of Ret d \<Rightarrow> server_call e f m d | _ \<Rightarrow> (0, s)) server_msgs m (Ret d)"

lemma server_recv_calls:
  "mtype m = NGNFS_MSG_GET_BLOCK \<Longrightarrow> server_recv e m d = server_call e Devd_get_block m d"
  "mtype m = NGNFS_MSG_WRITE_BLOCK \<Longrightarrow> server_recv e m d = server_call e Devd_write_block m d"
  by (simp_all add: server_recv_def server_msgs_def devd_recv_setup_def ngnfs_msg_register_recv_def new_msg_info_def
      ngnfs_msg_recv_def)

text \<open>A request that arrives is handled like the one that was sent, with the client's address.\<close>

lemma server_recv_request:
  assumes "addr m = a" "msg_of m = msg_of (submit_desc stack op bnr pg a')"
  shows "op = NGNFS_BTX_OP_GET_READ \<Longrightarrow> server_recv e m d = server_call e Devd_get_block (submit_desc stack op bnr pg a) d"
    "op = NGNFS_BTX_OP_WRITE \<Longrightarrow> server_recv e m d = server_call e Devd_write_block (submit_desc stack op bnr pg a) d"
proof -
  have m: "msg_of m = msg_of (submit_desc stack op bnr pg a)" "addr m = addr (submit_desc stack op bnr pg a)"
    using assms by (simp_all add: submit_desc_def msg_of_def)
  show "server_recv e m d = server_call e Devd_get_block (submit_desc stack op bnr pg a) d" if "op = NGNFS_BTX_OP_GET_READ"
    using devd_get_msg [OF m(2,1)] msg_of_eq(1) [OF m(1)] that by (simp add: server_recv_calls submit_desc_def)
  show "server_recv e m d = server_call e Devd_write_block (submit_desc stack op bnr pg a) d" if "op = NGNFS_BTX_OP_WRITE"
    using devd_write_msg [OF m(2,1)] msg_of_eq(1) [OF m(1)] that by (simp add: server_recv_calls submit_desc_def)
qed

lemma server_reads:
  assumes "quiet (devd_cache d)" "map_of (ht (devd_cache d)) bnr = None"
    "nr_submitted (devd_cache d) + 1 < queue_depth (devd_cache d)" "addr m = a"
    "msg_of m = msg_of (submit_desc stack NGNFS_BTX_OP_GET_READ bnr pg a')"
  obtains b res d' page where "server_recv e m d = (0, Ret d')" "devd_sent d' = devd_sent d @ [res]" "addr res = a"
    "read_answer bnr 0 (Some page) res" "quiet (devd_cache d')" "block_idle (devd_cache d') bnr b"
proof -
  let ?c = "devd_cache d" let ?b = "next_block (devd_cache d)" let ?c1 = "read_done ?c bnr (sv_dev e bnr)"
  define c2 where "c2 = upd_block ?c1 ?b (\<lambda>bl. bl\<lparr>bl_refcount := 1\<rparr>)"
  have g: "read_get_block True (\<lambda>_. device_round (sv_dev e)) bnr NBF_READ ?c = Ret (Inr ?b, ?c1)"
    using get_on_device [OF assms(1,2)] by (simp add: read_get_block_def)
  have p: "ngnfs_block_put ?c1 ?b = Ret c2"
    using read_done_idle(5) [OF assms(1), of bnr] by (simp add: ngnfs_block_put_def put_block_def c2_def upd_block_def)
  obtain res where res: "devd_get True (\<lambda>_. device_round (sv_dev e)) 0 (sv_stack e) (submit_desc stack NGNFS_BTX_OP_GET_READ bnr pg a) d =
      (0, Ret (d\<lparr>devd_cache := c2, devd_sent := devd_sent d @ [res]\<rparr>))" "addr res = a"
    "read_answer bnr 0 (Some (ngnfs_block_buf ?c1 ?b)) res"
    using devd_get_answers [OF g p] .
  have "server_recv e m d = (0, Ret (d\<lparr>devd_cache := c2, devd_sent := devd_sent d @ [res]\<rparr>))"
    using res(1) server_recv_request(1) [OF assms(4,5)] by simp
  moreover have "quiet c2" "block_idle c2 bnr ?b"
    using read_done_idle(1,6) [OF assms(1), of bnr "sv_dev e bnr"] assms(3)
    by (simp_all add: c2_def quiet_def block_idle_def block_ready_def upd_block_def)
  ultimately show thesis
    using that [of "d\<lparr>devd_cache := c2, devd_sent := devd_sent d @ [res]\<rparr>" res _ ?b] res(2,3) by simp
qed

lemma get_new_idle:
  assumes "block_idle st bnr b" "quiet st"
  obtains g where "txn_get True env n st bnr (NBF_NEW OR NBF_WRITE) = Ret (Inr b, g, n)" "block_idle g bnr b" "quiet g"
proof -
  define g where "g = upd_block (get_block st b) b (\<lambda>bl. bl\<lparr>bl_page := \<lambda>i. if i < 4096 then 0 else bl_page bl i, BL_UPTODATE := True\<rparr>)"
  have l: "lookup_or_alloc_block True st bnr = Ret (Inr b, get_block st b)"
    using assms(1) by (simp add: block_idle_def block_ready_def lookup_or_alloc_block_def lookup_block_def)
  have nn: "(NBF_NEW OR NBF_WRITE) AND NBF_NEW \<noteq> 0" by simp
  have e: "BL_UPTODATE (blocks g b)" "\<not> BL_ERROR (blocks g b)"
    using assms(1) by (simp_all add: g_def block_idle_def block_ready_def upd_block_def get_block_def)
  have "ngnfs_block_get True st bnr (NBF_NEW OR NBF_WRITE) = Ret (Get_done (Inr b), g)"
    unfolding ngnfs_block_get_def using l nn not_bad_nbf_new e
    by (simp add: g_def [symmetric] block_get_finish_def del: NBF_NEW_def NBF_WRITE_def)
  then have "txn_get True env n st bnr (NBF_NEW OR NBF_WRITE) = Ret (Inr b, g, n)"
    by (simp only: txn_get_def bind_run.simps prod.case get_result.case)
  moreover have "block_idle g bnr b" "quiet g"
    using assms by (simp_all add: g_def block_idle_def block_ready_def quiet_def upd_block_def get_block_def)
  ultimately show thesis by (rule that)
qed

lemma server_writes:
  assumes "quiet (devd_cache d)" "block_idle (devd_cache d) bnr b" "addr m = a"
    "msg_of m = msg_of (submit_desc stack NGNFS_BTX_OP_WRITE bnr pg a')"
  obtains res d' where "server_recv e m d = (0, Ret d')" "devd_sent d' = devd_sent d @ [res]" "addr res = a"
    "write_answer bnr 0 res" "block_idle (devd_cache d') bnr b"
    "bytes (ngnfs_block_buf (devd_cache d') b) 0 NGNFS_BLOCK_SIZE = bytes pg 0 NGNFS_BLOCK_SIZE"
proof -
  obtain g where g: "txn_get True (\<lambda>_. device_round (sv_dev e)) 0 (devd_cache d) bnr (NBF_NEW OR NBF_WRITE) = Ret (Inr b, g, 0)"
    "block_idle g bnr b" "quiet g" using get_new_idle [OF assms(2,1)] .
  have g': "bl_set (blocks g b) = None" "\<not> dirty_throttled g" using g(2,3) by (simp_all add: block_idle_def quiet_def dirty_throttled_def)
  let ?page = "commit_write_block pg (ngnfs_block_buf g b)"
  obtain q where w: "txn_write_block True (sv_fuel e) (\<lambda>_. True) (Some (sv_junk e)) (\<lambda>_. device_round (sv_dev e)) bnr
      (NBF_NEW OR NBF_WRITE) (commit_write_block pg) (devd_cache d) = Ret (0, dirtied q g b ?page)"
    using txn_write_block_dirties [where ok = "\<lambda>_. True", OF g(1) g'] .
  let ?c2 = "(written g bnr b ?page)\<lparr>sync_waiters := 0\<rparr>"
  note y = sync_on_device [OF g(3,2), of "sv_dev e" q ?page] and i = written_idle [OF g(3,2), of ?page]
  obtain res where res: "devd_write True (sv_fuel e) (\<lambda>_. True) (Some (sv_junk e)) (\<lambda>_. device_round (sv_dev e))
      (device_round (sv_dev e)) 0 (sv_stack e) (submit_desc stack NGNFS_BTX_OP_WRITE bnr pg a) d =
      (0, Ret (d\<lparr>devd_cache := ?c2, devd_sent := devd_sent d @ [res]\<rparr>))" "addr res = a" "write_answer bnr 0 res"
    using devd_write_answers [OF w y] .
  have "server_recv e m d = (0, Ret (d\<lparr>devd_cache := ?c2, devd_sent := devd_sent d @ [res]\<rparr>))"
    using res(1) server_recv_request(2) [OF assms(3,4)] by simp
  then show thesis
    using that [of "d\<lparr>devd_cache := ?c2, devd_sent := devd_sent d @ [res]\<rparr>" res] res(2,3) i(1,2)
      bytes_commit_write_block [of pg] by simp
qed

lemma server_rereads:
  assumes "block_idle (devd_cache d) bnr b" "addr m = a"
    "msg_of m = msg_of (submit_desc stack NGNFS_BTX_OP_GET_READ bnr pg a')"
  obtains res where "server_recv e m d = (0, Ret (d\<lparr>devd_sent := devd_sent d @ [res]\<rparr>))" "addr res = a"
    "read_answer bnr 0 (Some (ngnfs_block_buf (devd_cache d) b)) res"
proof -
  have r: "block_ready (devd_cache d) bnr b" using assms(1) by (simp add: block_idle_def)
  obtain res where res: "devd_get True (\<lambda>_. device_round (sv_dev e)) 0 (sv_stack e) (submit_desc stack NGNFS_BTX_OP_GET_READ bnr pg a) d =
      (0, Ret (d\<lparr>devd_sent := devd_sent d @ [res]\<rparr>))" "addr res = a"
    "read_answer bnr 0 (Some (ngnfs_block_buf (devd_cache d) b)) res"
    using devd_get_runs [OF r] .
  have "server_recv e m d = (0, Ret (d\<lparr>devd_sent := devd_sent d @ [res]\<rparr>))"
    using res(1) server_recv_request(1) [OF assms(2,3)] by simp
  then show thesis using res(2,3) by (rule that)
qed

subsection \<open>Clients\<close>

text \<open>A client: the addresses of the servers, its own address, its connections and its stack.\<close>

record client =
  cl_manifest :: manifest_info
  cl_addr :: sockaddr_in
  cl_wire :: "sockaddr_in \<Rightarrow> msg_desc \<Rightarrow> msg_desc"
  cl_stack :: mem

type_synonym servers = "sockaddr_in \<Rightarrow> devd"

primrec client_call :: "recv_fn \<Rightarrow> msg_desc \<Rightarrow> block_info \<Rightarrow> (int \<times> block_info) run" where
  "client_call Get_block_result m c = ngnfs_btr_msg_get_block_result m c"
| "client_call Write_block_result m c = ngnfs_btr_msg_write_block_result m c"
| "client_call Devd_get_block m c = Ret (- EINVAL, c)"
| "client_call Devd_write_block m c = Ret (- EINVAL, c)"

definition client_msgs :: "unit msg_info" where
  "client_msgs = snd (ngnfs_btr_msg_setup (new_msg_info ()))"

definition client_recv :: "msg_desc \<Rightarrow> block_info \<Rightarrow> int \<times> block_info run" where
  "client_recv m c = ngnfs_msg_recv (\<lambda>f m. in_run (client_call f m) 0) client_msgs m (Ret c)"

text \<open>The answers of the server at \<open>a\<close>; a handler that fails ends the connection.\<close>

primrec deliver :: "client \<Rightarrow> sockaddr_in \<Rightarrow> msg_desc list \<Rightarrow> block_info \<Rightarrow> block_info run" where
  "deliver cl a [] c = Ret c"
| "deliver cl a (m # ms) c =
     (let (ret, c) = client_recv (cl_wire cl a m) c in if ret < 0 then Spin else bind_run c (deliver cl a ms))"

text \<open>The requests that were submitted: each one goes to the server of its block, which handles it and
  answers.\<close>

primrec serve :: "client \<Rightarrow> server_env \<Rightarrow> (btx_op \<times> u64 \<times> mem) list \<Rightarrow> servers \<Rightarrow> block_info \<Rightarrow> (block_info \<times> servers) run" where
  "serve cl e [] S c = Ret (c, S)"
| "serve cl e (r # rs) S c =
     (let (op, bnr, page) = r
      in bind_run (ngnfs_btr_msg_submit_block (\<lambda>m sent. (0, Some m)) (cl_manifest cl) (cl_stack cl) op bnr page None) (\<lambda>(ret, sent).
           case sent of None \<Rightarrow> Spin
           | Some m \<Rightarrow>
               (let (ret, d) = server_recv e (cl_wire cl (cl_addr cl) m) ((S (addr m))\<lparr>devd_sent := []\<rparr>)
                in if ret < 0 then Spin
                   else bind_run d (\<lambda>d.
                        bind_run (deliver cl (addr m) (filter (\<lambda>res. addr res = cl_addr cl) (devd_sent d)) c)
                          (serve cl e rs (S(addr m := d)))))))"

text \<open>What happens while a client waits: its works run and its requests are served.\<close>

definition remote_round :: "client \<Rightarrow> server_env \<Rightarrow> servers \<Rightarrow> block_info \<Rightarrow> (block_info \<times> servers) run" where
  "remote_round cl e S c =
     bind_run (run_works c) (\<lambda>c'. serve cl e (drop (length (in_transport c)) (in_transport c')) S c')"

lemma client_recv_calls:
  "mtype m = NGNFS_MSG_GET_BLOCK_RESULT \<Longrightarrow> client_recv m c = in_run (client_call Get_block_result m) 0 (Ret c)"
  "mtype m = NGNFS_MSG_WRITE_BLOCK_RESULT \<Longrightarrow> client_recv m c = in_run (client_call Write_block_result m) 0 (Ret c)"
  by (simp_all add: client_recv_def client_msgs_def ngnfs_btr_msg_setup_def ngnfs_msg_register_recv_def new_msg_info_def
      ngnfs_msg_recv_def word_le_nat_alt)

lemma submit_desc_ok: "desc_ok (submit_desc stack op bnr pg a)"
  by (simp add: desc_ok_def submit_desc_def)

context message_wire
begin

lemma deliver_read:
  assumes "cl_wire cl = wire" "read_answer bnr 0 (Some page) res"
  obtains page' where "bytes page' 0 NGNFS_BLOCK_SIZE = bytes page 0 NGNFS_BLOCK_SIZE"
    "\<forall>c c'. ngnfs_block_end_io c bnr (Some page') 0 = Ret c' \<longrightarrow> deliver cl a [res] c = Ret c'"
proof -
  obtain page' where p: "read_answer bnr 0 (Some page') (wire a res)" "bytes page' 0 NGNFS_BLOCK_SIZE = bytes page 0 NGNFS_BLOCK_SIZE"
    using wire_read_answer [OF assms(2)] .
  have "mtype (wire a res) = NGNFS_MSG_GET_BLOCK_RESULT" using p(1) by (simp only: read_answer_def)
  then show thesis using that [OF p(2)] read_answer_ends [OF p(1)] assms(1) by (simp add: client_recv_calls in_run_def)
qed

lemma deliver_write:
  assumes "cl_wire cl = wire" "write_answer bnr 0 res" "ngnfs_block_end_io c bnr None 0 = Ret c'"
  shows "deliver cl a [res] c = Ret c'"
proof -
  note w = wire_write_answer [OF assms(2), of a]
  have "mtype (wire a res) = NGNFS_MSG_WRITE_BLOCK_RESULT" using w by (simp only: write_answer_def)
  then show ?thesis using write_answer_ends [OF w] assms(1,3) by (simp add: client_recv_calls in_run_def)
qed

lemma remote_get:
  assumes "quiet c" "map_of (ht c) bnr = None" "nbf = NBF_READ \<or> nbf = NBF_WRITE" "cl_wire cl = wire"
    "ngnfs_manifest_map_block (cl_manifest cl) bnr = Ret a"
    "server_recv e (wire (cl_addr cl) (submit_desc (cl_stack cl) NGNFS_BTX_OP_GET_READ bnr pg a)) ((S a)\<lparr>devd_sent := []\<rparr>) = (0, Ret d')"
    "devd_sent d' = [res]" "addr res = cl_addr cl" "read_answer bnr 0 (Some page) res"
  obtains c1 page' where "bytes page' 0 NGNFS_BLOCK_SIZE = bytes page 0 NGNFS_BLOCK_SIZE"
    "remote_round cl e S c1 = Ret (read_done c bnr page', S(a := d'))"
    "\<And>env. env 0 c1 = read_done c bnr page' \<Longrightarrow> txn_get True env 0 c bnr nbf = Ret (Inr (next_block c), read_done c bnr page', 1)"
proof -
  have nbf: "\<not> bad_nbf nbf" "nbf AND NBF_NEW = 0" using assms(3) not_bad_nbf by auto
  obtain c1 c2 pg' where g: "ngnfs_block_get True c bnr nbf = Ret (Get_wait (next_block c), c1)" "in_transport c1 = []"
    "run_works c1 = Ret c2" "in_transport c2 = [(NGNFS_BTX_OP_GET_READ, bnr, pg')]"
    "\<forall>page. ngnfs_block_end_io c2 bnr (Some page) 0 = Ret (read_done c bnr page)"
    using get_round [OF assms(1,2) nbf] .
  obtain page' where p: "bytes page' 0 NGNFS_BLOCK_SIZE = bytes page 0 NGNFS_BLOCK_SIZE"
    "\<forall>c c'. ngnfs_block_end_io c bnr (Some page') 0 = Ret c' \<longrightarrow> deliver cl a [res] c = Ret c'"
    using deliver_read [OF assms(4,9)] .
  have s: "submit_desc (cl_stack cl) NGNFS_BTX_OP_GET_READ bnr pg' a = submit_desc (cl_stack cl) NGNFS_BTX_OP_GET_READ bnr pg a"
    "addr (submit_desc (cl_stack cl) NGNFS_BTX_OP_GET_READ bnr pg a) = a"
    by (simp_all add: submit_desc_def)
  show thesis
  proof (rule that [OF p(1), of c1])
    show "remote_round cl e S c1 = Ret (read_done c bnr page', S(a := d'))"
      using g(2-5) p(2) assms(4-8) s by (simp add: remote_round_def ngnfs_btr_msg_submit_block_def del: deliver.simps)
    show "txn_get True env 0 c bnr nbf = Ret (Inr (next_block c), read_done c bnr page', 1)" if "env 0 c1 = read_done c bnr page'" for env
      using g(1) that read_done_idle [OF assms(1)] by (simp add: txn_get_def)
  qed
qed

lemma remote_sync:
  assumes "quiet g" "block_idle g bnr b" "cl_wire cl = wire" "ngnfs_manifest_map_block (cl_manifest cl) bnr = Ret a"
    "server_recv e (wire (cl_addr cl) (submit_desc (cl_stack cl) NGNFS_BTX_OP_WRITE bnr page a)) ((S a)\<lparr>devd_sent := []\<rparr>) = (0, Ret d')"
    "devd_sent d' = [res]" "addr res = cl_addr cl" "write_answer bnr 0 res"
  shows "remote_round cl e S (syncing g b page) = Ret (written g bnr b page, S(a := d'))"
    "sync_env (syncing g b page) = written g bnr b page \<Longrightarrow>
      block_sync_wait sync_env (dirtied q g b page) = Ret (0, (written g bnr b page)\<lparr>sync_waiters := 0\<rparr>)"
proof -
  note d = deliver_write [OF assms(3,8) end_io_writing(1) [OF assms(1,2)], of a page]
  have s: "addr (submit_desc (cl_stack cl) NGNFS_BTX_OP_WRITE bnr page a) = a" by (simp add: submit_desc_def)
  show "remote_round cl e S (syncing g b page) = Ret (written g bnr b page, S(a := d'))"
    using works_write [OF assms(1,2)] in_transport_write d assms(1,3-7) s
    by (simp add: remote_round_def ngnfs_btr_msg_submit_block_def del: deliver.simps)
  show "block_sync_wait sync_env (dirtied q g b page) = Ret (0, (written g bnr b page)\<lparr>sync_waiters := 0\<rparr>)"
    if "sync_env (syncing g b page) = written g bnr b page"
    using sync_dirtied [OF assms(1)] sync_written [OF assms(1)] that by (simp add: block_sync_wait_def)
qed

end

subsection \<open>The commands\<close>

text \<open>A cache that has not seen the block and takes two more requests.\<close>

definition block_unused :: "block_info \<Rightarrow> u64 \<Rightarrow> bool" where
  "block_unused c bnr \<longleftrightarrow> quiet c \<and> map_of (ht c) bnr = None \<and> nr_submitted c + 1 < queue_depth c"

definition root_page :: "u64 \<Rightarrow> mem \<Rightarrow> bool" where
  "root_page nsec page \<longleftrightarrow> wf_block page \<and> (\<exists>junk. block_map page =
     [[NGNFS_IBLOCK_KEY_INODE] \<mapsto> bytes (mkfs_inode junk NGNFS_ROOT_INO nsec) 0 sizeof_inode])"

lemma root_page_bytes:
  "root_page nsec p \<Longrightarrow> bytes q 0 NGNFS_BLOCK_SIZE = bytes p 0 NGNFS_BLOCK_SIZE \<Longrightarrow> root_page nsec q"
  using wf_block_page by (metis root_page_def)

lemma read_done_put:
  assumes "quiet c" "nr_submitted c + 1 < queue_depth c"
  shows "quiet (upd_block (read_done c bnr page) (next_block c) (\<lambda>bl. bl\<lparr>bl_refcount := bl_refcount bl - 1\<rparr>))"
    "block_idle (upd_block (read_done c bnr page) (next_block c) (\<lambda>bl. bl\<lparr>bl_refcount := bl_refcount bl - 1\<rparr>)) bnr (next_block c)"
  using read_done_idle(1,5,6) [OF assms(1), of bnr page] assms(2)
  by (simp_all add: quiet_def block_idle_def block_ready_def upd_block_def)

context message_wire
begin

lemma wire_request:
  "addr (wire a (submit_desc stack op bnr pg a')) = a"
  "msg_of (wire a (submit_desc stack op bnr pg a')) = msg_of (submit_desc stack op bnr pg a')"
  by (simp_all only: wire_addr [OF submit_desc_ok] wire_msg [OF submit_desc_ok])

lemma remote_mkfs:
  assumes cl: "cl_wire A = wire" "ngnfs_manifest_map_block (cl_manifest A) NGNFS_ROOT_INO = Ret a"
    and c: "block_unused c NGNFS_ROOT_INO" and d: "block_unused (devd_cache (S a)) NGNFS_ROOT_INO" and ok: "ok 0"
  obtains c1 c2 c3 c4 c5 d1 d2 b where
    "remote_round A e S c1 = Ret (c2, S(a := d1))" "remote_round A e (S(a := d1)) c3 = Ret (c4, S(a := d2))"
    "\<forall>env sync_env. env 0 c1 = c2 \<longrightarrow> sync_env c3 = c4 \<longrightarrow>
       cmd_mkfs sync_env (Some junk) True fuel ok (Some jk) env nsec c = Ret (Mkfs_done, c5)"
    "block_idle (devd_cache d2) NGNFS_ROOT_INO b" "root_page nsec (ngnfs_block_buf (devd_cache d2) b)"
proof -
  let ?bnr = NGNFS_ROOT_INO and ?s = "submit_desc (cl_stack A)" and ?b = "next_block c"
  note q = c [unfolded block_unused_def] and dq = d [unfolded block_unused_def]
  obtain b res d1 page where s1: "server_recv e (wire (cl_addr A) (?s NGNFS_BTX_OP_GET_READ ?bnr (\<lambda>_. 0) a)) ((S a)\<lparr>devd_sent := []\<rparr>) = (0, Ret d1)"
    "devd_sent d1 = [res]" "addr res = cl_addr A" "read_answer ?bnr 0 (Some page) res" "quiet (devd_cache d1)"
    "block_idle (devd_cache d1) ?bnr b"
    by (rule server_reads [where d = "(S a)\<lparr>devd_sent := []\<rparr>" and bnr = ?bnr and e = e, OF _ _ _ wire_request]) (use dq in auto)
  obtain c1 page' where g1: "remote_round A e S c1 = Ret (read_done c ?bnr page', S(a := d1))"
    "\<And>env. env 0 c1 = read_done c ?bnr page' \<Longrightarrow>
       txn_get True env 0 c ?bnr NBF_WRITE = Ret (Inr ?b, read_done c ?bnr page', 1)"
    by (rule remote_get [where c = c and bnr = ?bnr and nbf = NBF_WRITE and S = S, OF _ _ _ cl s1(1-4)]) (use q in auto)
  let ?g = "read_done c ?bnr page'"
  obtain bt where bt: "commit_mkfs (mkfs_inode junk ?bnr nsec) (ngnfs_block_buf ?g ?b) () = Ret (bt, ())" "wf_block bt"
      "block_map bt = [[NGNFS_IBLOCK_KEY_INODE] \<mapsto> bytes (mkfs_inode junk ?bnr nsec) 0 sizeof_inode]"
    using commit_mkfs_inserts .
  obtain res2 d2 where s2: "server_recv e (wire (cl_addr A) (?s NGNFS_BTX_OP_WRITE ?bnr bt a)) (((S(a := d1)) a)\<lparr>devd_sent := []\<rparr>) = (0, Ret d2)"
    "devd_sent d2 = [res2]" "addr res2 = cl_addr A" "write_answer ?bnr 0 res2" "block_idle (devd_cache d2) ?bnr b"
    "bytes (ngnfs_block_buf (devd_cache d2) b) 0 NGNFS_BLOCK_SIZE = bytes bt 0 NGNFS_BLOCK_SIZE"
    by (rule server_writes [where d = "((S(a := d1)) a)\<lparr>devd_sent := []\<rparr>" and bnr = ?bnr and e = e and b = b, OF _ _ wire_request])
      (use s1(5,6) in auto)
  note gp = read_done_put [of c ?bnr page'] and qc = conjunct1 [OF q] conjunct2 [OF conjunct2 [OF q]]
  let ?h = "upd_block ?g ?b (\<lambda>bl. bl\<lparr>bl_refcount := bl_refcount bl - 1\<rparr>)"
  note g2 = remote_sync [where S = "S(a := d1)", OF gp(1) [OF qc] gp(2) [OF qc] cl s2(1-4)]
  have g: "bl_set (blocks ?g ?b) = None" "\<not> dirty_throttled ?g" "1 < bl_refcount (blocks ?g ?b)"
    using read_done_idle(1,5,6) [of c ?bnr page'] q by (simp_all add: block_idle_def quiet_def dirty_throttled_def)
  show thesis
  proof (rule that [OF g1(1) g2(1) [unfolded fun_upd_upd] _ s2(5)])
    have "cmd_mkfs sync_env (Some junk) True fuel ok (Some jk) env nsec c = Ret (Mkfs_done, (written ?h ?bnr ?b bt)\<lparr>sync_waiters := 0\<rparr>)"
      if "env 0 c1 = ?g" "sync_env (syncing ?h ?b bt) = written ?h ?bnr ?b bt" for env sync_env
    proof -
      have "txn_get (ok 0) env 0 c ?bnr NBF_WRITE = Ret (Inr ?b, ?g, 1)" using g1(2) [where env = env, OF that(1)] ok by simp
      then obtain q where "cmd_mkfs sync_env (Some junk) True fuel ok (Some jk) env nsec c =
          bind_run (block_sync_wait sync_env (dirtied q (upd_block ?g ?b (\<lambda>bl. bl\<lparr>bl_refcount := bl_refcount bl - 1\<rparr>)) ?b bt))
            (\<lambda>(ret, st). Ret (if ret < 0 then Sync_error ret else Mkfs_done, st))"
        by (rule cmd_mkfs_syncs [where ok = ok, OF _ g(1,2) bt(1) g(3)]) blast
      then show ?thesis using g2(2) [where sync_env = sync_env, OF that(2)] by simp
    qed
    then show "\<forall>env sync_env. env 0 c1 = ?g \<longrightarrow> sync_env (syncing ?h ?b bt) = written ?h ?bnr ?b bt \<longrightarrow>
        cmd_mkfs sync_env (Some junk) True fuel ok (Some jk) env nsec c = Ret (Mkfs_done, (written ?h ?bnr ?b bt)\<lparr>sync_waiters := 0\<rparr>)" by blast
    show "root_page nsec (ngnfs_block_buf (devd_cache d2) b)"
      using root_page_bytes [OF _ s2(6)] bt(2,3) by (auto simp: root_page_def)
  qed
qed

lemma remote_stat:
  assumes cl: "cl_wire B = wire" "ngnfs_manifest_map_block (cl_manifest B) NGNFS_ROOT_INO = Ret a"
    and c: "block_unused c NGNFS_ROOT_INO" and ok: "ok 0"
    and d: "block_idle (devd_cache (S a)) NGNFS_ROOT_INO b" "root_page nsec (ngnfs_block_buf (devd_cache (S a)) b)"
  obtains c1 c2 c3 S' where "remote_round B e S c1 = Ret (c2, S')"
    "\<forall>env. env 0 c1 = c2 \<longrightarrow> cmd_stat True fuel ok km env c =
       Ret (Stat_print [1, 1, 1, 493, unat nsec, unat nsec, unat nsec, unat nsec], c3)"
proof -
  let ?bnr = NGNFS_ROOT_INO and ?b = "next_block c" and ?d = "(S a)\<lparr>devd_sent := []\<rparr>"
  note q = c [unfolded block_unused_def]
  obtain res where s: "server_recv e (wire (cl_addr B) (submit_desc (cl_stack B) NGNFS_BTX_OP_GET_READ ?bnr (\<lambda>_. 0) a)) ?d =
      (0, Ret (?d\<lparr>devd_sent := devd_sent ?d @ [res]\<rparr>))" "addr res = cl_addr B"
    "read_answer ?bnr 0 (Some (ngnfs_block_buf (devd_cache ?d) b)) res"
    by (rule server_rereads [where d = ?d and bnr = ?bnr and e = e and b = b, OF _ wire_request]) (use d in auto)
  obtain c1 page' where g: "bytes page' 0 NGNFS_BLOCK_SIZE = bytes (ngnfs_block_buf (devd_cache ?d) b) 0 NGNFS_BLOCK_SIZE"
    "remote_round B e S c1 = Ret (read_done c ?bnr page', S(a := ?d\<lparr>devd_sent := devd_sent ?d @ [res]\<rparr>))"
    "\<And>env. env 0 c1 = read_done c ?bnr page' \<Longrightarrow>
       txn_get True env 0 c ?bnr NBF_READ = Ret (Inr ?b, read_done c ?bnr page', 1)"
    by (rule remote_get [where c = c and bnr = ?bnr and nbf = NBF_READ and S = S, OF _ _ _ cl s(1) _ s(2,3)]) (use q in auto)
  let ?g = "read_done c ?bnr page'"
  have r: "ngnfs_block_buf ?g ?b = page'" "1 < bl_refcount (blocks ?g ?b)" using read_done_idle(2,5) [of c ?bnr page'] q by simp_all
  have "root_page nsec page'" using root_page_bytes [OF d(2)] g(1) by simp
  then obtain junk where p: "wf_block (ngnfs_block_buf ?g ?b)"
    "block_map (ngnfs_block_buf ?g ?b) = [[NGNFS_IBLOCK_KEY_INODE] \<mapsto> bytes (mkfs_inode junk ?bnr nsec) 0 sizeof_inode]"
    unfolding root_page_def r(1) by blast
  show thesis
    by (rule that [OF g(2)], intro allI impI, rule cmd_stat_prints [where ok = ok, OF _ r(2) p]) (use g(3) ok in simp)
qed

end

subsection \<open>The property\<close>

text \<open>C19: What one client makes another client sees.  Two clients that use the same server for the root
  inode's block, all three with caches that have not seen the block, run the debugfs commands mkfs and
  then stat.  While the first client waits for the block, its works submit the read, the request reaches
  the server over the socket, the server reads its device, whatever it holds, and answers, and the answer
  ends the read; while it waits for its sync, its works write the block back, the server commits and syncs
  it and answers.  Then mkfs returns without an error, and the stat of the other client, which waits once
  for the block and gets it from the server in the same way, prints the inode that mkfs made.  The
  commands do so in every environment in which this is what happens during these waits.\<close>

theorem remote_mkfs_stat:
  assumes "cl_wire A = socket_wire wA rA pA kA" "cl_wire B = socket_wire wB rB pB kB"
    and "ngnfs_manifest_map_block (cl_manifest A) NGNFS_ROOT_INO = Ret a" "ngnfs_manifest_map_block (cl_manifest B) NGNFS_ROOT_INO = Ret a"
    and "block_unused cA NGNFS_ROOT_INO" "block_unused cB NGNFS_ROOT_INO" "block_unused (devd_cache (S a)) NGNFS_ROOT_INO"
    and "ok 0" "ok' 0"
  shows "\<exists>a1 a2 a3 a4 a5 S1 S2 b1 b2 b3 S3.
    remote_round A e S a1 = Ret (a2, S1) \<and> remote_round A e S1 a3 = Ret (a4, S2) \<and>
    (\<forall>env sync_env. env 0 a1 = a2 \<longrightarrow> sync_env a3 = a4 \<longrightarrow>
       cmd_mkfs sync_env (Some junk) True fuel ok (Some jk) env nsec cA = Ret (Mkfs_done, a5)) \<and>
    remote_round B e' S2 b1 = Ret (b2, S3) \<and>
    (\<forall>env. env 0 b1 = b2 \<longrightarrow> cmd_stat True fuel' ok' km env cB =
       Ret (Stat_print [1, 1, 1, 493, unat nsec, unat nsec, unat nsec, unat nsec], b3))"
proof -
  obtain a1 a2 a3 a4 a5 d1 d2 b where m:
    "remote_round A e S a1 = Ret (a2, S(a := d1))" "remote_round A e (S(a := d1)) a3 = Ret (a4, S(a := d2))"
    "\<forall>env sync_env. env 0 a1 = a2 \<longrightarrow> sync_env a3 = a4 \<longrightarrow>
       cmd_mkfs sync_env (Some junk) True fuel ok (Some jk) env nsec cA = Ret (Mkfs_done, a5)"
    "block_idle (devd_cache d2) NGNFS_ROOT_INO b" "root_page nsec (ngnfs_block_buf (devd_cache d2) b)"
    using sw.remote_mkfs [where ok = ok and S = S, OF assms(1,3,5,7,8)] .
  obtain b1 b2 b3 S3 where s: "remote_round B e' (S(a := d2)) b1 = Ret (b2, S3)"
    "\<forall>env. env 0 b1 = b2 \<longrightarrow> cmd_stat True fuel' ok' km env cB =
       Ret (Stat_print [1, 1, 1, 493, unat nsec, unat nsec, unat nsec, unat nsec], b3)"
    by (rule sw.remote_stat [where ok = ok' and S = "S(a := d2)" and b = b and nsec = nsec, OF assms(2,4,6,9)]) (use m(4,5) in simp_all)
  show ?thesis using m(1-3) s by blast
qed

definition example_client :: "sockaddr_in \<Rightarrow> client" where
  "example_client a = \<lparr>cl_manifest = \<lparr>nr_addrs = 2, addrs = [(1, 1), (2, 2)]\<rparr>, cl_addr = a,
     cl_wire = socket_wire (\<lambda>i. i mod 3) (\<lambda>i. 99) (\<lambda>_. 5) 0, cl_stack = (\<lambda>_. 9)\<rparr>"

definition example_servers :: servers where
  "example_servers a = \<lparr>devd_cache = init_block_info 63, devd_sent = []\<rparr>"

definition example_server :: server_env where
  "example_server = \<lparr>sv_dev = (\<lambda>_ _. 7), sv_stack = (\<lambda>_. 3), sv_fuel = 0, sv_junk = 4\<rparr>"

theorem remote_mkfs_stat_witness:
  "\<exists>a1 a2 S1 a3 a4 S2 b1 b2 S3 a5 b3.
     remote_round (example_client (9, 9)) example_server example_servers a1 = Ret (a2, S1) \<and>
     remote_round (example_client (9, 9)) example_server S1 a3 = Ret (a4, S2) \<and>
     cmd_mkfs (\<lambda>_. a4) (Some (\<lambda>_. 0)) True 0 (\<lambda>_. True) (Some 0) (\<lambda>_ _. a2) 77 (init_block_info 32) = Ret (Mkfs_done, a5) \<and>
     remote_round (example_client (8, 8)) example_server S2 b1 = Ret (b2, S3) \<and>
     cmd_stat True 0 (\<lambda>_. True) None (\<lambda>_ _. b2) (init_block_info 32) = Ret (Stat_print [1, 1, 1, 493, 77, 77, 77, 77], b3)"
proof -
  have m: "ngnfs_manifest_map_block (cl_manifest (example_client a)) NGNFS_ROOT_INO = Ret (2, 2)" for a
    using manifest_map_eq [of 2 "[(1, 1), (2, 2)]" NGNFS_ROOT_INO] by (simp add: example_client_def)
  have u: "block_unused (init_block_info 32) NGNFS_ROOT_INO" "block_unused (devd_cache (example_servers (2, 2))) NGNFS_ROOT_INO"
    by (simp_all add: block_unused_def example_servers_def init_quiet) (simp_all add: init_block_info_def)
  have w: "cl_wire (example_client a) = socket_wire (\<lambda>i. i mod 3) (\<lambda>i. 99) (\<lambda>_. 5) 0" for a by (simp add: example_client_def)
  show ?thesis
    using remote_mkfs_stat [where S = example_servers and ok = "\<lambda>_. True" and ok' = "\<lambda>_. True" and e = example_server and
        e' = example_server and junk = "\<lambda>_. 0" and fuel = 0 and jk = 0 and nsec = 77 and fuel' = 0 and km = None,
        OF w [of "(9, 9)"] w [of "(8, 8)"] m m u(1,1,2)]
    by fastforce
qed

end
