(* ===== verification/Lk_List.thy ===== *)
theory Lk_List
  imports Ngnfs_Prelude
begin

text \<open>
  The circular doubly linked lists of \<open>shared/lk/list.h\<close>.  A node is a number,
  the heap its \<open>next\<close> and \<open>prev\<close> pointers; every function is the sequence of
  pointer stores of its body, with the loads where the body has them.  The
  predicate \<open>dlist\<close> says that a head carries a list of nodes, and each function is
  related to an operation on that list, which is how the other components model
  their lists.
\<close>

type_synonym node = nat

record lheap =
  lnext :: "node \<Rightarrow> node"
  lprev :: "node \<Rightarrow> node"

definition set_next :: "node \<Rightarrow> node \<Rightarrow> lheap \<Rightarrow> lheap" where
  "set_next n v h = h\<lparr>lnext := (lnext h)(n := v)\<rparr>"

definition set_prev :: "node \<Rightarrow> node \<Rightarrow> lheap \<Rightarrow> lheap" where
  "set_prev n v h = h\<lparr>lprev := (lprev h)(n := v)\<rparr>"

text \<open>The poison values a deleted entry points at; no entry has these addresses.\<close>

definition LIST_POISON1 :: node where "LIST_POISON1 = 0x100"
definition LIST_POISON2 :: node where "LIST_POISON2 = 0x122"

subsection \<open>Adding and deleting\<close>

definition INIT_LIST_HEAD :: "node \<Rightarrow> lheap \<Rightarrow> lheap" where
  "INIT_LIST_HEAD l h = set_prev l l (set_next l l h)"

definition list_add_between :: "node \<Rightarrow> node \<Rightarrow> node \<Rightarrow> lheap \<Rightarrow> lheap" where
  "list_add_between new prev nxt h =
     (let h = set_prev nxt new h;
          h = set_next new nxt h;
          h = set_prev new prev h
      in set_next prev new h)"

definition list_add :: "node \<Rightarrow> node \<Rightarrow> lheap \<Rightarrow> lheap" where
  "list_add new head h = list_add_between new head (lnext h head) h"

definition list_add_tail :: "node \<Rightarrow> node \<Rightarrow> lheap \<Rightarrow> lheap" where
  "list_add_tail new head h = list_add_between new (lprev h head) head h"

definition list_del_between :: "node \<Rightarrow> node \<Rightarrow> lheap \<Rightarrow> lheap" where
  "list_del_between prev nxt h = set_next prev nxt (set_prev nxt prev h)"

definition list_del_clearprev :: "node \<Rightarrow> lheap \<Rightarrow> lheap" where
  "list_del_clearprev entry h = set_prev entry 0 (list_del_between (lprev h entry) (lnext h entry) h)"

definition list_del_entry :: "node \<Rightarrow> lheap \<Rightarrow> lheap" where
  "list_del_entry entry h = list_del_between (lprev h entry) (lnext h entry) h"

definition list_del :: "node \<Rightarrow> lheap \<Rightarrow> lheap" where
  "list_del entry h =
     (let h = list_del_entry entry h;
          h = set_next entry LIST_POISON1 h
      in set_prev entry LIST_POISON2 h)"

definition list_replace :: "node \<Rightarrow> node \<Rightarrow> lheap \<Rightarrow> lheap" where
  "list_replace old new h =
     (let h = set_next new (lnext h old) h;
          h = set_prev (lnext h new) new h;
          h = set_prev new (lprev h old) h
      in set_next (lprev h new) new h)"

definition list_replace_init :: "node \<Rightarrow> node \<Rightarrow> lheap \<Rightarrow> lheap" where
  "list_replace_init old new h = INIT_LIST_HEAD old (list_replace old new h)"

definition list_swap :: "node \<Rightarrow> node \<Rightarrow> lheap \<Rightarrow> lheap" where
  "list_swap entry1 entry2 h =
     (let pos = lprev h entry2;
          h = list_del entry2 h;
          h = list_replace entry1 entry2 h;
          pos = (if pos = entry1 then entry2 else pos)
      in list_add entry1 pos h)"

definition list_del_init :: "node \<Rightarrow> lheap \<Rightarrow> lheap" where
  "list_del_init entry h = INIT_LIST_HEAD entry (list_del_entry entry h)"

definition list_move :: "node \<Rightarrow> node \<Rightarrow> lheap \<Rightarrow> lheap" where
  "list_move l head h = list_add l head (list_del_entry l h)"

definition list_move_tail :: "node \<Rightarrow> node \<Rightarrow> lheap \<Rightarrow> lheap" where
  "list_move_tail l head h = list_add_tail l head (list_del_entry l h)"

definition list_bulk_move_tail :: "node \<Rightarrow> node \<Rightarrow> node \<Rightarrow> lheap \<Rightarrow> lheap" where
  "list_bulk_move_tail head first lst h =
     (let h = set_next (lprev h first) (lnext h lst) h;
          h = set_prev (lnext h lst) (lprev h first) h;
          h = set_next (lprev h head) first h;
          h = set_prev first (lprev h head) h;
          h = set_next lst head h
      in set_prev head lst h)"

subsection \<open>Tests\<close>

definition list_is_first :: "node \<Rightarrow> node \<Rightarrow> lheap \<Rightarrow> bool" where
  "list_is_first l head h \<longleftrightarrow> lprev h l = head"

definition list_is_last :: "node \<Rightarrow> node \<Rightarrow> lheap \<Rightarrow> bool" where
  "list_is_last l head h \<longleftrightarrow> lnext h l = head"

definition list_is_head :: "node \<Rightarrow> node \<Rightarrow> bool" where
  "list_is_head l head \<longleftrightarrow> l = head"

definition list_empty :: "node \<Rightarrow> lheap \<Rightarrow> bool" where
  "list_empty head h \<longleftrightarrow> lnext h head = head"

definition list_is_singular :: "node \<Rightarrow> lheap \<Rightarrow> bool" where
  "list_is_singular head h \<longleftrightarrow> \<not> list_empty head h \<and> lnext h head = lprev h head"

subsection \<open>Rotating, cutting and splicing\<close>

definition list_rotate_left :: "node \<Rightarrow> lheap \<Rightarrow> lheap" where
  "list_rotate_left head h =
     (if \<not> list_empty head h then list_move_tail (lnext h head) head h else h)"

definition list_rotate_to_front :: "node \<Rightarrow> node \<Rightarrow> lheap \<Rightarrow> lheap" where
  "list_rotate_to_front l head h = list_move_tail head l h"

definition list_cut_at :: "node \<Rightarrow> node \<Rightarrow> node \<Rightarrow> lheap \<Rightarrow> lheap" where
  "list_cut_at l head entry h =
     (let new_first = lnext h entry;
          h = set_next l (lnext h head) h;
          h = set_prev (lnext h l) l h;
          h = set_prev l entry h;
          h = set_next entry l h;
          h = set_next head new_first h
      in set_prev new_first head h)"

definition list_cut_position :: "node \<Rightarrow> node \<Rightarrow> node \<Rightarrow> lheap \<Rightarrow> lheap" where
  "list_cut_position l head entry h =
     (if list_empty head h then h
      else if list_is_singular head h \<and> \<not> list_is_head entry head \<and> entry \<noteq> lnext h head then h
      else if list_is_head entry head then INIT_LIST_HEAD l h
      else list_cut_at l head entry h)"

definition list_cut_before :: "node \<Rightarrow> node \<Rightarrow> node \<Rightarrow> lheap \<Rightarrow> lheap" where
  "list_cut_before l head entry h =
     (if lnext h head = entry then INIT_LIST_HEAD l h
      else
        (let h = set_next l (lnext h head) h;
             h = set_prev (lnext h l) l h;
             h = set_prev l (lprev h entry) h;
             h = set_next (lprev h l) l h;
             h = set_next head entry h
         in set_prev entry head h))"

definition list_splice_between :: "node \<Rightarrow> node \<Rightarrow> node \<Rightarrow> lheap \<Rightarrow> lheap" where
  "list_splice_between l prev nxt h =
     (let first = lnext h l;
          lst = lprev h l;
          h = set_prev first prev h;
          h = set_next prev first h;
          h = set_next lst nxt h
      in set_prev nxt lst h)"

definition list_splice :: "node \<Rightarrow> node \<Rightarrow> lheap \<Rightarrow> lheap" where
  "list_splice l head h =
     (if \<not> list_empty l h then list_splice_between l head (lnext h head) h else h)"

definition list_splice_tail :: "node \<Rightarrow> node \<Rightarrow> lheap \<Rightarrow> lheap" where
  "list_splice_tail l head h =
     (if \<not> list_empty l h then list_splice_between l (lprev h head) head h else h)"

definition list_splice_init :: "node \<Rightarrow> node \<Rightarrow> lheap \<Rightarrow> lheap" where
  "list_splice_init l head h =
     (if \<not> list_empty l h then INIT_LIST_HEAD l (list_splice_between l head (lnext h head) h) else h)"

definition list_splice_tail_init :: "node \<Rightarrow> node \<Rightarrow> lheap \<Rightarrow> lheap" where
  "list_splice_tail_init l head h =
     (if \<not> list_empty l h then INIT_LIST_HEAD l (list_splice_between l (lprev h head) head h) else h)"

subsection \<open>Iterating\<close>

text \<open>
  The iteration macros, as the positions their body runs with.  The entry
  variants go through \<open>container_of\<close>, which only shifts the pointer.  A loop
  ends when it reaches the head; \<open>fuel\<close> bounds its rounds.
\<close>

primrec list_walk :: "nat \<Rightarrow> (node \<Rightarrow> node) \<Rightarrow> node \<Rightarrow> node \<Rightarrow> node list run" where
  "list_walk 0 step head pos = (if list_is_head pos head then Ret [] else Spin)"
| "list_walk (Suc fuel) step head pos =
     (if list_is_head pos head then Ret []
      else bind_run (list_walk fuel step head (step pos)) (\<lambda>ps. Ret (pos # ps)))"

definition list_for_each :: "nat \<Rightarrow> node \<Rightarrow> lheap \<Rightarrow> node list run" where
  "list_for_each fuel head h = list_walk fuel (lnext h) head (lnext h head)"

definition list_for_each_prev :: "nat \<Rightarrow> node \<Rightarrow> lheap \<Rightarrow> node list run" where
  "list_for_each_prev fuel head h = list_walk fuel (lprev h) head (lprev h head)"

definition list_for_each_continue :: "nat \<Rightarrow> node \<Rightarrow> node \<Rightarrow> lheap \<Rightarrow> node list run" where
  "list_for_each_continue fuel head pos h = list_walk fuel (lnext h) head (lnext h pos)"

text \<open>\<open>list_for_each_safe\<close>: the next position is read before the body changes the heap.\<close>

primrec list_each_safe :: "nat \<Rightarrow> (node \<Rightarrow> lheap \<Rightarrow> lheap) \<Rightarrow> node \<Rightarrow> node \<Rightarrow> node \<Rightarrow> lheap \<Rightarrow> lheap run" where
  "list_each_safe 0 body head pos n h = (if list_is_head pos head then Ret h else Spin)"
| "list_each_safe (Suc fuel) body head pos n h =
     (if list_is_head pos head then Ret h
      else (let h = body pos h in list_each_safe fuel body head n (lnext h n) h))"

definition list_for_each_safe :: "nat \<Rightarrow> (node \<Rightarrow> lheap \<Rightarrow> lheap) \<Rightarrow> node \<Rightarrow> lheap \<Rightarrow> lheap run" where
  "list_for_each_safe fuel body head h =
     list_each_safe fuel body head (lnext h head) (lnext h (lnext h head)) h"

definition list_count_nodes :: "nat \<Rightarrow> node \<Rightarrow> lheap \<Rightarrow> nat run" where
  "list_count_nodes fuel head h = bind_run (list_for_each fuel head h) (\<lambda>ps. Ret (length ps))"

definition list_first_entry_or_null :: "node \<Rightarrow> lheap \<Rightarrow> node option" where
  "list_first_entry_or_null head h = (if lnext h head \<noteq> head then Some (lnext h head) else None)"

definition list_next_entry_circular :: "node \<Rightarrow> node \<Rightarrow> lheap \<Rightarrow> node" where
  "list_next_entry_circular pos head h = (if list_is_last pos head h then lnext h head else lnext h pos)"

definition list_prev_entry_circular :: "node \<Rightarrow> node \<Rightarrow> lheap \<Rightarrow> node" where
  "list_prev_entry_circular pos head h = (if list_is_first pos head h then lprev h head else lprev h pos)"

subsection \<open>Lists in the heap\<close>

text \<open>
  \<open>chain h xs\<close>: consecutive nodes of \<open>xs\<close> point at each other.  Every function
  above is a sequence of joins of two nodes, so the lemmas on \<open>join\<close> carry all of
  them.
\<close>

fun chain :: "lheap \<Rightarrow> node list \<Rightarrow> bool" where
  "chain h (a # b # xs) \<longleftrightarrow> lnext h a = b \<and> lprev h b = a \<and> chain h (b # xs)"
| "chain h xs \<longleftrightarrow> True"

definition dlist :: "lheap \<Rightarrow> node \<Rightarrow> node list \<Rightarrow> bool" where
  "dlist h head xs \<longleftrightarrow> chain h (head # xs @ [head]) \<and> distinct (head # xs)"

definition join :: "node \<Rightarrow> node \<Rightarrow> lheap \<Rightarrow> lheap" where
  "join p q h = set_next p q (set_prev q p h)"

lemma heap_simps [simp]:
  "lnext (set_next n v h) = (lnext h)(n := v)" "lprev (set_next n v h) = lprev h"
  "lprev (set_prev n v h) = (lprev h)(n := v)" "lnext (set_prev n v h) = lnext h"
  by (simp_all add: set_next_def set_prev_def)

lemma set_next_prev_commute: "set_next a b (set_prev c d h) = set_prev c d (set_next a b h)"
  by (simp add: set_next_def set_prev_def)

lemma join_heap [simp]:
  "lnext (join p q h) = (lnext h)(p := q)" "lprev (join p q h) = (lprev h)(q := p)"
  by (simp_all add: join_def)

lemma chain_Cons: "ys \<noteq> [] \<Longrightarrow>
    chain h (a # ys) \<longleftrightarrow> lnext h a = hd ys \<and> lprev h (hd ys) = a \<and> chain h ys"
  by (cases ys) simp_all

lemma chain_append: "xs \<noteq> [] \<Longrightarrow> ys \<noteq> [] \<Longrightarrow>
    chain h (xs @ ys) \<longleftrightarrow>
      chain h xs \<and> lnext h (last xs) = hd ys \<and> lprev h (hd ys) = last xs \<and> chain h ys"
  by (induction xs rule: chain.induct [of _ h]) (auto simp: chain_Cons)

lemma chain_cong:
  assumes "\<forall>n \<in> set (butlast xs). lnext h' n = lnext h n" "\<forall>n \<in> set (tl xs). lprev h' n = lprev h n"
  shows "chain h' xs = chain h xs"
  using assms by (induction h xs rule: chain.induct) auto

lemma chain_join_frame:
  "p \<notin> set (butlast zs) \<Longrightarrow> q \<notin> set (tl zs) \<Longrightarrow> chain (join p q h) zs = chain h zs"
  by (rule chain_cong) auto

lemma chain_set_next_frame: "p \<notin> set (butlast zs) \<Longrightarrow> chain (set_next p v h) zs = chain h zs"
  by (rule chain_cong) auto

lemma chain_set_prev_frame: "q \<notin> set (tl zs) \<Longrightarrow> chain (set_prev q v h) zs = chain h zs"
  by (rule chain_cong) auto

lemma chain_singleton: "chain h [a]" by simp

lemma not_in_butlast_last: "distinct xs \<Longrightarrow> xs \<noteq> [] \<Longrightarrow> last xs \<notin> set (butlast xs)"
  by (metis append_butlast_last_id distinct_append disjoint_iff list.set_intros(1))

lemma not_in_tl_hd: "distinct xs \<Longrightarrow> xs \<noteq> [] \<Longrightarrow> hd xs \<notin> set (tl xs)"
  by (cases xs) simp_all

text \<open>Joining the end of one chain to the start of another one concatenates them.\<close>

lemma chain_join_append:
  assumes "chain h xs" "chain h ys" "xs \<noteq> []" "ys \<noteq> []" "distinct xs" "distinct ys"
    and "last xs \<notin> set (butlast ys)" "hd ys \<notin> set (tl xs)"
  shows "chain (join (last xs) (hd ys) h) (xs @ ys)"
  using assms by (simp add: chain_append chain_join_frame not_in_butlast_last not_in_tl_hd)

text \<open>A list with its head splits at any point into a part that starts with the head and one that ends with it.\<close>

lemma dlist_split:
  "dlist h head (xs @ ys) \<longleftrightarrow>
     chain h (head # xs) \<and> lnext h (last (head # xs)) = hd (ys @ [head]) \<and>
     lprev h (hd (ys @ [head])) = last (head # xs) \<and> chain h (ys @ [head]) \<and>
     distinct (head # xs @ ys)"
  using chain_append [of "head # xs" "ys @ [head]" h] by (auto simp: dlist_def)

lemma dlist_joinI:
  assumes "chain h (head # xs)" "chain h (ys @ [head])" "distinct (head # xs @ ys)"
  shows "dlist (join (last (head # xs)) (hd (ys @ [head])) h) head (xs @ ys)"
proof -
  have "chain (join (last (head # xs)) (hd (ys @ [head])) h) ((head # xs) @ (ys @ [head]))"
  proof (rule chain_join_append)
    show "last (head # xs) \<notin> set (butlast (ys @ [head]))"
      using assms(3) by (auto split: if_splits dest!: last_in_set)
    show "hd (ys @ [head]) \<notin> set (tl (head # xs))"
      using assms(3) by (cases ys) auto
    show "distinct (head # xs)" "distinct (ys @ [head])"
      using assms(3) by auto
  qed (use assms in simp_all)
  then show ?thesis using assms(3) by (simp add: dlist_def)
qed

lemma dlist_cong:
  assumes "\<forall>n \<in> set (head # xs). lnext h' n = lnext h n \<and> lprev h' n = lprev h n"
  shows "dlist h' head xs = dlist h head xs"
proof -
  have "butlast (head # xs @ [head]) = head # xs" "tl (head # xs @ [head]) = xs @ [head]"
    by (simp_all add: butlast_append)
  then show ?thesis
    using chain_cong [of "head # xs @ [head]" h' h] assms by (simp add: dlist_def)
qed

lemma dlist_frame:
  assumes "dlist h head xs" "p \<notin> set (head # xs)"
  shows dlist_join_frame: "q \<notin> set (head # xs) \<Longrightarrow> dlist (join p q h) head xs"
    and dlist_set_next_frame: "dlist (set_next p v h) head xs"
    and dlist_set_prev_frame: "dlist (set_prev p v h) head xs"
proof -
  show "dlist (join p q h) head xs" if "q \<notin> set (head # xs)"
    using that assms by (subst dlist_cong [where h = h]) auto
  show "dlist (set_next p v h) head xs"
    using assms by (subst dlist_cong [where h = h]) auto
  show "dlist (set_prev p v h) head xs"
    using assms by (subst dlist_cong [where h = h]) auto
qed

lemma list_add_between_join: "list_add_between new p q h = join p new (join new q h)"
  by (simp add: list_add_between_def join_def Let_def)

lemma list_del_between_join: "list_del_between p q h = join p q h"
  by (simp add: list_del_between_def join_def)

lemma list_splice_between_join:
  "list_splice_between l p q h = join (lprev h l) q (join p (lnext h l) h)"
  by (simp add: list_splice_between_def join_def Let_def set_next_prev_commute)

lemma list_replace_join: "lnext h old \<noteq> old \<Longrightarrow> lprev h old \<noteq> old \<Longrightarrow> new \<noteq> old \<Longrightarrow>
    list_replace old new h = join (lprev h old) new (join new (lnext h old) h)"
  by (simp add: list_replace_def join_def Let_def set_next_prev_commute fun_upd_apply)

text \<open>What the pointers of a list's members and of its head are.\<close>

lemma dlist_ptrs:
  assumes "dlist h head (xs @ n # ys)"
  shows "lprev h n = last (head # xs)" "lnext h n = hd (ys @ [head])"
    "lprev h (hd (ys @ [head])) = n" "lnext h (last (head # xs)) = n"
  using assms by (simp_all add: dlist_split chain_Cons)

lemma dlist_head_ptrs:
  assumes "dlist h head xs"
  shows "lnext h head = hd (xs @ [head])" "lprev h head = last (head # xs)"
  using assms dlist_split [of h head "[]" xs] dlist_split [of h head xs "[]"] by auto

text \<open>Adding between two neighbours and deleting a member.\<close>

lemma dlist_add_between:
  assumes "dlist h head (xs @ ys)" "new \<notin> set (head # xs @ ys)"
  shows "dlist (list_add_between new (last (head # xs)) (hd (ys @ [head])) h) head (xs @ new # ys)"
proof -
  let ?q = "hd (ys @ [head])" and ?h = "join new (hd (ys @ [head])) h"
  have c: "chain h (head # xs)" "chain h (ys @ [head])" and d: "distinct (head # xs @ ys)"
    using assms(1) by (simp_all add: dlist_split)
  have "?q \<notin> set xs" using d by (cases ys) auto
  moreover have "new \<notin> set (butlast (head # xs))" using assms(2) by (auto dest: in_set_butlastD split: if_splits)
  ultimately have "chain ?h (head # xs)" using c(1) by (simp add: chain_join_frame)
  moreover have "chain (join (last [new]) ?q h) ([new] @ (ys @ [head]))"
    using c d assms(2) by (intro chain_join_append) auto
  ultimately show ?thesis
    using dlist_joinI [of ?h head xs "new # ys"] d assms(2)
    by (simp add: list_add_between_join)
qed

lemma dlist_del_entry:
  assumes "dlist h head (xs @ n # ys)"
  shows "dlist (list_del_entry n h) head (xs @ ys)"
proof -
  have "chain h (head # xs)" "chain h (ys @ [head])" "distinct (head # xs @ ys)"
    using assms by (auto simp: dlist_split chain_Cons)
  from dlist_joinI [OF this] show ?thesis
    by (simp add: list_del_entry_def list_del_between_join dlist_ptrs [OF assms])
qed

lemma dlist_member_notin:
  assumes "dlist h head (xs @ n # ys)" shows "n \<notin> set (head # xs @ ys)"
  using assms by (auto simp: dlist_def)

lemma dlist_init: "dlist (INIT_LIST_HEAD l h) l []"
  by (simp add: INIT_LIST_HEAD_def dlist_def)

lemma dlist_init_frame:
  "dlist h head xs \<Longrightarrow> l \<notin> set (head # xs) \<Longrightarrow> dlist (INIT_LIST_HEAD l h) head xs"
  by (simp add: INIT_LIST_HEAD_def dlist_set_next_frame dlist_set_prev_frame)

lemma dlist_add: "dlist h head xs \<Longrightarrow> new \<notin> set (head # xs) \<Longrightarrow> dlist (list_add new head h) head (new # xs)"
  using dlist_add_between [of h head "[]" xs new] by (simp add: list_add_def dlist_head_ptrs)

lemma dlist_add_tail:
  "dlist h head xs \<Longrightarrow> new \<notin> set (head # xs) \<Longrightarrow> dlist (list_add_tail new head h) head (xs @ [new])"
  using dlist_add_between [of h head xs "[]" new] dlist_head_ptrs(2) [of h head xs]
  by (simp add: list_add_tail_def)

lemma dlist_del_init:
  assumes "dlist h head (xs @ n # ys)"
  shows "dlist (list_del_init n h) head (xs @ ys)" "dlist (list_del_init n h) n []"
  using dlist_init_frame [OF dlist_del_entry [OF assms] dlist_member_notin [OF assms]]
  by (simp_all add: list_del_init_def dlist_init)

lemma dlist_del:
  assumes "dlist h head (xs @ n # ys)"
  shows "dlist (list_del n h) head (xs @ ys)"
  using dlist_member_notin [OF assms] dlist_del_entry [OF assms]
  by (simp add: list_del_def Let_def dlist_set_next_frame dlist_set_prev_frame)

lemma dlist_move:
  assumes "dlist h head (xs @ n # ys)"
  shows "dlist (list_move n head h) head (n # xs @ ys)" "dlist (list_move_tail n head h) head (xs @ ys @ [n])"
  using dlist_add [OF dlist_del_entry [OF assms] dlist_member_notin [OF assms]]
    dlist_add_tail [OF dlist_del_entry [OF assms] dlist_member_notin [OF assms]]
  by (simp_all add: list_move_def list_move_tail_def)

lemma dlist_rotate_left: "dlist h head xs \<Longrightarrow> dlist (list_rotate_left head h) head (rotate1 xs)"
  using dlist_move(2) [of h head "[]"] by (cases xs)
    (auto simp: list_rotate_left_def list_empty_def dlist_head_ptrs dlist_def)

lemma dlist_replace:
  assumes "dlist h head (xs @ old # ys)" "new \<notin> set (head # xs @ old # ys)"
  shows "dlist (list_replace old new h) head (xs @ new # ys)"
proof -
  note p = dlist_ptrs [OF assms(1)]
  have c: "chain h (head # xs)" "chain h (ys @ [head])" and d: "distinct (head # xs @ old # ys)"
    using assms(1) by (auto simp: dlist_split chain_Cons)
  have q: "hd (ys @ [head]) \<notin> set xs" "hd (ys @ [head]) \<noteq> old" using d by (cases ys; auto)+
  have l: "last (head # xs) \<noteq> old" using d by auto
  have "new \<notin> set (butlast (head # xs))" using assms(2) by (auto dest: in_set_butlastD split: if_splits)
  then have "chain (join new (hd (ys @ [head])) h) (head # xs)" using c(1) q by (simp add: chain_join_frame)
  moreover have "chain (join (last [new]) (hd (ys @ [head])) h) ([new] @ (ys @ [head]))"
    using c d assms(2) by (intro chain_join_append) auto
  ultimately have "dlist (join (last (head # xs)) new (join new (hd (ys @ [head])) h)) head (xs @ new # ys)"
    using dlist_joinI [of "join new (hd (ys @ [head])) h" head xs "new # ys"] d assms(2) by simp
  then show ?thesis using q l assms(2) by (simp add: list_replace_join p)
qed

text \<open>Splicing, cutting, swapping and moving a part of a list.\<close>

lemma hd_notin_tl_part: "distinct (xs @ ys) \<Longrightarrow> xs \<noteq> [] \<Longrightarrow> last xs \<notin> set ys"
  by (auto dest: last_in_set)

lemma dlist_chain: "dlist h head xs \<Longrightarrow> chain h xs"
proof -
  assume "dlist h head xs"
  then have "chain h (xs @ [head])" using dlist_split [of h head "[]" xs] by simp
  then show "chain h xs" by (cases xs) (use chain_append [of xs "[head]" h] in auto)
qed

lemma dlist_splice_between:
  assumes "dlist h head (ys @ zs)" "dlist h l xs" "xs \<noteq> []" "set (l # xs) \<inter> set (head # ys @ zs) = {}"
  shows "dlist (list_splice_between l (last (head # ys)) (hd (zs @ [head])) h) head (ys @ xs @ zs)"
proof -
  let ?p = "last (head # ys)" and ?h = "join (last (head # ys)) (hd xs) h"
  have c: "chain h (head # ys)" "chain h (zs @ [head])" and d: "distinct (head # ys @ zs)"
    using assms(1) by (simp_all add: dlist_split)
  have dx: "distinct xs" "set xs \<inter> set (head # ys @ zs) = {}" and x: "hd xs \<in> set xs" "last xs \<in> set xs"
    using assms by (auto simp: dlist_def)
  have x': "hd xs \<notin> set (head # ys @ zs)" using dx(2) x(1) by blast
  have p: "?p \<in> set (head # ys)" by (rule last_in_set) simp
  have p': "?p \<notin> set xs" "?p \<notin> set zs" using p dx(2) d by auto
  have "chain ?h ((head # ys) @ xs)"
    by (rule chain_join_append)
      (use c d dx x' p' dlist_chain [OF assms(2)] assms(3) in \<open>auto dest: in_set_butlastD\<close>)
  moreover have "chain ?h (zs @ [head])"
    using c(2) p' x' by (subst chain_join_frame) (cases zs; auto)+
  moreover have "distinct (head # (ys @ xs) @ zs)" using d dx by auto
  ultimately have "dlist (join (last (head # ys @ xs)) (hd (zs @ [head])) ?h) head ((ys @ xs) @ zs)"
    using dlist_joinI [of ?h head "ys @ xs" zs] by simp
  moreover have "lprev h l = last xs" "lnext h l = hd xs"
    using dlist_head_ptrs [OF assms(2)] assms(3) by simp_all
  ultimately show ?thesis using assms(3) by (simp add: list_splice_between_join)
qed

lemma dlist_empty_iff: "dlist h head xs \<Longrightarrow> list_empty head h \<longleftrightarrow> xs = []"
  by (cases xs) (auto simp: list_empty_def dlist_head_ptrs dlist_def)

lemma dlist_splice:
  assumes "dlist h head ys" "dlist h l xs" "set (l # xs) \<inter> set (head # ys) = {}"
  shows "dlist (list_splice l head h) head (xs @ ys)"
    "dlist (list_splice_tail l head h) head (ys @ xs)"
  using dlist_splice_between [of h head "[]" ys l xs] dlist_splice_between [of h head ys "[]" l xs] assms
  by (auto simp: list_splice_def list_splice_tail_def dlist_empty_iff dlist_head_ptrs)

lemma dlist_splice_init:
  assumes "dlist h head ys" "dlist h l xs" "set (l # xs) \<inter> set (head # ys) = {}"
  shows "dlist (list_splice_init l head h) head (xs @ ys)" "dlist (list_splice_init l head h) l []"
    "dlist (list_splice_tail_init l head h) head (ys @ xs)" "dlist (list_splice_tail_init l head h) l []"
proof -
  have l: "l \<notin> set (head # xs @ ys)" "l \<notin> set (head # ys @ xs)" using assms by (auto simp: dlist_def)
  note s = dlist_splice [OF assms]
  have i: "xs = [] \<Longrightarrow> dlist h l []" using assms(2) by simp
  show "dlist (list_splice_init l head h) head (xs @ ys)" "dlist (list_splice_tail_init l head h) head (ys @ xs)"
    using dlist_init_frame [OF s(1) l(1)] dlist_init_frame [OF s(2) l(2)] assms(1) dlist_empty_iff [OF assms(2)]
    by (auto simp: list_splice_init_def list_splice_def list_splice_tail_init_def list_splice_tail_def)
  show "dlist (list_splice_init l head h) l []" "dlist (list_splice_tail_init l head h) l []"
    using i dlist_empty_iff [OF assms(2)] dlist_init by (auto simp: list_splice_init_def list_splice_tail_init_def)
qed

lemma chain_join_Cons: "chain h zs \<Longrightarrow> zs \<noteq> [] \<Longrightarrow> distinct (l # zs) \<Longrightarrow> chain (join l (hd zs) h) (l # zs)"
  using chain_join_append [of h "[l]" zs] by (auto dest: in_set_butlastD)

text \<open>Closing a chain into a list of a head of its own, leaving the rest to the old head.\<close>

lemma dlist_cut:
  assumes "dlist h head (zs @ ys)" "zs \<noteq> []" "l \<notin> set (head # zs @ ys)"
  defines "h' \<equiv> join head (hd (ys @ [head])) (join (last zs) l (join l (hd zs) h))"
  shows "dlist h' l zs" "dlist h' head ys"
proof -
  let ?h1 = "join l (hd zs) h" and ?h2 = "join (last zs) l (join l (hd zs) h)"
  have c: "chain h (head # zs)" "chain h (ys @ [head])" and d: "distinct (head # zs @ ys)"
    using assms(1) by (simp_all add: dlist_split)
  have z: "chain h zs" "hd zs \<in> set zs" "last zs \<in> set zs" using c(1) assms(2) by (simp_all add: chain_Cons)
  have q: "hd (ys @ [head]) \<notin> set (l # zs)" using d assms(3) by (cases ys) auto
  have "chain ?h1 (l # zs)" using chain_join_Cons z(1) assms(2,3) d by simp
  then have "dlist ?h2 l zs" using dlist_joinI [of ?h1 l zs "[]"] assms(2,3) d by simp
  from dlist_join_frame [OF this _ q] show "dlist h' l zs" unfolding h'_def using d assms(3) by auto
  have "chain ?h2 (ys @ [head])"
    using c(2) d z assms(3) by (simp add: chain_join_frame) (subst chain_join_frame; cases ys; auto)+
  then show "dlist h' head ys" unfolding h'_def using dlist_joinI [of ?h2 head "[]" ys] d by simp
qed

lemma list_cut_at_join: "l \<noteq> head \<Longrightarrow> list_cut_at l head entry h =
    join head (lnext h entry) (join entry l (join l (lnext h head) h))"
  by (simp add: list_cut_at_def join_def Let_def set_next_prev_commute)

lemma dlist_cut_position:
  assumes "dlist h head (xs @ entry # ys)" "l \<notin> set (head # xs @ entry # ys)"
  shows "dlist (list_cut_position l head entry h) l (xs @ [entry])"
    "dlist (list_cut_position l head entry h) head ys"
proof -
  have ne: "xs @ [entry] \<noteq> []" "entry \<noteq> head" using assms(1) by (auto simp: dlist_def)
  have f: "lnext h head = hd (xs @ [entry])" using dlist_head_ptrs(1) [OF assms(1)] by (cases xs) simp_all
  have sing: "\<not> (list_is_singular head h \<and> entry \<noteq> lnext h head)"
    using dlist_head_ptrs [OF assms(1)] dlist_ptrs [OF assms(1)] assms(1)
    by (cases xs; cases ys rule: rev_cases) (auto simp: list_is_singular_def dlist_def)
  then have "list_cut_position l head entry h = list_cut_at l head entry h"
    using assms(1) ne(2) dlist_empty_iff [OF assms(1)]
    by (auto simp add: list_cut_position_def list_is_head_def)
  then have "list_cut_position l head entry h =
      join head (hd (ys @ [head])) (join (last (xs @ [entry])) l (join l (hd (xs @ [entry])) h))"
    using assms(2) f dlist_ptrs(2) [OF assms(1)] by (auto simp: list_cut_at_join)
  moreover have "dlist h head ((xs @ [entry]) @ ys)" "l \<notin> set (head # (xs @ [entry]) @ ys)"
    using assms by simp_all
  ultimately show "dlist (list_cut_position l head entry h) l (xs @ [entry])"
    "dlist (list_cut_position l head entry h) head ys"
    using dlist_cut [of h head "xs @ [entry]" ys l] ne(1) by simp_all
qed

lemma list_cut_before_join:
  "lnext h head \<noteq> entry \<Longrightarrow> l \<noteq> head \<Longrightarrow> l \<noteq> entry \<Longrightarrow> lnext h (lprev h entry) = entry \<Longrightarrow>
   list_cut_before l head entry h = join head entry (join (lprev h entry) l (join l (lnext h head) h))"
  by (auto simp add: list_cut_before_def join_def Let_def set_next_prev_commute)

lemma dlist_cut_before:
  assumes "dlist h head (xs @ entry # ys)" "l \<notin> set (head # xs @ entry # ys)"
  shows "dlist (list_cut_before l head entry h) l xs"
    "dlist (list_cut_before l head entry h) head (entry # ys)"
proof -
  note p = dlist_ptrs [OF assms(1)] and hp = dlist_head_ptrs [OF assms(1)]
  have "dlist (list_cut_before l head entry h) l xs \<and>
      dlist (list_cut_before l head entry h) head (entry # ys)"
  proof (cases "xs = []")
    case True
    then show ?thesis using dlist_init [of l h] dlist_init_frame [OF assms] hp
      by (simp add: list_cut_before_def)
  next
    case False
    then have "hd xs \<noteq> entry" using assms(1) by (cases xs) (auto simp: dlist_def)
    then have "list_cut_before l head entry h = join head entry (join (last xs) l (join l (hd xs) h))"
      using False p hp assms(2) by (subst list_cut_before_join) auto
    then show ?thesis using dlist_cut [OF assms(1) False assms(2)] by simp
  qed
  then show "dlist (list_cut_before l head entry h) l xs"
    "dlist (list_cut_before l head entry h) head (entry # ys)" by simp_all
qed

lemma dlist_add_after:
  assumes "dlist h head (xs @ ys)" "new \<notin> set (head # xs @ ys)"
  shows "dlist (list_add new (last (head # xs)) h) head (xs @ new # ys)"
proof -
  have "lnext h (last (head # xs)) = hd (ys @ [head])" using assms(1) by (simp add: dlist_split)
  then show ?thesis using dlist_add_between [OF assms] by (simp add: list_add_def)
qed

lemma dlist_swap_forward:
  assumes "dlist h head (xs @ a # ys @ b # zs)"
  shows "dlist (list_swap a b h) head (xs @ b # ys @ a # zs)"
proof -
  have d: "distinct (head # xs @ a # ys @ b # zs)" using assms by (simp add: dlist_def)
  have r: "dlist h head ((xs @ a # ys) @ b # zs)" using assms by simp
  have "dlist (list_del b h) head (xs @ a # ys @ zs)" using dlist_del [OF r] by simp
  then have "dlist (list_replace a b (list_del b h)) head (xs @ b # ys @ zs)"
    using d by (intro dlist_replace) auto
  then have "dlist (list_add a (last (head # xs @ b # ys)) (list_replace a b (list_del b h))) head ((xs @ b # ys) @ a # zs)"
    using d by (intro dlist_add_after) auto
  moreover have "(if lprev h b = a then b else lprev h b) = last (head # xs @ b # ys)"
    using dlist_ptrs(1) [OF r] d by (cases ys rule: rev_cases) auto
  ultimately show ?thesis by (simp add: list_swap_def Let_def)
qed

lemma dlist_swap_backward:
  assumes "dlist h head (xs @ b # ys @ a # zs)"
  shows "dlist (list_swap a b h) head (xs @ a # ys @ b # zs)"
proof -
  have d: "distinct (head # xs @ b # ys @ a # zs)" using assms by (simp add: dlist_def)
  have "dlist (list_del b h) head ((xs @ ys) @ a # zs)" using dlist_del [OF assms] by simp
  then have "dlist (list_replace a b (list_del b h)) head ((xs @ ys) @ b # zs)"
    using d by (intro dlist_replace) auto
  then have "dlist (list_replace a b (list_del b h)) head (xs @ (ys @ b # zs))" by simp
  then have "dlist (list_add a (last (head # xs)) (list_replace a b (list_del b h))) head (xs @ a # ys @ b # zs)"
    using d by (intro dlist_add_after) auto
  moreover have "lprev h b = last (head # xs)" "last (head # xs) \<noteq> a"
    using dlist_ptrs(1) [OF assms] d by (auto dest!: last_in_set)
  ultimately show ?thesis by (simp add: list_swap_def Let_def)
qed

lemma dlist_bulk_move_tail:
  assumes "dlist h head (xs @ zs @ ys)" "zs \<noteq> []"
  shows "dlist (list_bulk_move_tail head (hd zs) (last zs) h) head (xs @ ys @ zs)"
proof -
  let ?p = "last (head # xs)" and ?q = "hd (ys @ [head])" and ?e = "last (head # xs @ ys)"
  have d: "distinct (head # xs @ zs @ ys)" using assms(1) by (simp add: dlist_def)
  have c: "chain h (head # xs)" "chain h (zs @ ys @ [head])" "lprev h (hd zs) = ?p"
    using assms by (simp_all add: dlist_split)
  have cz: "chain h zs" "chain h (ys @ [head])" "lnext h (last zs) = ?q"
    using chain_append [of zs "ys @ [head]" h] c(2) assms(2) by auto
  have z: "hd zs \<in> set zs" "last zs \<in> set zs" using assms(2) by simp_all
  have "?p \<in> set (head # xs)" "?e \<in> set (head # xs @ ys)" by (rule last_in_set; simp)+
  moreover have "?q \<in> set (ys @ [head])" by (rule hd_in_set) simp
  ultimately have pz: "?p \<notin> set zs" and qz: "?q \<notin> set zs" and ez: "?e \<notin> set zs"
    using d by auto
  let ?h1 = "join ?p ?q h"
  have d1: "dlist ?h1 head (xs @ ys)" by (rule dlist_joinI [OF c(1) cz(2)]) (use d in auto)
  have z1: "chain ?h1 zs"
    using cz(1) pz qz by (subst chain_join_frame) (cases zs; auto dest: in_set_butlastD)+
  have c1: "chain ?h1 (head # xs @ ys)" using d1 dlist_split [of ?h1 head "xs @ ys" "[]"] by simp
  have "hd zs \<notin> set (xs @ ys)" using z(1) d by auto
  then have "chain (join ?e (hd zs) ?h1) ((head # xs @ ys) @ zs)"
    by (intro chain_join_append c1 z1) (use d ez assms(2) in \<open>auto dest: in_set_butlastD\<close>)
  moreover have "distinct (head # (xs @ ys @ zs) @ [])" using d by auto
  ultimately have "dlist (join (last (head # xs @ ys @ zs)) head (join ?e (hd zs) ?h1)) head (xs @ ys @ zs)"
    using dlist_joinI [of "join ?e (hd zs) ?h1" head "xs @ ys @ zs" "[]"] by simp
  moreover have "list_bulk_move_tail head (hd zs) (last zs) h = join (last zs) head (join ?e (hd zs) ?h1)"
  proof -
    have "?p \<noteq> last zs" "?q \<noteq> hd zs" "lprev ?h1 head = ?e"
      using pz qz z dlist_head_ptrs(2) [OF d1] by auto
    then show ?thesis using c(3) cz(3)
      by (simp add: list_bulk_move_tail_def join_def Let_def set_next_prev_commute fun_upd_apply split: if_splits)
  qed
  ultimately show ?thesis using assms(2) by simp
qed

text \<open>The tests.\<close>

lemma dlist_singular_iff:
  assumes "dlist h head xs"
  shows "list_is_singular head h \<longleftrightarrow> length xs = 1"
proof -
  have "distinct (head # xs)" using assms by (simp add: dlist_def)
  then have "xs \<noteq> [] \<and> hd (xs @ [head]) = last (head # xs) \<longleftrightarrow> length xs = 1"
    by (cases xs) auto
  then show ?thesis
    by (simp add: list_is_singular_def dlist_empty_iff [OF assms] dlist_head_ptrs [OF assms])
qed

lemma dlist_first_last_iff:
  assumes "dlist h head (xs @ n # ys)"
  shows "list_is_first n head h \<longleftrightarrow> xs = []" "list_is_last n head h \<longleftrightarrow> ys = []"
  using assms dlist_ptrs [OF assms]
  by (cases xs rule: rev_cases; cases ys; auto simp: list_is_first_def list_is_last_def dlist_def)+

lemma dlist_first_entry_or_null:
  "dlist h head xs \<Longrightarrow> list_first_entry_or_null head h = (case xs of [] \<Rightarrow> None | x # _ \<Rightarrow> Some x)"
  by (cases xs) (auto simp: list_first_entry_or_null_def dlist_head_ptrs dlist_def)

lemma dlist_next_circular:
  assumes "dlist h head (xs @ n # ys)"
  shows "list_next_entry_circular n head h = hd (ys @ xs @ [n])"
    "list_prev_entry_circular n head h = last (n # ys @ xs)"
proof -
  show "list_next_entry_circular n head h = hd (ys @ xs @ [n])"
    using dlist_ptrs [OF assms] dlist_head_ptrs [OF assms] dlist_first_last_iff [OF assms]
    by (cases ys; cases xs) (simp_all add: list_next_entry_circular_def)
  show "list_prev_entry_circular n head h = last (n # ys @ xs)"
    using dlist_ptrs [OF assms] dlist_head_ptrs [OF assms] dlist_first_last_iff [OF assms]
    by (cases xs rule: rev_cases) (simp_all add: list_prev_entry_circular_def)
qed

text \<open>The loops visit the members in order and end.\<close>

lemma list_walk_next:
  "chain h (xs @ [head]) \<Longrightarrow> head \<notin> set xs \<Longrightarrow> length xs \<le> fuel \<Longrightarrow>
    list_walk fuel (lnext h) head (hd (xs @ [head])) = Ret xs"
proof (induction xs arbitrary: fuel)
  case Nil
  then show ?case by (cases fuel) (simp_all add: list_is_head_def)
next
  case (Cons x xs)
  then obtain f where "fuel = Suc f" by (cases fuel) auto
  with Cons show ?case by (simp add: list_is_head_def chain_Cons)
qed

lemma list_walk_prev:
  "chain h (head # xs) \<Longrightarrow> head \<notin> set xs \<Longrightarrow> length xs \<le> fuel \<Longrightarrow>
    list_walk fuel (lprev h) head (last (head # xs)) = Ret (rev xs)"
proof (induction xs arbitrary: fuel rule: rev_induct)
  case Nil
  then show ?case by (cases fuel) (simp_all add: list_is_head_def)
next
  case (snoc x xs)
  then obtain f where f: "fuel = Suc f" by (cases fuel) auto
  have "chain h (head # xs)" "lprev h x = last (head # xs)"
    using snoc.prems(1) chain_append [of "head # xs" "[x]" h] by auto
  with snoc f show ?case by (simp add: list_is_head_def)
qed

lemma list_for_each_members:
  assumes "dlist h head xs" "length xs \<le> fuel"
  shows "list_for_each fuel head h = Ret xs" "list_for_each_prev fuel head h = Ret (rev xs)"
    "list_count_nodes fuel head h = Ret (length xs)"
proof -
  have "chain h (xs @ [head])" "chain h (head # xs)" "head \<notin> set xs"
    using assms dlist_split [of h head "[]" xs] dlist_split [of h head xs "[]"] by auto
  then show "list_for_each fuel head h = Ret xs" "list_for_each_prev fuel head h = Ret (rev xs)"
    using list_walk_next [of h xs head fuel] list_walk_prev [of h head xs fuel] assms(2)
    by (simp_all add: list_for_each_def list_for_each_prev_def dlist_head_ptrs [OF assms(1)])
  then show "list_count_nodes fuel head h = Ret (length xs)" by (simp add: list_count_nodes_def)
qed

lemma list_for_each_continue_members:
  assumes "dlist h head (xs @ n # ys)" "length ys \<le> fuel"
  shows "list_for_each_continue fuel head n h = Ret ys"
proof -
  have "chain h (ys @ [head])" "head \<notin> set ys"
    using assms(1) by (auto simp: dlist_split chain_Cons)
  then show ?thesis using list_walk_next assms(2) by (simp add: list_for_each_continue_def dlist_ptrs [OF assms(1)])
qed

text \<open>
  A safe loop whose body takes the current member off its list, and keeps some
  other property of the heap indexed by the members that are left, runs for
  every member and leaves the list empty.
\<close>

lemma list_each_safe_drains:
  assumes body: "\<And>h n ys. dlist h head (n # ys) \<Longrightarrow> P (n # ys) h \<Longrightarrow> dlist (body n h) head ys \<and> P ys (body n h)"
  shows "dlist h head xs \<Longrightarrow> P xs h \<Longrightarrow> length xs \<le> fuel \<Longrightarrow>
    \<exists>h'. list_each_safe fuel body head (hd (xs @ [head])) (hd (tl xs @ [head])) h = Ret h' \<and> dlist h' head [] \<and> P [] h'"
proof (induction xs arbitrary: fuel h)
  case Nil
  then show ?case by (cases fuel) (simp_all add: list_is_head_def)
next
  case (Cons x xs)
  then obtain f where f: "fuel = Suc f" "length xs \<le> f" by (cases fuel) auto
  have b: "dlist (body x h) head xs" "P xs (body x h)" using body Cons.prems by blast+
  have "lnext (body x h) (hd (xs @ [head])) = hd (tl xs @ [head])" if "xs \<noteq> []"
    using b(1) that dlist_ptrs(2) [of "body x h" head "[]" "hd xs" "tl xs"] by (cases xs) simp_all
  moreover have "x \<noteq> head" using Cons.prems(1) by (auto simp: dlist_def)
  moreover have "list_each_safe f body head head k (body x h) = Ret (body x h)" for k
    by (cases f) (simp_all add: list_is_head_def)
  ultimately show ?case using Cons.IH [OF b f(2)] f(1) b
    by (cases "xs = []") (auto simp: list_is_head_def Let_def)
qed

lemma list_for_each_safe_drains:
  assumes body: "\<And>h n ys. dlist h head (n # ys) \<Longrightarrow> P (n # ys) h \<Longrightarrow> dlist (body n h) head ys \<and> P ys (body n h)"
    and "dlist h head xs" "P xs h" "length xs \<le> fuel"
  shows "\<exists>h'. list_for_each_safe fuel body head h = Ret h' \<and> dlist h' head [] \<and> P [] h'"
proof (cases xs)
  case Nil
  then show ?thesis using assms(2,3) dlist_head_ptrs [OF assms(2)]
    by (cases fuel) (simp_all add: list_for_each_safe_def list_is_head_def)
next
  case (Cons x ys)
  then have "lnext h head = hd (xs @ [head])" "lnext h (lnext h head) = hd (tl xs @ [head])"
    using dlist_head_ptrs [OF assms(2)] dlist_ptrs(2) [of h head "[]" x ys] assms(2) by simp_all
  then show ?thesis using list_each_safe_drains [of head P, OF body assms(2-4)]
    by (simp add: list_for_each_safe_def)
qed

subsection \<open>The contract clients rely on\<close>

text \<open>
  What the block cache, the transactions and the trace buffers use of the lists:
  a head carries a sequence, adding at either end extends it, deleting a member
  removes it, splicing a list with a head of its own at the tail concatenates.
\<close>

locale list_contract =
  fixes carries :: "'h \<Rightarrow> 'n \<Rightarrow> 'n list \<Rightarrow> bool"
    and init :: "'n \<Rightarrow> 'h \<Rightarrow> 'h"
    and add :: "'n \<Rightarrow> 'n \<Rightarrow> 'h \<Rightarrow> 'h"
    and add_tail :: "'n \<Rightarrow> 'n \<Rightarrow> 'h \<Rightarrow> 'h"
    and del :: "'n \<Rightarrow> 'h \<Rightarrow> 'h"
    and splice_tail :: "'n \<Rightarrow> 'n \<Rightarrow> 'h \<Rightarrow> 'h"
  assumes init_law: "carries (init l h) l []"
    and init_frame: "carries h head xs \<Longrightarrow> l \<notin> set (head # xs) \<Longrightarrow> carries (init l h) head xs"
    and add_law: "carries h head xs \<Longrightarrow> n \<notin> set (head # xs) \<Longrightarrow> carries (add n head h) head (n # xs)"
    and add_frame: "carries h head xs \<Longrightarrow> carries h l ys \<Longrightarrow>
      set (l # n # ys) \<inter> set (head # xs) = {} \<Longrightarrow> carries (add n l h) head xs"
    and add_tail_law: "carries h head xs \<Longrightarrow> n \<notin> set (head # xs) \<Longrightarrow> carries (add_tail n head h) head (xs @ [n])"
    and del_law: "carries h head (xs @ n # ys) \<Longrightarrow> carries (del n h) head (xs @ ys)"
    and splice_tail_law: "carries h head ys \<Longrightarrow> carries h l xs \<Longrightarrow>
      set (l # xs) \<inter> set (head # ys) = {} \<Longrightarrow> carries (splice_tail l head h) head (ys @ xs)"
begin

lemma fold_add:
  "carries h l ys \<Longrightarrow> distinct ns \<Longrightarrow> set ns \<inter> set (l # ys) = {} \<Longrightarrow>
    carries (fold (\<lambda>n. add n l) ns h) l (rev ns @ ys)"
proof (induction ns arbitrary: h ys)
  case (Cons n ns)
  then have "carries (add n l h) l (n # ys)" by (intro add_law) auto
  from Cons.IH [OF this] Cons.prems show ?case by auto
qed simp

lemma fold_add_frame:
  "carries h l ys \<Longrightarrow> carries h head xs \<Longrightarrow> distinct ns \<Longrightarrow> set ns \<inter> set (l # ys) = {} \<Longrightarrow>
    set (l # ns @ ys) \<inter> set (head # xs) = {} \<Longrightarrow> carries (fold (\<lambda>n. add n l) ns h) head xs"
proof (induction ns arbitrary: h ys)
  case (Cons n ns)
  then have "carries (add n l h) l (n # ys)" "carries (add n l h) head xs"
    by (auto intro!: add_law add_frame [of h head xs l ys n])
  from Cons.IH [OF this] Cons.prems show ?case by auto
qed simp

lemma fold_add_tail:
  "carries h head xs \<Longrightarrow> distinct ns \<Longrightarrow> set ns \<inter> set (head # xs) = {} \<Longrightarrow>
    carries (fold (\<lambda>n. add_tail n head) ns h) head (xs @ ns)"
proof (induction ns arbitrary: h xs)
  case (Cons n ns)
  then have "carries (add_tail n head h) head (xs @ [n])" by (intro add_tail_law) auto
  from Cons.IH [OF this] Cons.prems show ?case by auto
qed simp

text \<open>Nodes added at the front of a fresh list, which is then spliced at the tail of another.\<close>

lemma gather:
  assumes "carries h head xs" "distinct ns" "set (l # ns) \<inter> set (head # xs) = {}" "l \<notin> set ns"
  shows "carries (splice_tail l head (fold (\<lambda>n. add n l) ns (init l h))) head (xs @ rev ns)"
proof -
  have i: "carries (init l h) l []" "carries (init l h) head xs"
    using init_law init_frame [OF assms(1)] assms(3) by auto
  have "carries (fold (\<lambda>n. add n l) ns (init l h)) l (rev ns @ [])"
    by (rule fold_add [OF i(1)]) (use assms in auto)
  moreover have "carries (fold (\<lambda>n. add n l) ns (init l h)) head xs"
    by (rule fold_add_frame [OF i]) (use assms in auto)
  ultimately show ?thesis using assms by (intro splice_tail_law) auto
qed

end

lemma dlist_add_frame:
  assumes "dlist h head xs" "dlist h l ys" "set (l # n # ys) \<inter> set (head # xs) = {}"
  shows "dlist (list_add n l h) head xs"
proof -
  have "hd (ys @ [l]) \<in> set (l # ys)" by (cases ys) simp_all
  then have "hd (ys @ [l]) \<notin> set (head # xs)" "l \<notin> set (head # xs)" "n \<notin> set (head # xs)"
    using assms(3) by auto
  then show ?thesis using assms(1)
    by (simp add: list_add_def dlist_head_ptrs [OF assms(2)] list_add_between_join dlist_join_frame)
qed

interpretation dl: list_contract dlist INIT_LIST_HEAD list_add list_add_tail list_del_init list_splice_tail
  by unfold_locales
    (simp_all add: dlist_init dlist_init_frame dlist_add dlist_add_frame dlist_add_tail dlist_del_init
      dlist_splice(2))

end
