(* ===== verification/Lk_List_Props.thy ===== *)
theory Lk_List_Props
  imports Block_Cache Lk_List
begin

text \<open>
  The properties of the linked lists: what the pointer stores of
  \<open>shared/lk/list.h\<close> do to the sequence a head carries, that the loops end, and
  that the block cache's gathering of a lockless list into its submit and writeback
  lists does on pointers what its model does on sequences.
\<close>

text \<open>
  \<open>del_all_reverse_add_tail\<close> on the heap.  \<open>nodes\<close> are the nodes
  \<open>llist_del_all\<close> detached, newest first; \<open>reverse\<close> is the address of the
  local list head.
\<close>

definition heap_del_all_reverse_add_tail :: "node \<Rightarrow> node \<Rightarrow> node list \<Rightarrow> lheap \<Rightarrow> lheap" where
  "heap_del_all_reverse_add_tail reverse list nodes h =
     (let h = INIT_LIST_HEAD reverse h
      in if nodes \<noteq> []
         then (let h = fold (\<lambda>pos. list_add pos reverse) nodes h
               in list_splice_tail reverse list h)
         else h)"

text \<open>C30: In a heap where \<open>head\<close> carries the members \<open>xs @ n # ys\<close>, each
  editing function leaves \<open>head\<close> carrying the sequence its comment promises:
  \<open>list_add\<close> and \<open>list_add_tail\<close> put a node that is in no list at the front and at
  the end, \<open>list_del\<close> and \<open>list_del_init\<close> take \<open>n\<close> out (the latter leaves \<open>n\<close>
  an empty list), \<open>list_move\<close>, \<open>list_move_tail\<close> and \<open>list_rotate_left\<close> reorder,
  and \<open>list_replace\<close> puts the new node in \<open>n\<close>'s place.\<close>

theorem list_edits_refine:
  assumes "dlist h head (xs @ n # ys)" "new \<notin> set (head # xs @ n # ys)"
  shows "dlist (list_add new head h) head (new # xs @ n # ys) \<and>
    dlist (list_add_tail new head h) head (xs @ n # ys @ [new]) \<and>
    dlist (list_del n h) head (xs @ ys) \<and>
    dlist (list_del_init n h) head (xs @ ys) \<and> dlist (list_del_init n h) n [] \<and>
    dlist (list_move n head h) head (n # xs @ ys) \<and>
    dlist (list_move_tail n head h) head (xs @ ys @ [n]) \<and>
    dlist (list_rotate_left head h) head (rotate1 (xs @ n # ys)) \<and>
    dlist (list_replace n new h) head (xs @ new # ys)"
  using dl.add_law [OF assms] dl.add_tail_law [OF assms] dlist_del [OF assms(1)]
    dlist_del_init [OF assms(1)] dlist_move [OF assms(1)] dlist_rotate_left [OF assms(1)]
    dlist_replace [OF assms]
  by simp

theorem list_edits_refine_witness:
  "dlist (list_del_init 2 (list_add_tail 3 1 (list_add_tail 2 1 (INIT_LIST_HEAD 1 \<lparr>lnext = id, lprev = id\<rparr>)))) 1 [3]"
proof -
  define h where "h = list_add_tail 3 1 (list_add_tail 2 1 (INIT_LIST_HEAD 1 \<lparr>lnext = id, lprev = id\<rparr>))"
  have "dlist h 1 ([] @ 2 # [3])"
    by (simp add: h_def dlist_def INIT_LIST_HEAD_def list_add_tail_def list_add_between_def Let_def)
  from list_edits_refine [OF this, of 9] show ?thesis by (simp add: h_def)
qed

text \<open>Swapping two members exchanges their places whichever comes first, also when
  they are neighbours, and moving the part from \<open>hd zs\<close> to \<open>last zs\<close> to the tail keeps
  the order of that part and of the rest.\<close>

theorem list_swap_and_bulk_move:
  assumes "dlist h head (xs @ a # ys @ b # zs)"
  shows "dlist (list_swap a b h) head (xs @ b # ys @ a # zs) \<and>
    dlist (list_swap b a h) head (xs @ b # ys @ a # zs) \<and>
    dlist (list_bulk_move_tail head a b h) head (xs @ zs @ a # ys @ [b])"
  using dlist_swap_forward [OF assms] dlist_swap_backward [OF assms]
    dlist_bulk_move_tail [of h head xs "a # ys @ [b]" zs] assms by simp

theorem list_swap_and_bulk_move_witness:
  "dlist (list_swap 2 3 (list_add_tail 3 1 (list_add_tail 2 1 (INIT_LIST_HEAD 1 \<lparr>lnext = id, lprev = id\<rparr>)))) 1 [3, 2]"
proof -
  define h where "h = list_add_tail 3 1 (list_add_tail 2 1 (INIT_LIST_HEAD 1 \<lparr>lnext = id, lprev = id\<rparr>))"
  have "dlist h 1 ([] @ 2 # [] @ 3 # [])"
    by (simp add: h_def dlist_def INIT_LIST_HEAD_def list_add_tail_def list_add_between_def Let_def)
  from list_swap_and_bulk_move [OF this] show ?thesis by (simp add: h_def)
qed

text \<open>Splicing a list in front of another one and emptying its head, then cutting
  the result after the last spliced member, gives both lists back.\<close>

theorem list_splice_cut_roundtrip:
  assumes "dlist h head ys" "dlist h l (xs @ [n])" "set (l # xs @ [n]) \<inter> set (head # ys) = {}"
  shows "dlist (list_splice_init l head h) head (xs @ n # ys) \<and> dlist (list_splice_init l head h) l [] \<and>
    dlist (list_cut_position l head n (list_splice_init l head h)) l (xs @ [n]) \<and>
    dlist (list_cut_position l head n (list_splice_init l head h)) head ys"
proof -
  have s: "dlist (list_splice_init l head h) head (xs @ n # ys)" using dlist_splice_init(1) [OF assms] by simp
  have "l \<notin> set (head # xs @ n # ys)" using assms by (auto simp: dlist_def)
  from dlist_cut_position [OF s this] show ?thesis using s dlist_splice_init(2) [OF assms] by simp
qed

theorem list_splice_cut_roundtrip_witness:
  "dlist (list_splice_init 2 1 (list_add_tail 3 2 (INIT_LIST_HEAD 2 (INIT_LIST_HEAD 1 \<lparr>lnext = id, lprev = id\<rparr>)))) 1 [3]"
proof -
  define h where "h = list_add_tail 3 2 (INIT_LIST_HEAD 2 (INIT_LIST_HEAD 1 \<lparr>lnext = id, lprev = id\<rparr>))"
  have "dlist h 1 []" "dlist h 2 ([] @ [3])"
    by (simp_all add: h_def dlist_def INIT_LIST_HEAD_def list_add_tail_def list_add_between_def Let_def)
  from list_splice_cut_roundtrip [OF this] show ?thesis by (simp add: h_def)
qed

text \<open>The loops over a list end: with one round per member they visit the members
  in order, backwards in reverse order, and \<open>list_count_nodes\<close> counts them; the safe
  loop may take every member off the list it walks, as the code does when it destroys
  a structure, and leaves it empty.\<close>

theorem list_loops_visit_members:
  assumes "dlist h head xs" "length xs \<le> fuel"
  shows "list_for_each fuel head h = Ret xs \<and> list_for_each_prev fuel head h = Ret (rev xs) \<and>
    list_count_nodes fuel head h = Ret (length xs) \<and>
    (\<exists>h'. list_for_each_safe fuel list_del_init head h = Ret h' \<and> dlist h' head [])"
proof -
  have "\<exists>h'. list_for_each_safe fuel list_del_init head h = Ret h' \<and> dlist h' head [] \<and> True"
    by (rule list_for_each_safe_drains [where P = "\<lambda>_ _. True"])
      (use assms dl.del_law [of _ head "[]"] in auto)
  then show ?thesis using list_for_each_members [OF assms] by simp
qed

theorem list_loops_visit_members_witness:
  "list_for_each 2 1 (list_add_tail 3 1 (list_add_tail 2 1 (INIT_LIST_HEAD 1 \<lparr>lnext = id, lprev = id\<rparr>))) = Ret [2, 3]"
proof -
  define h where "h = list_add_tail 3 1 (list_add_tail 2 1 (INIT_LIST_HEAD 1 \<lparr>lnext = id, lprev = id\<rparr>))"
  have "dlist h 1 [2, 3]"
    by (simp add: h_def dlist_def INIT_LIST_HEAD_def list_add_tail_def list_add_between_def Let_def)
  from list_loops_visit_members [OF this, of 2] show ?thesis by (simp add: h_def)
qed

text \<open>Gathering a lockless list, whose nodes come newest first, into a list by the
  pointer operations of \<open>del_all_reverse_add_tail\<close> leaves the list carrying what the
  block cache's model of that function computes: the old members followed by the
  gathered ones in the order they were added.\<close>

lemma gather_refines:
  assumes "dlist h list xs" "distinct (reverse # nodes)" "set (reverse # nodes) \<inter> set (list # xs) = {}"
  shows "dlist (heap_del_all_reverse_add_tail reverse list nodes h) list
    (fst (del_all_reverse_add_tail xs nodes))"
proof -
  have r: "fold (\<lambda>x reverse. x # reverse) ns acc = rev ns @ acc" for ns acc :: "node list"
    by (induction ns arbitrary: acc) simp_all
  show ?thesis
    using dl.gather [OF assms(1), of nodes reverse] dl.init_frame [OF assms(1)] assms
    by (auto simp: heap_del_all_reverse_add_tail_def del_all_reverse_add_tail_def r Let_def)
qed

end
