(* ===== verification/Lk_Hlist.thy ===== *)
theory Lk_Hlist
  imports Lk_List
begin

text \<open>
  The single pointer head lists of \<open>shared/lk/list.h\<close>, which the hash table buckets
  use.  \<open>pprev\<close> holds the address
  of the pointer that points at the node: a head's \<open>first\<close> or another node's
  \<open>next\<close>.
\<close>

datatype pptr = Null_pp | First_of nat | Next_of node | Poison_pp

record hheap =
  hfirst :: "nat \<Rightarrow> node option"
  hnext :: "node \<Rightarrow> node option"
  pprev :: "node \<Rightarrow> pptr"

text \<open>\<open>*pp = v\<close>.  A store through \<open>NULL\<close> or the poison value is not reached from a listed node.\<close>

definition store_pp :: "pptr \<Rightarrow> node option \<Rightarrow> hheap \<Rightarrow> hheap run" where
  "store_pp pp v h =
     (case pp of
        First_of b \<Rightarrow> Ret (h\<lparr>hfirst := (hfirst h)(b := v)\<rparr>)
      | Next_of n \<Rightarrow> Ret (h\<lparr>hnext := (hnext h)(n := v)\<rparr>)
      | _ \<Rightarrow> Undef)"

definition set_hnext :: "node \<Rightarrow> node option \<Rightarrow> hheap \<Rightarrow> hheap" where
  "set_hnext n v h = h\<lparr>hnext := (hnext h)(n := v)\<rparr>"

definition set_pprev :: "node \<Rightarrow> pptr \<Rightarrow> hheap \<Rightarrow> hheap" where
  "set_pprev n v h = h\<lparr>pprev := (pprev h)(n := v)\<rparr>"

definition set_first :: "nat \<Rightarrow> node option \<Rightarrow> hheap \<Rightarrow> hheap" where
  "set_first b v h = h\<lparr>hfirst := (hfirst h)(b := v)\<rparr>"

definition INIT_HLIST_HEAD :: "nat \<Rightarrow> hheap \<Rightarrow> hheap" where
  "INIT_HLIST_HEAD b h = set_first b None h"

definition INIT_HLIST_NODE :: "node \<Rightarrow> hheap \<Rightarrow> hheap" where
  "INIT_HLIST_NODE n h = set_pprev n Null_pp (set_hnext n None h)"

definition hlist_unhashed :: "node \<Rightarrow> hheap \<Rightarrow> bool" where
  "hlist_unhashed n h \<longleftrightarrow> pprev h n = Null_pp"

definition hlist_empty :: "nat \<Rightarrow> hheap \<Rightarrow> bool" where
  "hlist_empty b h \<longleftrightarrow> hfirst h b = None"

definition hlist_del_ptrs :: "node \<Rightarrow> hheap \<Rightarrow> hheap run" where
  "hlist_del_ptrs n h =
     (let nxt = hnext h n; pp = pprev h n
      in bind_run (store_pp pp nxt h)
        (\<lambda>h. Ret (case nxt of Some m \<Rightarrow> set_pprev m pp h | None \<Rightarrow> h)))"

definition hlist_del :: "node \<Rightarrow> hheap \<Rightarrow> hheap run" where
  "hlist_del n h =
     bind_run (hlist_del_ptrs n h)
       (\<lambda>h. Ret (set_pprev n Poison_pp (set_hnext n (Some LIST_POISON1) h)))"

definition hlist_del_init :: "node \<Rightarrow> hheap \<Rightarrow> hheap run" where
  "hlist_del_init n h =
     (if \<not> hlist_unhashed n h then bind_run (hlist_del_ptrs n h) (\<lambda>h. Ret (INIT_HLIST_NODE n h))
      else Ret h)"

definition hlist_add_head :: "node \<Rightarrow> nat \<Rightarrow> hheap \<Rightarrow> hheap" where
  "hlist_add_head n b h =
     (let first = hfirst h b;
          h = set_hnext n first h;
          h = (case first of Some f \<Rightarrow> set_pprev f (Next_of n) h | None \<Rightarrow> h);
          h = set_first b (Some n) h
      in set_pprev n (First_of b) h)"

definition hlist_add_before :: "node \<Rightarrow> node \<Rightarrow> hheap \<Rightarrow> hheap run" where
  "hlist_add_before n nxt h =
     (let h = set_pprev n (pprev h nxt) h;
          h = set_hnext n (Some nxt) h;
          h = set_pprev nxt (Next_of n) h
      in store_pp (pprev h n) (Some n) h)"

definition hlist_add_behind :: "node \<Rightarrow> node \<Rightarrow> hheap \<Rightarrow> hheap" where
  "hlist_add_behind n prev h =
     (let h = set_hnext n (hnext h prev) h;
          h = set_hnext prev (Some n) h;
          h = set_pprev n (Next_of prev) h
      in case hnext h n of Some m \<Rightarrow> set_pprev m (Next_of n) h | None \<Rightarrow> h)"

definition hlist_add_fake :: "node \<Rightarrow> hheap \<Rightarrow> hheap" where
  "hlist_add_fake n h = set_pprev n (Next_of n) h"

definition hlist_fake :: "node \<Rightarrow> hheap \<Rightarrow> bool" where
  "hlist_fake n h \<longleftrightarrow> pprev h n = Next_of n"

definition hlist_is_singular_node :: "node \<Rightarrow> nat \<Rightarrow> hheap \<Rightarrow> bool" where
  "hlist_is_singular_node n b h \<longleftrightarrow> hnext h n = None \<and> pprev h n = First_of b"

definition hlist_move_list :: "nat \<Rightarrow> nat \<Rightarrow> hheap \<Rightarrow> hheap" where
  "hlist_move_list old new h =
     (let h = set_first new (hfirst h old) h;
          h = (case hfirst h new of Some f \<Rightarrow> set_pprev f (First_of new) h | None \<Rightarrow> h)
      in set_first old None h)"

text \<open>\<open>hlist_for_each\<close>: the positions of the loop, with \<open>fuel\<close> rounds.\<close>

primrec hlist_walk :: "nat \<Rightarrow> node option \<Rightarrow> hheap \<Rightarrow> node list run" where
  "hlist_walk 0 pos h = (case pos of None \<Rightarrow> Ret [] | Some _ \<Rightarrow> Spin)"
| "hlist_walk (Suc fuel) pos h =
     (case pos of
        None \<Rightarrow> Ret []
      | Some n \<Rightarrow> bind_run (hlist_walk fuel (hnext h n) h) (\<lambda>ps. Ret (n # ps)))"

definition hlist_for_each :: "nat \<Rightarrow> nat \<Rightarrow> hheap \<Rightarrow> node list run" where
  "hlist_for_each fuel b h = hlist_walk fuel (hfirst h b) h"

subsection \<open>Lists in the heap\<close>

text \<open>\<open>hseg h pp v xs\<close>: the pointer at address \<open>pp\<close> holds \<open>v\<close>, which starts the nodes \<open>xs\<close>.\<close>

fun hseg :: "hheap \<Rightarrow> pptr \<Rightarrow> node option \<Rightarrow> node list \<Rightarrow> bool" where
  "hseg h pp v [] \<longleftrightarrow> v = None"
| "hseg h pp v (x # xs) \<longleftrightarrow> v = Some x \<and> pprev h x = pp \<and> hseg h (Next_of x) (hnext h x) xs"

definition hlist :: "hheap \<Rightarrow> nat \<Rightarrow> node list \<Rightarrow> bool" where
  "hlist h b xs \<longleftrightarrow> hseg h (First_of b) (hfirst h b) xs \<and> distinct xs"

lemma hheap_simps [simp]:
  "hnext (set_hnext n v h) = (hnext h)(n := v)" "pprev (set_hnext n v h) = pprev h" "hfirst (set_hnext n v h) = hfirst h"
  "hnext (set_pprev n p h) = hnext h" "pprev (set_pprev n p h) = (pprev h)(n := p)" "hfirst (set_pprev n p h) = hfirst h"
  "hnext (set_first f v h) = hnext h" "pprev (set_first f v h) = pprev h" "hfirst (set_first f v h) = (hfirst h)(f := v)"
  by (simp_all add: set_hnext_def set_pprev_def set_first_def)

lemma hseg_cong:
  "(\<forall>n \<in> set xs. hnext h' n = hnext h n \<and> pprev h' n = pprev h n) \<Longrightarrow> hseg h' pp v xs = hseg h pp v xs"
  by (induction xs arbitrary: pp v) auto

lemma hseg_frame [simp]:
  "n \<notin> set xs \<Longrightarrow> hseg (set_hnext n w h) pp v xs = hseg h pp v xs"
  "n \<notin> set xs \<Longrightarrow> hseg (set_pprev n p h) pp v xs = hseg h pp v xs"
  "hseg (set_first f w h) pp v xs = hseg h pp v xs"
  by (rule hseg_cong; auto)+

text \<open>The pointer that ends the nodes \<open>xs\<close>: the address it has and what it holds.\<close>

fun end_pp :: "pptr \<Rightarrow> node list \<Rightarrow> pptr" where
  "end_pp pp [] = pp"
| "end_pp pp (x # xs) = end_pp (Next_of x) xs"

lemma end_pp_snoc [simp]: "end_pp pp (xs @ [x]) = Next_of x"
  by (induction xs arbitrary: pp) simp_all

text \<open>The nodes \<open>xs\<close> in front of a pointer that holds \<open>w\<close>.\<close>

fun hpre :: "hheap \<Rightarrow> pptr \<Rightarrow> node option \<Rightarrow> node list \<Rightarrow> node option \<Rightarrow> bool" where
  "hpre h pp v [] w \<longleftrightarrow> v = w"
| "hpre h pp v (x # xs) w \<longleftrightarrow> v = Some x \<and> pprev h x = pp \<and> hpre h (Next_of x) (hnext h x) xs w"

lemma hseg_append: "hseg h pp v (xs @ ys) \<longleftrightarrow> (\<exists>w. hpre h pp v xs w \<and> hseg h (end_pp pp xs) w ys)"
  by (induction xs arbitrary: pp v) auto

lemma hpre_cong:
  "(\<forall>n \<in> set xs. hnext h' n = hnext h n \<and> pprev h' n = pprev h n) \<Longrightarrow> hpre h' pp v xs w = hpre h pp v xs w"
  by (induction xs arbitrary: pp v) auto

lemma hpre_frame [simp]:
  "n \<notin> set xs \<Longrightarrow> hpre (set_hnext n u h) pp v xs w = hpre h pp v xs w"
  "n \<notin> set xs \<Longrightarrow> hpre (set_pprev n p h) pp v xs w = hpre h pp v xs w"
  "hpre (set_first f u h) pp v xs w = hpre h pp v xs w"
  by (rule hpre_cong; auto)+

lemma hpre_set_last:
  "hpre h pp v (xs @ [x]) w \<Longrightarrow> x \<notin> set xs \<Longrightarrow> hpre (set_hnext x u h) pp v (xs @ [x]) u"
  by (induction xs arbitrary: pp v) auto

lemma store_pp_simps [simp]:
  "store_pp (First_of f) v h = Ret (set_first f v h)" "store_pp (Next_of n) v h = Ret (set_hnext n v h)"
  by (simp_all add: store_pp_def set_first_def set_hnext_def)

text \<open>Storing through the pointer that ends \<open>xs\<close> redirects it and keeps the nodes in front.\<close>

lemma store_end_pp:
  assumes "hpre h (First_of b) (hfirst h b) xs w" "distinct xs"
  shows "\<exists>h'. store_pp (end_pp (First_of b) xs) u h = Ret h' \<and>
    hpre h' (First_of b) (hfirst h' b) xs u \<and> pprev h' = pprev h \<and>
    (\<forall>n. n \<notin> set xs \<longrightarrow> hnext h' n = hnext h n) \<and> (\<forall>f. f \<noteq> b \<longrightarrow> hfirst h' f = hfirst h f)"
proof (cases xs rule: rev_cases)
  case (snoc ys y)
  with assms hpre_set_last [of h "First_of b" "hfirst h b" ys y w u] show ?thesis by auto
qed simp

lemma hseg_first_pp:
  "hseg h pp v xs \<Longrightarrow> distinct xs \<Longrightarrow>
    hseg (case v of Some m \<Rightarrow> set_pprev m pp' h | None \<Rightarrow> h) pp' v xs"
  by (cases xs) auto

lemma hlist_del_ptrs_ok:
  assumes "hlist h b (xs @ n # ys)"
  shows "\<exists>h'. hlist_del_ptrs n h = Ret h' \<and> hlist h' b (xs @ ys) \<and> hnext h' n = hnext h n"
proof -
  let ?pp = "end_pp (First_of b) xs"
  from assms obtain w where w: "hpre h (First_of b) (hfirst h b) xs w" "hseg h ?pp w (n # ys)"
    and d: "distinct (xs @ n # ys)"
    by (auto simp: hlist_def hseg_append)
  obtain h1 where h1: "store_pp ?pp (hnext h n) h = Ret h1" "hpre h1 (First_of b) (hfirst h1 b) xs (hnext h n)"
    "pprev h1 = pprev h" "\<forall>m. m \<notin> set xs \<longrightarrow> hnext h1 m = hnext h m"
    using store_end_pp [OF w(1), of "hnext h n"] d by auto
  define h2 where "h2 = (case hnext h n of Some m \<Rightarrow> set_pprev m ?pp h1 | None \<Rightarrow> h1)"
  have y: "hseg h (Next_of n) (hnext h n) ys" "pprev h n = ?pp" using w(2) by simp_all
  have "hseg h1 (Next_of n) (hnext h n) ys"
    using y(1) h1(3,4) d by (subst hseg_cong [where h = h]) auto
  then have s: "hseg h2 ?pp (hnext h n) ys" using d hseg_first_pp unfolding h2_def by auto
  have m: "hnext h n = Some m \<Longrightarrow> m \<notin> set xs" for m using y(1) d by (cases ys) auto
  have "hpre h2 (First_of b) (hfirst h2 b) xs (hnext h n)"
    using h1(2) m by (auto simp: h2_def split: option.splits)
  with s have "hlist h2 b (xs @ ys)" using d by (auto simp: hlist_def hseg_append)
  moreover have "hnext h2 n = hnext h n" using h1(4) d by (auto simp: h2_def split: option.splits)
  moreover have "hlist_del_ptrs n h = Ret h2" using h1(1) y(2) by (simp add: hlist_del_ptrs_def Let_def h2_def)
  ultimately show ?thesis by blast
qed

lemma hlist_frame:
  "hlist h b xs \<Longrightarrow> n \<notin> set xs \<Longrightarrow> hlist (set_hnext n v h) b xs"
  "hlist h b xs \<Longrightarrow> n \<notin> set xs \<Longrightarrow> hlist (set_pprev n p h) b xs"
  by (simp_all add: hlist_def)

lemma hlist_del_ok:
  assumes "hlist h b (xs @ n # ys)"
  shows "\<exists>h'. hlist_del n h = Ret h' \<and> hlist h' b (xs @ ys) \<and> \<not> hlist_unhashed n h'"
    "\<exists>h'. hlist_del_init n h = Ret h' \<and> hlist h' b (xs @ ys) \<and> hlist_unhashed n h'"
proof -
  have n: "n \<notin> set (xs @ ys)" "pprev h n = end_pp (First_of b) xs" using assms by (auto simp: hlist_def hseg_append)
  obtain h' where h': "hlist_del_ptrs n h = Ret h'" "hlist h' b (xs @ ys)" using hlist_del_ptrs_ok [OF assms] by blast
  show "\<exists>h'. hlist_del n h = Ret h' \<and> hlist h' b (xs @ ys) \<and> \<not> hlist_unhashed n h'"
    using h' n(1) by (simp add: hlist_del_def hlist_frame hlist_unhashed_def)
  have "pprev h n \<noteq> Null_pp" using n(2) by (cases xs rule: rev_cases) auto
  then show "\<exists>h'. hlist_del_init n h = Ret h' \<and> hlist h' b (xs @ ys) \<and> hlist_unhashed n h'"
    using h' n(1) by (simp add: hlist_del_init_def hlist_unhashed_def INIT_HLIST_NODE_def hlist_frame)
qed

lemma hlist_add_head_ok: "hlist h b xs \<Longrightarrow> n \<notin> set xs \<Longrightarrow> hlist (hlist_add_head n b h) b (n # xs)"
  by (cases xs) (auto simp: hlist_def hlist_add_head_def Let_def)

lemma hlist_add_behind_ok:
  assumes "hlist h b (xs @ p # ys)" "n \<notin> set (xs @ p # ys)"
  shows "hlist (hlist_add_behind n p h) b (xs @ p # n # ys)"
proof -
  from assms obtain w where "hpre h (First_of b) (hfirst h b) xs w"
    "hseg h (end_pp (First_of b) xs) w (p # ys)" "distinct (xs @ p # ys)"
    by (auto simp: hlist_def hseg_append)
  then show ?thesis using assms(2)
    by (cases ys) (auto simp: hlist_def hseg_append hlist_add_behind_def Let_def)
qed

lemma hlist_add_before_ok:
  assumes "hlist h b (xs @ p # ys)" "n \<notin> set (xs @ p # ys)"
  shows "\<exists>h'. hlist_add_before n p h = Ret h' \<and> hlist h' b (xs @ n # p # ys)"
proof -
  let ?pp = "end_pp (First_of b) xs"
  from assms obtain w where w: "hpre h (First_of b) (hfirst h b) xs w"
    "hseg h ?pp w (p # ys)" and d: "distinct (xs @ p # ys)"
    by (auto simp: hlist_def hseg_append)
  define h1 where "h1 = set_pprev p (Next_of n) (set_hnext n (Some p) (set_pprev n ?pp h))"
  have "hpre h1 (First_of b) (hfirst h1 b) xs w" using w(1) d assms(2) by (simp add: h1_def)
  then obtain h2 where h2: "store_pp ?pp (Some n) h1 = Ret h2" "hpre h2 (First_of b) (hfirst h2 b) xs (Some n)"
    "pprev h2 = pprev h1" "\<forall>m. m \<notin> set xs \<longrightarrow> hnext h2 m = hnext h1 m"
    using store_end_pp [of h1 b xs w "Some n"] d by auto
  have "hseg h1 ?pp (Some n) (n # p # ys)" using w(2) d assms(2) by (auto simp: h1_def)
  then have "hseg h2 ?pp (Some n) (n # p # ys)"
    using h2(3,4) d assms(2) by (subst hseg_cong [where h = h1]) auto
  then have "hlist h2 b (xs @ n # p # ys)"
    using h2(2) d assms(2) unfolding hlist_def hseg_append by auto
  moreover have "hlist_add_before n p h = Ret h2"
    using h2(1) w(2) assms(2) by (auto simp: hlist_add_before_def Let_def h1_def)
  ultimately show ?thesis by blast
qed

lemma hlist_move_list_ok:
  "hlist h old xs \<Longrightarrow> old \<noteq> new \<Longrightarrow>
    hlist (hlist_move_list old new h) new xs \<and> hlist (hlist_move_list old new h) old []"
  by (cases xs) (auto simp: hlist_def hlist_move_list_def Let_def)

lemma hlist_empty_iff: "hlist h b xs \<Longrightarrow> hlist_empty b h \<longleftrightarrow> xs = []"
  by (cases xs) (auto simp: hlist_def hlist_empty_def)

lemma hlist_singular_iff: "hlist h b xs \<Longrightarrow> n \<in> set xs \<Longrightarrow> hlist_is_singular_node n b h \<longleftrightarrow> xs = [n]"
proof -
  assume *: "hlist h b xs" "n \<in> set xs"
  then obtain us vs where x: "xs = us @ n # vs" by (meson split_list)
  with *(1) have "pprev h n = end_pp (First_of b) us" "hseg h (Next_of n) (hnext h n) vs"
    by (auto simp: hlist_def hseg_append)
  then show ?thesis unfolding x
    by (cases us rule: rev_cases; cases vs) (auto simp: hlist_is_singular_node_def)
qed

lemma hlist_walk_ok: "hseg h pp v xs \<Longrightarrow> length xs \<le> fuel \<Longrightarrow> hlist_walk fuel v h = Ret xs"
proof (induction xs arbitrary: pp v fuel)
  case Nil
  then show ?case by (cases fuel) simp_all
next
  case (Cons x xs)
  then obtain f where f: "fuel = Suc f" "length xs \<le> f" by (cases fuel) auto
  from Cons.prems(1) have "hseg h (Next_of x) (hnext h x) xs" by simp
  from Cons.IH [OF this f(2)] Cons.prems(1) f(1) show ?case by simp
qed

subsection \<open>Properties\<close>

text \<open>In a bucket that carries the nodes \<open>xs @ p # ys\<close> the single pointer list
  functions edit that sequence: adding a new node at the head, before \<open>p\<close> and behind
  \<open>p\<close>, deleting \<open>p\<close> (\<open>hlist_del\<close> leaves \<open>p\<close> looking hashed,
  \<open>hlist_del_init\<close> does not), moving the whole list to another bucket; none of them
  stores through a pointer that is not in the list, and the loop visits the nodes in
  order.\<close>

theorem hlist_edits_refine:
  assumes "hlist h b (xs @ p # ys)" "n \<notin> set (xs @ p # ys)" "b' \<noteq> b"
    and "length (xs @ p # ys) \<le> fuel"
  shows "hlist (hlist_add_head n b h) b (n # xs @ p # ys) \<and>
    (\<exists>h'. hlist_add_before n p h = Ret h' \<and> hlist h' b (xs @ n # p # ys)) \<and>
    hlist (hlist_add_behind n p h) b (xs @ p # n # ys) \<and>
    (\<exists>h'. hlist_del p h = Ret h' \<and> hlist h' b (xs @ ys) \<and> \<not> hlist_unhashed p h') \<and>
    (\<exists>h'. hlist_del_init p h = Ret h' \<and> hlist h' b (xs @ ys) \<and> hlist_unhashed p h') \<and>
    hlist (hlist_move_list b b' h) b' (xs @ p # ys) \<and> hlist (hlist_move_list b b' h) b [] \<and>
    hlist_for_each fuel b h = Ret (xs @ p # ys)"
  using hlist_add_head_ok [OF assms(1,2)] hlist_add_before_ok [OF assms(1,2)] hlist_add_behind_ok [OF assms(1,2)]
    hlist_del_ok [OF assms(1)] hlist_move_list_ok [OF assms(1) assms(3) [symmetric]]
    hlist_walk_ok [of h "First_of b" "hfirst h b" "xs @ p # ys" fuel] assms(1,4)
  unfolding hlist_for_each_def by (simp add: hlist_def [of h b])

theorem hlist_edits_refine_witness:
  "hlist_for_each 1 0 (hlist_add_head 5 0 \<lparr>hfirst = \<lambda>_. None, hnext = \<lambda>_. None, pprev = \<lambda>_. Null_pp\<rparr>) = Ret [5]"
proof -
  define h where "h = hlist_add_head 5 0 \<lparr>hfirst = \<lambda>_. None, hnext = \<lambda>_. None, pprev = \<lambda>_. Null_pp\<rparr>"
  have "hlist h 0 ([] @ 5 # [])" by (simp add: h_def hlist_def hlist_add_head_def Let_def)
  from hlist_edits_refine [OF this, of 7 1 1] show ?thesis by (simp add: h_def)
qed

end
