(* ===== verification/Lk_List_Entry.thy ===== *)
theory Lk_List_Entry
  imports Lk_List Lk_Hlist
begin

text \<open>
  The entry macros of \<open>shared/lk/list.h\<close>: an entry is the address of a struct and its member the
  node at a fixed offset in it.  The entry of a list head, which the loops compute, is no struct
  and may lie below the address space, so that entries are integers.  Each loop is shown to run
  over the entries of the nodes that the loop over nodes visits.
\<close>

type_synonym entry = int

definition list_entry :: "nat \<Rightarrow> node \<Rightarrow> entry" where
  "list_entry off ptr = int ptr - int off"

definition member_of :: "nat \<Rightarrow> entry \<Rightarrow> node" where
  "member_of off pos = nat (pos + int off)"

definition list_first_entry :: "nat \<Rightarrow> node \<Rightarrow> lheap \<Rightarrow> entry" where
  "list_first_entry off ptr h = list_entry off (lnext h ptr)"

definition list_last_entry :: "nat \<Rightarrow> node \<Rightarrow> lheap \<Rightarrow> entry" where
  "list_last_entry off ptr h = list_entry off (lprev h ptr)"

definition list_next_entry :: "nat \<Rightarrow> lheap \<Rightarrow> entry \<Rightarrow> entry" where
  "list_next_entry off h pos = list_entry off (lnext h (member_of off pos))"

definition list_prev_entry :: "nat \<Rightarrow> lheap \<Rightarrow> entry \<Rightarrow> entry" where
  "list_prev_entry off h pos = list_entry off (lprev h (member_of off pos))"

definition list_entry_is_head :: "nat \<Rightarrow> entry \<Rightarrow> node \<Rightarrow> bool" where
  "list_entry_is_head off pos head \<longleftrightarrow> member_of off pos = head"

definition list_prepare_entry :: "nat \<Rightarrow> entry option \<Rightarrow> node \<Rightarrow> entry" where
  "list_prepare_entry off pos head = (case pos of Some p \<Rightarrow> p | None \<Rightarrow> list_entry off head)"

subsection \<open>Loops\<close>

primrec entry_walk :: "nat \<Rightarrow> (entry \<Rightarrow> entry) \<Rightarrow> nat \<Rightarrow> node \<Rightarrow> entry \<Rightarrow> entry list run" where
  "entry_walk 0 step off head pos = (if list_entry_is_head off pos head then Ret [] else Spin)"
| "entry_walk (Suc fuel) step off head pos =
     (if list_entry_is_head off pos head then Ret []
      else bind_run (entry_walk fuel step off head (step pos)) (\<lambda>ps. Ret (pos # ps)))"

definition list_for_each_entry :: "nat \<Rightarrow> nat \<Rightarrow> node \<Rightarrow> lheap \<Rightarrow> entry list run" where
  "list_for_each_entry fuel off head h =
     entry_walk fuel (list_next_entry off h) off head (list_first_entry off head h)"

definition list_for_each_entry_reverse :: "nat \<Rightarrow> nat \<Rightarrow> node \<Rightarrow> lheap \<Rightarrow> entry list run" where
  "list_for_each_entry_reverse fuel off head h =
     entry_walk fuel (list_prev_entry off h) off head (list_last_entry off head h)"

definition list_for_each_entry_continue :: "nat \<Rightarrow> nat \<Rightarrow> node \<Rightarrow> entry \<Rightarrow> lheap \<Rightarrow> entry list run" where
  "list_for_each_entry_continue fuel off head pos h =
     entry_walk fuel (list_next_entry off h) off head (list_next_entry off h pos)"

definition list_for_each_entry_continue_reverse :: "nat \<Rightarrow> nat \<Rightarrow> node \<Rightarrow> entry \<Rightarrow> lheap \<Rightarrow> entry list run" where
  "list_for_each_entry_continue_reverse fuel off head pos h =
     entry_walk fuel (list_prev_entry off h) off head (list_prev_entry off h pos)"

definition list_for_each_entry_from :: "nat \<Rightarrow> nat \<Rightarrow> node \<Rightarrow> entry \<Rightarrow> lheap \<Rightarrow> entry list run" where
  "list_for_each_entry_from fuel off head pos h = entry_walk fuel (list_next_entry off h) off head pos"

definition list_for_each_entry_from_reverse :: "nat \<Rightarrow> nat \<Rightarrow> node \<Rightarrow> entry \<Rightarrow> lheap \<Rightarrow> entry list run" where
  "list_for_each_entry_from_reverse fuel off head pos h = entry_walk fuel (list_prev_entry off h) off head pos"

text \<open>
  The loops that are safe against removal: the body changes the heap, and the entry \<open>n\<close> that
  follows was read before.
\<close>

primrec entry_each_safe ::
    "nat \<Rightarrow> (lheap \<Rightarrow> entry \<Rightarrow> entry) \<Rightarrow> (entry \<Rightarrow> lheap \<Rightarrow> lheap) \<Rightarrow> nat \<Rightarrow> node \<Rightarrow> entry \<Rightarrow> entry \<Rightarrow> lheap \<Rightarrow> lheap run" where
  "entry_each_safe 0 step body off head pos n h = (if list_entry_is_head off pos head then Ret h else Spin)"
| "entry_each_safe (Suc fuel) step body off head pos n h =
     (if list_entry_is_head off pos head then Ret h
      else (let h = body pos h in entry_each_safe fuel step body off head n (step h n) h))"

definition list_for_each_entry_safe :: "nat \<Rightarrow> (entry \<Rightarrow> lheap \<Rightarrow> lheap) \<Rightarrow> nat \<Rightarrow> node \<Rightarrow> lheap \<Rightarrow> lheap run" where
  "list_for_each_entry_safe fuel body off head h =
     (let pos = list_first_entry off head h
      in entry_each_safe fuel (list_next_entry off) body off head pos (list_next_entry off h pos) h)"

definition list_for_each_entry_safe_continue ::
    "nat \<Rightarrow> (entry \<Rightarrow> lheap \<Rightarrow> lheap) \<Rightarrow> nat \<Rightarrow> node \<Rightarrow> entry \<Rightarrow> lheap \<Rightarrow> lheap run" where
  "list_for_each_entry_safe_continue fuel body off head pos h =
     (let pos = list_next_entry off h pos
      in entry_each_safe fuel (list_next_entry off) body off head pos (list_next_entry off h pos) h)"

definition list_for_each_entry_safe_from ::
    "nat \<Rightarrow> (entry \<Rightarrow> lheap \<Rightarrow> lheap) \<Rightarrow> nat \<Rightarrow> node \<Rightarrow> entry \<Rightarrow> lheap \<Rightarrow> lheap run" where
  "list_for_each_entry_safe_from fuel body off head pos h =
     entry_each_safe fuel (list_next_entry off) body off head pos (list_next_entry off h pos) h"

definition list_for_each_entry_safe_reverse :: "nat \<Rightarrow> (entry \<Rightarrow> lheap \<Rightarrow> lheap) \<Rightarrow> nat \<Rightarrow> node \<Rightarrow> lheap \<Rightarrow> lheap run" where
  "list_for_each_entry_safe_reverse fuel body off head h =
     (let pos = list_last_entry off head h
      in entry_each_safe fuel (list_prev_entry off) body off head pos (list_prev_entry off h pos) h)"

definition list_safe_reset_next :: "nat \<Rightarrow> lheap \<Rightarrow> entry \<Rightarrow> entry" where
  "list_safe_reset_next off h pos = list_next_entry off h pos"

text \<open>The loops over the single pointer lists; a null pointer is None.\<close>

definition hlist_entry_safe :: "nat \<Rightarrow> node option \<Rightarrow> entry option" where
  "hlist_entry_safe off ptr = (case ptr of Some p \<Rightarrow> Some (list_entry off p) | None \<Rightarrow> None)"

primrec hentry_walk :: "nat \<Rightarrow> nat \<Rightarrow> entry option \<Rightarrow> hheap \<Rightarrow> entry list run" where
  "hentry_walk 0 off pos h = (case pos of None \<Rightarrow> Ret [] | Some _ \<Rightarrow> Spin)"
| "hentry_walk (Suc fuel) off pos h =
     (case pos of
        None \<Rightarrow> Ret []
      | Some e \<Rightarrow>
          bind_run (hentry_walk fuel off (hlist_entry_safe off (hnext h (member_of off e))) h) (\<lambda>ps. Ret (e # ps)))"

definition hlist_for_each_entry :: "nat \<Rightarrow> nat \<Rightarrow> nat \<Rightarrow> hheap \<Rightarrow> entry list run" where
  "hlist_for_each_entry fuel off b h = hentry_walk fuel off (hlist_entry_safe off (hfirst h b)) h"

definition hlist_for_each_entry_continue :: "nat \<Rightarrow> nat \<Rightarrow> entry \<Rightarrow> hheap \<Rightarrow> entry list run" where
  "hlist_for_each_entry_continue fuel off pos h =
     hentry_walk fuel off (hlist_entry_safe off (hnext h (member_of off pos))) h"

definition hlist_for_each_entry_from :: "nat \<Rightarrow> nat \<Rightarrow> entry \<Rightarrow> hheap \<Rightarrow> entry list run" where
  "hlist_for_each_entry_from fuel off pos h = hentry_walk fuel off (Some pos) h"

primrec hentry_each_safe :: "nat \<Rightarrow> (entry \<Rightarrow> hheap \<Rightarrow> hheap) \<Rightarrow> nat \<Rightarrow> entry option \<Rightarrow> hheap \<Rightarrow> hheap run" where
  "hentry_each_safe 0 body off pos h = (case pos of None \<Rightarrow> Ret h | Some _ \<Rightarrow> Spin)"
| "hentry_each_safe (Suc fuel) body off pos h =
     (case pos of
        None \<Rightarrow> Ret h
      | Some e \<Rightarrow>
          (let n = hnext h (member_of off e)
           in hentry_each_safe fuel body off (hlist_entry_safe off n) (body e h)))"

definition hlist_for_each_entry_safe :: "nat \<Rightarrow> (entry \<Rightarrow> hheap \<Rightarrow> hheap) \<Rightarrow> nat \<Rightarrow> nat \<Rightarrow> hheap \<Rightarrow> hheap run" where
  "hlist_for_each_entry_safe fuel body off b h = hentry_each_safe fuel body off (hlist_entry_safe off (hfirst h b)) h"

definition hlist_for_each_safe :: "nat \<Rightarrow> (node \<Rightarrow> hheap \<Rightarrow> hheap) \<Rightarrow> nat \<Rightarrow> hheap \<Rightarrow> hheap run" where
  "hlist_for_each_safe fuel body b h = hentry_each_safe fuel (\<lambda>e. body (nat e)) 0 (hlist_entry_safe 0 (hfirst h b)) h"

subsection \<open>Entries of nodes\<close>

lemma member_of_entry [simp]: "member_of off (list_entry off p) = p"
  by (simp add: member_of_def list_entry_def)

lemma list_entry_inj [simp]: "list_entry off p = list_entry off q \<longleftrightarrow> p = q"
  by (simp add: list_entry_def)

lemma entry_steps [simp]:
  "list_next_entry off h (list_entry off p) = list_entry off (lnext h p)"
  "list_prev_entry off h (list_entry off p) = list_entry off (lprev h p)"
  "list_entry_is_head off (list_entry off p) head \<longleftrightarrow> list_is_head p head"
  by (simp_all add: list_next_entry_def list_prev_entry_def list_entry_is_head_def list_is_head_def)

lemma entry_walk_nodes:
  assumes "\<And>p. estep (list_entry off p) = list_entry off (step p)" "list_walk fuel step head p = Ret ps"
  shows "entry_walk fuel estep off head (list_entry off p) = Ret (map (list_entry off) ps)"
  using assms(2)
proof (induction fuel arbitrary: p ps)
  case 0
  then show ?case by (auto split: if_splits)
next
  case (Suc fuel)
  show ?case
  proof (cases "list_is_head p head")
    case False
    then obtain qs where "list_walk fuel step head (step p) = Ret qs" "ps = p # qs"
      using Suc.prems by (cases "list_walk fuel step head (step p)") auto
    then show ?thesis using False Suc.IH [of "step p" qs] by (simp add: assms(1))
  qed (use Suc.prems in simp)
qed

lemma entry_each_safe_nodes:
  "entry_each_safe fuel (list_next_entry off) body off head (list_entry off p) (list_entry off n) h =
     list_each_safe fuel (\<lambda>p. body (list_entry off p)) head p n h"
  by (induction fuel arbitrary: p n h) (simp_all add: Let_def)

lemma hentry_walk_nodes:
  "hlist_walk fuel pos h = Ret ps \<Longrightarrow> hentry_walk fuel off (hlist_entry_safe off pos) h = Ret (map (list_entry off) ps)"
proof (induction fuel arbitrary: pos ps)
  case 0
  then show ?case by (auto simp: hlist_entry_safe_def split: option.splits)
next
  case (Suc fuel)
  show ?case
  proof (cases pos)
    case (Some n)
    then obtain qs where "hlist_walk fuel (hnext h n) h = Ret qs" "ps = n # qs"
      using Suc.prems by (cases "hlist_walk fuel (hnext h n) h") auto
    then show ?thesis using Some Suc.IH [of "hnext h n" qs] by (simp add: hlist_entry_safe_def [of off "Some n"])
  qed (use Suc.prems in \<open>simp add: hlist_entry_safe_def\<close>)
qed

text \<open>
  In a list that carries the nodes \<open>xs @ n # ys\<close> the entry loops run over the entries of all
  nodes in order or in reverse, over those after the entry of \<open>n\<close> or before it in reverse, and
  from it on.  The safe loop is the safe loop over the nodes with the body on their entries.
\<close>

theorem entry_loops_visit_members:
  assumes "dlist h head (xs @ n # ys)" "length (xs @ n # ys) \<le> fuel"
  shows "list_for_each_entry fuel off head h = Ret (map (list_entry off) (xs @ n # ys)) \<and>
    list_for_each_entry_reverse fuel off head h = Ret (rev (map (list_entry off) (xs @ n # ys))) \<and>
    list_for_each_entry_continue fuel off head (list_entry off n) h = Ret (map (list_entry off) ys) \<and>
    list_for_each_entry_from fuel off head (list_entry off n) h = Ret (map (list_entry off) (n # ys)) \<and>
    list_for_each_entry_continue fuel off head (list_prepare_entry off None head) h = Ret (map (list_entry off) (xs @ n # ys)) \<and>
    list_for_each_entry_safe fuel body off head h = list_for_each_safe fuel (\<lambda>p. body (list_entry off p)) head h"
proof -
  let ?e = "list_entry off"
  note nx = entry_walk_nodes [where estep = "list_next_entry off h" and step = "lnext h", OF entry_steps(1)]
  note pv = entry_walk_nodes [where estep = "list_prev_entry off h" and step = "lprev h", OF entry_steps(2)]
  note all = list_for_each_members [OF assms, unfolded list_for_each_def list_for_each_prev_def]
  have "list_walk fuel (lnext h) head (lnext h n) = Ret ys"
    using list_for_each_continue_members [OF assms(1), of fuel] assms(2) by (simp add: list_for_each_continue_def)
  moreover have "list_walk fuel (lnext h) head n = Ret (n # ys)"
    using list_walk_next [of h "n # ys" head fuel] assms by (auto simp: dlist_split chain_Cons)
  ultimately show ?thesis
    using nx [OF all(1)] pv [OF all(2)] nx [of fuel head "lnext h n" ys] nx [of fuel head n "n # ys"]
    by (simp add: list_for_each_entry_def list_for_each_entry_reverse_def list_for_each_entry_continue_def
        list_for_each_entry_from_def list_prepare_entry_def list_first_entry_def list_last_entry_def rev_map
        list_for_each_entry_safe_def list_for_each_safe_def entry_each_safe_nodes Let_def)
qed

text \<open>The loop over the entries of a bucket runs over the entries of its nodes.\<close>

theorem hlist_entry_loop_visits:
  assumes "hlist_for_each fuel b h = Ret ps"
  shows "hlist_for_each_entry fuel off b h = Ret (map (list_entry off) ps)"
  using assms hentry_walk_nodes by (simp add: hlist_for_each_def hlist_for_each_entry_def)

end
