(* ===== verification/Lk_Llist.thy ===== *)
theory Lk_Llist
  imports Lk_List_Props
begin

text \<open>
  The lockless lists of \<open>shared/lk/llist.h\<close>, which wrap the wait free stack of liburcu, and the
  gathering of such a list in \<open>shared/block.c\<close>.  Pointers are addresses and 0 is null.  The functions
  of the library are a record of functions on its memory; what its documentation says of them is
  stated as \<open>wfs_documented\<close>.
\<close>

type_synonym wptr = u64

record 'w wfs_ops =
  cds_wfs_init :: "'w \<Rightarrow> 'w"
  cds_wfs_node_init :: "wptr \<Rightarrow> 'w \<Rightarrow> 'w"
  cds_wfs_empty :: "'w \<Rightarrow> bool"
  cds_wfs_push :: "wptr \<Rightarrow> 'w \<Rightarrow> bool \<times> 'w"
  cds_wfs_pop_all :: "'w \<Rightarrow> wptr \<times> 'w"
  cds_wfs_first :: "wptr \<Rightarrow> 'w \<Rightarrow> wptr"
  cds_wfs_next_nonblocking :: "wptr \<Rightarrow> 'w \<Rightarrow> wptr"

definition CDS_WFS_WOULDBLOCK :: wptr where [simp]: "CDS_WFS_WOULDBLOCK = - 1"

subsection \<open>llist.h\<close>

text \<open>The nodes and heads of the library are the only members of those of llist.h.\<close>

definition init_llist_head :: "'w wfs_ops \<Rightarrow> 'w \<Rightarrow> 'w" where
  "init_llist_head ops w = cds_wfs_init ops w"

definition init_llist_node :: "'w wfs_ops \<Rightarrow> wptr \<Rightarrow> 'w \<Rightarrow> 'w" where
  "init_llist_node ops node w = cds_wfs_node_init ops node w"

definition llist_empty :: "'w wfs_ops \<Rightarrow> 'w \<Rightarrow> bool" where
  "llist_empty ops w = cds_wfs_empty ops w"

definition llist_add :: "'w wfs_ops \<Rightarrow> wptr \<Rightarrow> 'w \<Rightarrow> bool \<times> 'w" where
  "llist_add ops new w = (let (ret, w) = cds_wfs_push ops new w in (\<not> ret, w))"

definition llist_del_all :: "'w wfs_ops \<Rightarrow> 'w \<Rightarrow> wptr \<times> 'w" where
  "llist_del_all ops w =
     (let (wfhead, w) = cds_wfs_pop_all ops w;
          wfnode = cds_wfs_first ops wfhead w
      in (if wfnode \<noteq> 0 then wfnode else 0, w))"

definition llist_for_each_first :: "'w wfs_ops \<Rightarrow> wptr \<Rightarrow> 'w \<Rightarrow> wptr" where
  "llist_for_each_first ops llnode w =
     (let wfnode = (if llnode \<noteq> 0 then cds_wfs_first ops llnode w else 0)
      in if wfnode \<noteq> 0 then wfnode else 0)"

definition llist_for_each_next :: "'w wfs_ops \<Rightarrow> wptr \<Rightarrow> 'w \<Rightarrow> wptr" where
  "llist_for_each_next ops pos w =
     (let wfnode = cds_wfs_next_nonblocking ops pos w in if wfnode \<noteq> 0 then wfnode else 0)"

text \<open>The macros that step through the structures around the nodes; \<open>member\<close> is the offset.\<close>

definition llist_for_each_entry_first :: "'w wfs_ops \<Rightarrow> wptr \<Rightarrow> u64 \<Rightarrow> 'w \<Rightarrow> wptr" where
  "llist_for_each_entry_first ops llnode member w =
     (let wfnode = (if llnode \<noteq> 0 then cds_wfs_first ops llnode w else 0)
      in if wfnode \<noteq> 0 then wfnode - member else 0)"

definition llist_for_each_entry_next :: "'w wfs_ops \<Rightarrow> wptr \<Rightarrow> u64 \<Rightarrow> 'w \<Rightarrow> wptr" where
  "llist_for_each_entry_next ops pos member w =
     (let wfnode = cds_wfs_next_nonblocking ops (pos + member) w in if wfnode \<noteq> 0 then wfnode - member else 0)"

text \<open>\<open>llist_for_each\<close> with its body; the fuel bounds the number of rounds.\<close>

primrec llist_loop :: "'w wfs_ops \<Rightarrow> 'w \<Rightarrow> (wptr \<Rightarrow> 's \<Rightarrow> 's run) \<Rightarrow> nat \<Rightarrow> wptr \<Rightarrow> 's \<Rightarrow> 's run" where
  "llist_loop ops w body 0 pos s = (if pos = 0 then Ret s else Spin)"
| "llist_loop ops w body (Suc fuel) pos s =
     (if pos = 0 then Ret s
      else bind_run (body pos s) (llist_loop ops w body fuel (llist_for_each_next ops pos w)))"

definition llist_for_each :: "'w wfs_ops \<Rightarrow> 'w \<Rightarrow> (wptr \<Rightarrow> 's \<Rightarrow> 's run) \<Rightarrow> nat \<Rightarrow> wptr \<Rightarrow> 's \<Rightarrow> 's run" where
  "llist_for_each ops w body fuel node = llist_loop ops w body fuel (llist_for_each_first ops node w)"

subsection \<open>Gathering in block.c\<close>

text \<open>
  \<open>del_all_reverse_add_tail\<close> on the memory of the library and of the lists.  The value with which
  the library says that it would have to wait is no address of a node.
\<close>

definition gather_node :: "node \<Rightarrow> u64 \<Rightarrow> wptr \<Rightarrow> lheap \<Rightarrow> lheap run" where
  "gather_node reverse offset pos h =
     (if pos = CDS_WFS_WOULDBLOCK then Undef else Ret (list_add (unat (pos + offset)) reverse h))"

definition llist_del_all_reverse_add_tail ::
    "'w wfs_ops \<Rightarrow> nat \<Rightarrow> node \<Rightarrow> node \<Rightarrow> u64 \<Rightarrow> 'w \<Rightarrow> lheap \<Rightarrow> (lheap \<times> 'w) run" where
  "llist_del_all_reverse_add_tail ops fuel reverse list offset w h =
     (let h = INIT_LIST_HEAD reverse h;
          (node, w) = llist_del_all ops w
      in if node \<noteq> 0
         then bind_run (llist_for_each ops w (gather_node reverse offset) fuel node h) (\<lambda>h.
                Ret (list_splice_tail reverse list h, w))
         else Ret (h, w))"

subsection \<open>What liburcu documents\<close>

text \<open>
  \<open>stack w\<close> are the nodes on the stack from the top, \<open>popped w n\<close> the nodes of a popped stack from
  \<open>n\<close> on, and \<open>pending w\<close> the nodes whose push has not finished.  A push tells whether the stack was
  not empty; popping all gives a head that is the top node and whose nodes can be walked; the walk
  says that it would have to wait at a node whose push has not finished.
\<close>

definition wfs_documented :: "'w wfs_ops \<Rightarrow> ('w \<Rightarrow> wptr list) \<Rightarrow> ('w \<Rightarrow> wptr \<Rightarrow> wptr list) \<Rightarrow> ('w \<Rightarrow> wptr set) \<Rightarrow> bool" where
  "wfs_documented ops stack popped pending \<longleftrightarrow>
     (\<forall>w. stack (cds_wfs_init ops w) = [] \<and> pending (cds_wfs_init ops w) = {}) \<and>
     (\<forall>w. cds_wfs_empty ops w \<longleftrightarrow> stack w = []) \<and>
     (\<forall>n w. n \<notin> set (stack w) \<longrightarrow> (case cds_wfs_push ops n w of (r, w') \<Rightarrow>
        r = (stack w \<noteq> []) \<and> stack w' = n # stack w \<and> pending w' = pending w)) \<and>
     (\<forall>w. case cds_wfs_pop_all ops w of (h, w') \<Rightarrow>
        stack w' = [] \<and> popped w' h = stack w \<and> pending w' = pending w) \<and>
     (\<forall>h w. cds_wfs_first ops h w = (if popped w h = [] then 0 else hd (popped w h))) \<and>
     (\<forall>h w. popped w h \<noteq> [] \<longrightarrow> hd (popped w h) = h) \<and>
     (\<forall>n w rest. popped w n = n # rest \<longrightarrow>
        (if n \<in> pending w then cds_wfs_next_nonblocking ops n w = CDS_WFS_WOULDBLOCK
         else cds_wfs_next_nonblocking ops n w = (if rest = [] then 0 else hd rest) \<and>
           (rest \<noteq> [] \<longrightarrow> popped w (hd rest) = rest)))"

lemma wfsD:
  assumes "wfs_documented ops stack popped pending"
  shows "stack (cds_wfs_init ops w) = []" "pending (cds_wfs_init ops w) = {}"
    "cds_wfs_empty ops w \<longleftrightarrow> stack w = []"
    "n \<notin> set (stack w) \<Longrightarrow> cds_wfs_push ops n w = (r, w') \<Longrightarrow>
      r = (stack w \<noteq> []) \<and> stack w' = n # stack w \<and> pending w' = pending w"
    "cds_wfs_pop_all ops w = (h, w') \<Longrightarrow> stack w' = [] \<and> popped w' h = stack w \<and> pending w' = pending w"
    "cds_wfs_first ops h w = (if popped w h = [] then 0 else hd (popped w h))"
    "popped w h \<noteq> [] \<Longrightarrow> hd (popped w h) = h"
    "popped w n = n # rest \<Longrightarrow> n \<in> pending w \<Longrightarrow> cds_wfs_next_nonblocking ops n w = CDS_WFS_WOULDBLOCK"
    "popped w n = n # rest \<Longrightarrow> n \<notin> pending w \<Longrightarrow> cds_wfs_next_nonblocking ops n w = (if rest = [] then 0 else hd rest)"
    "popped w n = n # rest \<Longrightarrow> n \<notin> pending w \<Longrightarrow> rest \<noteq> [] \<Longrightarrow> popped w (hd rest) = rest"
proof -
  note d = assms [unfolded wfs_documented_def]
  have push: "\<forall>n w. n \<notin> set (stack w) \<longrightarrow> (case cds_wfs_push ops n w of (r, w') \<Rightarrow>
      r = (stack w \<noteq> []) \<and> stack w' = n # stack w \<and> pending w' = pending w)" using d by (elim conjE)
  have pop: "\<forall>w. case cds_wfs_pop_all ops w of (h, w') \<Rightarrow>
      stack w' = [] \<and> popped w' h = stack w \<and> pending w' = pending w" using d by (elim conjE)
  show "stack (cds_wfs_init ops w) = []" "pending (cds_wfs_init ops w) = {}" "cds_wfs_empty ops w \<longleftrightarrow> stack w = []"
    "cds_wfs_first ops h w = (if popped w h = [] then 0 else hd (popped w h))"
    "popped w h \<noteq> [] \<Longrightarrow> hd (popped w h) = h" using d by blast+
  show "n \<notin> set (stack w) \<Longrightarrow> cds_wfs_push ops n w = (r, w') \<Longrightarrow>
      r = (stack w \<noteq> []) \<and> stack w' = n # stack w \<and> pending w' = pending w" using push [rule_format, of n w] by simp
  show "cds_wfs_pop_all ops w = (h, w') \<Longrightarrow> stack w' = [] \<and> popped w' h = stack w \<and> pending w' = pending w"
    using pop [rule_format, of w] by simp
  have n: "\<forall>n w rest. popped w n = n # rest \<longrightarrow>
        (if n \<in> pending w then cds_wfs_next_nonblocking ops n w = CDS_WFS_WOULDBLOCK
         else cds_wfs_next_nonblocking ops n w = (if rest = [] then 0 else hd rest) \<and>
           (rest \<noteq> [] \<longrightarrow> popped w (hd rest) = rest))" using d by blast
  from n [rule_format, of w n rest] show
    "popped w n = n # rest \<Longrightarrow> n \<in> pending w \<Longrightarrow> cds_wfs_next_nonblocking ops n w = CDS_WFS_WOULDBLOCK"
    "popped w n = n # rest \<Longrightarrow> n \<notin> pending w \<Longrightarrow> cds_wfs_next_nonblocking ops n w = (if rest = [] then 0 else hd rest)"
    "popped w n = n # rest \<Longrightarrow> n \<notin> pending w \<Longrightarrow> rest \<noteq> [] \<Longrightarrow> popped w (hd rest) = rest" by simp_all
qed

subsection \<open>The loop visits the popped nodes\<close>

text \<open>The body on each node in turn.\<close>

primrec run_each :: "(wptr \<Rightarrow> 's \<Rightarrow> 's run) \<Rightarrow> wptr list \<Rightarrow> 's \<Rightarrow> 's run" where
  "run_each body [] s = Ret s"
| "run_each body (n # ns) s = bind_run (body n s) (run_each body ns)"

lemma llist_loop_visits:
  assumes "wfs_documented ops stack popped pending" "0 \<notin> set ns" "set ns \<inter> pending w = {}" "length ns \<le> fuel"
    and "ns \<noteq> [] \<Longrightarrow> popped w (hd ns) = ns"
  shows "llist_loop ops w body fuel (if ns = [] then 0 else hd ns) s = run_each body ns s"
  using assms(2-)
proof (induction ns arbitrary: fuel s)
  case Nil
  then show ?case by (cases fuel) simp_all
next
  case (Cons n ns)
  obtain f where f: "fuel = Suc f" "length ns \<le> f" using Cons.prems(3) by (cases fuel) auto
  have c: "popped w n = n # ns" "n \<notin> pending w" using Cons.prems by auto
  have "llist_for_each_next ops n w = (if ns = [] then 0 else hd ns)"
    using wfsD(9) [OF assms(1) c] by (simp add: llist_for_each_next_def Let_def)
  moreover have "llist_loop ops w body f (if ns = [] then 0 else hd ns) s' = run_each body ns s'" for s'
    using Cons.IH [of f s'] Cons.prems f(2) wfsD(10) [OF assms(1) c] by auto
  ultimately show ?case using f(1) Cons.prems(1) by (auto intro!: arg_cong [of _ _ "bind_run _"])
qed

lemma llist_del_all_eq:
  assumes "wfs_documented ops stack popped pending" "0 \<notin> set (stack w)" "llist_del_all ops w = (node, w')"
  shows "stack w' = []" "pending w' = pending w" "node = (if stack w = [] then 0 else hd (stack w))"
    "stack w \<noteq> [] \<Longrightarrow> popped w' node = stack w" "llist_for_each_first ops node w' = node"
proof -
  obtain h w0 where h: "cds_wfs_pop_all ops w = (h, w0)" by fastforce
  note p = wfsD(5) [OF assms(1) h]
  have w0: "w0 = w'" "node = cds_wfs_first ops h w0"
    using assms(3) h by (auto simp: llist_del_all_def Let_def split: if_splits)
  show 1: "stack w' = []" "pending w' = pending w" using p w0 by auto
  show n: "node = (if stack w = [] then 0 else hd (stack w))" using w0 p wfsD(6) [OF assms(1), of h w0] by auto
  show c: "popped w' node = stack w" if "stack w \<noteq> []"
    using that n p w0 wfsD(7) [OF assms(1), of w0 h] by auto
  show "llist_for_each_first ops node w' = node"
  proof (cases "stack w = []")
    case False
    then show ?thesis using n c wfsD(6) [OF assms(1), of node w'] by (simp add: llist_for_each_first_def Let_def)
  qed (use n in \<open>simp add: llist_for_each_first_def\<close>)
qed

lemma llist_for_each_visits:
  assumes "wfs_documented ops stack popped pending" "0 \<notin> set (stack w)" "set (stack w) \<inter> pending w = {}"
    and "llist_del_all ops w = (node, w')" "length (stack w) \<le> fuel"
  shows "llist_for_each ops w' body fuel node s = run_each body (stack w) s"
  unfolding llist_for_each_def llist_del_all_eq(5) [OF assms(1,2,4)] llist_del_all_eq(3) [OF assms(1,2,4)]
  using llist_loop_visits [OF assms(1), of "stack w" w' fuel body s] llist_del_all_eq [OF assms(1,2,4)] assms
  by auto

subsection \<open>Adding and gathering\<close>

primrec llist_adds :: "'w wfs_ops \<Rightarrow> wptr list \<Rightarrow> 'w \<Rightarrow> bool list \<times> 'w" where
  "llist_adds ops [] w = ([], w)"
| "llist_adds ops (n # ns) w =
     (let (first, w) = llist_add ops n w; (firsts, w) = llist_adds ops ns w in (first # firsts, w))"

lemma llist_adds_stack:
  assumes "wfs_documented ops stack popped pending" "distinct ns" "set ns \<inter> set (stack w) = {}"
    and "llist_adds ops ns w = (firsts, w')"
  shows "stack w' = rev ns @ stack w \<and> pending w' = pending w \<and>
    firsts = (case ns of [] \<Rightarrow> [] | _ # rest \<Rightarrow> (stack w = []) # replicate (length rest) False)"
  using assms(2-)
proof (induction ns arbitrary: w firsts)
  case (Cons n ns)
  obtain r w0 where r: "cds_wfs_push ops n w = (r, w0)" by fastforce
  obtain fs where fs: "llist_adds ops ns w0 = (fs, w')" "firsts = (\<not> r) # fs"
    using Cons.prems(3) r by (auto simp: llist_add_def split: prod.splits)
  have p: "r = (stack w \<noteq> [])" "stack w0 = n # stack w" "pending w0 = pending w"
    using wfsD(4) [OF assms(1) _ r] Cons.prems(2) by auto
  then show ?case using Cons.IH [of w0 fs] Cons.prems(1,2) fs by (cases ns) auto
qed simp

lemma run_each_gather:
  "- 1 \<notin> set ns \<Longrightarrow>
    run_each (gather_node reverse offset) ns h = Ret (fold (\<lambda>pos. list_add pos reverse) (map (\<lambda>n. unat (n + offset)) ns) h)"
  by (induction ns arbitrary: h) (auto simp: gather_node_def)

lemma llist_gather_eq:
  assumes "wfs_documented ops stack popped pending" "set (stack w) \<inter> ({0, CDS_WFS_WOULDBLOCK} \<union> pending w) = {}"
    and "length (stack w) \<le> fuel"
  shows "\<exists>w'. llist_del_all_reverse_add_tail ops fuel reverse list offset w h =
      Ret (heap_del_all_reverse_add_tail reverse list (map (\<lambda>n. unat (n + offset)) (stack w)) h, w') \<and>
    stack w' = [] \<and> pending w' = pending w"
proof -
  have z: "0 \<notin> set (stack w)" "- 1 \<notin> set (stack w)" "set (stack w) \<inter> pending w = {}" using assms(2) by auto
  obtain node w' where d: "llist_del_all ops w = (node, w')" by fastforce
  note e = llist_del_all_eq [OF assms(1) z(1) d]
  have "node = 0 \<longleftrightarrow> stack w = []" using e(3) z(1) by (cases "stack w") auto
  then show ?thesis
    using e(1,2) d run_each_gather [OF z(2)]
      llist_for_each_visits [OF assms(1) z(1,3) d assms(3), of "gather_node reverse offset" "INIT_LIST_HEAD reverse h"]
    by (auto simp: llist_del_all_reverse_add_tail_def heap_del_all_reverse_add_tail_def Let_def)
qed


text \<open>A push in flight breaks the gathering.  When the push of the node on top of the lockless list
  has not finished, the library answers the loop with the value for would block, which the loop
  takes for the address of the next node.\<close>

theorem llist_gather_push_in_flight:
  assumes "wfs_documented ops stack popped pending" "stack w = n # ns" "n \<in> pending w"
    and "n \<noteq> 0" "n \<noteq> CDS_WFS_WOULDBLOCK" "0 \<notin> set ns" "2 \<le> fuel"
  shows "llist_del_all_reverse_add_tail ops fuel reverse list offset w h = Undef"
proof -
  obtain node w' where d: "llist_del_all ops w = (node, w')" by fastforce
  have z: "0 \<notin> set (stack w)" using assms(2,4,6) by simp
  note e = llist_del_all_eq [OF assms(1) z d]
  have n: "node = n" "popped w' n = n # ns" "n \<in> pending w'" using e assms(2,3) by auto
  have "llist_for_each_next ops n w' = - 1" using wfsD(8) [OF assms(1) n(2,3)] by (simp add: llist_for_each_next_def)
  moreover obtain f where "fuel = Suc (Suc f)" using assms(7) by (metis add_2_eq_Suc le_Suc_ex)
  ultimately have "llist_for_each ops w' (gather_node reverse offset) fuel node h' = Undef" for h'
    using e(5) n(1) assms(4,5) by (simp add: llist_for_each_def gather_node_def)
  then show ?thesis using d n(1) assms(4) by (simp add: llist_del_all_reverse_add_tail_def)
qed

subsection \<open>A library that does what is documented\<close>

text \<open>The stack, the stack popped last and the pushes in flight.\<close>

definition example_wfs :: "(wptr list \<times> wptr list \<times> wptr list) wfs_ops" where
  "example_wfs = \<lparr>cds_wfs_init = (\<lambda>_. ([], [], [])), cds_wfs_node_init = (\<lambda>_ w. w),
     cds_wfs_empty = (\<lambda>(s, _). s = []), cds_wfs_push = (\<lambda>n (s, p, i). (s \<noteq> [], n # s, p, i)),
     cds_wfs_pop_all = (\<lambda>(s, p, i). (if s = [] then 0 else hd (remdups s), [], remdups s, i)),
     cds_wfs_first = (\<lambda>h (s, p, i). if h \<in> set p then h else 0),
     cds_wfs_next_nonblocking = (\<lambda>n (s, p, i). if n \<in> set i then - 1
       else case dropWhile (\<lambda>x. x \<noteq> n) (remdups p) of x # y # _ \<Rightarrow> y | _ \<Rightarrow> 0)\<rparr>"

definition example_stack :: "wptr list \<times> wptr list \<times> wptr list \<Rightarrow> wptr list" where
  "example_stack w = remdups (fst w)"

definition example_popped :: "wptr list \<times> wptr list \<times> wptr list \<Rightarrow> wptr \<Rightarrow> wptr list" where
  "example_popped w n = dropWhile (\<lambda>x. x \<noteq> n) (remdups (fst (snd w)))"

definition example_pending :: "wptr list \<times> wptr list \<times> wptr list \<Rightarrow> wptr set" where
  "example_pending w = set (snd (snd w))"

lemma dropWhile_tail:
  assumes "distinct xs" "dropWhile (\<lambda>x. x \<noteq> n) xs = n # rest" "rest \<noteq> []"
  shows "dropWhile (\<lambda>x. x \<noteq> hd rest) xs = rest"
proof -
  obtain ys where x: "xs = ys @ n # rest" by (metis assms(2) takeWhile_dropWhile_id)
  then have "hd rest \<notin> set (ys @ [n])" using assms(1,3) by (cases rest) auto
  then have "dropWhile (\<lambda>x. x \<noteq> hd rest) ((ys @ [n]) @ rest) = dropWhile (\<lambda>x. x \<noteq> hd rest) rest"
    by (intro dropWhile_append2) auto
  then show ?thesis using x assms(3) by (cases rest) auto
qed

lemma dropWhile_member:
  "n \<in> set xs \<Longrightarrow> \<exists>rest. dropWhile (\<lambda>x. x \<noteq> n) xs = n # rest" "n \<notin> set xs \<Longrightarrow> dropWhile (\<lambda>x. x \<noteq> n) xs = []"
  by (induction xs) auto

lemma example_wfs_documented: "wfs_documented example_wfs example_stack example_popped example_pending"
proof -
  note d = example_wfs_def example_stack_def example_popped_def example_pending_def
  have pop: "example_popped ([], remdups s, i) (if s = [] then 0 else hd (remdups s)) = remdups s" for s i
  proof -
    have "dropWhile (\<lambda>x. x \<noteq> (if xs = [] then 0 else hd xs)) (remdups xs) = xs" if "distinct xs" for xs :: "wptr list"
      using that by (cases xs) (simp_all add: distinct_remdups_id)
    from this [of "remdups s"] show ?thesis by (simp add: example_popped_def distinct_remdups_id)
  qed
  have tail: "dropWhile (\<lambda>x. x \<noteq> n) (remdups p) = n # rest \<Longrightarrow> rest \<noteq> [] \<Longrightarrow>
      dropWhile (\<lambda>x. x \<noteq> hd rest) (remdups p) = rest" for n p rest
    by (rule dropWhile_tail) auto
  have first: "(if h \<in> set p then h else 0) =
      (if example_popped (s, p, i) h = [] then 0 else hd (example_popped (s, p, i) h))"
    "example_popped (s, p, i) h \<noteq> [] \<Longrightarrow> hd (example_popped (s, p, i) h) = h" for s p i h
    using dropWhile_member [of h "remdups p"] by (cases "h \<in> set p"; auto simp: example_popped_def)+
  show ?thesis unfolding wfs_documented_def
  proof (intro conjI allI impI)
    fix n and w :: "wptr list \<times> wptr list \<times> wptr list" and rest
    obtain s p i where w: "w = (s, p, i)" by (cases w)
    show "example_stack (cds_wfs_init example_wfs w) = []" "example_pending (cds_wfs_init example_wfs w) = {}"
      "cds_wfs_empty example_wfs w \<longleftrightarrow> example_stack w = []" by (simp_all add: d w)
    show "case cds_wfs_push example_wfs n w of (r, w') \<Rightarrow> r = (example_stack w \<noteq> []) \<and>
        example_stack w' = n # example_stack w \<and> example_pending w' = example_pending w" if "n \<notin> set (example_stack w)"
      using that by (simp add: d w)
    have "cds_wfs_pop_all example_wfs w = (if s = [] then 0 else hd (remdups s), [], remdups s, i)"
      by (simp add: example_wfs_def w)
    then show "case cds_wfs_pop_all example_wfs w of (h, w') \<Rightarrow> example_stack w' = [] \<and>
        example_popped w' h = example_stack w \<and> example_pending w' = example_pending w"
      using pop [of s i] by (simp add: example_stack_def example_pending_def w)
    have "cds_wfs_first example_wfs n w = (if n \<in> set p then n else 0)" by (simp add: example_wfs_def w)
    then show "cds_wfs_first example_wfs n w = (if example_popped w n = [] then 0 else hd (example_popped w n))"
      unfolding w by (simp only: first(1))
    show "hd (example_popped w n) = n" if "example_popped w n \<noteq> []" using that first(2) unfolding w by blast
    show "if n \<in> example_pending w then cds_wfs_next_nonblocking example_wfs n w = CDS_WFS_WOULDBLOCK
        else cds_wfs_next_nonblocking example_wfs n w = (if rest = [] then 0 else hd rest) \<and>
          (rest \<noteq> [] \<longrightarrow> example_popped w (hd rest) = rest)" if p: "example_popped w n = n # rest"
    proof -
      have r: "dropWhile (\<lambda>x. x \<noteq> n) (remdups p) = n # rest" using p by (simp add: example_popped_def w)
      then show ?thesis using tail [OF r]
        by (cases rest) (simp_all add: example_wfs_def example_popped_def example_pending_def w)
    qed
  qed
qed


theorem llist_gather_push_in_flight_witness:
  "llist_del_all_reverse_add_tail example_wfs 2 9 1 8 ([48, 32], [], [48]) (INIT_LIST_HEAD 1 \<lparr>lnext = id, lprev = id\<rparr>) = Undef"
  using llist_gather_push_in_flight [OF example_wfs_documented, of "([48, 32], [], [48])" 48 "[32]"]
  by (simp add: example_stack_def example_pending_def)

end
