(* ===== verification/Lk_Jhash.thy ===== *)
theory Lk_Jhash
  imports Lk_Words
begin

text \<open>
  The Jenkins hash of \<open>shared/lk/jhash.h\<close>, which the hash tables of blocks and peers
  use.  A key is a byte string; its length is below \<open>2 ^ 32\<close>, the type of the
  \<open>length\<close> argument.
\<close>

unbundle bit_operations_syntax

definition jhash_size :: "nat \<Rightarrow> u32" where "jhash_size n = push_bit n 1"
definition jhash_mask :: "nat \<Rightarrow> u32" where "jhash_mask n = jhash_size n - 1"

text \<open>
  \<open>__jhash_mix\<close> and \<open>__jhash_final\<close>: the assignments in order.  Each line of
  \<open>__jhash_mix\<close> is the same three assignments with the variables in other roles.
\<close>

definition mix_line :: "u32 \<Rightarrow> u32 \<Rightarrow> u32 \<Rightarrow> u32 \<Rightarrow> u32 \<times> u32" where
  "mix_line a b c n =
     (let a = a - c; a = a XOR rol32 c n; c = c + b in (a, c))"

definition jhash_mix :: "u32 \<times> u32 \<times> u32 \<Rightarrow> u32 \<times> u32 \<times> u32" where
  "jhash_mix = (\<lambda>(a, b, c).
     let (a, c) = mix_line a b c 4;
         (b, a) = mix_line b c a 6;
         (c, b) = mix_line c a b 8;
         (a, c) = mix_line a b c 16;
         (b, a) = mix_line b c a 19;
         (c, b) = mix_line c a b 4
     in (a, b, c))"

definition jhash_final :: "u32 \<times> u32 \<times> u32 \<Rightarrow> u32 \<times> u32 \<times> u32" where
  "jhash_final = (\<lambda>(a, b, c).
     let c = c XOR b; c = c - rol32 b 14;
         a = a XOR c; a = a - rol32 c 11;
         b = b XOR a; b = b - rol32 a 25;
         c = c XOR b; c = c - rol32 b 16;
         a = a XOR c; a = a - rol32 c 4;
         b = b XOR a; b = b - rol32 a 14;
         c = c XOR b; c = c - rol32 b 24
     in (a, b, c))"

definition JHASH_INITVAL :: u32 where "JHASH_INITVAL = 0xdeadbeef"

text \<open>The word at byte \<open>i\<close> of the key, as \<open>__get_unaligned_cpu32\<close> loads it.\<close>

definition key_cpu32 :: "bool \<Rightarrow> u8 list \<Rightarrow> nat \<Rightarrow> u32" where
  "key_cpu32 lend k i = of_nat (le_num (if lend then take 4 (drop i k) else rev (take 4 (drop i k))))"

text \<open>The switch at the end: the cases fall through, so byte \<open>i\<close> is added when the length is more than \<open>i\<close>.\<close>

definition key_byte :: "u8 list \<Rightarrow> nat \<Rightarrow> nat \<Rightarrow> u32" where
  "key_byte k i sh = (if i < length k then push_bit sh (ucast (k ! i)) else 0)"

definition jhash_tail :: "u8 list \<Rightarrow> u32 \<times> u32 \<times> u32 \<Rightarrow> u32 \<times> u32 \<times> u32" where
  "jhash_tail k = (\<lambda>(a, b, c).
     let c = c + key_byte k 11 24; c = c + key_byte k 10 16; c = c + key_byte k 9 8; c = c + key_byte k 8 0;
         b = b + key_byte k 7 24; b = b + key_byte k 6 16; b = b + key_byte k 5 8; b = b + key_byte k 4 0;
         a = a + key_byte k 3 24; a = a + key_byte k 2 16; a = a + key_byte k 1 8; a = a + key_byte k 0 0
     in if length k > 0 then jhash_final (a, b, c) else (a, b, c))"

function jhash_loop :: "bool \<Rightarrow> u8 list \<Rightarrow> u32 \<times> u32 \<times> u32 \<Rightarrow> u32 \<times> u32 \<times> u32" where
  "jhash_loop lend k (a, b, c) =
     (if length k > 12
      then (let a = a + key_cpu32 lend k 0; b = b + key_cpu32 lend k 4; c = c + key_cpu32 lend k 8
            in jhash_loop lend (drop 12 k) (jhash_mix (a, b, c)))
      else jhash_tail k (a, b, c))"
  by pat_completeness auto
termination
  by (relation "measure (\<lambda>(lend, k, s). length k)") auto

definition jhash :: "bool \<Rightarrow> u8 list \<Rightarrow> u32 \<Rightarrow> u32" where
  "jhash lend key initval =
     (let s = JHASH_INITVAL + of_nat (length key) + initval
      in snd (snd (jhash_loop lend key (s, s, s))))"

definition jhash2_tail :: "u32 list \<Rightarrow> u32 \<times> u32 \<times> u32 \<Rightarrow> u32 \<times> u32 \<times> u32" where
  "jhash2_tail k = (\<lambda>(a, b, c).
     let c = (if length k > 2 then c + k ! 2 else c);
         b = (if length k > 1 then b + k ! 1 else b);
         a = (if length k > 0 then a + k ! 0 else a)
     in if length k > 0 then jhash_final (a, b, c) else (a, b, c))"

function jhash2_loop :: "u32 list \<Rightarrow> u32 \<times> u32 \<times> u32 \<Rightarrow> u32 \<times> u32 \<times> u32" where
  "jhash2_loop k (a, b, c) =
     (if length k > 3
      then (let a = a + k ! 0; b = b + k ! 1; c = c + k ! 2
            in jhash2_loop (drop 3 k) (jhash_mix (a, b, c)))
      else jhash2_tail k (a, b, c))"
  by pat_completeness auto
termination
  by (relation "measure (\<lambda>(k, s). length k)") auto

definition jhash2 :: "u32 list \<Rightarrow> u32 \<Rightarrow> u32" where
  "jhash2 k initval =
     (let s = JHASH_INITVAL + push_bit 2 (of_nat (length k)) + initval
      in snd (snd (jhash2_loop k (s, s, s))))"

definition jhash_nwords :: "u32 \<Rightarrow> u32 \<Rightarrow> u32 \<Rightarrow> u32 \<Rightarrow> u32" where
  "jhash_nwords a b c initval = snd (snd (jhash_final (a + initval, b + initval, c + initval)))"

definition jhash_3words :: "u32 \<Rightarrow> u32 \<Rightarrow> u32 \<Rightarrow> u32 \<Rightarrow> u32" where
  "jhash_3words a b c initval = jhash_nwords a b c (initval + JHASH_INITVAL + (push_bit 2 3))"
definition jhash_2words :: "u32 \<Rightarrow> u32 \<Rightarrow> u32 \<Rightarrow> u32" where
  "jhash_2words a b initval = jhash_nwords a b 0 (initval + JHASH_INITVAL + (push_bit 2 2))"
definition jhash_1word :: "u32 \<Rightarrow> u32 \<Rightarrow> u32" where
  "jhash_1word a initval = jhash_nwords a 0 0 (initval + JHASH_INITVAL + (push_bit 2 1))"

declare jhash_loop.simps [simp del] jhash2_loop.simps [simp del]

subsection \<open>Mixing loses nothing\<close>

text \<open>\<open>jhash_unmix\<close> undoes the lines of \<open>jhash_mix\<close> in reverse order.\<close>

definition unmix_line :: "u32 \<Rightarrow> u32 \<Rightarrow> u32 \<Rightarrow> u32 \<Rightarrow> u32 \<times> u32" where
  "unmix_line a b c n = (let c = c - b; a = a XOR rol32 c n in (a + c, c))"

definition jhash_unmix :: "u32 \<times> u32 \<times> u32 \<Rightarrow> u32 \<times> u32 \<times> u32" where
  "jhash_unmix = (\<lambda>(a, b, c).
     let (c, b) = unmix_line c a b 4;
         (b, a) = unmix_line b c a 19;
         (a, c) = unmix_line a b c 16;
         (c, b) = unmix_line c a b 8;
         (b, a) = unmix_line b c a 6;
         (a, c) = unmix_line a b c 4
     in (a, b, c))"

lemma xor_xor_cancel: "(x XOR y) XOR y = (x :: 'a :: len word)"
  by (simp add: ac_simps xor.assoc)

lemma unmix_mix_line: "mix_line a b c n = (a', c') \<Longrightarrow> unmix_line a' b c' n = (a, c)"
  by (auto simp: mix_line_def unmix_line_def Let_def xor_xor_cancel)

lemma mix_unmix_line: "unmix_line a b c n = (a', c') \<Longrightarrow> mix_line a' b c' n = (a, c)"
  by (auto simp: mix_line_def unmix_line_def Let_def xor_xor_cancel)

lemma jhash_unmix_mix: "jhash_unmix (jhash_mix s) = s"
  by (cases s) (auto simp: jhash_mix_def jhash_unmix_def dest!: unmix_mix_line split: prod.splits)

lemma jhash_mix_unmix: "jhash_mix (jhash_unmix s) = s"
  by (cases s) (auto simp: jhash_mix_def jhash_unmix_def dest!: mix_unmix_line split: prod.splits)

subsection \<open>Hashing bytes and hashing words\<close>

text \<open>The bytes of an array of words in memory.\<close>

definition words_bytes :: "u32 list \<Rightarrow> u8 list" where
  "words_bytes ws = concat (map (\<lambda>w. num_le 4 (unat w)) ws)"

lemma words_bytes_Cons [simp]: "words_bytes (w # ws) = num_le 4 (unat w) @ words_bytes ws"
  and words_bytes_Nil [simp]: "words_bytes [] = []"
  by (simp_all add: words_bytes_def)

lemma length_words_bytes [simp]: "length (words_bytes ws) = 4 * length ws"
  by (induction ws) simp_all

lemma key_cpu32_words:
  "key_cpu32 True (num_le 4 (unat x) @ k) 0 = x"
  "key_cpu32 True (num_le 4 (unat x) @ num_le 4 (unat y) @ k) 4 = y"
  "key_cpu32 True (num_le 4 (unat x) @ num_le 4 (unat y) @ num_le 4 (unat z) @ k) 8 = z"
  by (simp_all add: key_cpu32_def le_num_word)

lemma word_byte_sum:
  "(((c + push_bit 24 (ucast (word_byte x 3))) + push_bit 16 (ucast (word_byte x 2))) +
    push_bit 8 (ucast (word_byte x 1))) + push_bit 0 (ucast (word_byte x 0)) = c + (x :: u32)"
proof -
  have "x = of_nat (le_num (num_le 4 (unat x)))" by (simp add: le_num_word)
  also have "\<dots> = ucast (word_byte x 0) + 256 * (ucast (word_byte x 1) + 256 * (ucast (word_byte x 2) +
      256 * ucast (word_byte x 3)))"
    by (simp add: num_le_word_bytes upt_numerals del: One_nat_def)
  finally show ?thesis by (simp add: push_bit_eq_mult algebra_simps)
qed

lemma key_bytes_words:
  assumes "i < length ws"
  shows "((c + key_byte (words_bytes ws) (4 * i + 3) 24 + key_byte (words_bytes ws) (4 * i + 2) 16) +
    key_byte (words_bytes ws) (4 * i + 1) 8) + key_byte (words_bytes ws) (4 * i) 0 = c + ws ! i"
proof -
  have b: "words_bytes ws ! (4 * i + j) = word_byte (ws ! i) j" if "j < 4" for j
    using assms
  proof (induction ws arbitrary: i)
    case (Cons w ws)
    then show ?case using that by (cases i) (auto simp: nth_append num_le_word_bytes)
  qed simp
  show ?thesis using assms b [of 0] b [of 1] b [of 2] b [of 3] word_byte_sum [of c "ws ! i"]
    by (simp add: key_byte_def)
qed

lemma jhash_tail_words:
  assumes "length ws \<le> 3"
  shows "jhash_tail (words_bytes ws) s = jhash2_tail ws s"
proof -
  obtain a b c where s: "s = (a, b, c)" by (cases s)
  have n: "key_byte (words_bytes ws) j sh = 0" if "4 * length ws \<le> j" for j sh
    using that by (simp add: key_byte_def)
  have e: "key_byte [] j sh = 0" for j sh by (simp add: key_byte_def)
  note k = key_bytes_words [of 0 ws a] key_bytes_words [of 1 ws b] key_bytes_words [of 2 ws c]
  from assms consider "length ws = 0" | "length ws = 1" | "length ws = 2" | "length ws = 3" by linarith
  then show ?thesis
    by cases (use k in \<open>simp_all add: s jhash_tail_def jhash2_tail_def n e Let_def add.assoc numeral_2_eq_2\<close>)
qed

lemma jhash_loop_words: "jhash_loop True (words_bytes ws) s = jhash2_loop ws s"
proof (induction ws s rule: jhash2_loop.induct)
  case (1 k a b c)
  show ?case
  proof (cases "length k > 3")
    case True
    then obtain x y z ws where k: "k = x # y # z # ws" "ws \<noteq> []"
      by (cases k; cases "tl k"; cases "tl (tl k)") auto
    have d: "drop 12 (words_bytes k) = words_bytes ws" by (simp add: k)
    have "key_cpu32 True (words_bytes k) 0 = x" "key_cpu32 True (words_bytes k) 4 = y"
      "key_cpu32 True (words_bytes k) 8 = z" by (simp_all add: k key_cpu32_words)
    then show ?thesis using 1 True d
      by (subst jhash_loop.simps, subst jhash2_loop.simps) (simp add: k Let_def)
  next
    case False
    then show ?thesis
      by (subst jhash_loop.simps, subst jhash2_loop.simps) (simp add: jhash_tail_words)
  qed
qed

subsection \<open>Properties\<close>

text \<open>Mixing is reversible, as its comment says: \<open>__jhash_mix\<close> is a bijection of the
  three words, so a round of the hash loses nothing of its state.\<close>

theorem jhash_mix_bijective: "bij jhash_mix"
  by (rule o_bij [of jhash_unmix]) (simp_all add: fun_eq_iff jhash_unmix_mix jhash_mix_unmix)

text \<open>On a little-endian machine hashing an array of 32-bit words with \<open>jhash2\<close>
  gives the same value as hashing its bytes with \<open>jhash\<close>, and the functions for
  three, two and one words agree with both.\<close>

theorem jhash_words_agree:
  "jhash True (words_bytes ws) iv = jhash2 ws iv \<and>
   jhash2 [a, b, c] iv = jhash_3words a b c iv \<and>
   jhash2 [a, b] iv = jhash_2words a b iv \<and> jhash2 [a] iv = jhash_1word a iv"
proof -
  have "(of_nat (4 * length ws) :: u32) = push_bit 2 (of_nat (length ws))" by (simp add: push_bit_eq_mult)
  then have "jhash True (words_bytes ws) iv = jhash2 ws iv"
    unfolding jhash_def jhash2_def length_words_bytes jhash_loop_words by (simp only: Let_def)
  moreover have "jhash2 [a, b, c] iv = jhash_3words a b c iv" "jhash2 [a, b] iv = jhash_2words a b iv"
    "jhash2 [a] iv = jhash_1word a iv"
    by (simp_all add: jhash2_def jhash2_loop.simps jhash2_tail_def jhash_3words_def jhash_2words_def
        jhash_1word_def jhash_nwords_def Let_def ac_simps)
  ultimately show ?thesis by blast
qed

end
