(* ===== verification/Lk_Rhashtable.thy ===== *)
theory Lk_Rhashtable
  imports Lk_Jhash "HOL-Library.Multiset"
begin

text \<open>
  The hash tables of \<open>shared/lk/rhashtable.c\<close>, which wrap the lock free hash table of liburcu.
  Pointers are addresses and 0 is null.  The functions of the library are a record of functions on
  its table; what its documentation says of them is stated as \<open>lfht_documented\<close>.
\<close>

type_synonym ptr = u64

record rhashtable_params =
  key_len :: u16
  key_offset :: u16
  head_offset :: u16

text \<open>A lookup and an addition get the hash and the match function; null is 0.\<close>

record 'h lfht_ops =
  cds_lfht_new :: "'h option"
  cds_lfht_lookup :: "u64 \<Rightarrow> (ptr \<Rightarrow> bool) \<Rightarrow> 'h \<Rightarrow> ptr"
  cds_lfht_add_unique :: "u64 \<Rightarrow> (ptr \<Rightarrow> bool) \<Rightarrow> ptr \<Rightarrow> 'h \<Rightarrow> ptr \<times> 'h"
  cds_lfht_del :: "ptr \<Rightarrow> 'h \<Rightarrow> 'h"
  cds_lfht_each :: "'h \<Rightarrow> ptr list"

record 'h rhashtable =
  lfht :: "'h option"
  ht_params :: rhashtable_params

subsection \<open>rhashtable.c\<close>

text \<open>The node is the only member of the head.\<close>

definition head_to_node :: "ptr \<Rightarrow> ptr" where
  "head_to_node head = head"

definition node_to_head :: "ptr \<Rightarrow> ptr" where
  "node_to_head node = node"

definition head_to_obj :: "rhashtable_params \<Rightarrow> ptr \<Rightarrow> ptr" where
  "head_to_obj params head = (if head \<noteq> 0 then head - ucast (head_offset params) else 0)"

definition head_to_key :: "rhashtable_params \<Rightarrow> ptr \<Rightarrow> ptr" where
  "head_to_key params head = (if head \<noteq> 0 then head_to_obj params head + ucast (key_offset params) else 0)"

definition node_to_obj :: "rhashtable_params \<Rightarrow> ptr \<Rightarrow> ptr" where
  "node_to_obj params node = head_to_obj params (node_to_head node)"

definition node_to_key :: "rhashtable_params \<Rightarrow> ptr \<Rightarrow> ptr" where
  "node_to_key params node = head_to_key params (node_to_head node)"

definition key_bytes :: "(ptr \<Rightarrow> u8) \<Rightarrow> rhashtable_params \<Rightarrow> ptr \<Rightarrow> u8 list" where
  "key_bytes m params p = map (\<lambda>i. m (p + of_nat i)) [0..<unat (key_len params)]"

definition match_node_key :: "(ptr \<Rightarrow> u8) \<Rightarrow> rhashtable_params \<Rightarrow> u8 list \<Rightarrow> ptr \<Rightarrow> bool" where
  "match_node_key m params key node \<longleftrightarrow> key_bytes m params (node_to_key params node) = key"

definition key_hash :: "bool \<Rightarrow> u8 list \<Rightarrow> u64" where
  "key_hash lend key = ucast (jhash lend key 0)"

definition rhashtable_lookup ::
    "'h lfht_ops \<Rightarrow> bool \<Rightarrow> (ptr \<Rightarrow> u8) \<Rightarrow> 'h rhashtable \<Rightarrow> u8 list \<Rightarrow> rhashtable_params \<Rightarrow> ptr run" where
  "rhashtable_lookup ops lend m ht key params =
     (case lfht ht of
        None \<Rightarrow> Undef
      | Some l \<Rightarrow>
          Ret (node_to_obj params (cds_lfht_lookup ops (key_hash lend key) (match_node_key m params key) l)))"

definition rhashtable_lookup_get_insert_fast ::
    "'h lfht_ops \<Rightarrow> bool \<Rightarrow> (ptr \<Rightarrow> u8) \<Rightarrow> 'h rhashtable \<Rightarrow> ptr \<Rightarrow> rhashtable_params \<Rightarrow> (ptr \<times> 'h rhashtable) run" where
  "rhashtable_lookup_get_insert_fast ops lend m ht head params =
     (case lfht ht of
        None \<Rightarrow> Undef
      | Some l \<Rightarrow>
          (let node = head_to_node head;
               key = key_bytes m params (head_to_key params head);
               (existing, l) = cds_lfht_add_unique ops (key_hash lend key) (match_node_key m params key) node l;
               ht = ht\<lparr>lfht := Some l\<rparr>
           in Ret (if existing \<noteq> node then node_to_obj params existing else 0, ht)))"

definition rhashtable_init :: "'h lfht_ops \<Rightarrow> rhashtable_params \<Rightarrow> int \<times> 'h rhashtable" where
  "rhashtable_init ops params =
     (let ht = \<lparr>lfht = cds_lfht_new ops, ht_params = params\<rparr>
      in if lfht ht = None then (- ENOMEM, ht) else (0, ht))"

definition rhashtable_destroy :: "'h rhashtable \<Rightarrow> 'h rhashtable" where
  "rhashtable_destroy ht = ht\<lparr>lfht := None\<rparr>"

text \<open>The loop over the nodes with the caller's function, which is called on the objects.\<close>

primrec rht_free_each ::
    "'h lfht_ops \<Rightarrow> (ptr \<Rightarrow> 's \<Rightarrow> 's) option \<Rightarrow> rhashtable_params \<Rightarrow> ptr list \<Rightarrow> 'h \<Rightarrow> 's \<Rightarrow> 'h \<times> 's" where
  "rht_free_each ops free_fn params [] l s = (l, s)"
| "rht_free_each ops free_fn params (node # nodes) l s =
     (let l = cds_lfht_del ops node l;
          s = (case free_fn of Some f \<Rightarrow> f (head_to_obj params (node_to_head node)) s | None \<Rightarrow> s)
      in rht_free_each ops free_fn params nodes l s)"

definition rhashtable_free_and_destroy ::
    "'h lfht_ops \<Rightarrow> (ptr \<Rightarrow> 's \<Rightarrow> 's) option \<Rightarrow> 'h rhashtable \<Rightarrow> 's \<Rightarrow> 'h rhashtable \<times> 's" where
  "rhashtable_free_and_destroy ops free_fn ht s =
     (case lfht ht of
        None \<Rightarrow> (ht, s)
      | Some l \<Rightarrow>
          (let (l, s) = rht_free_each ops free_fn (ht_params ht) (cds_lfht_each ops l) l s
           in (rhashtable_destroy (ht\<lparr>lfht := Some l\<rparr>), s)))"

subsection \<open>What liburcu documents\<close>

text \<open>
  \<open>nodes l\<close> are the hashes and nodes in the table.  A lookup gives a node of the hash that
  matches, or null when there is none; an addition gives such a node and changes nothing, or adds
  the new node and gives it back; a new table is empty, and the loop visits every node.
\<close>

definition lfht_documented :: "'h lfht_ops \<Rightarrow> ('h \<Rightarrow> (u64 \<times> ptr) list) \<Rightarrow> bool" where
  "lfht_documented ops nodes \<longleftrightarrow>
     (\<forall>h m l. if \<exists>n. (h, n) \<in> set (nodes l) \<and> m n
        then (h, cds_lfht_lookup ops h m l) \<in> set (nodes l) \<and> m (cds_lfht_lookup ops h m l)
        else cds_lfht_lookup ops h m l = 0) \<and>
     (\<forall>h m node l. case cds_lfht_add_unique ops h m node l of (r, l') \<Rightarrow>
        if \<exists>n. (h, n) \<in> set (nodes l) \<and> m n
        then (h, r) \<in> set (nodes l) \<and> m r \<and> nodes l' = nodes l
        else r = node \<and> mset (nodes l') = add_mset (h, node) (mset (nodes l))) \<and>
     (\<forall>l. cds_lfht_new ops = Some l \<longrightarrow> nodes l = []) \<and>
     (\<forall>l. mset (cds_lfht_each ops l) = mset (map snd (nodes l)))"

subsection \<open>The table as a map\<close>

text \<open>
  Every node in the table is not null and is under the hash of its key, and no two nodes have
  the same key; the map takes a key to the object around its node.
\<close>

definition node_key :: "(ptr \<Rightarrow> u8) \<Rightarrow> rhashtable_params \<Rightarrow> ptr \<Rightarrow> u8 list" where
  "node_key m params n = key_bytes m params (node_to_key params n)"

definition rht_ok :: "bool \<Rightarrow> (ptr \<Rightarrow> u8) \<Rightarrow> rhashtable_params \<Rightarrow> (u64 \<times> ptr) list \<Rightarrow> bool" where
  "rht_ok lend m params ns \<longleftrightarrow> distinct (map (node_key m params \<circ> snd) ns) \<and>
     list_all (\<lambda>(h, n). n \<noteq> 0 \<and> h = key_hash lend (node_key m params n)) ns"

definition rht_map :: "(ptr \<Rightarrow> u8) \<Rightarrow> rhashtable_params \<Rightarrow> (u64 \<times> ptr) list \<Rightarrow> u8 list \<Rightarrow> ptr option" where
  "rht_map m params ns = map_of (map (\<lambda>(h, n). (node_key m params n, node_to_obj params n)) ns)"

lemma match_node_key_eq: "match_node_key m params key n \<longleftrightarrow> node_key m params n = key"
  by (simp add: match_node_key_def node_key_def)

lemma rht_map_Some:
  assumes "rht_ok lend m params ns" "(h, n) \<in> set ns"
  shows "rht_map m params ns (node_key m params n) = Some (node_to_obj params n)"
proof -
  have "distinct (map fst (map (\<lambda>(h, n). (node_key m params n, node_to_obj params n)) ns))"
    using assms(1) by (simp add: rht_ok_def comp_def case_prod_beta)
  then show ?thesis using assms(2) unfolding rht_map_def by (force intro: map_of_is_SomeI)
qed

lemma rht_map_None: "rht_map m params ns key = None \<longleftrightarrow> (\<forall>(h, n) \<in> set ns. node_key m params n \<noteq> key)"
  by (force simp: rht_map_def map_of_eq_None_iff)

lemma rht_ok_hash: "rht_ok lend m params ns \<Longrightarrow> (h, n) \<in> set ns \<Longrightarrow> h = key_hash lend (node_key m params n)"
  by (auto simp: rht_ok_def list_all_iff)

lemma rht_exists_iff:
  assumes "rht_ok lend m params ns"
  shows "(\<exists>n. (key_hash lend key, n) \<in> set ns \<and> match_node_key m params key n) \<longleftrightarrow> rht_map m params ns key \<noteq> None"
  using rht_ok_hash [OF assms] by (auto simp: rht_map_None match_node_key_eq)

lemma rht_ok_mset:
  assumes "mset ns' = add_mset (key_hash lend (node_key m params n), n) (mset ns)" "rht_ok lend m params ns"
    "rht_map m params ns (node_key m params n) = None" "n \<noteq> 0"
  shows "rht_ok lend m params ns' \<and>
    rht_map m params ns' = (rht_map m params ns)(node_key m params n \<mapsto> node_to_obj params n)"
proof -
  let ?N = "(key_hash lend (node_key m params n), n) # ns"
  have p: "mset ns' = mset ?N" using assms(1) by simp
  have N: "rht_ok lend m params ?N"
    using assms(2-4) by (auto simp: rht_ok_def rht_map_None)
  have s: "set ns' = set ?N" using p by (rule mset_eq_setD)
  have "mset (map (node_key m params \<circ> snd) ns') = mset (map (node_key m params \<circ> snd) ?N)"
    using p by (metis mset_map)
  then have "distinct (map (node_key m params \<circ> snd) ns')"
    using N mset_eq_imp_distinct_iff unfolding rht_ok_def by blast
  then have ok: "rht_ok lend m params ns'" using N s by (simp add: rht_ok_def list_all_iff)
  have "rht_map m params ns' k = rht_map m params ?N k" for k
  proof (cases "rht_map m params ?N k")
    case None
    then have "rht_map m params ns' k = None" using s unfolding rht_map_None by simp
    then show ?thesis using None by simp
  next
    case (Some ob)
    then obtain h i where i: "(h, i) \<in> set ?N" "node_key m params i = k"
      using rht_map_None [of m params ?N k] by auto
    then show ?thesis using rht_map_Some [OF N i(1)] rht_map_Some [OF ok, of h i] s by simp
  qed
  then show ?thesis using ok by (auto simp: rht_map_def)
qed

subsection \<open>Properties\<close>

lemma lfht_lookupD:
  assumes "lfht_documented ops nodes" "rht_ok lend m params (nodes l)"
  shows "node_to_obj params (cds_lfht_lookup ops (key_hash lend key) (match_node_key m params key) l) =
    (case rht_map m params (nodes l) key of Some obj \<Rightarrow> obj | None \<Rightarrow> 0)"
proof -
  let ?r = "cds_lfht_lookup ops (key_hash lend key) (match_node_key m params key) l"
  have d: "if \<exists>n. (key_hash lend key, n) \<in> set (nodes l) \<and> match_node_key m params key n
      then (key_hash lend key, ?r) \<in> set (nodes l) \<and> match_node_key m params key ?r else ?r = 0"
    using assms(1) unfolding lfht_documented_def by blast
  show ?thesis
  proof (cases "rht_map m params (nodes l) key")
    case None
    then have "?r = 0" using d rht_exists_iff [OF assms(2), of key] by simp
    then show ?thesis using None by (simp add: node_to_obj_def head_to_obj_def node_to_head_def)
  next
    case (Some obj)
    then have "(key_hash lend key, ?r) \<in> set (nodes l)" "node_key m params ?r = key"
      using d rht_exists_iff [OF assms(2), of key] by (simp_all add: match_node_key_eq)
    then show ?thesis using rht_map_Some [OF assms(2)] Some by fastforce
  qed
qed

text \<open>C22: On a library that does what liburcu documents, a hash table is a map from the bytes of the
  keys to objects.  A lookup gives the object of the key or null.  An insertion of an object
  whose key is present gives the present object, or null when that is the inserted object itself,
  and changes nothing; otherwise it gives null and adds
  exactly that binding; both keep the table consistent.\<close>

theorem rhashtable_refines_map:
  assumes "lfht_documented ops nodes" "lfht ht = Some l" "rht_ok lend m params (nodes l)" "head \<noteq> 0"
  shows "rhashtable_lookup ops lend m ht key params =
      Ret (case rht_map m params (nodes l) key of Some obj \<Rightarrow> obj | None \<Rightarrow> 0) \<and>
    (\<exists>r ht' l'. rhashtable_lookup_get_insert_fast ops lend m ht head params = Ret (r, ht') \<and> lfht ht' = Some l' \<and>
       rht_ok lend m params (nodes l') \<and>
       (case rht_map m params (nodes l) (node_key m params head) of
          Some obj \<Rightarrow> (r = obj \<or> r = 0 \<and> obj = node_to_obj params head) \<and> rht_map m params (nodes l') = rht_map m params (nodes l)
        | None \<Rightarrow> r = 0 \<and> rht_map m params (nodes l') =
            (rht_map m params (nodes l))(node_key m params head \<mapsto> node_to_obj params head)))"
proof -
  let ?k = "node_key m params head"
  have k: "key_bytes m params (head_to_key params head) = ?k"
    by (simp add: node_key_def node_to_key_def node_to_head_def)
  obtain r l' where a: "cds_lfht_add_unique ops (key_hash lend ?k) (match_node_key m params ?k) head l = (r, l')"
    by fastforce
  have all: "\<forall>h m node l. case cds_lfht_add_unique ops h m node l of (r, l') \<Rightarrow>
        if \<exists>n. (h, n) \<in> set (nodes l) \<and> m n
        then (h, r) \<in> set (nodes l) \<and> m r \<and> nodes l' = nodes l
        else r = node \<and> mset (nodes l') = add_mset (h, node) (mset (nodes l))"
    using assms(1) unfolding lfht_documented_def by (elim conjE)
  from spec [OF spec [OF spec [OF spec [OF all, of "key_hash lend ?k"], of "match_node_key m params ?k"], of head], of l]
  have d: "if rht_map m params (nodes l) ?k \<noteq> None
      then (key_hash lend ?k, r) \<in> set (nodes l) \<and> match_node_key m params ?k r \<and> nodes l' = nodes l
      else r = head \<and> mset (nodes l') = add_mset (key_hash lend ?k, head) (mset (nodes l))"
    unfolding rht_exists_iff [OF assms(3)] a prod.case .
  have i: "rhashtable_lookup_get_insert_fast ops lend m ht head params =
      Ret (if r \<noteq> head then node_to_obj params r else 0, ht\<lparr>lfht := Some l'\<rparr>)"
    using assms(2) a k by (simp add: rhashtable_lookup_get_insert_fast_def head_to_node_def)
  have "\<exists>r ht' l'. rhashtable_lookup_get_insert_fast ops lend m ht head params = Ret (r, ht') \<and> lfht ht' = Some l' \<and>
       rht_ok lend m params (nodes l') \<and>
       (case rht_map m params (nodes l) ?k of
          Some obj \<Rightarrow> (r = obj \<or> r = 0 \<and> obj = node_to_obj params head) \<and> rht_map m params (nodes l') = rht_map m params (nodes l)
        | None \<Rightarrow> r = 0 \<and> rht_map m params (nodes l') = (rht_map m params (nodes l))(?k \<mapsto> node_to_obj params head))"
  proof (cases "rht_map m params (nodes l) ?k")
    case None
    then have "r = head" "mset (nodes l') = add_mset (key_hash lend ?k, head) (mset (nodes l))" using d by simp_all
    then show ?thesis using None i rht_ok_mset [OF _ assms(3) None assms(4)] by simp
  next
    case (Some obj)
    then have r: "(key_hash lend ?k, r) \<in> set (nodes l)" "node_key m params r = ?k" "nodes l' = nodes l"
      using d by (simp_all add: match_node_key_eq)
    then have "obj = node_to_obj params r" using rht_map_Some [OF assms(3) r(1)] Some by simp
    then show ?thesis using Some i r(3) assms(3) by auto
  qed
  then show ?thesis using lfht_lookupD [OF assms(1,3)] assms(2) by (simp add: rhashtable_lookup_def)
qed

text \<open>A table of the library as a list, and an object at address 64 with its head and key at offset 8 and 0.\<close>

definition list_lfht :: "(u64 \<times> ptr) list lfht_ops" where
  "list_lfht = \<lparr>cds_lfht_new = Some [],
     cds_lfht_lookup = (\<lambda>h m l. case find (\<lambda>(h', n). h' = h \<and> m n) l of Some (_, n) \<Rightarrow> n | None \<Rightarrow> 0),
     cds_lfht_add_unique = (\<lambda>h m node l. case find (\<lambda>(h', n). h' = h \<and> m n) l of Some (_, n) \<Rightarrow> (n, l) | None \<Rightarrow> (node, (h, node) # l)),
     cds_lfht_del = (\<lambda>n l. filter (\<lambda>(_, n'). n' \<noteq> n) l), cds_lfht_each = map snd\<rparr>"

lemma list_lfht_documented: "lfht_documented list_lfht id"
  by (auto simp: lfht_documented_def list_lfht_def find_None_iff find_Some_iff split: option.splits) (metis nth_mem)+

theorem rhashtable_refines_map_witness:
  "\<exists>ht' l'. rhashtable_lookup_get_insert_fast list_lfht True (\<lambda>_. 7) \<lparr>lfht = Some [], ht_params = \<lparr>key_len = 4, key_offset = 0, head_offset = 8\<rparr>\<rparr>
     72 \<lparr>key_len = 4, key_offset = 0, head_offset = 8\<rparr> = Ret (0, ht') \<and> lfht ht' = Some l' \<and>
     rht_map (\<lambda>_. 7) \<lparr>key_len = 4, key_offset = 0, head_offset = 8\<rparr> l' [7, 7, 7, 7] = Some 64"
proof -
  let ?p = "\<lparr>key_len = 4, key_offset = 0, head_offset = 8\<rparr>" and ?m = "\<lambda>_. 7 :: u8"
  have "node_key ?m ?p 72 = [7, 7, 7, 7]"
    by (simp add: node_key_def key_bytes_def upt_rec)
  moreover have "node_to_obj ?p 72 = 64" by (simp add: node_to_obj_def head_to_obj_def node_to_head_def)
  moreover have "rht_ok True ?m ?p (id [])" "rht_map ?m ?p (id []) = (\<lambda>_. None)" by (simp_all add: rht_ok_def rht_map_def)
  ultimately show ?thesis
    using rhashtable_refines_map [OF list_lfht_documented, of "\<lparr>lfht = Some [], ht_params = ?p\<rparr>" "[]" True ?m ?p 72 "[]"]
    by (auto simp: fun_upd_def)
qed

end
