(* ===== verification/Lk_Wait.thy ===== *)
theory Lk_Wait
  imports Ngnfs_Prelude
begin

text \<open>
  Waiting and waking of \<open>shared/lk/wait.h\<close>, which every wait of the other components goes through.
  A thread is at one of the atomic steps of \<open>wait_event\<close> or \<open>wake_up\<close>; the kernel's futex compares
  the counter and puts the thread to sleep in one step.  Steps of different threads interleave in
  any order.  The condition of the wait belongs to the caller: a thread that may make it true
  calls \<open>wake_up\<close> afterwards, or the \<open>clear_bit_and_wake_up\<close> of \<open>shared/block.c\<close>, which looks for
  waiting threads before it calls \<open>wake_up\<close>.
\<close>

datatype wait_pc =
    Running
  | Wait_inc
  | Wait_read
  | Wait_test u32
  | Wait_futex u32
  | Asleep
  | Wait_dec
  | Wake_guard
  | Wake_inc
  | Wake_check
  | Wake_futex

text \<open>\<open>struct wait_queue_head\<close>, the condition and the threads; \<open>wakes\<close> counts the calls of \<open>wake_up\<close>.\<close>

record waitq =
  nr_waiting :: nat
  wake_counter :: u32
  condition :: bool
  pc :: "nat \<Rightarrow> wait_pc"
  wakes :: nat

definition init_waitqueue_head :: "bool \<Rightarrow> waitq" where
  "init_waitqueue_head c = \<lparr>nr_waiting = 0, wake_counter = 0, condition = c, pc = (\<lambda>_. Running), wakes = 0\<rparr>"

definition waitqueue_active :: "waitq \<Rightarrow> bool" where
  "waitqueue_active y \<longleftrightarrow> nr_waiting y \<noteq> 0"

definition goto :: "nat \<Rightarrow> wait_pc \<Rightarrow> waitq \<Rightarrow> waitq" where
  "goto t p y = y\<lparr>pc := (pc y)(t := p)\<rparr>"

text \<open>The steps of \<open>wait_event\<close>; the first is the test before anything else.\<close>

definition wait_event_enter :: "nat \<Rightarrow> waitq \<Rightarrow> waitq" where
  "wait_event_enter t y = (if condition y then y else goto t Wait_inc y)"

definition wait_event_step :: "nat \<Rightarrow> waitq \<Rightarrow> waitq" where
  "wait_event_step t y =
     (case pc y t of
        Wait_inc \<Rightarrow> goto t Wait_read (y\<lparr>nr_waiting := nr_waiting y + 1\<rparr>)
      | Wait_read \<Rightarrow> goto t (Wait_test (wake_counter y)) y
      | Wait_test ctr \<Rightarrow> goto t (if condition y then Wait_dec else Wait_futex ctr) y
      | Wait_futex ctr \<Rightarrow> goto t (if wake_counter y = ctr then Asleep else Wait_read) y
      | Wait_dec \<Rightarrow> goto t Running (y\<lparr>nr_waiting := nr_waiting y - 1\<rparr>)
      | _ \<Rightarrow> y)"

text \<open>The steps of \<open>wake_up\<close>; the last wakes every sleeping thread.\<close>

definition wake_up_step :: "nat \<Rightarrow> waitq \<Rightarrow> waitq" where
  "wake_up_step t y =
     (case pc y t of
        Wake_inc \<Rightarrow> goto t Wake_check (y\<lparr>wake_counter := wake_counter y + 1, wakes := wakes y + 1\<rparr>)
      | Wake_check \<Rightarrow> goto t (if nr_waiting y > 0 then Wake_futex else Running) y
      | Wake_futex \<Rightarrow> goto t Running (y\<lparr>pc := (\<lambda>s. if pc y s = Asleep then Wait_read else pc y s)\<rparr>)
      | _ \<Rightarrow> y)"

text \<open>\<open>clear_bit_and_wake_up\<close> after it has cleared a bit that was set: no wakeup when nobody waits.\<close>

definition clear_bit_and_wake_up_step :: "nat \<Rightarrow> waitq \<Rightarrow> waitq" where
  "clear_bit_and_wake_up_step t y =
     (case pc y t of
        Wake_guard \<Rightarrow> goto t (if waitqueue_active y then Wake_inc else Running) y
      | _ \<Rightarrow> y)"

text \<open>
  The interleavings: a thread enters a wait, changes the condition and goes on to wake with or
  without looking for waiting threads first, makes the condition false, is interrupted in its
  sleep, or makes its next step.
\<close>

inductive waitq_step :: "waitq \<Rightarrow> waitq \<Rightarrow> bool" where
  enter: "pc y t = Running \<Longrightarrow> waitq_step y (wait_event_enter t y)"
| change: "pc y t = Running \<Longrightarrow> waitq_step y (goto t Wake_inc (y\<lparr>condition := c\<rparr>))"
| change_guarded: "pc y t = Running \<Longrightarrow> waitq_step y (goto t Wake_guard (y\<lparr>condition := c\<rparr>))"
| clear: "waitq_step y (y\<lparr>condition := False\<rparr>)"
| interrupt: "pc y t = Asleep \<Longrightarrow> waitq_step y (goto t Wait_read y)"
| wait: "waitq_step y (wait_event_step t y)"
| wake: "waitq_step y (wake_up_step t y)"
| guard: "waitq_step y (clear_bit_and_wake_up_step t y)"

subsection \<open>The invariant\<close>

fun in_wait :: "wait_pc \<Rightarrow> bool" where
  "in_wait (Wait_test c) = True"
| "in_wait (Wait_futex c) = True"
| "in_wait p \<longleftrightarrow> p \<in> {Wait_read, Asleep, Wait_dec}"

definition in_wake :: "wait_pc \<Rightarrow> bool" where
  "in_wake p \<longleftrightarrow> p \<in> {Wake_guard, Wake_inc, Wake_check, Wake_futex}"

text \<open>The threads that have not incremented the counter yet.\<close>

definition wake_due :: "wait_pc \<Rightarrow> bool" where
  "wake_due p \<longleftrightarrow> p \<in> {Wake_guard, Wake_inc}"

lemmas wake_defs = in_wake_def wake_due_def

text \<open>The threads between their increment and decrement of \<open>nr_waiting\<close> are counted.\<close>

definition waiters_counted :: "waitq \<Rightarrow> bool" where
  "waiters_counted y \<longleftrightarrow> finite {t. in_wait (pc y t)} \<and> nr_waiting y = card {t. in_wait (pc y t)}"

text \<open>
  Counter values that threads hold were read before, and once the condition holds a thread that
  sleeps or is about to is still going to be woken.
\<close>

definition counters_read :: "waitq \<Rightarrow> bool" where
  "counters_read y \<longleftrightarrow> wake_counter y = of_nat (wakes y) \<and>
     (\<forall>t c. pc y t = Wait_test c \<or> pc y t = Wait_futex c \<longrightarrow> unat c \<le> wakes y)"

definition sleepers_covered :: "waitq \<Rightarrow> bool" where
  "sleepers_covered y \<longleftrightarrow> (condition y \<longrightarrow>
     ((\<exists>t. pc y t = Wait_futex (wake_counter y)) \<longrightarrow> (\<exists>w. wake_due (pc y w))) \<and>
     ((\<exists>t. pc y t = Asleep) \<longrightarrow> (\<exists>w. in_wake (pc y w))))"

definition waitq_inv :: "waitq \<Rightarrow> bool" where
  "waitq_inv y \<longleftrightarrow> waiters_counted y \<and> (wakes y < 2 ^ 32 \<longrightarrow> counters_read y \<and> sleepers_covered y)"

lemma goto_simps [simp]:
  "pc (goto t p y) s = (if s = t then p else pc y s)" "nr_waiting (goto t p y) = nr_waiting y"
  "wake_counter (goto t p y) = wake_counter y" "condition (goto t p y) = condition y" "wakes (goto t p y) = wakes y"
  by (simp_all add: goto_def)

lemma counted_goto:
  assumes "waiters_counted y" "pc y0 = pc y"
    "nr_waiting y0 = (if in_wait p \<and> \<not> in_wait (pc y t) then nr_waiting y + 1
       else if \<not> in_wait p \<and> in_wait (pc y t) then nr_waiting y - 1 else nr_waiting y)"
  shows "waiters_counted (goto t p y0)"
proof -
  let ?W = "{s. in_wait (pc y s)}"
  have "{s. in_wait (pc (goto t p y0) s)} = (if in_wait p then insert t ?W else ?W - {t})"
    using assms(2) by auto
  moreover have "finite ?W" "nr_waiting y = card ?W" using assms(1) by (auto simp: waiters_counted_def)
  ultimately show ?thesis using assms(3)
    by (auto simp: waiters_counted_def card_insert_if card_Diff_singleton_if)
qed

lemma counted_step: "waitq_step y y' \<Longrightarrow> waiters_counted y \<Longrightarrow> waiters_counted y'"
proof (induction rule: waitq_step.induct)
  case (enter y t)
  then show ?case by (auto simp: wait_event_enter_def intro!: counted_goto [of y])
next
  case (change y t c)
  then show ?case by (auto intro!: counted_goto [of y])
next
  case (change_guarded y t c)
  then show ?case by (auto intro!: counted_goto [of y])
next
  case (guard y t)
  then show ?case
    by (cases "pc y t") (auto simp: clear_bit_and_wake_up_step_def intro!: counted_goto [of y])
next
  case (clear y)
  then show ?case by (simp add: waiters_counted_def)
next
  case (interrupt y t)
  then show ?case by (auto intro!: counted_goto [of y])
next
  case (wait y t)
  then show ?case
    by (cases "pc y t") (auto simp: wait_event_step_def intro!: counted_goto [of y])
next
  case (wake y t)
  show ?case
  proof (cases "pc y t = Wake_futex")
    case True
    let ?y = "y\<lparr>pc := (\<lambda>s. if pc y s = Asleep then Wait_read else pc y s)\<rparr>"
    have "{s. in_wait (pc ?y s)} = {s. in_wait (pc y s)}" by auto
    then have "waiters_counted ?y" using wake by (simp add: waiters_counted_def)
    then have "waiters_counted (goto t Running ?y)" using True by (auto intro!: counted_goto [of ?y])
    then show ?thesis using True by (simp add: wake_up_step_def)
  next
    case False
    then show ?thesis using wake
      by (cases "pc y t") (auto simp: wake_up_step_def intro!: counted_goto [of y])
  qed
qed

lemma wakes_mono: "waitq_step y y' \<Longrightarrow> wakes y \<le> wakes y'"
  by (induction rule: waitq_step.induct)
    (auto simp: wait_event_enter_def wait_event_step_def wake_up_step_def clear_bit_and_wake_up_step_def
      split: wait_pc.split)

lemma counters_step:
  assumes "waitq_step y y'" "counters_read y" "wakes y' < 2 ^ 32"
  shows "counters_read y'"
proof -
  have c: "unat (wake_counter y) = wakes y" if "wakes y < 2 ^ 32"
    using assms(2) that by (simp add: counters_read_def unat_of_nat)
  show ?thesis using assms c wakes_mono [OF assms(1)]
  proof (induction rule: waitq_step.induct)
    case (wait y t)
    then show ?case
      by (cases "pc y t") (auto simp: wait_event_step_def counters_read_def split: if_splits)
  next
    case (wake y t)
    then show ?case
      by (cases "pc y t") (auto simp: wake_up_step_def counters_read_def le_SucI split: if_splits)
  next
    case (guard y t)
    then show ?case
      by (cases "pc y t") (auto simp: clear_bit_and_wake_up_step_def counters_read_def split: if_splits)
  qed (auto simp: wait_event_enter_def counters_read_def split: if_splits)
qed

lemma coveredD:
  assumes "sleepers_covered y" "condition y"
  shows "pc y t = Wait_futex (wake_counter y) \<Longrightarrow> \<exists>w. wake_due (pc y w)" "pc y t = Asleep \<Longrightarrow> \<exists>w. in_wake (pc y w)"
  using assms by (auto simp: sleepers_covered_def)

lemma coveredI:
  assumes "\<And>t. condition y \<Longrightarrow> pc y t = Wait_futex (wake_counter y) \<Longrightarrow> \<exists>w. wake_due (pc y w)"
    "\<And>t. condition y \<Longrightarrow> pc y t = Asleep \<Longrightarrow> \<exists>w. in_wake (pc y w)"
  shows "sleepers_covered y"
  using assms by (auto simp: sleepers_covered_def)

text \<open>A thread that is not waking moves on without going to sleep uncovered.\<close>

lemma covered_goto:
  assumes "sleepers_covered y" "\<not> in_wake (pc y t)"
    and "pc y0 = pc y" "condition y0 = condition y" "wake_counter y0 = wake_counter y"
    and "condition y \<Longrightarrow> p \<noteq> Wait_futex (wake_counter y)" "p = Asleep \<Longrightarrow> pc y t = Wait_futex (wake_counter y)"
  shows "sleepers_covered (goto t p y0)"
proof (rule coveredI)
  fix s assume c: "condition (goto t p y0)" and "pc (goto t p y0) s = Wait_futex (wake_counter (goto t p y0))"
  then have "pc y s = Wait_futex (wake_counter y)" using assms(3-6) by (auto split: if_splits)
  then obtain w where w: "wake_due (pc y w)" using coveredD(1) assms(1,4) c by auto
  then have "w \<noteq> t" using assms(2) by (auto simp: wake_defs)
  then show "\<exists>w. wake_due (pc (goto t p y0) w)" using w assms(3) by auto
next
  fix s assume c: "condition (goto t p y0)" and "pc (goto t p y0) s = Asleep"
  then have "pc y s = Asleep \<or> pc y t = Wait_futex (wake_counter y)" using assms(3,7) by (auto split: if_splits)
  then have "\<exists>w. in_wake (pc y w)" using coveredD assms(1,4) c by (fastforce simp: wake_defs)
  then obtain w where w: "in_wake (pc y w)" by blast
  then have "w \<noteq> t" using assms(2) by auto
  then show "\<exists>w. in_wake (pc (goto t p y0) w)" using w assms(3) by auto
qed

lemma covered_wait_step:
  assumes "sleepers_covered y"
  shows "sleepers_covered (wait_event_step t y)"
  using assms
  by (cases "pc y t") (auto simp: wait_event_step_def wake_defs intro!: covered_goto [of y])

lemma no_waiter: "waiters_counted y \<Longrightarrow> nr_waiting y = 0 \<Longrightarrow> \<not> in_wait (pc y s)"
  by (auto simp: waiters_counted_def)

lemma covered_none: "(\<And>s. \<not> in_wait (pc y s)) \<Longrightarrow> sleepers_covered y"
proof (rule coveredI)
  assume n: "\<And>s. \<not> in_wait (pc y s)"
  show "pc y t = Wait_futex (wake_counter y) \<Longrightarrow> \<exists>w. wake_due (pc y w)" "pc y t = Asleep \<Longrightarrow> \<exists>w. in_wake (pc y w)" for t
    using n [of t] by simp_all
qed

text \<open>A thread that finds nobody waiting leaves nobody asleep behind.\<close>

lemma covered_guard_step:
  assumes "sleepers_covered y" "waiters_counted y"
  shows "sleepers_covered (clear_bit_and_wake_up_step t y)"
proof -
  consider "pc y t \<noteq> Wake_guard" | "pc y t = Wake_guard" "waitqueue_active y" | "pc y t = Wake_guard" "nr_waiting y = 0"
    by (auto simp: waitqueue_active_def)
  then show ?thesis
  proof cases
    case 1
    then have "clear_bit_and_wake_up_step t y = y" by (cases "pc y t") (simp_all add: clear_bit_and_wake_up_step_def)
    then show ?thesis using assms(1) by simp
  next
    case 2
    then have "clear_bit_and_wake_up_step t y = goto t Wake_inc y" by (simp add: clear_bit_and_wake_up_step_def)
    moreover have "wake_due (pc (goto t Wake_inc y) t)" "in_wake (pc (goto t Wake_inc y) t)" by (simp_all add: wake_defs)
    ultimately show ?thesis by (metis coveredI)
  next
    case 3
    then have "clear_bit_and_wake_up_step t y = goto t Running y"
      by (simp add: clear_bit_and_wake_up_step_def waitqueue_active_def)
    then show ?thesis using no_waiter [OF assms(2) 3(2)] by (simp add: covered_none)
  qed
qed

lemma covered_wake_step:
  assumes "sleepers_covered y" "counters_read y" "waiters_counted y" "wakes (wake_up_step t y) < 2 ^ 32"
  shows "sleepers_covered (wake_up_step t y)"
proof (cases "pc y t")
  case Wake_inc
  let ?y = "y\<lparr>wake_counter := wake_counter y + 1, wakes := wakes y + 1\<rparr>"
  have w: "wakes y + 1 < 2 ^ 32" using assms(4) Wake_inc by (simp add: wake_up_step_def)
  have e: "wake_counter y + 1 = of_nat (wakes y + 1)" using assms(2) by (simp add: counters_read_def)
  have "unat (of_nat (wakes y + 1) :: u32) = (wakes y + 1) mod 2 ^ LENGTH(32)" by (rule unat_of_nat)
  also have "\<dots> = wakes y + 1" using w by (intro mod_less) simp
  finally have "unat (wake_counter y + 1) = wakes y + 1" unfolding e .
  then have "pc y s \<noteq> Wait_futex (wake_counter y + 1)" for s
    using assms(2) unfolding counters_read_def by (metis Suc_eq_plus1 not_less_eq_eq order_refl)
  then have "sleepers_covered (goto t Wake_check ?y)" by (intro coveredI) (auto simp: wake_defs split: if_splits)
  then show ?thesis using Wake_inc by (simp add: wake_up_step_def)
next
  case Wake_check
  have inc: "\<exists>w. w \<noteq> t \<and> wake_due (pc y w)" if c: "condition y" "pc y s = Wait_futex (wake_counter y)" for s
  proof -
    obtain w where w: "wake_due (pc y w)" using coveredD(1) [OF assms(1) c] by blast
    then have "w \<noteq> t" using Wake_check by (auto simp: wake_defs)
    then show ?thesis using w by (intro exI [of _ w]) simp
  qed
  show ?thesis
  proof (cases "nr_waiting y = 0")
    case True
    then show ?thesis using no_waiter [OF assms(3) True] Wake_check by (simp add: wake_up_step_def covered_none)
  next
    case False
    let ?y = "goto t Wake_futex y"
    have "sleepers_covered ?y"
    proof (rule coveredI)
      fix s assume c: "condition ?y" "pc ?y s = Wait_futex (wake_counter ?y)"
      then have "pc y s = Wait_futex (wake_counter y)" by (auto split: if_splits)
      then obtain w where "w \<noteq> t" "wake_due (pc y w)" using inc c(1) by auto
      then show "\<exists>w. wake_due (pc ?y w)" by (intro exI [of _ w]) simp
    next
      show "\<exists>w. in_wake (pc ?y w)" by (intro exI [of _ t]) (simp add: wake_defs)
    qed
    then show ?thesis using False Wake_check by (simp add: wake_up_step_def)
  qed
next
  case Wake_futex
  let ?y = "wake_up_step t y"
  have y: "pc ?y s = (if s = t then Running else if pc y s = Asleep then Wait_read else pc y s)"
    "condition ?y = condition y" "wake_counter ?y = wake_counter y" for s
    using Wake_futex by (simp_all add: wake_up_step_def)
  show ?thesis
  proof (rule coveredI)
    fix s assume c: "condition ?y" "pc ?y s = Wait_futex (wake_counter ?y)"
    then have "pc y s = Wait_futex (wake_counter y)" by (auto simp: y split: if_splits)
    then obtain w where w: "wake_due (pc y w)" using coveredD(1) [OF assms(1)] c(1) y(2) by auto
    then have "w \<noteq> t" using Wake_futex by (auto simp: wake_defs)
    then show "\<exists>w. wake_due (pc ?y w)" using w by (intro exI [of _ w]) (auto simp: y wake_defs)
  qed (auto simp: y split: if_splits)
qed (use assms(1) in \<open>simp_all add: wake_up_step_def\<close>)

lemma covered_step:
  assumes "waitq_step y y'" "sleepers_covered y" "counters_read y" "waiters_counted y" "wakes y' < 2 ^ 32"
  shows "sleepers_covered y'"
  using assms
proof (induction rule: waitq_step.induct)
  case (enter y t)
  then show ?case by (auto simp: wait_event_enter_def wake_defs intro!: covered_goto [of y])
next
  case (change y t c)
  have "pc (goto t Wake_inc (y\<lparr>condition := c\<rparr>)) t = Wake_inc" by simp
  then show ?case by (intro coveredI) (auto simp: wake_defs)
next
  case (change_guarded y t c)
  have "pc (goto t Wake_guard (y\<lparr>condition := c\<rparr>)) t = Wake_guard" by simp
  then show ?case by (intro coveredI) (auto simp: wake_defs)
next
  case (guard y t)
  then show ?case by (intro covered_guard_step)
next
  case (clear y)
  then show ?case by (simp add: sleepers_covered_def)
next
  case (interrupt y t)
  then show ?case by (auto simp: wake_defs intro!: covered_goto [of y])
next
  case (wait y t)
  then show ?case by (intro covered_wait_step)
next
  case (wake y t)
  then show ?case by (intro covered_wake_step)
qed

lemma waitq_step_inv: "waitq_inv y \<Longrightarrow> waitq_step y y' \<Longrightarrow> waitq_inv y'"
  using counted_step counters_step covered_step wakes_mono unfolding waitq_inv_def by (meson le_less_trans)

lemma init_waitqueue_inv: "waitq_inv (init_waitqueue_head c)"
  by (simp add: waitq_inv_def init_waitqueue_head_def waiters_counted_def counters_read_def sleepers_covered_def)

interpretation waits: invariant_system waitq_step waitq_inv "init_waitqueue_head c" for c
  using waitq_step_inv init_waitqueue_inv by unfold_locales

subsection \<open>Properties\<close>

text \<open>C21: No wakeup is missed.  In every interleaving of waiting and waking threads, with fewer than
  2^32 wakeups in all, once the condition holds and the threads that changed it have returned from
  \<open>wake_up\<close> or \<open>clear_bit_and_wake_up\<close>, no thread sleeps, and every thread in \<open>wait_event\<close> returns after at most four more steps
  of its own, if the condition stays true.\<close>

theorem no_missed_wakeup:
  assumes "reach waitq_step (init_waitqueue_head c) y" "wakes y < 2 ^ 32"
    and "condition y" "\<And>w. \<not> in_wake (pc y w)"
  shows "pc y t \<noteq> Asleep \<and> (\<exists>n \<le> 4. pc ((wait_event_step t ^^ n) y) t = Running)"
proof -
  have cov: "sleepers_covered y" using waits.reach_inv [OF assms(1)] assms(2) by (simp add: waitq_inv_def)
  have a: "pc y t \<noteq> Asleep" using coveredD(2) [OF cov assms(3)] assms(4) by blast
  have f: "pc y t \<noteq> Wait_futex (wake_counter y)"
    using coveredD(1) [OF cov assms(3)] assms(4) by (fastforce simp: wake_defs)
  have w: "\<not> in_wake (pc y t)" by (rule assms(4))
  have run: "pc ((wait_event_step t ^^ n) y) t = Running \<Longrightarrow> n \<le> 4 \<Longrightarrow> ?thesis" for n using a by blast
  show ?thesis
  proof (cases "pc y t")
    case Wait_inc
    then show ?thesis using assms(3) by (intro run [of 4]) (simp_all add: numeral_eq_Suc wait_event_step_def)
  next
    case Wait_read
    then show ?thesis using assms(3) by (intro run [of 3]) (simp_all add: numeral_eq_Suc wait_event_step_def)
  next
    case (Wait_test c)
    then show ?thesis using assms(3) by (intro run [of 2]) (simp_all add: numeral_eq_Suc wait_event_step_def)
  next
    case (Wait_futex c)
    then show ?thesis using assms(3) f by (intro run [of 4]) (simp_all add: numeral_eq_Suc wait_event_step_def)
  next
    case Wait_dec
    then show ?thesis by (intro run [of 1]) (simp_all add: wait_event_step_def)
  next
    case Running
    then show ?thesis by (intro run [of 0]) simp_all
  qed (use a w in \<open>simp_all add: wake_defs\<close>)
qed

text \<open>A thread goes to sleep, another makes the condition true and wakes it.\<close>

definition example_slept :: waitq where
  "example_slept = (wait_event_step 0 ^^ 4) (wait_event_enter 0 (init_waitqueue_head False))"

definition example_woken :: waitq where
  "example_woken = (wake_up_step 1 ^^ 3) (goto 1 Wake_inc (example_slept\<lparr>condition := True\<rparr>))"

theorem no_missed_wakeup_witness:
  "pc example_slept 0 = Asleep \<and> pc example_woken 0 \<noteq> Asleep \<and>
   (\<exists>n \<le> 4. pc ((wait_event_step 0 ^^ n) example_woken) 0 = Running)"
proof -
  have r: "reach waitq_step z y \<Longrightarrow> reach waitq_step z ((wait_event_step t ^^ n) y)"
    "reach waitq_step z y \<Longrightarrow> reach waitq_step z ((wake_up_step t ^^ n) y)" for z y t n
    by (induction n) (auto intro: reach.step waitq_step.intros)
  let ?i = "init_waitqueue_head False"
  have "pc ?i 0 = Running" by (simp add: init_waitqueue_head_def)
  then have e: "waitq_step ?i (wait_event_enter 0 ?i)" by (rule waitq_step.enter)
  have sl: "reach waitq_step ?i example_slept"
    unfolding example_slept_def by (rule r(1)) (rule reach.step [where step = waitq_step, OF reach.start e])
  have s: "pc example_slept 0 = Asleep" "pc example_slept 1 = Running" "wake_counter example_slept = 0"
    "wakes example_slept = 0" "nr_waiting example_slept = 1" "n > 0 \<Longrightarrow> pc example_slept n = Running" for n
    by (simp_all add: example_slept_def numeral_eq_Suc wait_event_step_def wait_event_enter_def init_waitqueue_head_def)
  have ch: "waitq_step example_slept (goto 1 Wake_inc (example_slept\<lparr>condition := True\<rparr>))"
    using s(2) by (rule waitq_step.change)
  have "reach waitq_step ?i example_woken"
    unfolding example_woken_def by (rule r(2)) (rule reach.step [where step = waitq_step, OF sl ch])
  moreover have w: "wakes example_woken = 1" "condition example_woken"
    "pc example_woken n = (if n = 0 then Wait_read else Running)" for n
    using s by (simp_all add: example_woken_def numeral_eq_Suc wake_up_step_def)
  moreover have "\<not> in_wake (pc example_woken n)" for n by (simp add: w in_wake_def)
  ultimately show ?thesis using no_missed_wakeup [of False example_woken 0] s(1) by simp
qed

end
