(* ===== verification/Lk_Workqueue.thy ===== *)
theory Lk_Workqueue
  imports Lk_Thread
begin

text \<open>
  The work queue of \<open>shared/lk/workqueue.c\<close>: a queue of works for one thread.  Works
  are numbers.  The wait free queue of liburcu is the list of the works in it, in the
  order they will be taken.
\<close>

datatype work_func = WORK_DESTROY_FUNC | Func nat

record work_struct =
  work_func :: work_func
  WORK_QUEUED :: bool

record workqueue_struct =
  wq_thr :: thread_state
  wq_queue :: "nat list"
  works :: "nat \<Rightarrow> work_struct"

text \<open>\<open>INIT_WORK\<close> sets the function only, the bit keeps what the memory held.\<close>

definition INIT_WORK :: "nat \<Rightarrow> work_func \<Rightarrow> workqueue_struct \<Rightarrow> workqueue_struct" where
  "INIT_WORK w f wq = wq\<lparr>works := (works wq)(w := (works wq w)\<lparr>work_func := f\<rparr>)\<rparr>"

definition queue_work :: "nat \<Rightarrow> workqueue_struct \<Rightarrow> bool \<times> workqueue_struct" where
  "queue_work w wq =
     (let newly_queued = \<not> WORK_QUEUED (works wq w);
          wq = wq\<lparr>works := (works wq)(w := (works wq w)\<lparr>WORK_QUEUED := True\<rparr>)\<rparr>
      in (newly_queued, if newly_queued then wq\<lparr>wq_queue := wq_queue wq @ [w]\<rparr> else wq))"

definition create_singlethread_workqueue :: "bool \<Rightarrow> int \<Rightarrow> (nat \<Rightarrow> work_struct) \<Rightarrow> workqueue_struct option" where
  "create_singlethread_workqueue mem_ok create_ret ws =
     (if \<not> mem_ok then None
      else
        (let (ret, thr) = thread_start create_ret thread_init
         in if ret < 0 then None else Some \<lparr>wq_thr = thr, wq_queue = [], works = ws\<rparr>))"

text \<open>
  \<open>workqueue_thread\<close>: where the thread is, and what it does from there.  A thread
  that is asked to return while it waits still takes the first work, and exits when
  there is none.
\<close>

datatype wq_loc = Wq_top | Wq_waiting | Wq_calling nat | Wq_exited

definition workqueue_thread_test :: "workqueue_struct \<Rightarrow> wq_loc" where
  "workqueue_thread_test wq = (if thread_should_return (wq_thr wq) then Wq_exited else Wq_waiting)"

definition workqueue_thread_awake :: "workqueue_struct \<Rightarrow> bool" where
  "workqueue_thread_awake wq \<longleftrightarrow> wq_queue wq \<noteq> [] \<or> thread_should_return (wq_thr wq)"

definition workqueue_thread_take :: "workqueue_struct \<Rightarrow> wq_loc \<times> workqueue_struct" where
  "workqueue_thread_take wq =
     (case wq_queue wq of
        [] \<Rightarrow> (Wq_exited, wq)
      | w # ws \<Rightarrow>
          (let wq = wq\<lparr>wq_queue := ws\<rparr>
           in case work_func (works wq w) of
                WORK_DESTROY_FUNC \<Rightarrow> (Wq_exited, wq)
              | Func f \<Rightarrow>
                  (Wq_calling w, wq\<lparr>works := (works wq)(w := (works wq w)\<lparr>WORK_QUEUED := False\<rparr>)\<rparr>)))"

text \<open>
  \<open>destroy_workqueue\<close>: queueing the dummy work \<open>d\<close> of its stack, asking the thread to
  return, and, once the thread has exited and is joined, the assertion.
\<close>

definition destroy_queue_dummy :: "nat \<Rightarrow> workqueue_struct \<Rightarrow> workqueue_struct" where
  "destroy_queue_dummy d wq = snd (queue_work d (INIT_WORK d WORK_DESTROY_FUNC wq))"

definition destroy_indicate :: "workqueue_struct \<Rightarrow> workqueue_struct" where
  "destroy_indicate wq = wq\<lparr>wq_thr := thread_stop_indicate (wq_thr wq)\<rparr>"

definition destroy_finish :: "workqueue_struct \<Rightarrow> workqueue_struct run" where
  "destroy_finish wq =
     bind_run (thread_stop_wait (wq_thr wq)) (\<lambda>thr.
       BUG_ON (wq_queue wq \<noteq> []) (Ret (wq\<lparr>wq_thr := thr\<rparr>)))"

subsection \<open>Interleavings\<close>

text \<open>
  A queue with its thread and any number of threads that queue works.  \<open>queued\<close> and
  \<open>called\<close> record the works newly queued and called so far.  \<open>destroying\<close> counts the
  steps of \<open>destroy_workqueue\<close>; its callers have stopped queueing.
\<close>

record wq_sys =
  wq :: workqueue_struct
  loc :: wq_loc
  queued :: "nat list"
  called :: "nat list"
  destroying :: nat

inductive wq_step :: "nat \<Rightarrow> wq_sys \<Rightarrow> wq_sys \<Rightarrow> bool" for d where
  queue: "destroying y = 0 \<Longrightarrow> w \<noteq> d \<Longrightarrow> queue_work w (wq y) = (new, q) \<Longrightarrow>
    wq_step d y (y\<lparr>wq := q, queued := queued y @ (if new then [w] else [])\<rparr>)"
| test: "loc y = Wq_top \<Longrightarrow> wq_step d y (y\<lparr>loc := workqueue_thread_test (wq y)\<rparr>)"
| take_work: "loc y = Wq_waiting \<Longrightarrow> workqueue_thread_awake (wq y) \<Longrightarrow>
    workqueue_thread_take (wq y) = (l, q) \<Longrightarrow>
    wq_step d y (y\<lparr>wq := q, loc := l, called := called y @ (case l of Wq_calling w \<Rightarrow> [w] | _ \<Rightarrow> [])\<rparr>)"
| return: "loc y = Wq_calling w \<Longrightarrow> wq_step d y (y\<lparr>loc := Wq_top\<rparr>)"
| destroy_queue: "destroying y = 0 \<Longrightarrow>
    wq_step d y (y\<lparr>wq := destroy_queue_dummy d (wq y), destroying := 1\<rparr>)"
| destroy_stop: "destroying y = 1 \<Longrightarrow> wq_step d y (y\<lparr>wq := destroy_indicate (wq y), destroying := 2\<rparr>)"

text \<open>The start: a new queue whose works are not queued and have a function.\<close>

definition wq_works_ok :: "nat \<Rightarrow> (nat \<Rightarrow> work_struct) \<Rightarrow> bool" where
  "wq_works_ok d ws \<longleftrightarrow> (\<forall>w. \<not> WORK_QUEUED (ws w) \<and> (w \<noteq> d \<longrightarrow> work_func (ws w) \<noteq> WORK_DESTROY_FUNC))"

definition wq_start :: "workqueue_struct \<Rightarrow> wq_sys" where
  "wq_start q = \<lparr>wq = q, loc = Wq_top, queued = [], called = [], destroying = 0\<rparr>"

text \<open>
  The invariant: the bit of a work says whether it is in the queue, the works newly
  queued are those called and then those in the queue, and the dummy is behind all of them.
\<close>

definition wq_bits :: "nat \<Rightarrow> workqueue_struct \<Rightarrow> bool" where
  "wq_bits d q \<longleftrightarrow> distinct (wq_queue q) \<and>
     (\<forall>w. w \<noteq> d \<longrightarrow> (WORK_QUEUED (works q w) \<longleftrightarrow> w \<in> set (wq_queue q)) \<and> work_func (works q w) \<noteq> WORK_DESTROY_FUNC) \<and>
     (d \<in> set (wq_queue q) \<longrightarrow> last (wq_queue q) = d \<and> work_func (works q d) = WORK_DESTROY_FUNC)"

definition wq_hist :: "nat \<Rightarrow> wq_sys \<Rightarrow> bool" where
  "wq_hist d y \<longleftrightarrow> queued y = called y @ filter (\<lambda>w. w \<noteq> d) (wq_queue (wq y))"

definition wq_phase :: "nat \<Rightarrow> wq_sys \<Rightarrow> bool" where
  "wq_phase d y \<longleftrightarrow>
     (if destroying y = 0 then d \<notin> set (wq_queue (wq y)) \<and> \<not> WORK_QUEUED (works (wq y) d) \<and> loc y \<noteq> Wq_exited
      else loc y = Wq_exited \<or> d \<in> set (wq_queue (wq y))) \<and>
     THR_CREATED (wq_thr (wq y)) \<and> thr_running (wq_thr (wq y)) \<and>
     (THR_SHOULD_RETURN (wq_thr (wq y)) \<longrightarrow> destroying y = 2) \<and>
     (loc y = Wq_exited \<longrightarrow> wq_queue (wq y) = [] \<or> d \<in> set (wq_queue (wq y)))"

definition wq_inv :: "nat \<Rightarrow> wq_sys \<Rightarrow> bool" where
  "wq_inv d y \<longleftrightarrow> wq_bits d (wq y) \<and> wq_hist d y \<and> wq_phase d y"

lemma wq_start_inv:
  "create_singlethread_workqueue True 0 ws = Some q \<Longrightarrow> wq_works_ok d ws \<Longrightarrow> wq_inv d (wq_start q)"
  by (auto simp: create_singlethread_workqueue_def thread_defs wq_inv_def wq_bits_def wq_hist_def wq_phase_def
      wq_start_def wq_works_ok_def split: if_splits)

lemma queue_work_cases:
  assumes "queue_work w q = (new, q')"
  obtains "WORK_QUEUED (works q w)" "\<not> new" "q' = q\<lparr>works := (works q)(w := (works q w)\<lparr>WORK_QUEUED := True\<rparr>)\<rparr>"
  | "\<not> WORK_QUEUED (works q w)" "new"
    "q' = q\<lparr>works := (works q)(w := (works q w)\<lparr>WORK_QUEUED := True\<rparr>), wq_queue := wq_queue q @ [w]\<rparr>"
  using assms by (cases "WORK_QUEUED (works q w)") (auto simp: queue_work_def Let_def)

lemma take_cases:
  assumes "workqueue_thread_take q = (l, q')"
  obtains "wq_queue q = []" "l = Wq_exited" "q' = q"
  | w ws where "wq_queue q = w # ws" "work_func (works q w) = WORK_DESTROY_FUNC" "l = Wq_exited"
    "q' = q\<lparr>wq_queue := ws\<rparr>"
  | w ws where "wq_queue q = w # ws" "work_func (works q w) \<noteq> WORK_DESTROY_FUNC" "l = Wq_calling w"
    "q' = q\<lparr>wq_queue := ws, works := (works q)(w := (works q w)\<lparr>WORK_QUEUED := False\<rparr>)\<rparr>"
  using assms by (auto simp: workqueue_thread_take_def Let_def split: list.splits work_func.splits)

lemma wq_inv_queue:
  assumes inv: "wq_inv d y" and q: "queue_work w (wq y) = (new, q)" and "w \<noteq> d" "destroying y = 0"
  shows "wq_inv d (y\<lparr>wq := q, queued := queued y @ (if new then [w] else [])\<rparr>)"
  using q
proof (cases rule: queue_work_cases)
  case 1
  then show ?thesis using inv \<open>w \<noteq> d\<close> by (auto simp: wq_inv_def wq_bits_def wq_hist_def wq_phase_def)
next
  case 2
  then have "w \<notin> set (wq_queue (wq y))" using inv \<open>w \<noteq> d\<close> by (simp add: wq_inv_def wq_bits_def)
  then show ?thesis using 2 inv \<open>w \<noteq> d\<close> \<open>destroying y = 0\<close>
    by (simp add: wq_inv_def wq_bits_def wq_hist_def wq_phase_def)
qed

lemma wq_inv_take:
  assumes inv: "wq_inv d y" and q: "workqueue_thread_take (wq y) = (l, q)"
    and loc: "loc y = Wq_waiting" "workqueue_thread_awake (wq y)"
  shows "wq_inv d (y\<lparr>wq := q, loc := l, called := called y @ (case l of Wq_calling w \<Rightarrow> [w] | _ \<Rightarrow> [])\<rparr>)"
  using q
proof (cases rule: take_cases)
  case 1
  then show ?thesis using inv loc
    by (auto simp: wq_inv_def wq_bits_def wq_hist_def wq_phase_def workqueue_thread_awake_def thread_should_return_def
        split: if_splits)
next
  case (2 w ws)
  then have w: "w = d" "d \<notin> set ws" using inv by (auto simp: wq_inv_def wq_bits_def)
  moreover have "last (w # ws) = d" using inv 2 w by (simp add: wq_inv_def wq_bits_def)
  ultimately have "ws = []" by (metis last_ConsR last_in_set)
  then show ?thesis using 2 inv loc w by (auto simp: wq_inv_def wq_bits_def wq_hist_def wq_phase_def split: if_splits)
next
  case (3 w ws)
  then have w: "w \<noteq> d" "w \<notin> set ws" using inv by (auto simp: wq_inv_def wq_bits_def)
  then show ?thesis using 3 inv loc
    by (auto simp: wq_inv_def wq_bits_def wq_hist_def wq_phase_def split: if_splits)
qed

lemma wq_step_inv: "wq_step d y y' \<Longrightarrow> wq_inv d y \<Longrightarrow> wq_inv d y'"
proof (induction rule: wq_step.induct)
  case (queue y w new q)
  then show ?case by (simp add: wq_inv_queue)
next
  case (test y)
  then show ?case
    by (auto simp: wq_inv_def wq_hist_def wq_phase_def workqueue_thread_test_def thread_should_return_def)
next
  case (take_work y l q)
  then show ?case by (simp add: wq_inv_take)
next
  case (return y w)
  then show ?case by (auto simp: wq_inv_def wq_hist_def wq_phase_def)
next
  case (destroy_queue y)
  then show ?case
    by (auto simp: wq_inv_def wq_bits_def wq_hist_def wq_phase_def destroy_queue_dummy_def INIT_WORK_def
        queue_work_def Let_def)
next
  case (destroy_stop y)
  then show ?case
    by (auto simp: wq_inv_def wq_bits_def wq_hist_def wq_phase_def destroy_indicate_def thread_stop_indicate_def)
qed

interpretation wqs: kept_system "wq_step d" "wq_inv d" for d
  by unfold_locales (auto intro: wq_step_inv)

subsection \<open>Properties\<close>

text \<open>C37: Works are called exactly once for every time they are newly queued and in that
  order, whatever the interleaving of the threads that queue with the thread of the
  queue; a work is queued at most once at a time; and when \<open>destroy_workqueue\<close> gets past
  its assertion every queued work has been called.\<close>

theorem workqueue_calls_in_order:
  assumes "create_singlethread_workqueue True 0 ws = Some q" "wq_works_ok d ws"
    and "reach (wq_step d) (wq_start q) y"
  shows "queued y = called y @ filter (\<lambda>w. w \<noteq> d) (wq_queue (wq y)) \<and>
    distinct (wq_queue (wq y)) \<and>
    (\<forall>w. w \<noteq> d \<longrightarrow> fst (queue_work w (wq y)) = (w \<notin> set (wq_queue (wq y)))) \<and>
    (\<forall>q'. destroy_finish (wq y) = Ret q' \<longrightarrow> called y = queued y)"
proof -
  have "wq_inv d y" using wqs.reach_keeps [OF assms(3)] wq_start_inv [OF assms(1,2)] by blast
  then show ?thesis
    by (auto simp: wq_inv_def wq_hist_def wq_bits_def queue_work_def Let_def destroy_finish_def run_simps)
qed

text \<open>A queue with one work that has been queued twice and called once.\<close>

definition example_works :: "nat \<Rightarrow> work_struct" where
  "example_works w = \<lparr>work_func = Func w, WORK_QUEUED = False\<rparr>"

definition example_wq :: workqueue_struct where
  "example_wq = \<lparr>wq_thr = \<lparr>THR_CREATED = True, THR_SHOULD_RETURN = False, thr_running = True\<rparr>, wq_queue = [],
     works = example_works\<rparr>"

lemma example_wq_created:
  "create_singlethread_workqueue True 0 example_works = Some example_wq" "wq_works_ok 9 example_works"
  by (simp_all add: create_singlethread_workqueue_def thread_defs example_wq_def wq_works_ok_def example_works_def)

text \<open>The state in which the thread is calling work 4.\<close>

definition example_calling :: wq_sys where
  "example_calling = \<lparr>wq = example_wq\<lparr>works := example_works(4 := (example_works 4)\<lparr>WORK_QUEUED := False\<rparr>)\<rparr>,
     loc = Wq_calling 4, queued = [4], called = [4], destroying = 0\<rparr>"

lemma example_calling_reach: "reach (wq_step 9) (wq_start example_wq) example_calling"
proof -
  let ?q1 = "snd (queue_work 4 example_wq)"
  let ?y1 = "\<lparr>wq = ?q1, loc = Wq_top, queued = [4], called = [], destroying = 0\<rparr>"
  let ?y2 = "?y1\<lparr>loc := Wq_waiting\<rparr>"
  have "wq_step 9 (wq_start example_wq) ?y1"
    using wq_step.queue [of "wq_start example_wq" 4 9 True ?q1]
    by (simp add: wq_start_def queue_work_def example_wq_def example_works_def Let_def)
  moreover have "wq_step 9 ?y1 ?y2"
    using wq_step.test [of ?y1 9]
    by (simp add: workqueue_thread_test_def queue_work_def example_wq_def example_works_def Let_def thread_should_return_def)
  moreover have "wq_step 9 ?y2 example_calling"
    using wq_step.take_work [of ?y2 "Wq_calling 4" "wq example_calling" 9]
    by (simp add: workqueue_thread_take_def workqueue_thread_awake_def queue_work_def example_wq_def example_works_def
        Let_def example_calling_def)
  ultimately show ?thesis by (meson reach.intros)
qed

theorem workqueue_calls_in_order_witness:
  "queued example_calling = called example_calling @ filter (\<lambda>w. w \<noteq> 9) (wq_queue (wq example_calling)) \<and>
   fst (queue_work 4 (wq example_calling))"
  using workqueue_calls_in_order [OF example_wq_created example_calling_reach]
  by (simp add: example_calling_def example_wq_def)

text \<open>\<open>destroy_workqueue\<close> aborts when the thread is calling a work: the thread sees
  that it should return before it takes the dummy work, which is left in the queue.
  While the thread waits with nothing queued it takes the dummy and the queue is destroyed.\<close>

theorem workqueue_destroy_outcomes:
  assumes "create_singlethread_workqueue True 0 ws = Some q" "wq_works_ok d ws"
    and "reach (wq_step d) (wq_start q) y" "destroying y = 0"
  defines "q2 \<equiv> destroy_indicate (destroy_queue_dummy d (wq y))"
  shows "(\<forall>w. loc y = Wq_calling w \<longrightarrow>
      reach (wq_step d) (wq_start q) (y\<lparr>wq := q2, destroying := 2, loc := Wq_exited\<rparr>) \<and> destroy_finish q2 = Bug) \<and>
    (loc y = Wq_waiting \<and> wq_queue (wq y) = [] \<longrightarrow>
      (\<exists>q3 q4. workqueue_thread_take q2 = (Wq_exited, q3) \<and> destroy_finish q3 = Ret q4))"
proof -
  have inv: "wq_inv d y" using wqs.reach_keeps [OF assms(3)] wq_start_inv [OF assms(1,2)] by blast
  then have d: "\<not> WORK_QUEUED (works (wq y) d)" using assms(4) by (simp add: wq_inv_def wq_phase_def)
  have thr: "THR_CREATED (wq_thr (wq y)) \<and> thr_running (wq_thr (wq y))" using inv by (simp add: wq_inv_def wq_phase_def)
  have q2: "wq_queue q2 = wq_queue (wq y) @ [d]" "work_func (works q2 d) = WORK_DESTROY_FUNC"
    "wq_thr q2 = (wq_thr (wq y))\<lparr>THR_SHOULD_RETURN := True\<rparr>"
    using d by (simp_all add: q2_def destroy_indicate_def destroy_queue_dummy_def INIT_WORK_def queue_work_def Let_def
        thread_stop_indicate_def)
  have fin: "destroy_finish q2 = Bug" using q2 thr by (simp add: destroy_finish_def thread_defs)
  let ?y2 = "y\<lparr>wq := q2, destroying := 2\<rparr>"
  have "wq_step d (y\<lparr>wq := destroy_queue_dummy d (wq y), destroying := 1\<rparr>) ?y2"
    using wq_step.destroy_stop [of "y\<lparr>wq := destroy_queue_dummy d (wq y), destroying := 1\<rparr>" d] by (simp add: q2_def)
  then have y2: "reach (wq_step d) (wq_start q) ?y2"
    using wq_step.destroy_queue [OF assms(4)] assms(3) by (blast intro: reach.step)
  have "reach (wq_step d) (wq_start q) (y\<lparr>wq := q2, destroying := 2, loc := Wq_exited\<rparr>)" if "loc y = Wq_calling w" for w
  proof -
    have "wq_step d ?y2 (?y2\<lparr>loc := Wq_top\<rparr>)" using wq_step.return [of ?y2 w d] that by simp
    moreover have "wq_step d (?y2\<lparr>loc := Wq_top\<rparr>) (y\<lparr>wq := q2, destroying := 2, loc := Wq_exited\<rparr>)"
      using wq_step.test [of "?y2\<lparr>loc := Wq_top\<rparr>" d] q2
      by (simp add: workqueue_thread_test_def thread_should_return_def)
    ultimately show ?thesis using y2 by (blast intro: reach.step)
  qed
  moreover have "\<exists>q3 q4. workqueue_thread_take q2 = (Wq_exited, q3) \<and> destroy_finish q3 = Ret q4" if "wq_queue (wq y) = []"
    using that q2 thr by (simp add: workqueue_thread_take_def Let_def destroy_finish_def thread_defs)
  ultimately show ?thesis using fin by blast
qed

theorem workqueue_destroy_outcomes_witness:
  "destroy_finish (destroy_indicate (destroy_queue_dummy 9 (wq example_calling))) = Bug"
  using workqueue_destroy_outcomes [OF example_wq_created example_calling_reach]
  by (simp add: example_calling_def)

end
