(* ===== verification/Lk_Gfp.thy ===== *)
theory Lk_Gfp
  imports Ngnfs_Prelude
begin

text \<open>
  Memory of \<open>shared/lk/slab.h\<close>, \<open>shared/lk/vmalloc.h\<close> and \<open>shared/lk/gfp.h\<close>.  The heap holds the
  live allocations by address.  Where the C library chooses the address and the initial contents,
  they are arguments; address 0 is a failed allocation.  A page that was freed is no page any more.
\<close>

unbundle bit_operations_syntax

type_synonym gfp_t = "32 word"
type_synonym heap = "u64 \<Rightarrow> u8 list option"

definition GFP_KERNEL :: gfp_t where [simp]: "GFP_KERNEL = 1"
definition GFP_NOFS :: gfp_t where [simp]: "GFP_NOFS = 2"
definition GFP_ZERO :: gfp_t where [simp]: "GFP_ZERO = 4"
definition ZERO_SIZE_PTR :: u64 where [simp]: "ZERO_SIZE_PTR = 16"

subsection \<open>The C library\<close>

definition malloc :: "u64 \<Rightarrow> u8 list \<Rightarrow> heap \<Rightarrow> u64 \<times> heap" where
  "malloc a bytes h = (if a = 0 then (0, h) else (a, h(a \<mapsto> bytes)))"

text \<open>Freeing null does nothing, freeing what is no live allocation is undefined.\<close>

definition c_free :: "u64 \<Rightarrow> heap \<Rightarrow> heap run" where
  "c_free p h = (if p = 0 then Ret h else if h p = None then Undef else Ret (h(p := None)))"

subsection \<open>slab.h and vmalloc.h\<close>

definition kzalloc :: "u64 \<Rightarrow> nat \<Rightarrow> gfp_t \<Rightarrow> heap \<Rightarrow> u64 \<times> heap" where
  "kzalloc a sz flags h = (if sz \<noteq> 0 then malloc a (replicate sz 0) h else (ZERO_SIZE_PTR, h))"

text \<open>\<open>bytes\<close> are what the memory of the new allocation holds before.\<close>

definition kmalloc :: "u64 \<Rightarrow> u8 list \<Rightarrow> gfp_t \<Rightarrow> heap \<Rightarrow> u64 \<times> heap" where
  "kmalloc a bytes flags h =
     (if flags AND GFP_ZERO \<noteq> 0 then kzalloc a (length bytes) flags h
      else if length bytes \<noteq> 0 then malloc a bytes h else (ZERO_SIZE_PTR, h))"

definition kfree :: "u64 \<Rightarrow> heap \<Rightarrow> heap run" where
  "kfree p h = (if p > ZERO_SIZE_PTR then c_free p h else Ret h)"

definition vmalloc :: "u64 \<Rightarrow> u8 list \<Rightarrow> heap \<Rightarrow> u64 \<times> heap" where
  "vmalloc a bytes h = malloc a bytes h"

definition vfree :: "u64 \<Rightarrow> heap \<Rightarrow> heap run" where
  "vfree p h = c_free p h"

subsection \<open>gfp.h\<close>

definition PAGE_SHIFT :: nat where [simp]: "PAGE_SHIFT = 12"
definition PAGE_SIZE :: nat where [simp]: "PAGE_SIZE = 2 ^ PAGE_SHIFT"

record page =
  page_refcount :: u64
  page_buf :: "u8 list"

text \<open>
  \<open>malloc_ok\<close> says whether the struct could be allocated, \<open>memalign\<close> is the buffer with its old
  contents or a failure.  The mask is tested with the logical and of the source.
\<close>

definition alloc_page :: "bool \<Rightarrow> u8 list option \<Rightarrow> gfp_t \<Rightarrow> page option" where
  "alloc_page malloc_ok memalign gfp_mask =
     (if malloc_ok then
        case memalign of
          None \<Rightarrow> None
        | Some bytes \<Rightarrow>
            (let page = \<lparr>page_refcount = 1, page_buf = bytes\<rparr>
             in Some (if gfp_mask \<noteq> 0 \<and> GFP_ZERO \<noteq> 0 then page\<lparr>page_buf := replicate PAGE_SIZE 0\<rparr> else page))
      else None)"

definition get_page :: "page \<Rightarrow> page" where
  "get_page page = page\<lparr>page_refcount := page_refcount page + 1\<rparr>"

text \<open>\<open>uatomic_sub_return\<close> of -1.  The page is gone when the result is 0.\<close>

definition put_page :: "page \<Rightarrow> page option" where
  "put_page page =
     (let ret = page_refcount page - (- 1)
      in if ret = 0 then None else Some (page\<lparr>page_refcount := ret\<rparr>))"

definition page_address :: "page \<Rightarrow> u8 list" where
  "page_address page = page_buf page"

subsection \<open>Allocations\<close>

text \<open>What \<open>kmalloc\<close> returns can be given to \<open>kfree\<close>, which gives back the heap of before.\<close>

lemma kmalloc_kfree:
  assumes "a = 0 \<or> a > ZERO_SIZE_PTR \<and> h a = None" "kmalloc a bytes flags h = (p, h')"
  shows "kfree p h' = Ret h" "p \<noteq> 0 \<Longrightarrow> bytes \<noteq> [] \<Longrightarrow> h' p = Some (if flags AND GFP_ZERO \<noteq> 0 then replicate (length bytes) 0 else bytes)"
  using assms by (auto simp: kmalloc_def kzalloc_def malloc_def kfree_def c_free_def split: if_splits)

lemma vmalloc_vfree:
  assumes "a = 0 \<or> h a = None" "vmalloc a bytes h = (p, h')"
  shows "vfree p h' = Ret h"
  using assms by (auto simp: vmalloc_def malloc_def vfree_def c_free_def split: if_splits)

subsection \<open>References of pages\<close>

datatype page_op = Get_page | Put_page

fun page_ops :: "page_op list \<Rightarrow> page \<Rightarrow> page option" where
  "page_ops [] page = Some page"
| "page_ops (Get_page # ops) page = page_ops ops (get_page page)"
| "page_ops (Put_page # ops) page = (case put_page page of None \<Rightarrow> None | Some page \<Rightarrow> page_ops ops page)"

lemma put_page_counts_up:
  "page_refcount page \<noteq> - 1 \<Longrightarrow> put_page page = Some (page\<lparr>page_refcount := page_refcount page + 1\<rparr>)"
  by (auto simp: put_page_def Let_def eq_neg_iff_add_eq_0)

lemma page_ops_count:
  "unat (page_refcount page) + length ops < 2 ^ 64 \<Longrightarrow>
    page_ops ops page = Some (page\<lparr>page_refcount := page_refcount page + of_nat (length ops)\<rparr>)"
proof (induction ops page rule: page_ops.induct)
  case (2 ops page)
  have "unat (page_refcount page + 1) \<le> unat (page_refcount page) + 1" by (simp add: unat_word_ariths)
  then show ?case using 2 by (simp add: get_page_def add.assoc)
next
  case (3 ops page)
  have "unat (page_refcount page + 1) \<le> unat (page_refcount page) + 1" by (simp add: unat_word_ariths)
  moreover have "unat (- 1 :: u64) = 2 ^ 64 - 1" by (simp add: unat_eq_nat_uint uint_word_ariths)
  then have "page_refcount page \<noteq> - 1" using 3(2) by auto
  ultimately show ?case using 3 by (simp add: put_page_counts_up add.assoc)
qed simp

lemma get_put_page_counts:
  "unat (page_refcount page) < 2 ^ 64 - 2 \<Longrightarrow>
    put_page (get_page page) = Some (page\<lparr>page_refcount := page_refcount page + 2\<rparr>)"
  using page_ops_count [of page "[Get_page, Put_page]"] by (auto split: option.splits)

text \<open>\<open>put_page\<close> subtracts -1 and so counts up.  A page that was allocated stays allocated, with its
  contents, through every sequence of fewer than 2^64 - 1 references taken and put, whether they
  are balanced or not: no page is ever given back.\<close>

theorem pages_never_freed:
  assumes "alloc_page malloc_ok memalign gfp_mask = Some page" "length ops < 2 ^ 64 - 1"
  shows "\<exists>page'. page_ops ops page = Some page' \<and> page_address page' = page_address page \<and>
    page_refcount page' = 1 + of_nat (length ops)"
proof -
  have "page_refcount page = 1" using assms(1) by (auto simp: alloc_page_def Let_def split: if_splits option.splits)
  then show ?thesis using assms(2) by (simp add: page_ops_count page_address_def)
qed

theorem pages_never_freed_witness:
  "\<exists>page page'. alloc_page True (Some (replicate 4096 7)) GFP_NOFS = Some page \<and>
     page_address page = replicate 4096 0 \<and>
     page_ops [Put_page] page = Some page' \<and> page_refcount page' = 2"
proof -
  let ?p = "\<lparr>page_refcount = 1, page_buf = replicate 4096 0\<rparr>"
  have a: "alloc_page True (Some (replicate 4096 7)) GFP_NOFS = Some ?p" by (simp add: alloc_page_def)
  show ?thesis using pages_never_freed [OF a, of "[Put_page]"] a by (auto simp: page_address_def)
qed

end
