(* ===== verification/Lk_Sys.thy ===== *)
theory Lk_Sys
  imports Ngnfs_Prelude "HOL-Library.Signed_Division"
begin

text \<open>
  The small wrappers of \<open>shared/lk\<close>: mutexes, clocks, warnings, and the dividing and comparing
  macros.  The results of the calls into the C library are arguments.
\<close>

subsection \<open>mutex.h\<close>

text \<open>
  A mutex has an owner or none.  A thread that locks a mutex somebody owns waits for ever unless
  another thread unlocks it; unlocking what one does not own is not defined.
\<close>

type_synonym mutex = "nat option"

definition mutex_init :: "int \<Rightarrow> mutex run" where
  "mutex_init ret = BUG_ON (ret \<noteq> 0) (Ret None)"

definition mutex_lock :: "int \<Rightarrow> nat \<Rightarrow> mutex \<Rightarrow> mutex run" where
  "mutex_lock ret t m = BUG_ON (ret \<noteq> 0) (case m of None \<Rightarrow> Ret (Some t) | Some _ \<Rightarrow> Spin)"

definition mutex_unlock :: "int \<Rightarrow> nat \<Rightarrow> mutex \<Rightarrow> mutex run" where
  "mutex_unlock ret t m = BUG_ON (ret \<noteq> 0) (if m = Some t then Ret None else Undef)"

lemma mutex_lock_unlock:
  "bind_run (mutex_lock 0 t m) (mutex_unlock 0 t) = (if m = None then Ret None else Spin)"
  by (cases m) (simp_all add: mutex_lock_def mutex_unlock_def)

subsection \<open>time64.h, ktime.h and timekeeping.c\<close>

text \<open>Times are \<open>s64\<close>, here \<open>int\<close>; a result that is no \<open>s64\<close> is an overflow of signed arithmetic.\<close>

definition NSEC_PER_SEC :: int where [simp]: "NSEC_PER_SEC = 1000000000"
definition KTIME_MAX :: int where [simp]: "KTIME_MAX = 2 ^ 63 - 1"
definition KTIME_MIN :: int where [simp]: "KTIME_MIN = - KTIME_MAX - 1"
definition KTIME_SEC_MAX :: int where [simp]: "KTIME_SEC_MAX = KTIME_MAX sdiv NSEC_PER_SEC"
definition KTIME_SEC_MIN :: int where [simp]: "KTIME_SEC_MIN = KTIME_MIN sdiv NSEC_PER_SEC"

definition s64_result :: "int \<Rightarrow> int run" where
  "s64_result x = (if KTIME_MIN \<le> x \<and> x \<le> KTIME_MAX then Ret x else Undef)"

definition ktime_to_ns :: "int \<Rightarrow> int" where
  "ktime_to_ns kt = kt"

definition ktime_set :: "int \<Rightarrow> u64 \<Rightarrow> int run" where
  "ktime_set secs nsecs =
     (if secs \<ge> KTIME_SEC_MAX then Ret KTIME_MAX
      else bind_run (s64_result (secs * NSEC_PER_SEC)) (\<lambda>x. s64_result (x + sint nsecs)))"

record timespec =
  tv_sec :: int
  tv_nsec :: int

definition timespec_to_ktime :: "timespec \<Rightarrow> int run" where
  "timespec_to_ktime ts = ktime_set (tv_sec ts) (of_int (tv_nsec ts))"

text \<open>\<open>clock_gettime\<close> gives a result and a time.\<close>

definition ktime_get_real :: "int \<times> timespec \<Rightarrow> int run" where
  "ktime_get_real clock = (let (ret, ts) = clock in BUG_ON (ret \<noteq> 0) (timespec_to_ktime ts))"

definition ktime_get_real_ns :: "int \<times> timespec \<Rightarrow> u64 run" where
  "ktime_get_real_ns clock = bind_run (ktime_get_real clock) (\<lambda>kt. Ret (of_int (ktime_to_ns kt)))"

lemma ktime_sec_max: "KTIME_SEC_MAX = 9223372036"
  by (simp add: signed_divide_int_def)

text \<open>
  For the times a clock gives, up to the year 2262, the number of nanoseconds is exact; later
  times are all the largest one.
\<close>

lemma ktime_get_real_ns_exact:
  assumes "0 \<le> tv_sec ts" "0 \<le> tv_nsec ts" "tv_nsec ts < NSEC_PER_SEC"
  shows "ktime_get_real_ns (0, ts) =
    Ret (if tv_sec ts < KTIME_SEC_MAX then of_int (tv_sec ts * NSEC_PER_SEC + tv_nsec ts) else of_int KTIME_MAX)"
proof -
  let ?x = "tv_sec ts * NSEC_PER_SEC"
  have n: "sint (of_int (tv_nsec ts) :: u64) = tv_nsec ts"
    using assms(2,3) by (subst signed_of_int) (simp add: signed_take_bit_int_eq_self)
  have set: "ktime_get_real_ns (0, ts) = bind_run (ktime_set (tv_sec ts) (of_int (tv_nsec ts))) (\<lambda>kt. Ret (of_int kt))"
    by (simp add: ktime_get_real_ns_def ktime_get_real_def timespec_to_ktime_def ktime_to_ns_def)
  show ?thesis
  proof (cases "tv_sec ts < KTIME_SEC_MAX")
    case True
    then have "tv_sec ts \<le> 9223372035" unfolding ktime_sec_max by simp
    then have "s64_result ?x = Ret ?x" "s64_result (?x + tv_nsec ts) = Ret (?x + tv_nsec ts)"
      using assms by (auto simp: s64_result_def)
    then have "ktime_set (tv_sec ts) (of_int (tv_nsec ts)) = Ret (?x + tv_nsec ts)"
      unfolding ktime_set_def n using True by (simp only: bind_run.simps not_le [symmetric] if_False)
    then show ?thesis unfolding set using True by (simp only: bind_run.simps if_True)
  next
    case False
    then have "ktime_set (tv_sec ts) (of_int (tv_nsec ts)) = Ret KTIME_MAX"
      unfolding ktime_set_def by (simp only: not_less if_True)
    then show ?thesis unfolding set using False by (simp only: bind_run.simps if_False)
  qed
qed

subsection \<open>bug.h\<close>

text \<open>The condition and what the static flag and the log are afterwards.\<close>

definition WARN_ON_ONCE :: "string \<Rightarrow> bool \<Rightarrow> bool \<times> string list \<Rightarrow> bool \<times> bool \<times> string list" where
  "WARN_ON_ONCE text cond st =
     (let (warned, log) = st
      in if cond \<and> \<not> warned then (cond, True, log @ [''warning condition: '' @ text]) else (cond, warned, log))"

primrec warn_all :: "string \<Rightarrow> bool list \<Rightarrow> bool \<times> string list \<Rightarrow> bool list \<times> bool \<times> string list" where
  "warn_all text [] st = ([], st)"
| "warn_all text (c # cs) st =
     (let (r, st) = WARN_ON_ONCE text c st; (rs, st) = warn_all text cs st in (r # rs, st))"

text \<open>However often the condition holds, it is logged once.\<close>

lemma warn_all_once:
  "warn_all text cs (warned, log) =
    (cs, warned \<or> True \<in> set cs, log @ (if \<not> warned \<and> True \<in> set cs then [''warning condition: '' @ text] else []))"
  by (induction cs arbitrary: warned log) (auto simp: WARN_ON_ONCE_def Let_def)

subsection \<open>minmax.h\<close>

definition min_op :: "'a::linorder \<Rightarrow> 'a \<Rightarrow> 'a" where
  "min_op a b = (if a < b then a else b)"

definition max_op :: "'a::linorder \<Rightarrow> 'a \<Rightarrow> 'a" where
  "max_op a b = (if a > b then a else b)"

definition swap_op :: "'a \<Rightarrow> 'a \<Rightarrow> 'a \<times> 'a" where
  "swap_op a b = (let tmp = a; a = b; b = tmp in (a, b))"

lemma min_max_op: "min_op a b = min a b" "max_op a b = max a b"
  by (auto simp: min_op_def max_op_def min_def max_def)

subsection \<open>Rounding divisions of math.h\<close>

text \<open>\<open>do_div\<close> leaves the quotient.\<close>

definition DIV_ROUND_DOWN_ULL :: "u64 \<Rightarrow> u64 \<Rightarrow> u64" where
  "DIV_ROUND_DOWN_ULL ll d = ll div d"

definition DIV_ROUND_UP_ULL :: "u64 \<Rightarrow> u64 \<Rightarrow> u64" where
  "DIV_ROUND_UP_ULL ll d = DIV_ROUND_DOWN_ULL (ll + d - 1) d"

definition DIV_ROUND_CLOSEST_ULL :: "u64 \<Rightarrow> u64 \<Rightarrow> u64" where
  "DIV_ROUND_CLOSEST_ULL x d = (x + d div 2) div d"

text \<open>For signed operands, without overflow; C divides towards 0.\<close>

definition DIV_ROUND_CLOSEST :: "int \<Rightarrow> int \<Rightarrow> int" where
  "DIV_ROUND_CLOSEST x d =
     (if (x > 0) = (d > 0) then (x + d sdiv 2) sdiv d else (x - d sdiv 2) sdiv d)"

lemma closest_nonneg:
  assumes "0 < (k::int)" "0 \<le> y"
  shows "2 * \<bar>y - (y + k div 2) div k * k\<bar> \<le> k"
proof -
  let ?q = "(y + k div 2) div k"
  have "?q * k \<le> y + k div 2" "y + k div 2 < ?q * k + k"
    using assms(1) div_mult_mod_eq [of "y + k div 2" k] pos_mod_bound [OF assms(1), of "y + k div 2"]
      pos_mod_sign [OF assms(1), of "y + k div 2"] by linarith+
  moreover have "k div 2 * 2 \<le> k" "k \<le> k div 2 * 2 + 1" by simp_all
  moreover have "2 * \<bar>y - p\<bar> \<le> k" if "p \<le> y + h" "y + h < p + k" "h * 2 \<le> k" "k \<le> h * 2 + 1" for p h
    using that by arith
  ultimately show ?thesis by blast
qed

text \<open>The quotient is a closest integer for all signs.\<close>

lemma DIV_ROUND_CLOSEST_closest:
  assumes "d \<noteq> 0"
  shows "2 * \<bar>x - DIV_ROUND_CLOSEST x d * d\<bar> \<le> \<bar>d\<bar>"
proof -
  let ?q = "(\<bar>x\<bar> + \<bar>d\<bar> div 2) div \<bar>d\<bar>"
  have h: "d sdiv 2 = sgn d * (\<bar>d\<bar> div 2)" by (simp add: signed_divide_int_def)
  have "DIV_ROUND_CLOSEST x d * d = (if x < 0 then - 1 else 1) * (?q * \<bar>d\<bar>) \<or> ?q * \<bar>d\<bar> = 0 \<and> DIV_ROUND_CLOSEST x d * d = 0"
    using assms
    by (cases "x > 0"; cases "x = 0"; cases "d > 0")
      (auto simp: DIV_ROUND_CLOSEST_def h signed_divide_int_def sgn_if abs_if)
  moreover have "2 * \<bar>\<bar>x\<bar> - ?q * \<bar>d\<bar>\<bar> \<le> \<bar>d\<bar>" using closest_nonneg [of "\<bar>d\<bar>" "\<bar>x\<bar>"] assms by simp
  moreover have "\<bar>x - p\<bar> = \<bar>\<bar>x\<bar> - r\<bar>" if "p = (if x < 0 then - 1 else 1) * r \<or> r = 0 \<and> p = 0" for p r
    using that by (cases "x < 0") auto
  ultimately show ?thesis by metis
qed

end
