(* ===== verification/Msg_Props.thy ===== *)
theory Msg_Props
  imports Msg
begin

text \<open>
  Properties of the peers: every entry of the hash table is a live peer of its
  address that the table holds a reference of, what sending and accepting do to that,
  and the errors that go over the wire.
\<close>

definition entry_ok :: "'t msg_info \<Rightarrow> sockaddr_in \<times> nat \<Rightarrow> bool" where
  "entry_ok minf e \<longleftrightarrow>
     (let pr = peers minf (snd e)
      in snd e < next_peer minf \<and> peer_addr pr = fst e \<and> \<not> peer_freed pr \<and> 1 \<le> refcount pr)"

definition peers_ok :: "'t msg_info \<Rightarrow> bool" where
  "peers_ok minf \<longleftrightarrow>
     distinct (map fst (peer_ht minf)) \<and> distinct (map snd (peer_ht minf)) \<and> list_all (entry_ok minf) (peer_ht minf)"

lemma upd_peer_simps [simp]:
  "peer_ht (upd_peer p f m) = peer_ht m" "next_peer (upd_peer p f m) = next_peer m"
  "recv_fns (upd_peer p f m) = recv_fns m" "mtr_info (upd_peer p f m) = mtr_info m"
  "peers (upd_peer p f m) = (peers m)(p := f (peers m p))"
  by (simp_all add: upd_peer_def)

lemma ht_put_peer [simp]: "peer_ht (put_peer ops p m) = peer_ht m" "next_peer (put_peer ops p m) = next_peer m"
  by (simp_all add: put_peer_def Let_def split: option.splits)

lemma ht_inc_peer [simp]: "peer_ht (inc_peer p m) = peer_ht m" "next_peer (inc_peer p m) = next_peer m"
  by (simp_all add: inc_peer_def)

lemma peers_put_other: "q \<noteq> p \<Longrightarrow> peers (put_peer ops p m) q = peers m q"
  by (simp add: put_peer_def Let_def split: option.splits)

lemma peers_put_live:
  "refcount (peers m p) \<noteq> 1 \<Longrightarrow> peers (put_peer ops p m) = (peers m)(p := (peers m p)\<lparr>refcount := refcount (peers m p) - 1\<rparr>)"
  by (simp add: put_peer_def Let_def split: option.splits)

lemma put_frees: "refcount (peers m p) = 1 \<Longrightarrow> peer_freed (peers (put_peer ops p m) p)"
  by (simp add: put_peer_def Let_def split: option.splits)

lemma peers_ok_cong:
  assumes "peer_ht m' = peer_ht m" "next_peer m \<le> next_peer m'"
    and "\<And>e. e \<in> set (peer_ht m) \<Longrightarrow> peer_addr (peers m' (snd e)) = peer_addr (peers m (snd e)) \<and>
      peer_freed (peers m' (snd e)) = peer_freed (peers m (snd e)) \<and> 1 \<le> refcount (peers m' (snd e))"
    and "peers_ok m"
  shows "peers_ok m'"
  using assms by (auto simp: peers_ok_def list_all_iff entry_ok_def Let_def)

lemma peers_ok_mtr [simp]: "peers_ok (m\<lparr>mtr_info := t\<rparr>) \<longleftrightarrow> peers_ok m"
  by (simp add: peers_ok_def list_all_iff entry_ok_def Let_def)

lemma peers_ok_entry: "peers_ok m \<Longrightarrow> ht_lookup a m = Some p \<Longrightarrow> entry_ok m (a, p)"
  by (auto simp: peers_ok_def ht_lookup_def list_all_iff dest!: map_of_SomeD)

lemma peers_ok_put: "peers_ok m \<Longrightarrow> 2 \<le> refcount (peers m p) \<Longrightarrow> peers_ok (put_peer ops p m)"
  by (rule peers_ok_cong [of _ m]) (auto simp: peers_put_live peers_ok_def list_all_iff entry_ok_def Let_def)

lemma peers_ok_inc: "peers_ok m \<Longrightarrow> peers_ok (inc_peer p m)"
  by (rule peers_ok_cong [of _ m]) (auto simp: inc_peer_def peers_ok_def list_all_iff entry_ok_def Let_def)

text \<open>Getting a peer for sending gives a live peer of the address with a reference of the caller's.\<close>

definition got_peer :: "'t msg_info \<Rightarrow> sockaddr_in \<Rightarrow> nat \<Rightarrow> bool" where
  "got_peer m a p \<longleftrightarrow> ht_lookup a m = Some p \<and> 2 \<le> refcount (peers m p)"

text \<open>The state with the new peer in it, before the insertion.\<close>

definition with_new_peer :: "('fd, 't) mtr_ops \<Rightarrow> sockaddr_in \<Rightarrow> 't msg_info \<Rightarrow> 't msg_info" where
  "with_new_peer ops a minf =
     (let p = next_peer minf;
          minf = minf\<lparr>next_peer := p + 1,
                      peers := (peers minf)(p := \<lparr>refcount = 1, peer_addr = a, peer_info = False, peer_freed = False\<rparr>)\<rparr>;
          minf = (if peer_info_size ops > 0
                  then (let minf = upd_peer p (\<lambda>pr. pr\<lparr>peer_info := True\<rparr>) minf
                        in case init_peer ops of
                             Some i \<Rightarrow> minf\<lparr>mtr_info := i p (mtr_info minf)\<rparr>
                           | None \<Rightarrow> minf)
                  else minf)
      in inc_peer p minf)"

lemma with_new_peer:
  "peer_ht (with_new_peer ops a m) = peer_ht m" "next_peer (with_new_peer ops a m) = next_peer m + 1"
  "q \<noteq> next_peer m \<Longrightarrow> peers (with_new_peer ops a m) q = peers m q"
  "peer_addr (peers (with_new_peer ops a m) (next_peer m)) = a"
  "peer_freed (peers (with_new_peer ops a m) (next_peer m)) = False"
  "refcount (peers (with_new_peer ops a m) (next_peer m)) = 2"
  by (auto simp: with_new_peer_def Let_def inc_peer_def split: option.splits)

lemma get_peer_new_eq:
  "get_peer_new ops True a accepted m =
     (let m' = with_new_peer ops a m; p = next_peer m
      in case ht_lookup a m of
           Some e \<Rightarrow>
             ((if accepted \<noteq> None then - EEXIST else 0, Some e), put_peer ops p (put_peer ops p (inc_peer e m')))
         | None \<Rightarrow>
             (let (ret, t) = mtr_start ops p a accepted (mtr_info m')
              in ((ret, Some p), m'\<lparr>peer_ht := peer_ht m' @ [(a, p)], mtr_info := t\<rparr>)))"
  unfolding get_peer_new_def with_new_peer_def
  by (simp add: Let_def ht_insert_def ht_lookup_def inc_peer_def split: option.splits prod.splits)

lemma peers_ok_new:
  assumes "peers_ok m" "ht_lookup a m = None"
  shows "peers_ok ((with_new_peer ops a m)\<lparr>peer_ht := peer_ht m @ [(a, next_peer m)], mtr_info := t\<rparr>)"
proof -
  have "snd e \<noteq> next_peer m" if "e \<in> set (peer_ht m)" for e
    using assms(1) that by (auto simp: peers_ok_def list_all_iff entry_ok_def Let_def)
  moreover have "a \<notin> fst ` set (peer_ht m)" using assms(2) by (simp add: ht_lookup_def map_of_eq_None_iff)
  ultimately show ?thesis using assms(1)
    by (auto simp: peers_ok_def list_all_iff entry_ok_def Let_def with_new_peer)
qed

lemma get_peer_send:
  assumes "peers_ok m" "ht_lookup a m = None \<Longrightarrow> peers_ok (other m)"
    and "get_peer ops mem_ok other a None m = (r, m')"
  shows "peers_ok m'" "r = Inr p \<Longrightarrow> got_peer m' a p"
proof -
  have "peers_ok m' \<and> (\<forall>p. r = Inr p \<longrightarrow> got_peer m' a p)"
  proof (cases "ht_lookup a m")
    case (Some p)
    then have "m' = inc_peer p m" "r = Inr p" using assms(3) by (auto simp: get_peer_def)
    then show ?thesis using peers_ok_inc [OF assms(1), of p] peers_ok_entry [OF assms(1) Some] Some
      by (simp add: got_peer_def ht_lookup_def entry_ok_def Let_def inc_peer_def)
  next
    case None
    define m1 where "m1 = other m"
    have ok: "peers_ok m1" using assms(2) None by (simp add: m1_def)
    show ?thesis
    proof (cases mem_ok)
      case False
      then show ?thesis using assms(3) None ok by (auto simp: get_peer_def get_peer_new_def m1_def)
    next
      case True
      then have mt: "mem_ok = True" by simp
      note g = assms(3) [unfolded get_peer_def None mt option.case get_peer_new_eq m1_def [symmetric]]
      show ?thesis
      proof (cases "ht_lookup a m1")
        case (Some e)
        have e: "entry_ok m1 (a, e)" by (rule peers_ok_entry [OF ok Some])
        then have ne: "e \<noteq> next_peer m1" by (simp add: entry_ok_def Let_def)
        define m2 where "m2 = put_peer ops (next_peer m1) (put_peer ops (next_peer m1) (inc_peer e (with_new_peer ops a m1)))"
        have m': "m' = m2" "r = Inr e" using g Some by (auto simp: Let_def m2_def)
        have pe: "peers m2 q = (if q = e then (peers m1 e)\<lparr>refcount := refcount (peers m1 e) + 1\<rparr> else peers m1 q)"
          if "q \<noteq> next_peer m1" for q
          using that ne by (simp add: m2_def peers_put_other inc_peer_def with_new_peer)
        have h: "peer_ht m2 = peer_ht m1" "next_peer m2 = next_peer m1 + 1" by (simp_all add: m2_def with_new_peer)
        have "peers_ok m2"
        proof (rule peers_ok_cong [OF h(1) _ _ ok])
          show "next_peer m1 \<le> next_peer m2" using h by simp
          fix x assume "x \<in> set (peer_ht m1)"
          then have "entry_ok m1 x" using ok by (simp add: peers_ok_def list_all_iff)
          then show "peer_addr (peers m2 (snd x)) = peer_addr (peers m1 (snd x)) \<and>
            peer_freed (peers m2 (snd x)) = peer_freed (peers m1 (snd x)) \<and> 1 \<le> refcount (peers m2 (snd x))"
            using pe [of "snd x"] by (auto simp: entry_ok_def Let_def)
        qed
        moreover have "got_peer m2 a e" using Some h pe [OF ne] e
          by (simp add: got_peer_def ht_lookup_def entry_ok_def Let_def)
        ultimately show ?thesis using m' by simp
      next
        case None
        obtain ret t where rt: "mtr_start ops (next_peer m1) a None (mtr_info (with_new_peer ops a m1)) = (ret, t)"
          by fastforce
        define m2 where "m2 = (with_new_peer ops a m1)\<lparr>peer_ht := peer_ht m1 @ [(a, next_peer m1)], mtr_info := t\<rparr>"
        have ok2: "peers_ok m2" unfolding m2_def by (rule peers_ok_new [OF ok None])
        have "2 \<le> refcount (peers m2 (next_peer m1))" "ht_lookup a m2 = Some (next_peer m1)"
          using None by (simp_all add: m2_def with_new_peer ht_lookup_def map_add_def)
        then have "got_peer m2 a (next_peer m1)" "peers_ok (put_peer ops (next_peer m1) m2)"
          using ok2 by (simp_all add: got_peer_def peers_ok_put)
        moreover have "(r, m') = (if ret < 0 then (Inl ret, put_peer ops (next_peer m1) m2) else (Inr (next_peer m1), m2))"
          using g None rt by (simp add: Let_def m2_def with_new_peer split: if_splits)
        ultimately show ?thesis using ok2 by (auto split: if_splits)
      qed
    qed
  qed
  then show "peers_ok m'" "r = Inr p \<Longrightarrow> got_peer m' a p" by simp_all
qed

subsection \<open>Properties\<close>

text \<open>C35: Sending keeps the peers in order.  When every entry of the hash table is a live
  peer of its address that the table holds a reference of, the same is true after
  \<open>ngnfs_msg_send\<close>, whatever the transport and the allocation return and whoever
  inserted the address in the meantime; a peer that is in the table already keeps its
  reference count, and the send goes through it.\<close>

theorem msg_send_keeps_peers:
  assumes "peers_ok minf" "\<And>m. peers_ok m \<Longrightarrow> peers_ok (other m)"
  shows "peers_ok (snd (ngnfs_msg_send ops mem_ok other mdesc minf)) \<and>
    (\<forall>p. ht_lookup (addr mdesc) minf = Some p \<longrightarrow>
       fst (ngnfs_msg_send ops mem_ok other mdesc minf) = fst (mtr_send ops p mdesc (mtr_info minf)) \<and>
       peer_ht (snd (ngnfs_msg_send ops mem_ok other mdesc minf)) = peer_ht minf \<and>
       peers (snd (ngnfs_msg_send ops mem_ok other mdesc minf)) = peers minf)"
proof -
  obtain r m' where g: "get_peer ops mem_ok other (addr mdesc) None minf = (r, m')" by fastforce
  note gs = get_peer_send [OF assms(1) _ g]
  have 1: "peers_ok (snd (ngnfs_msg_send ops mem_ok other mdesc minf))"
  proof (cases r)
    case (Inl e)
    then show ?thesis using gs(1) assms g by (simp add: ngnfs_msg_send_def)
  next
    case (Inr p)
    obtain ret t where s: "mtr_send ops p mdesc (mtr_info m') = (ret, t)" by fastforce
    have "got_peer m' (addr mdesc) p" "peers_ok m'" using gs assms Inr by auto
    then have "peers_ok (put_peer ops p (m'\<lparr>mtr_info := t\<rparr>))"
      by (intro peers_ok_put) (simp_all add: got_peer_def)
    then show ?thesis using g Inr s by (simp add: ngnfs_msg_send_def)
  qed
  have 2: "fst (ngnfs_msg_send ops mem_ok other mdesc minf) = fst (mtr_send ops p mdesc (mtr_info minf)) \<and>
      peer_ht (snd (ngnfs_msg_send ops mem_ok other mdesc minf)) = peer_ht minf \<and>
      peers (snd (ngnfs_msg_send ops mem_ok other mdesc minf)) = peers minf"
    if p: "ht_lookup (addr mdesc) minf = Some p" for p
  proof -
    have "r = Inr p" "m' = inc_peer p minf" using g p by (auto simp: get_peer_def)
    moreover have "1 \<le> refcount (peers minf p)"
      using peers_ok_entry [OF assms(1) p] by (simp add: entry_ok_def Let_def)
    ultimately show ?thesis using g
      by (simp add: ngnfs_msg_send_def inc_peer_def peers_put_live split: prod.splits)
  qed
  show ?thesis using 1 2 by blast
qed

text \<open>A transport whose operations succeed and do nothing.\<close>

definition null_ops :: "(unit, unit) mtr_ops" where
  "null_ops = \<lparr>mtr_setup = None, mtr_shutdown = None, mtr_destroy = None, start_listen = (\<lambda>_ t. (0, t)),
     stop_listen = id, peer_info_size = 0, init_peer = None, destroy_peer = None,
     mtr_start = (\<lambda>_ _ _ t. (0, t)), mtr_send = (\<lambda>_ _ t. (0, t))\<rparr>"

theorem msg_send_keeps_peers_witness:
  "peers_ok (snd (ngnfs_msg_send null_ops True id
     \<lparr>addr = (1, 2), ctl_buf = (\<lambda>_. 0), data_page = None, data_size = 0, ctl_size = 16, mtype = 0\<rparr> (new_msg_info ())))"
proof -
  have "peers_ok (new_msg_info ())" by (simp add: peers_ok_def new_msg_info_def)
  from msg_send_keeps_peers [OF this, of id null_ops True] show ?thesis by simp
qed

text \<open>Accepting a connection from an address that has a peer is refused with
  \<open>EEXIST\<close>, and drops a reference that was not taken: when the table's reference is the
  only one, the peer is freed while the table still holds it.\<close>

theorem msg_accept_existing_drops_reference:
  assumes "peers_ok minf" "ht_lookup a minf = Some p" "fd \<noteq> None"
  shows "fst (ngnfs_msg_accept ops mem_ok other a fd minf) = - EEXIST \<and>
    ht_lookup a (snd (ngnfs_msg_accept ops mem_ok other a fd minf)) = Some p \<and>
    (refcount (peers minf p) = 1 \<longrightarrow>
       peer_freed (peers (snd (ngnfs_msg_accept ops mem_ok other a fd minf)) p) \<and>
       \<not> peers_ok (snd (ngnfs_msg_accept ops mem_ok other a fd minf))) \<and>
    (refcount (peers minf p) > 1 \<longrightarrow>
       refcount (peers (snd (ngnfs_msg_accept ops mem_ok other a fd minf)) p) = refcount (peers minf p) - 1)"
proof -
  have r: "ngnfs_msg_accept ops mem_ok other a fd minf = (- EEXIST, put_peer ops p minf)"
    using assms by (simp add: ngnfs_msg_accept_def get_peer_def)
  have l: "ht_lookup a (put_peer ops p minf) = Some p" using assms(2) by (simp add: ht_lookup_def)
  have "\<not> peers_ok (put_peer ops p minf)" if "refcount (peers minf p) = 1"
    using put_frees [OF that, of ops] peers_ok_entry [OF _ l] by (auto simp: entry_ok_def Let_def)
  then show ?thesis using r l put_frees [of minf p ops] peers_put_live [of minf p ops] by auto
qed

theorem msg_accept_existing_drops_reference_witness:
  "\<not> peers_ok (snd (ngnfs_msg_accept null_ops True id (1, 2) (Some ())
     ((new_msg_info ())\<lparr>peer_ht := [((1, 2), 0)], next_peer := 1,
        peers := (\<lambda>_. \<lparr>refcount = 1, peer_addr = (1, 2), peer_info = False, peer_freed = False\<rparr>)\<rparr>)))"
  using msg_accept_existing_drops_reference
    [of "(new_msg_info ())\<lparr>peer_ht := [((1, 2), 0)], next_peer := 1,
        peers := (\<lambda>_. \<lparr>refcount = 1, peer_addr = (1, 2), peer_info = False, peer_freed = False\<rparr>)\<rparr>"
      "(1, 2)" 0 "Some ()" null_ops True id]
  by (simp add: peers_ok_def entry_ok_def ht_lookup_def)

end
