(* ===== verification/Btr_Aio.thy ===== *)
theory Btr_Aio
  imports Lk_Words Lk_Thread Block_Cache Lk_Gfp
begin

text \<open>
  The block transport of devd over Linux aio, \<open>devd/btr-aio.c\<close>.  A fixed array of iocbs
  and two bitmaps say which are free and which wait for submission.  Pages are found by
  number in \<open>aio_pages\<close>, where a freed page is absent.  \<open>aio_kernel\<close> are the requests the kernel has taken and not yet
  reported: the number of the iocb and the iocb as it was submitted.  The bitmaps are read and
  changed without interference within a function.
\<close>

unbundle bit_operations_syntax

definition BITS_PER_LONG :: nat where [simp]: "BITS_PER_LONG = 64"
definition AIO_QUEUE_DEPTH :: nat where [simp]: "AIO_QUEUE_DEPTH = BITS_PER_LONG - 1"

record iocb =
  aio_data :: nat
  aio_write :: bool
  aio_fildes :: int
  aio_buf :: nat
  aio_nbytes :: nat
  aio_offset :: u64

record btr_aio_info =
  aio_ctx :: bool
  aio_depth :: nat
  dev_fd :: int
  submit_thr :: thread_state
  getevents_thr :: thread_state
  iocbs :: "nat \<Rightarrow> iocb"
  empty_bmap :: u64
  submit_bmap :: u64
  aio_kernel :: "(nat \<times> iocb) list"
  aio_pages :: "nat \<Rightarrow> page option"

subsection \<open>Bitmaps\<close>

text \<open>\<open>__ffs\<close>, which is not defined on 0.\<close>

definition find_first_bit :: "u64 \<Rightarrow> nat" where
  "find_first_bit w = List.hd (filter (bit w) [0..<64])"

definition iocb_bit_nr :: "btr_aio_info \<Rightarrow> nat \<Rightarrow> nat run" where
  "iocb_bit_nr ainf nr = BUG_ON (nr \<ge> aio_depth ainf) (Ret nr)"

definition set_iocb_bit :: "btr_aio_info \<Rightarrow> nat \<Rightarrow> u64 \<Rightarrow> u64 run" where
  "set_iocb_bit ainf iocb bmap = bind_run (iocb_bit_nr ainf iocb) (\<lambda>nr. Ret (set_bit_op nr (\<lambda>_. bmap) 0))"

definition clear_iocb_bit :: "btr_aio_info \<Rightarrow> nat \<Rightarrow> u64 \<Rightarrow> u64 run" where
  "clear_iocb_bit ainf iocb bmap = bind_run (iocb_bit_nr ainf iocb) (\<lambda>nr. Ret (clear_bit nr (\<lambda>_. bmap) 0))"

text \<open>The loop of \<open>get_and_clear_iocb_bit\<close> with the iocb found so far.\<close>

primrec get_and_clear_loop :: "nat \<Rightarrow> nat option \<Rightarrow> u64 \<Rightarrow> (nat option \<times> u64) run" where
  "get_and_clear_loop 0 iocb bmap = (if bmap = 0 then Ret (iocb, bmap) else Spin)"
| "get_and_clear_loop (Suc fuel) iocb bmap =
     (if bmap = 0 then Ret (iocb, bmap)
      else
        (let nr = find_first_bit bmap;
             (was_set, addr) = test_and_clear_bit nr (\<lambda>_. bmap)
         in get_and_clear_loop fuel (if was_set then Some nr else iocb) (addr 0)))"

definition get_and_clear_iocb_bit :: "u64 \<Rightarrow> (nat option \<times> u64) run" where
  "get_and_clear_iocb_bit bmap = get_and_clear_loop 64 None bmap"

subsection \<open>Submission\<close>

definition btr_aio_submit_block :: "btx_op \<Rightarrow> u64 \<Rightarrow> nat \<Rightarrow> btr_aio_info \<Rightarrow> (int \<times> btr_aio_info) run" where
  "btr_aio_submit_block op bnr page ainf =
     bind_run (get_and_clear_iocb_bit (empty_bmap ainf)) (\<lambda>(iocb, bmap).
       let ainf = ainf\<lparr>empty_bmap := bmap\<rparr>
       in case iocb of
            None \<Rightarrow> Bug
          | Some n \<Rightarrow>
              (case aio_pages ainf page of
                 None \<Rightarrow> Undef
               | Some data_page \<Rightarrow>
                   (let io = \<lparr>aio_data = page, aio_write = (op = NGNFS_BTX_OP_WRITE), aio_fildes = dev_fd ainf,
                              aio_buf = page, aio_nbytes = 4096, aio_offset = push_bit 12 bnr\<rparr>;
                        ainf = ainf\<lparr>iocbs := (iocbs ainf)(n := io),
                                    aio_pages := (aio_pages ainf)(page \<mapsto> get_page data_page)\<rparr>
                    in bind_run (set_iocb_bit ainf n (submit_bmap ainf)) (\<lambda>bmap.
                         Ret (0, ainf\<lparr>submit_bmap := bmap\<rparr>)))))"

definition btr_aio_queue_depth :: "btr_aio_info \<Rightarrow> nat" where
  "btr_aio_queue_depth ainf = aio_depth ainf"

text \<open>
  One round of \<open>submit_thread\<close>: the iocbs whose bits are set go into \<open>iocbps\<close>, which has
  \<open>depth\<close> entries, and to the kernel, which takes \<open>io_submit_ret\<close> of them.
\<close>

primrec submit_gather :: "nat \<Rightarrow> nat \<Rightarrow> nat list \<Rightarrow> u64 \<Rightarrow> (nat list \<times> u64) run" where
  "submit_gather 0 depth iocbps bmap = Spin"
| "submit_gather (Suc fuel) depth iocbps bmap =
     bind_run (get_and_clear_iocb_bit bmap) (\<lambda>(iocb, bmap).
       case iocb of
         None \<Rightarrow> Ret (iocbps, bmap)
       | Some n \<Rightarrow> if length iocbps < depth then submit_gather fuel depth (iocbps @ [n]) bmap else Undef)"

definition submit_thread_round :: "(nat list \<Rightarrow> int) \<Rightarrow> btr_aio_info \<Rightarrow> btr_aio_info run" where
  "submit_thread_round io_submit_ret ainf =
     bind_run (submit_gather 65 (aio_depth ainf) [] (submit_bmap ainf)) (\<lambda>(iocbps, bmap).
       let ainf = ainf\<lparr>submit_bmap := bmap\<rparr>
       in if iocbps = [] then Ret ainf
          else BUG_ON (io_submit_ret iocbps \<noteq> int (length iocbps)) (
            Ret (ainf\<lparr>aio_kernel := aio_kernel ainf @ map (\<lambda>n. (n, iocbs ainf n)) iocbps\<rparr>)))"

subsection \<open>Completion\<close>

record io_event =
  ev_data :: nat
  ev_obj :: nat
  ev_res :: int

definition event_err :: "int \<Rightarrow> int" where
  "event_err res = (if res = 4096 then 0 else if res < 0 then res else - EIO)"

text \<open>The offset is signed, so the shift back to the block number is arithmetic.\<close>

definition event_bnr :: "btr_aio_info \<Rightarrow> io_event \<Rightarrow> u64" where
  "event_bnr ainf event = signed_drop_bit 12 (aio_offset (iocbs ainf (ev_obj event)))"

text \<open>\<open>end_io\<close> is \<open>ngnfs_block_end_io\<close>; the kernel is done with the reported iocb.\<close>

primrec getevents_loop ::
    "(u64 \<Rightarrow> nat \<Rightarrow> int \<Rightarrow> 's \<Rightarrow> 's run) \<Rightarrow> io_event list \<Rightarrow> btr_aio_info \<Rightarrow> 's \<Rightarrow> (btr_aio_info \<times> 's) run" where
  "getevents_loop end_io [] ainf s = Ret (ainf, s)"
| "getevents_loop end_io (event # events) ainf s =
     bind_run (end_io (event_bnr ainf event) (ev_data event) (event_err (ev_res event)) s) (\<lambda>s.
       case aio_pages ainf (ev_data event) of
         None \<Rightarrow> Undef
       | Some data_page \<Rightarrow>
           (let ainf = ainf\<lparr>aio_pages := (aio_pages ainf)(ev_data event := put_page data_page)\<rparr>
            in bind_run (set_iocb_bit ainf (ev_obj event) (empty_bmap ainf)) (\<lambda>bmap.
                 getevents_loop end_io events (ainf\<lparr>empty_bmap := bmap\<rparr>) s)))"

text \<open>One round of \<open>getevents_thread\<close> with what \<open>io_getevents\<close> returned and stored.\<close>

definition getevents_thread_round ::
    "(u64 \<Rightarrow> nat \<Rightarrow> int \<Rightarrow> 's \<Rightarrow> 's run) \<Rightarrow> int \<Rightarrow> io_event list \<Rightarrow> btr_aio_info \<Rightarrow> 's \<Rightarrow> (btr_aio_info \<times> 's) run" where
  "getevents_thread_round end_io ret events ainf s =
     BUG_ON (\<not> ret > 0) (
       let ainf = ainf\<lparr>aio_kernel := filter (\<lambda>(n, _). n \<notin> ev_obj ` set events) (aio_kernel ainf)\<rparr>
       in getevents_loop end_io (take (nat ret) events) ainf s)"

subsection \<open>Setup and teardown\<close>

text \<open>\<open>ctx\<close> is set to 0 once it is destroyed; the threads are joined.\<close>

definition btr_aio_destroy :: "btr_aio_info option \<Rightarrow> btr_aio_info option run" where
  "btr_aio_destroy info =
     (case info of
        None \<Rightarrow> Ret None
      | Some ainf \<Rightarrow>
          bind_run (thread_stop_wait (thread_stop_indicate (submit_thr ainf))) (\<lambda>_.
          bind_run (thread_stop_wait (thread_stop_indicate (getevents_thr ainf))) (\<lambda>_. Ret None)))"

text \<open>
  The results of the calls of \<open>btr_aio_setup\<close>: the allocations, \<open>open\<close> with and without
  \<open>O_DIRECT\<close> (a descriptor or \<open>-errno\<close>), \<open>io_setup\<close> (\<open>-errno\<close> on failure) and
  \<open>pthread_create\<close> for the threads, whose results are dropped.  \<open>pages\<close> are the
  pages of the block cache.
\<close>

definition btr_aio_setup ::
    "(nat \<Rightarrow> page option) \<Rightarrow> bool \<Rightarrow> int \<Rightarrow> int \<Rightarrow> bool \<Rightarrow> int \<Rightarrow> int \<Rightarrow> int \<Rightarrow> (int + btr_aio_info) run" where
  "btr_aio_setup pages mem_ok open_direct open_buffered rings_ok io_setup_ret submit_ret getevents_ret =
     (if \<not> mem_ok then bind_run (btr_aio_destroy None) (\<lambda>_. Ret (Inl (- ENOMEM)))
      else
        (let ainf = \<lparr>aio_ctx = False, aio_depth = AIO_QUEUE_DEPTH, dev_fd = -1, submit_thr = thread_init,
                     getevents_thr = thread_init, iocbs = (\<lambda>_. \<lparr>aio_data = 0, aio_write = False, aio_fildes = 0,
                     aio_buf = 0, aio_nbytes = 0, aio_offset = 0\<rparr>),
                     empty_bmap = push_bit AIO_QUEUE_DEPTH 1 - 1, submit_bmap = 0, aio_kernel = [],
                     aio_pages = pages\<rparr>;
             fd = (if open_direct = - EINVAL then open_buffered else open_direct)
         in if fd < 0 then bind_run (btr_aio_destroy (Some ainf)) (\<lambda>_. Ret (Inl fd))
            else
              (let ainf = ainf\<lparr>dev_fd := fd\<rparr>
               in if \<not> rings_ok then bind_run (btr_aio_destroy (Some ainf)) (\<lambda>_. Ret (Inl (- ENOMEM)))
                  else if io_setup_ret < 0
                  then bind_run (btr_aio_destroy (Some ainf)) (\<lambda>_. Ret (Inl io_setup_ret))
                  else
                    (let ainf = ainf\<lparr>aio_ctx := True\<rparr>;
                         (ret, thr) = thread_start submit_ret (submit_thr ainf);
                         ainf = ainf\<lparr>submit_thr := thr\<rparr>;
                         (ret, ainf) =
                           (if ret \<noteq> 0 then (ret, ainf)
                            else (let (ret, thr) = thread_start getevents_ret (getevents_thr ainf)
                                  in (ret, ainf\<lparr>getevents_thr := thr\<rparr>)))
                     in Ret (Inr ainf)))))"

end
