(* ===== verification/Btr_Aio_Props.thy ===== *)
theory Btr_Aio_Props
  imports Btr_Aio
begin

text \<open>
  The aio transport carries one request at a time: \<open>get_and_clear_iocb_bit\<close> takes all
  free iocbs and hands out the last one, which comes back when the request is complete.
\<close>

unbundle bit_operations_syntax

subsection \<open>Taking a bit\<close>

lemma find_first_bit_props:
  assumes "w \<noteq> 0"
  shows "bit w (find_first_bit w)" "find_first_bit w < 64" "bit w n \<Longrightarrow> find_first_bit w \<le> n"
proof -
  let ?l = "filter (bit w) [0..<64]"
  obtain k where k: "bit w k" using assms bit_eq_iff [of w 0] by auto
  have b: "n < 64" if "bit w n" for n using bit_imp_le_length [OF that] by simp
  with k have ne: "?l \<noteq> []" by (auto simp: filter_empty_conv)
  then have hd: "List.hd ?l \<in> set ?l" by (rule hd_in_set)
  then show "bit w (find_first_bit w)" "find_first_bit w < 64" by (auto simp: find_first_bit_def)
  assume "bit w n"
  then have n: "n \<in> set ?l" using b by simp
  have "sorted ?l" by (rule sorted_wrt_filter) simp
  then show "find_first_bit w \<le> n" using n ne unfolding find_first_bit_def
    by (cases ?l) auto
qed

definition clear_nr :: "u64 \<Rightarrow> nat \<Rightarrow> u64" where
  "clear_nr w n = w AND NOT (nr_bit n)"

lemma bit_clear_nr: "bit (clear_nr w n) m \<longleftrightarrow> bit w m \<and> m \<noteq> n mod 64"
  using bit_imp_le_length [of w m] by (auto simp: clear_nr_def bit_and_iff bit_not_iff bit_nr_bit)

lemma test_and_clear_first:
  assumes "w \<noteq> 0"
  shows "test_and_clear_bit (find_first_bit w) (\<lambda>_. w) = (True, (\<lambda>_. w)(0 := clear_nr w (find_first_bit w)))"
  using find_first_bit_props(1,2) [OF assms]
  by (simp add: test_and_clear_bit_def Let_def and_nr_bit clear_nr_def)

definition top_bit :: "u64 \<Rightarrow> nat" where
  "top_bit w = Max {n. bit w n}"

lemma finite_bits: "finite {n. bit (w :: u64) n}"
  by (rule finite_subset [of _ "{..<64}"]) (use bit_imp_le_length [of w] in auto)

lemma get_and_clear_loop_eq:
  "card {n. bit w n} \<le> fuel \<Longrightarrow>
   get_and_clear_loop fuel acc w = Ret (if w = 0 then acc else Some (top_bit w), 0)"
proof (induction fuel arbitrary: acc w)
  case 0
  then have "{n. bit w n} = {}" using finite_bits by simp
  then have "w = 0" using bit_eq_iff [of w 0] by auto
  then show ?case by simp
next
  case (Suc fuel)
  show ?case
  proof (cases "w = 0")
    case False
    let ?n = "find_first_bit w"
    note f = find_first_bit_props [OF False]
    have bits: "{m. bit (clear_nr w ?n) m} = {m. bit w m} - {?n}" using f by (auto simp: bit_clear_nr)
    have "card {m. bit (clear_nr w ?n) m} \<le> fuel"
      unfolding bits using Suc.prems f(1) by (simp add: card_Diff_singleton_if)
    then have "get_and_clear_loop fuel (Some ?n) (clear_nr w ?n) =
        Ret (if clear_nr w ?n = 0 then Some ?n else Some (top_bit (clear_nr w ?n)), 0)"
      using Suc.IH [of "clear_nr w ?n" "Some ?n"] by simp
    also have "(if clear_nr w ?n = 0 then Some ?n else Some (top_bit (clear_nr w ?n))) = Some (top_bit w)"
    proof (cases "clear_nr w ?n = 0")
      case True
      then have "{m. bit w m} - {?n} = {}" using bits by simp
      then have "{m. bit w m} = {?n}" using f(1) by auto
      then show ?thesis using True by (simp add: top_bit_def)
    next
      case 2: False
      then obtain k where k: "bit w k" "k \<noteq> ?n" using bits bit_eq_iff [of "clear_nr w ?n" 0] by auto
      have "Max {m. bit w m} = Max (insert ?n ({m. bit w m} - {?n}))" using f(1) by (auto intro: arg_cong [of _ _ Max])
      also have "\<dots> = max ?n (Max ({m. bit w m} - {?n}))" using k finite_bits by (subst Max_insert) auto
      also have "\<dots> = Max ({m. bit w m} - {?n})"
      proof -
        have "?n \<le> k" using f(3) [OF k(1)] .
        also have "k \<le> Max ({m. bit w m} - {?n})" using k finite_bits by (intro Max_ge) auto
        finally show ?thesis by simp
      qed
      finally show ?thesis using 2 unfolding top_bit_def bits by simp
    qed
    finally show ?thesis using False by (simp add: test_and_clear_first)
  qed simp
qed

lemma get_and_clear_iocb_bit_eq:
  "get_and_clear_iocb_bit w = Ret (if w = 0 then None else Some (top_bit w), 0)"
proof -
  have "card {n. bit w n} \<le> card {..<64::nat}"
    by (rule card_mono) (use bit_imp_le_length [of w] in auto)
  then show ?thesis by (simp add: get_and_clear_iocb_bit_def get_and_clear_loop_eq)
qed

lemma top_bit_props:
  assumes "w \<noteq> 0"
  shows "bit w (top_bit w)" "top_bit w < 64"
proof -
  have "{n. bit w n} \<noteq> {}" using assms bit_eq_iff [of w 0] by auto
  then have "top_bit w \<in> {n. bit w n}" unfolding top_bit_def by (rule Max_in [OF finite_bits])
  then show "bit w (top_bit w)" "top_bit w < 64" using bit_imp_le_length [of w "top_bit w"] by auto
qed

lemma top_bit_nr_bit: "n < 64 \<Longrightarrow> top_bit (nr_bit n) = n" "nr_bit n \<noteq> 0"
proof -
  have "bit (nr_bit n) (n mod 64)" by (simp add: bit_nr_bit)
  then show "nr_bit n \<noteq> 0" by auto
  assume "n < 64"
  then have "{m. bit (nr_bit n) m} = {n}" by (auto simp: bit_nr_bit)
  then show "top_bit (nr_bit n) = n" by (simp add: top_bit_def)
qed

subsection \<open>One request\<close>

definition aio_idle :: "btr_aio_info \<Rightarrow> bool" where
  "aio_idle ainf \<longleftrightarrow> aio_depth ainf = AIO_QUEUE_DEPTH \<and> empty_bmap ainf \<noteq> 0 \<and> (\<forall>n. bit (empty_bmap ainf) n \<longrightarrow> n < 63) \<and>
     submit_bmap ainf = 0 \<and> aio_kernel ainf = []"

lemma btr_aio_setup_idle:
  "btr_aio_setup pages mem_ok od ob rings io sr gr = Ret (Inr ainf) \<Longrightarrow> aio_idle ainf"
proof -
  assume a: "btr_aio_setup pages mem_ok od ob rings io sr gr = Ret (Inr ainf)"
  have m: "(9223372036854775807 :: u64) = mask 63" by (simp add: mask_eq_decr_exp)
  have "n < 63" if "bit (9223372036854775807 :: u64) n" for n using that unfolding m by (simp only: bit_mask_iff)
  then show ?thesis using a
    by (auto simp: btr_aio_setup_def aio_idle_def btr_aio_destroy_def thread_defs Let_def run_simps split: if_splits)
qed

text \<open>The block number survives the shifts while it is below \<open>2 ^ 51\<close>.\<close>

lemma bnr_shift:
  assumes "(bnr :: u64) < 2 ^ 51"
  shows "signed_drop_bit 12 (push_bit 12 bnr) = bnr"
proof (rule bit_word_eqI)
  fix n assume n: "n < LENGTH(64)"
  have hi: "\<not> bit bnr m" if "51 \<le> m" for m
  proof -
    have "unat bnr < 2 ^ 51" using assms by (simp add: word_less_nat_alt)
    also have "\<dots> \<le> (2::nat) ^ m" using that by (intro power_increasing) auto
    finally have "\<not> bit (unat bnr) m" by (simp add: bit_iff_odd)
    then show ?thesis using bit_imp_le_length [of bnr m] by (auto simp: bit_unsigned_iff)
  qed
  show "bit (signed_drop_bit 12 (push_bit 12 bnr)) n = bit bnr n"
    using n hi [of n] hi [of 51] by (auto simp: bit_signed_drop_bit_iff bit_push_bit_iff)
qed

definition the_request :: "btx_op \<Rightarrow> u64 \<Rightarrow> nat \<Rightarrow> btr_aio_info \<Rightarrow> iocb" where
  "the_request op bnr page ainf = \<lparr>aio_data = page, aio_write = (op = NGNFS_BTX_OP_WRITE), aio_fildes = dev_fd ainf,
     aio_buf = page, aio_nbytes = 4096, aio_offset = push_bit 12 bnr\<rparr>"

lemma set_iocb_bit_idle:
  "aio_depth ainf = AIO_QUEUE_DEPTH \<Longrightarrow> n < 63 \<Longrightarrow> set_iocb_bit ainf n bmap = Ret (bmap OR nr_bit n)"
  by (simp add: set_iocb_bit_def iocb_bit_nr_def set_bit_op_def nr_addr_def)

lemma aio_submit_idle:
  assumes "aio_idle ainf" "aio_pages ainf page = Some pg"
  shows "btr_aio_submit_block op bnr page ainf =
    Ret (0, ainf\<lparr>empty_bmap := 0, submit_bmap := nr_bit (top_bit (empty_bmap ainf)),
      iocbs := (iocbs ainf)(top_bit (empty_bmap ainf) := the_request op bnr page ainf),
      aio_pages := (aio_pages ainf)(page \<mapsto> get_page pg)\<rparr>)"
proof -
  let ?n = "top_bit (empty_bmap ainf)"
  have "?n < 63" using assms top_bit_props [of "empty_bmap ainf"] by (auto simp: aio_idle_def)
  then show ?thesis using assms
    by (simp add: btr_aio_submit_block_def get_and_clear_iocb_bit_eq aio_idle_def set_iocb_bit_idle the_request_def Let_def)
qed

lemma aio_submit_busy: "empty_bmap ainf = 0 \<Longrightarrow> btr_aio_submit_block op bnr page ainf = Bug"
  by (simp add: btr_aio_submit_block_def get_and_clear_iocb_bit_eq)

lemma submit_round_one:
  assumes "submit_bmap ainf = nr_bit n" "n < 64" "aio_depth ainf = AIO_QUEUE_DEPTH"
  shows "submit_thread_round (\<lambda>l. int (length l)) ainf =
    Ret (ainf\<lparr>submit_bmap := 0, aio_kernel := aio_kernel ainf @ [(n, iocbs ainf n)]\<rparr>)"
  using assms top_bit_nr_bit [of n]
  by (simp add: submit_thread_round_def get_and_clear_iocb_bit_eq Let_def numeral_eq_Suc)

text \<open>The completion of the only request.\<close>

lemma getevents_one:
  assumes "aio_depth ainf = AIO_QUEUE_DEPTH" "n < 63" "aio_kernel ainf = [(n, io)]" "empty_bmap ainf = 0"
    and "aio_offset (iocbs ainf n) = push_bit 12 bnr" "bnr < 2 ^ 51" "aio_pages ainf page = Some pg"
  shows "getevents_thread_round end_io 1 [\<lparr>ev_data = page, ev_obj = n, ev_res = res\<rparr>] ainf s =
    bind_run (end_io bnr page (event_err res) s) (\<lambda>s.
      Ret (ainf\<lparr>aio_kernel := [], aio_pages := (aio_pages ainf)(page := put_page pg), empty_bmap := nr_bit n\<rparr>, s))"
  using assms
  by (simp add: getevents_thread_round_def event_bnr_def bnr_shift set_iocb_bit_idle Let_def)

text \<open>C36: The aio transport carries one request at a time.  A submission of a live page to an idle
  transport takes an iocb, the submit thread hands exactly that request to the kernel,
  and its completion ends the IO of the same block, with success exactly when all 4096
  bytes were moved, and leaves the transport idle, with the page still allocated and two more
  references counted on it than before.  A second submission before the completion fails an
  assertion, although the advertised queue depth is 63.\<close>

theorem aio_one_request_at_a_time:
  assumes "aio_idle ainf" "bnr < 2 ^ 51" "aio_pages ainf page = Some pg" "unat (page_refcount pg) < 2 ^ 64 - 2"
  shows "btr_aio_queue_depth ainf = 63 \<and>
    (\<exists>ainf1 ainf2 ainf3 n io.
      btr_aio_submit_block op bnr page ainf = Ret (0, ainf1) \<and>
      btr_aio_submit_block op' bnr' page' ainf1 = Bug \<and>
      submit_thread_round (\<lambda>l. int (length l)) ainf1 = Ret ainf2 \<and>
      btr_aio_submit_block op' bnr' page' ainf2 = Bug \<and>
      aio_kernel ainf2 = [(n, io)] \<and> aio_write io = (op = NGNFS_BTX_OP_WRITE) \<and>
      aio_offset io = push_bit 12 bnr \<and> aio_buf io = page \<and> aio_nbytes io = 4096 \<and>
      (\<forall>res. getevents_thread_round end_io 1 [\<lparr>ev_data = aio_data io, ev_obj = n, ev_res = res\<rparr>] ainf2 s =
         bind_run (end_io bnr page (event_err res) s) (\<lambda>s. Ret (ainf3, s))) \<and>
      aio_idle ainf3 \<and>
      aio_pages ainf3 = (aio_pages ainf)(page \<mapsto> pg\<lparr>page_refcount := page_refcount pg + 2\<rparr>))"
proof -
  let ?n = "top_bit (empty_bmap ainf)" and ?io = "the_request op bnr page ainf"
  define ainf1 where "ainf1 = ainf\<lparr>empty_bmap := 0, submit_bmap := nr_bit ?n, iocbs := (iocbs ainf)(?n := ?io),
      aio_pages := (aio_pages ainf)(page \<mapsto> get_page pg)\<rparr>"
  define ainf2 where "ainf2 = ainf1\<lparr>submit_bmap := 0, aio_kernel := [(?n, ?io)]\<rparr>"
  define ainf3 where "ainf3 = ainf2\<lparr>aio_kernel := [],
      aio_pages := (aio_pages ainf2)(page := put_page (get_page pg)), empty_bmap := nr_bit ?n\<rparr>"
  have n: "?n < 63" using assms top_bit_props [of "empty_bmap ainf"] by (auto simp: aio_idle_def)
  have 1: "btr_aio_submit_block op bnr page ainf = Ret (0, ainf1)"
    unfolding ainf1_def by (rule aio_submit_idle [OF assms(1,3)])
  have 2: "submit_thread_round (\<lambda>l. int (length l)) ainf1 = Ret ainf2"
    using submit_round_one [of ainf1 ?n] n assms(1) by (simp add: ainf1_def ainf2_def aio_idle_def)
  have 3: "btr_aio_submit_block op' bnr' page' ainf1 = Bug" "btr_aio_submit_block op' bnr' page' ainf2 = Bug"
    by (simp_all add: aio_submit_busy ainf1_def ainf2_def)
  have 4: "getevents_thread_round end_io 1 [\<lparr>ev_data = aio_data ?io, ev_obj = ?n, ev_res = res\<rparr>] ainf2 s =
      bind_run (end_io bnr page (event_err res) s) (\<lambda>s. Ret (ainf3, s))" for res
    using getevents_one [of ainf2 ?n ?io bnr page "get_page pg" end_io res s] n assms
    by (simp add: ainf3_def ainf2_def ainf1_def aio_idle_def the_request_def)
  have 5: "aio_idle ainf3" "aio_pages ainf3 = (aio_pages ainf)(page \<mapsto> pg\<lparr>page_refcount := page_refcount pg + 2\<rparr>)"
    using assms(1) n top_bit_nr_bit(2) get_put_page_counts [OF assms(4)]
    by (auto simp: ainf3_def ainf2_def ainf1_def aio_idle_def bit_nr_bit)
  have 6: "aio_kernel ainf2 = [(?n, ?io)]" "aio_write ?io = (op = NGNFS_BTX_OP_WRITE)"
    "aio_offset ?io = push_bit 12 bnr" "aio_buf ?io = page" "aio_nbytes ?io = 4096"
    by (simp_all add: ainf2_def the_request_def)
  have "btr_aio_queue_depth ainf = 63" using assms(1) by (simp add: aio_idle_def btr_aio_queue_depth_def)
  then show ?thesis using 1 2 3 4 5 6 by blast
qed

text \<open>A transport set up by devd, with one page.\<close>

definition example_page :: page where
  "example_page = \<lparr>page_refcount = 1, page_buf = []\<rparr>"

definition example_aio :: btr_aio_info where
  "example_aio = \<lparr>aio_ctx = True, aio_depth = 63, dev_fd = 5, submit_thr = snd (thread_start 0 thread_init),
     getevents_thr = snd (thread_start 0 thread_init), iocbs = (\<lambda>_. \<lparr>aio_data = 0, aio_write = False, aio_fildes = 0,
     aio_buf = 0, aio_nbytes = 0, aio_offset = 0\<rparr>), empty_bmap = 9223372036854775807, submit_bmap = 0,
     aio_kernel = [], aio_pages = [3 \<mapsto> example_page]\<rparr>"

lemma example_aio_setup: "btr_aio_setup [3 \<mapsto> example_page] True 5 0 True 0 0 0 = Ret (Inr example_aio)"
  by (simp add: btr_aio_setup_def example_aio_def thread_defs)

theorem aio_one_request_at_a_time_witness:
  "\<exists>ainf. btr_aio_submit_block NGNFS_BTX_OP_WRITE 7 3 example_aio = Ret (0, ainf) \<and>
     btr_aio_submit_block NGNFS_BTX_OP_WRITE 8 4 ainf = Bug"
  using aio_one_request_at_a_time [OF btr_aio_setup_idle [OF example_aio_setup], of 7 3 example_page NGNFS_BTX_OP_WRITE
      NGNFS_BTX_OP_WRITE 8 4 "\<lambda>_ _ _ s. Ret s" "()"]
  by (auto simp: example_aio_def example_page_def)

end
