(* ===== verification/Trace.thy ===== *)
theory Trace
  imports Lk_Words Lk_Thread
begin

text \<open>
  Tracing, \<open>shared/trace.c\<close>, with the trace parts of \<open>shared/thread.c\<close>, and the printer of
  trace files, \<open>cli/print-trace-file.c\<close>.  Buffers and threads are numbers; a thread's list
  of buffers and the queue for the writing thread are lists of buffers.  The trace file is
  the bytes written to it.
\<close>

definition TRACE_BUF_SIZE :: nat where [simp]: "TRACE_BUF_SIZE = 32 * 1024"
definition NR_BUFS :: nat where [simp]: "NR_BUFS = 1024 * 1024 div TRACE_BUF_SIZE"
definition sizeof_trace_header :: nat where [simp]: "sizeof_trace_header = 8"

record trace_buf =
  tb_refcount :: int
  TB_WRITING :: bool
  tb_mem :: mem
  tb_len :: nat
  tb_size :: nat
  tb_freed :: bool

record trace_thread_private =
  tp_bufs :: "nat list"
  storing_buf :: "nat option"

record trace_info =
  tr_threads :: "nat list"
  tr_fd :: int
  write_thr :: thread_state
  write_q :: "nat list"
  tr_file :: "u8 list"

record trace_state =
  global_trinf :: "trace_info option"
  tbufs :: "nat \<Rightarrow> trace_buf"
  next_tbuf :: nat
  tprivs :: "nat \<Rightarrow> trace_thread_private"

definition upd_tbuf :: "nat \<Rightarrow> (trace_buf \<Rightarrow> trace_buf) \<Rightarrow> trace_state \<Rightarrow> trace_state" where
  "upd_tbuf b f st = st\<lparr>tbufs := (tbufs st)(b := f (tbufs st b))\<rparr>"

definition upd_trinf :: "(trace_info \<Rightarrow> trace_info) \<Rightarrow> trace_state \<Rightarrow> trace_state" where
  "upd_trinf f st = st\<lparr>global_trinf := map_option f (global_trinf st)\<rparr>"

definition upd_tpriv :: "nat \<Rightarrow> (trace_thread_private \<Rightarrow> trace_thread_private) \<Rightarrow> trace_state \<Rightarrow> trace_state" where
  "upd_tpriv t f st = st\<lparr>tprivs := (tprivs st)(t := f (tprivs st t))\<rparr>"

subsection \<open>Buffers\<close>

text \<open>The allocation's memory keeps what it held: \<open>junk\<close>, or None when there is none.\<close>

definition alloc_tbuf :: "mem option \<Rightarrow> trace_state \<Rightarrow> nat option \<times> trace_state" where
  "alloc_tbuf malloc st =
     (case malloc of
        None \<Rightarrow> (None, st)
      | Some junk \<Rightarrow>
          (Some (next_tbuf st),
           st\<lparr>tbufs := (tbufs st)(next_tbuf st := \<lparr>tb_refcount = 1, TB_WRITING = False, tb_mem = junk, tb_len = 0,
                tb_size = TRACE_BUF_SIZE, tb_freed = False\<rparr>),
              next_tbuf := Suc (next_tbuf st)\<rparr>))"

definition put_tbuf :: "nat \<Rightarrow> trace_state \<Rightarrow> trace_state" where
  "put_tbuf b st =
     (let st = upd_tbuf b (\<lambda>tb. tb\<lparr>tb_refcount := tb_refcount tb - 1\<rparr>) st
      in if tb_refcount (tbufs st b) = 0 then upd_tbuf b (\<lambda>tb. tb\<lparr>tb_freed := True\<rparr>) st else st)"

definition get_tbuf :: "nat \<Rightarrow> trace_state \<Rightarrow> trace_state" where
  "get_tbuf b st = upd_tbuf b (\<lambda>tb. tb\<lparr>tb_refcount := tb_refcount tb + 1\<rparr>) st"

definition try_enqueue_writing :: "nat \<Rightarrow> trace_state \<Rightarrow> trace_state" where
  "try_enqueue_writing b st =
     (if TB_WRITING (tbufs st b) then st
      else
        (let st = upd_tbuf b (\<lambda>tb. tb\<lparr>TB_WRITING := True\<rparr>) st;
             st = get_tbuf b st
         in upd_trinf (\<lambda>tr. tr\<lparr>write_q := write_q tr @ [b]\<rparr>) st))"

subsection \<open>Storing events\<close>

definition trace_total :: "nat \<Rightarrow> nat" where
  "trace_total len = sizeof_trace_header + unat (round_up (of_nat len :: u64) 8)"

text \<open>
  \<open>trace_store_ptr\<close> of thread \<open>t\<close>: the buffer, and the offset in it at which the caller
  stores \<open>len\<close> bytes.  The padding of the header keeps what was there.
\<close>

definition trace_store_ptr :: "nat \<Rightarrow> u16 \<Rightarrow> nat \<Rightarrow> trace_state \<Rightarrow> (nat \<times> nat) option \<times> trace_state" where
  "trace_store_ptr t eid len st =
     (case global_trinf st of
        None \<Rightarrow> (None, st)
      | Some _ \<Rightarrow>
          (let total = trace_total len;
               (tbuf, st) =
                 (case storing_buf (tprivs st t) of
                    None \<Rightarrow> (None, st)
                  | Some b \<Rightarrow>
                      if tb_len (tbufs st b) + total > tb_size (tbufs st b) \<or> TB_WRITING (tbufs st b)
                      then (None, upd_tpriv t (\<lambda>tp. tp\<lparr>tp_bufs := remove1 b (tp_bufs tp) @ [b], storing_buf := None\<rparr>)
                                    (try_enqueue_writing b st))
                      else (Some b, st));
               (tbuf, st) =
                 (case tbuf of
                    Some b \<Rightarrow> (Some b, st)
                  | None \<Rightarrow>
                      (case tp_bufs (tprivs st t) of
                         [] \<Rightarrow> (None, st)
                       | b # _ \<Rightarrow> if TB_WRITING (tbufs st b) then (None, st)
                                  else (Some b, upd_tpriv t (\<lambda>tp. tp\<lparr>storing_buf := Some b\<rparr>) st)))
           in case tbuf of
                None \<Rightarrow> (None, st)
              | Some b \<Rightarrow>
                  (Some (b, sizeof_trace_header),
                   upd_tbuf b (\<lambda>tb. tb\<lparr>tb_mem := put_unaligned_le16 (total mod 65536)
                                         (put_unaligned_le16 (unat eid) (tb_mem tb) 0) 2,
                                       tb_len := tb_len tb + total\<rparr>) st)))"

text \<open>A trace event: the caller stores its bytes at the pointer, if there is one.\<close>

definition trace_event :: "nat \<Rightarrow> u16 \<Rightarrow> u8 list \<Rightarrow> trace_state \<Rightarrow> trace_state" where
  "trace_event t eid payload st =
     (case trace_store_ptr t eid (length payload) st of
        (None, st) \<Rightarrow> st
      | (Some (b, off), st) \<Rightarrow> upd_tbuf b (\<lambda>tb. tb\<lparr>tb_mem := write_bytes (tb_mem tb) off payload\<rparr>) st)"

subsection \<open>Writing\<close>

text \<open>
  One round of \<open>trace_write_thread\<close>: the queued buffers are written with one \<open>writev\<close>, which has
  to write all of them, and become available again.
\<close>

primrec finish_writing :: "nat list \<Rightarrow> trace_state \<Rightarrow> trace_state" where
  "finish_writing [] st = st"
| "finish_writing (b # bs) st =
     finish_writing bs (put_tbuf b (upd_tbuf b (\<lambda>tb. tb\<lparr>tb_len := 0, TB_WRITING := False\<rparr>) st))"

definition queued_bytes :: "nat list \<Rightarrow> trace_state \<Rightarrow> u8 list" where
  "queued_bytes bs st = concat (map (\<lambda>b. bytes (tb_mem (tbufs st b)) 0 (tb_len (tbufs st b))) bs)"

definition trace_write_round :: "(u8 list \<Rightarrow> int) \<Rightarrow> trace_state \<Rightarrow> trace_state run" where
  "trace_write_round writev st =
     (case global_trinf st of
        None \<Rightarrow> Undef
      | Some tr \<Rightarrow>
          (let bs = write_q tr;
               out = queued_bytes bs st
           in BUG_ON (writev out \<noteq> int (length out)) (
                Ret (finish_writing bs
                  (upd_trinf (\<lambda>tr. tr\<lparr>write_q := [], tr_file := tr_file tr @ out\<rparr>) st)))))"

text \<open>\<open>trace_flush\<close> up to its wait for an empty queue.\<close>

primrec flush_threads :: "nat list \<Rightarrow> trace_state \<Rightarrow> trace_state" where
  "flush_threads [] st = st"
| "flush_threads (t # ts) st =
     flush_threads ts (case storing_buf (tprivs st t) of None \<Rightarrow> st | Some b \<Rightarrow> try_enqueue_writing b st)"

definition trace_flush :: "trace_state \<Rightarrow> trace_state run" where
  "trace_flush st =
     (case global_trinf st of None \<Rightarrow> Undef | Some tr \<Rightarrow> Ret (flush_threads (tr_threads tr) st))"

definition trace_flush_woken :: "trace_state \<Rightarrow> bool" where
  "trace_flush_woken st = (case global_trinf st of None \<Rightarrow> False | Some tr \<Rightarrow> write_q tr = [])"

subsection \<open>Threads\<close>

primrec put_list_bufs :: "nat list \<Rightarrow> trace_state \<Rightarrow> trace_state" where
  "put_list_bufs [] st = st"
| "put_list_bufs (b # bs) st = put_list_bufs bs (put_tbuf b st)"

text \<open>The loop of \<open>trace_register_thread\<close>, with the allocations it makes.\<close>

primrec register_bufs :: "nat \<Rightarrow> mem option list \<Rightarrow> trace_state \<Rightarrow> int \<times> trace_state" where
  "register_bufs t [] st = (0, st)"
| "register_bufs t (m # ms) st =
     (case alloc_tbuf m st of
        (None, st) \<Rightarrow>
          (- ENOMEM, upd_tpriv t (\<lambda>tp. tp\<lparr>tp_bufs := []\<rparr>) (put_list_bufs (tp_bufs (tprivs st t)) st))
      | (Some b, st) \<Rightarrow> register_bufs t ms (upd_tpriv t (\<lambda>tp. tp\<lparr>tp_bufs := b # tp_bufs tp\<rparr>) st))"

definition trace_register_thread :: "nat \<Rightarrow> mem option list \<Rightarrow> trace_state \<Rightarrow> int \<times> trace_state" where
  "trace_register_thread t mallocs st =
     (case global_trinf st of
        None \<Rightarrow> (0, st)
      | Some _ \<Rightarrow>
          (let st = upd_tpriv t (\<lambda>tp. \<lparr>tp_bufs = [], storing_buf = None\<rparr>) st;
               (ret, st) = register_bufs t (take NR_BUFS mallocs) st
           in if ret < 0 then (ret, st)
              else (0, upd_trinf (\<lambda>tr. tr\<lparr>tr_threads := tr_threads tr @ [t]\<rparr>) st)))"

definition trace_unregister_thread :: "nat \<Rightarrow> trace_state \<Rightarrow> trace_state" where
  "trace_unregister_thread t st =
     (case global_trinf st of
        None \<Rightarrow> st
      | Some _ \<Rightarrow>
          (let st = upd_trinf (\<lambda>tr. tr\<lparr>tr_threads := remove1 t (tr_threads tr)\<rparr>) st;
               st = (case storing_buf (tprivs st t) of
                       None \<Rightarrow> st
                     | Some b \<Rightarrow> upd_tpriv t (\<lambda>tp. tp\<lparr>storing_buf := None\<rparr>) (try_enqueue_writing b st));
               bs = tp_bufs (tprivs st t)
           in put_list_bufs bs (upd_tpriv t (\<lambda>tp. tp\<lparr>tp_bufs := []\<rparr>) st)))"

subsection \<open>Setup and teardown\<close>

definition trace_init :: "bool \<Rightarrow> trace_state \<Rightarrow> int \<times> trace_state" where
  "trace_init mem_ok st =
     (if \<not> mem_ok then (- ENOMEM, st)
      else (0, st\<lparr>global_trinf := Some \<lparr>tr_threads = [], tr_fd = -1, write_thr = thread_init, write_q = [],
                    tr_file = []\<rparr>\<rparr>))"

text \<open>\<open>fd\<close> is what \<open>open\<close> returned, \<open>create_ret\<close> what \<open>pthread_create\<close> did.\<close>

definition trace_setup :: "int \<Rightarrow> int \<Rightarrow> trace_state \<Rightarrow> int \<times> trace_state" where
  "trace_setup fd create_ret st =
     (case global_trinf st of
        None \<Rightarrow> (0, st)
      | Some tr \<Rightarrow>
          if fd < 0 then (- ENOMEM, upd_trinf (\<lambda>tr. tr\<lparr>tr_fd := fd\<rparr>) st)
          else
            (let (ret, thr) = thread_start create_ret (write_thr tr)
             in (ret, upd_trinf (\<lambda>tr. tr\<lparr>tr_fd := (if ret < 0 then -1 else fd), write_thr := thr\<rparr>) st)))"

text \<open>\<open>trace_destroy\<close> after its wait for an empty queue.\<close>

definition trace_destroy :: "trace_state \<Rightarrow> trace_state run" where
  "trace_destroy st =
     (case global_trinf st of
        None \<Rightarrow> Ret st
      | Some tr \<Rightarrow>
          if write_q tr \<noteq> [] then Spin
          else bind_run (thread_stop_wait (thread_stop_indicate (write_thr tr))) (\<lambda>_. Ret (st\<lparr>global_trinf := None\<rparr>)))"

text \<open>The registration of threads in \<open>thread.c\<close>.\<close>

definition register_thread :: "nat \<Rightarrow> mem option list \<Rightarrow> trace_state \<Rightarrow> trace_state run" where
  "register_thread t mallocs st =
     (let (ret, st) = trace_register_thread t mallocs st in BUG_ON (ret \<noteq> 0) (Ret st))"

definition unregister_thread :: "nat \<Rightarrow> trace_state \<Rightarrow> trace_state" where
  "unregister_thread t st = trace_unregister_thread t st"

definition thread_fn_wrapper :: "nat \<Rightarrow> mem option list \<Rightarrow> (trace_state \<Rightarrow> trace_state) \<Rightarrow> trace_state \<Rightarrow> trace_state run" where
  "thread_fn_wrapper t mallocs fn st =
     bind_run (register_thread t mallocs st) (\<lambda>st. Ret (unregister_thread t (fn st)))"

text \<open>\<open>sigmask_ret\<close> is dropped.\<close>

definition thread_prepare_main :: "int \<Rightarrow> bool \<Rightarrow> mem option list \<Rightarrow> trace_state \<Rightarrow> (int \<times> trace_state) run" where
  "thread_prepare_main sigmask_ret mem_ok mallocs st =
     (let (ret, st) = trace_init mem_ok st
      in if ret = 0 then bind_run (register_thread 0 mallocs st) (\<lambda>st. Ret (ret, st)) else Ret (ret, st))"

definition thread_finish_main :: "trace_state \<Rightarrow> trace_state run" where
  "thread_finish_main st = trace_destroy (unregister_thread 0 st)"

subsection \<open>Printing a trace file\<close>

text \<open>
  The inner loop of \<open>print_trace_file_func\<close> on the \<open>size\<close> bytes of the buffer: the events
  printed, as their id and the bytes behind the header, and the offset it stops at.
\<close>

definition hdr_id :: "u8 list \<Rightarrow> nat \<Rightarrow> nat" where
  "hdr_id buf off = le_num (take 2 (drop off buf))"

definition hdr_size :: "u8 list \<Rightarrow> nat \<Rightarrow> nat" where
  "hdr_size buf off = le_num (take 2 (drop (off + 2) buf))"

primrec print_loop :: "nat \<Rightarrow> u8 list \<Rightarrow> nat \<Rightarrow> (nat \<times> u8 list) list \<Rightarrow> ((nat \<times> u8 list) list \<times> nat) run" where
  "print_loop 0 buf off out =
     (if off + sizeof_trace_header \<le> length buf \<and> off + hdr_size buf off \<le> length buf then Spin else Ret (out, off))"
| "print_loop (Suc fuel) buf off out =
     (if off + sizeof_trace_header \<le> length buf then
        (if off + hdr_size buf off > length buf then Ret (out, off)
         else print_loop fuel buf (off + hdr_size buf off)
                (out @ [(hdr_id buf off, take (hdr_size buf off - sizeof_trace_header) (drop (off + sizeof_trace_header) buf))]))
      else Ret (out, off))"

text \<open>
  The outer loop: every element of \<open>chunks\<close> is the error or the bytes of one \<open>read\<close>, at most
  what is left of the buffer; no bytes are the end of the file.  The bytes read stay in the
  buffer when all of them were printed.
\<close>

definition PRINT_BUF_SIZE :: nat where [simp]: "PRINT_BUF_SIZE = 8 * 1024 * 1024"

primrec print_chunks ::
    "(int + u8 list) list \<Rightarrow> u8 list \<Rightarrow> (nat \<times> u8 list) list \<Rightarrow> (int \<times> (nat \<times> u8 list) list) run" where
  "print_chunks [] buf out = Ret (0, out)"
| "print_chunks (c # cs) buf out =
     (case c of
        Inl errno \<Rightarrow> Ret (- errno, out)
      | Inr bs \<Rightarrow>
          (let data = take (PRINT_BUF_SIZE - length buf) bs
           in if data = [] then Ret (0, out)
              else
                (let buf = buf @ data
                 in bind_run (print_loop (length buf) buf 0 out) (\<lambda>(out, off).
                      print_chunks cs (if off < length buf then drop off buf else buf) out))))"

definition print_trace_file_func :: "bool \<Rightarrow> nat \<Rightarrow> int \<Rightarrow> (int + u8 list) list \<Rightarrow> (int \<times> (nat \<times> u8 list) list) run" where
  "print_trace_file_func mem_ok argc fd chunks =
     (if \<not> mem_ok then Ret (- ENOMEM, [])
      else if argc \<noteq> 2 then Ret (- EINVAL, [])
      else if fd < 0 then Ret (fd, [])
      else print_chunks chunks [] [])"

end
