(* ===== verification/Trace_Props.thy ===== *)
theory Trace_Props
  imports Trace
begin

text \<open>
  The printer reads back what is laid out as trace events, one event that is stored,
  flushed and written is printed, and events stored in the same buffer overwrite each other.
\<close>

subsection \<open>Printing\<close>

type_synonym event = "nat \<times> u8 list \<times> u8 list"

text \<open>An event in a file: id, size, four bytes of padding and the bytes behind the header.\<close>

definition event_bytes :: "event \<Rightarrow> u8 list" where
  "event_bytes e = (case e of (i, pad, p) \<Rightarrow> num_le 2 i @ num_le 2 (8 + length p) @ pad @ p)"

definition event_ok :: "event \<Rightarrow> bool" where
  "event_ok e \<longleftrightarrow> (case e of (i, pad, p) \<Rightarrow> i < 65536 \<and> 8 + length p < 65536 \<and> length pad = 4)"

definition event_shown :: "event \<Rightarrow> nat \<times> u8 list" where
  "event_shown e = (case e of (i, pad, p) \<Rightarrow> (i, p))"

definition events_bytes :: "event list \<Rightarrow> u8 list" where
  "events_bytes es = concat (map event_bytes es)"

lemma event_bytes_length: "event_ok e \<Longrightarrow> 8 \<le> length (event_bytes e)"
  by (auto simp: event_ok_def event_bytes_def)

lemma event_bytes_props:
  assumes "event_ok e"
  shows "hdr_size (pre @ event_bytes e @ rest) (length pre) = length (event_bytes e)"
    "hdr_id (pre @ event_bytes e @ rest) (length pre) = fst (event_shown e)"
    "take (length (event_bytes e) - 8) (drop (length pre + 8) (pre @ event_bytes e @ rest)) = snd (event_shown e)"
  using assms
  by (auto simp: event_ok_def event_bytes_def event_shown_def hdr_size_def hdr_id_def le_num_num_le)

definition no_event :: "u8 list \<Rightarrow> bool" where
  "no_event rest \<longleftrightarrow> \<not> (8 \<le> length rest \<and> hdr_size rest 0 \<le> length rest)"

lemma print_loop_stops:
  assumes "no_event rest"
  shows "print_loop fuel (pre @ rest) (length pre) out = Ret (out, length pre)"
proof -
  have "hdr_size (pre @ rest) (length pre) = hdr_size rest 0" by (simp add: hdr_size_def numeral_2_eq_2)
  then show ?thesis using assms by (cases fuel) (auto simp: no_event_def)
qed

lemma print_loop_events:
  assumes "\<forall>e\<in>set es. event_ok e" "no_event rest" "length es \<le> fuel"
  shows "print_loop fuel (pre @ events_bytes es @ rest) (length pre) out =
    Ret (out @ map event_shown es, length pre + length (events_bytes es))"
  using assms
proof (induction es arbitrary: pre out fuel)
  case Nil
  then show ?case using print_loop_stops [of rest fuel pre out] by (simp add: events_bytes_def)
next
  case (Cons e es)
  then obtain f where f: "fuel = Suc f" by (cases fuel) auto
  have e: "event_ok e" using Cons.prems(1) by simp
  have buf: "pre @ events_bytes (e # es) @ rest = pre @ event_bytes e @ (events_bytes es @ rest)" by (simp add: events_bytes_def)
  have IH: "print_loop f ((pre @ event_bytes e) @ events_bytes es @ rest) (length (pre @ event_bytes e)) (out @ [event_shown e]) =
      Ret ((out @ [event_shown e]) @ map event_shown es, length (pre @ event_bytes e) + length (events_bytes es))"
    using Cons.prems f by (intro Cons.IH) auto
  note p = event_bytes_length [OF e] event_bytes_props [OF e, of pre "events_bytes es @ rest"]
  define b where "b = pre @ event_bytes e @ events_bytes es @ rest"
  have "length pre + length (event_bytes e) \<le> length b" by (simp add: b_def)
  then have "print_loop (Suc f) b (length pre) out = print_loop f b (length pre + length (event_bytes e)) (out @ [event_shown e])"
    using p unfolding b_def [symmetric] by simp
  then show ?case unfolding buf f using IH by (simp add: b_def) (simp add: events_bytes_def)
qed

lemma length_events: "\<forall>e\<in>set es. event_ok e \<Longrightarrow> length es \<le> length (events_bytes es)"
proof (induction es)
  case (Cons e es)
  then show ?case using event_bytes_length [of e] by (simp add: events_bytes_def)
qed simp

lemma print_buffer:
  assumes "\<forall>e\<in>set es. event_ok e" "no_event rest"
  shows "print_loop (length (events_bytes es @ rest)) (events_bytes es @ rest) 0 out =
    Ret (out @ map event_shown es, length (events_bytes es))"
  using print_loop_events [OF assms, of "length (events_bytes es @ rest)" "[]" out] length_events [OF assms(1)] by simp

lemma no_event_Nil [simp]: "no_event []"
  by (simp add: no_event_def)

lemma no_event_part:
  assumes "event_ok e" "event_bytes e = part @ rest" "rest \<noteq> []"
  shows "no_event part"
proof (cases "8 \<le> length part")
  case True
  then have "hdr_size part 0 = hdr_size (event_bytes e) 0" using assms(2) by (simp add: hdr_size_def)
  also have "\<dots> = length (event_bytes e)" using event_bytes_props(1) [OF assms(1), of "[]" "[]"] by simp
  finally show ?thesis using assms(2,3) by (simp add: no_event_def)
qed (simp add: no_event_def)

lemma print_chunks_step:
  assumes "buf @ c = events_bytes es @ rest" "\<forall>e\<in>set es. event_ok e" "no_event rest"
    and "length (buf @ c) \<le> PRINT_BUF_SIZE" "c \<noteq> []"
  shows "print_chunks (Inr c # cs) buf out =
    print_chunks cs (if rest = [] then buf @ c else rest) (out @ map event_shown es)"
proof -
  have d: "take (PRINT_BUF_SIZE - length buf) c = c" using assms(4) by simp
  have "print_loop (length (buf @ c)) (buf @ c) 0 out = Ret (out @ map event_shown es, length (events_bytes es))"
    unfolding assms(1) using assms(2,3) by (rule print_buffer)
  then show ?thesis using assms(5) unfolding print_chunks.simps sum.case Let_def d assms(1) by simp
qed

lemma print_chunks_end: "print_chunks [Inr []] buf out = Ret (0, out)"
  by simp

text \<open>The printer of trace files prints the events of a file in order, once each, when
  the file comes with one read or when the reads cut it inside of an event.  When a read ends
  exactly between two events, all events of that read are printed again after the next read.\<close>

theorem print_trace_file_prints:
  assumes "\<forall>e\<in>set (es1 @ e # es2). event_ok e" "length (events_bytes (es1 @ e # es2)) \<le> PRINT_BUF_SIZE div 2" "fd \<ge> 0"
    and "event_bytes e = part @ rest" "part \<noteq> []" "rest \<noteq> []" "es1 \<noteq> []"
  shows "print_trace_file_func True 2 fd [Inr (events_bytes (es1 @ e # es2)), Inr []] =
      Ret (0, map event_shown (es1 @ e # es2)) \<and>
    print_trace_file_func True 2 fd [Inr (events_bytes es1 @ part), Inr (rest @ events_bytes es2), Inr []] =
      Ret (0, map event_shown (es1 @ e # es2)) \<and>
    print_trace_file_func True 2 fd [Inr (events_bytes es1), Inr (events_bytes (e # es2)), Inr []] =
      Ret (0, map event_shown (es1 @ es1 @ e # es2))"
proof -
  let ?n = "PRINT_BUF_SIZE"
  have ok: "\<forall>e\<in>set es1. event_ok e" "event_ok e" "\<forall>e\<in>set (e # es2). event_ok e" using assms(1) by auto
  have len: "length (events_bytes es1) + length part + length rest + length (events_bytes es2) \<le> ?n div 2"
    using assms(2,4) by (simp add: events_bytes_def)
  have ne: "events_bytes es1 \<noteq> []" using length_events [OF ok(1)] assms(7) by auto
  have split: "events_bytes (es1 @ e # es2) = events_bytes es1 @ part @ rest @ events_bytes es2"
    "events_bytes (e # es2) = part @ rest @ events_bytes es2" using assms(4) by (simp_all add: events_bytes_def)
  note np = no_event_part [OF ok(2) assms(4,6)]
  have f: "print_trace_file_func True 2 fd cs = print_chunks cs [] []" for cs
    using assms(3) by (simp add: print_trace_file_func_def)
  have small: "length (events_bytes es1 @ part @ rest @ events_bytes es2) \<le> PRINT_BUF_SIZE" using len by simp
  have all: "\<forall>x\<in>set (es1 @ e # es2). event_ok x" by (rule assms(1))
  have "print_chunks [Inr (events_bytes (es1 @ e # es2)), Inr []] [] [] = Ret (0, map event_shown (es1 @ e # es2))"
    using print_chunks_step [of "[]" _ "es1 @ e # es2" "[]"] all small ne unfolding split by (simp del: print_chunks.simps add: print_chunks_end)
  moreover have "print_chunks [Inr (events_bytes es1 @ part), Inr (rest @ events_bytes es2), Inr []] [] [] =
      Ret (0, map event_shown (es1 @ e # es2))"
    using print_chunks_step [of "[]" "events_bytes es1 @ part" es1 part]
      print_chunks_step [of part "rest @ events_bytes es2" "e # es2" "[]"] ok np small assms(5,6) split(2)
    by (simp del: print_chunks.simps add: print_chunks_end)
  moreover have "print_chunks [Inr (events_bytes es1), Inr (events_bytes (e # es2)), Inr []] [] [] =
      Ret (0, map event_shown (es1 @ es1 @ e # es2))"
    using print_chunks_step [of "[]" "events_bytes es1" es1 "[]"]
      print_chunks_step [of "events_bytes es1" "events_bytes (e # es2)" "es1 @ e # es2" "[]"] ok all small ne assms(5) split
    by (simp del: print_chunks.simps add: print_chunks_end)
  ultimately show ?thesis unfolding f by blast
qed

theorem print_trace_file_prints_witness:
  "print_trace_file_func True 2 3 [Inr (events_bytes [(1, [0, 0, 0, 0], [5])]), Inr (events_bytes [(2, [0, 0, 0, 0], [])]), Inr []] =
    Ret (0, [(1, [5]), (1, [5]), (2, [])])"
  using print_trace_file_prints [of "[(1, [0, 0, 0, 0], [5])]" "(2, [0, 0, 0, 0], [])" "[]" 3
      "take 1 (event_bytes (2, [0, 0, 0, 0], []))" "drop 1 (event_bytes (2, [0, 0, 0, 0], []))"]
    length_num_le [of 2 2]
  by (cases "num_le 2 2") (auto simp: event_ok_def event_shown_def events_bytes_def event_bytes_def)

subsection \<open>Storing events\<close>

text \<open>A thread that is storing into an idle buffer with room for the event.\<close>

definition can_store :: "nat \<Rightarrow> nat \<Rightarrow> nat \<Rightarrow> trace_state \<Rightarrow> bool" where
  "can_store t b len st \<longleftrightarrow> global_trinf st \<noteq> None \<and> storing_buf (tprivs st t) = Some b \<and> \<not> TB_WRITING (tbufs st b) \<and>
     tb_len (tbufs st b) + trace_total len \<le> tb_size (tbufs st b)"

definition store_event :: "u16 \<Rightarrow> u8 list \<Rightarrow> mem \<Rightarrow> mem" where
  "store_event eid p m = write_bytes (put_unaligned_le16 (trace_total (length p) mod 65536) (put_unaligned_le16 (unat eid) m 0) 2) 8 p"

lemma trace_event_stores:
  assumes "can_store t b (length p) st"
  shows "trace_event t eid p st =
    upd_tbuf b (\<lambda>tb. tb\<lparr>tb_len := tb_len tb + trace_total (length p), tb_mem := store_event eid p (tb_mem tb)\<rparr>) st"
  using assms
  by (auto simp: can_store_def trace_event_def trace_store_ptr_def Let_def upd_tbuf_def store_event_def)

lemma store_event_bytes:
  assumes "length p \<le> k"
  shows "bytes (store_event eid p m) 0 (8 + k) =
    num_le 2 (unat eid) @ num_le 2 (trace_total (length p) mod 65536) @ bytes m 4 4 @ p @ bytes m (8 + length p) (k - length p)"
proof -
  have "8 + k = 2 + (2 + (4 + (length p + (k - length p))))" using assms by simp
  then have "bytes (store_event eid p m) 0 (8 + k) = bytes (store_event eid p m) 0 2 @ bytes (store_event eid p m) 2 2 @
      bytes (store_event eid p m) 4 4 @ bytes (store_event eid p m) 8 (length p) @
      bytes (store_event eid p m) (8 + length p) (k - length p)"
    by (simp only: bytes_append) (simp add: numeral_eq_Suc add.commute)
  moreover have "bytes (store_event eid p m) 0 2 = num_le 2 (unat eid)"
    "bytes (store_event eid p m) 2 2 = num_le 2 (trace_total (length p) mod 65536)"
    "bytes (store_event eid p m) 4 4 = bytes m 4 4" "bytes (store_event eid p m) 8 (length p) = p"
    "bytes (store_event eid p m) (8 + length p) (k - length p) = bytes m (8 + length p) (k - length p)"
    by (simp_all add: store_event_def put_unaligned_le16_def mem_simps)
  ultimately show ?thesis by simp
qed

lemma store_event_again:
  assumes "length p1 \<le> length p2"
  shows "store_event e2 p2 (store_event e1 p1 m) = store_event e2 p2 m"
proof
  fix i :: nat
  consider "i < 2" | "2 \<le> i" "i < 4" | "4 \<le> i" "i < 8" | "8 \<le> i" by linarith
  then show "store_event e2 p2 (store_event e1 p1 m) i = store_event e2 p2 m i"
    using assms by cases (auto simp: store_event_def put_unaligned_le16_def write_bytes_def)
qed

text \<open>Every event of a buffer is stored at the start of the buffer.  After two events the
  buffer has the length of both, but its bytes are those after the second event alone when that
  is not shorter: the first event is lost.\<close>

theorem trace_events_overwrite:
  assumes "can_store t b (length p1) st" "can_store t b (length p2) (trace_event t e1 p1 st)" "length p1 \<le> length p2"
  shows "tb_mem (tbufs (trace_event t e2 p2 (trace_event t e1 p1 st)) b) = tb_mem (tbufs (trace_event t e2 p2 st) b) \<and>
    tb_len (tbufs (trace_event t e2 p2 (trace_event t e1 p1 st)) b) =
      tb_len (tbufs st b) + trace_total (length p1) + trace_total (length p2)"
proof -
  have "can_store t b (length p2) st"
    using assms(2) by (auto simp: trace_event_stores [OF assms(1)] can_store_def upd_tbuf_def)
  then show ?thesis
    using assms by (simp add: trace_event_stores upd_tbuf_def store_event_again)
qed

definition example_trace :: trace_state where
  "example_trace = \<lparr>global_trinf = Some \<lparr>tr_threads = [1], tr_fd = 3, write_thr = thread_init, write_q = [], tr_file = []\<rparr>,
     tbufs = (\<lambda>_. \<lparr>tb_refcount = 1, TB_WRITING = False, tb_mem = (\<lambda>_. 0), tb_len = 0, tb_size = TRACE_BUF_SIZE, tb_freed = False\<rparr>),
     next_tbuf = 32, tprivs = (\<lambda>_. \<lparr>tp_bufs = [0], storing_buf = Some 0\<rparr>)\<rparr>"

lemma trace_total_eq:
  assumes "len \<le> 65527"
  shows "trace_total len = 8 + (len + 7) div 8 * 8"
proof -
  have "unat (of_nat len :: u64) = len" using assms by (simp add: unat_of_nat)
  then have "unat (round_up (of_nat len :: u64) (2 ^ 3)) = (len + 2 ^ 3 - 1) div 2 ^ 3 * 2 ^ 3"
    using assms round_up_pow [of 3 "of_nat len :: u64"] by simp
  then show ?thesis by (simp add: trace_total_def)
qed

theorem trace_events_overwrite_witness:
  "tb_mem (tbufs (trace_event 1 6 [1, 2] (trace_event 1 5 [9] example_trace)) 0) = tb_mem (tbufs (trace_event 1 6 [1, 2] example_trace) 0)"
proof -
  have c: "can_store 1 0 (length [9 :: u8]) example_trace" by (simp add: can_store_def example_trace_def trace_total_eq)
  moreover have "can_store 1 0 (length [1 :: u8, 2]) (trace_event 1 5 [9] example_trace)"
    by (subst trace_event_stores [OF c]) (simp add: can_store_def example_trace_def trace_total_eq upd_tbuf_def)
  ultimately show ?thesis using trace_events_overwrite [of 1 0 "[9]" example_trace "[1, 2]" 5 6] by simp
qed

text \<open>C38: An event that is the only one of its buffer survives: stored into an empty buffer,
  flushed and written, it is what the printer shows for the file, with its payload padded
  to a multiple of eight bytes, and the buffer is free again.\<close>

theorem trace_event_roundtrip:
  assumes "can_store t b (length p) st" "tb_len (tbufs st b) = 0" "length p \<le> 32760" "fd \<ge> 0"
    and "global_trinf st = Some tr" "tr_threads tr = [t]" "write_q tr = []" "tr_file tr = []"
  shows "\<exists>st1 st2 tr2 pad. trace_flush (trace_event t eid p st) = Ret st1 \<and>
    trace_write_round (\<lambda>out. int (length out)) st1 = Ret st2 \<and> trace_flush_woken st2 \<and> global_trinf st2 = Some tr2 \<and>
    print_trace_file_func True 2 fd [Inr (tr_file tr2), Inr []] = Ret (0, [(unat eid, p @ pad)]) \<and>
    length pad < 8 \<and> length (p @ pad) mod 8 = 0 \<and> \<not> TB_WRITING (tbufs st2 b) \<and> tb_len (tbufs st2 b) = 0 \<and>
    tb_refcount (tbufs st2 b) = tb_refcount (tbufs st b)"
proof -
  define k where "k = (length p + 7) div 8 * 8"
  have k: "length p \<le> k" "k < length p + 8" "k \<le> 32760" "k mod 8 = 0" using assms(3) by (simp_all add: k_def)
  have tot: "trace_total (length p) = 8 + k" using assms(3) by (simp add: trace_total_eq k_def)
  let ?m = "tb_mem (tbufs st b)"
  define out where "out = bytes (store_event eid p ?m) 0 (8 + k)"
  define pad where "pad = bytes ?m (8 + length p) (k - length p)"
  define tb where "tb = (tbufs st b)\<lparr>tb_len := 8 + k, tb_mem := store_event eid p ?m\<rparr>"
  define st1 where "st1 = upd_trinf (\<lambda>tr. tr\<lparr>write_q := [b]\<rparr>)
      (upd_tbuf b (\<lambda>_. tb\<lparr>TB_WRITING := True, tb_refcount := tb_refcount (tbufs st b) + 1\<rparr>) st)"
  have wr: "\<not> TB_WRITING (tbufs st b)" "storing_buf (tprivs st t) = Some b" using assms(1) by (simp_all add: can_store_def)
  have 1: "trace_flush (trace_event t eid p st) = Ret st1"
    using assms(2,5,6,7) wr
    by (simp add: trace_event_stores [OF assms(1)] tot trace_flush_def upd_tbuf_def try_enqueue_writing_def get_tbuf_def
        upd_trinf_def st1_def tb_def Let_def)
  define tr2 where "tr2 = tr\<lparr>write_q := [], tr_file := out\<rparr>"
  have q: "queued_bytes [b] st1 = out" by (simp add: queued_bytes_def st1_def upd_trinf_def upd_tbuf_def tb_def out_def)
  have g1: "global_trinf st1 = Some (tr\<lparr>write_q := [b]\<rparr>)" using assms(5) by (simp add: st1_def upd_trinf_def upd_tbuf_def)
  define st2 where "st2 = finish_writing [b] (upd_trinf (\<lambda>tr. tr\<lparr>write_q := [], tr_file := tr_file tr @ out\<rparr>) st1)"
  have 2: "trace_write_round (\<lambda>out. int (length out)) st1 = Ret st2"
    using g1 q by (simp add: trace_write_round_def st2_def)
  have 3: "global_trinf st2 = Some tr2" "trace_flush_woken st2"
    using g1 assms(8) by (simp_all add: st2_def put_tbuf_def upd_tbuf_def upd_trinf_def Let_def tr2_def trace_flush_woken_def)
  have 4: "\<not> TB_WRITING (tbufs st2 b)" "tb_len (tbufs st2 b) = 0" "tb_refcount (tbufs st2 b) = tb_refcount (tbufs st b)"
    by (simp_all add: st2_def st1_def put_tbuf_def upd_tbuf_def upd_trinf_def Let_def tb_def)
  have ev: "out = events_bytes [(unat eid, bytes ?m 4 4, p @ pad)]" "event_ok (unat eid, bytes ?m 4 4, p @ pad)"
    using store_event_bytes [OF k(1), of eid ?m] k unsigned_less [of eid, where ?'a = nat]
    by (simp_all add: out_def events_bytes_def event_bytes_def tot pad_def event_ok_def)
  have "length out = 8 + k" by (simp add: out_def)
  then have "out \<noteq> []" "length out \<le> PRINT_BUF_SIZE" using k(3) by auto
  then have "print_chunks [Inr out, Inr []] [] [] = Ret (0, [(unat eid, p @ pad)])"
    using print_chunks_step [of "[]" out "[(unat eid, bytes ?m 4 4, p @ pad)]" "[]"] ev
    by (simp del: print_chunks.simps add: print_chunks_end event_shown_def)
  then have 5: "print_trace_file_func True 2 fd [Inr (tr_file tr2), Inr []] = Ret (0, [(unat eid, p @ pad)])"
    using assms(4) by (simp add: print_trace_file_func_def tr2_def del: print_chunks.simps)
  have "length pad < 8" "length (p @ pad) mod 8 = 0" using k by (simp_all add: pad_def)
  then show ?thesis using 1 2 3 4 5
    by (intro exI [of _ st1] exI [of _ st2] exI [of _ tr2] exI [of _ pad]) simp
qed

theorem trace_event_roundtrip_witness:
  "\<exists>st1 st2 tr2 pad. trace_flush (trace_event 1 6 [1, 2] example_trace) = Ret st1 \<and>
    trace_write_round (\<lambda>out. int (length out)) st1 = Ret st2 \<and> global_trinf st2 = Some tr2 \<and>
    print_trace_file_func True 2 3 [Inr (tr_file tr2), Inr []] = Ret (0, [(6, [1, 2] @ pad)])"
proof -
  have "can_store 1 0 (length [1 :: u8, 2]) example_trace" by (simp add: can_store_def example_trace_def trace_total_eq)
  moreover have "tb_len (tbufs example_trace 0) = 0"
    "global_trinf example_trace = Some \<lparr>tr_threads = [1], tr_fd = 3, write_thr = thread_init, write_q = [], tr_file = []\<rparr>"
    by (simp_all add: example_trace_def)
  ultimately show ?thesis
    using trace_event_roundtrip [of 1 0 "[1, 2]" example_trace 3 _ 6] by simp blast
qed

end
