(* ===== verification/Parse.thy ===== *)
theory Parse
  imports Msg "HOL-Library.Char_ord"
begin

text \<open>
  Numbers and addresses from strings: \<open>shared/nerr.h\<close> and \<open>shared/parse.c\<close>, on the functions
  of the C library they call: \<open>strtoll\<close> and \<open>strtoull\<close> with base 0, and \<open>inet_aton\<close>.  A string is
  the characters before its terminating zero.
\<close>

abbreviation (input) ERANGE :: int where "ERANGE \<equiv> 34"

subsection \<open>The C library\<close>

definition isspace :: "char \<Rightarrow> bool" where
  "isspace c \<longleftrightarrow> of_char c \<in> {9, 10, 11, 12, 13, 32 :: nat}"

definition digit_val :: "char \<Rightarrow> nat option" where
  "digit_val c =
     (let n = of_char c :: nat
      in if 48 \<le> n \<and> n \<le> 57 then Some (n - 48)
         else if 97 \<le> n \<and> n \<le> 122 then Some (n - 87)
         else if 65 \<le> n \<and> n \<le> 90 then Some (n - 55)
         else None)"

definition is_digit :: "nat \<Rightarrow> char \<Rightarrow> bool" where
  "is_digit base c = (case digit_val c of None \<Rightarrow> False | Some d \<Rightarrow> d < base)"

definition digits_num :: "nat \<Rightarrow> string \<Rightarrow> nat" where
  "digits_num base ds = foldl (\<lambda>n c. n * base + the (digit_val c)) 0 ds"

text \<open>The base of a number without its sign, and what follows the prefix.\<close>

definition strto_base :: "string \<Rightarrow> nat \<times> string" where
  "strto_base s =
     (case s of
        a # x # c # r \<Rightarrow>
          if a = CHR ''0'' \<and> (x = CHR ''x'' \<or> x = CHR ''X'') \<and> is_digit 16 c then (16, c # r)
          else if a = CHR ''0'' then (8, s) else (10, s)
      | a # r \<Rightarrow> if a = CHR ''0'' then (8, s) else (10, s)
      | [] \<Rightarrow> (10, s))"

text \<open>Magnitude, whether there was a minus sign, and the rest, or None without any digit.\<close>

definition strto_scan :: "string \<Rightarrow> (nat \<times> bool \<times> string) option" where
  "strto_scan s =
     (let s = dropWhile isspace s;
          neg = (s \<noteq> [] \<and> List.hd s = CHR ''-'');
          s = (if s \<noteq> [] \<and> (List.hd s = CHR ''-'' \<or> List.hd s = CHR ''+'') then tl s else s);
          (base, s) = strto_base s;
          ds = takeWhile (is_digit base) s
      in if ds = [] then None else Some (digits_num base ds, neg, dropWhile (is_digit base) s))"

text \<open>The value, the end and errno; without digits the end is the start of the string.\<close>

definition strtoll :: "string \<Rightarrow> int \<times> string \<times> int" where
  "strtoll s =
     (case strto_scan s of
        None \<Rightarrow> (0, s, 0)
      | Some (n, neg, rest) \<Rightarrow>
          (let v = (if neg then - int n else int n)
           in if v < - (2 ^ 63) then (- (2 ^ 63), rest, ERANGE)
              else if v > 2 ^ 63 - 1 then (2 ^ 63 - 1, rest, ERANGE)
              else (v, rest, 0)))"

definition strtoull :: "string \<Rightarrow> u64 \<times> string \<times> int" where
  "strtoull s =
     (case strto_scan s of
        None \<Rightarrow> (0, s, 0)
      | Some (n, neg, rest) \<Rightarrow>
          if n > 2 ^ 64 - 1 then (- 1, rest, ERANGE)
          else (if neg then - of_nat n else of_nat n, rest, 0))"

text \<open>
  \<open>inet_aton\<close>: up to four numbers of any base with dots between them, the last of which fills
  the bytes that are left; white space ends the address.
\<close>

fun inet_aton_parts :: "nat \<Rightarrow> nat list \<Rightarrow> string \<Rightarrow> (nat list \<times> nat) option" where
  "inet_aton_parts 0 parts s = None"
| "inet_aton_parts (Suc fuel) parts s =
     (if s = [] \<or> \<not> is_digit 10 (List.hd s) then None
      else
        (case strtoull s of
           (v, rest, err) \<Rightarrow>
             if unat v > 4294967295 \<or> err \<noteq> 0 then None
             else if rest \<noteq> [] \<and> List.hd rest = CHR ''.'' then
               (if length parts > 2 \<or> unat v > 255 then None
                else inet_aton_parts fuel (parts @ [unat v]) (tl rest))
             else if rest \<noteq> [] \<and> \<not> isspace (List.hd rest) then None
             else Some (parts, unat v)))"

definition inet_aton :: "string \<Rightarrow> u32 option" where
  "inet_aton s =
     (case inet_aton_parts 4 [] s of
        None \<Rightarrow> None
      | Some (parts, v) \<Rightarrow>
          (let n = length parts
           in if v > 256 ^ (4 - n) - 1 then None
              else Some (of_nat (foldl (\<lambda>a p. a * 256 + p) 0 parts * 256 ^ (4 - n) + v))))"

subsection \<open>nerr.h\<close>

definition finish_strtoX :: "string \<Rightarrow> int \<Rightarrow> int" where
  "finish_strtoX rest errno = (if errno \<noteq> 0 then - errno else if rest \<noteq> [] then - EINVAL else 0)"

definition strtoll_nerr :: "string \<Rightarrow> int \<times> int" where
  "strtoll_nerr s = (case strtoll s of (v, rest, errno) \<Rightarrow> (finish_strtoX rest errno, v))"

definition strtoull_nerr :: "string \<Rightarrow> int \<times> u64" where
  "strtoull_nerr s = (case strtoull s of (v, rest, errno) \<Rightarrow> (finish_strtoX rest errno, v))"

definition strdup_nerr :: "bool \<Rightarrow> string \<Rightarrow> int \<times> string option" where
  "strdup_nerr mem_ok str = (if mem_ok then (0, Some str) else (- ENOMEM, None))"

definition strndup_nerr :: "bool \<Rightarrow> string \<Rightarrow> nat \<Rightarrow> int \<times> string option" where
  "strndup_nerr mem_ok str n = (if mem_ok then (0, Some (take n str)) else (- ENOMEM, None))"

subsection \<open>parse.c\<close>

definition parse_ull :: "string \<Rightarrow> u64 \<Rightarrow> u64 \<Rightarrow> int \<times> u64" where
  "parse_ull str least most =
     (case strtoull_nerr str of (ret, ull) \<Rightarrow>
        if ret < 0 then (ret, ull)
        else if ull < least \<or> ull > most then (- EINVAL, ull) else (ret, ull))"

definition parse_ll :: "string \<Rightarrow> int \<Rightarrow> int \<Rightarrow> int \<times> int" where
  "parse_ll str least most =
     (case strtoll_nerr str of (ret, ll) \<Rightarrow>
        if ret < 0 then (ret, ll)
        else if ll < least \<or> ll > most then (- EINVAL, ll) else (ret, ll))"

text \<open>\<open>index\<close>: the position of the first occurrence of a character.\<close>

definition str_index :: "string \<Rightarrow> char \<Rightarrow> nat option" where
  "str_index s c = (let n = length (takeWhile (\<lambda>x. x \<noteq> c) s) in if n < length s then Some n else None)"

text \<open>The address in host order and the port; \<open>mem_ok\<close> says whether \<open>strndup\<close> gets memory.\<close>

definition parse_ipv4_addr_port :: "bool \<Rightarrow> string \<Rightarrow> int + sockaddr_in" where
  "parse_ipv4_addr_port mem_ok str =
     (let sep = str_index str CHR '':'';
          (ret, addr) =
            (case sep of
               Some n \<Rightarrow> if n > 0 then strndup_nerr mem_ok str n else (0, None)
             | None \<Rightarrow> (0, Some str))
      in if ret < 0 then Inl ret
         else
           (case (case addr of None \<Rightarrow> Some 0 | Some a \<Rightarrow> inet_aton a) of
              None \<Rightarrow> Inl (- EINVAL)
            | Some a \<Rightarrow>
                (case sep of
                   None \<Rightarrow> Inr (a, 0)
                 | Some n \<Rightarrow>
                     if drop (n + 1) str = [] then Inr (a, 0)
                     else
                       (case parse_ll (drop (n + 1) str) 0 65535 of (ret, port) \<Rightarrow>
                          if ret \<noteq> 0 then Inl ret else Inr (a, of_int port)))))"

end
