(* ===== verification/Parse_Props.thy ===== *)
theory Parse_Props
  imports Parse
begin

text \<open>
  The number and address parsers read back what the program's own format macros print.
\<close>

subsection \<open>Printed numbers\<close>

fun dec :: "nat \<Rightarrow> string" where
  "dec n = (if n < 10 then [char_of (48 + n)] else dec (n div 10) @ [char_of (48 + n mod 10)])"

declare dec.simps [simp del]

lemma digit_val_dec [simp]: "(n :: nat) < 10 \<Longrightarrow> digit_val (char_of (48 + n)) = Some n"
  by (simp add: digit_val_def Let_def)

lemma is_digit_dec [simp]: "(n :: nat) < 10 \<Longrightarrow> is_digit 10 (char_of (48 + n))"
  by (simp add: is_digit_def)

lemma dec_not_empty [simp]: "dec n \<noteq> []"
  by (subst dec.simps) simp

lemma dec_digits: "list_all (is_digit 10) (dec n)"
proof (induction n rule: dec.induct)
  case (1 n)
  then show ?case by (subst dec.simps) simp
qed

lemma dec_digits_num [simp]: "digits_num 10 (dec n) = n"
proof (induction n rule: dec.induct)
  case (1 n)
  then show ?case by (subst dec.simps) (simp add: digits_num_def)
qed

lemma dec_hd: "n > 0 \<Longrightarrow> List.hd (dec n) \<noteq> CHR ''0''"
proof (induction n rule: dec.induct)
  case (1 n)
  show ?case
  proof (cases "n < 10")
    case True
    have "(of_char (char_of (48 + n) :: char) :: nat) \<noteq> of_char CHR ''0''"
      using 1 True by simp
    then have "char_of (48 + n) \<noteq> CHR ''0''" by metis
    then show ?thesis using True by (subst dec.simps) auto
  next
    case False
    then show ?thesis using 1 by (subst dec.simps) simp
  qed
qed

lemma char_of_48: "char_of (48 :: nat) = CHR ''0''"
  by (simp add: of_char_eq_iff [symmetric, where 'a = nat])

lemma dec_zero [simp]: "dec 0 = ''0''"
  by (subst dec.simps) (simp, simp only: char_of_48)

definition ends_number :: "string \<Rightarrow> bool" where
  "ends_number r \<longleftrightarrow> r = [] \<or> List.hd r = CHR ''.'' \<or> List.hd r = CHR '':''"

lemma ends_number_simps [simp]:
  "ends_number []" "ends_number (CHR ''.'' # r)" "ends_number (CHR '':'' # r)"
  by (simp_all add: ends_number_def)

lemma is_digit_chars [simp]:
  "\<not> is_digit b CHR ''.''" "\<not> is_digit b CHR '':''" "is_digit 8 CHR ''0''" "is_digit 10 CHR ''0''"
  by (simp_all add: is_digit_def digit_val_def)

lemma is_digit_not [simp]:
  "is_digit 10 c \<Longrightarrow> \<not> isspace c" "is_digit 10 c \<Longrightarrow> c \<noteq> CHR ''-''" "is_digit 10 c \<Longrightarrow> c \<noteq> CHR ''+''"
  "is_digit 10 c \<Longrightarrow> c \<noteq> CHR '':''" "is_digit 10 c \<Longrightarrow> c \<noteq> CHR ''.''"
  by (auto simp: is_digit_def digit_val_def isspace_def Let_def split: if_splits)

lemma takeWhile_stops:
  assumes "list_all P ds" "r = [] \<or> \<not> P (List.hd r)"
  shows "takeWhile P (ds @ r) = ds" "dropWhile P (ds @ r) = r"
  using assms by (induction ds) (cases r; auto)+

lemma strto_scan_dec:
  assumes r: "ends_number r"
  shows "strto_scan (dec n @ r) = Some (n, False, r)"
proof (cases "n = 0")
  case True
  have [simp]: "\<not> isspace CHR ''0''" by (simp add: isspace_def)
  have "r = [] \<or> \<not> is_digit 8 (List.hd r)" using r by (auto simp: ends_number_def)
  note tw = takeWhile_stops [of "is_digit 8" "''0''", OF _ this, simplified]
  have "strto_base (CHR ''0'' # r) = (8, CHR ''0'' # r)"
    using r by (cases r) (auto simp: strto_base_def ends_number_def split: list.split)
  then show ?thesis using True tw
    by (simp add: strto_scan_def Let_def digits_num_def digit_val_def)
next
  case False
  then obtain c ds where cds: "dec n = c # ds" "c \<noteq> CHR ''0''"
    using dec_hd [of n] dec_not_empty [of n] by (cases "dec n") auto
  then have c: "is_digit 10 c" using dec_digits [of n] by simp
  have "r = [] \<or> \<not> is_digit 10 (List.hd r)" using r by (auto simp: ends_number_def)
  note tw = takeWhile_stops [OF dec_digits this, of n]
  have "strto_base (dec n @ r) = (10, dec n @ r)"
    using cds by (auto simp: strto_base_def split: list.split)
  moreover have "dropWhile isspace (dec n @ r) = dec n @ r" using cds c by simp
  moreover have "List.hd (dec n @ r) = c" using cds by simp
  ultimately show ?thesis using tw c by (simp add: strto_scan_def Let_def)
qed

lemma strtoull_dec: "ends_number r \<Longrightarrow> n < 2 ^ 64 \<Longrightarrow> strtoull (dec n @ r) = (of_nat n, r, 0)"
  by (simp add: strtoull_def strto_scan_dec)

lemma parse_ll_dec:
  "n < 2 ^ 63 \<Longrightarrow> least \<le> int n \<Longrightarrow> int n \<le> most \<Longrightarrow> parse_ll (dec n) least most = (0, int n)"
  using strto_scan_dec [of "[]" n]
  by (simp add: parse_ll_def strtoll_nerr_def strtoll_def finish_strtoX_def)

lemma parse_ll_neg: "parse_ll str least most = (ret, v) \<Longrightarrow> ret \<noteq> 0 \<Longrightarrow> ret < 0"
  by (auto simp: parse_ll_def strtoll_nerr_def strtoll_def finish_strtoX_def Let_def
      split: if_splits option.splits)

lemma parse_ipv4_neg: "parse_ipv4_addr_port mem_ok str = Inl ret \<Longrightarrow> ret < 0"
  by (auto simp: parse_ipv4_addr_port_def strndup_nerr_def Let_def
      split: if_splits option.splits prod.splits dest: parse_ll_neg)

subsection \<open>Printed addresses\<close>

text \<open>The arguments of \<open>IPV4A\<close> and the format \<open>IPV4F\<close> they go to.\<close>

definition IPV4A :: "sockaddr_in \<Rightarrow> nat list" where
  "IPV4A sin =
     [unat (drop_bit 24 (fst sin)), unat (and (drop_bit 16 (fst sin)) 0xff),
      unat (and (drop_bit 8 (fst sin)) 0xff), unat (and (fst sin) 0xff), unat (snd sin)]"

definition print_quad :: "nat list \<Rightarrow> string" where
  "print_quad q = dec (q ! 0) @ ''.'' @ dec (q ! 1) @ ''.'' @ dec (q ! 2) @ ''.'' @ dec (q ! 3)"

definition IPV4F :: "nat list \<Rightarrow> string" where
  "IPV4F q = print_quad q @ '':'' @ dec (q ! 4)"

lemma unat_byte: "unat (and w (0xff :: 'a :: len word)) = unat w mod 256" if "LENGTH('a) \<ge> 8"
proof -
  have m: "(0xff :: 'a word) = mask 8" by (simp add: mask_eq_exp_minus_1)
  show ?thesis unfolding m take_bit_eq_mask [symmetric] unsigned_take_bit_eq
    by (simp add: take_bit_eq_mod [where 'a = nat])
qed

lemma take_bit_of_unat: "take_bit 32 (unat (w :: u32)) = unat w"
  using unsigned_less [of w, where ?'a = nat] by (simp add: take_bit_nat_eq_self)

lemma IPV4A_eq:
  "IPV4A (a, p) = [unat a div 2 ^ 24, unat a div 2 ^ 16 mod 256, unat a div 2 ^ 8 mod 256, unat a mod 256, unat p]"
  by (simp add: IPV4A_def unat_byte unsigned_drop_bit_eq take_bit_of_unat
      drop_bit_eq_div [where 'a = nat])

lemma quad_value:
  "(((m div 2 ^ 24) * 256 + m div 2 ^ 16 mod 256) * 256 + m div 2 ^ 8 mod 256) * 256 + m mod 256 = (m :: nat)"
proof -
  have "m div 2 ^ 24 * 256 + m div 2 ^ 16 mod 256 = m div 2 ^ 16"
    using div_mult_mod_eq [of "m div 2 ^ 16" 256] by (simp add: div_mult2_eq [symmetric])
  moreover have "m div 2 ^ 16 * 256 + m div 2 ^ 8 mod 256 = m div 2 ^ 8"
    using div_mult_mod_eq [of "m div 2 ^ 8" 256] by (simp add: div_mult2_eq [symmetric])
  ultimately show ?thesis by simp
qed

lemma inet_aton_quad:
  assumes "a < 256" "b < 256" "c < 256" "d < 256"
  shows "inet_aton (print_quad [a, b, c, d]) = Some (of_nat (((a * 256 + b) * 256 + c) * 256 + d))"
proof -
  have part: "inet_aton_parts (Suc f) ps (dec n @ r) =
      (if r \<noteq> [] \<and> List.hd r = CHR ''.'' then if length ps > 2 then None else inet_aton_parts f (ps @ [n]) (tl r)
       else if r \<noteq> [] \<and> \<not> isspace (List.hd r) then None else Some (ps, n))"
    if "ends_number r" "n < 256" for n r f ps
  proof -
    have "is_digit 10 (List.hd (dec n @ r))" using dec_digits [of n] by (cases "dec n") auto
    moreover have "unat (of_nat n :: u64) = n" using that by (simp add: unat_of_nat)
    ultimately show ?thesis using that by (simp add: strtoull_dec)
  qed
  have fuel: "4 = Suc (Suc (Suc (Suc 0)))" by simp
  have "inet_aton_parts 4 [] (print_quad [a, b, c, d]) = Some ([a, b, c], d)"
    unfolding fuel print_quad_def using assms part [of "[]" d]
    by (simp add: part del: inet_aton_parts.simps)
  then show ?thesis using assms by (simp add: inet_aton_def)
qed

lemma quad_no_colon: "CHR '':'' \<notin> set (print_quad q)"
proof -
  have "CHR '':'' \<notin> set (dec n)" for n using dec_digits [of n] is_digit_not(4) by (auto simp: list_all_iff)
  then show ?thesis by (simp add: print_quad_def)
qed

lemma str_index_first:
  "c \<notin> set s \<Longrightarrow> str_index (s @ c # r) c = Some (length s)" "c \<notin> set s \<Longrightarrow> str_index s c = None"
proof -
  assume "c \<notin> set s"
  then have "takeWhile (\<lambda>x. x \<noteq> c) s = s" "takeWhile (\<lambda>x. x \<noteq> c) (s @ c # r) = s"
    by (auto simp: takeWhile_eq_all_conv takeWhile_append)
  note tw = this
  show "str_index (s @ c # r) c = Some (length s)" "str_index s c = None"
    unfolding str_index_def tw by simp_all
qed

lemma print_quad_take: "print_quad [a, b, c, d, e] = print_quad [a, b, c, d]"
  by (simp add: print_quad_def)

lemma inet_aton_IPV4A: "inet_aton (print_quad (IPV4A (a, p))) = Some a"
proof -
  have "unat a div 2 ^ 24 < 256" using unsigned_less [of a, where ?'a = nat] by simp
  then show ?thesis
    unfolding IPV4A_eq print_quad_take
    by (subst inet_aton_quad) (simp_all only: quad_value, simp_all)
qed

lemma quad_not_empty [simp]: "print_quad q \<noteq> []"
  by (simp add: print_quad_def)

lemma IPV4F_eq: "IPV4F (IPV4A (a, p)) = print_quad (IPV4A (a, p)) @ CHR '':'' # dec (unat p)"
  by (simp add: IPV4F_def IPV4A_eq)

lemma parse_port: "parse_ll (dec (unat (p :: u16))) 0 65535 = (0, int (unat p))"
proof -
  have "unat p < 65536" using unsigned_less [of p, where ?'a = nat] by simp
  then show ?thesis by (intro parse_ll_dec) (simp, simp, linarith)
qed

lemma ipv4_parses_printed: "parse_ipv4_addr_port True (IPV4F (IPV4A (a, p))) = Inr (a, p)"
  using parse_port [of p] inet_aton_IPV4A [of a p] str_index_first(1) [OF quad_no_colon]
  by (simp add: IPV4F_eq parse_ipv4_addr_port_def strndup_nerr_def)

text \<open>C39: An address that the program prints with the format of its log messages is read back by
  the option parser, with and without the port.  Without an address the parser takes
  any address, and it refuses a port that does not fit 16 bits and an empty string.
\<close>

theorem ipv4_print_parse_roundtrip:
  "parse_ipv4_addr_port True (IPV4F (IPV4A (a, p))) = Inr (a, p) \<and>
   parse_ipv4_addr_port mem_ok (print_quad (IPV4A (a, p))) = Inr (a, 0) \<and>
   parse_ipv4_addr_port mem_ok ('':'' @ dec (unat p)) = Inr (0, p) \<and>
   parse_ipv4_addr_port mem_ok ('':'' @ dec (65536 + n)) \<in> {Inl (- EINVAL), Inl (- ERANGE)} \<and>
   parse_ipv4_addr_port mem_ok [] = Inl (- EINVAL) \<and>
   parse_ipv4_addr_port False (IPV4F (IPV4A (a, p))) = Inl (- ENOMEM)"
proof -
  have big: "fst (parse_ll (dec (65536 + n)) 0 65535) \<in> {- EINVAL, - ERANGE}"
    using strto_scan_dec [of "[]" "65536 + n"]
    by (simp add: parse_ll_def strtoll_nerr_def strtoll_def finish_strtoX_def)
  have i0: "str_index (CHR '':'' # s) CHR '':'' = Some 0" for s by (simp add: str_index_def)
  define q where "q = print_quad (IPV4A (a, p))"
  have q: "q \<noteq> []" "inet_aton q = Some a" "str_index (q @ CHR '':'' # r) CHR '':'' = Some (length q)"
    "str_index q CHR '':'' = None" for r
    using str_index_first [OF quad_no_colon] inet_aton_IPV4A [of a p] by (simp_all add: q_def)
  have "parse_ipv4_addr_port True (q @ CHR '':'' # dec (unat p)) = Inr (a, p)"
    using ipv4_parses_printed [of a p] by (simp add: IPV4F_eq q_def)
  moreover have "parse_ipv4_addr_port mem_ok q = Inr (a, 0)"
    using q by (simp add: parse_ipv4_addr_port_def)
  moreover have "parse_ipv4_addr_port mem_ok (CHR '':'' # dec (unat p)) = Inr (0, p)"
    using parse_port [of p] by (simp add: parse_ipv4_addr_port_def i0)
  moreover have "parse_ipv4_addr_port mem_ok (CHR '':'' # dec (65536 + n)) \<in> {Inl (- EINVAL), Inl (- ERANGE)}"
    using big by (cases "parse_ll (dec (65536 + n)) 0 65535") (auto simp: parse_ipv4_addr_port_def i0)
  moreover have "parse_ipv4_addr_port mem_ok [] = Inl (- EINVAL)"
    by (simp add: parse_ipv4_addr_port_def str_index_def inet_aton_def numeral_eq_Suc)
  moreover have "parse_ipv4_addr_port False (q @ CHR '':'' # dec (unat p)) = Inl (- ENOMEM)"
    using q by (simp add: parse_ipv4_addr_port_def strndup_nerr_def)
  ultimately show ?thesis unfolding IPV4F_eq q_def by simp
qed

end
