(* ===== verification/Options.thy ===== *)
theory Options
  imports Parse
begin

text \<open>
  Command line options: \<open>shared/options.c\<close> on the C library's \<open>getopt_long\<close>, the option
  tables of \<open>shared/mount.c\<close> and \<open>devd/ngnfs-devd.c\<close> and their parse functions.
\<close>

subsection \<open>getopt\<close>

datatype has_arg = No_argument | Required_argument | Optional_argument

record longopt =
  opt_name :: string
  has_arg :: has_arg
  val :: char

text \<open>
  The state \<open>getopt_long\<close> keeps between its calls: the rest of the cluster of short options it is
  in, the arguments it has not read and \<open>optopt\<close>.
\<close>

record getopt_data =
  nextchar :: string
  unread :: "string list"
  optopt :: char

text \<open>A long option is found by its name or by a prefix that only fits options that act alike.\<close>

definition find_longopt :: "longopt list \<Rightarrow> string \<Rightarrow> longopt option" where
  "find_longopt longopts name =
     (case filter (\<lambda>p. opt_name p = name) longopts of
        p # _ \<Rightarrow> Some p
      | [] \<Rightarrow>
          (case filter (\<lambda>p. take (length name) (opt_name p) = name) longopts of
             [] \<Rightarrow> None
           | p # ps \<Rightarrow> if list_all (\<lambda>q. has_arg q = has_arg p \<and> val q = val p) ps then Some p else None))"

definition getopt_long_option :: "longopt list \<Rightarrow> string \<Rightarrow> getopt_data \<Rightarrow> char \<times> string option \<times> getopt_data" where
  "getopt_long_option longopts str gd =
     (let eq = dropWhile (\<lambda>c. c \<noteq> CHR ''='') str
      in case find_longopt longopts (takeWhile (\<lambda>c. c \<noteq> CHR ''='') str) of
           None \<Rightarrow> (CHR ''?'', None, gd\<lparr>optopt := CHR 0x00\<rparr>)
         | Some p \<Rightarrow>
             if eq \<noteq> [] then
               (if has_arg p = No_argument then (CHR ''?'', None, gd\<lparr>optopt := val p\<rparr>)
                else (val p, Some (tl eq), gd))
             else if has_arg p = Required_argument then
               (case unread gd of
                  [] \<Rightarrow> (CHR '':'', None, gd\<lparr>optopt := val p\<rparr>)
                | a # as \<Rightarrow> (val p, Some a, gd\<lparr>unread := as\<rparr>))
             else (val p, None, gd))"

text \<open>The character \<open>c\<close> of a cluster, with the rest of the cluster in \<open>nextchar\<close>.\<close>

definition getopt_short_option :: "string \<Rightarrow> char \<Rightarrow> getopt_data \<Rightarrow> char \<times> string option \<times> getopt_data" where
  "getopt_short_option optstr c gd =
     (let temp = dropWhile (\<lambda>x. x \<noteq> c) optstr
      in if temp = [] \<or> c = CHR '':'' \<or> c = CHR '';'' then (CHR ''?'', None, gd\<lparr>optopt := c\<rparr>)
         else if take 2 (tl temp) = ''::'' then
           (c, if nextchar gd = [] then None else Some (nextchar gd), gd\<lparr>nextchar := []\<rparr>)
         else if take 1 (tl temp) = '':'' then
           (if nextchar gd \<noteq> [] then (c, Some (nextchar gd), gd\<lparr>nextchar := []\<rparr>)
            else
              (case unread gd of
                 [] \<Rightarrow> (CHR '':'', None, gd\<lparr>optopt := c\<rparr>)
               | a # as \<Rightarrow> (c, Some a, gd\<lparr>unread := as\<rparr>)))
         else (c, None, gd))"

text \<open>
  \<open>getopt_long\<close> for an option string that starts with a plus, which stops at the first argument
  that is no option, and a colon, which tells missing arguments from unknown options.  The
  result is None for -1, and what \<open>optarg\<close> was set to.
\<close>

definition getopt_long ::
    "string \<Rightarrow> longopt list \<Rightarrow> getopt_data \<Rightarrow> (char \<times> string option \<times> getopt_data) option" where
  "getopt_long optstr longopts gd =
     (case nextchar gd of
        c # cs \<Rightarrow> Some (getopt_short_option (tl optstr) c (gd\<lparr>nextchar := cs\<rparr>))
      | [] \<Rightarrow>
          (case unread gd of
             [] \<Rightarrow> None
           | str # strs \<Rightarrow>
               if str = ''--'' \<or> str = ''-'' \<or> take 1 str \<noteq> ''-'' then None
               else if take 2 str = ''--''
               then Some (getopt_long_option longopts (drop 2 str) (gd\<lparr>unread := strs\<rparr>))
               else Some (getopt_short_option (tl optstr) (str ! 1) (gd\<lparr>nextchar := drop 2 str, unread := strs\<rparr>))))"

definition getopt_left :: "getopt_data \<Rightarrow> nat" where
  "getopt_left gd = length (nextchar gd) + sum_list (map (Suc \<circ> length) (unread gd))"

lemma getopt_long_option_left:
  "getopt_long_option longopts str gd = (c, a, gd') \<Longrightarrow> getopt_left gd' \<le> getopt_left gd"
  by (auto simp: getopt_long_option_def getopt_left_def Let_def split: option.splits if_splits list.splits)

lemma getopt_short_option_left:
  "getopt_short_option optstr ch gd = (c, a, gd') \<Longrightarrow> getopt_left gd' \<le> getopt_left gd"
  by (auto simp: getopt_short_option_def getopt_left_def Let_def split: if_splits list.splits)

lemma getopt_long_left:
  assumes "getopt_long optstr longopts gd = Some (c, a, gd')"
  shows "getopt_left gd' < getopt_left gd"
proof (cases "nextchar gd")
  case (Cons c cs)
  then show ?thesis using assms getopt_short_option_left
    by (fastforce simp: getopt_long_def getopt_left_def)
next
  case Nil
  then obtain str strs where u: "unread gd = str # strs"
    using assms by (cases "unread gd") (auto simp: getopt_long_def)
  then have "getopt_left (gd\<lparr>unread := strs\<rparr>) < getopt_left gd"
    "getopt_left (gd\<lparr>nextchar := drop 2 str, unread := strs\<rparr>) < getopt_left gd"
    using Nil by (simp_all add: getopt_left_def)
  then show ?thesis using assms Nil u
    by (auto simp: getopt_long_def split: if_splits dest!: getopt_short_option_left getopt_long_option_left)
qed

subsection \<open>options.c\<close>

record option_more =
  longopt :: longopt
  opt_arg :: "string option"
  desc :: string
  required :: bool
  given :: bool

definition prepare_optstr :: "bool \<Rightarrow> option_more list \<Rightarrow> int \<times> string" where
  "prepare_optstr mem_ok moreopts =
     (if \<not> mem_ok then (- ENOMEM, [])
      else (0, ''+:h?'' @
              concat (map (\<lambda>mo. val (longopt mo) #
                (case has_arg (longopt mo) of
                   Required_argument \<Rightarrow> '':'' | Optional_argument \<Rightarrow> ''::'' | No_argument \<Rightarrow> [])) moreopts)))"

text \<open>The test after the allocation is of the argument, so that the loop stores through a null pointer.\<close>

definition prepare_longopts :: "bool \<Rightarrow> option_more list \<Rightarrow> (int \<times> longopt list) run" where
  "prepare_longopts mem_ok moreopts = (if \<not> mem_ok then Undef else Ret (0, map longopt moreopts))"

definition show_help :: "option_more list \<Rightarrow> string list" where
  "show_help moreopts =
     concat (map (\<lambda>mo.
       [''    (-'' @ [val (longopt mo)] @ '' | --'' @ opt_name (longopt mo) @ '') '' @
          (case opt_arg mo of Some a \<Rightarrow> a | None \<Rightarrow> []),
        ''        '' @ desc mo]) moreopts)"

primrec get_more_from :: "nat \<Rightarrow> option_more list \<Rightarrow> char \<Rightarrow> nat option" where
  "get_more_from i [] c = None"
| "get_more_from i (mo # mos) c =
     (if val (longopt mo) = c then Some i else get_more_from (Suc i) mos c)"

definition get_more :: "option_more list \<Rightarrow> char \<Rightarrow> nat option" where
  "get_more moreopts c = get_more_from 0 moreopts c"

type_synonym 's opt_parse = "char \<Rightarrow> string option \<Rightarrow> 's \<Rightarrow> (int \<times> 's) run"

text \<open>The loop over the options: its result, the table with the options given, and the caller's state.\<close>

function getopt_loop ::
    "string \<Rightarrow> longopt list \<Rightarrow> 's opt_parse \<Rightarrow> option_more list \<Rightarrow> getopt_data \<Rightarrow> 's \<Rightarrow>
     (int \<times> option_more list \<times> 's) run" where
  "getopt_loop optstr longopts func moreopts gd s =
     (case getopt_long optstr longopts gd of
        None \<Rightarrow> Ret (0, moreopts, s)
      | Some (c, optarg, gd') \<Rightarrow>
          (let mo = get_more moreopts (if c = CHR '':'' then optopt gd' else c)
           in if c = CHR ''h'' \<or> c = CHR ''?'' \<and> optopt gd' = CHR 0x00 then Ret (- EINVAL, moreopts, s)
              else if c = CHR ''?'' then Ret (- EINVAL, moreopts, s)
              else if c = CHR '':'' then
                (case mo of None \<Rightarrow> Undef | Some _ \<Rightarrow> Ret (- EINVAL, moreopts, s))
              else
                bind_run (func c optarg s) (\<lambda>(ret, s).
                  case mo of
                    None \<Rightarrow> Undef
                  | Some i \<Rightarrow>
                      if ret < 0 then Ret (ret, moreopts, s)
                      else getopt_loop optstr longopts func
                             (moreopts[i := (moreopts ! i)\<lparr>given := True\<rparr>]) gd' s)))"
  by pat_completeness auto
termination
  by (relation "measure (\<lambda>(optstr, longopts, func, moreopts, gd, s). getopt_left gd)")
    (auto dest: getopt_long_left)

declare getopt_loop.simps [simp del]

text \<open>
  The result, the table afterwards, the lines of help and the caller's state; \<open>argv\<close> starts
  with the name of the program.
\<close>

definition getopt_long_more ::
    "bool \<Rightarrow> bool \<Rightarrow> string list \<Rightarrow> option_more list \<Rightarrow> 's opt_parse \<Rightarrow> 's \<Rightarrow>
     (int \<times> option_more list \<times> string list \<times> 's) run" where
  "getopt_long_more optstr_ok longopts_ok argv moreopts func s =
     (case prepare_optstr optstr_ok moreopts of (ret, optstr) \<Rightarrow>
        if ret < 0 then Ret (ret, moreopts, [], s)
        else
          bind_run (prepare_longopts longopts_ok moreopts) (\<lambda>(ret, longopts).
            if ret < 0 then Ret (ret, moreopts, [], s)
            else
              bind_run (getopt_loop optstr longopts func moreopts
                          \<lparr>nextchar = [], unread = tl argv, optopt = CHR 0x00\<rparr> s) (\<lambda>(ret, moreopts, s).
                let ret = (if ret < 0 then ret
                           else if list_ex (\<lambda>mo. required mo \<and> \<not> given mo) moreopts then - EINVAL else 0)
                in Ret (ret, moreopts, if ret < 0 then show_help moreopts else [], s))))"

end
