(* ===== verification/Mount.thy ===== *)
theory Mount
  imports Options Block_Proto Block_Cache Trace
begin

text \<open>
  Mounting: \<open>shared/mount.c\<close> and \<open>shared/fs_info.h\<close>, and the options of
  \<open>devd/ngnfs-devd.c\<close>.  The options and the layers below are the models of the other theories;
  the results of system calls and allocations are fields of a record.
\<close>

subsection \<open>Options\<close>

text \<open>
  \<open>allocs\<close> says which of the coming allocations of the parse functions succeed, those past its
  end do.
\<close>

record mount_options =
  addr_list :: "sockaddr_in list"
  opt_nr_addrs :: u8
  trace_path :: "string option"
  allocs :: "bool list"

definition take_alloc :: "bool list \<Rightarrow> bool \<times> bool list" where
  "take_alloc bs = (case bs of [] \<Rightarrow> (True, []) | b # bs \<Rightarrow> (b, bs))"

definition mount_moreopts :: "option_more list" where
  "mount_moreopts =
     [\<lparr>longopt = \<lparr>opt_name = ''devd_addr'', has_arg = Required_argument, val = CHR ''d''\<rparr>,
       opt_arg = Some ''addr:port'', desc = ''IPv4 address of devd server'', required = False, given = False\<rparr>,
      \<lparr>longopt = \<lparr>opt_name = ''trace_file'', has_arg = Required_argument, val = CHR ''t''\<rparr>,
       opt_arg = Some ''file_path'', desc = ''append debugging traces to this file'', required = True,
       given = False\<rparr>]"

text \<open>
  The error of a failed copy of the trace path is lost behind the switch.  A null string is
  handed on to functions that read it.
\<close>

definition parse_mount_opt :: "mount_options opt_parse" where
  "parse_mount_opt c str opts =
     (if c = CHR ''d'' then
        (if opt_nr_addrs opts = 255 then Ret (- EINVAL, opts)
         else
           (let (ok, as) = take_alloc (allocs opts);
                opts = opts\<lparr>allocs := as\<rparr>
            in if \<not> ok then Ret (- ENOMEM, opts)
               else
                 (case str of
                    None \<Rightarrow> Undef
                  | Some s \<Rightarrow>
                      (let (ok, as) = take_alloc (allocs opts);
                           opts = opts\<lparr>allocs := as\<rparr>
                       in case parse_ipv4_addr_port ok s of
                            Inl ret \<Rightarrow> Ret (ret, opts)
                          | Inr a \<Rightarrow> Ret (0, opts\<lparr>addr_list := addr_list opts @ [a],
                                                opt_nr_addrs := opt_nr_addrs opts + 1\<rparr>)))))
      else if c = CHR ''t'' then
        (case str of
           None \<Rightarrow> Undef
         | Some s \<Rightarrow>
             (let (ok, as) = take_alloc (allocs opts);
                  (ret, path) = strdup_nerr ok s
              in Ret (0, opts\<lparr>allocs := as, trace_path := path\<rparr>)))
      else Ret (0, opts))"

record devd_options =
  dev_path :: "string option"
  listen_addr :: sockaddr_in
  devd_trace_path :: "string option"
  devd_allocs :: "bool list"

definition devd_moreopts :: "option_more list" where
  "devd_moreopts =
     [\<lparr>longopt = \<lparr>opt_name = ''device_path'', has_arg = Required_argument, val = CHR ''d''\<rparr>,
       opt_arg = Some ''path'', desc = ''path to block device'', required = True, given = False\<rparr>,
      \<lparr>longopt = \<lparr>opt_name = ''listen_addr'', has_arg = Required_argument, val = CHR ''l''\<rparr>,
       opt_arg = Some ''addr:port'', desc = ''listening IPv4 address and port'', required = True, given = False\<rparr>,
      \<lparr>longopt = \<lparr>opt_name = ''trace_file'', has_arg = Required_argument, val = CHR ''t''\<rparr>,
       opt_arg = Some ''file_path'', desc = ''append debugging traces to this file'', required = True,
       given = False\<rparr>]"

definition parse_devd_opt :: "devd_options opt_parse" where
  "parse_devd_opt c str opts =
     (let (ok, as) = take_alloc (devd_allocs opts);
          opts' = opts\<lparr>devd_allocs := as\<rparr>
      in if c = CHR ''d'' then
           (case str of
              None \<Rightarrow> Undef
            | Some s \<Rightarrow> (let (ret, path) = strdup_nerr ok s in Ret (ret, opts'\<lparr>dev_path := path\<rparr>)))
         else if c = CHR ''l'' then
           (case str of
              None \<Rightarrow> Undef
            | Some s \<Rightarrow>
                (case parse_ipv4_addr_port ok s of
                   Inl ret \<Rightarrow> Ret (ret, opts')
                 | Inr a \<Rightarrow> Ret (0, opts'\<lparr>listen_addr := a\<rparr>)))
         else if c = CHR ''t'' then
           (case str of
              None \<Rightarrow> Undef
            | Some s \<Rightarrow> (let (ret, path) = strdup_nerr ok s in Ret (ret, opts'\<lparr>devd_trace_path := path\<rparr>)))
         else Ret (- EINVAL, opts))"

subsection \<open>Mount and unmount\<close>

text \<open>
  \<open>struct ngnfs_fs_info\<close>.  \<open>ngnfs_msg_destroy\<close> frees the message info and leaves the pointer,
  which \<open>msg_freed\<close> records.
\<close>

record 't fs_info =
  block_info :: "block_info option"
  manifest_info :: "manifest_info option"
  msg_info :: "'t msg_info option"
  msg_freed :: bool

definition INIT_NGNFS_FS_INFO :: "'t fs_info" where
  "INIT_NGNFS_FS_INFO = \<lparr>block_info = None, manifest_info = None, msg_info = None, msg_freed = False\<rparr>"

text \<open>
  Results of the allocations of \<open>getopt_long_more\<close>, of \<open>open\<close> and \<open>pthread_create\<close> in
  \<open>trace_setup\<close>, and of the calls of the setup functions.  \<open>drain\<close> is \<open>destroy_workqueue\<close> with
  the work it still runs.
\<close>

record mount_sys =
  optstr_ok :: bool
  longopts_ok :: bool
  opt_allocs :: "bool list"
  open_trace :: "string option \<Rightarrow> int"
  trace_thread :: int
  manifest_ok :: bool
  msg_ok :: bool
  msg_ht :: int
  block_ok :: bool
  block_ht :: int
  wq_ok :: bool
  drain :: "block_info \<Rightarrow> block_info run"

definition unmount_block :: "mount_sys \<Rightarrow> 't fs_info \<Rightarrow> 't fs_info run" where
  "unmount_block sys nfi =
     (case block_info nfi of
        None \<Rightarrow> Ret nfi
      | Some blinf \<Rightarrow>
          bind_run (drain sys blinf) (\<lambda>blinf.
            let nfi = nfi\<lparr>msg_info := ngnfs_btr_msg_destroy (msg_info nfi)\<rparr>
            in bind_run (ngnfs_block_destroy blinf) (\<lambda>_. Ret (nfi\<lparr>block_info := None\<rparr>))))"

definition unmount_msg :: "('fd, 't) mtr_ops \<Rightarrow> 't fs_info \<Rightarrow> 't fs_info run" where
  "unmount_msg ops nfi =
     (case msg_info nfi of
        None \<Rightarrow> Ret nfi
      | Some minf \<Rightarrow>
          if msg_freed nfi then Undef
          else Ret (nfi\<lparr>msg_info := Some (ngnfs_msg_destroy ops minf), msg_freed := True\<rparr>))"

definition ngnfs_unmount :: "('fd, 't) mtr_ops \<Rightarrow> mount_sys \<Rightarrow> 't fs_info \<Rightarrow> 't fs_info run" where
  "ngnfs_unmount ops sys nfi =
     bind_run (unmount_block sys nfi) (\<lambda>nfi.
     bind_run (unmount_msg ops nfi) (\<lambda>nfi.
       Ret (nfi\<lparr>manifest_info := ngnfs_manifest_destroy (manifest_info nfi)\<rparr>)))"

text \<open>The setup functions called by \<open>ngnfs_mount\<close>, each only when those before it returned 0.\<close>

definition mount_manifest :: "mount_sys \<Rightarrow> mount_options \<Rightarrow> 't fs_info \<Rightarrow> int \<times> 't fs_info" where
  "mount_manifest sys opts nfi =
     (case ngnfs_manifest_setup (manifest_ok sys) (addr_list opts) (opt_nr_addrs opts) of
        (ret, None) \<Rightarrow> (ret, nfi)
      | (ret, Some m) \<Rightarrow> (ret, nfi\<lparr>manifest_info := Some m\<rparr>))"

definition mount_msg ::
    "('fd, 't) mtr_ops \<Rightarrow> mount_sys \<Rightarrow> sockaddr_in option \<Rightarrow> 't \<Rightarrow> 't fs_info \<Rightarrow> int \<times> 't fs_info" where
  "mount_msg ops sys laddr t nfi =
     (case ngnfs_msg_setup ops (msg_ok sys) (msg_ht sys) laddr t of
        (ret, None) \<Rightarrow> (ret, nfi)
      | (ret, Some m) \<Rightarrow> (ret, nfi\<lparr>msg_info := Some m\<rparr>))"

text \<open>\<open>ngnfs_block_setup\<close> with the message block transport, which registers its handlers first.\<close>

definition mount_block :: "mount_sys \<Rightarrow> 't fs_info \<Rightarrow> (int \<times> 't fs_info) run" where
  "mount_block sys nfi =
     bind_run
       (if \<not> block_ok sys then Ret (None, nfi)
        else
          (case msg_info nfi of
             None \<Rightarrow> Undef
           | Some minf \<Rightarrow>
               (let (ret, minf) = ngnfs_btr_msg_setup minf
                in Ret (if ret < 0 then Some ret else None, nfi\<lparr>msg_info := Some minf\<rparr>))))
       (\<lambda>(err, nfi).
          case ngnfs_block_setup (block_ok sys) err ngnfs_btr_msg_queue_depth (block_ht sys) (wq_ok sys) of
            (ret, None) \<Rightarrow> Ret (ret, nfi)
          | (ret, Some b) \<Rightarrow> Ret (ret, nfi\<lparr>block_info := Some b\<rparr>))"

definition mount_setup ::
    "('fd, 't) mtr_ops \<Rightarrow> mount_sys \<Rightarrow> mount_options \<Rightarrow> 't \<Rightarrow> 't fs_info \<Rightarrow> trace_state \<Rightarrow>
     (int \<times> 't fs_info \<times> trace_state) run" where
  "mount_setup ops sys opts t nfi ts =
     (let (ret, ts) = trace_setup (open_trace sys (trace_path opts)) (trace_thread sys) ts
      in if ret \<noteq> 0 then Ret (ret, nfi, ts)
         else
           (let (ret, nfi) = mount_manifest sys opts nfi
            in if ret \<noteq> 0 then Ret (ret, nfi, ts)
               else
                 (let (ret, nfi) = mount_msg ops sys None t nfi
                  in if ret \<noteq> 0 then Ret (ret, nfi, ts)
                     else bind_run (mount_block sys nfi) (\<lambda>(ret, nfi). Ret (ret, nfi, ts)))))"

definition init_mount_options :: "mount_sys \<Rightarrow> mount_options" where
  "init_mount_options sys = \<lparr>addr_list = [], opt_nr_addrs = 0, trace_path = None, allocs = opt_allocs sys\<rparr>"

definition ngnfs_mount ::
    "('fd, 't) mtr_ops \<Rightarrow> mount_sys \<Rightarrow> string list \<Rightarrow> 't \<Rightarrow> 't fs_info \<Rightarrow> trace_state \<Rightarrow>
     (int \<times> 't fs_info \<times> trace_state) run" where
  "ngnfs_mount ops sys argv t nfi ts =
     bind_run (getopt_long_more (optstr_ok sys) (longopts_ok sys) argv mount_moreopts parse_mount_opt
                 (init_mount_options sys)) (\<lambda>(ret, _, _, opts).
       bind_run
         (if ret < 0 then Ret (ret, nfi, ts)
          else if opt_nr_addrs opts = 0 then Ret (- EINVAL, nfi, ts)
          else mount_setup ops sys opts t nfi ts)
         (\<lambda>(ret, nfi, ts).
            if ret < 0 then bind_run (ngnfs_unmount ops sys nfi) (\<lambda>nfi. Ret (ret, nfi, ts))
            else Ret (ret, nfi, ts)))"

end
