(* ===== verification/Options_Props.thy ===== *)
theory Options_Props
  imports Options
begin

text \<open>
  What \<open>getopt_long_more\<close> promises its callers.  A caller gives a table of options that all take
  an argument and a parse function that keeps \<open>ok\<close> and establishes \<open>parsed c\<close> for an
  option \<open>c\<close> it accepts; the wrapper then returns on every command line, never follows a null
  pointer, and when it returns 0 every required option has been parsed.
\<close>

lemma get_more_from_Some:
  "c \<in> (\<lambda>mo. val (longopt mo)) ` set mos \<Longrightarrow>
   \<exists>i < length mos. get_more_from k mos c = Some (k + i) \<and> val (longopt (mos ! i)) = c"
proof (induction mos arbitrary: k)
  case Nil
  then show ?case by simp
next
  case (Cons mo mos)
  show ?case
  proof (cases "val (longopt mo) = c")
    case True
    then show ?thesis by auto
  next
    case False
    then obtain i where "i < length mos" "get_more_from (Suc k) mos c = Some (Suc k + i)" "val (longopt (mos ! i)) = c"
      using Cons.IH [of "Suc k"] Cons.prems by auto
    then show ?thesis using False by (intro exI [of _ "Suc i"]) simp
  qed
qed

lemma get_more_Some:
  assumes "c \<in> (\<lambda>mo. val (longopt mo)) ` set mos"
  obtains i where "i < length mos" "get_more mos c = Some i" "val (longopt (mos ! i)) = c"
  using get_more_from_Some [OF assms, of 0] by (auto simp: get_more_def)

lemma dropWhile_opts:
  assumes "c \<noteq> CHR '':''"
  shows "dropWhile (\<lambda>x. x \<noteq> c) (concat (map (\<lambda>v. [v, CHR '':'']) vs)) = [] \<and> c \<notin> set vs \<or>
    c \<in> set vs \<and> (\<exists>ws. set ws \<subseteq> set vs \<and> dropWhile (\<lambda>x. x \<noteq> c) (concat (map (\<lambda>v. [v, CHR '':'']) vs)) =
      c # CHR '':'' # concat (map (\<lambda>v. [v, CHR '':'']) ws))"
proof (induction vs)
  case (Cons v vs)
  show ?case
  proof (cases "v = c")
    case True
    then show ?thesis by (intro disjI2 conjI exI [of _ vs]) auto
  next
    case False
    then show ?thesis using Cons assms by (auto dest: subset_trans)
  qed
qed simp

lemma map_update_same: "f y = f (xs ! i) \<Longrightarrow> map f (xs[i := y]) = map f xs"
  by (cases "i < length xs") (simp_all add: map_update list_update_same_conv list_update_beyond)

lemma find_longopt_member: "find_longopt lo name = Some p \<Longrightarrow> p \<in> set lo"
  by (auto simp: find_longopt_def split: list.splits if_splits dest!: filter_eq_ConsD)

locale option_parser =
  fixes table :: "option_more list" and func :: "'s opt_parse" and ok :: "'s \<Rightarrow> bool"
    and parsed :: "char \<Rightarrow> 's \<Rightarrow> bool"
  assumes table_args: "mo \<in> set table \<Longrightarrow> has_arg (longopt mo) = Required_argument \<and> \<not> given mo"
    and table_vals: "mo \<in> set table \<Longrightarrow> val (longopt mo) \<notin> {CHR '':'', CHR '';'', CHR ''?'', CHR ''h''}"
    and func_returns: "mo \<in> set table \<Longrightarrow> c = val (longopt mo) \<Longrightarrow> ok s \<Longrightarrow>
      \<exists>ret s'. func c (Some str) s = Ret (ret, s') \<and> ok s' \<and>
        (ret \<ge> 0 \<longrightarrow> parsed c s' \<and> (\<forall>d. parsed d s \<longrightarrow> parsed d s'))"
begin

definition "vals = map (\<lambda>mo. val (longopt mo)) table"
definition "optstring = ''+:h?'' @ concat (map (\<lambda>v. [v, CHR '':'']) vals)"

lemma prepared: "prepare_optstr True table = (0, optstring)"
proof -
  have "map (\<lambda>mo. val (longopt mo) #
      (case has_arg (longopt mo) of Required_argument \<Rightarrow> '':'' | Optional_argument \<Rightarrow> ''::'' | No_argument \<Rightarrow> [])) table =
    map (\<lambda>v. [v, CHR '':'']) vals"
    using table_args by (simp add: vals_def)
  then show ?thesis by (simp only: prepare_optstr_def optstring_def) simp
qed

lemma vals_chars: "c \<in> set vals \<Longrightarrow> c \<noteq> CHR '':'' \<and> c \<noteq> CHR '';'' \<and> c \<noteq> CHR ''?'' \<and> c \<noteq> CHR ''h''"
  using table_vals by (auto simp: vals_def)

text \<open>What a call of \<open>getopt_long\<close> can return.\<close>

definition "answers c a gd \<longleftrightarrow> c = CHR ''h'' \<or> c = CHR ''?'' \<or> c = CHR '':'' \<and> optopt gd \<in> set vals \<or>
  c \<in> set vals \<and> (\<exists>str. a = Some str)"

lemma short_answers:
  assumes "getopt_short_option (tl optstring) c gd = (c', a, gd')"
  shows "answers c' a gd'"
proof (cases "c \<in> {CHR '':'', CHR '';'', CHR ''h'', CHR ''?''}")
  case True
  moreover have "take 1 (concat (map (\<lambda>v. [v, CHR '':'']) vals)) \<noteq> '':''" "take 2 (concat (map (\<lambda>v. [v, CHR '':'']) vals)) \<noteq> ''::''"
    using vals_chars by (cases vals; auto)+
  ultimately show ?thesis using assms
    by (auto simp: getopt_short_option_def optstring_def answers_def Let_def split: if_splits)
next
  case False
  then have "dropWhile (\<lambda>x. x \<noteq> c) (tl optstring) = dropWhile (\<lambda>x. x \<noteq> c) (concat (map (\<lambda>v. [v, CHR '':'']) vals))"
    by (auto simp: optstring_def)
  then consider "dropWhile (\<lambda>x. x \<noteq> c) (tl optstring) = []"
    | ws where "c \<in> set vals" "set ws \<subseteq> set vals"
      "dropWhile (\<lambda>x. x \<noteq> c) (tl optstring) = c # CHR '':'' # concat (map (\<lambda>v. [v, CHR '':'']) ws)"
    using dropWhile_opts [of c vals] False by auto
  then show ?thesis
  proof cases
    case 1
    then show ?thesis using assms by (auto simp: getopt_short_option_def answers_def)
  next
    case (2 ws)
    have "take 1 (concat (map (\<lambda>v. [v, CHR '':'']) ws)) \<noteq> '':''" using 2(2) vals_chars by (cases ws) auto
    then show ?thesis using assms 2 False
      by (auto simp: getopt_short_option_def answers_def Let_def numeral_2_eq_2 split: if_splits list.splits)
  qed
qed

lemma long_answers:
  assumes "getopt_long_option (map longopt table) str gd = (c', a, gd')"
  shows "answers c' a gd'"
proof (cases "find_longopt (map longopt table) (takeWhile (\<lambda>c. c \<noteq> CHR ''='') str)")
  case None
  then show ?thesis using assms by (simp add: getopt_long_option_def answers_def Let_def)
next
  case (Some p)
  then have "val p \<in> set vals" "has_arg p = Required_argument"
    using find_longopt_member [OF Some] table_args by (auto simp: vals_def)
  then show ?thesis using assms Some
    by (auto simp: getopt_long_option_def answers_def Let_def split: if_splits list.splits)
qed

lemma getopt_answers:
  assumes "getopt_long optstring (map longopt table) gd = Some (c, a, gd')"
  shows "answers c a gd'"
  using assms
  by (auto simp: getopt_long_def split: list.splits if_splits dest: short_answers long_answers)

definition "marked mos s \<longleftrightarrow> ok s \<and> (\<forall>mo \<in> set mos. given mo \<longrightarrow> parsed (val (longopt mo)) s)"

lemma loop_returns:
  "map longopt mos = map longopt table \<Longrightarrow> marked mos s \<Longrightarrow>
   \<exists>ret mos' s'. getopt_loop optstring (map longopt table) func mos gd s = Ret (ret, mos', s') \<and> ok s' \<and>
     map longopt mos' = map longopt table \<and> map required mos' = map required mos \<and> (ret \<ge> 0 \<longrightarrow> marked mos' s')"
proof (induction "getopt_left gd" arbitrary: mos gd s rule: less_induct)
  case less
  show ?case
  proof (cases "getopt_long optstring (map longopt table) gd")
    case None
    then show ?thesis using less.prems by (subst getopt_loop.simps) (auto simp: marked_def)
  next
    case (Some r)
    obtain c a gd' where r: "r = (c, a, gd')" by (cases r)
    note ans = getopt_answers [OF Some [unfolded r]]
    have vs: "set vals = (\<lambda>mo. val (longopt mo)) ` set mos"
    proof -
      have "set vals = val ` set (map longopt table)" by (auto simp: vals_def)
      also have "\<dots> = val ` set (map longopt mos)" by (simp only: less.prems(1))
      finally show ?thesis by auto
    qed
    show ?thesis
    proof (cases "c \<in> set vals")
      case False
      have "\<exists>i. get_more mos (optopt gd') = Some i" if "c = CHR '':''"
      proof -
        have "optopt gd' \<in> (\<lambda>mo. val (longopt mo)) ` set mos"
          using ans that False vs by (simp add: answers_def)
        from get_more_Some [OF this] show ?thesis by metis
      qed
      then have "getopt_loop optstring (map longopt table) func mos gd s = Ret (- EINVAL, mos, s)"
        using ans False Some r by (subst getopt_loop.simps) (auto simp: answers_def Let_def)
      then show ?thesis using less.prems by (auto simp: marked_def)
    next
      case True
      obtain i where i: "i < length mos" "get_more mos c = Some i" "val (longopt (mos ! i)) = c"
        using get_more_Some [of c mos] True vs by auto
      obtain str where str: "a = Some str" using ans True vals_chars by (auto simp: answers_def Let_def)
      obtain mo where mo: "mo \<in> set table" "c = val (longopt mo)" using True by (auto simp: vals_def)
      obtain ret s' where f: "func c (Some str) s = Ret (ret, s')" "ok s'"
        "ret \<ge> 0 \<Longrightarrow> parsed c s'" "ret \<ge> 0 \<Longrightarrow> parsed d s \<Longrightarrow> parsed d s'" for d
        using func_returns [OF mo, of s str] less.prems by (auto simp: marked_def)
      let ?m = "mos[i := (mos ! i)\<lparr>given := True\<rparr>]"
      have step: "getopt_loop optstring (map longopt table) func mos gd s =
          (if ret < 0 then Ret (ret, mos, s') else getopt_loop optstring (map longopt table) func ?m gd' s')"
        using Some r i f(1) str True vals_chars by (subst getopt_loop.simps) (auto simp: Let_def)
      show ?thesis
      proof (cases "ret < 0")
        case True
        then show ?thesis using step f(2) less.prems(1) by auto
      next
        case False
        have l: "getopt_left gd' < getopt_left gd" using Some r getopt_long_left by blast
        have "map longopt ?m = map longopt table" "map required ?m = map required mos"
          using less.prems(1) by (simp_all add: map_update_same)
        moreover have "marked ?m s'"
          using False f(2-4) less.prems(2) i by (fastforce simp: marked_def dest!: subsetD [OF set_update_subset_insert])
        ultimately show ?thesis using less.hyps [OF l, of ?m s'] step False by auto
      qed
    qed
  qed
qed

lemma getopt_more_returns:
  assumes "ok s"
  shows "\<exists>ret mos hs s'. getopt_long_more optstr_ok True argv table func s = Ret (ret, mos, hs, s') \<and> ok s' \<and>
    (ret = 0 \<longrightarrow> (\<forall>mo \<in> set table. required mo \<longrightarrow> parsed (val (longopt mo)) s')) \<and>
    ret \<le> 0 \<and> (ret < 0 \<and> optstr_ok \<longrightarrow> hs = show_help mos)"
proof (cases optstr_ok)
  case True
  have "marked table s" using assms table_args by (auto simp: marked_def)
  then obtain ret mos s' where l: "getopt_loop optstring (map longopt table) func table
        \<lparr>nextchar = [], unread = tl argv, optopt = CHR 0x00\<rparr> s = Ret (ret, mos, s')" "ok s'"
      "map longopt mos = map longopt table" "map required mos = map required table" "ret \<ge> 0 \<longrightarrow> marked mos s'"
    using loop_returns [of table s] by blast
  have "parsed (val (longopt mo)) s'"
    if asm: "\<not> list_ex (\<lambda>mo. required mo \<and> \<not> given mo) mos" "marked mos s'" "mo \<in> set table" "required mo" for mo
  proof -
    obtain i where i: "i < length table" "mo = table ! i" using asm(3) by (auto simp: in_set_conv_nth)
    have len: "length mos = length table" using l(3) map_eq_imp_length_eq by blast
    have "longopt (mos ! i) = longopt mo" "required (mos ! i) = required mo"
      using arg_cong [OF l(3), of "\<lambda>xs. xs ! i"] arg_cong [OF l(4), of "\<lambda>xs. xs ! i"] i len by simp_all
    moreover have "mos ! i \<in> set mos" using i(1) len by simp
    ultimately show ?thesis using asm(1,2,4) by (metis marked_def list_ex_iff)
  qed
  then show ?thesis using True l(1,2,5) prepared
    by (auto simp: getopt_long_more_def prepare_longopts_def Let_def)
next
  case False
  then show ?thesis using assms by (simp add: getopt_long_more_def prepare_optstr_def)
qed

end

end
