(* ===== verification/Mount_Props.thy ===== *)
theory Mount_Props
  imports Mount Options_Props Parse_Props Block_Proto_Props Trace_Props
begin

text \<open>
  The two option tables fulfil the contract of \<open>getopt_long_more\<close>; mounting leaves all layers
  set up or none, and mounts the addresses of the command line.
\<close>

definition opts_counted :: "mount_options \<Rightarrow> bool" where
  "opts_counted opts \<longleftrightarrow> length (addr_list opts) = unat (opt_nr_addrs opts)"

lemma unat_Suc_u8: "n \<noteq> 255 \<Longrightarrow> unat (n + 1 :: u8) = unat n + 1"
proof -
  assume "n \<noteq> 255"
  moreover have "(255 :: u8) = - 1" by simp
  ultimately have "1 + n \<noteq> 0" by (metis add_eq_0_iff)
  then show ?thesis using unatSuc [of n] by (simp add: add.commute)
qed

interpretation mo: option_parser mount_moreopts parse_mount_opt opts_counted
    "\<lambda>c opts. c = CHR ''d'' \<longrightarrow> opt_nr_addrs opts \<noteq> 0"
proof unfold_locales
  fix m c s str
  assume m: "m \<in> set mount_moreopts" "c = val (longopt m)" "opts_counted s"
  then consider "c = CHR ''d''" | "c = CHR ''t''" by (auto simp: mount_moreopts_def)
  then show "\<exists>ret s'. parse_mount_opt c (Some str) s = Ret (ret, s') \<and> opts_counted s' \<and>
      (0 \<le> ret \<longrightarrow> (c = CHR ''d'' \<longrightarrow> opt_nr_addrs s' \<noteq> 0) \<and>
        (\<forall>d. (d = CHR ''d'' \<longrightarrow> opt_nr_addrs s \<noteq> 0) \<longrightarrow> d = CHR ''d'' \<longrightarrow> opt_nr_addrs s' \<noteq> 0))"
  proof cases
    case 1
    have "opt_nr_addrs s + 1 \<noteq> 0" if "opt_nr_addrs s \<noteq> 255" using unat_Suc_u8 [OF that] by auto
    then show ?thesis using 1 m(3) unat_Suc_u8 [of "opt_nr_addrs s"]
      by (auto simp: parse_mount_opt_def opts_counted_def Let_def split: prod.splits sum.splits dest: parse_ipv4_neg)
  next
    case 2
    then show ?thesis using m(3) by (auto simp: parse_mount_opt_def opts_counted_def split: prod.splits)
  qed
qed (auto simp: mount_moreopts_def)

interpretation dv: option_parser devd_moreopts parse_devd_opt "\<lambda>_. True"
    "\<lambda>c opts. (c = CHR ''d'' \<longrightarrow> dev_path opts \<noteq> None) \<and> (c = CHR ''t'' \<longrightarrow> devd_trace_path opts \<noteq> None)"
  by unfold_locales
    (auto simp: devd_moreopts_def parse_devd_opt_def strdup_nerr_def Let_def split: prod.splits sum.splits)

subsection \<open>Options\<close>

text \<open>
  On every command line the option parser of devd returns, without following a null pointer,
  and when it returns 0 the paths of the device and of the trace file are set; otherwise the
  hs text is what it shows.
\<close>

theorem devd_options_complete:
  "\<exists>ret mos hs opts'. getopt_long_more True True argv devd_moreopts parse_devd_opt opts = Ret (ret, mos, hs, opts') \<and>
     (ret = 0 \<and> (\<exists>dev trace. dev_path opts' = Some dev \<and> devd_trace_path opts' = Some trace) \<or>
      ret < 0 \<and> hs = show_help mos)"
proof -
  obtain ret mos hs opts' where
    g: "getopt_long_more True True argv devd_moreopts parse_devd_opt opts = Ret (ret, mos, hs, opts')"
    and r: "ret = 0 \<longrightarrow> (\<forall>m \<in> set devd_moreopts. required m \<longrightarrow>
      (val (longopt m) = CHR ''d'' \<longrightarrow> dev_path opts' \<noteq> None) \<and> (val (longopt m) = CHR ''t'' \<longrightarrow> devd_trace_path opts' \<noteq> None))"
    and l: "ret \<le> 0" "ret < 0 \<longrightarrow> hs = show_help mos"
    using dv.getopt_more_returns [where s = opts and argv = argv and optstr_ok = True] by auto
  have "ret = 0 \<Longrightarrow> dev_path opts' \<noteq> None \<and> devd_trace_path opts' \<noteq> None"
    using r by (simp add: devd_moreopts_def)
  then show ?thesis using g l by auto
qed

subsection \<open>Mounting\<close>

lemma mount_setup_result:
  assumes "mtr_setup ops = None" "0 \<le> trace_thread sys" "opts_counted opts"
  shows "\<exists>ret nfi ts'. mount_setup ops sys opts t INIT_NGNFS_FS_INFO ts = Ret (ret, nfi, ts') \<and> \<not> msg_freed nfi \<and>
    (ret = 0 \<and> block_info nfi = Some (init_block_info 32) \<and>
       manifest_info nfi = Some \<lparr>nr_addrs = opt_nr_addrs opts, addrs = addr_list opts\<rparr> \<and>
       (\<exists>minf. msg_info nfi = Some minf \<and> recv_fns minf 1 = Some Get_block_result \<and>
          recv_fns minf 3 = Some Write_block_result) \<or>
     ret < 0 \<and> block_info nfi = None)"
proof -
  let ?mf = "\<lparr>nr_addrs = opt_nr_addrs opts, addrs = addr_list opts\<rparr>"
  obtain tr ts' where tr: "trace_setup (open_trace sys (trace_path opts)) (trace_thread sys) ts = (tr, ts')" "tr \<le> 0"
    using assms(2) by (cases "trace_setup (open_trace sys (trace_path opts)) (trace_thread sys) ts")
      (auto simp: trace_setup_def thread_start_def Let_def split: option.splits if_splits)
  have mf: "mount_manifest sys opts INIT_NGNFS_FS_INFO =
      (if manifest_ok sys then (0, INIT_NGNFS_FS_INFO\<lparr>manifest_info := Some ?mf\<rparr>) else (- ENOMEM, INIT_NGNFS_FS_INFO))"
    using assms(3) manifest_setup_eq [of "addr_list opts" "opt_nr_addrs opts"]
    by (auto simp: mount_manifest_def opts_counted_def ngnfs_manifest_setup_def)
  have mm: "mount_msg ops sys None t nfi =
      (if \<not> msg_ok sys then (- ENOMEM, nfi) else if msg_ht sys < 0 then (msg_ht sys, nfi)
       else (0, nfi\<lparr>msg_info := Some (new_msg_info t)\<rparr>))" for nfi :: "'a fs_info"
    using assms(1) by (simp add: mount_msg_def ngnfs_msg_setup_def Let_def)
  define minf where "minf = snd (ngnfs_btr_msg_setup (new_msg_info t))"
  have bs: "ngnfs_btr_msg_setup (new_msg_info t) = (0, minf)" "recv_fns minf 1 = Some Get_block_result"
    "recv_fns minf 3 = Some Write_block_result"
    by (simp_all add: minf_def ngnfs_btr_msg_setup_def ngnfs_msg_register_recv_def new_msg_info_def word_le_nat_alt)
  have mb: "mount_block sys nfi =
      (if \<not> block_ok sys then Ret (- ENOMEM, nfi)
       else if block_ht sys < 0 then Ret (block_ht sys, nfi\<lparr>msg_info := Some minf\<rparr>)
       else if \<not> wq_ok sys then Ret (- ENOMEM, nfi\<lparr>msg_info := Some minf\<rparr>)
       else Ret (0, nfi\<lparr>msg_info := Some minf, block_info := Some (init_block_info 32)\<rparr>))"
    if "msg_info nfi = Some (new_msg_info t)" for nfi :: "'a fs_info"
    using that bs(1) by (simp add: mount_block_def ngnfs_block_setup_def ngnfs_btr_msg_queue_depth_def)
  have "block_info (INIT_NGNFS_FS_INFO :: 'a fs_info) = None" "\<not> msg_freed (INIT_NGNFS_FS_INFO :: 'a fs_info)"
    by (simp_all add: INIT_NGNFS_FS_INFO_def)
  then show ?thesis using tr bs(2,3)
    by (auto simp: mount_setup_def mf mm mb Let_def)
qed

lemma unmount_result:
  assumes "block_info nfi = None" "\<not> msg_freed nfi"
  shows "\<exists>nfi'. ngnfs_unmount ops sys nfi = Ret nfi' \<and> block_info nfi' = None \<and> manifest_info nfi' = None \<and>
    (msg_info nfi' = None \<or> msg_freed nfi')"
  using assms by (auto simp: ngnfs_unmount_def unmount_block_def unmount_msg_def ngnfs_manifest_destroy_def
      split: option.splits)


text \<open>A system in which every call succeeds.\<close>

definition good_sys :: mount_sys where
  "good_sys = \<lparr>optstr_ok = True, longopts_ok = True, opt_allocs = [], open_trace = (\<lambda>_. 3), trace_thread = 0,
     manifest_ok = True, msg_ok = True, msg_ht = 0, block_ok = True, block_ht = 0, wq_ok = True, drain = Ret\<rparr>"

definition null_ops :: "(unit, unit) mtr_ops" where
  "null_ops = \<lparr>mtr_setup = None, mtr_shutdown = None, mtr_destroy = None, start_listen = (\<lambda>_ t. (0, t)),
     stop_listen = (\<lambda>t. t), peer_info_size = 0, init_peer = None, destroy_peer = None,
     mtr_start = (\<lambda>_ _ _ t. (0, t)), mtr_send = (\<lambda>_ _ t. (0, t))\<rparr>"


subsection \<open>From the command line to the manifest\<close>

definition addr_args :: "sockaddr_in list \<Rightarrow> string list" where
  "addr_args as = concat (map (\<lambda>a. [''-d'', IPV4F (IPV4A a)]) as)"

lemma mount_optstr: "prepare_optstr True mount_moreopts = (0, ''+:h?d:t:'')"
  by (simp add: prepare_optstr_def mount_moreopts_def)

text \<open>The table with the marks for the two options.\<close>

definition marked_opts :: "bool \<Rightarrow> bool \<Rightarrow> option_more list" where
  "marked_opts d t = [(mount_moreopts ! 0)\<lparr>given := d\<rparr>, (mount_moreopts ! 1)\<lparr>given := t\<rparr>]"

lemma marked_opts_simps:
  "get_more (marked_opts d t) CHR ''d'' = Some 0" "get_more (marked_opts d t) CHR ''t'' = Some 1"
  "(marked_opts d t)[0 := (marked_opts d t ! 0)\<lparr>given := True\<rparr>] = marked_opts True t"
  "(marked_opts d t)[Suc 0 := (marked_opts d t ! Suc 0)\<lparr>given := True\<rparr>] = marked_opts d True"
  "marked_opts False False = mount_moreopts"
  by (simp_all add: marked_opts_def mount_moreopts_def get_more_def)

lemma getopt_dt:
  "c = CHR ''d'' \<or> c = CHR ''t'' \<Longrightarrow>
   getopt_long ''+:h?d:t:'' lo \<lparr>nextchar = [], unread = [CHR ''-'', c] # x # r, optopt = z\<rparr> =
     Some (c, Some x, \<lparr>nextchar = [], unread = r, optopt = z\<rparr>)"
  by (auto simp: getopt_long_def getopt_short_option_def Let_def)

lemma loop_addrs:
  assumes "allocs opts = []" "unat (opt_nr_addrs opts) + length as \<le> 255"
  shows "getopt_loop ''+:h?d:t:'' lo parse_mount_opt (marked_opts g False)
      \<lparr>nextchar = [], unread = addr_args as @ r, optopt = z\<rparr> opts =
    getopt_loop ''+:h?d:t:'' lo parse_mount_opt (marked_opts (g \<or> as \<noteq> []) False)
      \<lparr>nextchar = [], unread = r, optopt = z\<rparr>
      (opts\<lparr>addr_list := addr_list opts @ as, opt_nr_addrs := opt_nr_addrs opts + of_nat (length as)\<rparr>)"
  using assms
proof (induction as arbitrary: opts g)
  case Nil
  then show ?case by (simp add: addr_args_def)
next
  case (Cons a as)
  let ?o = "opts\<lparr>addr_list := addr_list opts @ [a], opt_nr_addrs := opt_nr_addrs opts + 1\<rparr>"
  have n: "opt_nr_addrs opts \<noteq> 255" using Cons.prems(2) by auto
  have "parse_ipv4_addr_port True (IPV4F (IPV4A a)) = Inr a" by (cases a) (simp add: ipv4_parses_printed)
  then have p: "parse_mount_opt CHR ''d'' (Some (IPV4F (IPV4A a))) opts = Ret (0, ?o)"
    using n Cons.prems(1) by (simp add: parse_mount_opt_def take_alloc_def)
  have "addr_args (a # as) @ r = ''-d'' # IPV4F (IPV4A a) # addr_args as @ r" by (simp add: addr_args_def)
  then have "getopt_loop ''+:h?d:t:'' lo parse_mount_opt (marked_opts g False)
      \<lparr>nextchar = [], unread = addr_args (a # as) @ r, optopt = z\<rparr> opts =
    getopt_loop ''+:h?d:t:'' lo parse_mount_opt (marked_opts True False)
      \<lparr>nextchar = [], unread = addr_args as @ r, optopt = z\<rparr> ?o"
    using p by (subst getopt_loop.simps) (simp add: getopt_dt marked_opts_simps Let_def)
  also have "\<dots> = getopt_loop ''+:h?d:t:'' lo parse_mount_opt (marked_opts True False)
      \<lparr>nextchar = [], unread = r, optopt = z\<rparr>
      (?o\<lparr>addr_list := addr_list ?o @ as, opt_nr_addrs := opt_nr_addrs ?o + of_nat (length as)\<rparr>)"
    using Cons.IH [of ?o True] Cons.prems unat_Suc_u8 [OF n] by simp
  finally show ?case by (simp add: add.assoc)
qed

text \<open>C26: A command line that names between one and 255 device servers, as the program prints
  addresses, and a trace file mounts a file system whose manifest maps block number \<open>bnr\<close> to
  the server at \<open>bnr\<close> modulo their number, in the order of the command line.
\<close>

theorem mount_maps_blocks_to_servers:
  assumes "0 < length as" "length as \<le> 255" "mtr_setup ops = None"
  shows "\<exists>nfi ts' mf. ngnfs_mount ops good_sys (prog # addr_args as @ [''-t'', path]) t INIT_NGNFS_FS_INFO ts = Ret (0, nfi, ts') \<and>
    manifest_info nfi = Some mf \<and> (\<forall>bnr. ngnfs_manifest_map_block mf bnr = Ret (as ! (unat bnr mod length as)))"
proof -
  define opts where "opts = \<lparr>addr_list = as, opt_nr_addrs = of_nat (length as), trace_path = Some path, allocs = []\<rparr>"
  have n: "unat (of_nat (length as) :: u8) = length as" using assms(2) by (simp add: unat_of_nat)
  have oc: "opts_counted opts" using n by (simp add: opts_def opts_counted_def)
  have nz: "opt_nr_addrs opts \<noteq> 0" using n assms(1) by (auto simp: opts_def)
  have "getopt_long_more True True (prog # addr_args as @ [''-t'', path]) mount_moreopts parse_mount_opt (init_mount_options good_sys) =
      Ret (0, marked_opts True True, [], opts)"
  proof -
    let ?lo = "map longopt mount_moreopts" and ?i = "init_mount_options good_sys"
    have i: "allocs ?i = []" "unat (opt_nr_addrs ?i) + length as \<le> 255" "?i\<lparr>addr_list := addr_list ?i @ as,
        opt_nr_addrs := opt_nr_addrs ?i + of_nat (length as), trace_path := Some path\<rparr> = opts"
      using assms(2) by (simp_all add: init_mount_options_def good_sys_def opts_def)
    let ?o = "?i\<lparr>addr_list := addr_list ?i @ as, opt_nr_addrs := opt_nr_addrs ?i + of_nat (length as)\<rparr>"
    have t: "parse_mount_opt CHR ''t'' (Some path) ?o = Ret (0, opts)"
      using i(1,3) by (simp add: parse_mount_opt_def take_alloc_def strdup_nerr_def init_mount_options_def good_sys_def)
    have "getopt_loop ''+:h?d:t:'' ?lo parse_mount_opt (marked_opts False False)
        \<lparr>nextchar = [], unread = addr_args as @ [''-t'', path], optopt = CHR 0x00\<rparr> ?i =
      getopt_loop ''+:h?d:t:'' ?lo parse_mount_opt (marked_opts True False)
        \<lparr>nextchar = [], unread = [''-t'', path], optopt = CHR 0x00\<rparr> ?o"
      using loop_addrs [OF i(1,2)] assms(1) by simp
    also have "\<dots> = getopt_loop ''+:h?d:t:'' ?lo parse_mount_opt (marked_opts True True)
        \<lparr>nextchar = [], unread = [], optopt = CHR 0x00\<rparr> opts"
      using t by (subst getopt_loop.simps) (simp add: getopt_dt marked_opts_simps Let_def)
    also have "\<dots> = Ret (0, marked_opts True True, opts)"
      by (subst getopt_loop.simps) (simp add: getopt_long_def)
    finally have "getopt_loop ''+:h?d:t:'' ?lo parse_mount_opt mount_moreopts
        \<lparr>nextchar = [], unread = addr_args as @ [''-t'', path], optopt = CHR 0x00\<rparr> ?i = Ret (0, marked_opts True True, opts)"
      by (simp add: marked_opts_simps)
    then show ?thesis
      by (simp add: getopt_long_more_def mount_optstr prepare_longopts_def) (simp add: marked_opts_def)
  qed
  moreover obtain ret nfi ts' where m: "mount_setup ops good_sys opts t INIT_NGNFS_FS_INFO ts = Ret (ret, nfi, ts')"
    "ret = 0 \<Longrightarrow> manifest_info nfi = Some \<lparr>nr_addrs = opt_nr_addrs opts, addrs = as\<rparr>"
    using mount_setup_result [OF assms(3) _ oc, of good_sys t ts] by (auto simp: good_sys_def opts_def)
  moreover have "ret = 0" using m(1) assms(3) oc
    by (auto simp: mount_setup_def mount_manifest_def mount_msg_def mount_block_def good_sys_def trace_setup_def
        thread_start_def manifest_setup_eq opts_counted_def ngnfs_msg_setup_def ngnfs_block_setup_def ngnfs_btr_msg_setup_def
        ngnfs_msg_register_recv_def new_msg_info_def word_le_nat_alt Let_def split: option.splits)
  ultimately have "ngnfs_mount ops good_sys (prog # addr_args as @ [''-t'', path]) t INIT_NGNFS_FS_INFO ts = Ret (0, nfi, ts')"
    using nz by (simp add: ngnfs_mount_def) (simp add: good_sys_def)
  then show ?thesis using m(2) \<open>ret = 0\<close> manifest_map_eq [of "opt_nr_addrs opts" as] assms(1) n by (auto simp: opts_def)
qed

theorem mount_maps_blocks_to_servers_witness:
  "\<exists>nfi ts' mf. ngnfs_mount null_ops good_sys (''debugfs'' # addr_args [(1, 2), (3, 4)] @ [''-t'', ''x'']) () INIT_NGNFS_FS_INFO example_trace =
      Ret (0, nfi, ts') \<and> manifest_info nfi = Some mf \<and> ngnfs_manifest_map_block mf 5 = Ret (3, 4)"
proof -
  have "(5 :: nat) mod Suc (Suc 0) = Suc 0" by (simp add: numeral_2_eq_2 [symmetric])
  then show ?thesis
    using mount_maps_blocks_to_servers [of "[(1, 2), (3, 4)]" null_ops "''debugfs''" "''x''" "()" example_trace]
    by (fastforce simp: null_ops_def)
qed

end
