(* ===== verification/Debugfs.thy ===== *)
theory Debugfs
  imports Mount Pfs
begin

text \<open>
  The interactive command of \<open>cli/debugfs.c\<close>: splitting a line, looking its command up and the
  loop over the lines, on the C library's \<open>strtok_r\<close>, \<open>strcmp\<close>, \<open>qsort\<close>, \<open>bsearch\<close> and \<open>fgets\<close>.
\<close>

definition LINE_SIZE :: nat where [simp]: "LINE_SIZE = 4096 * 5"
definition MAX_ARGC :: nat where [simp]: "MAX_ARGC = (LINE_SIZE + 1) div 2"

subsection \<open>The C library\<close>

text \<open>Of the result of \<open>strcmp\<close> only the sign is specified.\<close>

fun strcmp :: "string \<Rightarrow> string \<Rightarrow> int" where
  "strcmp [] [] = 0"
| "strcmp [] (b # bs) = -1"
| "strcmp (a # as) [] = 1"
| "strcmp (a # as) (b # bs) =
     (if a = b then strcmp as bs else if (of_char a :: nat) < of_char b then -1 else 1)"

text \<open>The token and what \<open>saveptr\<close> points to afterwards.\<close>

definition strtok_r :: "(char \<Rightarrow> bool) \<Rightarrow> string \<Rightarrow> string option \<times> string" where
  "strtok_r delim s =
     (let s = dropWhile delim s
      in if s = [] then (None, [])
         else (Some (takeWhile (\<lambda>c. \<not> delim c) s), drop 1 (dropWhile (\<lambda>c. \<not> delim c) s)))"

function bsearch_loop :: "('k \<Rightarrow> 'a \<Rightarrow> int) \<Rightarrow> 'k \<Rightarrow> 'a list \<Rightarrow> nat \<Rightarrow> nat \<Rightarrow> 'a option" where
  "bsearch_loop compar key base l u =
     (if l < u then
        (let idx = (l + u) div 2;
             cmp = compar key (base ! idx)
         in if cmp < 0 then bsearch_loop compar key base l idx
            else if cmp > 0 then bsearch_loop compar key base (idx + 1) u
            else Some (base ! idx))
      else None)"
  by pat_completeness auto
termination
  by (relation "measure (\<lambda>(compar, key, base, l, u). u - l)") auto

declare bsearch_loop.simps [simp del]

definition bsearch :: "('k \<Rightarrow> 'a \<Rightarrow> int) \<Rightarrow> 'k \<Rightarrow> 'a list \<Rightarrow> 'a option" where
  "bsearch compar key base = bsearch_loop compar key base 0 (length base)"

primrec qsort_insert :: "('a \<Rightarrow> 'a \<Rightarrow> int) \<Rightarrow> 'a \<Rightarrow> 'a list \<Rightarrow> 'a list" where
  "qsort_insert compar x [] = [x]"
| "qsort_insert compar x (y # ys) = (if compar x y \<le> 0 then x # y # ys else y # qsort_insert compar x ys)"

definition qsort :: "('a \<Rightarrow> 'a \<Rightarrow> int) \<Rightarrow> 'a list \<Rightarrow> 'a list" where
  "qsort compar xs = foldr (qsort_insert compar) xs []"

text \<open>The line with its newline, at most \<open>n - 1\<close> characters, and the rest of the input.\<close>

definition fgets :: "nat \<Rightarrow> string \<Rightarrow> (string \<times> string) option" where
  "fgets n s =
     (if s = [] then None
      else (let k = min (n - 1) (Suc (length (takeWhile (\<lambda>c. c \<noteq> CHR 0x0A) s))) in Some (take k s, drop k s)))"

subsection \<open>Commands\<close>

text \<open>
  What a line's command takes from the system and the other threads; \<open>idle\<close> is what those did
  until the line was read.
\<close>

record debugfs_env =
  idle :: "block_info \<Rightarrow> block_info"
  sync_env :: "block_info \<Rightarrow> block_info"
  inode_mem :: "mem option"
  add_ok :: bool
  rounds :: nat
  alloc_ok :: "nat \<Rightarrow> bool"
  alloc_page :: "nat option"
  others :: env
  now :: u64

datatype cmd_func = Cmd_mkfs | Cmd_stat

primrec call_func :: "cmd_func \<Rightarrow> debugfs_env \<Rightarrow> block_info \<Rightarrow> (cmd_output \<times> block_info) run" where
  "call_func Cmd_mkfs e st =
     cmd_mkfs (sync_env e) (inode_mem e) (add_ok e) (rounds e) (alloc_ok e) (alloc_page e) (others e) (now e) st"
| "call_func Cmd_stat e st = cmd_stat (add_ok e) (rounds e) (alloc_ok e) (alloc_page e) (others e) st"

type_synonym command = "string \<times> cmd_func"

definition commands :: "command list" where
  "commands = [(''mkfs'', Cmd_mkfs), (''stat'', Cmd_stat)]"

definition compar_cmd_names :: "command \<Rightarrow> command \<Rightarrow> int" where
  "compar_cmd_names a b = strcmp (fst a) (fst b)"

definition compar_key_cmd_name :: "string \<Rightarrow> command \<Rightarrow> int" where
  "compar_key_cmd_name name cmd = strcmp name (fst cmd)"

definition is_delim :: "char \<Rightarrow> bool" where
  "is_delim c \<longleftrightarrow> c \<in> {CHR 0x09, CHR '' '', CHR 0x0A, CHR 0x0D}"

text \<open>The loop that fills \<open>argv\<close>.\<close>

primrec command_argv :: "nat \<Rightarrow> string \<Rightarrow> string list" where
  "command_argv 0 s = []"
| "command_argv (Suc n) s =
     (case strtok_r is_delim s of
        (None, _) \<Rightarrow> []
      | (Some tok, saveptr) \<Rightarrow> tok # command_argv n saveptr)"

datatype line_output = No_command | Unknown_command string | Ran cmd_output

definition parse_command :: "command list \<Rightarrow> debugfs_env \<Rightarrow> string \<Rightarrow> block_info \<Rightarrow> (line_output \<times> block_info) run" where
  "parse_command cmds e buf st =
     (case command_argv MAX_ARGC buf of
        [] \<Rightarrow> Ret (No_command, st)
      | name # _ \<Rightarrow>
          (case bsearch compar_key_cmd_name name cmds of
             None \<Rightarrow> Ret (Unknown_command name, st)
           | Some cmd \<Rightarrow> bind_run (call_func (snd cmd) e st) (\<lambda>(out, st). Ret (Ran out, st))))"

text \<open>The loop over the lines of the input, with the environment of every line.\<close>

function debugfs_loop ::
    "command list \<Rightarrow> (nat \<Rightarrow> debugfs_env) \<Rightarrow> nat \<Rightarrow> string \<Rightarrow> block_info \<Rightarrow> (line_output list \<times> block_info) run" where
  "debugfs_loop cmds e i stdin st =
     (case fgets LINE_SIZE stdin of
        None \<Rightarrow> Ret ([], st)
      | Some (line, stdin') \<Rightarrow>
          bind_run (parse_command cmds (e i) line (idle (e i) st)) (\<lambda>(out, st).
          bind_run (debugfs_loop cmds e (Suc i) stdin' st) (\<lambda>(outs, st). Ret (out # outs, st))))"
  by pat_completeness auto
termination
  by (relation "measure (\<lambda>(cmds, e, i, stdin, st). length stdin)")
    (auto simp: fgets_def Let_def split: if_splits)

declare debugfs_loop.simps [simp del]

text \<open>
  \<open>debugfs_thread\<close>: the value it leaves in \<open>dargs->ret\<close>, what the lines printed and the state
  of the mount.
\<close>

definition debugfs_thread ::
    "('fd, 't) mtr_ops \<Rightarrow> mount_sys \<Rightarrow> bool \<Rightarrow> (nat \<Rightarrow> debugfs_env) \<Rightarrow> string list \<Rightarrow> string \<Rightarrow> 't \<Rightarrow> trace_state \<Rightarrow>
     (int \<times> line_output list \<times> 't fs_info \<times> trace_state) run" where
  "debugfs_thread ops sys mem_ok e argv stdin t ts =
     (if \<not> mem_ok then Ret (- ENOMEM, [], INIT_NGNFS_FS_INFO, ts)
      else
        bind_run (ngnfs_mount ops sys argv t INIT_NGNFS_FS_INFO ts) (\<lambda>(ret, nfi, ts).
          if ret < 0 then Ret (ret, [], nfi, ts)
          else
            (case block_info nfi of
               None \<Rightarrow> Undef
             | Some st \<Rightarrow>
                 bind_run (debugfs_loop (qsort compar_cmd_names commands) e 0 stdin st) (\<lambda>(outs, st).
                 bind_run (ngnfs_unmount ops sys (nfi\<lparr>block_info := Some st\<rparr>)) (\<lambda>nfi.
                   Ret (0, outs, nfi, ts))))))"

end
