(* ===== verification/Debugfs_Props.thy ===== *)
theory Debugfs_Props
  imports Debugfs Mount_Props Pfs_Props
begin

text \<open>
  Lines of the interactive command are split into their words and run the command their first
  word names.
\<close>

subsection \<open>Comparing and searching names\<close>

lemma strcmp_0 [simp]: "strcmp a b = 0 \<longleftrightarrow> a = b"
  by (induction a b rule: strcmp.induct) auto

lemma strcmp_refl [simp]: "strcmp a a = 0"
  by simp

lemma strcmp_swap: "strcmp a b < 0 \<longleftrightarrow> strcmp b a > 0"
  by (induction a b rule: strcmp.induct) (auto simp: not_less_iff_gr_or_eq)

lemma strcmp_trans: "strcmp a b < 0 \<Longrightarrow> strcmp b c < 0 \<Longrightarrow> strcmp a c < 0"
proof (induction a b arbitrary: c rule: strcmp.induct)
  case (2 b bs)
  then show ?case by (cases c) auto
next
  case (4 a as b bs)
  then show ?case by (cases c) (auto split: if_splits)
qed auto

text \<open>The tables \<open>bsearch\<close> is meant for: no name twice, in the order of \<open>strcmp\<close>.\<close>

definition names_sorted :: "command list \<Rightarrow> bool" where
  "names_sorted cmds \<longleftrightarrow> sorted_wrt (\<lambda>a b. strcmp (fst a) (fst b) < 0) cmds"

lemma find_append: "find P (xs @ ys) = (case find P xs of None \<Rightarrow> find P ys | Some x \<Rightarrow> Some x)"
  by (induction xs) auto

lemma bsearch_loop_finds:
  assumes "names_sorted cmds" "u \<le> length cmds"
  shows "bsearch_loop compar_key_cmd_name name cmds l u = find (\<lambda>cmd. fst cmd = name) (take (u - l) (drop l cmds))"
  using assms(2)
proof (induction "u - l" arbitrary: l u rule: less_induct)
  case less
  show ?case
  proof (cases "l < u")
    case False
    then show ?thesis by (subst bsearch_loop.simps) simp
  next
    case True
    define i where "i = (l + u) div 2"
    have i: "l \<le> i" "i < u" using True by (auto simp: i_def)
    have split: "take (u - l) (drop l cmds) = take (i - l) (drop l cmds) @ cmds ! i # take (u - (i + 1)) (drop (i + 1) cmds)"
    proof -
      have "take (u - l) (drop l cmds) = take (i - l) (drop l cmds) @ take (u - i) (drop i cmds)"
        using i take_add [of "i - l" "u - i" "drop l cmds"] by simp
      also have "take (u - i) (drop i cmds) = cmds ! i # take (u - (i + 1)) (drop (i + 1) cmds)"
      proof -
        have "u - i = Suc (u - (i + 1))" "drop i cmds = cmds ! i # drop (i + 1) cmds"
          using i less.prems by (simp_all add: Cons_nth_drop_Suc)
        then show ?thesis by (simp only: take_Suc_Cons)
      qed
      finally show ?thesis .
    qed
    have before: "strcmp (fst c) (fst (cmds ! i)) < 0" if "c \<in> set (take (i - l) (drop l cmds))" for c
      using that assms(1) i less.prems
      by (auto simp: names_sorted_def sorted_wrt_iff_nth_less in_set_conv_nth)
    have after: "strcmp (fst (cmds ! i)) (fst c) < 0" if "c \<in> set (take (u - (i + 1)) (drop (i + 1) cmds))" for c
      using that assms(1) i less.prems
      by (auto simp: names_sorted_def sorted_wrt_iff_nth_less in_set_conv_nth)
    let ?P = "\<lambda>cmd. fst cmd = name" and ?c = "strcmp name (fst (cmds ! i))"
    have loop: "bsearch_loop compar_key_cmd_name name cmds l u =
        (if ?c < 0 then find ?P (take (i - l) (drop l cmds))
         else if ?c > 0 then find ?P (take (u - (i + 1)) (drop (i + 1) cmds)) else Some (cmds ! i))"
      using i True less.hyps [of i l] less.hyps [of u "i + 1"] less.prems
      by (subst bsearch_loop.simps) (simp add: i_def [symmetric] compar_key_cmd_name_def Let_def)
    have miss: "find ?P cs = None" if "\<And>c. c \<in> set cs \<Longrightarrow> fst c \<noteq> name" for cs :: "command list"
      using that unfolding find_None_iff by blast
    consider "?c < 0" | "?c = 0" | "?c > 0" by linarith
    then show ?thesis
    proof cases
      case 1
      then have g: "strcmp (fst (cmds ! i)) name > 0" using strcmp_swap by blast
      have "fst c \<noteq> name" if "c \<in> set (cmds ! i # take (u - (i + 1)) (drop (i + 1) cmds))" for c
      proof
        assume n: "fst c = name"
        then have "strcmp (fst (cmds ! i)) name \<le> 0" using that after [of c] by fastforce
        then show False using g by simp
      qed
      then have "find ?P (cmds ! i # take (u - (i + 1)) (drop (i + 1) cmds)) = None" by (rule miss)
      then show ?thesis using 1 by (simp add: loop split find_append split: option.split)
    next
      case 2
      then have "find ?P (take (i - l) (drop l cmds)) = None" using before by (intro miss) force
      then show ?thesis using 2 loop by (simp add: split find_append)
    next
      case 3
      have "fst c \<noteq> name" if "c \<in> set (take (i - l) (drop l cmds))" for c
        using before [OF that] 3 by auto
      then have "find ?P (take (i - l) (drop l cmds)) = None" by (rule miss)
      moreover have "fst (cmds ! i) \<noteq> name" using 3 by auto
      ultimately show ?thesis using 3 by (simp add: loop split find_append)
    qed
  qed
qed

lemma bsearch_finds:
  "names_sorted cmds \<Longrightarrow> bsearch compar_key_cmd_name name cmds = find (\<lambda>cmd. fst cmd = name) cmds"
  by (simp add: bsearch_def bsearch_loop_finds)

text \<open>Sorting commands of different names gives a table in order with the same commands.\<close>

lemma qsort_insert_names:
  assumes "names_sorted cmds" "fst c \<notin> fst ` set cmds"
  shows "names_sorted (qsort_insert compar_cmd_names c cmds) \<and>
    set (qsort_insert compar_cmd_names c cmds) = insert c (set cmds)"
  using assms
proof (induction cmds)
  case Nil
  then show ?case by (simp add: names_sorted_def)
next
  case (Cons d cmds)
  have ne: "strcmp (fst c) (fst d) \<noteq> 0" using Cons.prems(2) by simp
  show ?case
  proof (cases "compar_cmd_names c d \<le> 0")
    case True
    then have "strcmp (fst c) (fst d) < 0" using ne unfolding compar_cmd_names_def by linarith
    then show ?thesis using True Cons.prems(1) strcmp_trans by (auto simp: names_sorted_def)
  next
    case False
    then have "strcmp (fst d) (fst c) < 0" by (simp add: compar_cmd_names_def strcmp_swap)
    then show ?thesis using False Cons by (auto simp: names_sorted_def)
  qed
qed

lemma qsort_names:
  "distinct (map fst cmds) \<Longrightarrow> names_sorted (qsort compar_cmd_names cmds) \<and> set (qsort compar_cmd_names cmds) = set cmds"
proof (induction cmds)
  case Nil
  then show ?case by (simp add: qsort_def names_sorted_def)
next
  case (Cons c cmds)
  then have "names_sorted (qsort compar_cmd_names cmds)" "set (qsort compar_cmd_names cmds) = set cmds" by simp_all
  moreover have "qsort compar_cmd_names (c # cmds) = qsort_insert compar_cmd_names c (qsort compar_cmd_names cmds)"
    by (simp add: qsort_def)
  moreover have "fst c \<notin> fst ` set cmds" using Cons.prems by simp
  ultimately show ?case using qsort_insert_names [of "qsort compar_cmd_names cmds" c] by simp
qed

lemma bsearch_qsort:
  assumes "distinct (map fst cmds)"
  shows "bsearch compar_key_cmd_name name (qsort compar_cmd_names cmds) = map_option (Pair name) (map_of cmds name)"
proof -
  let ?q = "qsort compar_cmd_names cmds"
  note q = qsort_names [OF assms]
  have "find (\<lambda>cmd. fst cmd = name) ?q = map_option (Pair name) (map_of cmds name)"
  proof (cases "find (\<lambda>cmd. fst cmd = name) ?q")
    case None
    then have "map_of cmds name = None" using q by (auto simp: find_None_iff map_of_eq_None_iff)
    then show ?thesis using None by simp
  next
    case (Some c)
    then have "c \<in> set cmds" "fst c = name" using q by (auto simp: find_Some_iff)
    then have "map_of cmds name = Some (snd c)" using assms by (metis map_of_is_SomeI prod.collapse)
    then show ?thesis using Some \<open>fst c = name\<close> by (cases c) simp
  qed
  then show ?thesis using q by (simp add: bsearch_finds)
qed

subsection \<open>Words\<close>

text \<open>The reference: the pieces between the delimiters that are not empty.\<close>

primrec pieces :: "string \<Rightarrow> string list" where
  "pieces [] = [[]]"
| "pieces (c # s) = (if is_delim c then [] # pieces s else (c # List.hd (pieces s)) # tl (pieces s))"

definition line_words :: "string \<Rightarrow> string list" where
  "line_words s = filter (\<lambda>w. w \<noteq> []) (pieces s)"

lemma pieces_not_empty [simp]: "pieces s \<noteq> []"
  by (cases s) auto

lemma line_words_delim: "is_delim c \<Longrightarrow> line_words (c # s) = line_words s"
  by (simp add: line_words_def)

lemma line_words_dropWhile: "line_words (dropWhile is_delim s) = line_words s"
  by (induction s) (auto simp: line_words_delim)

lemma pieces_append:
  "list_all (\<lambda>c. \<not> is_delim c) w \<Longrightarrow> pieces (w @ s) = (w @ List.hd (pieces s)) # tl (pieces s)"
  by (induction w) auto

lemma line_words_word:
  assumes "list_all (\<lambda>c. \<not> is_delim c) w" "w \<noteq> []" "s = [] \<or> is_delim (List.hd s)"
  shows "line_words (w @ s) = w # line_words (drop 1 s)"
proof (cases s)
  case Nil
  then show ?thesis using assms(1,2) pieces_append [OF assms(1), of "[]"] by (simp add: line_words_def)
next
  case (Cons c r)
  then show ?thesis using assms pieces_append [OF assms(1), of s] by (simp add: line_words_def)
qed

lemma strtok_r_words:
  "strtok_r is_delim s = (None, []) \<and> line_words s = [] \<or>
   (\<exists>w r. strtok_r is_delim s = (Some w, r) \<and> line_words s = w # line_words r \<and> length r + length w \<le> length s \<and> w \<noteq> [] \<and>
      (length r + length w = length s \<longrightarrow> r = []))"
proof (cases "dropWhile is_delim s")
  case Nil
  then have "line_words s = line_words []" using line_words_dropWhile [of s] by metis
  moreover have "strtok_r is_delim s = (None, [])" unfolding strtok_r_def Let_def Nil by simp
  ultimately show ?thesis by (simp add: line_words_def)
next
  case (Cons c t)
  let ?u = "dropWhile is_delim s"
  define w r where "w = takeWhile (\<lambda>c. \<not> is_delim c) ?u" and "r = dropWhile (\<lambda>c. \<not> is_delim c) ?u"
  have c: "\<not> is_delim c" using Cons hd_dropWhile [of is_delim s] by auto
  then have w: "w \<noteq> []" "list_all (\<lambda>c. \<not> is_delim c) w" using Cons by (auto simp: w_def list_all_iff dest: set_takeWhileD)
  have r: "r = [] \<or> is_delim (List.hd r)" using hd_dropWhile [of "\<lambda>c. \<not> is_delim c" ?u] by (auto simp: r_def)
  have u: "?u = w @ r" by (simp add: w_def r_def)
  have "strtok_r is_delim s = (Some w, drop 1 r)" using Cons by (simp add: strtok_r_def w_def r_def Let_def)
  moreover have "line_words s = w # line_words (drop 1 r)"
    using line_words_word [OF w(2,1) r] line_words_dropWhile [of s] u by simp
  moreover have "length w + length r \<le> length s" using u length_dropWhile_le [of is_delim s] by simp
  ultimately show ?thesis using w(1) by (cases r) auto
qed

lemma command_argv_words: "length s \<le> 2 * n - 1 \<Longrightarrow> command_argv n s = line_words s"
proof (induction n arbitrary: s)
  case 0
  then show ?case by (simp add: line_words_def)
next
  case (Suc n)
  show ?case
  proof (cases "line_words s = []")
    case True
    then show ?thesis using strtok_r_words [of s] by auto
  next
    case False
    then obtain w r where w: "strtok_r is_delim s = (Some w, r)" "line_words s = w # line_words r"
      "length r + length w \<le> length s" "w \<noteq> []" "length r + length w = length s \<longrightarrow> r = []"
      using strtok_r_words [of s] by auto
    have "length r \<le> 2 * n - 1"
    proof (cases "r = []")
      case False
      then have "length r + length w < length s" using w(3,5) by linarith
      moreover have "length w \<ge> 1" using w(4) by (cases w) auto
      ultimately show ?thesis using Suc.prems by simp
    qed simp
    then show ?thesis using Suc.IH [of r] w(1,2) by simp
  qed
qed

lemma fgets_length: "fgets n s = Some (line, rest) \<Longrightarrow> length line \<le> n - 1"
  by (auto simp: fgets_def Let_def split: if_splits)

subsection \<open>Properties\<close>

lemma parse_command_words:
  assumes "length line \<le> LINE_SIZE - 1"
  shows "parse_command (qsort compar_cmd_names commands) e line st =
    (case line_words line of
       [] \<Rightarrow> Ret (No_command, st)
     | w # _ \<Rightarrow>
         (case map_of commands w of
            None \<Rightarrow> Ret (Unknown_command w, st)
          | Some f \<Rightarrow> bind_run (call_func f e st) (\<lambda>(out, st). Ret (Ran out, st))))"
proof -
  have "command_argv MAX_ARGC line = line_words line" using assms by (intro command_argv_words) simp
  moreover have "distinct (map fst commands)" by (simp add: commands_def)
  ultimately show ?thesis unfolding parse_command_def
    by (auto simp: bsearch_qsort option.case_eq_if split: list.split option.split)
qed

text \<open>C40: However long the input is, the array of words has room for all words of a line that was
  read, and the line runs the command of the table that its first word names; other words are
  reported as unknown and a line without words as no command, neither of which changes anything.
\<close>

theorem debugfs_line_runs_its_word:
  assumes "fgets LINE_SIZE stdin = Some (line, rest)"
  shows "command_argv MAX_ARGC line = line_words line \<and>
    parse_command (qsort compar_cmd_names commands) e line st =
      (case line_words line of
         [] \<Rightarrow> Ret (No_command, st)
       | w # _ \<Rightarrow>
           (case map_of commands w of
              None \<Rightarrow> Ret (Unknown_command w, st)
            | Some f \<Rightarrow> bind_run (call_func f e st) (\<lambda>(out, st). Ret (Ran out, st))))"
proof -
  have l: "length line \<le> LINE_SIZE - 1" using fgets_length [OF assms] .
  then have "command_argv MAX_ARGC line = line_words line" by (intro command_argv_words) simp
  then show ?thesis using parse_command_words [OF l] by simp
qed

definition mkfs_stat_input :: string where
  "mkfs_stat_input = ''mkfs'' @ [CHR 0x0A] @ ''stat'' @ [CHR 0x0A]"

lemma fgets_line:
  assumes "length w + 1 < n" "CHR 0x0A \<notin> set w"
  shows "fgets n (w @ CHR 0x0A # r) = Some (w @ [CHR 0x0A], r)"
proof -
  have "takeWhile (\<lambda>c. c \<noteq> CHR 0x0A) (w @ CHR 0x0A # r) = w" using assms(2) by (subst takeWhile_append2) auto
  moreover have "min (n - 1) (Suc (length w)) = Suc (length w)" using assms(1) by simp
  ultimately show ?thesis by (simp add: fgets_def)
qed


theorem debugfs_line_runs_its_word_witness:
  "\<exists>line. fgets LINE_SIZE mkfs_stat_input = Some (line, ''stat'' @ [CHR 0x0A]) \<and> command_argv MAX_ARGC line = [''mkfs'']"
proof -
  have "fgets LINE_SIZE mkfs_stat_input = Some (''mkfs'' @ [CHR 0x0A], ''stat'' @ [CHR 0x0A])"
    using fgets_line [of "''mkfs''" LINE_SIZE] by (simp add: mkfs_stat_input_def)
  moreover from debugfs_line_runs_its_word [OF this]
  have "command_argv MAX_ARGC (''mkfs'' @ [CHR 0x0A]) = [''mkfs'']" by (simp add: line_words_def is_delim_def)
  ultimately show ?thesis by blast
qed

definition example_env :: "nat \<Rightarrow> debugfs_env" where
  "example_env i = \<lparr>idle = (\<lambda>c. c), sync_env = example_sync, inode_mem = Some (\<lambda>_. 0), add_ok = True, rounds = 0,
     alloc_ok = (\<lambda>_. True), alloc_page = Some 0, others = (\<lambda>_ c. c), now = 77\<rparr>"


end
