(* ===== verification/Programs.thy ===== *)
theory Programs
  imports Debugfs_Props Btr_Aio Trace_Props
begin

text \<open>
  The programs: \<open>cli/ngnfs-cli.c\<close>, the monitoring part of \<open>cli/debugfs.c\<close> and
  \<open>devd/ngnfs-devd.c\<close>, with \<open>thread_sigwait\<close> of \<open>shared/thread.c\<close>.  A program either returns from
  main or leaves through exit.
\<close>

datatype 'a proc = Exited int | Returned 'a

subsection \<open>Waiting for signals\<close>

text \<open>
  \<open>sigwait_ret\<close> is the result of \<open>sigwait\<close>, \<open>errno\<close> what errno holds then, which \<open>sigwait\<close> does
  not set.
\<close>

definition thread_sigwait :: "int \<Rightarrow> int \<Rightarrow> trace_state \<Rightarrow> (int proc \<times> trace_state) run" where
  "thread_sigwait sigwait_ret errno ts =
     (if sigwait_ret \<noteq> 0 then Ret (Returned (- errno), ts)
      else bind_run (trace_flush ts) (\<lambda>ts. Ret (Exited 1, ts)))"

subsection \<open>ngnfs-cli\<close>

text \<open>A command: its name, its description and its function of the arguments.\<close>

type_synonym 'r cli_command = "string \<times> string \<times> (string list \<Rightarrow> 'r)"

definition cli_register :: "'r cli_command \<Rightarrow> 'r cli_command list \<Rightarrow> 'r cli_command list" where
  "cli_register cmd cmds = cmds @ [cmd]"

definition cli_help :: "'r cli_command list \<Rightarrow> string list" where
  "cli_help cmds =
     [''ngnfs-cli <command> [command options..]'', [], ''available commands:''] @
     concat (map (\<lambda>(name, dsc, _). [''  '' @ name, ''    '' @ dsc]) cmds) @ [[]]"

primrec find_command :: "string \<Rightarrow> 'r cli_command list \<Rightarrow> 'r cli_command option" where
  "find_command name [] = None"
| "find_command name (cmd # cmds) = (if strcmp name (fst cmd) = 0 then Some cmd else find_command name cmds)"

text \<open>The exit status, or the status the command's function left the process with.\<close>

definition cli_main :: "int proc run cli_command list \<Rightarrow> string list \<Rightarrow> int run" where
  "cli_main cmds argv =
     (case argv of
        _ # name # args \<Rightarrow>
          (case find_command name cmds of
             None \<Rightarrow> Ret 1
           | Some cmd \<Rightarrow>
               bind_run (snd (snd cmd) (name # args)) (\<lambda>r.
                 Ret (case r of Exited status \<Rightarrow> status | Returned ret \<Rightarrow> if ret \<noteq> 0 then 1 else 0)))
      | _ \<Rightarrow> Ret 1)"

subsection \<open>debugfs\<close>

text \<open>
  \<open>debugfs_func\<close>.  \<open>work\<close> is the run of \<open>debugfs_thread\<close> until it returns, with the value it
  leaves in \<open>dargs.ret\<close>; it only matters when the process lives until it is joined.
\<close>

record prog_sys =
  sigmask_ret :: int
  trace_mem :: bool
  trace_bufs :: "mem option list"
  create_ret :: int
  sigwait_ret :: int
  errno :: int

definition debugfs_func ::
    "prog_sys \<Rightarrow> (trace_state \<Rightarrow> (int \<times> trace_state) run) \<Rightarrow> trace_state \<Rightarrow> (int proc \<times> trace_state) run" where
  "debugfs_func sys work ts =
     bind_run (thread_prepare_main (sigmask_ret sys) (trace_mem sys) (trace_bufs sys) ts) (\<lambda>(ret, ts).
       if ret < 0 then bind_run (thread_finish_main ts) (\<lambda>ts. Ret (Returned ret, ts))
       else
         (let (ret, thr) = thread_start (create_ret sys) thread_init
          in bind_run (if ret \<noteq> 0 then Ret (Returned ret, ts) else thread_sigwait (sigwait_ret sys) (errno sys) ts) (\<lambda>(r, ts).
               case r of
                 Exited status \<Rightarrow> Ret (Exited status, ts)
               | Returned ret \<Rightarrow>
                   bind_run (if THR_CREATED thr then work ts else Ret (0, ts)) (\<lambda>(dret, ts).
                   bind_run (thread_stop_wait (thread_stop_indicate thr)) (\<lambda>_.
                   bind_run (thread_finish_main ts) (\<lambda>ts.
                     Ret (Returned (if ret \<noteq> 0 then ret else dret), ts)))))))"

subsection \<open>ngnfs-devd\<close>

text \<open>The results of the calls of \<open>btr_aio_setup\<close>.\<close>

record aio_sys =
  aio_mem :: bool
  open_direct :: "string option \<Rightarrow> int"
  open_buffered :: "string option \<Rightarrow> int"
  rings_ok :: bool
  io_setup_ret :: int
  submit_ret :: int
  getevents_ret :: int

text \<open>\<open>ngnfs_block_setup\<close> with the aio transport; its info is kept beside the block info.\<close>

definition devd_block_setup ::
    "mount_sys \<Rightarrow> aio_sys \<Rightarrow> string option \<Rightarrow> 't fs_info \<Rightarrow> (int \<times> 't fs_info \<times> btr_aio_info option) run" where
  "devd_block_setup sys aio path nfi =
     bind_run
       (if \<not> block_ok sys then Ret (None, None)
        else
          bind_run (btr_aio_setup Map.empty (aio_mem aio) (open_direct aio path) (open_buffered aio path) (rings_ok aio)
                      (io_setup_ret aio) (submit_ret aio) (getevents_ret aio)) (\<lambda>r.
            case r of Inl err \<Rightarrow> Ret (Some err, None) | Inr ainf \<Rightarrow> Ret (None, Some ainf)))
       (\<lambda>(err, ainf).
          case ngnfs_block_setup (block_ok sys) err (case ainf of Some a \<Rightarrow> int (btr_aio_queue_depth a) | None \<Rightarrow> 0)
                 (block_ht sys) (wq_ok sys) of
            (ret, None) \<Rightarrow> Ret (ret, nfi, None)
          | (ret, Some b) \<Rightarrow> Ret (ret, nfi\<lparr>block_info := Some b\<rparr>, ainf))"

definition devd_block_destroy :: "mount_sys \<Rightarrow> 't fs_info \<Rightarrow> btr_aio_info option \<Rightarrow> 't fs_info run" where
  "devd_block_destroy sys nfi ainf =
     (case block_info nfi of
        None \<Rightarrow> Ret nfi
      | Some blinf \<Rightarrow>
          bind_run (drain sys blinf) (\<lambda>blinf.
          bind_run (btr_aio_destroy ainf) (\<lambda>_.
          bind_run (ngnfs_block_destroy blinf) (\<lambda>_. Ret (nfi\<lparr>block_info := None\<rparr>)))))"

text \<open>The setup functions, each called when those before it returned 0, up to the wait for a signal.\<close>

definition devd_setup ::
    "('fd, 't) mtr_ops \<Rightarrow> mount_sys \<Rightarrow> aio_sys \<Rightarrow> devd_options \<Rightarrow> 't \<Rightarrow> 't fs_info \<Rightarrow> trace_state \<Rightarrow>
     (int \<times> 't fs_info \<times> btr_aio_info option \<times> trace_state) run" where
  "devd_setup ops sys aio opts t nfi ts =
     (let (ret, ts) = trace_setup (open_trace sys (devd_trace_path opts)) (trace_thread sys) ts
      in if ret \<noteq> 0 then Ret (ret, nfi, None, ts)
         else
           (let (ret, nfi) = mount_msg ops sys (Some (listen_addr opts)) t nfi
            in if ret \<noteq> 0 then Ret (ret, nfi, None, ts)
               else
                 bind_run (devd_block_setup sys aio (dev_path opts) nfi) (\<lambda>(ret, nfi, ainf).
                   if ret \<noteq> 0 then Ret (ret, nfi, ainf, ts)
                   else
                     (case msg_info nfi of
                        None \<Rightarrow> Undef
                      | Some minf \<Rightarrow>
                          (let (ret, minf) = devd_recv_setup minf
                           in Ret (ret, nfi\<lparr>msg_info := Some minf\<rparr>, ainf, ts))))))"

definition devd_teardown ::
    "('fd, 't) mtr_ops \<Rightarrow> mount_sys \<Rightarrow> 't fs_info \<Rightarrow> btr_aio_info option \<Rightarrow> trace_state \<Rightarrow> ('t fs_info \<times> trace_state) run" where
  "devd_teardown ops sys nfi ainf ts =
     (let nfi = nfi\<lparr>msg_info := devd_recv_destroy (msg_info nfi)\<rparr>
      in bind_run (devd_block_destroy sys nfi ainf) (\<lambda>nfi.
         bind_run (unmount_msg ops nfi) (\<lambda>nfi.
         bind_run (thread_finish_main ts) (\<lambda>ts. Ret (nfi, ts)))))"

definition init_devd_options :: "mount_sys \<Rightarrow> devd_options" where
  "init_devd_options sys = \<lparr>dev_path = None, listen_addr = (0, 0), devd_trace_path = None, devd_allocs = opt_allocs sys\<rparr>"

text \<open>The result with the state of the layers when the program ends.\<close>

definition devd_main ::
    "('fd, 't) mtr_ops \<Rightarrow> mount_sys \<Rightarrow> prog_sys \<Rightarrow> aio_sys \<Rightarrow> string list \<Rightarrow> 't \<Rightarrow> trace_state \<Rightarrow>
     (int proc \<times> 't fs_info) run" where
  "devd_main ops sys psys aio argv t ts =
     bind_run (getopt_long_more (optstr_ok sys) (longopts_ok sys) argv devd_moreopts parse_devd_opt
                 (init_devd_options sys)) (\<lambda>(ret, _, _, opts).
       if ret < 0 then Ret (Returned 1, INIT_NGNFS_FS_INFO)
       else
         bind_run (thread_prepare_main (sigmask_ret psys) (trace_mem psys) (trace_bufs psys) ts) (\<lambda>(ret, ts).
           if ret < 0 then Ret (Returned 1, INIT_NGNFS_FS_INFO)
           else
             bind_run (devd_setup ops sys aio opts t INIT_NGNFS_FS_INFO ts) (\<lambda>(ret, nfi, ainf, ts).
             bind_run (if ret \<noteq> 0 then Ret (Returned ret, ts) else thread_sigwait (sigwait_ret psys) (errno psys) ts) (\<lambda>(r, ts).
               case r of
                 Exited status \<Rightarrow> Ret (Exited status, nfi)
               | Returned ret \<Rightarrow>
                   bind_run (devd_teardown ops sys nfi ainf ts) (\<lambda>(nfi, ts).
                     Ret (Returned (if ret \<noteq> 0 then 1 else 0), nfi))))))"

end
