(* ===== verification/Programs_Props.thy ===== *)
theory Programs_Props
  imports Programs
begin

text \<open>How the programs end: what devd has set up when it waits for requests, and exit statuses.\<close>

subsection \<open>Tracing of the main thread\<close>

text \<open>Tracing is set up for the main thread and nothing is queued for the trace file.\<close>

definition main_traced :: "trace_state \<Rightarrow> bool" where
  "main_traced ts \<longleftrightarrow> (\<exists>tr. global_trinf ts = Some tr \<and> write_q tr = [] \<and> thread_ok (write_thr tr) \<and>
     (THR_CREATED (write_thr tr) \<longrightarrow> thr_running (write_thr tr))) \<and> storing_buf (tprivs ts 0) = None"

lemma register_bufs_keeps:
  "None \<notin> set ms \<Longrightarrow> \<exists>st'. register_bufs t ms st = (0, st') \<and> global_trinf st' = global_trinf st \<and>
     storing_buf (tprivs st' t) = storing_buf (tprivs st t)"
proof (induction ms arbitrary: st)
  case (Cons m ms)
  then obtain x where m: "m = Some x" by (cases m) auto
  obtain st1 where a: "alloc_tbuf (Some x) st = (Some (next_tbuf st), st1)" "global_trinf st1 = global_trinf st"
    "tprivs st1 = tprivs st"
    by (simp add: alloc_tbuf_def)
  let ?st = "upd_tpriv t (\<lambda>tp. tp\<lparr>tp_bufs := next_tbuf st # tp_bufs tp\<rparr>) st1"
  have "register_bufs t (m # ms) st = register_bufs t ms ?st" by (simp add: m a(1))
  moreover have "global_trinf ?st = global_trinf st" "storing_buf (tprivs ?st t) = storing_buf (tprivs st t)"
    using a by (simp_all add: upd_tpriv_def)
  ultimately show ?case using Cons.IH [of ?st] Cons.prems by simp
qed simp

lemma prepare_main_result:
  assumes "None \<notin> set bufs"
  shows "\<exists>ret ts'. thread_prepare_main sm mem_ok bufs ts = Ret (ret, ts') \<and>
    (\<not> mem_ok \<and> ret = - ENOMEM \<or> mem_ok \<and> ret = 0 \<and> main_traced ts')"
proof (cases mem_ok)
  case True
  define ts0 where "ts0 = snd (trace_init True ts)"
  have "None \<notin> set (take NR_BUFS bufs)" using assms by (metis in_set_takeD)
  from register_bufs_keeps [OF this] obtain st' where r:
    "register_bufs 0 (take NR_BUFS bufs) (upd_tpriv 0 (\<lambda>tp. \<lparr>tp_bufs = [], storing_buf = None\<rparr>) ts0) = (0, st')"
    "global_trinf st' = global_trinf (upd_tpriv 0 (\<lambda>tp. \<lparr>tp_bufs = [], storing_buf = None\<rparr>) ts0)"
    "storing_buf (tprivs st' 0) = storing_buf (tprivs (upd_tpriv 0 (\<lambda>tp. \<lparr>tp_bufs = [], storing_buf = None\<rparr>) ts0) 0)"
    by blast
  have t: "trace_init True ts = (0, ts0)" "global_trinf ts0 = Some \<lparr>tr_threads = [], tr_fd = -1, write_thr = thread_init,
      write_q = [], tr_file = []\<rparr>"
    by (simp_all add: ts0_def trace_init_def)
  have "trace_register_thread 0 bufs ts0 = (0, upd_trinf (\<lambda>tr. tr\<lparr>tr_threads := tr_threads tr @ [0]\<rparr>) st')"
    using r(1) t(2) by (simp add: trace_register_thread_def)
  then have "thread_prepare_main sm mem_ok bufs ts = Ret (0, upd_trinf (\<lambda>tr. tr\<lparr>tr_threads := tr_threads tr @ [0]\<rparr>) st')"
    using t True by (simp add: thread_prepare_main_def register_thread_def)
  moreover have "main_traced (upd_trinf (\<lambda>tr. tr\<lparr>tr_threads := tr_threads tr @ [0]\<rparr>) st')"
    using r(2,3) t(2) by (simp add: main_traced_def upd_trinf_def upd_tpriv_def thread_ok_def thread_init_def)
  ultimately show ?thesis using True by simp
next
  case False
  then show ?thesis by (simp add: thread_prepare_main_def trace_init_def)
qed

lemma trace_setup_traced:
  assumes "main_traced ts" "0 \<le> cr"
  shows "\<exists>ret ts'. trace_setup fd cr ts = (ret, ts') \<and> ret \<le> 0 \<and> main_traced ts' \<and> (fd \<ge> 0 \<and> cr = 0 \<longrightarrow> ret = 0)"
  using assms by (auto simp: main_traced_def trace_setup_def upd_trinf_def thread_start_def thread_ok_def Let_def)

lemma put_list_bufs_keeps [simp]: "global_trinf (put_list_bufs bs st) = global_trinf st"
  by (induction bs arbitrary: st) (simp_all add: put_tbuf_def upd_tbuf_def Let_def)

lemma finish_main_returns:
  assumes "main_traced ts"
  shows "\<exists>ts'. thread_finish_main ts = Ret ts'"
proof -
  obtain tr where tr: "global_trinf ts = Some tr" "write_q tr = []" "thread_ok (write_thr tr)"
    "THR_CREATED (write_thr tr) \<longrightarrow> thr_running (write_thr tr)" "storing_buf (tprivs ts 0) = None"
    using assms by (auto simp: main_traced_def)
  then have "global_trinf (unregister_thread 0 ts) = Some (tr\<lparr>tr_threads := remove1 0 (tr_threads tr)\<rparr>)"
    by (simp add: unregister_thread_def trace_unregister_thread_def upd_trinf_def upd_tpriv_def Let_def)
  then show ?thesis using tr(2,4)
    by (simp add: thread_finish_main_def trace_destroy_def thread_stop_wait_def thread_stop_indicate_def Let_def)
qed

lemma sigwait_exits: "main_traced ts \<Longrightarrow> \<exists>ts'. thread_sigwait 0 en ts = Ret (Exited 1, ts')"
  by (auto simp: main_traced_def thread_sigwait_def trace_flush_def)

subsection \<open>devd\<close>

text \<open>The layers of a server that takes requests: the cache on the device, both handlers and the listener.\<close>

definition serving :: "'t fs_info \<Rightarrow> bool" where
  "serving nfi \<longleftrightarrow> block_info nfi = Some (init_block_info 63) \<and> \<not> msg_freed nfi \<and>
     (\<exists>minf. msg_info nfi = Some minf \<and> listen_info minf \<and> recv_fns minf 0 = Some Devd_get_block \<and>
        recv_fns minf 2 = Some Devd_write_block)"

lemma aio_setup_result:
  "\<exists>r. btr_aio_setup refs m od ob rk io sr gr = Ret r \<and>
     (case r of Inl e \<Rightarrow> e < 0 | Inr ainf \<Rightarrow> btr_aio_queue_depth ainf = 63)"
  by (auto simp: btr_aio_setup_def btr_aio_destroy_def thread_stop_wait_def thread_stop_indicate_def thread_init_def
      thread_start_def btr_aio_queue_depth_def Let_def)

lemma devd_block_setup_result:
  assumes "block_info nfi = None"
  shows "\<exists>ret nfi' ainf. devd_block_setup sys aio path nfi = Ret (ret, nfi', ainf) \<and>
    (ret = 0 \<and> nfi' = nfi\<lparr>block_info := Some (init_block_info 63)\<rparr> \<or> ret < 0 \<and> nfi' = nfi)"
proof (cases "block_ok sys")
  case False
  then show ?thesis by (simp add: devd_block_setup_def ngnfs_block_setup_def)
next
  case True
  obtain r where r: "btr_aio_setup Map.empty (aio_mem aio) (open_direct aio path) (open_buffered aio path) (rings_ok aio)
      (io_setup_ret aio) (submit_ret aio) (getevents_ret aio) = Ret r"
    "case r of Inl e \<Rightarrow> e < 0 | Inr ainf \<Rightarrow> btr_aio_queue_depth ainf = 63"
    using aio_setup_result by blast
  then show ?thesis using True by (cases r) (auto simp: devd_block_setup_def ngnfs_block_setup_def)
qed

lemma devd_recv_setup_fresh:
  assumes "recv_fns minf = (\<lambda>_. None)"
  shows "\<exists>minf'. devd_recv_setup minf = (0, minf') \<and> listen_info minf' = listen_info minf \<and>
    recv_fns minf' 0 = Some Devd_get_block \<and> recv_fns minf' 2 = Some Devd_write_block"
  using assms by (simp add: devd_recv_setup_def ngnfs_msg_register_recv_def word_le_nat_alt)

lemma devd_setup_result:
  assumes "mtr_setup ops = None" "\<And>a t. fst (start_listen ops a t) \<le> 0" "0 \<le> trace_thread sys" "main_traced ts"
  shows "\<exists>ret nfi ainf ts'. devd_setup ops sys aio opts t INIT_NGNFS_FS_INFO ts = Ret (ret, nfi, ainf, ts') \<and> main_traced ts' \<and>
    (ret = 0 \<and> serving nfi \<or> ret < 0 \<and> block_info nfi = None \<and> \<not> msg_freed nfi)"
proof -
  let ?i = "INIT_NGNFS_FS_INFO :: 'a fs_info"
  have i: "block_info ?i = None" "\<not> msg_freed ?i" by (simp_all add: INIT_NGNFS_FS_INFO_def)
  obtain tr ts' where tr: "trace_setup (open_trace sys (devd_trace_path opts)) (trace_thread sys) ts = (tr, ts')" "tr \<le> 0"
    "main_traced ts'"
    using trace_setup_traced [OF assms(4,3)] by blast
  define m where "m = mount_msg ops sys (Some (listen_addr opts)) t ?i"
  have m: "fst m \<le> 0" "block_info (snd m) = None" "\<not> msg_freed (snd m)"
    "fst m = 0 \<Longrightarrow> \<exists>minf. msg_info (snd m) = Some minf \<and> listen_info minf \<and> recv_fns minf = (\<lambda>_. None)"
    using i assms(1) assms(2) [of "listen_addr opts" "t"]
    by (auto simp: m_def mount_msg_def ngnfs_msg_setup_def new_msg_info_def Let_def split: prod.splits if_splits)
  show ?thesis
  proof (cases "tr = 0 \<and> fst m = 0")
    case False
    then show ?thesis using tr m(1-3) i
      by (cases m) (auto simp: devd_setup_def m_def [symmetric] Let_def)
  next
    case True
    obtain ret nfi ainf where b: "devd_block_setup sys aio (dev_path opts) (snd m) = Ret (ret, nfi, ainf)"
      "ret = 0 \<and> nfi = (snd m)\<lparr>block_info := Some (init_block_info 63)\<rparr> \<or> ret < 0 \<and> nfi = snd m"
      using devd_block_setup_result [OF m(2)] by blast
    obtain minf where mi: "msg_info (snd m) = Some minf" "listen_info minf" "recv_fns minf = (\<lambda>_. None)"
      using m(4) True by blast
    obtain minf' where mi': "devd_recv_setup minf = (0, minf')" "listen_info minf'"
      "recv_fns minf' 0 = Some Devd_get_block" "recv_fns minf' 2 = Some Devd_write_block"
      using devd_recv_setup_fresh [OF mi(3)] mi(2) by auto
    show ?thesis using True tr b mi(1) mi' m(2,3)
      by (cases m) (auto simp: devd_setup_def m_def [symmetric] serving_def Let_def)
  qed
qed

lemma devd_teardown_result:
  assumes "block_info nfi = None" "\<not> msg_freed nfi" "main_traced ts"
  shows "\<exists>nfi' ts'. devd_teardown ops sys nfi ainf ts = Ret (nfi', ts') \<and> block_info nfi' = None \<and>
    (msg_info nfi' = None \<or> msg_freed nfi')"
proof -
  obtain ts' where "thread_finish_main ts = Ret ts'" using finish_main_returns [OF assms(3)] by blast
  then show ?thesis using assms(1,2)
    by (auto simp: devd_teardown_def devd_block_destroy_def unmount_msg_def Let_def split: option.split)
qed


subsection \<open>debugfs\<close>

lemma debugfs_func_result:
  assumes "None \<notin> set (trace_bufs psys)" "sigwait_ret psys = 0" "0 \<le> create_ret psys" "global_trinf ts = None"
  shows "\<exists>r ts'. debugfs_func psys work ts = Ret (r, ts') \<and>
    (trace_mem psys \<and> create_ret psys = 0 \<and> r = Exited 1 \<or>
     (\<not> trace_mem psys \<or> create_ret psys \<noteq> 0) \<and> (\<exists>ret < 0. r = Returned ret))"
proof (cases "trace_mem psys")
  case False
  have "thread_finish_main ts = Ret ts"
    using assms(4) by (simp add: thread_finish_main_def unregister_thread_def trace_unregister_thread_def trace_destroy_def)
  then show ?thesis using False by (simp add: debugfs_func_def thread_prepare_main_def trace_init_def)
next
  case True
  obtain ts1 where p: "thread_prepare_main (sigmask_ret psys) True (trace_bufs psys) ts = Ret (0, ts1)" "main_traced ts1"
    using prepare_main_result [OF assms(1), of "sigmask_ret psys" True ts] by auto
  obtain ts2 where w: "thread_sigwait 0 (errno psys) ts1 = Ret (Exited 1, ts2)" using sigwait_exits [OF p(2)] by blast
  obtain ts3 where f: "thread_finish_main ts1 = Ret ts3" using finish_main_returns [OF p(2)] by blast
  show ?thesis
  proof (cases "create_ret psys = 0")
    case c: True
    then show ?thesis using True p w assms(2) by (auto simp: debugfs_func_def thread_start_def)
  next
    case False
    then show ?thesis using True p f assms(3)
      by (auto simp: debugfs_func_def thread_start_def thread_init_def thread_stop_wait_def thread_stop_indicate_def)
  qed
qed

text \<open>
  The debugfs command never reports success: once a signal is caught the exit status of
  ngnfs-cli is 1, whatever the debugfs thread has done and would have returned, and it is 1
  when tracing or the thread cannot be set up.  A command that is not registered, and no command
  at all, give 1 as well.
\<close>

theorem debugfs_status_is_failure:
  assumes "None \<notin> set (trace_bufs psys)" "sigwait_ret psys = 0" "0 \<le> create_ret psys" "global_trinf ts = None"
    and "find_command ''debugfs'' cmds = Some (''debugfs'', dsc, \<lambda>_. bind_run (debugfs_func psys work ts) (\<lambda>(r, _). Ret r))"
  shows "cli_main cmds (prog # ''debugfs'' # args) = Ret 1 \<and>
    (find_command name cmds = None \<longrightarrow> cli_main cmds (prog # name # args) = Ret 1) \<and> cli_main cmds [prog] = Ret 1"
proof -
  obtain r ts' where "debugfs_func psys work ts = Ret (r, ts')" "r = Exited 1 \<or> (\<exists>ret < 0. r = Returned ret)"
    using debugfs_func_result [OF assms(1-4), of work] by blast
  then show ?thesis using assms(5) by (auto simp: cli_main_def)
qed

subsection \<open>Witnesses\<close>

definition example_prog :: prog_sys where
  "example_prog = \<lparr>sigmask_ret = 0, trace_mem = True, trace_bufs = [Some (\<lambda>_. 0)], create_ret = 0, sigwait_ret = 0, errno = 0\<rparr>"

definition example_aio :: aio_sys where
  "example_aio = \<lparr>aio_mem = True, open_direct = (\<lambda>_. 4), open_buffered = (\<lambda>_. 4), rings_ok = True, io_setup_ret = 0,
     submit_ret = 0, getevents_ret = 0\<rparr>"


theorem debugfs_status_is_failure_witness:
  "cli_main [(''debugfs'', ''debugfs desc'', \<lambda>_. bind_run (debugfs_func example_prog (\<lambda>ts. Ret (0, ts))
      (example_trace\<lparr>global_trinf := None\<rparr>)) (\<lambda>(r, _). Ret r))] [''ngnfs-cli'', ''debugfs''] = Ret 1"
  using debugfs_status_is_failure [of example_prog "example_trace\<lparr>global_trinf := None\<rparr>"
    "[(''debugfs'', ''debugfs desc'', \<lambda>_. bind_run (debugfs_func example_prog (\<lambda>ts. Ret (0, ts))
      (example_trace\<lparr>global_trinf := None\<rparr>)) (\<lambda>(r, _). Ret r))]" "''debugfs desc''" "\<lambda>ts. Ret (0, ts)" "''ngnfs-cli''" "[]"]
  by (simp add: example_prog_def)

end
