(* ===== verification/Spec2Isabelle.thy ===== *)
theory Spec2Isabelle
  imports
    Btree_Props Block_Props Block_Submit Block_Race Block_Live Block_Sync Block_Round Txn_Props Pfs_Props Devd Remote
    Lk_List_Props Lk_List_Entry Lk_Hlist Lk_Llist Lk_Jhash Lk_Rhashtable Lk_Wait Lk_Workqueue
    Lk_Atomic Lk_Gfp Lk_Sys
    Msg_Props Mtr_Socket_Props Block_Proto_Props Btr_Aio_Props Trace_Props
    Parse_Props Mount_Props Debugfs_Props Programs_Props
begin

text \<open>
  \<^bold>\<open>ngnfs: a verification library for the user space programs\<close>

  ngnfs is a network file system.  Clients keep metadata blocks in a cache, change them in
  transactions and read and write them over a message protocol to block servers (devd), which keep
  a cache of their own over a device.  This library models the C code of that system as HOL
  functions and step relations and proves what makes the parts correct.

  \<^bold>\<open>The parts and how they interact\<close>

  The debugfs commands (\<open>cli/debugfs.c\<close>) call the file system operations (\<open>shared/pfs.c\<close>), which are
  transactions (\<open>shared/txn.c\<close>) whose callbacks change btree blocks (\<open>shared/btree.c\<close>).  A transaction
  gets and dirties blocks of the block cache (\<open>shared/block.c\<close>), which submits reads and writes to a block
  transport from works of a work queue (\<open>shared/lk/workqueue.c\<close>).  The client's transport
  (\<open>shared/btr-msg.c\<close>) maps a block to a server (\<open>shared/manifest.c\<close>) and sends a message
  (\<open>shared/msg.c\<close>) over a socket (\<open>shared/mtr-socket.c\<close>); devd's handlers (\<open>devd/recv.c\<close>) answer it from
  their own block cache, whose transport is aio (\<open>devd/btr-aio.c\<close>).  Threads
  (\<open>shared/thread.c\<close>) store trace events (\<open>shared/trace.c\<close>), which a command prints
  (\<open>cli/print-trace-file.c\<close>).  The programs (\<open>cli/ngnfs-cli.c\<close>, \<open>devd/ngnfs-devd.c\<close>) parse their options
  (\<open>shared/options.c\<close>, \<open>shared/parse.c\<close>), set the layers up, the client in a mount (\<open>shared/mount.c\<close>), and wait for
  signals.  Under all of them is the compatibility layer \<open>shared/lk\<close>.

  \<^bold>\<open>Conventions\<close> (\<open>Ngnfs_Prelude\<close>, \<open>Lk_Mem\<close>)

  \<^item> A function that can reach an assertion returns a \<open>run\<close>: \<open>Ret\<close> and its results, \<open>Bug\<close> for a failed
    assertion, \<open>Spin\<close> for a loop or a wait that has not ended, \<open>Undef\<close> for undefined behaviour.
  \<^item> Results of calls into the system (allocation, system calls, thread creation) are arguments,
    so every error path is a branch of the model.  An error is a negative errno, as in C.
  \<^item> Memory is a function from offsets to bytes; structures that the code lays out in bytes (btree
    blocks, messages, inodes, trace events) are modelled on these bytes.  Other structures are records,
    pointers to them are numbers, and a C list is a HOL list except in \<open>Lk_List\<close>, \<open>Lk_Hlist\<close> and
    \<open>Lk_Llist\<close>, which model the pointers themselves.
  \<^item> Integers that can wrap are words, or \<open>nat\<close> and \<open>int\<close> with the conversion written out.
  \<^item> A component with several threads is a step relation; \<open>reach\<close> are its reachable states, and the
    locales \<open>kept_system\<close> and \<open>invariant_system\<close> carry invariants to them.

  \<^bold>\<open>Theories, sources and results\<close>

  \<^item> \<open>Btree_Block\<close> (\<open>shared/btree.c\<close>, single block operations), \<open>Btree_Multi\<close> (moving items, split,
    merge, refill, compact, verify).  \<open>Btree_Keys\<close>, \<open>Btree_Search\<close>, \<open>Btree_Insert\<close>, \<open>Btree_Delete\<close>: the key
    order, the binary search and the byte level effect of insert and delete on a well-formed block.
    \<open>Btree_Map\<close>: the contract of a block as a bounded map (a locale, interpreted on the byte
    operations).  \<open>Btree_Multi_Props\<close>, \<open>Btree_Merge\<close>, \<open>Btree_Props\<close>: lookup, insert and delete, one at a time
    and in sequences, refine the map, bulk loading, merging of siblings, and what compact, verify and split do in fact.
  \<^item> \<open>Block_Cache\<close> (\<open>shared/block.c\<close>).  A function with a wait is cut at the wait: what it does
    before, the condition, what it does after.  \<open>Block_Walk\<close>: what every piece of the walk over the blocks to dirty
    keeps, the walk and its callers keep (the locales \<open>walk_kept\<close> and \<open>walk_large_kept\<close>, interpreted on the views and
    predicates of the theories below).  \<open>Block_Inv\<close>, \<open>Block_Writeback\<close>, \<open>Block_Dirty\<close>: the invariant of
    the cache and that every operation keeps it.  \<open>Block_Sys\<close>: threads, works and transport as
    a step relation.  \<open>Block_Props\<close>: modifications are isolated, a sync means written, the writeback order and the
    accounting.  \<open>Block_Ref\<close>, \<open>Block_Ref_Io\<close>, \<open>Block_Ref_Sys\<close>: the reference counts of blocks and sets are exact in
    every reachable state.  \<open>Block_Safe\<close>, \<open>Block_Race\<close>: every call returns, without a failed
    assertion or a corrupted list, unless a block is taken as new while it is being read; that race loses a write.
    \<open>Block_Queued\<close>, \<open>Block_Live\<close>: a work is queued whenever there is something for it to do, so a sync and a read that
    threads wait for can be finished by the works and the transport alone (the waits of a thread that wants
    to dirty blocks are not covered).  \<open>Block_Submit\<close>: the bound on the requests a cache can submit.  \<open>Block_Sync\<close>: the sync
    functions with the steps of their compare and exchange loops interleaved; they refine the
    functions of \<open>Block_Cache\<close>, and a write error reaches every waiting task.
  \<^item> \<open>Txn\<close>, \<open>Txn_Props\<close> (\<open>shared/txn.c\<close>): all or nothing.  \<open>Pfs\<close>, \<open>Pfs_Props\<close> (\<open>shared/pfs.c\<close> and
    the commands of \<open>cli/debugfs.c\<close>): what mkfs leaves in the cache and what stat prints.
  \<^item> \<open>Parse\<close>, \<open>Parse_Props\<close> (\<open>shared/nerr.h\<close>, \<open>shared/parse.c\<close>): printed addresses are parsed back.
    \<open>Options\<close>, \<open>Options_Props\<close> (\<open>shared/options.c\<close>): the contract of option parsing, a locale
    with the caller's table and parse function, interpreted in \<open>Mount_Props\<close> on the options of mount and of
    devd.  \<open>Mount\<close>, \<open>Mount_Props\<close> (\<open>shared/mount.c\<close>, \<open>shared/fs_info.h\<close>): a mount is all or
    nothing, and the command line decides which server a block maps to.
  \<^item> \<open>Debugfs\<close>, \<open>Debugfs_Props\<close> (\<open>cli/debugfs.c\<close>): lines run the command their first word names; mkfs and
    stat as a session, the composition of command loop, transaction, cache and btree block.  \<open>Programs\<close>,
    \<open>Programs_Props\<close> (\<open>cli/ngnfs-cli.c\<close>, \<open>devd/ngnfs-devd.c\<close>, \<open>thread_sigwait\<close>): how the programs end.
  \<^item> \<open>Msg\<close>, \<open>Msg_Props\<close> (\<open>shared/msg.c\<close>, \<open>shared/format-msg.h\<close>): peers and their references.
    \<open>Mtr_Socket\<close>, \<open>Mtr_Socket_Props\<close> (\<open>shared/mtr-socket.c\<close>): messages arrive whole and in order however
    the system splits reads and writes.  \<open>Block_Proto\<close>, \<open>Block_Proto_Props\<close> (\<open>shared/manifest.c\<close>,
    \<open>shared/btr-msg.c\<close>, \<open>devd/recv.c\<close>): requests and answers fit together.  \<open>Devd\<close>: the server's handlers on
    its transactions and its block cache; a block that was written is read back by any client.
  \<^item> \<open>Block_Round\<close>: one block of a quiet cache from a get or a sync, through the queued works, to the completion of its
    request.  \<open>Remote\<close>: the system composed.  The contract of a connection is the locale \<open>message_wire\<close>, interpreted on
    the socket transport; a server is its registered handlers on its cache and device, a client its cache, works and
    registered handlers.  What mkfs makes on one client, stat prints on another, and both return.
  \<^item> \<open>Btr_Aio\<close>, \<open>Btr_Aio_Props\<close> (\<open>devd/btr-aio.c\<close>): one request at a time, and what it does to the references
    of its page.
  \<^item> \<open>Trace\<close>, \<open>Trace_Props\<close> (\<open>shared/trace.c\<close>, \<open>cli/print-trace-file.c\<close>, registration in
    \<open>shared/thread.c\<close>): an event from its store to the printed file.
  \<^item> \<open>Lk_List\<close>, \<open>Lk_List_Props\<close> (\<open>shared/lk/list.h\<close>): the pointer operations refine operations on
    sequences (a locale, interpreted on the heap functions); \<open>Lk_Hlist\<close>: the single pointer lists;
    \<open>Lk_List_Entry\<close>: the loops over entries.  \<open>Lk_Llist\<close> (\<open>shared/lk/llist.h\<close> and the gathering in
    \<open>shared/block.c\<close>): on what liburcu documents a lockless list carries what is added to it; what happens while a
    push is in flight.  \<open>Lk_Wait\<close> (\<open>shared/lk/wait.h\<close>, \<open>clear_bit_and_wake_up\<close> of
    \<open>shared/block.c\<close>): no wakeup is missed, which is what allows the other models to treat a wait as its condition.
    \<open>Lk_Atomic\<close> (\<open>shared/lk/atomic.h\<close>): compare and exchange loops act as one step, and a
    reference count frees its object once.  \<open>Lk_Rhashtable\<close> (\<open>shared/lk/rhashtable.c\<close>): on
    what liburcu documents a hash table is a map, as the block cache and the messages have it.
    \<open>Lk_Words\<close> (byte order, unaligned access, bit operations, rounding, error pointers), \<open>Lk_Jhash\<close>,
    \<open>Lk_Thread\<close>, \<open>Lk_Workqueue\<close> (\<open>shared/lk/workqueue.c\<close>): works are called in order, and how destruction ends.
    \<open>Lk_Gfp\<close> (\<open>shared/lk/slab.h\<close>, \<open>shared/lk/gfp.h\<close>, \<open>shared/lk/vmalloc.h\<close>): allocations can be freed, and pages
    never are.  \<open>Lk_Sys\<close>: mutexes, clock times, warnings and the dividing and comparing macros.

  \<^bold>\<open>Fuel\<close>

  Loops that are not structural have fuel and return \<open>Spin\<close> without it.  The search of a btree block gets
  one round per item and one more, which is shown to be enough; list loops get the length of the list;
  \<open>whole_iovec\<close> gets one round per byte, and every call moves a byte or ends it; the bitmap loop gets
  64 rounds, one per bit; the printer gets one round per byte, enough unless a header has size 0, for which the code
  does not end either.  The compaction loop of the btree never ends in the code, and its theorem says so.  The
  waits of \<open>txn_dirty_begin\<close> have a bound the theorems quantify over.  \<open>inet_aton\<close> gets four rounds, one per part of an
  address.

  \<^bold>\<open>Abstractions\<close>

  \<^item> Between two waits a function of the block cache runs without interference, except in \<open>Block_Sync\<close>;
    the memory ordering of the lock free code and of the waits is not modelled, nor are RCU grace periods.
  \<^item> The wait free queues, stacks and hash tables of liburcu are lists and maps, except in \<open>Lk_Llist\<close> and
    \<open>Lk_Rhashtable\<close>, where they are parameters with what liburcu documents as hypotheses.
  \<^item> The block cache and the socket transport have the bytes of a page in the place of a pointer to it; the
    reference counts of pages are in \<open>Lk_Gfp\<close> and \<open>Btr_Aio\<close>.
  \<^item> The C library functions that the option and line parsers call (\<open>strtoll\<close>, \<open>inet_aton\<close>, \<open>getopt_long\<close>,
    \<open>strtok_r\<close>, \<open>bsearch\<close>, \<open>qsort\<close>, \<open>fgets\<close>) are modelled after their documentation, for the arguments the code gives them.
  \<^item> Block IO, the kernel's aio and the network are parameters: what they return, and in which
    order, is arbitrary within what each theorem states.

  \<^bold>\<open>Not modelled\<close>

  The names \<open>shared/lk\<close> gives to memory barriers, volatile accesses and the RCU functions of liburcu, which have no
  effect in models whose steps are atomic and in order; constants and declarations no function uses.  Of what the
  programs print only the results of commands and the help of the options are modelled.  The trace event functions are
  generated when the program is built and are not part of the sources.
\<close>

end
